(* ===== verification/Prelude.thy ===== *)
theory Prelude
  imports Complex_Main
begin

text \<open>
  Shared ground of the development: how a TypeScript function that may throw is
  modelled (a sum whose left side is the thrown error), how a loop that may throw is
  folded or mapped over a list, stable sorting with a comparator (the language's
  \<^verbatim>\<open>Array.prototype.sort\<close>), insertion-ordered maps (the language's
  \<^verbatim>\<open>Map\<close>), and the generic lemmas the component theories use.
\<close>

named_theorems ok_simps \<open>when a sequence of throwing steps returns a value\<close>

section \<open>Thrown errors\<close>

text \<open>
  A domain error carries the service's error code and the HTTP status the constructor
  received; the message text and the details object are not modelled. \<open>NativeError\<close> is an
  error thrown by the language or by a plain \<^verbatim>\<open>new Error(..)\<close>.
\<close>

datatype 'c err = DomainError 'c nat | NativeError string

type_synonym ('c, 'a) result = "'c err + 'a"

definition ebind :: "'e + 'a \<Rightarrow> ('a \<Rightarrow> 'e + 'b) \<Rightarrow> 'e + 'b" where
  "ebind m f = (case m of Inl e \<Rightarrow> Inl e | Inr a \<Rightarrow> f a)"

definition throw_if :: "bool \<Rightarrow> 'e \<Rightarrow> 'e + unit" where
  "throw_if b e = (if b then Inl e else Inr ())"

definition is_ok :: "'e + 'a \<Rightarrow> bool" where
  "is_ok m = (case m of Inl _ \<Rightarrow> False | Inr _ \<Rightarrow> True)"

lemma ebind_Inl [simp]: "ebind (Inl e) f = Inl e"
  by (simp add: ebind_def)

lemma ebind_Inr [simp]: "ebind (Inr a) f = f a"
  by (simp add: ebind_def)

lemma is_ok_simps [simp]: "is_ok (Inr a)" "\<not> is_ok (Inl e)"
  by (simp_all add: is_ok_def)

lemma ebind_eq_Inr [ok_simps]: "ebind m f = Inr b \<longleftrightarrow> (\<exists>a. m = Inr a \<and> f a = Inr b)"
  by (cases m) auto

lemma ebind_eq_Inl: "ebind m f = Inl e \<longleftrightarrow> m = Inl e \<or> (\<exists>a. m = Inr a \<and> f a = Inl e)"
  by (cases m) auto

lemma throw_if_simps [simp]: "throw_if True e = Inl e" "throw_if False e = Inr ()"
  by (simp_all add: throw_if_def)

lemma throw_if_eq_Inr [ok_simps]: "throw_if b e = Inr u \<longleftrightarrow> \<not> b"
  by (simp add: throw_if_def)

lemma throw_if_eq_Inl: "throw_if b e = Inl e' \<longleftrightarrow> b \<and> e' = e"
  by (auto simp: throw_if_def)

lemma if_Inl_eq_Inr [ok_simps]: "(if b then Inl e else m) = Inr x \<longleftrightarrow> \<not> b \<and> m = Inr x"
  by auto

lemma ebind_cong [fundef_cong]:
  "m = m' \<Longrightarrow> (\<And>a. m' = Inr a \<Longrightarrow> f a = g a) \<Longrightarrow> ebind m f = ebind m' g"
  by (cases m') auto

section \<open>Loops that may throw\<close>

text \<open>A \<^verbatim>\<open>for ... of\<close> loop over an accumulator, and a \<^verbatim>\<open>map\<close> whose callback may throw.\<close>

fun efold :: "('a \<Rightarrow> 's \<Rightarrow> 'e + 's) \<Rightarrow> 'a list \<Rightarrow> 's \<Rightarrow> 'e + 's" where
  "efold f [] s = Inr s"
| "efold f (x # xs) s = ebind (f x s) (efold f xs)"

fun emap :: "('a \<Rightarrow> 'e + 'b) \<Rightarrow> 'a list \<Rightarrow> 'e + 'b list" where
  "emap f [] = Inr []"
| "emap f (x # xs) = ebind (f x) (\<lambda>y. ebind (emap f xs) (\<lambda>ys. Inr (y # ys)))"

text \<open>The index-carrying form, for a loop \<^verbatim>\<open>for (let i = 0; ...)\<close> that uses its counter.\<close>

fun emapi :: "(nat \<Rightarrow> 'a \<Rightarrow> 'e + 'b) \<Rightarrow> nat \<Rightarrow> 'a list \<Rightarrow> 'e + 'b list" where
  "emapi f i [] = Inr []"
| "emapi f i (x # xs) = ebind (f i x) (\<lambda>y. ebind (emapi f (Suc i) xs) (\<lambda>ys. Inr (y # ys)))"

lemma efold_append: "efold f (xs @ ys) s = ebind (efold f xs s) (efold f ys)"
  by (induction xs arbitrary: s) (auto simp: ebind_def split: sum.splits)

lemma efold_invariant:
  assumes "efold f xs s = Inr t" and "I s"
    and "\<And>x s s'. x \<in> set xs \<Longrightarrow> I s \<Longrightarrow> f x s = Inr s' \<Longrightarrow> I s'"
  shows "I t"
  using assms
proof (induction xs arbitrary: s)
  case (Cons x xs)
  then obtain s' where s': "f x s = Inr s'" "efold f xs s' = Inr t"
    by (auto simp: ok_simps)
  have "I s'"
    using Cons.prems(2,3) s'(1) by (meson list.set_intros(1))
  then show ?case
    using Cons.IH s'(2) Cons.prems(3) by (meson list.set_intros(2))
qed simp

lemma emap_Inr_iff: "emap f xs = Inr ys \<longleftrightarrow> list_all2 (\<lambda>x y. f x = Inr y) xs ys"
  by (induction xs arbitrary: ys) (auto simp: ok_simps list_all2_Cons1)

lemma emap_length: "emap f xs = Inr ys \<Longrightarrow> length ys = length xs"
  by (auto simp: emap_Inr_iff dest: list_all2_lengthD)

lemma emap_total: "(\<And>x. x \<in> set xs \<Longrightarrow> f x = Inr (g x)) \<Longrightarrow> emap f xs = Inr (map g xs)"
  by (induction xs) auto

lemma emapi_Inr_iff:
  "emapi f i xs = Inr ys \<longleftrightarrow>
     length ys = length xs \<and> (\<forall>k < length xs. f (i + k) (xs ! k) = Inr (ys ! k))"
proof (induction xs arbitrary: i ys)
  case (Cons x xs)
  show ?case
  proof (cases ys)
    case (Cons y zs)
    then show ?thesis
      using Cons.IH [of "Suc i" zs]
      by (auto simp: ok_simps nth_Cons less_Suc_eq_0_disj split: nat.splits)
  qed (auto simp: ok_simps)
qed auto

lemma emapi_length: "emapi f i xs = Inr ys \<Longrightarrow> length ys = length xs"
  by (simp add: emapi_Inr_iff)

lemma find_SomeD: "find P xs = Some x \<Longrightarrow> x \<in> set xs \<and> P x"
  by (auto simp: find_Some_iff)

lemma find_append: "find P (xs @ ys) = (case find P xs of None \<Rightarrow> find P ys | Some x \<Rightarrow> Some x)"
  by (induction xs) auto

section \<open>Stable sorting with a comparator\<close>

text \<open>
  \<^verbatim>\<open>xs.sort(cmp)\<close> is stable since ECMAScript 2019, so for a consistent comparator its result
  is determined; insertion sort computes it. \<open>cmp a b \<le> 0\<close> keeps \<open>a\<close> before \<open>b\<close>.
\<close>

fun js_insert :: "('a \<Rightarrow> 'a \<Rightarrow> int) \<Rightarrow> 'a \<Rightarrow> 'a list \<Rightarrow> 'a list" where
  "js_insert cmp x [] = [x]"
| "js_insert cmp x (y # ys) = (if cmp x y \<le> 0 then x # y # ys else y # js_insert cmp x ys)"

fun js_sort :: "('a \<Rightarrow> 'a \<Rightarrow> int) \<Rightarrow> 'a list \<Rightarrow> 'a list" where
  "js_sort cmp [] = []"
| "js_sort cmp (x # xs) = js_insert cmp x (js_sort cmp xs)"

lemma set_js_insert [simp]: "set (js_insert cmp x xs) = insert x (set xs)"
  by (induction xs) auto

lemma set_js_sort [simp]: "set (js_sort cmp xs) = set xs"
  by (induction xs) auto

lemma length_js_insert [simp]: "length (js_insert cmp x xs) = Suc (length xs)"
  by (induction xs) auto

lemma length_js_sort [simp]: "length (js_sort cmp xs) = length xs"
  by (induction xs) auto

lemma js_sort_eq_Nil [simp]: "js_sort cmp xs = [] \<longleftrightarrow> xs = []"
  by (metis length_0_conv length_js_sort)

lemma distinct_map_js_insert:
  "distinct (map g (js_insert cmp x xs)) \<longleftrightarrow> g x \<notin> g ` set xs \<and> distinct (map g xs)"
  by (induction xs) auto

lemma distinct_map_js_sort [simp]: "distinct (map g (js_sort cmp xs)) \<longleftrightarrow> distinct (map g xs)"
  by (induction xs) (auto simp: distinct_map_js_insert)

lemma sum_filter_js_insert:
  "sum_list (map f (filter P (js_insert cmp x xs))) = (if P x then f x else 0) + sum_list (map f (filter P xs))"
  for f :: "'a \<Rightarrow> int"
  by (induction xs) auto

lemma sum_filter_js_sort [simp]:
  "sum_list (map f (filter P (js_sort cmp xs))) = sum_list (map f (filter P xs))"
  for f :: "'a \<Rightarrow> int"
  by (induction xs) (auto simp: sum_filter_js_insert)

text \<open>The contract of a comparator that the language calls consistent.\<close>

locale comparator =
  fixes cmp :: "'a \<Rightarrow> 'a \<Rightarrow> int"
  assumes cmp_refl: "cmp x x = 0"
    and cmp_antisym: "cmp x y \<le> 0 \<longleftrightarrow> 0 \<le> cmp y x"
    and cmp_trans: "cmp x y \<le> 0 \<Longrightarrow> cmp y z \<le> 0 \<Longrightarrow> cmp x z \<le> 0"
begin

lemma cmp_total: "cmp x y \<le> 0 \<or> cmp y x \<le> 0"
  using cmp_antisym by force

lemma js_insert_sorted:
  "sorted_wrt (\<lambda>a b. cmp a b \<le> 0) xs \<Longrightarrow> sorted_wrt (\<lambda>a b. cmp a b \<le> 0) (js_insert cmp x xs)"
proof (induction xs)
  case (Cons y ys)
  then show ?case
    using cmp_total by (auto intro: cmp_trans)
qed simp

lemma js_sort_sorted: "sorted_wrt (\<lambda>a b. cmp a b \<le> 0) (js_sort cmp xs)"
  by (induction xs) (auto intro: js_insert_sorted)

lemma js_sort_hd_least: "x \<in> set xs \<Longrightarrow> cmp (hd (js_sort cmp xs)) x \<le> 0"
proof -
  assume x: "x \<in> set xs"
  obtain y ys where ys: "js_sort cmp xs = y # ys"
    using x by (metis js_sort_eq_Nil empty_iff list.set(1) neq_Nil_conv)
  have "x \<in> set (y # ys)"
    using x ys set_js_sort [of cmp xs] by simp
  moreover have "sorted_wrt (\<lambda>a b. cmp a b \<le> 0) (y # ys)"
    using js_sort_sorted [of xs] ys by simp
  ultimately show ?thesis
    using ys cmp_refl by auto
qed

end

section \<open>Insertion-ordered maps\<close>

text \<open>
  The language's \<^verbatim>\<open>Map\<close> iterates in the order of first insertion, and \<^verbatim>\<open>set\<close> on a present key
  keeps its place: an association list with distinct keys.
\<close>

type_synonym ('k, 'v) jsmap = "('k \<times> 'v) list"

fun map_set :: "'k \<Rightarrow> 'v \<Rightarrow> ('k, 'v) jsmap \<Rightarrow> ('k, 'v) jsmap" where
  "map_set k v [] = [(k, v)]"
| "map_set k v ((k', v') # m) = (if k' = k then (k, v) # m else (k', v') # map_set k v m)"

definition map_get :: "('k, 'v) jsmap \<Rightarrow> 'k \<Rightarrow> 'v option" where
  "map_get = map_of"

lemma map_get_Nil [simp]: "map_get [] k = None"
  by (simp add: map_get_def)

lemma map_get_set [simp]: "map_get (map_set k v m) k' = (if k' = k then Some v else map_get m k')"
  by (induction m) (auto simp: map_get_def)

lemma map_set_twice [simp]: "map_set k v (map_set k w m) = map_set k v m"
  by (induction m) auto

lemma map_get_set_fun: "map_get (map_set k v m) = (map_get m)(k \<mapsto> v)"
  by (rule ext) simp

lemma map_fst_map_set:
  "map fst (map_set k v m) = (if k \<in> set (map fst m) then map fst m else map fst m @ [k])"
  by (induction k v m rule: map_set.induct) auto

lemma keys_map_set: "set (map fst (map_set k v m)) = insert k (set (map fst m))"
  by (auto simp only: map_fst_map_set set_append set_simps split: if_splits)

lemma set_map_set: "set (map_set k v m) \<subseteq> insert (k, v) (set m)"
  by (induction k v m rule: map_set.induct) auto

lemma set_map_set_elem: "x \<in> set (map_set k v m) \<Longrightarrow> x = (k, v) \<or> x \<in> set m"
  using set_map_set [of k v m] by blast

lemma distinct_map_set: "distinct (map fst m) \<Longrightarrow> distinct (map fst (map_set k v m))"
  by (simp only: map_fst_map_set) simp

lemma map_get_in_set: "map_get m k = Some v \<Longrightarrow> (k, v) \<in> set m"
  by (simp add: map_get_def map_of_SomeD)

lemma map_get_eq_Some: "distinct (map fst m) \<Longrightarrow> map_get m k = Some v \<longleftrightarrow> (k, v) \<in> set m"
  by (simp add: map_get_def)

lemma map_get_fold_set:
  "map_get (fold (\<lambda>x m. map_set (f x) x m) xs m) k =
     (case find (\<lambda>x. f x = k) (rev xs) of Some x \<Rightarrow> Some x | None \<Rightarrow> map_get m k)"
proof (induction xs rule: rev_induct)
  case (snoc x xs)
  then show ?case by simp
qed simp

text \<open>Summing a measure over the values of a map, and what \<^verbatim>\<open>set\<close> does to the sum.\<close>

definition map_sum :: "('v \<Rightarrow> int) \<Rightarrow> ('k, 'v) jsmap \<Rightarrow> int" where
  "map_sum g m = sum_list (map (g \<circ> snd) m)"

lemma map_sum_Nil [simp]: "map_sum g [] = 0"
  by (simp add: map_sum_def)

lemma map_sum_set:
  "map_sum g (map_set k v m) = map_sum g m + g v - (case map_get m k of None \<Rightarrow> 0 | Some w \<Rightarrow> g w)"
  by (induction m) (auto simp: map_sum_def map_get_def split: option.splits)

section \<open>Arithmetic shared by the components\<close>

text \<open>Half-up division of the non-negative amounts the code divides.\<close>

definition half_up :: "int \<Rightarrow> int \<Rightarrow> int" where
  "half_up n d = (n + d div 2) div d"

lemma half_up_nonneg: "0 \<le> n \<Longrightarrow> 0 < d \<Longrightarrow> 0 \<le> half_up n d"
  by (simp add: half_up_def pos_imp_zdiv_nonneg_iff)

lemma half_up_error:
  assumes "0 < d"
  shows "\<bar>2 * (half_up n d * d - n)\<bar> \<le> d"
proof -
  have "half_up n d * d = (n + d div 2) - (n + d div 2) mod d"
    unfolding half_up_def by (simp add: minus_mod_eq_div_mult)
  moreover have "0 \<le> (n + d div 2) mod d" "(n + d div 2) mod d < d"
    using assms by simp_all
  moreover have "2 * (d div 2) \<le> d" "d \<le> 2 * (d div 2) + 1"
    by presburger+
  ultimately show ?thesis by (simp add: abs_le_iff)
qed

lemma half_up_mono: "n \<le> m \<Longrightarrow> 0 < d \<Longrightarrow> half_up n d \<le> half_up m d"
  unfolding half_up_def by (intro zdiv_mono1) simp_all

lemma half_up_mult [simp]: "0 < d \<Longrightarrow> half_up (k * d) d = k"
proof -
  assume d: "0 < d"
  have "half_up (k * d) d = k + (d div 2) div d"
    using d by (simp add: half_up_def)
  also have "(d div 2) div d = 0"
    using d by (simp add: div_pos_pos_trivial)
  finally show ?thesis by simp
qed

lemma half_up_le: "n \<le> k * d \<Longrightarrow> 0 < d \<Longrightarrow> half_up n d \<le> k"
  using half_up_mono [of n "k * d" d] by simp

lemma half_up_ge: "k * d \<le> n \<Longrightarrow> 0 < d \<Longrightarrow> k \<le> half_up n d"
  using half_up_mono [of "k * d" n d] by simp

text \<open>Sums over lists of amounts.\<close>

lemma sum_list_all_0: "(\<And>x. x \<in> set xs \<Longrightarrow> f x = 0) \<Longrightarrow> sum_list (map f xs) = (0::int)"
  by (induction xs) auto

lemma sum_list_update_int: "k < length xs \<Longrightarrow> sum_list (xs[k := x]) = sum_list xs + x - (xs ! k :: int)"
  by (induction xs arbitrary: k) (auto split: nat.splits)

lemma sum_list_map_diff: "sum_list (map (\<lambda>x. f x - g x) xs) = sum_list (map f xs) - (sum_list (map g xs) :: int)"
  by (induction xs) auto

lemma sum_list_nth_eq:
  "length xs = length ys \<Longrightarrow> (\<And>i. i < length xs \<Longrightarrow> f (xs ! i) = g (ys ! i)) \<Longrightarrow>
     sum_list (map f xs) = (sum_list (map g ys) :: int)"
  by (intro arg_cong [where f = sum_list] nth_equalityI) simp_all

text \<open>Truncating division, the language's \<^verbatim>\<open>/\<close> on \<^verbatim>\<open>bigint\<close>.\<close>

definition bigint_div :: "int \<Rightarrow> int \<Rightarrow> int" where
  "bigint_div a b = sgn a * sgn b * (\<bar>a\<bar> div \<bar>b\<bar>)"

lemma bigint_div_nonneg [simp]: "0 \<le> a \<Longrightarrow> 0 < b \<Longrightarrow> bigint_div a b = a div b"
  by (cases "a = 0") (simp_all add: bigint_div_def)

section \<open>Ledgers of held quantities\<close>

text \<open>
  Stock, loyalty points and customer credit follow one protocol: part of a total is held for
  a pending sale, then given back (released) or consumed (committed). The contract a ledger
  promises, and what every client may conclude from it.
\<close>

locale hold_ledger =
  fixes total held :: "'s \<Rightarrow> int" and invar :: "'s \<Rightarrow> bool"
    and hold give_back consume :: "'s \<Rightarrow> int \<Rightarrow> 'e + 's"
  assumes held_bounds: "invar s \<Longrightarrow> 0 \<le> held s \<and> held s \<le> total s"
    and hold_iff: "invar s \<Longrightarrow> 0 < n \<Longrightarrow> is_ok (hold s n) \<longleftrightarrow> n \<le> total s - held s"
    and hold_effect: "invar s \<Longrightarrow> 0 < n \<Longrightarrow> hold s n = Inr t \<Longrightarrow>
      invar t \<and> total t = total s \<and> held t = held s + n"
    and release_iff: "invar s \<Longrightarrow> 0 < n \<Longrightarrow> is_ok (give_back s n) \<longleftrightarrow> n \<le> held s"
    and release_effect: "invar s \<Longrightarrow> 0 < n \<Longrightarrow> give_back s n = Inr t \<Longrightarrow>
      invar t \<and> total t = total s \<and> held t = held s - n"
    and commit_iff: "invar s \<Longrightarrow> 0 < n \<Longrightarrow> is_ok (consume s n) \<longleftrightarrow> n \<le> held s"
    and commit_effect: "invar s \<Longrightarrow> 0 < n \<Longrightarrow> consume s n = Inr t \<Longrightarrow>
      invar t \<and> total t = total s - n \<and> held t = held s - n"
begin

lemma is_okE: "is_ok m \<Longrightarrow> \<exists>t. m = Inr t"
  by (cases m) auto

lemma hold_release:
  assumes "invar s" "0 < n" "hold s n = Inr t"
  shows "\<exists>u. give_back t n = Inr u \<and> invar u \<and> total u = total s \<and> held u = held s"
proof -
  have t: "invar t" "total t = total s" "held t = held s + n"
    using hold_effect [OF assms] by auto
  then have "is_ok (give_back t n)"
    using release_iff [OF t(1) assms(2)] held_bounds [OF assms(1)] by simp
  then obtain u where u: "give_back t n = Inr u" using is_okE by blast
  show ?thesis using u release_effect [OF t(1) assms(2) u] t by auto
qed

lemma hold_commit:
  assumes "invar s" "0 < n" "hold s n = Inr t"
  shows "\<exists>u. consume t n = Inr u \<and> invar u \<and> total u = total s - n \<and> held u = held s"
proof -
  have t: "invar t" "total t = total s" "held t = held s + n"
    using hold_effect [OF assms] by auto
  then have "is_ok (consume t n)"
    using commit_iff [OF t(1) assms(2)] held_bounds [OF assms(1)] by simp
  then obtain u where u: "consume t n = Inr u" using is_okE by blast
  show ?thesis using u commit_effect [OF t(1) assms(2) u] t by auto
qed

text \<open>
  A sequence of holds is accepted as a whole exactly when it fits into what was available:
  nothing is sold twice and nothing available is refused.
\<close>

lemma holds_iff:
  assumes "invar s" "\<forall>n \<in> set ns. 0 < n"
  shows "is_ok (efold (\<lambda>n s. hold s n) ns s) \<longleftrightarrow> sum_list ns \<le> total s - held s"
  using assms
proof (induction ns arbitrary: s)
  case Nil
  then show ?case using held_bounds by simp
next
  case (Cons n ns)
  have pos: "0 < n" "0 \<le> sum_list ns" using Cons.prems by (auto intro!: sum_list_nonneg simp: less_imp_le)
  show ?case
  proof (cases "hold s n")
    case (Inl e)
    then show ?thesis using hold_iff [OF Cons.prems(1) pos(1)] pos by simp
  next
    case (Inr t)
    have t: "invar t" "total t = total s" "held t = held s + n"
      using hold_effect [OF Cons.prems(1) pos(1) Inr] by auto
    then show ?thesis using Cons.IH [OF t(1)] Cons.prems(2) Inr by auto
  qed
qed

lemma holds_effect:
  assumes "invar s" "\<forall>n \<in> set ns. 0 < n" "efold (\<lambda>n s. hold s n) ns s = Inr t"
  shows "invar t \<and> total t = total s \<and> held t = held s + sum_list ns"
  using assms
proof (induction ns arbitrary: s)
  case (Cons n ns)
  then obtain u where "hold s n = Inr u" "efold (\<lambda>n s. hold s n) ns u = Inr t"
    by (auto simp: ok_simps)
  then show ?case using Cons.IH [of u] Cons.prems hold_effect [of s n u] by auto
qed simp

end

end
