(* ===== verification/JsNumber.thy ===== *)
theory JsNumber
  imports Prelude
begin

text \<open>
  The language's \<^verbatim>\<open>number\<close>: IEEE 754 binary64. A finite number is the rational it denotes
  (\<open>-0\<close> and \<open>0\<close> are identified: no comparison, sum or conversion of the modelled code tells
  them apart). Every arithmetic result is rounded to the nearest representable number,
  ties to the even significand, and overflows to an infinity.
\<close>

datatype jsnum = NaN | PosInf | NegInf | Fin rat

section \<open>Rounding to 53 significant bits\<close>

function bits :: "int \<Rightarrow> int" where
  "bits n = (if n \<le> 0 then 0 else 1 + bits (n div 2))"
  by pat_completeness auto
termination
  by (relation "measure nat") auto

declare bits.simps [simp del]

text \<open>The exponent of the leading bit of a positive rational: \<open>2 ^ ilog2 x \<le> x < 2 ^ (ilog2 x + 1)\<close>.\<close>

definition ilog2 :: "rat \<Rightarrow> int" where
  "ilog2 x =
     (let (p, q) = quotient_of x;
          k = bits p - bits q
      in if 2 powi k \<le> x then k else k - 1)"

text \<open>Round to nearest, ties to even.\<close>

definition rne :: "rat \<Rightarrow> int" where
  "rne y =
     (let f = \<lfloor>y\<rfloor>; d = y - of_int f
      in if d < 1 / 2 then f else if 1 / 2 < d then f + 1 else if even f then f else f + 1)"

definition ulp_exp :: "rat \<Rightarrow> int" where
  "ulp_exp x = max (ilog2 \<bar>x\<bar> - 52) (- 1074)"

definition fl :: "rat \<Rightarrow> rat" where
  "fl x = (if x = 0 then 0 else of_int (rne (x / 2 powi ulp_exp x)) * 2 powi ulp_exp x)"

definition to_double :: "rat \<Rightarrow> jsnum" where
  "to_double x =
     (let r = fl x in if 2 ^ 1024 \<le> r then PosInf else if r \<le> - (2 ^ 1024) then NegInf else Fin r)"

section \<open>Operations\<close>

definition js_neg :: "jsnum \<Rightarrow> jsnum" where
  "js_neg x = (case x of NaN \<Rightarrow> NaN | PosInf \<Rightarrow> NegInf | NegInf \<Rightarrow> PosInf | Fin r \<Rightarrow> Fin (- r))"

fun js_add :: "jsnum \<Rightarrow> jsnum \<Rightarrow> jsnum" where
  "js_add (Fin a) (Fin b) = to_double (a + b)"
| "js_add NaN y = NaN"
| "js_add x NaN = NaN"
| "js_add PosInf NegInf = NaN"
| "js_add NegInf PosInf = NaN"
| "js_add (Fin a) y = y"
| "js_add x y = x"

definition js_sub :: "jsnum \<Rightarrow> jsnum \<Rightarrow> jsnum" where
  "js_sub x y = js_add x (js_neg y)"

text \<open>Multiplication and division by a positive finite constant, the forms the code uses.\<close>

definition js_scale :: "jsnum \<Rightarrow> rat \<Rightarrow> jsnum" where
  "js_scale x c = (case x of Fin r \<Rightarrow> to_double (r * c) | _ \<Rightarrow> x)"

fun js_lt :: "jsnum \<Rightarrow> jsnum \<Rightarrow> bool" where
  "js_lt (Fin a) (Fin b) = (a < b)"
| "js_lt NaN y = False"
| "js_lt x NaN = False"
| "js_lt NegInf NegInf = False"
| "js_lt NegInf y = True"
| "js_lt (Fin a) PosInf = True"
| "js_lt x y = False"

definition js_eq :: "jsnum \<Rightarrow> jsnum \<Rightarrow> bool" where
  "js_eq x y \<longleftrightarrow> x = y \<and> x \<noteq> NaN"

definition js_le :: "jsnum \<Rightarrow> jsnum \<Rightarrow> bool" where
  "js_le x y \<longleftrightarrow> js_lt x y \<or> js_eq x y"

definition js_of_int :: "int \<Rightarrow> jsnum" where
  "js_of_int n = to_double (of_int n)"

definition is_finite_num :: "jsnum \<Rightarrow> bool" where
  "is_finite_num x \<longleftrightarrow> (case x of Fin _ \<Rightarrow> True | _ \<Rightarrow> False)"

definition is_integer_num :: "jsnum \<Rightarrow> bool" where
  "is_integer_num x \<longleftrightarrow> (case x of Fin r \<Rightarrow> r = of_int \<lfloor>r\<rfloor> | _ \<Rightarrow> False)"

definition max_safe :: int where
  "max_safe = 2 ^ 53 - 1"

definition is_safe_integer :: "jsnum \<Rightarrow> bool" where
  "is_safe_integer x \<longleftrightarrow>
     (case x of Fin r \<Rightarrow> r = of_int \<lfloor>r\<rfloor> \<and> \<bar>r\<bar> \<le> of_int max_safe | _ \<Rightarrow> False)"

text \<open>
  \<^verbatim>\<open>BigInt(x)\<close> throws a \<^verbatim>\<open>RangeError\<close> unless \<open>x\<close> is an integer; \<^verbatim>\<open>Math.round\<close> rounds halves
  up and keeps the non-finite values.
\<close>

definition bigint_of_num :: "jsnum \<Rightarrow> ('c, int) result" where
  "bigint_of_num x =
     (case x of Fin r \<Rightarrow> if r = of_int \<lfloor>r\<rfloor> then Inr \<lfloor>r\<rfloor> else Inl (NativeError ''RangeError'')
      | _ \<Rightarrow> Inl (NativeError ''RangeError''))"

definition math_round :: "jsnum \<Rightarrow> jsnum" where
  "math_round x = (case x of Fin r \<Rightarrow> to_double (of_int \<lfloor>r + 1 / 2\<rfloor>) | _ \<Rightarrow> x)"

definition math_floor :: "jsnum \<Rightarrow> jsnum" where
  "math_floor x = (case x of Fin r \<Rightarrow> to_double (of_int \<lfloor>r\<rfloor>) | _ \<Rightarrow> x)"

definition math_abs :: "jsnum \<Rightarrow> jsnum" where
  "math_abs x = (if js_lt x (Fin 0) then js_neg x else x)"

definition math_max :: "jsnum \<Rightarrow> jsnum \<Rightarrow> jsnum" where
  "math_max x y = (if x = NaN \<or> y = NaN then NaN else if js_lt x y then y else x)"

definition math_min :: "jsnum \<Rightarrow> jsnum \<Rightarrow> jsnum" where
  "math_min x y = (if x = NaN \<or> y = NaN then NaN else if js_lt x y then x else y)"

definition int_of_num :: "jsnum \<Rightarrow> int" where
  "int_of_num x = (case x of Fin r \<Rightarrow> \<lfloor>r\<rfloor> | _ \<Rightarrow> 0)"

text \<open>
  Integer-valued doubles, where the code adds and subtracts whole numbers of VND or points
  as \<^verbatim>\<open>number\<close>: the integer nearest to the exact result.
\<close>

definition fli :: "int \<Rightarrow> int" where
  "fli n = \<lfloor>fl (of_int n)\<rfloor>"

section \<open>The leading bit\<close>

lemma bits_pos: "0 < n \<Longrightarrow> bits n = 1 + bits (n div 2)"
  by (subst bits.simps) simp

lemma bits_nonneg: "0 \<le> bits n"
proof (induction n rule: bits.induct)
  case (1 n)
  then show ?case by (subst bits.simps) auto
qed

lemma bits_bounds: "0 < n \<Longrightarrow> 2 ^ nat (bits n - 1) \<le> n \<and> n < 2 ^ nat (bits n)"
proof (induction n rule: bits.induct)
  case (1 n)
  show ?case
  proof (cases "n = 1")
    case True
    then show ?thesis by (simp add: bits.simps [of 1] bits.simps [of 0])
  next
    case False
    define m where "m = n div 2"
    have m: "0 < m" using "1.prems" False by (simp add: m_def)
    have b: "0 < bits m" using bits_pos [OF m] bits_nonneg [of "m div 2"] by simp
    have "2 ^ nat (bits m - 1) \<le> m" "m < 2 ^ nat (bits m)"
      using 1 m by (auto simp: m_def)
    then have "2 * 2 ^ nat (bits m - 1) \<le> n" "n < 2 * 2 ^ nat (bits m)"
      unfolding m_def by linarith+
    moreover have "nat (bits n - 1) = Suc (nat (bits m - 1))" "nat (bits n) = Suc (nat (bits m))"
      using b "1.prems" by (simp_all add: bits_pos m_def nat_add_distrib)
    ultimately show ?thesis by simp
  qed
qed

lemma bits_bounds_rat:
  assumes "0 < p"
  shows "(2::rat) powi (bits p - 1) \<le> of_int p" "of_int p < (2::rat) powi bits p"
proof -
  have b: "0 < bits p" using bits_pos [OF assms] bits_nonneg [of "p div 2"] by simp
  have "2 ^ nat (bits p - 1) \<le> p" and "p < 2 ^ nat (bits p)"
    using bits_bounds [OF assms] by auto
  then have "of_int (2 ^ nat (bits p - 1)) \<le> (of_int p :: rat)"
    and "(of_int p :: rat) < of_int (2 ^ nat (bits p))"
    by (simp_all only: of_int_le_iff of_int_less_iff)
  then show "(2::rat) powi (bits p - 1) \<le> of_int p" "of_int p < (2::rat) powi bits p"
    using b by (simp_all add: power_int_def)
qed

lemma ilog2_bounds:
  assumes "0 < x"
  shows "2 powi ilog2 x \<le> x" "x < 2 powi (ilog2 x + 1)"
proof -
  obtain p q where pq: "quotient_of x = (p, q)" by fastforce
  have q: "0 < q" using quotient_of_denom_pos [OF pq] .
  have x: "x = of_int p / of_int q" using quotient_of_div [OF pq] .
  have p: "0 < p" using assms x q by (simp add: zero_less_divide_iff)
  define a b where "a = bits p" and "b = bits q"
  have P: "2 powi (a - 1) \<le> (of_int p :: rat)" "of_int p < (2::rat) powi a"
    using bits_bounds_rat [OF p] by (simp_all add: a_def)
  have Q: "2 powi (b - 1) \<le> (of_int q :: rat)" "of_int q < (2::rat) powi b"
    using bits_bounds_rat [OF q] by (simp_all add: b_def)
  have "2 powi (a - b - 1) * of_int q \<le> 2 powi (a - b - 1) * (2::rat) powi b"
    using Q(2) by (intro mult_left_mono) auto
  also have "\<dots> = 2 powi (a - 1)" by (simp flip: power_int_add)
  also have "\<dots> \<le> of_int p" by (rule P(1))
  finally have lo: "2 powi (a - b - 1) \<le> x" using q by (simp add: x pos_le_divide_eq)
  have "of_int p < (2::rat) powi a" by (rule P(2))
  also have "\<dots> = 2 powi (a - b + 1) * 2 powi (b - 1)" by (simp flip: power_int_add)
  also have "\<dots> \<le> 2 powi (a - b + 1) * of_int q" using Q(1) by (intro mult_left_mono) auto
  finally have hi: "x < 2 powi (a - b + 1)" using q by (simp add: x pos_divide_less_eq)
  have il: "ilog2 x = (if 2 powi (a - b) \<le> x then a - b else a - b - 1)"
    by (simp add: ilog2_def pq a_def b_def Let_def)
  show "2 powi ilog2 x \<le> x" using lo by (simp add: il)
  show "x < 2 powi (ilog2 x + 1)" using hi by (simp add: il)
qed

section \<open>Rounding respects the integers it can represent\<close>

lemma rne_le: "y \<le> of_int n \<Longrightarrow> rne y \<le> n"
proof -
  assume y: "y \<le> of_int n"
  have f: "\<lfloor>y\<rfloor> \<le> n" using y by (metis floor_mono floor_of_int)
  show ?thesis
  proof (cases "\<lfloor>y\<rfloor> = n")
    case True
    then have "y = of_int n" using y of_int_floor_le [of y] by simp
    then show ?thesis by (simp add: rne_def Let_def)
  next
    case False
    then show ?thesis using f by (auto simp: rne_def Let_def)
  qed
qed

lemma rne_ge: "of_int n \<le> y \<Longrightarrow> n \<le> rne y"
proof -
  assume "of_int n \<le> y"
  then have "n \<le> \<lfloor>y\<rfloor>" by (simp add: le_floor_iff)
  then show ?thesis by (auto simp: rne_def Let_def)
qed

lemma rne_of_int [simp]: "rne (of_int n) = n"
  using rne_le rne_ge by (metis order_antisym order_refl)

text \<open>
  The contract the components rely on: rounding neither crosses nor moves an integer of at
  most 53 bits.
\<close>

locale int_rounding =
  fixes rnd :: "rat \<Rightarrow> rat" and bound :: int
  assumes rnd_upper: "\<bar>n\<bar> \<le> bound \<Longrightarrow> x \<le> of_int n \<Longrightarrow> rnd x \<le> of_int n"
    and rnd_lower: "\<bar>n\<bar> \<le> bound \<Longrightarrow> of_int n \<le> x \<Longrightarrow> of_int n \<le> rnd x"
begin

lemma rnd_exact: "\<bar>n\<bar> \<le> bound \<Longrightarrow> rnd (of_int n) = of_int n"
  by (intro antisym rnd_upper rnd_lower) auto

lemma rnd_between:
  "\<bar>a\<bar> \<le> bound \<Longrightarrow> \<bar>b\<bar> \<le> bound \<Longrightarrow> of_int a \<le> x \<Longrightarrow> x \<le> of_int b \<Longrightarrow>
     of_int a \<le> rnd x \<and> rnd x \<le> of_int b"
  by (simp add: rnd_upper rnd_lower)

end

lemma two_powi_le_iff: "(2::rat) powi m \<le> 2 powi n \<longleftrightarrow> m \<le> n"
  by (meson linorder_not_le one_less_numeral_iff power_int_increasing power_int_strict_increasing
      semiring_norm(76) zero_less_numeral less_imp_le one_le_numeral)

lemma two_powi_less_iff: "(2::rat) powi m < 2 powi n \<longleftrightarrow> m < n"
  by (simp add: two_powi_le_iff flip: not_le)

lemma fl_scaled:
  assumes "x \<noteq> 0" "ulp_exp x \<le> 0"
  shows "x \<le> of_int n \<Longrightarrow> fl x \<le> of_int n" and "of_int n \<le> x \<Longrightarrow> of_int n \<le> fl x"
proof -
  define e where "e = ulp_exp x"
  define N where "N = n * 2 ^ nat (- e)"
  have e: "e \<le> 0" using assms(2) by (simp add: e_def)
  have pe: "0 < (2::rat) powi e" by simp
  have "(of_int N :: rat) = of_int n * 2 powi (- e)"
    using e by (simp add: N_def power_int_def)
  then have N: "of_int N * (2::rat) powi e = of_int n"
    by (simp add: power_int_minus)
  have fl: "fl x = of_int (rne (x / 2 powi e)) * 2 powi e"
    using assms(1) by (simp add: fl_def e_def)
  show "fl x \<le> of_int n" if "x \<le> of_int n"
  proof -
    have "x / 2 powi e \<le> of_int N" using that pe by (simp add: pos_divide_le_eq N)
    then have "rne (x / 2 powi e) \<le> N" by (rule rne_le)
    then have "of_int (rne (x / 2 powi e)) * 2 powi e \<le> of_int N * (2::rat) powi e"
      using pe by (intro mult_right_mono) auto
    then show ?thesis by (simp add: fl N)
  qed
  show "of_int n \<le> fl x" if "of_int n \<le> x"
  proof -
    have "of_int N \<le> x / 2 powi e" using that pe by (simp add: pos_le_divide_eq N)
    then have "N \<le> rne (x / 2 powi e)" by (rule rne_ge)
    then have "of_int N * (2::rat) powi e \<le> of_int (rne (x / 2 powi e)) * 2 powi e"
      using pe by (intro mult_right_mono) auto
    then show ?thesis by (simp add: fl N)
  qed
qed

text \<open>Above 53 bits the rounded value stays on its side of \<open>2 ^ 53\<close>.\<close>

lemma ulp_exp_pos_abs:
  assumes "x \<noteq> 0" "0 < ulp_exp x"
  shows "2 powi (ulp_exp x + 52) \<le> \<bar>x\<bar>" and "2 ^ 53 \<le> \<bar>x\<bar>"
proof -
  have il: "ilog2 \<bar>x\<bar> = ulp_exp x + 52" using assms(2) by (simp add: ulp_exp_def)
  show 1: "2 powi (ulp_exp x + 52) \<le> \<bar>x\<bar>"
    using ilog2_bounds(1) [of "\<bar>x\<bar>"] assms(1) by (simp add: il)
  have "(2::rat) powi 53 \<le> 2 powi (ulp_exp x + 52)"
    using assms(2) by (simp only: two_powi_le_iff)
  then show "2 ^ 53 \<le> \<bar>x\<bar>" using 1 by simp
qed

lemma fl_large:
  assumes "x \<noteq> 0" "0 < ulp_exp x"
  shows "0 < x \<Longrightarrow> 2 ^ 53 \<le> fl x" and "x < 0 \<Longrightarrow> fl x \<le> - (2 ^ 53)"
proof -
  define e where "e = ulp_exp x"
  have e: "0 < e" using assms(2) by (simp add: e_def)
  have pe: "0 < (2::rat) powi e" by simp
  have fl: "fl x = of_int (rne (x / 2 powi e)) * 2 powi e"
    using assms(1) by (simp add: fl_def e_def)
  have big: "2 powi (e + 52) \<le> \<bar>x\<bar>" using ulp_exp_pos_abs(1) [OF assms] by (simp add: e_def)
  have split: "(2::rat) powi (e + 52) = of_int (2 ^ 52) * 2 powi e"
    by (simp add: power_int_add)
  have top: "(2::rat) ^ 53 \<le> of_int (2 ^ 52) * 2 powi e"
  proof -
    have "(2::rat) powi 53 \<le> 2 powi (e + 52)" using e by (simp only: two_powi_le_iff)
    then show ?thesis by (simp add: split)
  qed
  show "2 ^ 53 \<le> fl x" if "0 < x"
  proof -
    have "of_int (2 ^ 52) \<le> x / 2 powi e"
      using big that pe by (simp only: split pos_le_divide_eq abs_of_pos)
    then have "2 ^ 52 \<le> rne (x / 2 powi e)" by (rule rne_ge)
    then have "of_int (2 ^ 52) * 2 powi e \<le> fl x"
      unfolding fl using pe by (intro mult_right_mono) (simp_all only: of_int_le_iff less_imp_le)
    then show ?thesis using top by (rule order_trans [rotated])
  qed
  show "fl x \<le> - (2 ^ 53)" if "x < 0"
  proof -
    have "x / 2 powi e \<le> of_int (- (2 ^ 52))"
      using big that pe by (simp only: split pos_divide_le_eq abs_of_neg of_int_minus)
    then have "rne (x / 2 powi e) \<le> - (2 ^ 52)" by (rule rne_le)
    then have "fl x \<le> of_int (- (2 ^ 52)) * 2 powi e"
      unfolding fl using pe by (intro mult_right_mono) (simp_all only: of_int_le_iff less_imp_le)
    then show ?thesis using top by simp
  qed
qed

lemma of_int_abs_bound: "\<bar>n\<bar> \<le> 2 ^ 53 \<Longrightarrow> \<bar>of_int n :: rat\<bar> \<le> 2 ^ 53"
  by (metis of_int_abs of_int_le_iff of_int_numeral of_int_power)

lemma fl_pow53: "fl (2 ^ 53) = 2 ^ 53" "fl (- (2 ^ 53)) = - (2 ^ 53)"
  by code_simp+

interpretation fl: int_rounding fl "2 ^ 53"
proof
  fix n :: int and x :: rat
  assume n: "\<bar>n\<bar> \<le> 2 ^ 53"
  have nr: "\<bar>of_int n :: rat\<bar> \<le> 2 ^ 53" by (rule of_int_abs_bound [OF n])
  have zero: "fl 0 = 0" by (simp add: fl_def)
  show "fl x \<le> of_int n" if "x \<le> of_int n"
  proof (cases "x = 0 \<or> ulp_exp x \<le> 0")
    case True
    then show ?thesis using that zero fl_scaled(1) [of x n] by (cases "x = 0") auto
  next
    case False
    then have x: "x \<noteq> 0" "0 < ulp_exp x" by auto
    show ?thesis
    proof (cases "0 < x")
      case True
      then have eq: "x = 2 ^ 53" "of_int n = (2 ^ 53 :: rat)"
        using ulp_exp_pos_abs(2) [OF x] nr that by linarith+
      show ?thesis unfolding eq fl_pow53 by (rule order_refl)
    next
      case False
      then have "fl x \<le> - (2 ^ 53)" using fl_large(2) [OF x] x by simp
      then show ?thesis using nr by linarith
    qed
  qed
  show "of_int n \<le> fl x" if "of_int n \<le> x"
  proof (cases "x = 0 \<or> ulp_exp x \<le> 0")
    case True
    then show ?thesis using that zero fl_scaled(2) [of x n] by (cases "x = 0") auto
  next
    case False
    then have x: "x \<noteq> 0" "0 < ulp_exp x" by auto
    show ?thesis
    proof (cases "x < 0")
      case True
      then have eq: "x = - (2 ^ 53)" "of_int n = (- (2 ^ 53) :: rat)"
        using ulp_exp_pos_abs(2) [OF x] nr that by linarith+
      show ?thesis unfolding eq fl_pow53 by (rule order_refl)
    next
      case False
      then have "2 ^ 53 \<le> fl x" using fl_large(1) [OF x] x by simp
      then show ?thesis using nr by linarith
    qed
  qed
qed

section \<open>Safe integers and integer-valued doubles\<close>

lemma fl_between_pow53:
  assumes "- (2 ^ 53) \<le> x" "x \<le> 2 ^ 53"
  shows "- (2 ^ 53) \<le> fl x" "fl x \<le> 2 ^ 53"
  using fl.rnd_lower [of "- (2 ^ 53)" x] fl.rnd_upper [of "2 ^ 53" x] assms by simp_all

lemma pow53_lt_pow1024: "(2::rat) ^ 53 < 2 ^ 1024"
  by (rule power_strict_increasing) simp_all

lemma to_double_small:
  assumes "\<bar>x\<bar> \<le> 2 ^ 53"
  shows "to_double x = Fin (fl x)"
proof -
  have "- (2 ^ 53) \<le> fl x" "fl x \<le> 2 ^ 53"
    using assms by (intro fl_between_pow53; simp add: abs_le_iff)+
  then have "\<not> 2 ^ 1024 \<le> fl x" "\<not> fl x \<le> - (2 ^ 1024)"
    using pow53_lt_pow1024 by linarith+
  then show ?thesis by (simp add: to_double_def Let_def)
qed

lemma js_of_int_small: "\<bar>n\<bar> \<le> 2 ^ 53 \<Longrightarrow> js_of_int n = Fin (of_int n)"
  unfolding js_of_int_def by (subst to_double_small) (simp_all add: of_int_abs_bound fl.rnd_exact)

text \<open>Code equations that keep evaluation away from the overflow test on small values.\<close>

lemma to_double_code [code]:
  "to_double x =
     (if \<bar>x\<bar> \<le> 9007199254740992 then Fin (fl x)
      else let r = fl x in if 2 ^ 1024 \<le> r then PosInf else if r \<le> - (2 ^ 1024) then NegInf else Fin r)"
  by (simp add: to_double_small) (simp add: to_double_def)

lemma js_of_int_code [code]:
  "js_of_int n = (if \<bar>n\<bar> \<le> 9007199254740992 then Fin (of_int n) else to_double (of_int n))"
  by (simp add: js_of_int_small) (simp add: js_of_int_def)

lemma max_safe_code [code]: "max_safe = 9007199254740991"
  by (simp add: max_safe_def)

lemma of_int_max_safe: "\<bar>of_int n :: rat\<bar> \<le> of_int max_safe \<longleftrightarrow> \<bar>n\<bar> \<le> max_safe"
  by (metis of_int_abs of_int_le_iff)

lemma max_safe_lt: "max_safe < 2 ^ 53"
  by (simp add: max_safe_def)

text \<open>
  \<^verbatim>\<open>Number.isSafeInteger(Number(n))\<close> on a \<^verbatim>\<open>bigint\<close> decides the range exactly: the rounding of
  a larger integer never falls back into it.
\<close>

lemma is_safe_integer_of_int: "is_safe_integer (js_of_int n) \<longleftrightarrow> \<bar>n\<bar> \<le> max_safe"
proof (cases "\<bar>n\<bar> \<le> 2 ^ 53")
  case True
  then show ?thesis
    by (simp add: js_of_int_small is_safe_integer_def of_int_max_safe)
next
  case False
  have out: "\<not> \<bar>fl (of_int n)\<bar> \<le> of_int max_safe"
  proof (cases "0 \<le> n")
    case True
    then have "2 ^ 53 \<le> n" using False by linarith
    then have "of_int (2 ^ 53) \<le> fl (of_int n)"
      by (intro fl.rnd_lower) (simp_all only: of_int_le_iff abs_of_nonneg order_refl
          zero_le_numeral zero_le_power)
    moreover have "(of_int max_safe :: rat) < of_int (2 ^ 53)"
      using max_safe_lt by (simp only: of_int_less_iff)
    ultimately show ?thesis by linarith
  next
    case neg: False
    then have "n \<le> - (2 ^ 53)" using False by linarith
    then have "fl (of_int n) \<le> of_int (- (2 ^ 53))"
      by (intro fl.rnd_upper) (simp_all only: of_int_le_iff abs_minus_cancel abs_of_nonneg order_refl
          zero_le_numeral zero_le_power)
    moreover have "(of_int max_safe :: rat) < of_int (2 ^ 53)"
      using max_safe_lt by (simp only: of_int_less_iff)
    ultimately show ?thesis unfolding of_int_minus by linarith
  qed
  have "\<not> is_safe_integer (to_double (of_int n))"
    using out by (auto simp: to_double_def is_safe_integer_def Let_def)
  moreover have "\<not> \<bar>n\<bar> \<le> max_safe" using False max_safe_lt by simp
  ultimately show ?thesis by (simp add: js_of_int_def)
qed

lemma is_safe_integerE:
  assumes "is_safe_integer x"
  obtains n where "x = Fin (of_int n)" "\<bar>n\<bar> \<le> max_safe"
proof (cases x)
  case (Fin r)
  then have "r = of_int \<lfloor>r\<rfloor>" "\<bar>of_int \<lfloor>r\<rfloor> :: rat\<bar> \<le> of_int max_safe"
    using assms by (auto simp: is_safe_integer_def)
  then show ?thesis using Fin that by (metis of_int_max_safe)
qed (use assms in \<open>auto simp: is_safe_integer_def\<close>)

lemma is_safe_integer_Fin_int [simp]: "is_safe_integer (Fin (of_int n)) \<longleftrightarrow> \<bar>n\<bar> \<le> max_safe"
  by (simp add: is_safe_integer_def of_int_max_safe)

lemma bigint_of_safe: "is_safe_integer x \<Longrightarrow> bigint_of_num x = Inr (int_of_num x)"
  by (auto simp: bigint_of_num_def int_of_num_def elim!: is_safe_integerE)

lemma int_of_num_safe: "is_safe_integer x \<Longrightarrow> \<bar>int_of_num x\<bar> \<le> max_safe"
  by (auto simp: int_of_num_def elim!: is_safe_integerE)

lemma int_of_num_Fin [simp]: "int_of_num (Fin (of_int n)) = n"
  by (simp add: int_of_num_def)

lemma fli_exact [simp]: "\<bar>n\<bar> \<le> 2 ^ 53 \<Longrightarrow> fli n = n"
  by (simp add: fli_def fl.rnd_exact)

lemma fli_upper: "\<bar>k\<bar> \<le> 2 ^ 53 \<Longrightarrow> n \<le> k \<Longrightarrow> fli n \<le> k"
  unfolding fli_def using fl.rnd_upper [of k "of_int n"] by (simp add: floor_le_iff)

lemma fli_lower: "\<bar>k\<bar> \<le> 2 ^ 53 \<Longrightarrow> k \<le> n \<Longrightarrow> k \<le> fli n"
  unfolding fli_def using fl.rnd_lower [of k "of_int n"] by (simp add: le_floor_iff)

lemma fli_nonneg: "0 \<le> n \<Longrightarrow> 0 \<le> fli n"
  by (rule fli_lower) simp_all

lemma fli_pos: "0 < n \<Longrightarrow> 0 < fli n"
  using fli_lower [of 1 n] by simp

lemma fl_of_int_integral: "fl (of_int n) = of_int (fli n)"
proof (cases "n = 0 \<or> ulp_exp (of_int n) \<le> 0")
  case True
  have "fl (of_int n) = of_int n"
  proof (cases "n = 0")
    case False
    with True show ?thesis by (intro antisym fl_scaled) auto
  qed (simp add: fl_def)
  then show ?thesis by (simp add: fli_def)
next
  case False
  then have "fl (of_int n) =
      of_int (rne (of_int n / 2 powi ulp_exp (of_int n)) * 2 ^ nat (ulp_exp (of_int n)))"
    by (simp add: fl_def power_int_def)
  then show ?thesis by (simp add: fli_def)
qed

text \<open>The integer \<open>fli n\<close> is the double the code computes, as long as no overflow to an infinity occurs.\<close>

lemma js_of_int_fli: "\<bar>fli n\<bar> < 2 ^ 1024 \<Longrightarrow> js_of_int n = Fin (of_int (fli n))"
proof -
  assume "\<bar>fli n\<bar> < 2 ^ 1024"
  then have "(of_int (fli n) :: rat) < of_int (2 ^ 1024)" "of_int (- (2 ^ 1024)) < (of_int (fli n) :: rat)"
    unfolding of_int_less_iff by linarith+
  then have "\<not> 2 ^ 1024 \<le> fl (of_int n)" "\<not> fl (of_int n) \<le> - (2 ^ 1024)"
    by (simp_all add: fl_of_int_integral)
  then show ?thesis
    by (simp add: js_of_int_def to_double_def Let_def fl_of_int_integral)
qed

text \<open>A percentage between 0 and 100 becomes a whole number of basis points between 0 and 10000.\<close>

lemma percent_to_bps:
  assumes "0 \<le> r" "r \<le> 100"
  obtains k where "math_round (js_scale (Fin r) 100) = Fin (of_int k)" "0 \<le> k" "k \<le> 10000"
proof -
  have r: "of_int 0 \<le> r * 100" "r * 100 \<le> of_int 10000" using assms by simp_all
  have small: "\<bar>r * 100\<bar> \<le> 2 ^ 53" using r by simp
  have b: "0 \<le> fl (r * 100)" "fl (r * 100) \<le> 10000"
    using fl.rnd_between [of 0 10000 "r * 100"] r by simp_all
  define k where "k = \<lfloor>fl (r * 100) + 1 / 2\<rfloor>"
  have k: "0 \<le> k" "k \<le> 10000"
    using b by (simp_all add: k_def le_floor_iff floor_le_iff)
  have "\<bar>of_int k :: rat\<bar> \<le> 2 ^ 53" using k by simp
  then have "math_round (js_scale (Fin r) 100) = Fin (of_int k)"
    using small k
    by (simp add: js_scale_def math_round_def to_double_small fl.rnd_exact flip: k_def)
  then show ?thesis using that k by blast
qed

text \<open>The rounding error is at most half a unit in the last place, tiny below \<open>128\<close>.\<close>

lemma rne_error: "\<bar>of_int (rne y) - y\<bar> \<le> 1 / 2"
proof -
  have "of_int \<lfloor>y\<rfloor> \<le> y" "y < of_int \<lfloor>y\<rfloor> + 1" by linarith+
  then show ?thesis by (auto simp: rne_def Let_def abs_le_iff)
qed

lemma fl_error:
  assumes "x \<noteq> 0"
  shows "\<bar>fl x - x\<bar> \<le> 2 powi ulp_exp x / 2"
proof -
  let ?u = "2 powi ulp_exp x :: rat"
  have u: "0 < ?u" by simp
  have "fl x - x = (of_int (rne (x / ?u)) - x / ?u) * ?u"
    using assms by (simp add: fl_def field_simps)
  then have "\<bar>fl x - x\<bar> = \<bar>of_int (rne (x / ?u)) - x / ?u\<bar> * ?u"
    using u by (simp add: abs_mult)
  also have "\<dots> \<le> 1 / 2 * ?u"
    using rne_error [of "x / ?u"] u by (intro mult_right_mono) simp_all
  finally show ?thesis by simp
qed

lemma fl_near:
  assumes "0 \<le> x" "x \<le> 100"
  shows "\<bar>fl x - x\<bar> \<le> 1 / 400"
proof (cases "x = 0")
  case False
  then have x: "0 < x" using assms by simp
  have "2 powi ilog2 x < (2::rat) powi 7"
    using ilog2_bounds(1) [OF x] assms by simp
  then have "ilog2 x < 7" by (simp only: two_powi_less_iff)
  then have "ulp_exp x \<le> - 10" using x by (simp add: ulp_exp_def)
  then have "(2::rat) powi ulp_exp x \<le> 2 powi (- 10)" by (simp only: two_powi_le_iff)
  also have "\<dots> = 1 / 1024" by (simp add: power_int_def power_divide)
  finally show ?thesis using fl_error [OF False] by linarith
qed (simp add: fl_def)

end
