(* ===== verification/JsString.thy ===== *)
theory JsString
  imports JsNumber
begin

text \<open>
  The language's strings and the conversions between text and numbers the services use. The
  model's strings are ASCII text: \<^verbatim>\<open>trim\<close>, \<^verbatim>\<open>toUpperCase\<close> and the character classes of the
  regular expressions are exact there. A \<^verbatim>\<open>string | number\<close> argument that the code passes
  through \<^verbatim>\<open>String(value)\<close> enters the model as that string.
\<close>

section \<open>Characters\<close>

definition code :: "char \<Rightarrow> int" where
  "code c = of_char c"

definition is_digit :: "char \<Rightarrow> bool" where
  "is_digit c \<longleftrightarrow> 48 \<le> code c \<and> code c \<le> 57"

definition is_upper :: "char \<Rightarrow> bool" where
  "is_upper c \<longleftrightarrow> 65 \<le> code c \<and> code c \<le> 90"

definition is_lower :: "char \<Rightarrow> bool" where
  "is_lower c \<longleftrightarrow> 97 \<le> code c \<and> code c \<le> 122"

text \<open>ASCII white space: tab, line feed, vertical tab, form feed, carriage return, space.\<close>

definition is_space :: "char \<Rightarrow> bool" where
  "is_space c \<longleftrightarrow> (9 \<le> code c \<and> code c \<le> 13) \<or> code c = 32"

definition to_upper_char :: "char \<Rightarrow> char" where
  "to_upper_char c = (if is_lower c then char_of (code c - 32) else c)"

definition to_lower_char :: "char \<Rightarrow> char" where
  "to_lower_char c = (if is_upper c then char_of (code c + 32) else c)"

definition js_upper :: "string \<Rightarrow> string" where
  "js_upper = map to_upper_char"

definition js_lower :: "string \<Rightarrow> string" where
  "js_lower = map to_lower_char"

definition trim_start :: "string \<Rightarrow> string" where
  "trim_start = dropWhile is_space"

definition js_trim :: "string \<Rightarrow> string" where
  "js_trim s = rev (dropWhile is_space (rev (trim_start s)))"

definition pad_start :: "nat \<Rightarrow> char \<Rightarrow> string \<Rightarrow> string" where
  "pad_start n c s = replicate (n - length s) c @ s"

definition pad_end :: "nat \<Rightarrow> char \<Rightarrow> string \<Rightarrow> string" where
  "pad_end n c s = s @ replicate (n - length s) c"

text \<open>\<^verbatim>\<open>s.replace(/\s+/g, r)\<close>: every maximal run of white space becomes \<open>r\<close>.\<close>

fun replace_spaces :: "string \<Rightarrow> bool \<Rightarrow> string \<Rightarrow> string" where
  "replace_spaces r inrun [] = []"
| "replace_spaces r inrun (c # cs) =
     (if is_space c then (if inrun then [] else r) @ replace_spaces r True cs
      else c # replace_spaces r False cs)"

section \<open>Digits\<close>

definition digit_val :: "char \<Rightarrow> int" where
  "digit_val c = code c - 48"

definition digit_char :: "int \<Rightarrow> char" where
  "digit_char n = char_of (48 + n)"

function show_digits :: "int \<Rightarrow> string" where
  "show_digits n = (if n < 10 then [digit_char n] else show_digits (n div 10) @ [digit_char (n mod 10)])"
  by pat_completeness auto
termination
  by (relation "measure nat") auto

declare show_digits.simps [simp del]

definition read_digits :: "string \<Rightarrow> int" where
  "read_digits s = foldl (\<lambda>a c. 10 * a + digit_val c) 0 s"

text \<open>\<^verbatim>\<open>n.toString()\<close> of a \<^verbatim>\<open>bigint\<close>.\<close>

definition show_int :: "int \<Rightarrow> string" where
  "show_int n = (if n < 0 then CHR ''-'' # show_digits (- n) else show_digits n)"

section \<open>The decimal patterns of the parsers\<close>

text \<open>\<^verbatim>\<open>\d+\<close> and \<^verbatim>\<open>0|[1-9]\d*\<close>.\<close>

definition all_digits :: "string \<Rightarrow> bool" where
  "all_digits s \<longleftrightarrow> s \<noteq> [] \<and> list_all is_digit s"

definition canonical_digits :: "string \<Rightarrow> bool" where
  "canonical_digits s \<longleftrightarrow> s = ''0'' \<or> (all_digits s \<and> hd s \<noteq> CHR ''0'')"

text \<open>
  \<^verbatim>\<open>W(\.(\d{1,k}))?\<close> anchored at both ends, where \<open>W\<close> matches digits only: the first dot, if
  any, separates the groups.
\<close>

definition match_decimal :: "(string \<Rightarrow> bool) \<Rightarrow> nat \<Rightarrow> string \<Rightarrow> (string \<times> string option) option" where
  "match_decimal whole k s =
     (let w = takeWhile (\<lambda>c. c \<noteq> CHR ''.'') s; r = dropWhile (\<lambda>c. c \<noteq> CHR ''.'') s
      in if \<not> whole w then None
         else case r of
             [] \<Rightarrow> Some (w, None)
           | _ # f \<Rightarrow> if all_digits f \<and> length f \<le> k then Some (w, Some f) else None)"

text \<open>Scaled value of the groups: \<open>whole * scale + frac\<close> with the fraction padded on the right.\<close>

definition scaled_value :: "int \<Rightarrow> nat \<Rightarrow> string \<times> string option \<Rightarrow> int" where
  "scaled_value scale k m =
     read_digits (fst m) * scale + read_digits (pad_end k CHR ''0'' (case snd m of None \<Rightarrow> [] | Some f \<Rightarrow> f))"

text \<open>The text of a non-negative scaled value: \<open>whole.frac\<close> with \<open>k\<close> fraction digits.\<close>

definition show_scaled :: "int \<Rightarrow> nat \<Rightarrow> int \<Rightarrow> string" where
  "show_scaled scale k m =
     show_digits (m div scale) @ CHR ''.'' # pad_start k CHR ''0'' (show_digits (m mod scale))"

section \<open>Text to number\<close>

text \<open>
  \<^verbatim>\<open>Number(s)\<close> on ASCII text: white space around is ignored, the empty text is \<open>0\<close>; decimal
  literals may have a sign, a fraction and an exponent; hexadecimal, octal and binary
  literals have no sign; anything else is \<open>NaN\<close>.
\<close>

definition digit_in_base :: "int \<Rightarrow> char \<Rightarrow> int option" where
  "digit_in_base b c =
     (let v = (if is_digit c then code c - 48
               else if is_lower c then code c - 87 else if is_upper c then code c - 55 else 99)
      in if v < b then Some v else None)"

fun read_base :: "int \<Rightarrow> int \<Rightarrow> string \<Rightarrow> int option" where
  "read_base b a [] = Some a"
| "read_base b a (c # cs) =
     (case digit_in_base b c of None \<Rightarrow> None | Some d \<Rightarrow> read_base b (b * a + d) cs)"

definition read_exponent :: "string \<Rightarrow> int option" where
  "read_exponent s =
     (case s of
        [] \<Rightarrow> Some 0
      | c # cs \<Rightarrow>
          (if c \<noteq> CHR ''e'' \<and> c \<noteq> CHR ''E'' then None
           else (case cs of
                   [] \<Rightarrow> None
                 | sg # ds \<Rightarrow>
                     (if sg = CHR ''-'' then (if all_digits ds then Some (- read_digits ds) else None)
                      else if sg = CHR ''+'' then (if all_digits ds then Some (read_digits ds) else None)
                      else if all_digits cs then Some (read_digits cs) else None))))"

definition read_decimal :: "string \<Rightarrow> rat option" where
  "read_decimal s =
     (let w = takeWhile is_digit s; r = dropWhile is_digit s;
          dotted = (case r of c # _ \<Rightarrow> c = CHR ''.'' | [] \<Rightarrow> False);
          f = (if dotted then takeWhile is_digit (tl r) else []);
          e = (if dotted then dropWhile is_digit (tl r) else r)
      in if w = [] \<and> f = [] then None
         else case read_exponent e of
             None \<Rightarrow> None
           | Some x \<Rightarrow> Some (of_int (read_digits (w @ f)) * 10 powi (x - int (length f))))"

definition num_of_string :: "string \<Rightarrow> jsnum" where
  "num_of_string s0 =
     (let s = js_trim s0;
          based = (\<lambda>b. if drop 2 s = [] then NaN
                       else case read_base b 0 (drop 2 s) of None \<Rightarrow> NaN | Some n \<Rightarrow> to_double (of_int n))
      in if s = [] then Fin 0
         else if s = ''Infinity'' \<or> s = ''+Infinity'' then PosInf
         else if s = ''-Infinity'' then NegInf
         else if take 2 s \<in> {''0x'', ''0X''} then based 16
         else if take 2 s \<in> {''0o'', ''0O''} then based 8
         else if take 2 s \<in> {''0b'', ''0B''} then based 2
         else if hd s = CHR ''-''
           then (case read_decimal (tl s) of None \<Rightarrow> NaN | Some x \<Rightarrow> to_double (- x))
         else if hd s = CHR ''+''
           then (case read_decimal (tl s) of None \<Rightarrow> NaN | Some x \<Rightarrow> to_double x)
         else (case read_decimal s of None \<Rightarrow> NaN | Some x \<Rightarrow> to_double x))"

text \<open>The order of \<^verbatim>\<open>sort()\<close> without a comparator: by code units.\<close>

fun code_unit_compare :: "string \<Rightarrow> string \<Rightarrow> int" where
  "code_unit_compare [] [] = 0"
| "code_unit_compare [] (d # ds) = - 1"
| "code_unit_compare (c # cs) [] = 1"
| "code_unit_compare (c # cs) (d # ds) =
     (if code c < code d then - 1 else if code d < code c then 1 else code_unit_compare cs ds)"

text \<open>\<^verbatim>\<open>if (s)\<close> on an optional string: absent and empty are both false.\<close>

definition truthy :: "string option \<Rightarrow> bool" where
  "truthy s \<longleftrightarrow> (case s of None \<Rightarrow> False | Some t \<Rightarrow> t \<noteq> [])"

text \<open>An argument of a union type such as \<^verbatim>\<open>string | number | bigint | undefined | null\<close>.\<close>

datatype jsval = Undefined | Null | Str string | Num jsnum | Big int

section \<open>Digits read back\<close>

lemma digit_of_char [simp]:
  assumes "0 \<le> n" "n < 10"
  shows "is_digit (digit_char n)" "digit_val (digit_char n) = n" "digit_char n \<noteq> CHR ''.''"
    "\<not> is_space (digit_char n)"
proof -
  have dc: "code (digit_char n) = 48 + n"
    using assms by (simp add: code_def digit_char_def take_bit_int_eq_self)
  then show "is_digit (digit_char n)" "digit_val (digit_char n) = n" "\<not> is_space (digit_char n)"
    using assms by (simp_all add: is_digit_def digit_val_def is_space_def)
  have "code CHR ''.'' = 46" by (simp add: code_def)
  then show "digit_char n \<noteq> CHR ''.''"
    using dc assms by auto
qed

lemma digit_char_0: "digit_char 0 = CHR ''0''"
  by code_simp

lemma digit_char_0_iff:
  assumes "0 \<le> n" "n < 10"
  shows "digit_char n = CHR ''0'' \<longleftrightarrow> n = 0"
proof -
  have "digit_val CHR ''0'' = 0" by (simp add: digit_val_def code_def)
  then show ?thesis using digit_of_char(2) [OF assms] digit_char_0 by auto
qed

lemma show_digits_nonempty [simp]: "show_digits n \<noteq> []"
  by (subst show_digits.simps) simp

lemma read_digits_snoc: "read_digits (s @ [c]) = 10 * read_digits s + digit_val c"
  by (simp add: read_digits_def)

lemma read_show_digits [simp]: "0 \<le> n \<Longrightarrow> read_digits (show_digits n) = n"
proof (induction n rule: show_digits.induct)
  case (1 n)
  then show ?case
    by (subst show_digits.simps) (auto simp: read_digits_snoc, simp add: read_digits_def)
qed

lemma show_digits_all_digit: "0 \<le> n \<Longrightarrow> list_all is_digit (show_digits n)"
proof (induction n rule: show_digits.induct)
  case (1 n)
  then show ?case by (subst show_digits.simps) auto
qed

lemma hd_show_digits: "0 < n \<Longrightarrow> hd (show_digits n) \<noteq> CHR ''0''"
proof (induction n rule: show_digits.induct)
  case (1 n)
  then show ?case by (subst show_digits.simps) (auto simp: digit_char_0_iff)
qed

lemma show_digits_0: "show_digits 0 = ''0''"
  by (subst show_digits.simps) (simp add: digit_char_0)

lemma canonical_show_digits: "0 \<le> n \<Longrightarrow> canonical_digits (show_digits n)"
  using show_digits_all_digit [of n] hd_show_digits [of n]
  by (cases "n = 0") (auto simp: canonical_digits_def all_digits_def show_digits_0)

lemma all_show_digits: "0 \<le> n \<Longrightarrow> all_digits (show_digits n)"
  by (simp add: all_digits_def show_digits_all_digit)

lemma length_show_digits: "0 \<le> n \<Longrightarrow> n < 10 ^ k \<Longrightarrow> 0 < k \<Longrightarrow> length (show_digits n) \<le> k"
proof (induction n arbitrary: k rule: show_digits.induct)
  case (1 n)
  show ?case
  proof (cases "n < 10")
    case True
    then show ?thesis using "1.prems" by (subst show_digits.simps) simp
  next
    case False
    then obtain j where j: "k = Suc j" "0 < j"
      using "1.prems" by (cases k; cases "k - 1"; simp)
    then have "length (show_digits (n div 10)) \<le> j"
      using 1 False by (intro "1.IH") (auto simp: pos_imp_zdiv_nonneg_iff)
    then show ?thesis using False j by (subst show_digits.simps) simp
  qed
qed

lemma digit_not_dot: "is_digit c \<Longrightarrow> c \<noteq> CHR ''.''"
  by (auto simp: is_digit_def code_def)

lemma digit_not_space: "is_digit c \<Longrightarrow> \<not> is_space c"
  by (auto simp: is_digit_def is_space_def)

lemma digit_val_bounds: "is_digit c \<Longrightarrow> 0 \<le> digit_val c \<and> digit_val c < 10"
  by (auto simp: is_digit_def digit_val_def)

lemma read_digits_bounds: "list_all is_digit s \<Longrightarrow> 0 \<le> read_digits s \<and> read_digits s < 10 ^ length s"
proof (induction s rule: rev_induct)
  case (snoc c s)
  then show ?case using digit_val_bounds [of c] by (simp add: read_digits_snoc)
qed (simp add: read_digits_def)

lemma read_digits_zeros: "read_digits (replicate n CHR ''0'' @ s) = read_digits s"
proof -
  have "foldl (\<lambda>a c. 10 * a + digit_val c) 0 (replicate n CHR ''0'') = 0"
    by (induction n) (simp_all add: digit_val_def code_def)
  then show ?thesis by (simp add: read_digits_def)
qed

lemma all_digits_pad_start:
  "all_digits s \<Longrightarrow> all_digits (pad_start k CHR ''0'' s)"
  by (auto simp: all_digits_def pad_start_def list_all_iff is_digit_def code_def)

lemma pad_end_id [simp]: "k \<le> length s \<Longrightarrow> pad_end k c s = s"
  by (simp add: pad_end_def)

lemma length_pad_start: "length s \<le> k \<Longrightarrow> length (pad_start k c s) = k"
  by (simp add: pad_start_def)

lemma take_append_zeros: "length f \<le> k \<Longrightarrow> take k (f @ replicate k c) = pad_end k c f"
  by (simp add: pad_end_def)

section \<open>Scaled decimals\<close>

text \<open>Reading back the text of a scaled value gives its two groups.\<close>

lemma match_show_scaled:
  assumes "0 \<le> m" "scale = 10 ^ k" "0 < k" and whole: "\<And>n. 0 \<le> n \<Longrightarrow> whole (show_digits n)"
  shows "match_decimal whole k (show_scaled scale k m) =
    Some (show_digits (m div scale), Some (pad_start k CHR ''0'' (show_digits (m mod scale))))"
proof -
  have s: "0 < scale" using assms by simp
  have nodot: "\<forall>c \<in> set (show_digits (m div scale)). c \<noteq> CHR ''.''"
    using show_digits_all_digit [of "m div scale"] assms(1) s digit_not_dot
    by (auto simp: list_all_iff pos_imp_zdiv_nonneg_iff)
  have tw: "takeWhile (\<lambda>c. c \<noteq> CHR ''.'') (show_scaled scale k m) = show_digits (m div scale)"
    "dropWhile (\<lambda>c. c \<noteq> CHR ''.'') (show_scaled scale k m) =
       CHR ''.'' # pad_start k CHR ''0'' (show_digits (m mod scale))"
    using nodot by (auto simp: show_scaled_def takeWhile_append2 dropWhile_append2)
  have len: "length (show_digits (m mod scale)) \<le> k"
    using s assms by (intro length_show_digits) auto
  have "all_digits (pad_start k CHR ''0'' (show_digits (m mod scale)))"
    using s by (intro all_digits_pad_start all_show_digits) simp
  then show ?thesis
    using len whole [of "m div scale"] assms(1) s
    by (simp add: match_decimal_def tw length_pad_start pos_imp_zdiv_nonneg_iff Let_def)
qed

lemma scaled_value_show:
  assumes "0 \<le> m" "scale = 10 ^ k" "0 < k"
  shows "scaled_value scale k
    (show_digits (m div scale), Some (pad_start k CHR ''0'' (show_digits (m mod scale)))) = m"
proof -
  have s: "0 < scale" using assms by simp
  have len: "length (show_digits (m mod scale)) \<le> k"
    using s assms by (intro length_show_digits) auto
  have "read_digits (pad_start k CHR ''0'' (show_digits (m mod scale))) = m mod scale"
    using s by (simp add: pad_start_def read_digits_zeros)
  then show ?thesis
    using len assms(1) s
    by (simp add: scaled_value_def length_pad_start pos_imp_zdiv_nonneg_iff)
qed

lemma match_decimal_groups:
  assumes "match_decimal whole k s = Some (w, f)"
  shows "whole w" and "f = None \<or> (\<exists>g. f = Some g \<and> all_digits g \<and> length g \<le> k)"
  using assms by (auto simp: match_decimal_def Let_def split: if_splits list.splits)

lemma all_digits_canonical: "canonical_digits s \<Longrightarrow> all_digits s"
  by (auto simp: canonical_digits_def all_digits_def is_digit_def code_def)

lemma scaled_value_nonneg:
  assumes "match_decimal whole k s = Some m" "\<And>w. whole w \<Longrightarrow> all_digits w" "0 < scale"
  shows "0 \<le> scaled_value scale k m"
proof -
  obtain w f where m: "m = (w, f)" by fastforce
  have w: "list_all is_digit w"
    using match_decimal_groups(1) [of whole k s w f] assms(1,2) m by (auto simp: all_digits_def)
  have f: "list_all is_digit (pad_end k CHR ''0'' (case f of None \<Rightarrow> [] | Some f \<Rightarrow> f))"
    using match_decimal_groups(2) [of whole k s w f] assms(1) m
    by (auto simp: all_digits_def pad_end_def list_all_iff is_digit_def code_def)
  show ?thesis
    using read_digits_bounds [OF w] read_digits_bounds [OF f] assms(3)
    by (simp add: scaled_value_def m)
qed

text \<open>Neither a digit text nor a scaled text has white space to trim.\<close>

lemma js_trim_id:
  assumes "s \<noteq> []" "\<not> is_space (hd s)" "\<not> is_space (last s)"
  shows "js_trim s = s"
proof -
  have "trim_start s = s" using assms by (cases s) (simp_all add: trim_start_def)
  moreover have "dropWhile is_space (rev s) = rev s"
    using assms by (cases s rule: rev_cases) simp_all
  ultimately show ?thesis by (simp add: js_trim_def)
qed

lemma all_digits_trim: "all_digits s \<Longrightarrow> js_trim s = s"
  by (rule js_trim_id) (auto simp: all_digits_def list_all_iff digit_not_space)

lemma show_scaled_ends:
  assumes "0 \<le> m" "0 < scale"
  shows "show_scaled scale k m \<noteq> []" "is_digit (hd (show_scaled scale k m))"
    "is_digit (last (show_scaled scale k m))"
proof -
  have d: "all_digits (show_digits (m div scale))"
    "all_digits (pad_start k CHR ''0'' (show_digits (m mod scale)))"
    using assms by (simp_all add: all_show_digits all_digits_pad_start pos_imp_zdiv_nonneg_iff)
  then show "show_scaled scale k m \<noteq> []" "is_digit (hd (show_scaled scale k m))"
    "is_digit (last (show_scaled scale k m))"
    by (auto simp: show_scaled_def all_digits_def list_all_iff)
qed

lemma show_scaled_trim: "0 \<le> m \<Longrightarrow> 0 < scale \<Longrightarrow> js_trim (show_scaled scale k m) = show_scaled scale k m"
  using show_scaled_ends digit_not_space by (intro js_trim_id) blast+

text \<open>\<^verbatim>\<open>Number(s)\<close> of plain digits is the double nearest to the integer they denote.\<close>

lemma num_of_string_digits:
  assumes "all_digits s"
  shows "num_of_string s = js_of_int (read_digits s)"
proof -
  obtain c cs where s: "s = c # cs" "is_digit c" "list_all is_digit cs"
    using assms by (cases s) (auto simp: all_digits_def)
  have alpha: "\<not> is_digit CHR ''x''" "\<not> is_digit CHR ''X''" "\<not> is_digit CHR ''o''" "\<not> is_digit CHR ''O''"
    "\<not> is_digit CHR ''b''" "\<not> is_digit CHR ''B''" "\<not> is_digit CHR ''I''" "\<not> is_digit CHR ''+''" "\<not> is_digit CHR ''-''"
    by (simp_all add: is_digit_def code_def)
  have pre: "take 2 s \<notin> {''0x'', ''0X''}" "take 2 s \<notin> {''0o'', ''0O''}" "take 2 s \<notin> {''0b'', ''0B''}"
    using s alpha by (cases cs; auto)+
  have hd: "s \<noteq> []" "hd s \<noteq> CHR ''+''" "hd s \<noteq> CHR ''-''"
    "s \<noteq> ''Infinity''" "s \<noteq> ''+Infinity''" "s \<noteq> ''-Infinity''"
    using s alpha by auto
  have dec: "read_decimal s = Some (of_int (read_digits s))"
  proof -
    have "takeWhile is_digit s = s" "dropWhile is_digit s = []"
      using assms by (auto simp: all_digits_def list_all_iff takeWhile_eq_all_conv)
    then show ?thesis
      using s(1) by (simp add: read_decimal_def read_exponent_def Let_def)
  qed
  show ?thesis
    unfolding num_of_string_def Let_def all_digits_trim [OF assms] js_of_int_def
    by (simp only: pre hd dec if_False simp_thms option.case)
qed

section \<open>Orders on text\<close>

lemma code_inject: "code c = code d \<longleftrightarrow> c = d"
  by (simp add: code_def)

lemma code_unit_compare_eq_0 [simp]: "code_unit_compare s t = 0 \<longleftrightarrow> s = t"
  by (induction s t rule: code_unit_compare.induct) (auto simp: code_inject[symmetric])

lemma code_unit_compare_neg: "code_unit_compare t s = - code_unit_compare s t"
  by (induction s t rule: code_unit_compare.induct) auto

lemma code_unit_compare_le:
  "code_unit_compare (c # cs) (d # ds) \<le> 0 \<longleftrightarrow>
     code c < code d \<or> (code c = code d \<and> code_unit_compare cs ds \<le> 0)"
  by auto

lemma code_unit_compare_trans:
  "code_unit_compare s t \<le> 0 \<Longrightarrow> code_unit_compare t u \<le> 0 \<Longrightarrow> code_unit_compare s u \<le> 0"
proof (induction s arbitrary: t u)
  case Nil
  then show ?case by (cases u) simp_all
next
  case (Cons c cs)
  then obtain d ds where t: "t = d # ds" by (cases t) simp_all
  then obtain e es where u: "u = e # es" using Cons.prems by (cases u) simp_all
  show ?case
    using Cons.prems Cons.IH [of ds es] unfolding t u code_unit_compare_le by linarith
qed

interpretation code_units: comparator code_unit_compare
proof
  show "code_unit_compare x y \<le> 0 \<longleftrightarrow> 0 \<le> code_unit_compare y x" for x y
    using code_unit_compare_neg [of x y] by linarith
qed (simp_all add: code_unit_compare_trans)

text \<open>
  The contract of a fixed-point text format: what the formatter prints, the parser reads
  back, and the parser returns only values the format is for.
\<close>

locale fixed_point_codec =
  fixes parse :: "string \<Rightarrow> 'e + int" and fmt :: "int \<Rightarrow> string" and valid :: "int \<Rightarrow> bool"
  assumes parse_fmt: "valid m \<Longrightarrow> parse (fmt m) = Inr m"
    and parse_valid: "parse s = Inr m \<Longrightarrow> valid m"
begin

lemma fmt_inj: "valid m \<Longrightarrow> valid n \<Longrightarrow> fmt m = fmt n \<Longrightarrow> m = n"
  by (metis parse_fmt sum.inject(2))

lemma reparse: "parse s = Inr m \<Longrightarrow> parse (fmt m) = Inr m"
  by (simp add: parse_fmt parse_valid)

lemma parse_range: "(\<exists>s. parse s = Inr m) \<longleftrightarrow> valid m"
  using parse_fmt parse_valid by blast

end

section \<open>Money at the boundary\<close>

text \<open>A whole-VND number handed to a function that takes any value.\<close>

definition num_arg :: "int \<Rightarrow> jsval" where
  "num_arg n = Num (Fin (of_int n))"

text \<open>
  Every service reads money with a function that accepts non-negative safe integers (or a
  \<^verbatim>\<open>bigint\<close> of any size) and writes it with one that refuses what a double cannot hold exactly.
\<close>

locale money_gate =
  fixes money_in :: "jsval \<Rightarrow> 'e + int" and money_out :: "int \<Rightarrow> 'e + int"
  assumes in_num: "money_in (Num x) = Inr n \<longleftrightarrow> is_safe_integer x \<and> 0 \<le> int_of_num x \<and> n = int_of_num x"
    and in_big: "money_in (Big v) = Inr n \<longleftrightarrow> 0 \<le> v \<and> n = v"
    and out_iff: "money_out n = Inr m \<longleftrightarrow> \<bar>n\<bar> \<le> max_safe \<and> m = n"
begin

lemma out_safe: "\<bar>n\<bar> \<le> max_safe \<Longrightarrow> money_out n = Inr n"
  by (simp add: out_iff)

lemma in_num_arg: "money_in (num_arg n) = Inr m \<longleftrightarrow> 0 \<le> n \<and> n \<le> max_safe \<and> m = n"
  by (auto simp: in_num num_arg_def)

lemma out_in: "money_out n = Inr m \<Longrightarrow> 0 \<le> n \<Longrightarrow> money_in (num_arg m) = Inr n"
  by (auto simp: in_num_arg out_iff)

lemma in_out: "money_in (Num x) = Inr n \<Longrightarrow> money_out n = Inr n \<and> x = Fin (of_int n)"
  by (auto simp: in_num out_iff elim!: is_safe_integerE)

lemma in_num_bounds: "money_in (Num x) = Inr n \<Longrightarrow> 0 \<le> n \<and> n \<le> max_safe"
  by (auto simp: in_num elim!: is_safe_integerE)

end

end
