(* ===== verification/InventoryDomain.thy ===== *)
theory InventoryDomain
  imports JsString
begin

text \<open>
  The pure part of the inventory service's domain layer
  (\<^verbatim>\<open>apps/inventory/src/domain/inventory-domain.ts\<close>): error codes, quantities as text and in
  milli-units, whole-VND money, unit conversion, weighted-average cost, and the
  normalisation of stock lines before locking.
\<close>

datatype (plugins only: code) InventoryDomainErrorCode =
    WAREHOUSE_NOT_FOUND | WAREHOUSE_INACTIVE | WAREHOUSE_CODE_CONFLICT
  | WAREHOUSE_HAS_PENDING_OPERATIONS | WAREHOUSE_BRANCH_INVALID | WAREHOUSE_BRANCH_LOCKED
  | WAREHOUSE_IS_DEFAULT | WAREHOUSE_NOT_IN_BRANCH | BRANCH_HAS_NO_WAREHOUSE | BRANCH_NOT_FOUND
  | BRANCH_NOT_ACTIVE | SKU_NOT_FOUND | SKU_NOT_SELLABLE | STOCK_BALANCE_NOT_FOUND
  | INSUFFICIENT_STOCK | RESERVATION_NOT_FOUND | RESERVATION_EXPIRED
  | RESERVATION_ALREADY_COMMITTED | RESERVATION_STATE_CONFLICT | IDEMPOTENCY_CONFLICT
  | MISSING_IDEMPOTENCY_KEY | INVALID_QUANTITY | INVALID_MONEY_AMOUNT | INVALID_UNIT_CONVERSION
  | STOCK_RECEIPT_NOT_FOUND | STOCK_RECEIPT_ALREADY_POSTED | STOCK_RECEIPT_INVALID_STATE
  | STOCK_ISSUE_NOT_FOUND | STOCK_ISSUE_ALREADY_POSTED | STOCK_ISSUE_INVALID_STATE
  | TRANSFER_NOT_FOUND | TRANSFER_SAME_WAREHOUSE | TRANSFER_INVALID_STATE
  | TRANSFER_QUANTITY_MISMATCH | TRANSFER_DUPLICATE_SKU | TRANSFER_QUARANTINE_NOT_ALLOWED
  | STOCKTAKE_NOT_FOUND | STOCKTAKE_INVALID_STATE | STOCKTAKE_STALE_SNAPSHOT
  | STOCKTAKE_BELOW_RESERVED | SUPPLIER_NOT_FOUND | SUPPLIER_CODE_CONFLICT | SUPPLIER_INACTIVE
  | PURCHASE_ORDER_NOT_FOUND | PURCHASE_ORDER_CODE_CONFLICT | PURCHASE_ORDER_INVALID_STATE
  | OVER_RECEIPT_NOT_ALLOWED | EXPORT_TOO_LARGE | SUPPLIER_IN_USE | CROSS_TENANT_ACCESS_DENIED
  | PERMISSION_DENIED

type_synonym 'a inv_result = "(InventoryDomainErrorCode, 'a) result"

abbreviation inv_error :: "InventoryDomainErrorCode \<Rightarrow> nat \<Rightarrow> InventoryDomainErrorCode err" where
  "inv_error \<equiv> DomainError"

definition QTY_SCALE :: int where
  "QTY_SCALE = 1000"

definition FACTOR_SCALE :: int where
  "FACTOR_SCALE = 10000"

section \<open>Codes, quantities and money\<close>

text \<open>\<^verbatim>\<open>/^[A-Z0-9][A-Z0-9._/-]{0,63}$/\<close> on the trimmed, upper-cased code with runs of white space as hyphens.\<close>

definition inventory_code_char :: "char \<Rightarrow> bool" where
  "inventory_code_char c \<longleftrightarrow>
     is_upper c \<or> is_digit c \<or> c \<in> {CHR ''.'', CHR ''_'', CHR ''/'', CHR ''-''}"

definition normalizeInventoryCode :: "string \<Rightarrow> string inv_result" where
  "normalizeInventoryCode input =
     (let cleaned = replace_spaces ''-'' False (js_upper (js_trim input))
      in case cleaned of
           [] \<Rightarrow> Inl (inv_error INVALID_QUANTITY 400)
         | c # cs \<Rightarrow>
             if (is_upper c \<or> is_digit c) \<and> list_all inventory_code_char cs \<and> length cs \<le> 63
             then Inr cleaned
             else Inl (inv_error INVALID_QUANTITY 400))"

definition split_sign :: "string \<Rightarrow> bool \<times> string" where
  "split_sign s = (case s of c # cs \<Rightarrow> if c = CHR ''-'' then (True, cs) else (False, s) | [] \<Rightarrow> (False, []))"

definition parseQtyToMilli :: "string \<Rightarrow> bool \<Rightarrow> bool \<Rightarrow> int inv_result" where
  "parseQtyToMilli value allowZero allowNegative =
     (let (negative, body) = split_sign (js_trim value)
      in case match_decimal canonical_digits 3 body of
           None \<Rightarrow> Inl (inv_error INVALID_QUANTITY 400)
         | Some m \<Rightarrow>
             let milli = (if negative then - 1 else 1) * scaled_value QTY_SCALE 3 m
             in if \<not> allowNegative \<and> milli < 0 then Inl (inv_error INVALID_QUANTITY 400)
                else if \<not> allowZero \<and> milli = 0 then Inl (inv_error INVALID_QUANTITY 400)
                else Inr milli)"

definition formatMilliToQty :: "int \<Rightarrow> string" where
  "formatMilliToQty milli = (if milli < 0 then ''-'' else []) @ show_scaled QTY_SCALE 3 \<bar>milli\<bar>"

text \<open>
  For a \<^verbatim>\<open>number\<close>, \<^verbatim>\<open>String(x)\<close> is plain digits and \<^verbatim>\<open>Number(..)\<close> of it is safe exactly when \<open>x\<close> is a
  non-negative safe integer (larger integers fail the second test, fractions, exponents and
  signs the first), so that case is written on the number itself.
\<close>

definition parseMoneyToVnd :: "jsval \<Rightarrow> int inv_result" where
  "parseMoneyToVnd value =
     (case value of
        Undefined \<Rightarrow> Inr 0
      | Null \<Rightarrow> Inr 0
      | Big v \<Rightarrow> (if v < 0 then Inl (inv_error INVALID_MONEY_AMOUNT 400) else Inr v)
      | Num x \<Rightarrow>
          (if is_safe_integer x \<and> \<not> js_lt x (Fin 0) then Inr (int_of_num x)
           else Inl (inv_error INVALID_MONEY_AMOUNT 400))
      | Str s \<Rightarrow>
          (if s = [] then Inr 0
           else let str = js_trim s
                in if \<not> canonical_digits str \<or> \<not> is_safe_integer (num_of_string str)
                   then Inl (inv_error INVALID_MONEY_AMOUNT 400)
                   else Inr (read_digits str)))"

text \<open>The number is returned as the integer it denotes.\<close>

definition vndToNumber :: "int \<Rightarrow> int inv_result" where
  "vndToNumber vnd =
     (let n = js_of_int vnd
      in if \<not> is_safe_integer n then Inl (inv_error INVALID_MONEY_AMOUNT 400) else Inr (int_of_num n))"

section \<open>Unit conversion\<close>

definition parseConversionFactorToTenThousandths :: "string option \<Rightarrow> int inv_result" where
  "parseConversionFactorToTenThousandths value =
     (case value of
        None \<Rightarrow> Inr FACTOR_SCALE
      | Some s \<Rightarrow>
          (if s = [] then Inr FACTOR_SCALE
           else (case match_decimal canonical_digits 4 (js_trim s) of
                   None \<Rightarrow> Inl (inv_error INVALID_UNIT_CONVERSION 400)
                 | Some m \<Rightarrow>
                     (let factor = scaled_value FACTOR_SCALE 4 m
                      in if factor \<le> 0 then Inl (inv_error INVALID_UNIT_CONVERSION 400)
                         else Inr factor))))"

definition formatFactorFromTenThousandths :: "int \<Rightarrow> string" where
  "formatFactorFromTenThousandths factor =
     show_int (bigint_div factor FACTOR_SCALE) @ CHR ''.'' #
     pad_start 4 CHR ''0'' (show_int (factor - bigint_div factor FACTOR_SCALE * FACTOR_SCALE))"

definition convertToBaseQtyMilli :: "string \<Rightarrow> string option \<Rightarrow> int inv_result" where
  "convertToBaseQtyMilli qtyInput conversionFactor =
     ebind (parseQtyToMilli qtyInput False False) (\<lambda>rawMilli.
     ebind (parseConversionFactorToTenThousandths conversionFactor) (\<lambda>factor.
       let converted = bigint_div (rawMilli * factor + bigint_div FACTOR_SCALE 2) FACTOR_SCALE
       in if converted \<le> 0 then Inl (inv_error INVALID_UNIT_CONVERSION 400) else Inr converted))"

section \<open>Weighted-average cost\<close>

record WeightedAverageCostResult =
  newOnHandMilli :: int
  newAvgCostVnd :: int
  newValuationVnd :: int
  newOnHandQty :: string
  newAvgUnitCost :: int
  newValuationAmount :: int

definition computeWeightedAverageCostOnReceipt ::
    "string \<Rightarrow> jsval \<Rightarrow> string \<Rightarrow> jsval \<Rightarrow> WeightedAverageCostResult inv_result" where
  "computeWeightedAverageCostOnReceipt currentOnHandQty currentAvgUnitCost receivedBaseQty receivedUnitCost =
     ebind (parseQtyToMilli currentOnHandQty True False) (\<lambda>oldQtyMilli.
     ebind (parseMoneyToVnd currentAvgUnitCost) (\<lambda>oldAvgVnd.
     ebind (parseQtyToMilli receivedBaseQty False False) (\<lambda>addQtyMilli.
     ebind (parseMoneyToVnd receivedUnitCost) (\<lambda>addCostVnd.
       let onHand = oldQtyMilli + addQtyMilli;
           totalWeighted = oldQtyMilli * oldAvgVnd + addQtyMilli * addCostVnd;
           avg = bigint_div (totalWeighted + bigint_div onHand 2) onHand;
           valuation = bigint_div (onHand * avg + bigint_div QTY_SCALE 2) QTY_SCALE
       in ebind (vndToNumber avg) (\<lambda>avgNum.
          ebind (vndToNumber valuation) (\<lambda>valNum.
            Inr \<lparr>newOnHandMilli = onHand, newAvgCostVnd = avg, newValuationVnd = valuation,
                 newOnHandQty = formatMilliToQty onHand, newAvgUnitCost = avgNum,
                 newValuationAmount = valNum\<rparr>))))))"

definition computeValuationAfterDeduction ::
    "string \<Rightarrow> jsval \<Rightarrow> string \<Rightarrow> WeightedAverageCostResult inv_result" where
  "computeValuationAfterDeduction currentOnHandQty currentAvgUnitCost deductedBaseQty =
     ebind (parseQtyToMilli currentOnHandQty True False) (\<lambda>oldQtyMilli.
     ebind (parseMoneyToVnd currentAvgUnitCost) (\<lambda>avgVnd.
     ebind (parseQtyToMilli deductedBaseQty False False) (\<lambda>deductMilli.
       if deductMilli > oldQtyMilli then Inl (inv_error INSUFFICIENT_STOCK 409)
       else
         let onHand = oldQtyMilli - deductMilli;
             valuation = (if onHand = 0 then 0
                          else bigint_div (onHand * avgVnd + bigint_div QTY_SCALE 2) QTY_SCALE)
         in ebind (vndToNumber avgVnd) (\<lambda>avgNum.
            ebind (vndToNumber valuation) (\<lambda>valNum.
              Inr \<lparr>newOnHandMilli = onHand, newAvgCostVnd = avgVnd, newValuationVnd = valuation,
                   newOnHandQty = formatMilliToQty onHand, newAvgUnitCost = avgNum,
                   newValuationAmount = valNum\<rparr>)))))"

section \<open>Stock lines before locking\<close>

record StockLineInput =
  in_warehouseId :: string
  in_skuId :: string
  in_qty :: string

record NormalizedSkuQtyLine =
  warehouseId :: string
  skuId :: string
  qtyMilli :: int
  qty :: string

text \<open>
  The accumulating \<^verbatim>\<open>Map\<close> is keyed by the text \<^verbatim>\<open>warehouseId:skuId\<close>; \<open>lc\<close> is
  \<^verbatim>\<open>localeCompare\<close>, which the host's collation defines.
\<close>

definition line_key :: "string \<Rightarrow> string \<Rightarrow> string" where
  "line_key w s = w @ CHR '':'' # s"

definition add_line :: "StockLineInput \<Rightarrow> (string, string \<times> string \<times> int) jsmap
    \<Rightarrow> (string, string \<times> string \<times> int) jsmap inv_result" where
  "add_line line m =
     ebind (parseQtyToMilli (in_qty line) False False) (\<lambda>milli.
       let key = line_key (in_warehouseId line) (in_skuId line)
       in case map_get m key of
            Some (w, s, q) \<Rightarrow> Inr (map_set key (w, s, q + milli) m)
          | None \<Rightarrow> Inr (map_set key (in_warehouseId line, in_skuId line, milli) m))"

definition line_compare ::
    "(string \<Rightarrow> string \<Rightarrow> int) \<Rightarrow> string \<times> string \<times> int \<Rightarrow> string \<times> string \<times> int \<Rightarrow> int" where
  "line_compare lc a b =
     (let w = lc (fst a) (fst b) in if w \<noteq> 0 then w else lc (fst (snd a)) (fst (snd b)))"

definition normalizeAndSortWarehouseLines ::
    "(string \<Rightarrow> string \<Rightarrow> int) \<Rightarrow> StockLineInput list \<Rightarrow> NormalizedSkuQtyLine list inv_result" where
  "normalizeAndSortWarehouseLines lc lines =
     (if lines = [] then Inl (inv_error INVALID_QUANTITY 400)
      else ebind (efold add_line lines []) (\<lambda>m.
        Inr (map (\<lambda>(w, s, q). \<lparr>warehouseId = w, skuId = s, qtyMilli = q, qty = formatMilliToQty q\<rparr>)
               (js_sort (line_compare lc) (map snd m)))))"

section \<open>Quantities as text\<close>

lemmas inv_scale_defs = QTY_SCALE_def FACTOR_SCALE_def

lemma digit_not_minus: "is_digit c \<Longrightarrow> c \<noteq> CHR ''-''"
  by (auto simp: is_digit_def code_def)

lemma formatMilliToQty_sign:
  "split_sign (js_trim (formatMilliToQty m)) = (m < 0, show_scaled QTY_SCALE 3 \<bar>m\<bar>)"
proof -
  define t where "t = show_scaled QTY_SCALE 3 \<bar>m\<bar>"
  have ends: "t \<noteq> []" "is_digit (hd t)" "is_digit (last t)"
    by (simp_all add: t_def show_scaled_ends QTY_SCALE_def)
  have fmt: "formatMilliToQty m = (if m < 0 then CHR ''-'' # t else t)"
    by (simp add: formatMilliToQty_def t_def)
  have "\<not> is_space CHR ''-''" by (simp add: is_space_def code_def)
  then have "js_trim (formatMilliToQty m) = formatMilliToQty m"
    using ends digit_not_space by (intro js_trim_id) (auto simp: fmt)
  then show ?thesis
    using ends digit_not_minus [OF ends(2)]
    by (cases t) (auto simp: fmt split_sign_def simp flip: t_def)
qed

lemma parseQty_format:
  "parseQtyToMilli (formatMilliToQty m) allowZero allowNegative =
     (if \<not> allowNegative \<and> m < 0 then Inl (inv_error INVALID_QUANTITY 400)
      else if \<not> allowZero \<and> m = 0 then Inl (inv_error INVALID_QUANTITY 400) else Inr m)"
proof -
  have "match_decimal canonical_digits 3 (show_scaled QTY_SCALE 3 \<bar>m\<bar>) =
      Some (show_digits (\<bar>m\<bar> div QTY_SCALE), Some (pad_start 3 CHR ''0'' (show_digits (\<bar>m\<bar> mod QTY_SCALE))))"
    by (intro match_show_scaled) (simp_all add: QTY_SCALE_def canonical_show_digits)
  moreover have "scaled_value QTY_SCALE 3
      (show_digits (\<bar>m\<bar> div QTY_SCALE), Some (pad_start 3 CHR ''0'' (show_digits (\<bar>m\<bar> mod QTY_SCALE)))) = \<bar>m\<bar>"
    by (intro scaled_value_show) (simp_all add: QTY_SCALE_def)
  ultimately show ?thesis
    by (simp add: parseQtyToMilli_def formatMilliToQty_sign Let_def abs_if)
qed

lemma parseQty_range:
  assumes "parseQtyToMilli s allowZero allowNegative = Inr m"
  shows "allowNegative \<or> 0 \<le> m" "allowZero \<or> m \<noteq> 0"
  using assms by (auto simp: parseQtyToMilli_def Let_def split: prod.splits option.splits if_splits)

lemma parseQty_pos [dest]: "parseQtyToMilli s False False = Inr m \<Longrightarrow> 0 < m"
  using parseQty_range [of s False False m] by simp

lemma parseQty_nonneg [dest]: "parseQtyToMilli s True False = Inr m \<Longrightarrow> 0 \<le> m"
  using parseQty_range [of s True False m] by simp

interpretation inv_qty: fixed_point_codec "\<lambda>s. parseQtyToMilli s False False" formatMilliToQty "\<lambda>m. 0 < m"
  by unfold_locales (auto simp: parseQty_format)

interpretation inv_qty0: fixed_point_codec "\<lambda>s. parseQtyToMilli s True False" formatMilliToQty "\<lambda>m. 0 \<le> m"
  by unfold_locales (auto simp: parseQty_format)

interpretation inv_signed: fixed_point_codec "\<lambda>s. parseQtyToMilli s True True" formatMilliToQty "\<lambda>m. True"
  by unfold_locales (auto simp: parseQty_format)

section \<open>Money\<close>

lemma vndToNumber_iff: "vndToNumber v = Inr n \<longleftrightarrow> n = v \<and> \<bar>v\<bar> \<le> max_safe"
  using max_safe_lt js_of_int_small [of v]
  by (auto simp: vndToNumber_def Let_def is_safe_integer_of_int)

lemma vndToNumber_ok [simp]: "\<bar>v\<bar> \<le> max_safe \<Longrightarrow> vndToNumber v = Inr v"
  by (simp add: vndToNumber_iff)

lemma parseMoneyToVnd_nonneg: "parseMoneyToVnd x = Inr v \<Longrightarrow> 0 \<le> v"
  using read_digits_bounds all_digits_canonical
  by (auto simp: parseMoneyToVnd_def Let_def all_digits_def split: jsval.splits if_splits
      elim!: is_safe_integerE)

lemma parseMoneyToVnd_Num [simp]:
  "parseMoneyToVnd (Num (Fin (of_int v))) =
     (if 0 \<le> v \<and> v \<le> max_safe then Inr v else Inl (inv_error INVALID_MONEY_AMOUNT 400))"
  by (auto simp: parseMoneyToVnd_def)

text \<open>Every amount that is not a \<^verbatim>\<open>bigint\<close> is a safe integer.\<close>

lemma parseMoneyToVnd_safe:
  assumes "parseMoneyToVnd x = Inr v" "\<And>b. x \<noteq> Big b"
  shows "v \<le> max_safe"
  using assms all_digits_canonical
  by (auto simp: parseMoneyToVnd_def Let_def num_of_string_digits is_safe_integer_of_int max_safe_def
      split: jsval.splits if_splits elim!: is_safe_integerE)

interpretation inv_money: money_gate parseMoneyToVnd vndToNumber
  by unfold_locales (auto simp: parseMoneyToVnd_def vndToNumber_iff split: if_splits elim!: is_safe_integerE)

section \<open>Unit conversion\<close>

lemma formatFactor_show:
  assumes "0 \<le> f"
  shows "formatFactorFromTenThousandths f = show_scaled FACTOR_SCALE 4 f"
proof -
  have "\<not> f div FACTOR_SCALE < 0" "\<not> f mod FACTOR_SCALE < 0" "0 < FACTOR_SCALE"
    using assms by (simp_all add: FACTOR_SCALE_def not_less pos_imp_zdiv_nonneg_iff)
  then show ?thesis
    using assms
    by (simp add: formatFactorFromTenThousandths_def show_scaled_def show_int_def minus_div_mult_eq_mod)
qed

lemma parseFactor_pos: "parseConversionFactorToTenThousandths c = Inr f \<Longrightarrow> 0 < f"
  by (auto simp: parseConversionFactorToTenThousandths_def Let_def FACTOR_SCALE_def
      split: option.splits if_splits)

interpretation inv_factor: fixed_point_codec "\<lambda>s. parseConversionFactorToTenThousandths (Some s)"
  formatFactorFromTenThousandths "\<lambda>f. 0 < f"
proof
  fix f :: int
  assume f: "0 < f"
  have "match_decimal canonical_digits 4 (show_scaled FACTOR_SCALE 4 f) =
      Some (show_digits (f div FACTOR_SCALE), Some (pad_start 4 CHR ''0'' (show_digits (f mod FACTOR_SCALE))))"
    using f by (intro match_show_scaled) (simp_all add: FACTOR_SCALE_def canonical_show_digits)
  moreover have "scaled_value FACTOR_SCALE 4
      (show_digits (f div FACTOR_SCALE), Some (pad_start 4 CHR ''0'' (show_digits (f mod FACTOR_SCALE)))) = f"
    using f by (intro scaled_value_show) (simp_all add: FACTOR_SCALE_def)
  moreover have "js_trim (show_scaled FACTOR_SCALE 4 f) = show_scaled FACTOR_SCALE 4 f"
    "show_scaled FACTOR_SCALE 4 f \<noteq> []"
    using f by (simp_all add: show_scaled_trim show_scaled_ends FACTOR_SCALE_def)
  ultimately show "parseConversionFactorToTenThousandths (Some (formatFactorFromTenThousandths f)) = Inr f"
    using f by (simp add: formatFactor_show parseConversionFactorToTenThousandths_def Let_def)
qed (rule parseFactor_pos)

lemma bigint_half_up: "0 \<le> n \<Longrightarrow> 0 < d \<Longrightarrow> bigint_div (n + bigint_div d 2) d = half_up n d"
  by (simp add: half_up_def)

lemma convert_ok_iff:
  "convertToBaseQtyMilli q c = Inr b \<longleftrightarrow>
     (\<exists>m f. parseQtyToMilli q False False = Inr m \<and> parseConversionFactorToTenThousandths c = Inr f \<and>
        b = half_up (m * f) FACTOR_SCALE \<and> 0 < b)"
proof -
  have "bigint_div (m * f + bigint_div FACTOR_SCALE 2) FACTOR_SCALE = half_up (m * f) FACTOR_SCALE"
    if "parseQtyToMilli q False False = Inr m" "parseConversionFactorToTenThousandths c = Inr f" for m f
    using parseQty_pos [OF that(1)] parseFactor_pos [OF that(2)]
    by (intro bigint_half_up) (simp_all add: FACTOR_SCALE_def)
  then show ?thesis
    by (auto simp: convertToBaseQtyMilli_def ok_simps Let_def)
qed

section \<open>Weighted-average cost\<close>

text \<open>What the receipt computation returns, in the arithmetic of half-up division.\<close>

lemma receipt_ok_iff:
  "computeWeightedAverageCostOnReceipt oq oc aq ac = Inr r \<longleftrightarrow>
     (\<exists>q c a d. parseQtyToMilli oq True False = Inr q \<and> parseMoneyToVnd oc = Inr c \<and>
        parseQtyToMilli aq False False = Inr a \<and> parseMoneyToVnd ac = Inr d \<and>
        newOnHandMilli r = q + a \<and> newAvgCostVnd r = half_up (q * c + a * d) (q + a) \<and>
        newValuationVnd r = half_up ((q + a) * newAvgCostVnd r) QTY_SCALE \<and>
        newOnHandQty r = formatMilliToQty (q + a) \<and>
        newAvgUnitCost r = newAvgCostVnd r \<and> newValuationAmount r = newValuationVnd r \<and>
        newAvgCostVnd r \<le> max_safe \<and> newValuationVnd r \<le> max_safe)"
    (is "?lhs \<longleftrightarrow> ?rhs")
proof -
  have arith: "bigint_div (q * c + a * d + bigint_div (q + a) 2) (q + a) = half_up (q * c + a * d) (q + a)"
    "bigint_div ((q + a) * half_up (q * c + a * d) (q + a) + bigint_div QTY_SCALE 2) QTY_SCALE =
       half_up ((q + a) * half_up (q * c + a * d) (q + a)) QTY_SCALE"
    "0 \<le> half_up (q * c + a * d) (q + a)"
    "0 \<le> half_up ((q + a) * half_up (q * c + a * d) (q + a)) QTY_SCALE"
    if "parseQtyToMilli oq True False = Inr q" "parseMoneyToVnd oc = Inr c"
      "parseQtyToMilli aq False False = Inr a" "parseMoneyToVnd ac = Inr d" for q c a d
  proof -
    have n: "0 \<le> q" "0 \<le> c" "0 < a" "0 \<le> d"
      using that parseQty_nonneg parseQty_pos parseMoneyToVnd_nonneg by blast+
    then have tot: "0 \<le> q * c + a * d" "0 < q + a" by simp_all
    then show "bigint_div (q * c + a * d + bigint_div (q + a) 2) (q + a) = half_up (q * c + a * d) (q + a)"
      and avg: "0 \<le> half_up (q * c + a * d) (q + a)"
      by (simp_all only: bigint_half_up half_up_nonneg)
    have "0 \<le> (q + a) * half_up (q * c + a * d) (q + a)" using avg tot by simp
    then show "bigint_div ((q + a) * half_up (q * c + a * d) (q + a) + bigint_div QTY_SCALE 2) QTY_SCALE =
       half_up ((q + a) * half_up (q * c + a * d) (q + a)) QTY_SCALE"
      "0 \<le> half_up ((q + a) * half_up (q * c + a * d) (q + a)) QTY_SCALE"
      by (simp_all only: bigint_half_up half_up_nonneg QTY_SCALE_def zero_less_numeral)
  qed
  show ?thesis
    unfolding computeWeightedAverageCostOnReceipt_def
    by (cases r) (auto simp: ok_simps Let_def arith vndToNumber_iff)
qed

lemma deduction_ok_iff:
  "computeValuationAfterDeduction oq oc dq = Inr r \<longleftrightarrow>
     (\<exists>q c d. parseQtyToMilli oq True False = Inr q \<and> parseMoneyToVnd oc = Inr c \<and>
        parseQtyToMilli dq False False = Inr d \<and> d \<le> q \<and>
        newOnHandMilli r = q - d \<and> newAvgCostVnd r = c \<and>
        newValuationVnd r = half_up ((q - d) * c) QTY_SCALE \<and>
        newOnHandQty r = formatMilliToQty (q - d) \<and>
        newAvgUnitCost r = c \<and> newValuationAmount r = newValuationVnd r \<and>
        c \<le> max_safe \<and> newValuationVnd r \<le> max_safe)"
proof -
  have nn: "0 \<le> half_up ((q - d) * c) QTY_SCALE" "0 \<le> c"
    "(if q - d = 0 then 0 else bigint_div ((q - d) * c + bigint_div QTY_SCALE 2) QTY_SCALE) =
      half_up ((q - d) * c) QTY_SCALE"
    if "parseMoneyToVnd oc = Inr c" "\<not> q < d" for q c d
  proof -
    show c: "0 \<le> c" using that parseMoneyToVnd_nonneg by blast
    then have "0 \<le> (q - d) * c" using that by simp
    then show "0 \<le> half_up ((q - d) * c) QTY_SCALE"
      "(if q - d = 0 then 0 else bigint_div ((q - d) * c + bigint_div QTY_SCALE 2) QTY_SCALE) =
        half_up ((q - d) * c) QTY_SCALE"
      using half_up_nonneg [of "(q - d) * c" QTY_SCALE] by (auto simp: half_up_def QTY_SCALE_def)
  qed
  have eq: "computeValuationAfterDeduction oq oc dq = (if q < d then Inl (inv_error INSUFFICIENT_STOCK 409)
      else ebind (vndToNumber c) (\<lambda>a. ebind (vndToNumber (half_up ((q - d) * c) QTY_SCALE)) (\<lambda>v.
        Inr \<lparr>newOnHandMilli = q - d, newAvgCostVnd = c, newValuationVnd = half_up ((q - d) * c) QTY_SCALE,
             newOnHandQty = formatMilliToQty (q - d), newAvgUnitCost = a, newValuationAmount = v\<rparr>)))"
    if "parseQtyToMilli oq True False = Inr q" "parseMoneyToVnd oc = Inr c"
      "parseQtyToMilli dq False False = Inr d" for q c d
  proof (cases "q < d")
    case False
    then show ?thesis
      by (simp only: computeValuationAfterDeduction_def that ebind_Inr Let_def nn(3) [OF that(2) False] if_False)
  qed (simp add: computeValuationAfterDeduction_def that)
  show ?thesis
  proof (cases "\<exists>q c d. parseQtyToMilli oq True False = Inr q \<and> parseMoneyToVnd oc = Inr c \<and>
      parseQtyToMilli dq False False = Inr d")
    case True
    then obtain q c d where p: "parseQtyToMilli oq True False = Inr q" "parseMoneyToVnd oc = Inr c"
      "parseQtyToMilli dq False False = Inr d" by blast
    show ?thesis
      unfolding eq [OF p] using nn(1) [OF p(2), of q d] parseMoneyToVnd_nonneg [OF p(2)]
      by (cases r) (auto simp: p ok_simps vndToNumber_iff)
  next
    case False
    then show ?thesis by (auto simp: computeValuationAfterDeduction_def ok_simps)
  qed
qed

text \<open>
  The new average lies between the old average and the received cost, and is the exact
  weighted average to the nearest VND.
\<close>

lemma weighted_average_between:
  assumes "0 \<le> q" "0 < (a::int)" "0 \<le> c" "0 \<le> d"
  shows "min c d \<le> half_up (q * c + a * d) (q + a)" "half_up (q * c + a * d) (q + a) \<le> max c d"
proof -
  have pos: "0 < q + a" using assms by simp
  have "q * min c d \<le> q * c" "a * min c d \<le> a * d" "q * c \<le> q * max c d" "a * d \<le> a * max c d"
    using assms by (simp_all add: mult_left_mono)
  then have "min c d * (q + a) \<le> q * c + a * d" "q * c + a * d \<le> max c d * (q + a)"
    by (simp_all add: algebra_simps)
  then show "min c d \<le> half_up (q * c + a * d) (q + a)" "half_up (q * c + a * d) (q + a) \<le> max c d"
    using pos by (simp_all add: half_up_ge half_up_le)
qed

section \<open>Stock lines\<close>

text \<open>The quantity the input lines ask for under one key.\<close>

definition requested_milli :: "StockLineInput list \<Rightarrow> string \<Rightarrow> int" where
  "requested_milli lines k =
     sum_list (map (\<lambda>l. case parseQtyToMilli (in_qty l) False False of Inr q \<Rightarrow> q | Inl _ \<Rightarrow> 0)
       (filter (\<lambda>l. line_key (in_warehouseId l) (in_skuId l) = k) lines))"

definition lines_map_ok :: "StockLineInput list \<Rightarrow> (string, string \<times> string \<times> int) jsmap \<Rightarrow> bool" where
  "lines_map_ok lines m \<longleftrightarrow>
     distinct (map fst m) \<and>
     (\<forall>(k, w, s, q) \<in> set m. k = line_key w s \<and> 0 < q) \<and>
     (\<forall>k. (case map_get m k of Some (w, s, q) \<Rightarrow> q | None \<Rightarrow> 0) = requested_milli lines k) \<and>
     set (map fst m) = (\<lambda>l. line_key (in_warehouseId l) (in_skuId l)) ` set lines"

lemma requested_milli_snoc:
  assumes "parseQtyToMilli (in_qty l) False False = Inr q"
  shows "requested_milli (ls @ [l]) k =
    requested_milli ls k + (if line_key (in_warehouseId l) (in_skuId l) = k then q else 0)"
  by (simp add: requested_milli_def assms)

lemma add_line_ok:
  assumes inv: "lines_map_ok ls m" and step: "add_line l m = Inr m'"
  shows "lines_map_ok (ls @ [l]) m'"
proof -
  let ?k = "line_key (in_warehouseId l) (in_skuId l)"
  obtain q where q: "parseQtyToMilli (in_qty l) False False = Inr q" "0 < q"
    using step by (auto simp: add_line_def ok_simps)
  obtain w s p where m': "m' = map_set ?k (w, s, p + q) m" "?k = line_key w s" "0 \<le> p"
    and p: "(case map_get m ?k of Some (w, s, q) \<Rightarrow> q | None \<Rightarrow> 0) = p"
  proof (cases "map_get m ?k")
    case None
    then show ?thesis
      using that [of "in_warehouseId l" "in_skuId l" 0] step q(1) by (auto simp: add_line_def Let_def)
  next
    case (Some v)
    obtain w s p where v: "v = (w, s, p)" by (metis prod.exhaust)
    have "?k = line_key w s" "0 < p"
      using map_get_in_set [OF Some] inv v by (auto simp: lines_map_ok_def)
    then show ?thesis
      using that [of w s p] Some v step q(1) by (auto simp: add_line_def Let_def)
  qed
  have keys: "set (map fst m') = insert ?k (set (map fst m))"
    unfolding m'(1) by (rule keys_map_set)
  have ent: "set m' \<subseteq> insert (?k, w, s, p + q) (set m)"
    unfolding m'(1) by (rule set_map_set)
  have "\<forall>(k, w, s, q) \<in> set m'. k = line_key w s \<and> 0 < q"
    using ent inv m'(2,3) q(2) unfolding lines_map_ok_def by fastforce
  moreover have "(case map_get m' k of Some (w, s, q) \<Rightarrow> q | None \<Rightarrow> 0) = requested_milli (ls @ [l]) k" for k
    using inv p unfolding lines_map_ok_def requested_milli_snoc [OF q(1)] m'(1) by auto
  ultimately show ?thesis
    using inv keys by (auto simp: lines_map_ok_def m'(1) distinct_map_set)
qed

lemma add_lines_ok:
  assumes "efold add_line ls m = Inr m'" "lines_map_ok ps m"
  shows "lines_map_ok (ps @ ls) m'"
  using assms
proof (induction ls arbitrary: ps m)
  case (Cons l ls)
  obtain m1 where "add_line l m = Inr m1" "efold add_line ls m1 = Inr m'"
    using Cons.prems(1) by (auto simp: ok_simps)
  then show ?case
    using Cons.IH [of m1 "ps @ [l]"] add_line_ok [OF Cons.prems(2)] by simp
qed simp

lemma lines_map_ok_Nil: "lines_map_ok [] []"
  by (simp add: lines_map_ok_def requested_milli_def)

abbreviation norm_line :: "string \<times> string \<times> int \<Rightarrow> NormalizedSkuQtyLine" where
  "norm_line \<equiv> \<lambda>(w, s, q). \<lparr>warehouseId = w, skuId = s, qtyMilli = q, qty = formatMilliToQty q\<rparr>"

abbreviation norm_lines ::
    "(string \<Rightarrow> string \<Rightarrow> int) \<Rightarrow> (string, string \<times> string \<times> int) jsmap \<Rightarrow> NormalizedSkuQtyLine list" where
  "norm_lines lc m \<equiv> map norm_line (js_sort (line_compare lc) (map snd m))"

abbreviation out_key :: "NormalizedSkuQtyLine \<Rightarrow> string" where
  "out_key l \<equiv> line_key (warehouseId l) (skuId l)"

lemma norm_line_sel [simp]:
  "out_key (norm_line x) = line_key (fst x) (fst (snd x))" "qtyMilli (norm_line x) = snd (snd x)"
  by (simp_all add: case_prod_unfold)

lemma map_ok_keyed: "lines_map_ok ls m \<Longrightarrow> (k, v) \<in> set m \<Longrightarrow> k = line_key (fst v) (fst (snd v))"
  unfolding lines_map_ok_def by fastforce

lemma map_ok_keys:
  assumes "\<And>k v. (k, v) \<in> set m \<Longrightarrow> k = line_key (fst v) (fst (snd v))"
  shows "map (\<lambda>x. line_key (fst x) (fst (snd x))) (map snd m) = map fst m"
proof -
  have "line_key (fst (snd p)) (fst (snd (snd p))) = fst p" if "p \<in> set m" for p
    using assms [of "fst p" "snd p"] that by simp
  then show ?thesis by (simp add: o_def)
qed

lemma map_ok_sums:
  assumes "\<And>k v. (k, v) \<in> set m \<Longrightarrow> k = line_key (fst v) (fst (snd v))" "distinct (map fst m)"
  shows "sum_list (map (\<lambda>x. snd (snd x)) (filter (\<lambda>x. line_key (fst x) (fst (snd x)) = k) (map snd m))) =
    (case map_get m k of Some (w, s, q) \<Rightarrow> q | None \<Rightarrow> 0)"
  using assms
proof (induction m)
  case (Cons p m)
  obtain k' v where p: "p = (k', v)" by (metis prod.exhaust)
  have k': "k' = line_key (fst v) (fst (snd v))" using Cons.prems(1) p by simp
  have IH: "sum_list (map (\<lambda>x. snd (snd x)) (filter (\<lambda>x. line_key (fst x) (fst (snd x)) = k) (map snd m))) =
    (case map_get m k of Some (w, s, q) \<Rightarrow> q | None \<Rightarrow> 0)"
    using Cons by simp
  show ?case
  proof (cases "k = k'")
    case True
    then have "map_get m k = None"
      using Cons.prems(2) p by (simp add: map_get_def map_of_eq_None_iff)
    then show ?thesis using IH True p k' by (simp add: map_get_def case_prod_unfold)
  next
    case False
    then show ?thesis using IH p k' by (simp add: map_get_def)
  qed
qed simp

lemma normalized_distinct:
  assumes "lines_map_ok ls m"
  shows "distinct (map out_key (norm_lines lc m))"
proof -
  have "distinct (map (\<lambda>x. line_key (fst x) (fst (snd x))) (map snd m))"
    using assms by (subst map_ok_keys) (auto simp: map_ok_keyed lines_map_ok_def)
  then have "distinct (map (\<lambda>x. line_key (fst x) (fst (snd x))) (js_sort (line_compare lc) (map snd m)))"
    by (simp only: distinct_map_js_sort)
  then show ?thesis by (simp only: map_map o_def norm_line_sel)
qed

lemma normalized_sums:
  assumes "lines_map_ok ls m"
  shows "sum_list (map qtyMilli (filter (\<lambda>l. out_key l = k) (norm_lines lc m))) = requested_milli ls k"
proof -
  have "distinct (map fst m)" "(case map_get m k of Some (w, s, q) \<Rightarrow> q | None \<Rightarrow> 0) = requested_milli ls k"
    using assms by (simp_all add: lines_map_ok_def)
  then have "sum_list (map (\<lambda>x. snd (snd x)) (filter (\<lambda>x. line_key (fst x) (fst (snd x)) = k)
      (js_sort (line_compare lc) (map snd m)))) = requested_milli ls k"
    unfolding sum_filter_js_sort using map_ok_sums [of m k] map_ok_keyed [OF assms] by metis
  then show ?thesis by (simp only: filter_map map_map o_def norm_line_sel)
qed

lemma normalized_texts:
  assumes "lines_map_ok ls m" "l \<in> set (norm_lines lc m)"
  shows "parseQtyToMilli (qty l) False False = Inr (qtyMilli l)"
  using assms by (auto simp: lines_map_ok_def intro!: inv_qty.parse_fmt)

text \<open>
  Clients of \<^verbatim>\<open>localeCompare\<close> assume only that the host's collation is a consistent order.
\<close>

locale collation = comparator lc for lc :: "string \<Rightarrow> string \<Rightarrow> int"
begin

lemma lc_sym_0: "lc x y = 0 \<longleftrightarrow> lc y x = 0"
  using cmp_antisym [of x y] cmp_antisym [of y x] by linarith

lemma lc_less_trans: "lc x y < 0 \<Longrightarrow> lc y z \<le> 0 \<Longrightarrow> lc x z < 0" "lc x y \<le> 0 \<Longrightarrow> lc y z < 0 \<Longrightarrow> lc x z < 0"
  using cmp_trans cmp_antisym lc_sym_0
  by (metis dual_order.strict_iff_order linorder_not_less order_less_imp_le)+

lemma lexicographic:
  assumes "\<And>x y z. f x y \<le> 0 \<Longrightarrow> f y z \<le> 0 \<Longrightarrow> f x z \<le> (0::int)"
    and "\<And>x y. f x y \<le> 0 \<longleftrightarrow> 0 \<le> f y x" "\<And>x. f x x = 0"
  shows "comparator (\<lambda>a b. let w = lc (g a) (g b) in if w \<noteq> 0 then w else f a b)"
proof
  show "(let w = lc (g x) (g x) in if w \<noteq> 0 then w else f x x) = 0" for x
    by (simp add: Let_def cmp_refl assms(3))
  show "(let w = lc (g x) (g y) in if w \<noteq> 0 then w else f x y) \<le> 0 \<longleftrightarrow>
      0 \<le> (let w = lc (g y) (g x) in if w \<noteq> 0 then w else f y x)" for x y
    using cmp_antisym [of "g x" "g y"] lc_sym_0 [of "g x" "g y"] assms(2) [of x y] by (auto simp: Let_def)
  show "(let w = lc (g x) (g z) in if w \<noteq> 0 then w else f x z) \<le> 0"
    if "(let w = lc (g x) (g y) in if w \<noteq> 0 then w else f x y) \<le> 0"
      "(let w = lc (g y) (g z) in if w \<noteq> 0 then w else f y z) \<le> 0" for x y z
    using that cmp_trans [of "g x" "g y" "g z"] lc_less_trans [of "g x" "g y" "g z"]
      assms(1) [of x y z]
    by (auto simp: Let_def split: if_splits)
qed

sublocale lines: comparator "line_compare lc"
proof -
  have "comparator (\<lambda>a b. let w = lc (fst a) (fst b) in if w \<noteq> 0 then w else lc (fst (snd a)) (fst (snd b)))"
    by (rule lexicographic, erule (1) cmp_trans, rule cmp_antisym, rule cmp_refl)
  then show "comparator (line_compare lc)"
    by (simp add: line_compare_def [abs_def])
qed

lemma normalized_sorted:
  "sorted_wrt (\<lambda>a b. lc (warehouseId a) (warehouseId b) < 0 \<or>
     (lc (warehouseId a) (warehouseId b) = 0 \<and> lc (skuId a) (skuId b) \<le> 0)) (norm_lines lc m)"
proof -
  have "line_compare lc x y \<le> 0 \<longleftrightarrow> lc (fst x) (fst y) < 0 \<or>
      (lc (fst x) (fst y) = 0 \<and> lc (fst (snd x)) (fst (snd y)) \<le> 0)" for x y
    by (auto simp: line_compare_def Let_def)
  then show ?thesis
    using lines.js_sort_sorted [of "map snd m"] by (simp add: sorted_wrt_map case_prod_unfold)
qed

end

interpretation code_unit_collation: collation code_unit_compare
  by unfold_locales

section \<open>Properties\<close>

text \<open>
Printing a quantity and parsing it again gives the quantity back, for every whole number of
milli-units, under exactly the sign and zero restrictions the caller asked for; a refused
quantity is the 400 error INVALID_QUANTITY.
\<close>

theorem qty_text_roundtrip:
  "parseQtyToMilli (formatMilliToQty m) allowZero allowNegative =
     (if \<not> allowNegative \<and> m < 0 then Inl (DomainError INVALID_QUANTITY 400)
      else if \<not> allowZero \<and> m = 0 then Inl (DomainError INVALID_QUANTITY 400) else Inr m)"
  by (rule parseQty_format)

text \<open>
When a goods receipt is valued, the new average unit cost is the exact weighted average of
the stock on hand and the received stock to the nearest VND, lies between the two unit costs,
and the valuation is on-hand times average to the nearest VND; all returned numbers are safe
integers.
\<close>

theorem receipt_average_correct:
  assumes "computeWeightedAverageCostOnReceipt onHand cost received receivedCost = Inr r"
    and "parseQtyToMilli onHand True False = Inr q" and "parseMoneyToVnd cost = Inr c"
    and "parseQtyToMilli received False False = Inr a" and "parseMoneyToVnd receivedCost = Inr d"
  shows "newOnHandMilli r = q + a \<and>
    \<bar>2 * (newAvgCostVnd r * (q + a) - (q * c + a * d))\<bar> \<le> q + a \<and>
    min c d \<le> newAvgCostVnd r \<and> newAvgCostVnd r \<le> max c d \<and>
    \<bar>2 * (newValuationVnd r * 1000 - newOnHandMilli r * newAvgCostVnd r)\<bar> \<le> 1000 \<and>
    newAvgUnitCost r = newAvgCostVnd r \<and> newValuationAmount r = newValuationVnd r \<and>
    newAvgUnitCost r \<le> max_safe \<and> newValuationAmount r \<le> max_safe"
proof -
  have n: "0 \<le> q" "0 \<le> c" "0 < a" "0 \<le> d"
    using assms parseQty_nonneg parseQty_pos parseMoneyToVnd_nonneg by blast+
  have r: "newOnHandMilli r = q + a" "newAvgCostVnd r = half_up (q * c + a * d) (q + a)"
    "newValuationVnd r = half_up ((q + a) * newAvgCostVnd r) QTY_SCALE"
    "newAvgUnitCost r = newAvgCostVnd r" "newValuationAmount r = newValuationVnd r"
    "newAvgCostVnd r \<le> max_safe" "newValuationVnd r \<le> max_safe"
    using assms(1) unfolding receipt_ok_iff assms(2-5) by auto
  have "\<bar>2 * (newAvgCostVnd r * (q + a) - (q * c + a * d))\<bar> \<le> q + a"
    unfolding r(2) using n by (intro half_up_error) simp
  moreover have "min c d \<le> newAvgCostVnd r \<and> newAvgCostVnd r \<le> max c d"
    unfolding r(2) using weighted_average_between [OF n(1,3,2,4)] by simp
  moreover have "\<bar>2 * (newValuationVnd r * 1000 - newOnHandMilli r * newAvgCostVnd r)\<bar> \<le> 1000"
    using half_up_error [of QTY_SCALE "(q + a) * newAvgCostVnd r"] by (simp add: r(1,3) QTY_SCALE_def)
  ultimately show ?thesis using r by simp
qed

text \<open>A receipt of 5 units at 1300 VND onto 10 units at 1000 VND: average 1100 VND.\<close>

definition sample_receipt :: WeightedAverageCostResult where
  "sample_receipt = \<lparr>newOnHandMilli = 15000, newAvgCostVnd = 1100, newValuationVnd = 16500,
     newOnHandQty = ''15.000'', newAvgUnitCost = 1100, newValuationAmount = 16500\<rparr>"

theorem receipt_average_correct_witness:
  "computeWeightedAverageCostOnReceipt ''10.000'' (Num (Fin 1000)) ''5'' (Num (Fin 1300)) = Inr sample_receipt \<and>
   min 1000 1300 \<le> newAvgCostVnd sample_receipt \<and> newAvgCostVnd sample_receipt \<le> max 1000 1300"
proof -
  have h: "computeWeightedAverageCostOnReceipt ''10.000'' (Num (Fin 1000)) ''5'' (Num (Fin 1300)) = Inr sample_receipt"
    "parseQtyToMilli ''10.000'' True False = Inr 10000" "parseMoneyToVnd (Num (Fin 1000)) = Inr 1000"
    "parseQtyToMilli ''5'' False False = Inr 5000" "parseMoneyToVnd (Num (Fin 1300)) = Inr 1300"
    by code_simp+
  then show ?thesis using receipt_average_correct [OF h] by simp
qed

text \<open>
Converting a quantity to base units multiplies it by the factor and rounds to the nearest
milli-unit; an absent or empty factor is one; the result is always positive.
\<close>

theorem convert_to_base_correct:
  assumes "convertToBaseQtyMilli q c = Inr b"
  shows "\<exists>m f. parseQtyToMilli q False False = Inr m \<and> parseConversionFactorToTenThousandths c = Inr f \<and>
    0 < b \<and> \<bar>2 * (b * 10000 - m * f)\<bar> \<le> 10000 \<and> (c = None \<or> c = Some [] \<longrightarrow> b = m)"
proof -
  obtain m f where p: "parseQtyToMilli q False False = Inr m" "parseConversionFactorToTenThousandths c = Inr f"
    "b = half_up (m * f) FACTOR_SCALE" "0 < b"
    using assms unfolding convert_ok_iff by blast
  have "\<bar>2 * (b * 10000 - m * f)\<bar> \<le> 10000"
    using half_up_error [of FACTOR_SCALE "m * f"] by (simp add: p(3) FACTOR_SCALE_def)
  moreover have "b = m" if "c = None \<or> c = Some []"
  proof -
    have "f = FACTOR_SCALE" using that p(2) by (auto simp: parseConversionFactorToTenThousandths_def)
    then show ?thesis by (simp add: p(3) FACTOR_SCALE_def)
  qed
  ultimately show ?thesis using p by blast
qed

theorem convert_to_base_correct_witness:
  "convertToBaseQtyMilli ''2.5'' (Some ''0.3333'') = Inr 833 \<and>
   (\<exists>m f. parseQtyToMilli ''2.5'' False False = Inr m \<and>
      parseConversionFactorToTenThousandths (Some ''0.3333'') = Inr f \<and> \<bar>2 * (833 * 10000 - m * f)\<bar> \<le> 10000)"
proof -
  have h: "convertToBaseQtyMilli ''2.5'' (Some ''0.3333'') = Inr 833" by code_simp
  then show ?thesis using convert_to_base_correct [OF h] by blast
qed

text \<open>
Normalising stock lines before locking keeps, for every warehouse and SKU key, exactly the
total quantity the caller asked for; each key appears once; and the lines come out in the order
of the host's collation by warehouse and then by SKU, so two calls lock in the same order.
\<close>

theorem normalize_lines_correct:
  assumes "comparator lc" and "normalizeAndSortWarehouseLines lc ls = Inr out"
  shows "distinct (map (\<lambda>l. line_key (warehouseId l) (skuId l)) out) \<and>
    (\<forall>k. sum_list (map qtyMilli (filter (\<lambda>l. line_key (warehouseId l) (skuId l) = k) out)) = requested_milli ls k) \<and>
    sorted_wrt (\<lambda>a b. lc (warehouseId a) (warehouseId b) < 0 \<or>
      (lc (warehouseId a) (warehouseId b) = 0 \<and> lc (skuId a) (skuId b) \<le> 0)) out \<and>
    (\<forall>l \<in> set out. parseQtyToMilli (qty l) False False = Inr (qtyMilli l))"
proof -
  have coll: "collation lc" using assms(1) by (simp add: collation_def)
  obtain m where m: "efold add_line ls [] = Inr m"
    and out: "out = map (\<lambda>(w, s, q). \<lparr>warehouseId = w, skuId = s, qtyMilli = q, qty = formatMilliToQty q\<rparr>)
      (js_sort (line_compare lc) (map snd m))"
    using assms(2) by (auto simp: normalizeAndSortWarehouseLines_def ok_simps)
  have ok: "lines_map_ok ls m" using add_lines_ok [OF m lines_map_ok_Nil] by simp
  show ?thesis
    unfolding out using normalized_distinct [OF ok] normalized_sums [OF ok]
      collation.normalized_sorted [OF coll] normalized_texts [OF ok] by blast
qed

text \<open>Two lines for one key and one for another, under code-unit order.\<close>

definition sample_lines :: "StockLineInput list" where
  "sample_lines =
     [\<lparr>in_warehouseId = ''w2'', in_skuId = ''a'', in_qty = ''1.5''\<rparr>,
      \<lparr>in_warehouseId = ''w1'', in_skuId = ''b'', in_qty = ''2''\<rparr>,
      \<lparr>in_warehouseId = ''w2'', in_skuId = ''a'', in_qty = ''0.25''\<rparr>]"

theorem normalize_lines_correct_witness:
  "\<exists>out. normalizeAndSortWarehouseLines code_unit_compare sample_lines = Inr out \<and>
     map warehouseId out = [''w1'', ''w2''] \<and>
     sum_list (map qtyMilli (filter (\<lambda>l. line_key (warehouseId l) (skuId l) = ''w2:a'') out)) = 1750"
proof -
  let ?out = "[\<lparr>warehouseId = ''w1'', skuId = ''b'', qtyMilli = 2000, qty = ''2.000''\<rparr>,
    \<lparr>warehouseId = ''w2'', skuId = ''a'', qtyMilli = 1750, qty = ''1.750''\<rparr>]"
  have h: "normalizeAndSortWarehouseLines code_unit_compare sample_lines = Inr ?out"
    by code_simp
  have "requested_milli sample_lines ''w2:a'' = 1750" by code_simp
  then have "sum_list (map qtyMilli (filter (\<lambda>l. line_key (warehouseId l) (skuId l) = ''w2:a'') ?out)) = 1750"
    using normalize_lines_correct [OF code_units.comparator_axioms h] by metis
  then show ?thesis using h by auto
qed

end
