(* ===== verification/StockBalance.thy ===== *)
theory StockBalance
  imports InventoryDomain
begin

text \<open>
  The inventory service's value objects, the \<^verbatim>\<open>StockBalanceAggregate\<close> with every operation
  that changes it, and the lifecycle policies of receipts, transfers, stocktakes and purchase
  orders (second half of \<^verbatim>\<open>apps/inventory/src/domain/inventory-domain.ts\<close>). A method that
  throws leaves the object unchanged, so it returns the error alone; one that succeeds
  returns the new object with its result.
\<close>

section \<open>Value objects\<close>

record InventoryQuantity =
  milli :: int

definition InventoryQuantity_of :: "string \<Rightarrow> bool \<Rightarrow> bool \<Rightarrow> InventoryQuantity inv_result" where
  "InventoryQuantity_of raw allowZero allowNegative =
     ebind (parseQtyToMilli raw allowZero allowNegative) (\<lambda>m. Inr \<lparr>milli = m\<rparr>)"

definition InventoryQuantity_zero :: InventoryQuantity where
  "InventoryQuantity_zero = \<lparr>milli = 0\<rparr>"

definition InventoryQuantity_add :: "InventoryQuantity \<Rightarrow> InventoryQuantity \<Rightarrow> InventoryQuantity" where
  "InventoryQuantity_add a b = \<lparr>milli = milli a + milli b\<rparr>"

definition InventoryQuantity_subtract ::
    "InventoryQuantity \<Rightarrow> InventoryQuantity \<Rightarrow> bool \<Rightarrow> InventoryQuantity inv_result" where
  "InventoryQuantity_subtract a b allowNegative =
     (let res = milli a - milli b
      in if \<not> allowNegative \<and> res < 0 then Inl (inv_error INSUFFICIENT_STOCK 409) else Inr \<lparr>milli = res\<rparr>)"

definition InventoryQuantity_toString :: "InventoryQuantity \<Rightarrow> string" where
  "InventoryQuantity_toString a = formatMilliToQty (milli a)"

record InventoryMoney =
  vnd :: int

definition InventoryMoney_of :: "jsval \<Rightarrow> InventoryMoney inv_result" where
  "InventoryMoney_of raw = ebind (parseMoneyToVnd raw) (\<lambda>v. Inr \<lparr>vnd = v\<rparr>)"

definition InventoryMoney_toNumber :: "InventoryMoney \<Rightarrow> int inv_result" where
  "InventoryMoney_toNumber m = vndToNumber (vnd m)"

definition InventoryMoney_toString :: "InventoryMoney \<Rightarrow> string" where
  "InventoryMoney_toString m = show_int (vnd m)"

section \<open>The stock balance aggregate\<close>

record StockBalanceAggregate =
  sb_warehouseId :: string
  sb_skuId :: string
  onHandMilli :: int
  reservedMilli :: int
  avgUnitCostVnd :: int
  version :: int

text \<open>\<^verbatim>\<open>new StockBalanceAggregate(params)\<close>: an absent average cost is 0, an absent version is 1.\<close>

definition newStockBalance ::
    "string \<Rightarrow> string \<Rightarrow> string \<Rightarrow> string \<Rightarrow> jsval \<Rightarrow> int option \<Rightarrow> StockBalanceAggregate inv_result" where
  "newStockBalance w s onHand reserved avg ver =
     ebind (parseQtyToMilli onHand True False) (\<lambda>oh.
     ebind (parseQtyToMilli reserved True False) (\<lambda>rs.
     ebind (parseMoneyToVnd avg) (\<lambda>c.
       Inr \<lparr>sb_warehouseId = w, sb_skuId = s, onHandMilli = oh, reservedMilli = rs,
            avgUnitCostVnd = c, version = (case ver of None \<Rightarrow> 1 | Some v \<Rightarrow> v)\<rparr>)))"

definition onHandQty :: "StockBalanceAggregate \<Rightarrow> string" where
  "onHandQty b = formatMilliToQty (onHandMilli b)"

definition reservedQty :: "StockBalanceAggregate \<Rightarrow> string" where
  "reservedQty b = formatMilliToQty (reservedMilli b)"

definition availableMilli :: "StockBalanceAggregate \<Rightarrow> int" where
  "availableMilli b = onHandMilli b - reservedMilli b"

definition availableQty :: "StockBalanceAggregate \<Rightarrow> string" where
  "availableQty b = formatMilliToQty (availableMilli b)"

definition avgUnitCost :: "StockBalanceAggregate \<Rightarrow> int inv_result" where
  "avgUnitCost b = vndToNumber (avgUnitCostVnd b)"

definition valuationAmount :: "StockBalanceAggregate \<Rightarrow> int inv_result" where
  "valuationAmount b =
     (if onHandMilli b \<le> 0 then Inr 0
      else vndToNumber (bigint_div (onHandMilli b * avgUnitCostVnd b + bigint_div QTY_SCALE 2) QTY_SCALE))"

definition canSatisfy :: "StockBalanceAggregate \<Rightarrow> string \<Rightarrow> bool inv_result" where
  "canSatisfy b requestedQty =
     ebind (parseQtyToMilli requestedQty False False) (\<lambda>req. Inr (req \<le> availableMilli b))"

definition reserve :: "StockBalanceAggregate \<Rightarrow> string \<Rightarrow> StockBalanceAggregate inv_result" where
  "reserve b requestedQty =
     ebind (parseQtyToMilli requestedQty False False) (\<lambda>req.
       if availableMilli b < req then Inl (inv_error INSUFFICIENT_STOCK 409)
       else Inr (b\<lparr>reservedMilli := reservedMilli b + req, version := version b + 1\<rparr>))"

definition release :: "StockBalanceAggregate \<Rightarrow> string \<Rightarrow> StockBalanceAggregate inv_result" where
  "release b releasedQty =
     ebind (parseQtyToMilli releasedQty False False) (\<lambda>rel.
       if rel > reservedMilli b then Inl (inv_error RESERVATION_STATE_CONFLICT 409)
       else Inr (b\<lparr>reservedMilli := reservedMilli b - rel, version := version b + 1\<rparr>))"

definition commitReservation ::
    "StockBalanceAggregate \<Rightarrow> string \<Rightarrow> (StockBalanceAggregate \<times> WeightedAverageCostResult) inv_result" where
  "commitReservation b committedQty =
     ebind (parseQtyToMilli committedQty False False) (\<lambda>commitMilli.
       if commitMilli > reservedMilli b \<or> commitMilli > onHandMilli b
       then Inl (inv_error INSUFFICIENT_STOCK 409)
       else
         ebind (avgUnitCost b) (\<lambda>avg.
         ebind (computeValuationAfterDeduction (onHandQty b) (num_arg avg) (formatMilliToQty commitMilli)) (\<lambda>v.
           Inr (b\<lparr>onHandMilli := newOnHandMilli v, reservedMilli := reservedMilli b - commitMilli,
                  version := version b + 1\<rparr>, v))))"

definition receive ::
    "StockBalanceAggregate \<Rightarrow> string \<Rightarrow> jsval \<Rightarrow> (StockBalanceAggregate \<times> WeightedAverageCostResult) inv_result" where
  "receive b receivedBaseQty receivedUnitCost =
     ebind (avgUnitCost b) (\<lambda>avg.
     ebind (computeWeightedAverageCostOnReceipt (onHandQty b) (num_arg avg) receivedBaseQty receivedUnitCost) (\<lambda>r.
       Inr (b\<lparr>onHandMilli := newOnHandMilli r, avgUnitCostVnd := newAvgCostVnd r,
              version := version b + 1\<rparr>, r)))"

definition deductAvailable ::
    "StockBalanceAggregate \<Rightarrow> string \<Rightarrow> (StockBalanceAggregate \<times> WeightedAverageCostResult) inv_result" where
  "deductAvailable b deductedBaseQty =
     ebind (parseQtyToMilli deductedBaseQty False False) (\<lambda>deductMilli.
       if availableMilli b < deductMilli then Inl (inv_error INSUFFICIENT_STOCK 409)
       else
         ebind (avgUnitCost b) (\<lambda>avg.
         ebind (computeValuationAfterDeduction (onHandQty b) (num_arg avg) (formatMilliToQty deductMilli)) (\<lambda>v.
           Inr (b\<lparr>onHandMilli := newOnHandMilli v, version := version b + 1\<rparr>, v))))"

section \<open>Lifecycle policies\<close>

datatype post_decision = PROCEED | IDEMPOTENT_REPLAY

definition evaluateStockReceiptPostTransition ::
    "string \<Rightarrow> string option \<Rightarrow> string option \<Rightarrow> post_decision inv_result" where
  "evaluateStockReceiptPostTransition currentStatus storedKey incomingKey =
     (if currentStatus = ''POSTED'' then
        (if truthy incomingKey \<and> truthy storedKey \<and> the storedKey = js_trim (the incomingKey)
         then Inr IDEMPOTENT_REPLAY
         else Inl (inv_error STOCK_RECEIPT_ALREADY_POSTED 409))
      else if currentStatus \<noteq> ''DRAFT'' \<and> currentStatus \<noteq> ''PENDING_APPROVAL''
        then Inl (inv_error STOCK_RECEIPT_INVALID_STATE 409)
      else Inr PROCEED)"

definition assertValidStockTransferWarehouses :: "string \<Rightarrow> string \<Rightarrow> unit inv_result" where
  "assertValidStockTransferWarehouses fromId toId =
     throw_if (fromId = toId) (inv_error TRANSFER_SAME_WAREHOUSE 400)"

definition TRANSFER_OVERDUE_DAYS :: rat where
  "TRANSFER_OVERDUE_DAYS = 7"

definition OPEN_IN_TRANSIT_STATUSES :: "string list" where
  "OPEN_IN_TRANSIT_STATUSES = [''DISPATCHED'', ''PARTIALLY_RECEIVED'']"

text \<open>Dates are their time value in milliseconds, \<open>NaN\<close> for an invalid date.\<close>

definition transferDaysOpen :: "string \<Rightarrow> jsnum option \<Rightarrow> jsnum \<Rightarrow> jsnum option" where
  "transferDaysOpen status dispatchedAt now =
     (if status \<notin> set OPEN_IN_TRANSIT_STATUSES then None
      else (case dispatchedAt of
              None \<Rightarrow> None
            | Some d \<Rightarrow> Some (math_max (Fin 0) (math_floor (js_scale (js_sub now d) (1 / 86400000))))))"

definition isTransferOverdue :: "jsnum option \<Rightarrow> bool" where
  "isTransferOverdue daysOpen =
     (case daysOpen of None \<Rightarrow> False | Some d \<Rightarrow> js_le (Fin TRANSFER_OVERDUE_DAYS) d)"

definition assertCanCancelStockTransfer :: "string \<Rightarrow> unit inv_result" where
  "assertCanCancelStockTransfer currentStatus =
     throw_if (currentStatus \<notin> set (''DRAFT'' # OPEN_IN_TRANSIT_STATUSES)) (inv_error TRANSFER_INVALID_STATE 409)"

definition assertTransferKindsAllowed :: "string \<Rightarrow> string \<Rightarrow> bool \<Rightarrow> unit inv_result" where
  "assertTransferKindsAllowed fromKind toKind canApprove =
     (let touchesQuarantine = (fromKind = ''QUARANTINE'' \<or> toKind = ''QUARANTINE'')
      in if fromKind = ''QUARANTINE'' \<and> toKind \<noteq> ''BRANCH''
         then Inl (inv_error TRANSFER_QUARANTINE_NOT_ALLOWED 409)
         else if touchesQuarantine \<and> \<not> canApprove then Inl (inv_error PERMISSION_DENIED 403)
         else Inr ())"

definition assertCanDispatchStockTransfer :: "string \<Rightarrow> unit inv_result" where
  "assertCanDispatchStockTransfer currentStatus =
     throw_if (currentStatus \<noteq> ''DRAFT'') (inv_error TRANSFER_INVALID_STATE 409)"

record StocktakeApprovalLine =
  st_countedQty :: string
  st_deltaMilli :: int
  st_deltaQty :: string

definition evaluateStocktakeApprovalLine ::
    "jsnum \<Rightarrow> jsnum \<Rightarrow> string \<Rightarrow> string \<Rightarrow> string \<Rightarrow> StocktakeApprovalLine inv_result" where
  "evaluateStocktakeApprovalLine snapshotVersion currentVersion currentOnHandQty currentReservedQty countedQty =
     (if \<not> js_eq snapshotVersion currentVersion then Inl (inv_error STOCKTAKE_STALE_SNAPSHOT 409)
      else
        ebind (parseQtyToMilli countedQty True False) (\<lambda>counted.
        ebind (parseQtyToMilli currentReservedQty True False) (\<lambda>reserved.
        ebind (parseQtyToMilli currentOnHandQty True False) (\<lambda>onHand.
          if counted < reserved then Inl (inv_error STOCKTAKE_BELOW_RESERVED 409)
          else Inr \<lparr>st_countedQty = formatMilliToQty counted, st_deltaMilli = counted - onHand,
                    st_deltaQty = formatMilliToQty (counted - onHand)\<rparr>))))"

record PurchaseOrderReceiptLine =
  newReceivedBaseQty :: string
  isFullyReceived :: bool

definition evaluatePurchaseOrderReceiptLine ::
    "string \<Rightarrow> string \<Rightarrow> string \<Rightarrow> PurchaseOrderReceiptLine inv_result" where
  "evaluatePurchaseOrderReceiptLine orderedBaseQty alreadyReceivedBaseQty receivingNowBaseQty =
     ebind (parseQtyToMilli orderedBaseQty False False) (\<lambda>ordered.
     ebind (parseQtyToMilli alreadyReceivedBaseQty True False) (\<lambda>prev.
     ebind (parseQtyToMilli receivingNowBaseQty False False) (\<lambda>now.
       let next = prev + now
       in if next > ordered then Inl (inv_error OVER_RECEIPT_NOT_ALLOWED 409)
          else Inr \<lparr>newReceivedBaseQty = formatMilliToQty next, isFullyReceived = (next = ordered)\<rparr>)))"

section \<open>The aggregate as a state machine\<close>

datatype stock_op =
    Reserve string
  | Release string
  | Commit string
  | Receive string jsval
  | Deduct string

definition stock_step :: "StockBalanceAggregate \<Rightarrow> stock_op \<Rightarrow> StockBalanceAggregate inv_result" where
  "stock_step b x =
     (case x of
        Reserve q \<Rightarrow> reserve b q
      | Release q \<Rightarrow> release b q
      | Commit q \<Rightarrow> ebind (commitReservation b q) (\<lambda>r. Inr (fst r))
      | Receive q c \<Rightarrow> ebind (receive b q c) (\<lambda>r. Inr (fst r))
      | Deduct q \<Rightarrow> ebind (deductAvailable b q) (\<lambda>r. Inr (fst r)))"

text \<open>
  A caller that catches the error of one call and makes another sees the object unchanged:
  the failed step is skipped.
\<close>

inductive stock_reach :: "StockBalanceAggregate \<Rightarrow> StockBalanceAggregate \<Rightarrow> bool" where
  start: "stock_reach b b"
| step: "stock_reach b c \<Longrightarrow> stock_step c x = Inr d \<Longrightarrow> stock_reach b d"

text \<open>No overselling: what is reserved is on hand.\<close>

definition stock_ok :: "StockBalanceAggregate \<Rightarrow> bool" where
  "stock_ok b \<longleftrightarrow>
     0 \<le> reservedMilli b \<and> reservedMilli b \<le> onHandMilli b \<and>
     0 \<le> avgUnitCostVnd b \<and> avgUnitCostVnd b \<le> max_safe \<and>
     half_up (onHandMilli b * avgUnitCostVnd b) QTY_SCALE \<le> max_safe"

inductive_cases stock_reachE: "stock_reach b c"

section \<open>Effects of the operations\<close>

lemma reserve_ok_iff:
  "reserve b q = Inr c \<longleftrightarrow>
     (\<exists>n. parseQtyToMilli q False False = Inr n \<and> n \<le> availableMilli b \<and>
        c = b\<lparr>reservedMilli := reservedMilli b + n, version := version b + 1\<rparr>)"
  by (auto simp: reserve_def ok_simps)

lemma release_ok_iff:
  "release b q = Inr c \<longleftrightarrow>
     (\<exists>n. parseQtyToMilli q False False = Inr n \<and> n \<le> reservedMilli b \<and>
        c = b\<lparr>reservedMilli := reservedMilli b - n, version := version b + 1\<rparr>)"
  by (auto simp: release_def ok_simps)

lemma avgUnitCost_ok: "stock_ok b \<Longrightarrow> avgUnitCost b = Inr (avgUnitCostVnd b)"
  by (simp add: stock_ok_def avgUnitCost_def)

lemma num_arg_money [simp]: "0 \<le> n \<Longrightarrow> n \<le> max_safe \<Longrightarrow> parseMoneyToVnd (num_arg n) = Inr n"
  by (simp add: num_arg_def)

lemma outbound_value:
  assumes "stock_ok b" "0 < n"
  shows "half_up ((onHandMilli b - n) * avgUnitCostVnd b) QTY_SCALE \<le> max_safe"
proof -
  have "(onHandMilli b - n) * avgUnitCostVnd b \<le> onHandMilli b * avgUnitCostVnd b"
    using assms by (intro mult_right_mono) (simp_all add: stock_ok_def)
  then have "half_up ((onHandMilli b - n) * avgUnitCostVnd b) QTY_SCALE \<le>
      half_up (onHandMilli b * avgUnitCostVnd b) QTY_SCALE"
    by (rule half_up_mono) (simp add: QTY_SCALE_def)
  then show ?thesis using assms(1) by (simp add: stock_ok_def)
qed

text \<open>The deduction both outbound operations share, read through the text of the quantities.\<close>

lemma deduction_of_balance:
  assumes "stock_ok b" "0 < n"
  shows "computeValuationAfterDeduction (onHandQty b) (num_arg (avgUnitCostVnd b)) (formatMilliToQty n) = Inr v
    \<longleftrightarrow> n \<le> onHandMilli b \<and>
      v = \<lparr>newOnHandMilli = onHandMilli b - n, newAvgCostVnd = avgUnitCostVnd b,
           newValuationVnd = half_up ((onHandMilli b - n) * avgUnitCostVnd b) QTY_SCALE,
           newOnHandQty = formatMilliToQty (onHandMilli b - n), newAvgUnitCost = avgUnitCostVnd b,
           newValuationAmount = half_up ((onHandMilli b - n) * avgUnitCostVnd b) QTY_SCALE\<rparr>"
proof -
  have b: "0 \<le> onHandMilli b" "0 \<le> avgUnitCostVnd b" "avgUnitCostVnd b \<le> max_safe"
    "half_up (onHandMilli b * avgUnitCostVnd b) QTY_SCALE \<le> max_safe"
    using assms(1) by (auto simp: stock_ok_def)
  have le: "half_up ((onHandMilli b - n) * avgUnitCostVnd b) QTY_SCALE \<le> max_safe"
    by (rule outbound_value [OF assms])
  show ?thesis
    unfolding deduction_ok_iff using b le assms(2)
    by (cases v) (auto simp: onHandQty_def inv_qty0.parse_fmt inv_qty.parse_fmt)
qed

lemma commitReservation_ok_iff:
  assumes "stock_ok b"
  shows "commitReservation b q = Inr (c, v) \<longleftrightarrow>
    (\<exists>n. parseQtyToMilli q False False = Inr n \<and> n \<le> reservedMilli b \<and>
       c = b\<lparr>onHandMilli := onHandMilli b - n, reservedMilli := reservedMilli b - n, version := version b + 1\<rparr> \<and>
       computeValuationAfterDeduction (onHandQty b) (num_arg (avgUnitCostVnd b)) (formatMilliToQty n) = Inr v)"
  using assms parseQty_pos [of q]
  by (auto simp: commitReservation_def ok_simps avgUnitCost_ok deduction_of_balance)

lemma deductAvailable_ok_iff:
  assumes "stock_ok b"
  shows "deductAvailable b q = Inr (c, v) \<longleftrightarrow>
    (\<exists>n. parseQtyToMilli q False False = Inr n \<and> n \<le> availableMilli b \<and>
       c = b\<lparr>onHandMilli := onHandMilli b - n, version := version b + 1\<rparr> \<and>
       computeValuationAfterDeduction (onHandQty b) (num_arg (avgUnitCostVnd b)) (formatMilliToQty n) = Inr v)"
  using assms parseQty_pos [of q]
  by (auto simp: deductAvailable_def ok_simps avgUnitCost_ok deduction_of_balance)

lemma receive_ok_iff:
  assumes "stock_ok b"
  shows "receive b q cost = Inr (c, r) \<longleftrightarrow>
    computeWeightedAverageCostOnReceipt (onHandQty b) (num_arg (avgUnitCostVnd b)) q cost = Inr r \<and>
    c = b\<lparr>onHandMilli := newOnHandMilli r, avgUnitCostVnd := newAvgCostVnd r, version := version b + 1\<rparr>"
  using assms by (auto simp: receive_def ok_simps avgUnitCost_ok)

lemma receive_effect:
  assumes "stock_ok b" "receive b q cost = Inr (c, r)"
  shows "\<exists>a d. parseQtyToMilli q False False = Inr a \<and> 0 < a \<and> parseMoneyToVnd cost = Inr d \<and> 0 \<le> d \<and>
    onHandMilli c = onHandMilli b + a \<and> reservedMilli c = reservedMilli b \<and>
    avgUnitCostVnd c = half_up (onHandMilli b * avgUnitCostVnd b + a * d) (onHandMilli b + a) \<and>
    half_up (onHandMilli c * avgUnitCostVnd c) QTY_SCALE = newValuationVnd r \<and>
    avgUnitCostVnd c \<le> max_safe \<and> newValuationVnd r \<le> max_safe \<and> version c = version b + 1"
proof -
  have b: "0 \<le> onHandMilli b" "0 \<le> avgUnitCostVnd b" "avgUnitCostVnd b \<le> max_safe"
    using assms(1) by (auto simp: stock_ok_def)
  show ?thesis
    using assms(2) b parseMoneyToVnd_nonneg [of cost] parseQty_pos [of q]
    unfolding receive_ok_iff [OF assms(1)] receipt_ok_iff
    by (auto simp: onHandQty_def inv_qty0.parse_fmt)
qed

lemmas stock_effects = reserve_ok_iff release_ok_iff commitReservation_ok_iff deductAvailable_ok_iff

text \<open>Every operation keeps the invariant and moves the version by one.\<close>

lemma stock_step_ok:
  assumes "stock_ok b" "stock_step b x = Inr c"
  shows "stock_ok c \<and> version c = version b + 1"
proof (cases x)
  case (Receive q cost)
  then obtain r where r: "receive b q cost = Inr (c, r)"
    using assms(2) by (auto simp: stock_step_def ok_simps)
  obtain a d where e: "0 < a" "0 \<le> d" "onHandMilli c = onHandMilli b + a" "reservedMilli c = reservedMilli b"
    "avgUnitCostVnd c = half_up (onHandMilli b * avgUnitCostVnd b + a * d) (onHandMilli b + a)"
    "half_up (onHandMilli c * avgUnitCostVnd c) QTY_SCALE = newValuationVnd r"
    "avgUnitCostVnd c \<le> max_safe" "newValuationVnd r \<le> max_safe" "version c = version b + 1"
    using receive_effect [OF assms(1) r] by blast
  have b: "0 \<le> onHandMilli b" "0 \<le> avgUnitCostVnd b" using assms(1) by (auto simp: stock_ok_def)
  then have "0 \<le> avgUnitCostVnd c" using e by (simp add: half_up_nonneg)
  then show ?thesis using assms(1) e by (auto simp: stock_ok_def)
next
  case (Commit q)
  then show ?thesis
    using assms outbound_value [OF assms(1)] parseQty_pos [of q]
    by (auto simp: stock_step_def ok_simps stock_effects) (auto simp: stock_ok_def)
next
  case (Deduct q)
  then show ?thesis
    using assms outbound_value [OF assms(1)] parseQty_pos [of q]
    by (auto simp: stock_step_def ok_simps stock_effects) (auto simp: stock_ok_def availableMilli_def)
qed (use assms parseQty_pos in \<open>auto simp: stock_step_def stock_effects stock_ok_def availableMilli_def
    dest!: parseQty_pos\<close>)

section \<open>The aggregate is a ledger of held stock\<close>

abbreviation reserve_milli :: "StockBalanceAggregate \<Rightarrow> int \<Rightarrow> StockBalanceAggregate inv_result" where
  "reserve_milli b n \<equiv> reserve b (formatMilliToQty n)"

abbreviation release_milli :: "StockBalanceAggregate \<Rightarrow> int \<Rightarrow> StockBalanceAggregate inv_result" where
  "release_milli b n \<equiv> release b (formatMilliToQty n)"

abbreviation commit_milli :: "StockBalanceAggregate \<Rightarrow> int \<Rightarrow> StockBalanceAggregate inv_result" where
  "commit_milli b n \<equiv> stock_step b (Commit (formatMilliToQty n))"

lemma is_ok_iff: "is_ok m \<longleftrightarrow> (\<exists>t. m = Inr t)"
  by (cases m) auto

interpretation stock: hold_ledger onHandMilli reservedMilli stock_ok reserve_milli release_milli commit_milli
proof
  fix b c :: StockBalanceAggregate and n :: int
  assume b: "stock_ok b"
  show "0 \<le> reservedMilli b \<and> reservedMilli b \<le> onHandMilli b" using b by (simp add: stock_ok_def)
  assume n: "0 < n"
  have step: "stock_ok d \<and> version d = version b + 1" if "stock_step b x = Inr d" for d x
    using stock_step_ok [OF b that] .
  show "is_ok (reserve_milli b n) \<longleftrightarrow> n \<le> onHandMilli b - reservedMilli b"
    using n by (auto simp: is_ok_iff reserve_ok_iff inv_qty.parse_fmt availableMilli_def)
  show "is_ok (release_milli b n) \<longleftrightarrow> n \<le> reservedMilli b"
    using n by (auto simp: is_ok_iff release_ok_iff inv_qty.parse_fmt)
  show "is_ok (commit_milli b n) \<longleftrightarrow> n \<le> reservedMilli b"
    using n b
    by (auto simp: is_ok_iff stock_step_def ok_simps commitReservation_ok_iff inv_qty.parse_fmt
        deduction_of_balance) (auto simp: stock_ok_def)
  show "stock_ok c \<and> onHandMilli c = onHandMilli b \<and> reservedMilli c = reservedMilli b + n"
    if "reserve_milli b n = Inr c"
    using step [of "Reserve (formatMilliToQty n)" c] that n
    by (auto simp: stock_step_def reserve_ok_iff inv_qty.parse_fmt)
  show "stock_ok c \<and> onHandMilli c = onHandMilli b \<and> reservedMilli c = reservedMilli b - n"
    if "release_milli b n = Inr c"
    using step [of "Release (formatMilliToQty n)" c] that n
    by (auto simp: stock_step_def release_ok_iff inv_qty.parse_fmt)
  show "stock_ok c \<and> onHandMilli c = onHandMilli b - n \<and> reservedMilli c = reservedMilli b - n"
    if "commit_milli b n = Inr c"
    using step [OF that] that n b
    by (auto simp: stock_step_def ok_simps commitReservation_ok_iff inv_qty.parse_fmt)
qed

lemma reserve_text: "parseQtyToMilli q False False = Inr n \<Longrightarrow> reserve b q = reserve_milli b n"
  using parseQty_pos [of q n] by (simp add: reserve_def inv_qty.parse_fmt)

lemma release_text: "parseQtyToMilli q False False = Inr n \<Longrightarrow> release b q = release_milli b n"
  using parseQty_pos [of q n] by (simp add: release_def inv_qty.parse_fmt)

lemma commit_text: "parseQtyToMilli q False False = Inr n \<Longrightarrow> stock_step b (Commit q) = commit_milli b n"
  using parseQty_pos [of q n] by (simp add: stock_step_def commitReservation_def inv_qty.parse_fmt)

section \<open>Purchase-order receipts in sequence\<close>

text \<open>One receipt after another against the same ordered quantity, each fed the previous received text.\<close>

definition receive_against_order :: "string \<Rightarrow> string list \<Rightarrow> string \<Rightarrow> string inv_result" where
  "receive_against_order ordered nows prev =
     efold (\<lambda>now prev. ebind (evaluatePurchaseOrderReceiptLine ordered prev now)
       (\<lambda>r. Inr (newReceivedBaseQty r))) nows prev"

lemma receipt_line_ok_iff:
  assumes "parseQtyToMilli ordered False False = Inr n" "parseQtyToMilli prev True False = Inr p"
  shows "evaluatePurchaseOrderReceiptLine ordered prev now = Inr r \<longleftrightarrow>
    (\<exists>k. parseQtyToMilli now False False = Inr k \<and> p + k \<le> n \<and>
       r = \<lparr>newReceivedBaseQty = formatMilliToQty (p + k), isFullyReceived = (p + k = n)\<rparr>)"
  using assms by (auto simp: evaluatePurchaseOrderReceiptLine_def ok_simps Let_def)

lemma receive_against_order_ok:
  assumes "parseQtyToMilli ordered False False = Inr n" "parseQtyToMilli prev True False = Inr p" "p \<le> n"
    and "list_all2 (\<lambda>now k. parseQtyToMilli now False False = Inr k) nows ks"
  shows "(is_ok (receive_against_order ordered nows prev) \<longleftrightarrow> p + sum_list ks \<le> n) \<and>
    (\<forall>t. receive_against_order ordered nows prev = Inr t \<longrightarrow>
       parseQtyToMilli t True False = Inr (p + sum_list ks))"
  using assms(4,2,3)
proof (induction nows ks arbitrary: prev p rule: list_all2_induct)
  case Nil
  then show ?case by (simp add: receive_against_order_def)
next
  case (Cons now nows k ks)
  have k: "0 < k" "0 \<le> p" using Cons.hyps(1) Cons.prems parseQty_pos parseQty_nonneg by blast+
  have nn: "0 \<le> sum_list ks"
    using Cons.hyps(2)
  proof (induction rule: list_all2_induct)
    case (Cons x xs y ys)
    then show ?case using parseQty_pos [of x y] by simp
  qed simp
  have un: "receive_against_order ordered (now # nows) prev =
      (if p + k \<le> n then receive_against_order ordered nows (formatMilliToQty (p + k))
       else Inl (inv_error OVER_RECEIPT_NOT_ALLOWED 409))"
    using assms(1) Cons.prems(1) Cons.hyps(1)
    by (simp add: receive_against_order_def evaluatePurchaseOrderReceiptLine_def Let_def not_le)
  have pk: "parseQtyToMilli (formatMilliToQty (p + k)) True False = Inr (p + k)"
    using k by (simp add: inv_qty0.parse_fmt)
  show ?case
  proof (cases "p + k \<le> n")
    case True
    then show ?thesis using Cons.IH [OF pk True] by (simp add: un add.assoc)
  next
    case False
    then show ?thesis using nn by (simp add: un)
  qed
qed

section \<open>Properties\<close>

text \<open>A balance of 10 units at 1000 VND with 2 units reserved.\<close>

definition sample_balance :: StockBalanceAggregate where
  "sample_balance = \<lparr>sb_warehouseId = ''w1'', sb_skuId = ''sku'', onHandMilli = 10000, reservedMilli = 2000,
     avgUnitCostVnd = 1000, version = 1\<rparr>"

lemma sample_balance_ok: "stock_ok sample_balance"
  by code_simp

text \<open>
C1: no sequence of reservations, releases, commits, receipts and deductions, in any order and with
refused calls in between, oversells a stock balance: the reserved quantity stays between zero and
the quantity on hand, the available quantity is never negative, and the version never decreases.
\<close>

theorem stock_never_oversold:
  assumes "stock_ok b" and "stock_reach b c"
  shows "0 \<le> reservedMilli c \<and> reservedMilli c \<le> onHandMilli c \<and> 0 \<le> availableMilli c \<and> version b \<le> version c"
proof -
  have "stock_ok c \<and> version b \<le> version c"
    using assms(2,1)
  proof (induction rule: stock_reach.induct)
    case (step b c x d)
    then show ?case using stock_step_ok [of c x d] by simp
  qed simp
  then show ?thesis by (simp add: stock_ok_def availableMilli_def)
qed

theorem stock_never_oversold_witness:
  "\<exists>c. stock_reach sample_balance c \<and> onHandMilli c = 10000 \<and> reservedMilli c = 10000 \<and> 0 \<le> availableMilli c"
proof -
  let ?c = "sample_balance\<lparr>reservedMilli := 10000, version := 2\<rparr>"
  have step: "stock_step sample_balance (Reserve ''8'') = Inr ?c" by code_simp
  have reach: "stock_reach sample_balance ?c"
    by (rule stock_reach.step [OF stock_reach.start step])
  show ?thesis
    using stock_never_oversold [OF sample_balance_ok reach] reach
    by (intro exI [of _ ?c]) (simp add: sample_balance_def)
qed

text \<open>
A batch of reservations is accepted as a whole exactly when the sum of its quantities is at
most the available quantity: nothing available is refused and nothing is promised twice.
\<close>

theorem reservations_exact:
  assumes "stock_ok b" and "\<forall>n \<in> set ns. 0 < n"
  shows "(\<exists>c. efold (\<lambda>n b. reserve b (formatMilliToQty n)) ns b = Inr c) \<longleftrightarrow> sum_list ns \<le> availableMilli b"
  using stock.holds_iff [OF assms] by (simp add: is_ok_iff availableMilli_def)

theorem reservations_exact_witness:
  "(\<exists>c. efold (\<lambda>n b. reserve b (formatMilliToQty n)) [3000, 5000] sample_balance = Inr c) \<and>
   \<not> (\<exists>c. efold (\<lambda>n b. reserve b (formatMilliToQty n)) [3000, 5001] sample_balance = Inr c)"
proof -
  have "availableMilli sample_balance = 8000" by code_simp
  then show ?thesis
    using reservations_exact [OF sample_balance_ok, of "[3000, 5000]"]
      reservations_exact [OF sample_balance_ok, of "[3000, 5001]"] by simp
qed

text \<open>
After a reservation, releasing the same quantity always succeeds and restores the balance, and
committing it always succeeds, takes the quantity off the stock on hand and leaves the available
quantity as the reservation left it.
\<close>

theorem reservation_settles:
  assumes "stock_ok b" and "reserve b q = Inr c"
  shows "(\<exists>d. release c q = Inr d \<and> onHandMilli d = onHandMilli b \<and> reservedMilli d = reservedMilli b) \<and>
    (\<exists>d v n. commitReservation c q = Inr (d, v) \<and> parseQtyToMilli q False False = Inr n \<and>
       onHandMilli d = onHandMilli b - n \<and> reservedMilli d = reservedMilli b \<and>
       availableMilli d = availableMilli c)"
proof -
  obtain n where n: "parseQtyToMilli q False False = Inr n" "0 < n"
    using assms(2) parseQty_pos by (auto simp: reserve_ok_iff)
  have r: "reserve_milli b n = Inr c" using assms(2) reserve_text [OF n(1)] by simp
  obtain d where d: "release c q = Inr d" "onHandMilli d = onHandMilli b" "reservedMilli d = reservedMilli b"
    using stock.hold_release [OF assms(1) n(2) r] release_text [OF n(1)] by auto
  obtain e where e: "stock_step c (Commit q) = Inr e" "onHandMilli e = onHandMilli b - n"
    "reservedMilli e = reservedMilli b"
    using stock.hold_commit [OF assms(1) n(2) r] commit_text [OF n(1)] by auto
  have "availableMilli e = availableMilli c"
    using e stock.hold_effect [OF assms(1) n(2) r] by (simp add: availableMilli_def)
  moreover obtain v where "commitReservation c q = Inr (e, v)"
    using e(1) by (auto simp: stock_step_def ok_simps)
  ultimately show ?thesis using d e n by blast
qed

theorem reservation_settles_witness:
  "\<exists>c d. reserve sample_balance ''3.5'' = Inr c \<and> release c ''3.5'' = Inr d \<and> reservedMilli d = 2000"
proof -
  have r: "reserve sample_balance ''3.5'' = Inr (sample_balance\<lparr>reservedMilli := 5500, version := 2\<rparr>)"
    by code_simp
  have "reservedMilli sample_balance = 2000" by (simp add: sample_balance_def)
  then show ?thesis using reservation_settles [OF sample_balance_ok r] r by auto
qed

text \<open>
A sequence of receipts against a purchase order is accepted exactly when the total received stays
within the ordered quantity, and the recorded received quantity is then exactly that total.
\<close>

theorem purchase_order_never_over_received:
  assumes "parseQtyToMilli ordered False False = Inr n" and "parseQtyToMilli prev True False = Inr p"
    and "p \<le> n" and "list_all2 (\<lambda>now k. parseQtyToMilli now False False = Inr k) nows ks"
  shows "((\<exists>t. receive_against_order ordered nows prev = Inr t) \<longleftrightarrow> p + sum_list ks \<le> n) \<and>
    (\<forall>t. receive_against_order ordered nows prev = Inr t \<longrightarrow>
       parseQtyToMilli t True False = Inr (p + sum_list ks))"
  using receive_against_order_ok [OF assms] by (auto simp: is_ok_iff)

theorem purchase_order_never_over_received_witness:
  "(\<exists>t. receive_against_order ''10'' [''2.5'', ''4''] ''3.500'' = Inr t) \<and>
   \<not> (\<exists>t. receive_against_order ''10'' [''2.5'', ''4.001''] ''3.500'' = Inr t)"
proof -
  have h: "parseQtyToMilli ''10'' False False = Inr 10000" "parseQtyToMilli ''3.500'' True False = Inr 3500"
    "parseQtyToMilli ''2.5'' False False = Inr 2500" "parseQtyToMilli ''4'' False False = Inr 4000"
    "parseQtyToMilli ''4.001'' False False = Inr 4001"
    by code_simp+
  show ?thesis
    using purchase_order_never_over_received [OF h(1,2), of "[''2.5'', ''4'']" "[2500, 4000]"]
      purchase_order_never_over_received [OF h(1,2), of "[''2.5'', ''4.001'']" "[2500, 4001]"] h
    by simp
qed

text \<open>
An approved stocktake line was counted on the current version of the balance, its correction
brings the stock on hand exactly to the counted quantity, and it never takes stock below what is
reserved.
\<close>

theorem stocktake_line_correct:
  assumes "evaluateStocktakeApprovalLine snap cur onHand reserved counted = Inr r"
  shows "js_eq snap cur \<and> (\<exists>oh rs. parseQtyToMilli onHand True False = Inr oh \<and>
    parseQtyToMilli reserved True False = Inr rs \<and>
    parseQtyToMilli (st_countedQty r) True False = Inr (oh + st_deltaMilli r) \<and>
    parseQtyToMilli (st_deltaQty r) True True = Inr (st_deltaMilli r) \<and> rs \<le> oh + st_deltaMilli r)"
  using assms parseQty_nonneg
  by (auto simp: evaluateStocktakeApprovalLine_def ok_simps parseQty_format)

theorem stocktake_line_correct_witness:
  "\<exists>r. evaluateStocktakeApprovalLine (Fin 4) (Fin 4) ''10'' ''2'' ''7.5'' = Inr r \<and> st_deltaMilli r = - 2500 \<and>
     parseQtyToMilli (st_countedQty r) True False = Inr 7500"
proof -
  let ?r = "\<lparr>st_countedQty = ''7.500'', st_deltaMilli = - 2500, st_deltaQty = ''-2.500''\<rparr>"
  have h: "evaluateStocktakeApprovalLine (Fin 4) (Fin 4) ''10'' ''2'' ''7.5'' = Inr ?r"
    "parseQtyToMilli ''10'' True False = Inr 10000"
    by code_simp+
  show ?thesis using stocktake_line_correct [OF h(1)] h by auto
qed

end
