(* ===== verification/HoldSpec.thy ===== *)
theory HoldSpec
  imports JsString
begin

text \<open>
  What the inventory service promises about holds, independent of how it stores them: stock per place and SKU, and
  for every open hold the quantities it keeps. A hold is taken only from free stock, a release gives it back, a
  commit turns it into a deduction. Both stores of the service (order holds and warehouse reservations) are
  shown to implement this specification.
\<close>

type_synonym place = "string \<times> string"

type_synonym 'k demand = "'k \<Rightarrow> int"

record 'k HoldSpec =
  sp_stock :: "'k demand"
  sp_open :: "string \<Rightarrow> 'k demand option"

definition sp_held :: "'k HoldSpec \<Rightarrow> 'k demand" where
  "sp_held s k = (\<Sum>o' \<in> dom (sp_open s). the (sp_open s o') k)"

definition sp_free :: "'k HoldSpec \<Rightarrow> 'k demand" where
  "sp_free s k = sp_stock s k - sp_held s k"

inductive spec_step :: "'k HoldSpec \<Rightarrow> 'k HoldSpec \<Rightarrow> bool" where
  take_hold: "sp_open s i = None \<Longrightarrow> \<forall>k. 0 \<le> d k \<and> (0 < d k \<longrightarrow> d k \<le> sp_free s k) \<Longrightarrow>
    spec_step s (s\<lparr>sp_open := (sp_open s)(i \<mapsto> d)\<rparr>)"
| drop_hold: "sp_open s i = Some d \<Longrightarrow> spec_step s (s\<lparr>sp_open := (sp_open s)(i := None)\<rparr>)"
| use_hold: "sp_open s i = Some d \<Longrightarrow>
    spec_step s (s\<lparr>sp_stock := (\<lambda>k. sp_stock s k - d k), sp_open := (sp_open s)(i := None)\<rparr>)"
| add_stock: "\<forall>k. 0 \<le> d k \<Longrightarrow> spec_step s (s\<lparr>sp_stock := (\<lambda>k. sp_stock s k + d k)\<rparr>)"
| take_free: "\<forall>k. 0 \<le> d k \<and> (0 < d k \<longrightarrow> d k \<le> sp_free s k) \<Longrightarrow>
    spec_step s (s\<lparr>sp_stock := (\<lambda>k. sp_stock s k - d k)\<rparr>)"

inductive spec_reach :: "'k HoldSpec \<Rightarrow> 'k HoldSpec \<Rightarrow> bool" where
  spec_start: "spec_reach s s"
| spec_more: "spec_reach s t \<Longrightarrow> spec_step t u \<Longrightarrow> spec_reach s u"

inductive_cases spec_stepE: "spec_step s t"

text \<open>Free stock is never negative, and every open hold keeps non-negative quantities.\<close>

definition spec_ok :: "'k HoldSpec \<Rightarrow> bool" where
  "spec_ok s \<longleftrightarrow> finite (dom (sp_open s)) \<and> (\<forall>i d. sp_open s i = Some d \<longrightarrow> (\<forall>k. 0 \<le> d k)) \<and> (\<forall>k. 0 \<le> sp_free s k)"

lemma sp_held_insert:
  assumes "finite (dom (sp_open s))" "sp_open s i = None"
  shows "sp_held (s\<lparr>sp_open := (sp_open s)(i \<mapsto> d)\<rparr>) k = sp_held s k + d k"
proof -
  have "i \<notin> dom (sp_open s)" using assms(2) by blast
  moreover have "(\<Sum>j \<in> dom (sp_open s). the (((sp_open s)(i \<mapsto> d)) j) k) = (\<Sum>j \<in> dom (sp_open s). the (sp_open s j) k)"
    using assms(2) by (intro sum.cong) auto
  ultimately show ?thesis using assms(1) by (simp add: sp_held_def)
qed

lemma sp_held_remove:
  assumes "finite (dom (sp_open s))" "sp_open s i = Some d"
  shows "sp_held (s\<lparr>sp_open := (sp_open s)(i := None)\<rparr>) k = sp_held s k - d k"
proof -
  have "i \<in> dom (sp_open s)" using assms(2) by blast
  then have "(\<Sum>j \<in> dom (sp_open s). the (sp_open s j) k) = d k + (\<Sum>j \<in> dom (sp_open s) - {i}. the (sp_open s j) k)"
    using assms by (simp add: sum.remove)
  moreover have "(\<Sum>j \<in> dom (sp_open s) - {i}. the (((sp_open s)(i := None)) j) k) = (\<Sum>j \<in> dom (sp_open s) - {i}. the (sp_open s j) k)"
    by (intro sum.cong) auto
  ultimately show ?thesis by (simp add: sp_held_def)
qed

lemma sp_held_stock [simp]: "sp_held (s\<lparr>sp_stock := f\<rparr>) = sp_held s"
  by (simp add: sp_held_def fun_eq_iff)

lemma sp_held_nonneg: "spec_ok s \<Longrightarrow> 0 \<le> sp_held s k"
  unfolding sp_held_def spec_ok_def by (intro sum_nonneg) (auto simp: dom_def)

lemma spec_step_ok:
  assumes "spec_step s t" "spec_ok s"
  shows "spec_ok t"
proof -
  have fin: "finite (dom (sp_open s))" and pos: "\<And>i d k. sp_open s i = Some d \<Longrightarrow> 0 \<le> d k"
    and free: "\<And>k. sp_held s k \<le> sp_stock s k"
    using assms(2) unfolding spec_ok_def sp_free_def by auto
  show ?thesis
    using assms(1)
  proof cases
    case (take_hold i d)
    have "d k \<le> sp_stock s k - sp_held s k" for k
      using take_hold(3) free [of k] by (cases "0 < d k") (auto simp: sp_free_def not_less intro: order_trans)
    then show ?thesis using take_hold fin pos by (auto simp: spec_ok_def sp_free_def sp_held_insert algebra_simps)
  next
    case (drop_hold i d)
    show ?thesis
      using drop_hold fin pos free add_mono [OF free pos]
      by (auto simp: spec_ok_def sp_free_def sp_held_remove algebra_simps intro: order_trans)
  next
    case (use_hold i d)
    have "sp_held t k = sp_held s k - d k" for k
      using use_hold sp_held_remove [OF fin use_hold(2)] by (simp add: sp_held_def)
    then show ?thesis using use_hold fin pos free by (auto simp: spec_ok_def sp_free_def)
  next
    case (add_stock d)
    then show ?thesis using fin pos free by (auto simp: spec_ok_def sp_free_def intro: order_trans add_increasing2)
  next
    case (take_free d)
    have "d k \<le> sp_stock s k - sp_held s k" for k
      using take_free(2) free [of k] by (cases "0 < d k") (auto simp: sp_free_def not_less intro: order_trans)
    then show ?thesis using take_free fin pos by (auto simp: spec_ok_def sp_free_def algebra_simps)
  qed
qed

lemma spec_reach_trans: "spec_reach t u \<Longrightarrow> spec_reach s t \<Longrightarrow> spec_reach s u"
  by (induction rule: spec_reach.induct) (auto intro: spec_more)

lemma spec_reach_step: "spec_step s t \<Longrightarrow> spec_reach t u \<Longrightarrow> spec_reach s u"
  using spec_reach_trans spec_more [OF spec_start] by blast

lemma spec_reach_ok: "spec_reach s t \<Longrightarrow> spec_ok s \<Longrightarrow> spec_ok t"
  by (induction rule: spec_reach.induct) (auto intro: spec_step_ok)

section \<open>Lines\<close>

text \<open>The quantity that a list of lines asks of one key.\<close>

definition qty_of :: "('k \<times> int) list \<Rightarrow> 'k \<Rightarrow> int" where
  "qty_of ls k = sum_list (map snd (filter (\<lambda>l. fst l = k) ls))"

lemma qty_of_simps [simp]: "qty_of [] k = 0" "qty_of ((k', q) # ls) k = (if k' = k then q else 0) + qty_of ls k"
  by (simp_all add: qty_of_def)

lemma qty_of_append [simp]: "qty_of (xs @ ys) k = qty_of xs k + qty_of ys k"
  by (simp add: qty_of_def)

lemma qty_of_nonneg: "\<forall>l \<in> set ls. 0 \<le> snd l \<Longrightarrow> 0 \<le> qty_of ls k"
  unfolding qty_of_def by (intro sum_list_nonneg) auto

lemma qty_of_absent: "k \<notin> fst ` set ls \<Longrightarrow> qty_of ls k = 0"
  unfolding qty_of_def by (intro sum_list_all_0) auto

lemma qty_of_distinct: "distinct (map fst ls) \<Longrightarrow> (k, q) \<in> set ls \<Longrightarrow> qty_of ls k = q"
proof (induction ls)
  case (Cons l ls)
  show ?case
  proof (cases "l = (k, q)")
    case True
    then show ?thesis using Cons.prems(1) by (simp add: qty_of_absent)
  next
    case False
    then have "(k, q) \<in> set ls" using Cons.prems(2) by auto
    then have "fst l \<noteq> k" using Cons.prems(1) by (auto simp: image_iff)
    then show ?thesis using Cons \<open>(k, q) \<in> set ls\<close> by (cases l) auto
  qed
qed simp

lemma qty_of_sort [simp]: "qty_of (js_sort cmp ls) k = qty_of ls k"
  by (simp add: qty_of_def)

text \<open>Quantities of one branch or warehouse as a demand on places.\<close>

definition at_place :: "string \<Rightarrow> (string \<times> int) list \<Rightarrow> place demand" where
  "at_place b ls k = (if fst k = b then qty_of ls (snd k) else 0)"

section \<open>Tables of holds\<close>

text \<open>
  A table of holds keyed by an id, and which of its rows are open: the specification's open holds, and the
  quantity held of a place as the sum over the table.
\<close>

definition open_holds :: "('h \<Rightarrow> 'k demand option) \<Rightarrow> (string, 'h) jsmap \<Rightarrow> string \<Rightarrow> 'k demand option" where
  "open_holds f m i = (case map_get m i of None \<Rightarrow> None | Some h \<Rightarrow> f h)"

definition held_by :: "('h \<Rightarrow> 'k demand option) \<Rightarrow> 'k \<Rightarrow> 'h \<Rightarrow> int" where
  "held_by f k h = (case f h of None \<Rightarrow> 0 | Some d \<Rightarrow> d k)"

lemma map_sum_dom:
  "distinct (map fst m) \<Longrightarrow> map_sum g m = (\<Sum>k \<in> fst ` set m. g (the (map_get m k)))"
proof (induction m)
  case (Cons x m)
  have ne: "k \<noteq> fst x" if "k \<in> fst ` set m" for k using Cons.prems that by (metis distinct.simps(2) list.set_map list.simps(9))
  have "(\<Sum>k \<in> fst ` set m. g (the (map_get (x # m) k))) = (\<Sum>k \<in> fst ` set m. g (the (map_get m k)))"
    by (intro sum.cong refl) (simp add: map_get_def ne)
  then show ?case using Cons by (cases x) (simp add: map_sum_def map_get_def)
qed simp

lemma dom_open_holds: "dom (open_holds f m) \<subseteq> fst ` set m"
  by (force simp: open_holds_def dom_def split: option.splits dest: map_get_in_set)

lemma sp_held_open:
  assumes "distinct (map fst m)"
  shows "sp_held \<lparr>sp_stock = st, sp_open = open_holds f m\<rparr> k = map_sum (held_by f k) m"
proof -
  have "map_sum (held_by f k) m = (\<Sum>i \<in> fst ` set m. held_by f k (the (map_get m i)))"
    by (rule map_sum_dom [OF assms])
  also have "\<dots> = (\<Sum>i \<in> dom (open_holds f m). held_by f k (the (map_get m i)))"
  proof (rule sum.mono_neutral_right)
    show "\<forall>i \<in> fst ` set m - dom (open_holds f m). held_by f k (the (map_get m i)) = 0"
    proof
      fix i
      assume i: "i \<in> fst ` set m - dom (open_holds f m)"
      then obtain h where "map_get m i = Some h" using assms map_get_eq_Some by fastforce
      then show "held_by f k (the (map_get m i)) = 0"
        using i by (auto simp: open_holds_def held_by_def dom_def split: option.splits)
    qed
  qed (simp_all add: dom_open_holds)
  also have "\<dots> = (\<Sum>i \<in> dom (open_holds f m). the (open_holds f m i) k)"
    by (intro sum.cong) (auto simp: open_holds_def held_by_def split: option.splits)
  finally show ?thesis by (simp add: sp_held_def)
qed

lemma open_holds_set: "open_holds f (map_set i h m) = (open_holds f m)(i := f h)"
  by (auto simp: open_holds_def fun_eq_iff)

lemma map_sum_held_set:
  "map_sum (held_by f k) (map_set i h m) =
     map_sum (held_by f k) m + held_by f k h - (case open_holds f m i of None \<Rightarrow> 0 | Some d \<Rightarrow> d k)"
  by (auto simp: map_sum_set open_holds_def held_by_def split: option.splits)

lemma finite_open_holds: "finite (dom (open_holds f m))"
  by (rule finite_subset [OF dom_open_holds]) simp

lemma map_sum_ge:
  assumes "\<forall>r \<in> set m. 0 \<le> g (snd r)" "map_get m i = Some h"
  shows "g h \<le> map_sum g m"
  using assms
proof (induction m)
  case (Cons x m)
  have "0 \<le> map_sum g m" using Cons.prems(1) by (auto simp: map_sum_def intro!: sum_list_nonneg)
  then show ?case using Cons by (cases x) (auto simp: map_sum_def map_get_def split: if_splits)
qed simp

section \<open>What a table of holds promises\<close>

text \<open>
  A component that keeps holds counts, per key, what its open holds take: the reserved quantity is the sum over
  the open rows. The stores of stock and the credit of customers are such tables.
\<close>

locale hold_table =
  fixes reserved :: "'db \<Rightarrow> 'k demand" and rows :: "'db \<Rightarrow> (string, 'h) jsmap"
    and demand_of :: "'h \<Rightarrow> 'k demand option" and inv :: "'db \<Rightarrow> bool"
  assumes rows_distinct: "inv db \<Longrightarrow> distinct (map fst (rows db))"
    and reserved_held: "inv db \<Longrightarrow> reserved db k = map_sum (held_by demand_of k) (rows db)"
    and demand_nonneg: "inv db \<Longrightarrow> (i, h) \<in> set (rows db) \<Longrightarrow> demand_of h = Some d \<Longrightarrow> 0 \<le> d k"
begin

lemma held_nonneg: "inv db \<Longrightarrow> r \<in> set (rows db) \<Longrightarrow> 0 \<le> held_by demand_of k (snd r)"
  by (cases r) (auto simp: held_by_def demand_nonneg split: option.splits)

lemma open_covered:
  assumes "inv db" "map_get (rows db) i = Some h" "demand_of h = Some d"
  shows "d k \<le> reserved db k"
proof -
  have "held_by demand_of k h \<le> map_sum (held_by demand_of k) (rows db)"
    using map_sum_ge [of "rows db" "held_by demand_of k" i h] assms held_nonneg by blast
  then show ?thesis using assms(1,3) by (simp add: reserved_held held_by_def)
qed

lemma open_holds_row: "open_holds demand_of (rows db) i = Some d \<longleftrightarrow> (\<exists>h. map_get (rows db) i = Some h \<and> demand_of h = Some d)"
  by (auto simp: open_holds_def split: option.splits)

text \<open>What the sum becomes when a row is added or replaced.\<close>

lemma sum_after_set:
  "inv db \<Longrightarrow> map_sum (held_by demand_of k) (map_set i h (rows db)) =
     reserved db k + held_by demand_of k h - (case map_get (rows db) i of None \<Rightarrow> 0 | Some g \<Rightarrow> held_by demand_of k g)"
  by (simp add: reserved_held map_sum_set)

end

section \<open>What a store of stock promises\<close>

text \<open>
  A store implements the specification when it keeps, besides, the reserved quantity at most the stock. The lemmas then say which
  changes of such a store are steps of the specification.
\<close>

locale hold_store = hold_table reserved rows demand_of inv
  for stock reserved :: "'db \<Rightarrow> 'k demand" and rows :: "'db \<Rightarrow> (string, 'h) jsmap"
    and demand_of :: "'h \<Rightarrow> 'k demand option" and inv :: "'db \<Rightarrow> bool" +
  assumes reserved_le: "inv db \<Longrightarrow> reserved db k \<le> stock db k"
begin

lemma free_stock: "inv db \<Longrightarrow> sp_free \<lparr>sp_stock = stock db, sp_open = open_holds demand_of (rows db)\<rparr> k = stock db k - reserved db k"
  by (simp add: sp_free_def sp_held_open rows_distinct reserved_held)

lemma abstract_ok: "inv db \<Longrightarrow> spec_ok \<lparr>sp_stock = stock db, sp_open = open_holds demand_of (rows db)\<rparr>"
  by (auto simp: spec_ok_def free_stock finite_open_holds reserved_le open_holds_row demand_nonneg dest: map_get_in_set)

text \<open>The three ways in which a row changes hands.\<close>

lemma row_opened:
  assumes "inv db" "inv db'" "stock db' = stock db" "rows db' = map_set i h (rows db)"
    and "open_holds demand_of (rows db) i = None" "demand_of h = Some d"
  shows "spec_step \<lparr>sp_stock = stock db, sp_open = open_holds demand_of (rows db)\<rparr>
    \<lparr>sp_stock = stock db', sp_open = open_holds demand_of (rows db')\<rparr>"
proof -
  let ?s = "\<lparr>sp_stock = stock db, sp_open = open_holds demand_of (rows db)\<rparr>"
  have "map_get (rows db') i = Some h" using assms(4) by simp
  then have pos: "0 \<le> d k" for k using assms(2,6) by (blast dest: map_get_in_set intro: demand_nonneg)
  have "reserved db' k = reserved db k + d k" for k
    using assms by (simp add: reserved_held map_sum_held_set) (simp add: held_by_def)
  then have "d k \<le> sp_free ?s k" for k using reserved_le [OF assms(2), of k] assms(1,3) by (simp add: free_stock)
  then have "spec_step ?s (?s\<lparr>sp_open := (sp_open ?s)(i \<mapsto> d)\<rparr>)" using pos assms(5) by (intro take_hold) simp_all
  then show ?thesis using assms(3,4,6) by (simp add: open_holds_set)
qed

lemma row_closed:
  assumes "stock db' = stock db" "rows db' = map_set i h (rows db)"
    and "open_holds demand_of (rows db) i = Some d" "demand_of h = None"
  shows "spec_step \<lparr>sp_stock = stock db, sp_open = open_holds demand_of (rows db)\<rparr>
    \<lparr>sp_stock = stock db', sp_open = open_holds demand_of (rows db')\<rparr>"
  using drop_hold [of "\<lparr>sp_stock = stock db, sp_open = open_holds demand_of (rows db)\<rparr>" i d] assms
  by (simp add: open_holds_set)

lemma row_used:
  assumes "stock db' = (\<lambda>k. stock db k - d k)" "rows db' = map_set i h (rows db)"
    and "open_holds demand_of (rows db) i = Some d" "demand_of h = None"
  shows "spec_step \<lparr>sp_stock = stock db, sp_open = open_holds demand_of (rows db)\<rparr>
    \<lparr>sp_stock = stock db', sp_open = open_holds demand_of (rows db')\<rparr>"
  using use_hold [of "\<lparr>sp_stock = stock db, sp_open = open_holds demand_of (rows db)\<rparr>" i d] assms
  by (simp add: open_holds_set)

text \<open>Any other change of stock that keeps the invariant takes free stock and adds stock.\<close>

lemma stock_changed:
  assumes "inv db" "inv db'" "rows db' = rows db"
  shows "spec_reach \<lparr>sp_stock = stock db, sp_open = open_holds demand_of (rows db)\<rparr>
    \<lparr>sp_stock = stock db', sp_open = open_holds demand_of (rows db')\<rparr>"
proof -
  let ?s = "\<lparr>sp_stock = stock db, sp_open = open_holds demand_of (rows db)\<rparr>"
  let ?less = "\<lambda>k. max 0 (stock db k - stock db' k)"
  let ?more = "\<lambda>k. max 0 (stock db' k - stock db k)"
  have "?less k \<le> sp_free ?s k" for k
    using assms reserved_le [of db k] reserved_le [of db' k] by (simp add: free_stock reserved_held)
  then have "spec_step ?s (?s\<lparr>sp_stock := (\<lambda>k. sp_stock ?s k - ?less k)\<rparr>)" by (intro take_free) simp
  moreover have "spec_step (?s\<lparr>sp_stock := (\<lambda>k. sp_stock ?s k - ?less k)\<rparr>)
      (?s\<lparr>sp_stock := (\<lambda>k. sp_stock ?s k - ?less k + ?more k)\<rparr>)"
    using add_stock [of ?more "?s\<lparr>sp_stock := (\<lambda>k. sp_stock ?s k - ?less k)\<rparr>"] by simp
  moreover have "(\<lambda>k. stock db k - ?less k + ?more k) = stock db'" by (simp add: fun_eq_iff max_def)
  ultimately show ?thesis using assms(3) spec_reach_step [OF _ spec_reach_step [OF _ spec_start]] by simp
qed

end

end
