(* ===== verification/OrderHolds.thy ===== *)
theory OrderHolds
  imports HoldSpec
begin

text \<open>
  The older, order-keyed stock store of the inventory service: whole quantities per branch and SKU
  (\<^verbatim>\<open>stock_item\<close>), holds keyed by the order (\<^verbatim>\<open>stock_reservation\<close>), and the ledger. Models
  \<^verbatim>\<open>apps/inventory/src/stock/{stock-lines,stock.service,reservations.service,order-completed.handler}.ts\<close>. The tables hold the
  rows of one tenant; every method runs in one transaction, so a method that throws changes
  nothing. Quantities are whole numbers from 1 to 1000000 and at most 100 lines (the request classes of
  \<^verbatim>\<open>stock.dto.ts\<close>), so sums of them are exact; SKUs are ASCII, so bytes are code units.
\<close>

section \<open>Lines\<close>

type_synonym StockLine = "string \<times> int"

definition compareSku :: "string \<Rightarrow> string \<Rightarrow> int" where
  "compareSku a b = code_unit_compare a b"

definition add_qty :: "StockLine \<Rightarrow> (string, int) jsmap \<Rightarrow> (string, int) jsmap" where
  "add_qty l m = map_set (fst l) ((case map_get m (fst l) of None \<Rightarrow> 0 | Some q \<Rightarrow> q) + snd l) m"

definition mergeLines :: "StockLine list \<Rightarrow> StockLine list" where
  "mergeLines lines = js_sort (\<lambda>a b. compareSku (fst a) (fst b)) (fold add_qty lines [])"

definition sameLines :: "StockLine list \<Rightarrow> StockLine list \<Rightarrow> bool" where
  "sameLines a b \<longleftrightarrow> mergeLines a = mergeLines b"

section \<open>Tables\<close>

record StockItem =
  quantity_on_hand :: int
  quantity_reserved :: int

datatype HoldStatus = Held | Committed | Released | Expired

record Hold =
  hd_id :: string
  hd_branch :: string
  hd_status :: HoldStatus
  hd_expires :: int
  hd_items :: "StockLine list"

record LedgerRow =
  lr_branch :: string
  lr_sku :: string
  lr_change :: int
  lr_balance :: int
  lr_refType :: string
  lr_refId :: string

record StockDb =
  stock_items :: "(place, StockItem) jsmap"
  reservations :: "(string, Hold) jsmap"
  inventory_ledger :: "LedgerRow list"
  branch_active :: "string list"
  warehouse_orders :: "string list"

datatype HoldError =
    StockShortageError "(string \<times> int \<times> int) list"
  | ReservationMismatchError
  | UNKNOWN_BRANCH
  | QueryFailedError
  | RowMissing

type_synonym 'a hold_result = "HoldError + 'a"

text \<open>The check constraint of the table and the range of its integer columns.\<close>

definition item_check :: "StockItem \<Rightarrow> bool" where
  "item_check it \<longleftrightarrow> 0 \<le> quantity_reserved it \<and> quantity_reserved it \<le> quantity_on_hand it \<and>
     quantity_on_hand it < 2 ^ 31"

definition put_item :: "place \<Rightarrow> StockItem \<Rightarrow> StockDb \<Rightarrow> StockDb hold_result" where
  "put_item k it db =
     (if item_check it then Inr (db\<lparr>stock_items := map_set k it (stock_items db)\<rparr>) else Inl QueryFailedError)"

definition ledger :: "string \<Rightarrow> string \<Rightarrow> int \<Rightarrow> int \<Rightarrow> string \<Rightarrow> string \<Rightarrow> StockDb \<Rightarrow> StockDb" where
  "ledger branchId sku changeQty balanceAfter refType refId db =
     db\<lparr>inventory_ledger := inventory_ledger db @
        [\<lparr>lr_branch = branchId, lr_sku = sku, lr_change = changeQty, lr_balance = balanceAfter,
          lr_refType = refType, lr_refId = refId\<rparr>]\<rparr>"

section \<open>Receiving goods\<close>

text \<open>
  \<^verbatim>\<open>INSERT ... ON CONFLICT DO UPDATE\<close>: the constraint is tested on the row to insert, then on the updated row.
\<close>

definition receive_line :: "string \<Rightarrow> string \<Rightarrow> StockLine \<Rightarrow> StockDb \<Rightarrow> StockDb hold_result" where
  "receive_line branchId receiptId l db =
     (let proposed = \<lparr>quantity_on_hand = snd l, quantity_reserved = 0\<rparr>;
          stored = (case map_get (stock_items db) (branchId, fst l) of
                      None \<Rightarrow> proposed
                    | Some it \<Rightarrow> it\<lparr>quantity_on_hand := quantity_on_hand it + snd l\<rparr>) in
      if \<not> item_check proposed then Inl QueryFailedError
      else ebind (put_item (branchId, fst l) stored db) (\<lambda>db'.
        Inr (ledger branchId (fst l) (snd l) (quantity_on_hand stored) ''receipt'' receiptId db')))"

definition receiveStock :: "StockDb \<Rightarrow> string \<Rightarrow> StockLine list \<Rightarrow> string \<Rightarrow> StockDb hold_result" where
  "receiveStock db branchId items receiptId =
     (if branchId \<notin> set (branch_active db) then Inl UNKNOWN_BRANCH
      else efold (receive_line branchId receiptId) (mergeLines items) db)"

section \<open>Holds\<close>

definition itemsOf :: "Hold \<Rightarrow> StockLine list" where
  "itemsOf h = js_sort (\<lambda>a b. compareSku (fst a) (fst b)) (hd_items h)"

text \<open>One conditional \<^verbatim>\<open>UPDATE\<close> per line; a line that finds too little is recorded as a shortage.\<close>

definition hold_line ::
    "string \<Rightarrow> StockLine \<Rightarrow> StockDb \<times> (string \<times> int \<times> int) list \<Rightarrow> (StockDb \<times> (string \<times> int \<times> int) list) hold_result" where
  "hold_line branchId l s =
     (case s of (db, shortages) \<Rightarrow>
       (case map_get (stock_items db) (branchId, fst l) of
          None \<Rightarrow> Inr (db, shortages @ [(fst l, snd l, 0)])
        | Some it \<Rightarrow>
            if quantity_on_hand it - quantity_reserved it \<ge> snd l
            then ebind (put_item (branchId, fst l) (it\<lparr>quantity_reserved := quantity_reserved it + snd l\<rparr>) db)
                   (\<lambda>db'. Inr (db', shortages))
            else Inr (db, shortages @ [(fst l, snd l, quantity_on_hand it - quantity_reserved it)])))"

definition new_hold :: "string \<Rightarrow> string \<Rightarrow> int \<Rightarrow> StockLine list \<Rightarrow> Hold" where
  "new_hold id' branchId expires ls =
     \<lparr>hd_id = id', hd_branch = branchId, hd_status = Held, hd_expires = expires, hd_items = ls\<rparr>"

text \<open>
  The row of a hold that was released or expired is deleted (its items with it) and inserted again. The result says
  whether a hold was created. \<open>ttl\<close> is the configured time to live, in the unit of the clock.
\<close>

definition reserve_fresh ::
    "StockDb \<Rightarrow> string \<Rightarrow> string \<Rightarrow> StockLine list \<Rightarrow> string \<Rightarrow> int \<Rightarrow> (StockDb \<times> bool) hold_result" where
  "reserve_fresh db orderId branchId lines newId expires =
     ebind (efold (hold_line branchId) lines (db, [])) (\<lambda>(db', shortages).
       if shortages \<noteq> [] then Inl (StockShortageError shortages)
       else Inr (db'\<lparr>reservations := map_set orderId (new_hold newId branchId expires lines) (reservations db')\<rparr>, True))"

definition reserveStock ::
    "StockDb \<Rightarrow> string \<Rightarrow> string \<Rightarrow> StockLine list \<Rightarrow> string \<Rightarrow> int \<Rightarrow> int \<Rightarrow> (StockDb \<times> bool) hold_result" where
  "reserveStock db orderId branchId lines newId now ttl =
     (let merged = mergeLines lines in
      case map_get (reservations db) orderId of
        None \<Rightarrow> reserve_fresh db orderId branchId merged newId (now + ttl)
      | Some existing \<Rightarrow>
          if hd_status existing = Held \<or> hd_status existing = Committed
          then (if hd_branch existing \<noteq> branchId \<or> \<not> sameLines (itemsOf existing) lines
                then Inl ReservationMismatchError
                else Inr (db, False))
          else reserve_fresh db orderId branchId merged newId (now + ttl))"

definition set_status :: "string \<Rightarrow> Hold \<Rightarrow> HoldStatus \<Rightarrow> StockDb \<Rightarrow> StockDb" where
  "set_status orderId row st db =
     db\<lparr>reservations := map_set orderId (row\<lparr>hd_status := st\<rparr>) (reservations db)\<rparr>"

text \<open>An \<^verbatim>\<open>UPDATE\<close> without a matching row changes nothing.\<close>

definition give_line :: "string \<Rightarrow> StockLine \<Rightarrow> StockDb \<Rightarrow> StockDb hold_result" where
  "give_line branchId l db =
     (case map_get (stock_items db) (branchId, fst l) of
        None \<Rightarrow> Inr db
      | Some it \<Rightarrow> put_item (branchId, fst l) (it\<lparr>quantity_reserved := quantity_reserved it - snd l\<rparr>) db)"

definition giveBack :: "StockDb \<Rightarrow> string \<Rightarrow> Hold \<Rightarrow> HoldStatus \<Rightarrow> StockDb hold_result" where
  "giveBack db orderId row st =
     ebind (efold (give_line (hd_branch row)) (itemsOf row) db) (\<lambda>db'. Inr (set_status orderId row st db'))"

definition releaseHold :: "StockDb \<Rightarrow> string \<Rightarrow> StockDb hold_result" where
  "releaseHold db orderId =
     (case map_get (reservations db) orderId of
        None \<Rightarrow> Inr db
      | Some row \<Rightarrow> if hd_status row \<noteq> Held then Inr db else giveBack db orderId row Released)"

section \<open>Completed orders\<close>

definition take_held :: "string \<Rightarrow> string \<Rightarrow> StockLine \<Rightarrow> StockDb \<Rightarrow> StockDb hold_result" where
  "take_held branchId orderId l db =
     (case map_get (stock_items db) (branchId, fst l) of
        None \<Rightarrow> Inl RowMissing
      | Some it \<Rightarrow>
          ebind (put_item (branchId, fst l) (it\<lparr>quantity_on_hand := quantity_on_hand it - snd l,
                   quantity_reserved := quantity_reserved it - snd l\<rparr>) db) (\<lambda>db'.
            Inr (ledger branchId (fst l) (- snd l) (quantity_on_hand it - snd l) ''sale'' orderId db')))"

text \<open>The hold is gone: at most the free stock is taken, and the gap is put on record.\<close>

definition take_late :: "string \<Rightarrow> string \<Rightarrow> StockLine \<Rightarrow> StockDb \<Rightarrow> StockDb hold_result" where
  "take_late branchId orderId l db =
     (let row = map_get (stock_items db) (branchId, fst l);
          free = (case row of None \<Rightarrow> 0 | Some it \<Rightarrow> quantity_on_hand it - quantity_reserved it);
          take' = min (snd l) (max 0 free);
          db1 = (if take' < snd l then ledger branchId (fst l) 0 free ''sale_shortfall'' orderId db else db) in
      if take' = 0 then Inr db1
      else (case row of
              None \<Rightarrow> Inl RowMissing
            | Some it \<Rightarrow>
                ebind (put_item (branchId, fst l) (it\<lparr>quantity_on_hand := quantity_on_hand it - take'\<rparr>) db1) (\<lambda>db'.
                  Inr (ledger branchId (fst l) (- take') (quantity_on_hand it - take') ''sale'' orderId db'))))"

definition commitOrder :: "StockDb \<Rightarrow> string \<Rightarrow> string \<Rightarrow> StockLine list \<Rightarrow> StockDb hold_result" where
  "commitOrder db orderId orderBranch orderItems =
     (case map_get (reservations db) orderId of
        None \<Rightarrow> efold (take_late orderBranch orderId) (mergeLines orderItems) db
      | Some row \<Rightarrow>
          if hd_status row = Committed then Inr db
          else ebind (if hd_status row = Held
                      then efold (take_held (hd_branch row) orderId) (itemsOf row) db
                      else efold (take_late (hd_branch row) orderId) (mergeLines orderItems) db) (\<lambda>db'.
                 Inr (set_status orderId row Committed db')))"

definition onCompleted :: "StockDb \<Rightarrow> string \<Rightarrow> string \<Rightarrow> StockLine list \<Rightarrow> StockDb hold_result" where
  "onCompleted db orderId orderBranch orderItems =
     (if orderId \<in> set (warehouse_orders db) then Inr db else commitOrder db orderId orderBranch orderItems)"

section \<open>Expiry\<close>

definition due :: "int \<Rightarrow> Hold \<Rightarrow> bool" where
  "due now h \<longleftrightarrow> hd_status h = Held \<and> hd_expires h < now"

text \<open>One transaction per hold; a hold that cannot be given back is logged and skipped.\<close>

definition expire_one :: "int \<Rightarrow> string \<Rightarrow> StockDb \<times> nat \<Rightarrow> StockDb \<times> nat" where
  "expire_one now orderId s =
     (case s of (db, n) \<Rightarrow>
       (case map_get (reservations db) orderId of
          None \<Rightarrow> (db, n)
        | Some row \<Rightarrow>
            if \<not> due now row then (db, n)
            else (case giveBack db orderId row Expired of Inl e \<Rightarrow> (db, n) | Inr db' \<Rightarrow> (db', n + 1))))"

text \<open>The job selects over all tenants up to a limit; \<open>limit\<close> is this tenant's share of the selection.\<close>

definition due_orders :: "StockDb \<Rightarrow> int \<Rightarrow> nat \<Rightarrow> string list" where
  "due_orders db now limit =
     take limit (map fst (js_sort (\<lambda>a b. hd_expires (snd a) - hd_expires (snd b))
       (filter (\<lambda>r. due now (snd r)) (reservations db))))"

definition expireDue :: "StockDb \<Rightarrow> int \<Rightarrow> nat \<Rightarrow> StockDb \<times> nat" where
  "expireDue db now limit = fold (expire_one now) (due_orders db now limit) (db, 0)"

section \<open>Merged lines\<close>

declare split_paired_All [simp del] split_paired_Ex [simp del]

definition line_ok :: "StockLine \<Rightarrow> bool" where
  "line_ok l \<longleftrightarrow> 1 \<le> snd l \<and> snd l \<le> 1000000"

definition pos_lines :: "StockLine list \<Rightarrow> bool" where
  "pos_lines ls \<longleftrightarrow> distinct (map fst ls) \<and> (\<forall>l \<in> set ls. 0 < snd l)"

lemma qty_of_map_set:
  "distinct (map fst m) \<Longrightarrow> qty_of (map_set s v m) k =
     (if k = s then v else qty_of m k)"
  by (induction m) (auto simp: qty_of_absent image_iff)

lemma qty_of_map_get: "distinct (map fst m) \<Longrightarrow> (case map_get m s of None \<Rightarrow> 0 | Some q \<Rightarrow> q) = qty_of m s"
  by (induction m) (auto simp: map_get_def qty_of_absent image_iff)

lemma add_qty_fold:
  assumes "distinct (map fst m)" "\<forall>l \<in> set m. 0 < snd l" "\<forall>l \<in> set ls. 0 < snd l"
  shows "distinct (map fst (fold add_qty ls m)) \<and> (\<forall>l \<in> set (fold add_qty ls m). 0 < snd l) \<and>
    qty_of (fold add_qty ls m) k = qty_of m k + qty_of ls k"
  using assms
proof (induction ls arbitrary: m)
  case (Cons l ls)
  have nn: "0 \<le> qty_of m (fst l)" using Cons.prems(2) by (intro qty_of_nonneg) auto
  have "\<forall>x \<in> set (add_qty l m). 0 < snd x"
  proof
    fix x
    assume "x \<in> set (add_qty l m)"
    then have "x \<in> set m \<or> x = (fst l, qty_of m (fst l) + snd l)"
      using Cons.prems(1) by (auto simp: add_qty_def qty_of_map_get set_map_set dest!: set_map_set [THEN subsetD])
    then show "0 < snd x" using Cons.prems(2,3) nn by auto
  qed
  moreover have "distinct (map fst (add_qty l m))" using Cons.prems(1) by (simp add: add_qty_def distinct_map_set)
  moreover have "qty_of (add_qty l m) k = qty_of m k + (if fst l = k then snd l else 0)"
    using Cons.prems(1) by (auto simp: add_qty_def qty_of_map_get qty_of_map_set)
  ultimately show ?case using Cons.IH [of "add_qty l m"] Cons.prems(3) by (cases l) simp
qed simp

lemma mergeLines_ok:
  assumes "\<forall>l \<in> set ls. 0 < snd l"
  shows "pos_lines (mergeLines ls)" "qty_of (mergeLines ls) k = qty_of ls k"
  using add_qty_fold [of "[]" ls] assms by (simp_all add: mergeLines_def pos_lines_def)

section \<open>What an operation moves\<close>

definition on_hand_of :: "StockDb \<Rightarrow> place demand" where
  "on_hand_of db k = (case map_get (stock_items db) k of None \<Rightarrow> 0 | Some it \<Rightarrow> quantity_on_hand it)"

definition reserved_of :: "StockDb \<Rightarrow> place demand" where
  "reserved_of db k = (case map_get (stock_items db) k of None \<Rightarrow> 0 | Some it \<Rightarrow> quantity_reserved it)"

definition ledger_of :: "StockDb \<Rightarrow> place demand" where
  "ledger_of db k = sum_list (map lr_change (filter (\<lambda>r. (lr_branch r, lr_sku r) = k) (inventory_ledger db)))"

definition items_ok :: "StockDb \<Rightarrow> bool" where
  "items_ok db \<longleftrightarrow> (\<forall>k it. map_get (stock_items db) k = Some it \<longrightarrow> item_check it)"

text \<open>On hand, reserved and ledger change by the given demands; the holds stay.\<close>

definition moved :: "StockDb \<Rightarrow> StockDb \<Rightarrow> place demand \<Rightarrow> place demand \<Rightarrow> place demand \<Rightarrow> bool" where
  "moved db db' dh dr dl \<longleftrightarrow> items_ok db' \<and> reservations db' = reservations db \<and>
     (\<forall>k. on_hand_of db' k = on_hand_of db k + dh k \<and> reserved_of db' k = reserved_of db k + dr k \<and>
        ledger_of db' k = ledger_of db k + dl k)"

lemma moved_trans:
  assumes "moved a b h r l" "moved b c h' r' l'"
  shows "moved a c (\<lambda>k. h k + h' k) (\<lambda>k. r k + r' k) (\<lambda>k. l k + l' k)"
  using assms by (simp add: moved_def)

lemma moved_refl: "items_ok db \<Longrightarrow> moved db db (\<lambda>_. 0) (\<lambda>_. 0) (\<lambda>_. 0)"
  by (simp add: moved_def)

lemma moved_cong: "moved a b h r l \<Longrightarrow> h = h' \<Longrightarrow> r = r' \<Longrightarrow> l = l' \<Longrightarrow> moved a b h' r' l'"
  by simp

lemma items_okD: "items_ok db \<Longrightarrow> 0 \<le> reserved_of db k \<and> reserved_of db k \<le> on_hand_of db k"
  by (auto simp: items_ok_def item_check_def reserved_of_def on_hand_of_def split: option.splits)

definition one :: "place \<Rightarrow> int \<Rightarrow> place demand" where
  "one k q = (\<lambda>k'. if k' = k then q else 0)"

lemma one_apply [simp]: "one k q k' = (if k' = k then q else 0)"
  by (simp add: one_def)

lemma moved_put:
  assumes "items_ok db" "item_check it"
  shows "moved db (db\<lparr>stock_items := map_set k it (stock_items db)\<rparr>) (one k (quantity_on_hand it - on_hand_of db k))
    (one k (quantity_reserved it - reserved_of db k)) (\<lambda>_. 0)"
  using assms by (auto simp: moved_def items_ok_def on_hand_of_def reserved_of_def ledger_of_def)

lemma moved_ledger:
  assumes "items_ok db"
  shows "moved db (ledger b s q bal t i db) (\<lambda>_. 0) (\<lambda>_. 0) (one (b, s) q)"
  using assms by (auto simp: moved_def items_ok_def on_hand_of_def reserved_of_def ledger_of_def ledger_def)

lemma at_place_Cons: "at_place b (l # ls) k = one (b, fst l) (snd l) k + at_place b ls k"
  by (cases l; cases k) (simp add: at_place_def)

lemma at_place_Nil [simp]: "at_place b [] k = 0"
  by (simp add: at_place_def)

lemma at_place_nonneg: "\<forall>l \<in> set ls. 0 < snd l \<Longrightarrow> 0 \<le> at_place b ls k"
  unfolding at_place_def by (auto intro!: qty_of_nonneg simp: less_imp_le)

lemma at_place_fresh: "pos_lines (l # ls) \<Longrightarrow> at_place b ls (b, fst l) = 0"
  by (auto simp: at_place_def pos_lines_def intro: qty_of_absent)

lemma pos_lines_Cons: "pos_lines (l # ls) \<Longrightarrow> 0 < snd l \<and> pos_lines ls"
  by (simp add: pos_lines_def)

lemma pos_lines_sort [simp]: "pos_lines (js_sort cmp ls) \<longleftrightarrow> pos_lines ls"
  by (simp add: pos_lines_def)

lemma at_place_itemsOf [simp]: "at_place b (itemsOf h) = at_place b (hd_items h)"
  by (simp add: at_place_def itemsOf_def fun_eq_iff)

definition free_of :: "StockDb \<Rightarrow> place demand" where
  "free_of db k = on_hand_of db k - reserved_of db k"

lemma item_at:
  assumes "items_ok db" "0 < on_hand_of db k"
  obtains it where "map_get (stock_items db) k = Some it" "quantity_on_hand it = on_hand_of db k"
    "quantity_reserved it = reserved_of db k" "item_check it"
  using assms by (cases "map_get (stock_items db) k") (auto simp: on_hand_of_def reserved_of_def items_ok_def)

text \<open>One line of each loop.\<close>

lemma hold_line_fits:
  assumes "items_ok db" "0 < snd l" "snd l \<le> free_of db (b, fst l)"
  shows "\<exists>db'. hold_line b l (db, sh) = Inr (db', sh) \<and> moved db db' (\<lambda>_. 0) (one (b, fst l) (snd l)) (\<lambda>_. 0)"
proof -
  have "0 < on_hand_of db (b, fst l)" using assms items_okD [of db "(b, fst l)"] by (simp add: free_of_def)
  then obtain it where it: "map_get (stock_items db) (b, fst l) = Some it" "quantity_on_hand it = on_hand_of db (b, fst l)"
    "quantity_reserved it = reserved_of db (b, fst l)" "item_check it" by (rule item_at [OF assms(1)])
  let ?it = "it\<lparr>quantity_reserved := quantity_reserved it + snd l\<rparr>"
  have ok: "item_check ?it" using it assms(2,3) by (simp add: item_check_def free_of_def)
  show ?thesis
    using moved_put [OF assms(1) ok, of "(b, fst l)"] it ok assms(3)
    by (auto simp: hold_line_def put_item_def free_of_def one_def elim!: moved_cong)
qed

lemma hold_line_short:
  assumes "0 < snd l" "free_of db (b, fst l) < snd l"
  shows "\<exists>f. hold_line b l (db, sh) = Inr (db, sh @ [(fst l, snd l, f)])"
  using assms by (auto simp: hold_line_def free_of_def on_hand_of_def reserved_of_def split: option.splits)

lemma give_line_ok:
  assumes "items_ok db" "0 < snd l" "snd l \<le> reserved_of db (b, fst l)"
  shows "\<exists>db'. give_line b l db = Inr db' \<and> moved db db' (\<lambda>_. 0) (one (b, fst l) (- snd l)) (\<lambda>_. 0)"
proof -
  have "0 < on_hand_of db (b, fst l)" using assms items_okD [of db "(b, fst l)"] by simp
  then obtain it where it: "map_get (stock_items db) (b, fst l) = Some it" "quantity_on_hand it = on_hand_of db (b, fst l)"
    "quantity_reserved it = reserved_of db (b, fst l)" "item_check it" by (rule item_at [OF assms(1)])
  let ?it = "it\<lparr>quantity_reserved := quantity_reserved it - snd l\<rparr>"
  have ok: "item_check ?it" using it assms(2,3) by (simp add: item_check_def)
  show ?thesis
    using moved_put [OF assms(1) ok, of "(b, fst l)"] it ok
    by (auto simp: give_line_def put_item_def one_def elim!: moved_cong)
qed

lemma moved_items_ok: "moved a b h r l \<Longrightarrow> items_ok b"
  by (simp add: moved_def)

lemma take_held_ok:
  assumes "items_ok db" "0 < snd l" "snd l \<le> reserved_of db (b, fst l)"
  shows "\<exists>db'. take_held b i l db = Inr db' \<and>
    moved db db' (one (b, fst l) (- snd l)) (one (b, fst l) (- snd l)) (one (b, fst l) (- snd l))"
proof -
  have "0 < on_hand_of db (b, fst l)" using assms items_okD [of db "(b, fst l)"] by simp
  then obtain it where it: "map_get (stock_items db) (b, fst l) = Some it" "quantity_on_hand it = on_hand_of db (b, fst l)"
    "quantity_reserved it = reserved_of db (b, fst l)" "item_check it" by (rule item_at [OF assms(1)])
  let ?it = "it\<lparr>quantity_on_hand := quantity_on_hand it - snd l, quantity_reserved := quantity_reserved it - snd l\<rparr>"
  have ok: "item_check ?it" using it assms(2,3) by (simp add: item_check_def)
  note put = moved_put [OF assms(1) ok, of "(b, fst l)"]
  show ?thesis
    using moved_trans [OF put moved_ledger [OF moved_items_ok [OF put]]] it ok
    by (auto simp: take_held_def put_item_def one_def elim!: moved_cong)
qed

lemma take_late_ok:
  assumes "items_ok db" "0 < snd l"
  shows "\<exists>db'. take_late b i l db = Inr db' \<and>
    (let t = one (b, fst l) (- min (snd l) (free_of db (b, fst l))) in moved db db' t (\<lambda>_. 0) t)"
proof -
  let ?k = "(b, fst l)"
  let ?f = "free_of db ?k"
  have nn: "0 \<le> ?f" using items_okD [OF assms(1), of ?k] by (simp add: free_of_def)
  define t where "t = min (snd l) (max 0 ?f)"
  define db1 where "db1 = (if t < snd l then ledger b (fst l) 0 ?f ''sale_shortfall'' i db else db)"
  have t: "t = min (snd l) ?f" "0 \<le> t" "t \<le> ?f" using nn assms(2) by (simp_all add: t_def)
  have free: "(case map_get (stock_items db) ?k of None \<Rightarrow> 0 | Some it \<Rightarrow> quantity_on_hand it - quantity_reserved it) = ?f"
    by (simp add: free_of_def on_hand_of_def reserved_of_def split: option.splits)
  have m1: "moved db db1 (\<lambda>_. 0) (\<lambda>_. 0) (\<lambda>_. 0)"
    using moved_ledger [OF assms(1), of b "fst l" 0] moved_refl [OF assms(1)] by (auto simp: db1_def one_def elim!: moved_cong)
  have run: "take_late b i l db = (if t = 0 then Inr db1 else case map_get (stock_items db) ?k of None \<Rightarrow> Inl RowMissing
      | Some it \<Rightarrow> ebind (put_item ?k (it\<lparr>quantity_on_hand := quantity_on_hand it - t\<rparr>) db1) (\<lambda>db'.
          Inr (ledger b (fst l) (- t) (quantity_on_hand it - t) ''sale'' i db')))"
    unfolding take_late_def Let_def free t_def [symmetric] db1_def [symmetric] ..
  show ?thesis
  proof (cases "t = 0")
    case True
    then show ?thesis using m1 by (auto simp: run one_def Let_def simp flip: t(1) elim!: moved_cong)
  next
    case False
    then have "0 < on_hand_of db ?k" using t items_okD [OF assms(1), of ?k] by (auto simp: free_of_def)
    then obtain it where it: "map_get (stock_items db) ?k = Some it" "quantity_on_hand it = on_hand_of db ?k"
      "quantity_reserved it = reserved_of db ?k" "item_check it" by (rule item_at [OF assms(1)])
    have ok: "item_check (it\<lparr>quantity_on_hand := quantity_on_hand it - t\<rparr>)"
      using it t(2,3) by (simp add: item_check_def free_of_def)
    note put = moved_put [OF moved_items_ok [OF m1] ok, of ?k]
    have same: "on_hand_of db1 ?k = on_hand_of db ?k" "reserved_of db1 ?k = reserved_of db ?k" using m1 by (simp_all add: moved_def)
    note mv = moved_trans [OF moved_trans [OF m1 put] moved_ledger [OF moved_items_ok [OF put]]]
    show ?thesis
      using mv [of b "fst l" "- t"] it same False ok
      by (auto simp: run put_item_def one_def Let_def simp flip: t(1) elim!: moved_cong)
  qed
qed

lemma receive_line_ok:
  assumes "items_ok db" "receive_line b i l db = Inr db'"
  shows "moved db db' (one (b, fst l) (snd l)) (\<lambda>_. 0) (one (b, fst l) (snd l))"
proof -
  obtain it where it: "item_check it" "quantity_on_hand it = on_hand_of db (b, fst l) + snd l"
    "quantity_reserved it = reserved_of db (b, fst l)"
    "db' = ledger b (fst l) (snd l) (quantity_on_hand it) ''receipt'' i (db\<lparr>stock_items := map_set (b, fst l) it (stock_items db)\<rparr>)"
    using assms(2) by (auto simp: receive_line_def Let_def ok_simps put_item_def on_hand_of_def reserved_of_def
        split: option.splits if_splits)
  note put = moved_put [OF assms(1) it(1), of "(b, fst l)"]
  show ?thesis
    using moved_trans [OF put moved_ledger [OF moved_items_ok [OF put]]] it
    by (auto simp: one_def elim!: moved_cong)
qed

text \<open>The loops over lines with distinct SKUs and positive quantities.\<close>

lemma moved_at:
  assumes "moved a b h r l"
  shows "on_hand_of b k = on_hand_of a k + h k" "reserved_of b k = reserved_of a k + r k"
    "free_of b k = free_of a k + h k - r k"
  using assms by (simp_all add: moved_def free_of_def)

lemma hold_loop_fits:
  assumes "items_ok db" "pos_lines ls" "\<forall>l \<in> set ls. snd l \<le> free_of db (b, fst l)"
  shows "\<exists>db'. efold (hold_line b) ls (db, sh) = Inr (db', sh) \<and> moved db db' (\<lambda>_. 0) (at_place b ls) (\<lambda>_. 0)"
  using assms
proof (induction ls arbitrary: db)
  case Nil
  then show ?case using moved_refl by (auto elim!: moved_cong)
next
  case (Cons l ls)
  obtain db1 where s1: "hold_line b l (db, sh) = Inr (db1, sh)" "moved db db1 (\<lambda>_. 0) (one (b, fst l) (snd l)) (\<lambda>_. 0)"
    using hold_line_fits [OF Cons.prems(1), of l b sh] Cons.prems(2,3) pos_lines_Cons by auto
  have "\<forall>x \<in> set ls. fst x \<noteq> fst l" using Cons.prems(2) by (auto simp: pos_lines_def image_iff)
  then have "\<forall>x \<in> set ls. snd x \<le> free_of db1 (b, fst x)" using Cons.prems(3) by (auto simp: moved_at [OF s1(2)])
  then obtain db2 where s2: "efold (hold_line b) ls (db1, sh) = Inr (db2, sh)" "moved db1 db2 (\<lambda>_. 0) (at_place b ls) (\<lambda>_. 0)"
    using Cons.IH [OF moved_items_ok [OF s1(2)]] pos_lines_Cons [OF Cons.prems(2)] by blast
  show ?case
    using s1(1) s2(1) moved_trans [OF s1(2) s2(2)] by (auto simp: at_place_Cons fun_eq_iff elim!: moved_cong)
qed

lemma hold_loop_short:
  assumes "items_ok db" "pos_lines ls" "sh \<noteq> [] \<or> (\<exists>l \<in> set ls. free_of db (b, fst l) < snd l)"
  shows "\<exists>db' sh'. efold (hold_line b) ls (db, sh) = Inr (db', sh') \<and> sh' \<noteq> []"
  using assms
proof (induction ls arbitrary: db sh)
  case (Cons l ls)
  note pos = pos_lines_Cons [OF Cons.prems(2)]
  show ?case
  proof (cases "snd l \<le> free_of db (b, fst l)")
    case True
    then obtain db1 where s1: "hold_line b l (db, sh) = Inr (db1, sh)" "moved db db1 (\<lambda>_. 0) (one (b, fst l) (snd l)) (\<lambda>_. 0)"
      using hold_line_fits [OF Cons.prems(1), of l b sh] pos by auto
    have "\<forall>x \<in> set ls. fst x \<noteq> fst l" using Cons.prems(2) by (auto simp: pos_lines_def image_iff)
    then have "sh \<noteq> [] \<or> (\<exists>x \<in> set ls. free_of db1 (b, fst x) < snd x)"
      using Cons.prems(3) True by (auto simp: moved_at [OF s1(2)])
    then show ?thesis using Cons.IH [OF moved_items_ok [OF s1(2)]] pos s1(1) by simp
  next
    case False
    then obtain f where "hold_line b l (db, sh) = Inr (db, sh @ [(fst l, snd l, f)])"
      using hold_line_short [of l db b sh] pos by auto
    then show ?thesis using Cons.IH [OF Cons.prems(1), of "sh @ [(fst l, snd l, f)]"] pos by simp
  qed
qed auto

text \<open>The two loops that use up reserved quantities share one argument.\<close>

lemma reserved_loop:
  assumes step: "\<And>db l. items_ok db \<Longrightarrow> 0 < snd l \<Longrightarrow> snd l \<le> reserved_of db (b, fst l) \<Longrightarrow>
      \<exists>db'. f l db = Inr db' \<and> moved db db' (one (b, fst l) (c * snd l)) (one (b, fst l) (- snd l)) (one (b, fst l) (c * snd l))"
    and "items_ok db" "pos_lines ls" "\<forall>k. at_place b ls k \<le> reserved_of db k"
  shows "\<exists>db'. efold f ls db = Inr db' \<and>
    moved db db' (\<lambda>k. c * at_place b ls k) (\<lambda>k. - at_place b ls k) (\<lambda>k. c * at_place b ls k)"
  using assms(2-)
proof (induction ls arbitrary: db)
  case Nil
  then show ?case using moved_refl by (auto elim!: moved_cong)
next
  case (Cons l ls)
  note pos = pos_lines_Cons [OF Cons.prems(2)]
  have "at_place b (l # ls) (b, fst l) = snd l" using at_place_fresh [OF Cons.prems(2)] by (simp add: at_place_Cons)
  then have "snd l \<le> reserved_of db (b, fst l)" using Cons.prems(3) by metis
  then obtain db1 where s1: "f l db = Inr db1"
    "moved db db1 (one (b, fst l) (c * snd l)) (one (b, fst l) (- snd l)) (one (b, fst l) (c * snd l))"
    using step [OF Cons.prems(1), of l] pos by auto
  have "\<forall>k. at_place b ls k \<le> reserved_of db1 k"
  proof
    fix k
    have "at_place b (l # ls) k \<le> reserved_of db k" using Cons.prems(3) by blast
    then show "at_place b ls k \<le> reserved_of db1 k" by (simp add: at_place_Cons moved_at [OF s1(2)] split: if_splits)
  qed
  then obtain db2 where s2: "efold f ls db1 = Inr db2"
    "moved db1 db2 (\<lambda>k. c * at_place b ls k) (\<lambda>k. - at_place b ls k) (\<lambda>k. c * at_place b ls k)"
    using Cons.IH [OF moved_items_ok [OF s1(2)]] pos by blast
  show ?case
    using s1(1) s2(1) moved_trans [OF s1(2) s2(2)]
    by (auto simp: at_place_Cons fun_eq_iff algebra_simps elim!: moved_cong)
qed

lemma give_loop:
  assumes "items_ok db" "pos_lines ls" "\<forall>k. at_place b ls k \<le> reserved_of db k"
  shows "\<exists>db'. efold (give_line b) ls db = Inr db' \<and> moved db db' (\<lambda>_. 0) (\<lambda>k. - at_place b ls k) (\<lambda>_. 0)"
proof -
  have "\<exists>db'. efold (give_line b) ls db = Inr db' \<and>
      moved db db' (\<lambda>k. 0 * at_place b ls k) (\<lambda>k. - at_place b ls k) (\<lambda>k. 0 * at_place b ls k)"
    by (rule reserved_loop [OF _ assms]) (use give_line_ok in \<open>simp add: one_def\<close>)
  then show ?thesis by simp
qed

lemma held_loop:
  assumes "items_ok db" "pos_lines ls" "\<forall>k. at_place b ls k \<le> reserved_of db k"
  shows "\<exists>db'. efold (take_held b i) ls db = Inr db' \<and>
    moved db db' (\<lambda>k. - at_place b ls k) (\<lambda>k. - at_place b ls k) (\<lambda>k. - at_place b ls k)"
proof -
  have "\<exists>db'. efold (take_held b i) ls db = Inr db' \<and>
      moved db db' (\<lambda>k. - 1 * at_place b ls k) (\<lambda>k. - at_place b ls k) (\<lambda>k. - 1 * at_place b ls k)"
    by (rule reserved_loop [OF _ assms]) (use take_held_ok in \<open>simp add: one_def\<close>)
  then show ?thesis by simp
qed

lemma late_loop:
  assumes "items_ok db" "pos_lines ls"
  shows "\<exists>db'. efold (take_late b i) ls db = Inr db' \<and>
    (let t = (\<lambda>k. - min (at_place b ls k) (free_of db k)) in moved db db' t (\<lambda>_. 0) t)"
  using assms
proof (induction ls arbitrary: db)
  case Nil
  have "min 0 (free_of db k) = 0" for k using items_okD [OF Nil.prems(1), of k] by (simp add: free_of_def)
  then show ?case using moved_refl [OF Nil.prems(1)] by (auto simp: Let_def elim!: moved_cong)
next
  case (Cons l ls)
  note pos = pos_lines_Cons [OF Cons.prems(2)]
  let ?k = "(b, fst l)"
  let ?t = "one ?k (- min (snd l) (free_of db ?k))"
  obtain db1 where s1: "take_late b i l db = Inr db1" "moved db db1 ?t (\<lambda>_. 0) ?t"
    using take_late_ok [OF Cons.prems(1), of l b i] pos by (auto simp: Let_def)
  let ?u = "\<lambda>k. - min (at_place b ls k) (free_of db1 k)"
  obtain db2 where s2: "efold (take_late b i) ls db1 = Inr db2" "moved db1 db2 ?u (\<lambda>_. 0) ?u"
    using Cons.IH [OF moved_items_ok [OF s1(2)]] pos by (auto simp: Let_def)
  have nn: "0 \<le> free_of db1 k" for k using items_okD [OF moved_items_ok [OF s1(2)], of k] by (simp add: free_of_def)
  have "?t k + ?u k = - min (at_place b (l # ls) k) (free_of db k)" for k
    using at_place_fresh [OF Cons.prems(2), of b] nn [of k] pos
    by (auto simp: at_place_Cons moved_at [OF s1(2)])
  then show ?case using s1(1) s2(1) moved_trans [OF s1(2) s2(2)] by (auto simp: Let_def elim!: moved_cong)
qed

lemma receive_loop:
  assumes "items_ok db" "efold (receive_line b i) ls db = Inr db'"
  shows "moved db db' (at_place b ls) (\<lambda>_. 0) (at_place b ls)"
  using assms
proof (induction ls arbitrary: db)
  case Nil
  then show ?case using moved_refl [of db] by (auto elim!: moved_cong)
next
  case (Cons l ls)
  obtain db1 where s1: "receive_line b i l db = Inr db1" "efold (receive_line b i) ls db1 = Inr db'"
    using Cons.prems(2) by (auto simp: ok_simps)
  note m = receive_line_ok [OF Cons.prems(1) s1(1)]
  show ?case
    using moved_trans [OF m Cons.IH [OF moved_items_ok [OF m] s1(2)]]
    by (auto simp: at_place_Cons fun_eq_iff elim!: moved_cong)
qed

section \<open>The invariant and the specification\<close>

definition hold_demand :: "Hold \<Rightarrow> place demand option" where
  "hold_demand h = (if hd_status h = Held then Some (at_place (hd_branch h) (hd_items h)) else None)"

definition held_sum :: "StockDb \<Rightarrow> place demand" where
  "held_sum db k = map_sum (held_by hold_demand k) (reservations db)"

definition abs_store :: "StockDb \<Rightarrow> place HoldSpec" where
  "abs_store db = \<lparr>sp_stock = on_hand_of db, sp_open = open_holds hold_demand (reservations db)\<rparr>"

definition store_ok :: "StockDb \<Rightarrow> bool" where
  "store_ok db \<longleftrightarrow> items_ok db \<and> distinct (map fst (reservations db)) \<and>
     (\<forall>r \<in> set (reservations db). pos_lines (hd_items (snd r))) \<and>
     (\<forall>k. reserved_of db k = held_sum db k) \<and> (\<forall>k. on_hand_of db k = ledger_of db k)"

lemma store_okD:
  assumes "store_ok db"
  shows "items_ok db" "distinct (map fst (reservations db))" "reserved_of db k = held_sum db k" "on_hand_of db k = ledger_of db k"
    "map_get (reservations db) i = Some h \<Longrightarrow> pos_lines (hd_items h)"
  using assms by (auto simp: store_ok_def dest!: map_get_in_set bspec)

interpretation order_store: hold_store on_hand_of reserved_of reservations hold_demand store_ok
proof
  fix db k i h d
  assume ok: "store_ok db"
  show "distinct (map fst (reservations db))" using ok by (rule store_okD)
  show "reserved_of db k = map_sum (held_by hold_demand k) (reservations db)"
    using store_okD(3) [OF ok] by (simp add: held_sum_def)
  show "reserved_of db k \<le> on_hand_of db k" using items_okD [OF store_okD(1) [OF ok]] by blast
  show "0 \<le> d k" if "(i, h) \<in> set (reservations db)" "hold_demand h = Some d" for d
  proof -
    have "pos_lines (hd_items h)" using ok that(1) by (fastforce simp: store_ok_def)
    then show ?thesis using that(2) by (auto simp: hold_demand_def pos_lines_def at_place_nonneg split: if_splits)
  qed
qed

lemma free_spec: "store_ok db \<Longrightarrow> sp_free (abs_store db) k = free_of db k"
  by (simp add: abs_store_def free_of_def order_store.free_stock)

lemma hold_covered:
  assumes "store_ok db" "map_get (reservations db) i = Some h" "hd_status h = Held"
  shows "at_place (hd_branch h) (hd_items h) k \<le> reserved_of db k"
  using order_store.open_covered [OF assms(1,2)] assms(3) by (simp add: hold_demand_def)

text \<open>Storing a hold row after a move keeps the invariant when reserved and held change alike.\<close>

lemma store_ok_put:
  assumes "store_ok db" "moved db db' h r l" "pos_lines (hd_items row)"
    and "\<And>k. h k = l k" and "\<And>k. r k = held_by hold_demand k row - (case open_holds hold_demand (reservations db) i of None \<Rightarrow> 0 | Some d \<Rightarrow> d k)"
  shows "store_ok (db'\<lparr>reservations := map_set i row (reservations db')\<rparr>)"
    and "abs_store (db'\<lparr>reservations := map_set i row (reservations db')\<rparr>) =
      \<lparr>sp_stock = (\<lambda>k. on_hand_of db k + h k), sp_open = (open_holds hold_demand (reservations db))(i := hold_demand row)\<rparr>"
proof -
  let ?e = "db'\<lparr>reservations := map_set i row (reservations db')\<rparr>"
  have same: "on_hand_of ?e = on_hand_of db'" "reserved_of ?e = reserved_of db'" "ledger_of ?e = ledger_of db'" "items_ok ?e = items_ok db'"
    by (simp_all add: on_hand_of_def reserved_of_def ledger_of_def items_ok_def fun_eq_iff)
  have m: "items_ok db'" "reservations db' = reservations db"
    "\<And>k. on_hand_of db' k = on_hand_of db k + h k" "\<And>k. reserved_of db' k = reserved_of db k + r k"
    "\<And>k. ledger_of db' k = ledger_of db k + l k" using assms(2) by (simp_all add: moved_def)
  have rows: "\<forall>r \<in> set (map_set i row (reservations db)). pos_lines (hd_items (snd r))"
    using assms(1,3) set_map_set [of i row "reservations db"] by (auto simp: store_ok_def)
  have "held_sum ?e k = held_sum db k + r k" for k
    by (simp add: held_sum_def m(2) map_sum_held_set assms(5))
  then show "store_ok ?e"
    unfolding store_ok_def same using m rows assms(4) store_okD(2-4) [OF assms(1)]
    by (simp add: distinct_map_set)
  show "abs_store ?e = \<lparr>sp_stock = (\<lambda>k. on_hand_of db k + h k), sp_open = (open_holds hold_demand (reservations db))(i := hold_demand row)\<rparr>"
    unfolding abs_store_def same by (simp add: m(2,3) open_holds_set fun_eq_iff)
qed

lemma store_ok_moved:
  assumes "store_ok db" "moved db db' h (\<lambda>_. 0) h"
  shows "store_ok db'" "abs_store db' = (abs_store db)\<lparr>sp_stock := (\<lambda>k. on_hand_of db k + h k)\<rparr>"
  using assms by (auto simp: store_ok_def moved_def held_sum_def abs_store_def fun_eq_iff)

section \<open>Every operation implements the specification\<close>

lemma reserve_fresh_fits:
  assumes "store_ok db" "open_holds hold_demand (reservations db) i = None" "pos_lines ls"
    and "\<forall>l \<in> set ls. snd l \<le> free_of db (b, fst l)"
  shows "\<exists>db'. reserve_fresh db i b ls n e = Inr (db', True) \<and> store_ok db' \<and>
    abs_store db' = (abs_store db)\<lparr>sp_open := (sp_open (abs_store db))(i \<mapsto> at_place b ls)\<rparr>"
proof -
  obtain db1 where d: "efold (hold_line b) ls (db, []) = Inr (db1, [])" "moved db db1 (\<lambda>_. 0) (at_place b ls) (\<lambda>_. 0)"
    using hold_loop_fits [OF store_okD(1) [OF assms(1)] assms(3,4)] by blast
  have row: "hold_demand (new_hold n b e ls) = Some (at_place b ls)" "hd_items (new_hold n b e ls) = ls"
    by (simp_all add: hold_demand_def new_hold_def)
  note put = store_ok_put [OF assms(1) d(2), of "new_hold n b e ls" i]
  show ?thesis
    using d(1) put assms(2,3) row by (simp add: reserve_fresh_def held_by_def abs_store_def)
qed

lemma reserve_fresh_short:
  assumes "store_ok db" "pos_lines ls" "\<exists>l \<in> set ls. free_of db (b, fst l) < snd l"
  shows "\<exists>sh. reserve_fresh db i b ls n e = Inl (StockShortageError sh)"
  using hold_loop_short [OF store_okD(1) [OF assms(1)] assms(2), of "[]" b] assms(3)
  by (auto simp: reserve_fresh_def)

lemma giveBack_ok:
  assumes "store_ok db" "map_get (reservations db) i = Some row" "hd_status row = Held" "st \<noteq> Held"
  shows "\<exists>db'. giveBack db i row st = Inr db' \<and> store_ok db' \<and>
    abs_store db' = (abs_store db)\<lparr>sp_open := (sp_open (abs_store db))(i := None)\<rparr> \<and>
    reservations db' = map_set i (row\<lparr>hd_status := st\<rparr>) (reservations db)"
proof -
  let ?b = "hd_branch row"
  have pl: "pos_lines (hd_items row)" by (rule store_okD(5) [OF assms(1,2)])
  obtain db1 where d: "efold (give_line ?b) (itemsOf row) db = Inr db1"
    "moved db db1 (\<lambda>_. 0) (\<lambda>k. - at_place ?b (itemsOf row) k) (\<lambda>_. 0)"
    using give_loop [OF store_okD(1) [OF assms(1)], of "itemsOf row" ?b] hold_covered [OF assms(1-3)] pl
    by (auto simp: itemsOf_def at_place_itemsOf [unfolded itemsOf_def])
  note put = store_ok_put [OF assms(1) d(2), of "row\<lparr>hd_status := st\<rparr>" i]
  have "open_holds hold_demand (reservations db) i = Some (at_place ?b (hd_items row))"
    using assms(2,3) by (simp add: open_holds_def hold_demand_def)
  then show ?thesis
    using d put pl assms(4)
    by (simp add: giveBack_def set_status_def held_by_def hold_demand_def abs_store_def) (simp add: moved_def)
qed

lemma commit_held_ok:
  assumes "store_ok db" "map_get (reservations db) i = Some row" "hd_status row = Held"
  shows "\<exists>db'. commitOrder db i b its = Inr db' \<and> store_ok db' \<and>
    abs_store db' = (abs_store db)\<lparr>sp_stock := (\<lambda>k. sp_stock (abs_store db) k - at_place (hd_branch row) (hd_items row) k),
      sp_open := (sp_open (abs_store db))(i := None)\<rparr>"
proof -
  let ?b = "hd_branch row"
  have pl: "pos_lines (hd_items row)" by (rule store_okD(5) [OF assms(1,2)])
  obtain db1 where d: "efold (take_held ?b i) (itemsOf row) db = Inr db1"
    "moved db db1 (\<lambda>k. - at_place ?b (itemsOf row) k) (\<lambda>k. - at_place ?b (itemsOf row) k) (\<lambda>k. - at_place ?b (itemsOf row) k)"
    using held_loop [OF store_okD(1) [OF assms(1)], of "itemsOf row" ?b i] hold_covered [OF assms(1-3)] pl
    by (auto simp: itemsOf_def at_place_itemsOf [unfolded itemsOf_def])
  note put = store_ok_put [OF assms(1) d(2), of "row\<lparr>hd_status := Committed\<rparr>" i]
  have "open_holds hold_demand (reservations db) i = Some (at_place ?b (hd_items row))"
    using assms(2,3) by (simp add: open_holds_def hold_demand_def)
  then show ?thesis
    using d(1) put pl assms(2,3)
    by (simp add: commitOrder_def set_status_def held_by_def hold_demand_def abs_store_def)
qed

lemma late_take:
  assumes "store_ok db" "\<forall>l \<in> set its. 0 < snd l"
  shows "\<exists>db' d. efold (take_late b i) (mergeLines its) db = Inr db' \<and> moved db db' (\<lambda>k. - d k) (\<lambda>_. 0) (\<lambda>k. - d k) \<and>
    (\<forall>k. 0 \<le> d k \<and> d k \<le> sp_free (abs_store db) k)"
proof -
  have at: "at_place b (mergeLines its) = at_place b its" using mergeLines_ok(2) [OF assms(2)] by (simp add: at_place_def fun_eq_iff)
  let ?d = "\<lambda>k. min (at_place b its k) (free_of db k)"
  have d: "0 \<le> ?d k \<and> ?d k \<le> sp_free (abs_store db) k" for k
    using at_place_nonneg [OF assms(2)] items_okD [OF store_okD(1) [OF assms(1)], of k] free_spec [OF assms(1), of k]
    by (simp add: free_of_def)
  obtain db' where "efold (take_late b i) (mergeLines its) db = Inr db'" "moved db db' (\<lambda>k. - ?d k) (\<lambda>_. 0) (\<lambda>k. - ?d k)"
    using late_loop [OF store_okD(1) [OF assms(1)] mergeLines_ok(1) [OF assms(2)], of b i] by (auto simp: Let_def at)
  then show ?thesis using d by (intro exI [of _ db'] exI [of _ ?d]) blast
qed

lemma expire_loop:
  assumes "store_ok db" "distinct is" "\<forall>i \<in> set is. \<exists>row. map_get (reservations db) i = Some row \<and> due now row"
  shows "\<exists>db'. fold (expire_one now) is (db, n) = (db', n + length is) \<and> store_ok db' \<and>
    spec_reach (abs_store db) (abs_store db') \<and>
    (\<forall>i. map_get (reservations db') i = (if i \<in> set is then map_option (\<lambda>h. h\<lparr>hd_status := Expired\<rparr>) (map_get (reservations db) i)
       else map_get (reservations db) i))"
  using assms
proof (induction "is" arbitrary: db n)
  case Nil
  then show ?case by (auto intro: spec_start)
next
  case (Cons i "is")
  obtain row where row: "map_get (reservations db) i = Some row" "hd_status row = Held" "due now row"
    using Cons.prems(3) by (auto simp: due_def)
  obtain db1 where d: "giveBack db i row Expired = Inr db1" "store_ok db1"
    "abs_store db1 = (abs_store db)\<lparr>sp_open := (sp_open (abs_store db))(i := None)\<rparr>"
    "reservations db1 = map_set i (row\<lparr>hd_status := Expired\<rparr>) (reservations db)"
    using giveBack_ok [OF Cons.prems(1) row(1,2), of Expired] by auto
  have "\<forall>j \<in> set is. \<exists>row. map_get (reservations db1) j = Some row \<and> due now row"
    using Cons.prems(2,3) by (auto simp: d(4))
  then obtain db2 where e: "fold (expire_one now) is (db1, n + 1) = (db2, n + 1 + length is)" "store_ok db2"
    "spec_reach (abs_store db1) (abs_store db2)"
    "\<forall>j. map_get (reservations db2) j = (if j \<in> set is then map_option (\<lambda>h. h\<lparr>hd_status := Expired\<rparr>) (map_get (reservations db1) j)
       else map_get (reservations db1) j)"
    using Cons.IH [OF d(2)] Cons.prems(2) by (meson distinct.simps(2))
  have "sp_open (abs_store db) i = Some (at_place (hd_branch row) (hd_items row))"
    using row by (simp add: abs_store_def open_holds_def hold_demand_def)
  then have "spec_step (abs_store db) (abs_store db1)" unfolding d(3) by (rule drop_hold)
  then have "spec_reach (abs_store db) (abs_store db2)" using e(3) by (rule spec_reach_step)
  moreover have "fold (expire_one now) (i # is) (db, n) = (db2, n + length (i # is))"
    using row(1,3) d(1) e(1) by (simp add: expire_one_def)
  ultimately show ?case using e(2,4) Cons.prems(2) row(1) by (auto simp: d(4))
qed

lemma due_orders_due:
  assumes "store_ok db" "i \<in> set (due_orders db now n)"
  shows "\<exists>row. map_get (reservations db) i = Some row \<and> due now row"
  using assms(2) map_get_eq_Some [OF store_okD(2) [OF assms(1)]] by (fastforce simp: due_orders_def dest!: in_set_takeD)

lemma due_orders_distinct: "store_ok db \<Longrightarrow> distinct (due_orders db now n)"
  using store_okD(2) [of db] distinct_map_filter [of fst "reservations db"]
  by (simp add: due_orders_def distinct_take)

lemma expireDue_ok:
  assumes "store_ok db"
  shows "\<exists>db'. expireDue db now n = (db', length (due_orders db now n)) \<and> store_ok db' \<and> spec_reach (abs_store db) (abs_store db') \<and>
    (\<forall>i. map_get (reservations db') i = (if i \<in> set (due_orders db now n)
       then map_option (\<lambda>h. h\<lparr>hd_status := Expired\<rparr>) (map_get (reservations db) i) else map_get (reservations db) i))"
  using expire_loop [OF assms due_orders_distinct [OF assms], of now n now 0] due_orders_due [OF assms, of _ now n]
  by (simp add: expireDue_def)

section \<open>Runs of the store\<close>

text \<open>Each rule is one transaction; the request classes admit only \<open>line_ok\<close> lines. Other services write the last two tables.\<close>

inductive stock_move :: "StockDb \<Rightarrow> StockDb \<Rightarrow> bool" where
  mv_receive: "receiveStock db b ls r = Inr db' \<Longrightarrow> list_all line_ok ls \<Longrightarrow> stock_move db db'"
| mv_reserve: "reserveStock db i b ls n now ttl = Inr (db', c) \<Longrightarrow> list_all line_ok ls \<Longrightarrow> stock_move db db'"
| mv_release: "releaseHold db i = Inr db' \<Longrightarrow> stock_move db db'"
| mv_complete: "onCompleted db i b ls = Inr db' \<Longrightarrow> list_all line_ok ls \<Longrightarrow> stock_move db db'"
| mv_expire: "expireDue db now n = (db', c) \<Longrightarrow> stock_move db db'"
| mv_other: "stock_move db (db\<lparr>branch_active := bs, warehouse_orders := os\<rparr>)"

definition empty_store :: StockDb where
  "empty_store = \<lparr>stock_items = [], reservations = [], inventory_ledger = [], branch_active = [], warehouse_orders = []\<rparr>"

inductive stock_reach :: "StockDb \<Rightarrow> bool" where
  reach_empty: "stock_reach empty_store"
| reach_move: "stock_reach db \<Longrightarrow> stock_move db db' \<Longrightarrow> stock_reach db'"

lemma line_ok_pos: "list_all line_ok ls \<Longrightarrow> \<forall>l \<in> set ls. 0 < snd l"
  by (auto simp: list_all_iff line_ok_def dest!: bspec)

lemma at_place_merge: "\<forall>l \<in> set ls. 0 < snd l \<Longrightarrow> at_place b (mergeLines ls) = at_place b ls"
  using mergeLines_ok(2) by (simp add: at_place_def fun_eq_iff)

lemma fits_iff:
  assumes "pos_lines ls" "\<And>k. 0 \<le> f k"
  shows "(\<forall>l \<in> set ls. snd l \<le> f (b, fst l)) \<longleftrightarrow> (\<forall>k. at_place b ls k \<le> f k)"
proof -
  have at: "at_place b ls (b, fst l) = snd l" if "l \<in> set ls" for l
    using assms(1) that qty_of_distinct [of ls "fst l" "snd l"] by (simp add: at_place_def pos_lines_def)
  have "at_place b ls k \<le> f k" if h: "\<forall>l \<in> set ls. snd l \<le> f (b, fst l)" for k
  proof (cases "fst k = b \<and> snd k \<in> fst ` set ls")
    case True
    then obtain l where "l \<in> set ls" "k = (b, fst l)" by (cases k) auto
    then show ?thesis using at h by simp
  next
    case False
    then have "at_place b ls k = 0" by (auto simp: at_place_def qty_of_absent)
    then show ?thesis using assms(2) by simp
  qed
  then show ?thesis using at by metis
qed

lemma open_none_iff:
  "open_holds hold_demand (reservations db) i = None \<longleftrightarrow>
     (\<forall>h. map_get (reservations db) i = Some h \<longrightarrow> hd_status h \<noteq> Held)"
  by (auto simp: open_holds_def hold_demand_def split: option.splits)

text \<open>A hold is tried afresh when the order has none, or one that was released or expired.\<close>

definition no_hold :: "StockDb \<Rightarrow> string \<Rightarrow> bool" where
  "no_hold db i \<longleftrightarrow> (\<forall>h. map_get (reservations db) i = Some h \<longrightarrow> hd_status h \<noteq> Held \<and> hd_status h \<noteq> Committed)"

lemma reserve_new: "no_hold db i \<Longrightarrow> reserveStock db i b ls n now ttl = reserve_fresh db i b (mergeLines ls) n (now + ttl)"
  by (auto simp: reserveStock_def no_hold_def Let_def split: option.splits)

lemma reserve_outcome:
  assumes "store_ok db" "list_all line_ok ls" "no_hold db i"
  shows "if \<forall>k. at_place b ls k \<le> free_of db k
    then \<exists>db'. reserveStock db i b ls n now ttl = Inr (db', True) \<and> store_ok db' \<and>
      abs_store db' = (abs_store db)\<lparr>sp_open := (sp_open (abs_store db))(i \<mapsto> at_place b ls)\<rparr>
    else \<exists>sh. reserveStock db i b ls n now ttl = Inl (StockShortageError sh)"
proof -
  note pos = line_ok_pos [OF assms(2)]
  note m = mergeLines_ok(1) [OF pos]
  have nn: "0 \<le> free_of db k" for k using items_okD [OF store_okD(1) [OF assms(1)], of k] by (simp add: free_of_def)
  have op: "open_holds hold_demand (reservations db) i = None" using assms(3) by (simp add: open_none_iff no_hold_def)
  have iff: "(\<forall>l \<in> set (mergeLines ls). snd l \<le> free_of db (b, fst l)) \<longleftrightarrow> (\<forall>k. at_place b ls k \<le> free_of db k)"
    using fits_iff [OF m, of "free_of db" b] nn by (simp add: at_place_merge [OF pos])
  show ?thesis
  proof (cases "\<forall>k. at_place b ls k \<le> free_of db k")
    case True
    then show ?thesis
      using reserve_fresh_fits [OF assms(1) op m, of b n "now + ttl"] iff
      by (simp add: reserve_new [OF assms(3)] at_place_merge [OF pos])
  next
    case False
    then have "\<exists>l \<in> set (mergeLines ls). free_of db (b, fst l) < snd l" using iff by (meson not_le)
    then show ?thesis unfolding if_not_P [OF False] reserve_new [OF assms(3)] by (rule reserve_fresh_short [OF assms(1) m])
  qed
qed

text \<open>One step of the specification is a run of it.\<close>

lemma refines_step: "store_ok db' \<Longrightarrow> spec_step (abs_store db) (abs_store db') \<Longrightarrow> store_ok db' \<and> spec_reach (abs_store db) (abs_store db')"
  using spec_reach_step spec_start by blast

lemma open_row: "map_get (reservations db) i = Some row \<Longrightarrow> hd_status row = Held \<Longrightarrow>
    sp_open (abs_store db) i = Some (at_place (hd_branch row) (hd_items row))"
  by (simp add: abs_store_def open_holds_def hold_demand_def)

lemma commit_gone_refines:
  assumes "store_ok db" "commitOrder db i b its = Inr db'" "\<forall>l \<in> set its. 0 < snd l"
    and "map_get (reservations db) i = Some row" "hd_status row \<noteq> Held" "hd_status row \<noteq> Committed"
  shows "store_ok db' \<and> spec_reach (abs_store db) (abs_store db')"
proof -
  obtain f d where d: "efold (take_late (hd_branch row) i) (mergeLines its) db = Inr f"
    "moved db f (\<lambda>k. - d k) (\<lambda>_. 0) (\<lambda>k. - d k)" "\<forall>k. 0 \<le> d k \<and> d k \<le> sp_free (abs_store db) k"
    using late_take [OF assms(1,3), of "hd_branch row" i] by blast
  have none: "open_holds hold_demand (reservations db) i = None" using assms(4,5) by (simp add: open_none_iff)
  have db': "db' = set_status i row Committed f" using assms(2,4-6) d(1) by (simp add: commitOrder_def)
  note put = store_ok_put [OF assms(1) d(2), of "row\<lparr>hd_status := Committed\<rparr>" i]
  have row: "hold_demand (row\<lparr>hd_status := Committed\<rparr>) = None" by (simp add: hold_demand_def)
  have upd: "(open_holds hold_demand (reservations db))(i := None) = open_holds hold_demand (reservations db)"
    using none by (simp add: fun_upd_idem)
  have pl: "pos_lines (hd_items (row\<lparr>hd_status := Committed\<rparr>))" using store_okD(5) [OF assms(1,4)] by simp
  have ok: "store_ok db'" unfolding db' set_status_def by (rule put(1) [OF pl]) (simp_all add: held_by_def row none)
  have "abs_store db' = \<lparr>sp_stock = (\<lambda>k. on_hand_of db k + - d k), sp_open = open_holds hold_demand (reservations db)\<rparr>"
    unfolding db' set_status_def using put(2) [OF pl] by (simp add: held_by_def row none upd)
  then have a: "abs_store db' = (abs_store db)\<lparr>sp_stock := (\<lambda>k. sp_stock (abs_store db) k - d k)\<rparr>"
    by (simp add: abs_store_def)
  have "spec_step (abs_store db) (abs_store db')" unfolding a using d(3) by (intro take_free) simp
  then show ?thesis using ok refines_step by blast
qed

lemma commit_refines:
  assumes "store_ok db" "commitOrder db i b its = Inr db'" "\<forall>l \<in> set its. 0 < snd l"
  shows "store_ok db' \<and> spec_reach (abs_store db) (abs_store db')"
proof -
  consider (none) "map_get (reservations db) i = None"
    | (held) row where "map_get (reservations db) i = Some row" "hd_status row = Held"
    | (comm) row where "map_get (reservations db) i = Some row" "hd_status row = Committed"
    | (gone) row where "map_get (reservations db) i = Some row" "hd_status row \<noteq> Held" "hd_status row \<noteq> Committed"
    by (cases "map_get (reservations db) i") auto
  then show ?thesis
  proof cases
    case none
    obtain d where d: "moved db db' (\<lambda>k. - d k) (\<lambda>_. 0) (\<lambda>k. - d k)" "\<forall>k. 0 \<le> d k \<and> d k \<le> sp_free (abs_store db) k"
      using late_take [OF assms(1,3), of b i] assms(2) none by (auto simp: commitOrder_def)
    have "spec_step (abs_store db) (abs_store db')"
      using take_free [of d "abs_store db"] d(2) store_ok_moved(2) [OF assms(1) d(1)] by (simp add: abs_store_def)
    then show ?thesis using store_ok_moved(1) [OF assms(1) d(1)] refines_step by blast
  next
    case (held row)
    then obtain e where e: "commitOrder db i b its = Inr e" "store_ok e"
      "abs_store e = (abs_store db)\<lparr>sp_stock := (\<lambda>k. sp_stock (abs_store db) k - at_place (hd_branch row) (hd_items row) k),
        sp_open := (sp_open (abs_store db))(i := None)\<rparr>" using commit_held_ok [OF assms(1), of i row b its] by blast
    have "spec_step (abs_store db) (abs_store e)" unfolding e(3) by (rule use_hold [OF open_row [OF held]])
    then show ?thesis using e(1,2) assms(2) refines_step by auto
  next
    case (comm row)
    then show ?thesis using assms spec_start by (auto simp: commitOrder_def)
  next
    case (gone row)
    then show ?thesis using commit_gone_refines assms by blast
  qed
qed

lemma receive_refines:
  assumes "store_ok db" "receiveStock db b ls r = Inr db'" "\<forall>l \<in> set ls. 0 < snd l"
  shows "store_ok db' \<and> spec_reach (abs_store db) (abs_store db')"
proof -
  have m: "moved db db' (at_place b ls) (\<lambda>_. 0) (at_place b ls)"
    using assms(2) receive_loop [OF store_okD(1) [OF assms(1)], of b r "mergeLines ls" db']
    by (simp add: receiveStock_def at_place_merge [OF assms(3)] split: if_splits)
  have "spec_step (abs_store db) (abs_store db')"
    unfolding store_ok_moved(2) [OF assms(1) m]
    using add_stock [of "at_place b ls" "abs_store db"] at_place_nonneg [OF assms(3)] by (simp add: abs_store_def)
  then show ?thesis using store_ok_moved(1) [OF assms(1) m] refines_step by blast
qed

lemma reserve_refines:
  assumes "store_ok db" "reserveStock db i b ls n now ttl = Inr (db', c)" "list_all line_ok ls"
  shows "store_ok db' \<and> spec_reach (abs_store db) (abs_store db')"
proof (cases "no_hold db i")
  case True
  have fit: "\<forall>k. at_place b ls k \<le> free_of db k" and ok: "store_ok db'"
    and a: "abs_store db' = (abs_store db)\<lparr>sp_open := (sp_open (abs_store db))(i \<mapsto> at_place b ls)\<rparr>"
    using reserve_outcome [OF assms(1,3) True, of b n now ttl] assms(2) by (auto split: if_splits)
  have "sp_open (abs_store db) i = None" using True by (simp add: abs_store_def open_none_iff no_hold_def)
  then have "spec_step (abs_store db) (abs_store db')"
    unfolding a by (rule take_hold) (simp add: fit free_spec [OF assms(1)] at_place_nonneg [OF line_ok_pos [OF assms(3)]])
  then show ?thesis using ok refines_step by blast
next
  case False
  then have "db' = db" using assms(2) by (auto simp: reserveStock_def no_hold_def Let_def split: if_splits)
  then show ?thesis using assms(1) spec_start by simp
qed

lemma release_refines:
  assumes "store_ok db" "releaseHold db i = Inr db'"
  shows "store_ok db' \<and> spec_reach (abs_store db) (abs_store db')"
proof (cases "\<exists>row. map_get (reservations db) i = Some row \<and> hd_status row = Held")
  case True
  then obtain row where row: "map_get (reservations db) i = Some row" "hd_status row = Held" by blast
  then have "giveBack db i row Released = Inr db'" using assms(2) by (simp add: releaseHold_def)
  then have d: "store_ok db'" "abs_store db' = (abs_store db)\<lparr>sp_open := (sp_open (abs_store db))(i := None)\<rparr>"
    using giveBack_ok [OF assms(1) row, of Released] by auto
  have "spec_step (abs_store db) (abs_store db')" unfolding d(2) by (rule drop_hold [OF open_row [OF row]])
  then show ?thesis using d(1) refines_step by blast
next
  case False
  then have "db' = db" using assms(2) by (auto simp: releaseHold_def split: option.splits if_splits)
  then show ?thesis using assms(1) spec_start by simp
qed

lemma other_refines:
  assumes "store_ok db"
  shows "store_ok (db\<lparr>branch_active := bs, warehouse_orders := os\<rparr>) \<and>
    spec_reach (abs_store db) (abs_store (db\<lparr>branch_active := bs, warehouse_orders := os\<rparr>))"
proof -
  let ?d = "db\<lparr>branch_active := bs, warehouse_orders := os\<rparr>"
  have "on_hand_of ?d = on_hand_of db" "reserved_of ?d = reserved_of db" "ledger_of ?d = ledger_of db"
    "held_sum ?d = held_sum db" "items_ok ?d = items_ok db" "reservations ?d = reservations db"
    by (simp_all add: items_ok_def on_hand_of_def reserved_of_def ledger_of_def held_sum_def fun_eq_iff)
  then show ?thesis using assms spec_start by (simp add: store_ok_def abs_store_def)
qed

lemma store_step:
  assumes "stock_move db db'" "store_ok db"
  shows "store_ok db' \<and> spec_reach (abs_store db) (abs_store db')"
  using assms(1)
proof cases
  case (mv_complete i b ls)
  then show ?thesis using commit_refines [OF assms(2) _ line_ok_pos [OF mv_complete(2)]] spec_start assms(2)
    by (auto simp: onCompleted_def split: if_splits)
next
  case (mv_expire now n c)
  then show ?thesis using expireDue_ok [OF assms(2), of now n] by auto
next
  case (mv_receive b ls r)
  then show ?thesis using receive_refines [OF assms(2) _ line_ok_pos] by simp
next
  case (mv_other bs os)
  then show ?thesis using other_refines [OF assms(2)] by simp
qed (use reserve_refines [OF assms(2)] release_refines [OF assms(2)] in simp_all)

lemma empty_store_ok: "store_ok empty_store"
  by (simp add: store_ok_def empty_store_def items_ok_def on_hand_of_def reserved_of_def ledger_of_def held_sum_def map_sum_def)

lemma stock_reach_ok: "stock_reach db \<Longrightarrow> store_ok db"
  by (induction rule: stock_reach.induct) (auto simp: empty_store_ok dest: store_step)

lemma sort_id: "sorted_wrt (\<lambda>a b. cmp a b \<le> 0) xs \<Longrightarrow> js_sort cmp xs = xs"
proof (induction xs)
  case (Cons x xs)
  then show ?case by (cases xs) auto
qed simp

lemma add_qty_fresh: "distinct (map fst (m @ ls)) \<Longrightarrow> fold add_qty ls m = m @ ls"
proof (induction ls arbitrary: m)
  case (Cons l ls)
  have "l # ls = [l] @ ls" by simp
  have "map_get m (fst l) = None" using Cons.prems by (auto simp: map_get_def map_of_eq_None_iff)
  moreover have "map_set (fst l) v m = m @ [(fst l, v)]" if "fst l \<notin> fst ` set m" for v
    using that by (induction m) auto
  ultimately have "add_qty l m = m @ [l]" using Cons.prems by (simp add: add_qty_def)
  then show ?case using Cons.IH [of "m @ [l]"] Cons.prems by simp
qed simp

interpretation by_sku: comparator "\<lambda>a b :: StockLine. compareSku (fst a) (fst b)"
  unfolding compareSku_def
  by unfold_locales (simp, rule code_units.cmp_antisym, rule code_unit_compare_trans)

lemma sorted_mergeLines: "sorted_wrt (\<lambda>a b. compareSku (fst a) (fst b) \<le> 0) (mergeLines ls)"
  unfolding mergeLines_def by (rule by_sku.js_sort_sorted)

lemma merge_merge: "\<forall>l \<in> set ls. 0 < snd l \<Longrightarrow> mergeLines (mergeLines ls) = mergeLines ls"
  using mergeLines_ok(1) [of ls] add_qty_fresh [of "[]" "mergeLines ls"] sort_id [OF sorted_mergeLines [of ls]]
  by (simp add: mergeLines_def [of "mergeLines ls"] pos_lines_def)

lemma reserve_retry:
  assumes "no_hold db i" "reserveStock db i b ls n now ttl = Inr (db', c)" "\<forall>l \<in> set ls. 0 < snd l"
  shows "reserveStock db' i b ls m later ttl' = Inr (db', False)"
proof -
  let ?h = "new_hold n b (now + ttl) (mergeLines ls)"
  have "map_get (reservations db') i = Some ?h"
    using assms(2) by (auto simp: reserve_new [OF assms(1)] reserve_fresh_def ok_simps split: if_splits)
  moreover have "itemsOf ?h = mergeLines ls" by (simp add: itemsOf_def new_hold_def sort_id sorted_mergeLines)
  ultimately show ?thesis
    using merge_merge [OF assms(3)] by (simp add: reserveStock_def Let_def sameLines_def) (simp add: new_hold_def)
qed

section \<open>Properties\<close>

text \<open>A day in a branch: goods arrive, two orders hold, one expires, one completes.\<close>

definition day_start :: StockDb where
  "day_start = empty_store\<lparr>branch_active := [''B'']\<rparr>"

definition day_stock :: "StockDb hold_result" where
  "day_stock = receiveStock day_start ''B'' [(''S1'', 4), (''S2'', 5), (''S1'', 6)] ''R1''"

definition day_hold :: "StockDb hold_result" where
  "day_hold = ebind day_stock (\<lambda>db. ebind (reserveStock db ''O1'' ''B'' [(''S1'', 7)] ''H1'' 100 15) (\<lambda>(db, _). Inr db))"

lemma branch_day_reach:
  assumes "day_hold = Inr db"
  shows "stock_reach db"
proof -
  obtain d1 c where d: "day_stock = Inr d1" "reserveStock d1 ''O1'' ''B'' [(''S1'', 7)] ''H1'' 100 15 = Inr (db, c)"
    using assms by (auto simp: day_hold_def ok_simps)
  have "stock_reach day_start"
    using reach_move [OF reach_empty mv_other [where bs = "[''B'']" and os = "[]"]] by (simp add: day_start_def empty_store_def)
  then have "stock_reach d1" by (rule reach_move [OF _ mv_receive [OF d(1) [unfolded day_stock_def]]]) (simp add: line_ok_def)
  then show ?thesis by (rule reach_move [OF _ mv_reserve [OF d(2)]]) (simp add: line_ok_def)
qed

text \<open>
C4: the branch store is consistent in every reachable state: for each branch and SKU the reserved quantity is exactly the
sum of the open holds, it is never negative and never above the quantity on hand, and the quantity on hand is
exactly the sum of the ledger.
\<close>

theorem order_holds_consistent:
  assumes "stock_reach db"
  shows "reserved_of db (b, s) = sum_list (map (\<lambda>(i, h). if hd_status h = Held \<and> hd_branch h = b then qty_of (hd_items h) s else 0) (reservations db)) \<and>
    0 \<le> reserved_of db (b, s) \<and> reserved_of db (b, s) \<le> on_hand_of db (b, s) \<and>
    on_hand_of db (b, s) = sum_list (map lr_change (filter (\<lambda>r. lr_branch r = b \<and> lr_sku r = s) (inventory_ledger db)))"
proof -
  note ok = stock_reach_ok [OF assms]
  have f: "held_by hold_demand (b, s) \<circ> snd = (\<lambda>(i, h). if hd_status h = Held \<and> hd_branch h = b then qty_of (hd_items h) s else 0)"
    by (auto simp: fun_eq_iff held_by_def hold_demand_def at_place_def)
  show ?thesis
    using store_okD(3,4) [OF ok, of "(b, s)"] items_okD [OF store_okD(1) [OF ok], of "(b, s)"]
    by (simp add: held_sum_def map_sum_def f ledger_of_def)
qed

theorem order_holds_consistent_witness:
  "\<exists>db. day_hold = Inr db \<and> reserved_of db (''B'', ''S1'') = 7 \<and> on_hand_of db (''B'', ''S1'') = 10 \<and>
     on_hand_of db (''B'', ''S1'') = sum_list (map lr_change (filter (\<lambda>r. lr_branch r = ''B'' \<and> lr_sku r = ''S1'') (inventory_ledger db)))"
proof -
  have "ebind day_hold (\<lambda>db. Inr (reserved_of db (''B'', ''S1''), on_hand_of db (''B'', ''S1''))) = (Inr (7, 10) :: (int \<times> int) hold_result)"
    by code_simp
  then obtain db where db: "day_hold = Inr db" "reserved_of db (''B'', ''S1'') = 7" "on_hand_of db (''B'', ''S1'') = 10"
    by (auto simp: ok_simps)
  then show ?thesis using order_holds_consistent [OF branch_day_reach [OF db(1)], of "''B''" "''S1''"] by auto
qed



text \<open>
C5: a reservation is all or nothing and idempotent: for an order without a current hold it succeeds exactly when every SKU it
asks for is free in the branch (lines of the same SKU together), it then lowers the free stock by exactly the order and
leaves the stock on hand alone, a refusal is a shortage, and repeating the request changes nothing.
\<close>

theorem reserve_all_or_nothing:
  assumes "stock_reach db" and "list_all line_ok ls" and "no_hold db i"
  shows "((\<exists>r. reserveStock db i b ls n now ttl = Inr r) \<longleftrightarrow> (\<forall>s. qty_of ls s \<le> free_of db (b, s))) \<and>
    (\<forall>e. reserveStock db i b ls n now ttl = Inl e \<longrightarrow> (\<exists>sh. e = StockShortageError sh)) \<and>
    (\<forall>db' c. reserveStock db i b ls n now ttl = Inr (db', c) \<longrightarrow>
       c \<and> (\<forall>k. free_of db' k = free_of db k - (if fst k = b then qty_of ls (snd k) else 0) \<and> on_hand_of db' k = on_hand_of db k) \<and>
       reserveStock db' i b ls m later ttl' = Inr (db', False))"
proof -
  note ok = stock_reach_ok [OF assms(1)]
  have nn: "0 \<le> free_of db k" for k using items_okD [OF store_okD(1) [OF ok], of k] by (simp add: free_of_def)
  have iff: "(\<forall>k. at_place b ls k \<le> free_of db k) \<longleftrightarrow> (\<forall>s. qty_of ls s \<le> free_of db (b, s))"
  proof
    assume "\<forall>k. at_place b ls k \<le> free_of db k"
    then have "at_place b ls (b, s) \<le> free_of db (b, s)" for s by blast
    then show "\<forall>s. qty_of ls s \<le> free_of db (b, s)" by (simp add: at_place_def)
  qed (use nn in \<open>auto simp: at_place_def\<close>)
  note out = reserve_outcome [OF ok assms(2,3), of b n now ttl]
  show ?thesis
  proof (cases "\<forall>k. at_place b ls k \<le> free_of db k")
    case True
    then obtain db' where d: "reserveStock db i b ls n now ttl = Inr (db', True)" "store_ok db'"
      "abs_store db' = (abs_store db)\<lparr>sp_open := (sp_open (abs_store db))(i \<mapsto> at_place b ls)\<rparr>" using out by auto
    have none: "sp_open (abs_store db) i = None" using assms(3) by (simp add: abs_store_def open_none_iff no_hold_def)
    have free: "free_of db' k = free_of db k - at_place b ls k" for k
      using free_spec [OF ok, of k] free_spec [OF d(2), of k] sp_held_insert [OF _ none, of "at_place b ls" k]
      unfolding d(3) by (simp add: sp_free_def abs_store_def finite_open_holds)
    have hand: "on_hand_of db' = on_hand_of db" using d(3) by (simp add: abs_store_def)
    have retry: "reserveStock db' i b ls m later ttl' = Inr (db', False)"
      by (rule reserve_retry [OF assms(3) d(1) line_ok_pos [OF assms(2)]])
    show ?thesis using d(1) True iff free hand retry by (auto simp: at_place_def)
  next
    case False
    then obtain sh where "reserveStock db i b ls n now ttl = Inl (StockShortageError sh)" using out unfolding if_not_P [OF False] by blast
    then show ?thesis using False iff by simp
  qed
qed

theorem reserve_all_or_nothing_witness:
  "\<exists>db. day_hold = Inr db \<and>
     (\<exists>r. reserveStock db ''O2'' ''B'' [(''S1'', 1), (''S2'', 5), (''S1'', 2)] ''H2'' 200 15 = Inr r) \<and>
     \<not> (\<exists>r. reserveStock db ''O2'' ''B'' [(''S1'', 2), (''S2'', 5), (''S1'', 2)] ''H2'' 200 15 = Inr r)"
proof -
  have "ebind day_hold (\<lambda>db. Inr (free_of db (''B'', ''S1''), free_of db (''B'', ''S2''), map_get (reservations db) ''O2'')) = (Inr (3, 5, None) :: (int \<times> int \<times> Hold option) hold_result)"
    by code_simp
  then obtain db where db: "day_hold = Inr db" "free_of db (''B'', ''S1'') = 3" "free_of db (''B'', ''S2'') = 5" "no_hold db ''O2''"
    by (auto simp: ok_simps no_hold_def)
  have nn: "0 \<le> free_of db k" for k
    using items_okD [OF store_okD(1) [OF stock_reach_ok [OF branch_day_reach [OF db(1)]]], of k] by (simp add: free_of_def)
  note all = reserve_all_or_nothing [OF branch_day_reach [OF db(1)] _ db(4), THEN conjunct1]
  have "\<exists>r. reserveStock db ''O2'' ''B'' [(''S1'', 1), (''S2'', 5), (''S1'', 2)] ''H2'' 200 15 = Inr r"
    using db(2,3) nn by (subst all) (auto simp: line_ok_def)
  moreover have "\<not> (\<exists>r. reserveStock db ''O2'' ''B'' [(''S1'', 2), (''S2'', 5), (''S1'', 2)] ''H2'' 200 15 = Inr r)"
    using db(2) by (subst all) (auto simp: line_ok_def intro!: exI [of _ "''S1''"])
  ultimately show ?thesis using db(1) by blast
qed



end
