(* ===== verification/WarehouseHolds.thy ===== *)
theory WarehouseHolds
  imports HoldSpec InventoryDomain
begin

text \<open>
  Warehouse reservations of the inventory service (second half of
  \<^verbatim>\<open>apps/inventory/src/stock/reservations.service.ts\<close>, with \<^verbatim>\<open>branches/branch-warehouse.ts\<close>,
  \<^verbatim>\<open>common/below-min.ts\<close> and the two assertions it calls). Quantities are thousandths; the numeric columns print and parse
  them exactly (\<open>wh_qty\<close> below), so the tables hold integers; ids that reach a uuid column are lower-case uuids, and an unresolved
  SKU is one without a balance. Rows are those of one tenant, every method is one
  transaction. Parameters stand for code outside the repository: \<open>lc\<close> for \<^verbatim>\<open>localeCompare\<close>, \<open>digest\<close> for
  SHA-256 over the canonical request.
\<close>

section \<open>Errors and quantities\<close>

datatype WarehouseReservationErrorCode =
    WR_MISSING_IDEMPOTENCY_KEY | WR_INVALID_QUANTITY | WR_IDEMPOTENCY_CONFLICT | WR_INSUFFICIENT_STOCK
  | WR_RESERVATION_NOT_FOUND | WR_INVALID_RESERVATION_STATE | WR_RESERVATION_STATE_CONFLICT
  | WR_RESERVATION_ALREADY_COMMITTED | WR_RESERVATION_EXPIRED

text \<open>A shortage: place, requested and available quantity.\<close>

type_synonym shortage = "place \<times> int \<times> int"

datatype ReservationError =
    BadRequest WarehouseReservationErrorCode
  | BranchRequired
  | Conflict WarehouseReservationErrorCode
  | StateConflict WarehouseReservationErrorCode
  | Shortages "shortage list"
  | NotFound
  | InventoryError "InventoryDomainErrorCode err"
  | QueryFailed
  | TypeErr

type_synonym 'a wh_result = "ReservationError + 'a"

definition lift_inv :: "'a inv_result \<Rightarrow> 'a wh_result" where
  "lift_inv r = (case r of Inl e \<Rightarrow> Inl (InventoryError e) | Inr a \<Rightarrow> Inr a)"

definition parseDecimalToMilli :: "string \<Rightarrow> int wh_result" where
  "parseDecimalToMilli value =
     (let (negative, body) = split_sign (js_trim value)
      in case match_decimal canonical_digits 3 body of
           None \<Rightarrow> Inl (BadRequest WR_INVALID_QUANTITY)
         | Some m \<Rightarrow> Inr ((if negative then - 1 else 1) * scaled_value 1000 3 m))"

definition formatMilliToDecimal :: "int \<Rightarrow> string" where
  "formatMilliToDecimal milli = (if milli < 0 then ''-'' else []) @ show_scaled 1000 3 \<bar>milli\<bar>"

section \<open>Requests\<close>

record WarehouseReservationLineInput =
  li_warehouseId :: "string option"
  li_skuId :: string
  li_qty :: string

record CreateWarehouseReservationRequest =
  rq_callerService :: string
  rq_sourceRefType :: string
  rq_sourceRefId :: string
  rq_branchId :: "string option"
  rq_ttlSeconds :: "int option"
  rq_noExpiry :: bool
  rq_lines :: "WarehouseReservationLineInput list"

text \<open>A normalised line is a place and a quantity; its \<^verbatim>\<open>qty\<close> text is \<open>formatMilliToDecimal\<close> of the latter.\<close>

type_synonym norm_line = "place \<times> int"

definition add_reservation_line ::
    "WarehouseReservationLineInput \<Rightarrow> (string, norm_line) jsmap \<Rightarrow> (string, norm_line) jsmap wh_result" where
  "add_reservation_line line merged =
     ebind (parseDecimalToMilli (li_qty line)) (\<lambda>q.
       if q \<le> 0 then Inl (BadRequest WR_INVALID_QUANTITY)
       else
         let wh = (case li_warehouseId line of None \<Rightarrow> [] | Some w \<Rightarrow> w);
             key = wh @ '':'' @ li_skuId line
         in case map_get merged key of
              Some (p, q0) \<Rightarrow> Inr (map_set key (p, q0 + q) merged)
            | None \<Rightarrow> Inr (map_set key ((wh, li_skuId line), q) merged))"

definition reservation_compare :: "(string \<Rightarrow> string \<Rightarrow> int) \<Rightarrow> norm_line \<Rightarrow> norm_line \<Rightarrow> int" where
  "reservation_compare lc a b =
     (let whCmp = lc (fst (fst a)) (fst (fst b)) in if whCmp \<noteq> 0 then whCmp else lc (snd (fst a)) (snd (fst b)))"

definition normalizeReservationLines ::
    "(string \<Rightarrow> string \<Rightarrow> int) \<Rightarrow> WarehouseReservationLineInput list \<Rightarrow> norm_line list wh_result" where
  "normalizeReservationLines lc lines =
     (if lines = [] then Inl (BadRequest WR_INVALID_QUANTITY)
      else ebind (efold add_reservation_line lines []) (\<lambda>merged.
        Inr (js_sort (reservation_compare lc) (map snd merged))))"

text \<open>\<open>digest\<close> is SHA-256 over the JSON text of these fields; branch and expiry enter only when given.\<close>

definition hashReservationRequest ::
    "(string \<times> string \<times> string \<times> string option \<times> bool \<times> norm_line list \<Rightarrow> string) \<Rightarrow>
     CreateWarehouseReservationRequest \<Rightarrow> norm_line list \<Rightarrow> string" where
  "hashReservationRequest digest req lines =
     digest (rq_callerService req, rq_sourceRefType req, rq_sourceRefId req,
       if truthy (rq_branchId req) then rq_branchId req else None, rq_noExpiry req, lines)"

section \<open>Tables\<close>

record Balance =
  bl_onHand :: int
  bl_reserved :: int
  bl_avgUnitCost :: int
  bl_valuation :: int
  bl_version :: int

datatype WarehouseReservationState = HELD | COMMITTED | RELEASED | EXPIRED

record WarehouseReservation =
  wr_callerService :: string
  wr_idempotencyKey :: string
  wr_requestSha256 :: string
  wr_sourceRefType :: string
  wr_sourceRefId :: string
  wr_state :: WarehouseReservationState
  wr_expiresAt :: "int option"
  wr_createdAt :: int
  wr_lines :: "norm_line list"
  wr_releaseReason :: "string option"
  wr_fulfillmentId :: "string option"
  wr_note :: "string option"

record StockLedgerRow =
  sl_place :: place
  sl_qtyBefore :: int
  sl_qtyDelta :: int
  sl_onHandAfter :: int
  sl_reservedAfter :: int
  sl_unitCost :: int
  sl_referenceType :: string
  sl_referenceId :: string
  sl_reason :: "string option"

record Warehouse =
  wh_id :: string
  wh_kind :: string
  wh_branchId :: "string option"
  wh_isDefault :: bool
  wh_active :: bool

record SkuProjection =
  sk_id :: string
  sk_code :: string
  sk_active :: bool

datatype WarehouseEvent =
    INVENTORY_RESERVATION_CONFIRMED string "norm_line list"
  | INVENTORY_STOCK_CHANGED place int int int
  | INVENTORY_RESERVATION_COMMITTED string "norm_line list"
  | INVENTORY_RESERVATION_RELEASED string "norm_line list" string
  | INVENTORY_RESERVATION_EXPIRED string "norm_line list"
  | INVENTORY_STOCK_BELOW_MIN place int int

record WarehouseDb =
  balances :: "(place, Balance) jsmap"
  wh_reservations :: "(string, WarehouseReservation) jsmap"
  balance_ledger :: "StockLedgerRow list"
  warehouses :: "Warehouse list"
  sku_projection :: "SkuProjection list"
  thresholds :: "(place, int) jsmap"
  wh_outbox :: "WarehouseEvent list"

text \<open>The check constraints of \<^verbatim>\<open>stock_balance\<close> and the range of its numeric columns.\<close>

definition balance_check :: "Balance \<Rightarrow> bool" where
  "balance_check b \<longleftrightarrow> 0 \<le> bl_reserved b \<and> bl_reserved b \<le> bl_onHand b \<and> bl_onHand b < 10 ^ 18 \<and>
     0 \<le> bl_avgUnitCost b \<and> 0 \<le> bl_valuation b"

definition put_balance :: "place \<Rightarrow> Balance \<Rightarrow> WarehouseDb \<Rightarrow> WarehouseDb wh_result" where
  "put_balance p b db =
     (if balance_check b then Inr (db\<lparr>balances := map_set p b (balances db)\<rparr>) else Inl QueryFailed)"

definition emit :: "WarehouseEvent \<Rightarrow> WarehouseDb \<Rightarrow> WarehouseDb" where
  "emit e db = db\<lparr>wh_outbox := wh_outbox db @ [e]\<rparr>"

section \<open>Warehouses, SKUs and the minimum alert\<close>

definition resolveBranchWarehouse :: "WarehouseDb \<Rightarrow> string \<Rightarrow> string \<Rightarrow> string wh_result" where
  "resolveBranchWarehouse db branchId whId =
     (if whId \<noteq> []
      then (case find (\<lambda>w. wh_id w = whId) (warehouses db) of
              None \<Rightarrow> Inl (InventoryError (inv_error WAREHOUSE_NOT_FOUND 404))
            | Some wh \<Rightarrow>
                if wh_kind wh \<noteq> ''BRANCH'' \<or> wh_branchId wh \<noteq> Some branchId
                then Inl (InventoryError (inv_error WAREHOUSE_NOT_IN_BRANCH 409))
                else if \<not> wh_active wh then Inl (InventoryError (inv_error WAREHOUSE_INACTIVE 409))
                else Inr (wh_id wh))
      else (case find (\<lambda>w. wh_branchId w = Some branchId \<and> wh_kind w = ''BRANCH'' \<and> wh_isDefault w \<and> wh_active w) (warehouses db) of
              None \<Rightarrow> Inl (InventoryError (inv_error BRANCH_HAS_NO_WAREHOUSE 409))
            | Some wh \<Rightarrow> Inr (wh_id wh)))"

definition assertActiveWarehouse :: "WarehouseDb \<Rightarrow> string \<Rightarrow> unit wh_result" where
  "assertActiveWarehouse db whId =
     (case find (\<lambda>w. wh_id w = whId) (warehouses db) of
        None \<Rightarrow> Inl (InventoryError (inv_error WAREHOUSE_NOT_FOUND 404))
      | Some wh \<Rightarrow> if \<not> wh_active wh then Inl (InventoryError (inv_error WAREHOUSE_INACTIVE 409)) else Inr ())"

text \<open>A SKU is named by id or by code; one without a projection passes unchanged (\<^verbatim>\<open>requireProjected = false\<close>).\<close>

definition assertCatalogSkuEligible :: "WarehouseDb \<Rightarrow> string \<Rightarrow> string wh_result" where
  "assertCatalogSkuEligible db sku =
     (case find (\<lambda>s. sk_id s = sku \<or> sk_code s = sku) (sku_projection db) of
        None \<Rightarrow> Inr sku
      | Some s \<Rightarrow> if \<not> sk_active s then Inl (InventoryError (inv_error SKU_NOT_SELLABLE 409)) else Inr (sk_id s))"

text \<open>
  \<^verbatim>\<open>BigInt(Math.round(Number(minQty) * 1000))\<close> of a threshold of \<open>m\<close> thousandths: two roundings to a double.
\<close>

definition min_milli :: "int \<Rightarrow> int" where
  "min_milli m = int_of_num (math_round (js_scale (to_double (of_int m / 1000)) 1000))"

definition emitBelowMinOnCrossing :: "place \<Rightarrow> int \<Rightarrow> int \<Rightarrow> WarehouseDb \<Rightarrow> WarehouseDb" where
  "emitBelowMinOnCrossing p before after db =
     (if after \<ge> before then db
      else (case map_get (thresholds db) p of
              None \<Rightarrow> db
            | Some m \<Rightarrow>
                (let minMilli = min_milli m in
                 if minMilli \<le> 0 then db
                 else if \<not> (before \<ge> minMilli \<and> after < minMilli) then db
                 else emit (INVENTORY_STOCK_BELOW_MIN p after minMilli) db)))"

section \<open>Holding stock\<close>

definition DEFAULT_TTL_SECONDS :: int where
  "DEFAULT_TTL_SECONDS = 900"

text \<open>First pass: the SKU is resolved, the balance row is locked and read, and a shortage is noted.\<close>

definition check_line :: "WarehouseDb \<Rightarrow> norm_line \<Rightarrow> norm_line list \<times> shortage list \<Rightarrow> (norm_line list \<times> shortage list) wh_result" where
  "check_line db l s =
     ebind (assertCatalogSkuEligible db (snd (fst l))) (\<lambda>sku.
       let p = (fst (fst l), sku);
           availableMilli = (case map_get (balances db) p of None \<Rightarrow> 0 | Some b \<Rightarrow> bl_onHand b - bl_reserved b)
       in Inr (fst s @ [(p, snd l)],
               if availableMilli < snd l
               then snd s @ [(p, snd l, if availableMilli > 0 then availableMilli else 0)] else snd s))"

text \<open>Second pass: the conditional \<^verbatim>\<open>UPDATE\<close>; reading the row it did not return is a \<^verbatim>\<open>TypeError\<close>.\<close>

definition reserve_line :: "norm_line \<Rightarrow> WarehouseDb \<Rightarrow> WarehouseDb wh_result" where
  "reserve_line l db =
     (case map_get (balances db) (fst l) of
        None \<Rightarrow> Inl TypeErr
      | Some b \<Rightarrow>
          if bl_onHand b - bl_reserved b < snd l then Inl TypeErr
          else ebind (put_balance (fst l) (b\<lparr>bl_reserved := bl_reserved b + snd l, bl_version := bl_version b + 1\<rparr>) db) (\<lambda>db'.
                 let availableAfter = bl_onHand b - (bl_reserved b + snd l)
                 in Inr (emitBelowMinOnCrossing (fst l) (availableAfter + snd l) availableAfter db')))"

definition resolve_line :: "WarehouseDb \<Rightarrow> string \<Rightarrow> norm_line \<Rightarrow> WarehouseReservationLineInput wh_result" where
  "resolve_line db branchId l =
     ebind (resolveBranchWarehouse db branchId (fst (fst l))) (\<lambda>w.
       Inr \<lparr>li_warehouseId = Some w, li_skuId = snd (fst l), li_qty = formatMilliToDecimal (snd l)\<rparr>)"

definition branch_lines ::
    "(string \<Rightarrow> string \<Rightarrow> int) \<Rightarrow> WarehouseDb \<Rightarrow> string option \<Rightarrow> norm_line list \<Rightarrow> norm_line list wh_result" where
  "branch_lines lc db branchId inputLines =
     (if truthy branchId
      then ebind (emap (resolve_line db (the branchId)) inputLines) (normalizeReservationLines lc)
      else Inr inputLines)"

definition new_reservation :: "CreateWarehouseReservationRequest \<Rightarrow> string \<Rightarrow> string \<Rightarrow> norm_line list \<Rightarrow> int \<Rightarrow> WarehouseReservation" where
  "new_reservation req key sha lines now =
     \<lparr>wr_callerService = rq_callerService req, wr_idempotencyKey = key, wr_requestSha256 = sha,
      wr_sourceRefType = rq_sourceRefType req, wr_sourceRefId = rq_sourceRefId req, wr_state = HELD,
      wr_expiresAt = (if rq_noExpiry req then None
        else Some (now + (case rq_ttlSeconds req of None \<Rightarrow> DEFAULT_TTL_SECONDS | Some t \<Rightarrow> t) * 1000)),
      wr_createdAt = now, wr_lines = lines, wr_releaseReason = None, wr_fulfillmentId = None, wr_note = None\<rparr>"

definition put_row :: "string \<Rightarrow> WarehouseReservation \<Rightarrow> WarehouseDb \<Rightarrow> WarehouseDb" where
  "put_row i r db = db\<lparr>wh_reservations := map_set i r (wh_reservations db)\<rparr>"

definition place_hold ::
    "WarehouseDb \<Rightarrow> CreateWarehouseReservationRequest \<Rightarrow> string \<Rightarrow> string \<Rightarrow> norm_line list \<Rightarrow> string \<Rightarrow> int \<Rightarrow> WarehouseDb wh_result" where
  "place_hold db req key sha lines newId now =
     (if newId \<in> fst ` set (wh_reservations db) then Inl QueryFailed
      else ebind (efold reserve_line lines db) (\<lambda>db'.
             Inr (emit (INVENTORY_RESERVATION_CONFIRMED newId lines) (put_row newId (new_reservation req key sha lines now) db'))))"

definition find_by_key :: "WarehouseDb \<Rightarrow> string \<Rightarrow> string \<Rightarrow> (string \<times> WarehouseReservation) option" where
  "find_by_key db caller key =
     find (\<lambda>r. wr_callerService (snd r) = caller \<and> wr_idempotencyKey (snd r) = key) (wh_reservations db)"

text \<open>The result is the reservation's id and whether it was a replay.\<close>

definition reserveWarehouseStock ::
    "(string \<Rightarrow> string \<Rightarrow> int) \<Rightarrow> (string \<times> string \<times> string \<times> string option \<times> bool \<times> norm_line list \<Rightarrow> string) \<Rightarrow>
     WarehouseDb \<Rightarrow> string option \<Rightarrow> CreateWarehouseReservationRequest \<Rightarrow> string \<Rightarrow> int \<Rightarrow> (WarehouseDb \<times> string \<times> bool) wh_result" where
  "reserveWarehouseStock lc digest db idempotencyKey req newId now =
     (let key = js_trim (case idempotencyKey of None \<Rightarrow> [] | Some k \<Rightarrow> k) in
      if key = [] \<or> length key > 128 then Inl (BadRequest WR_MISSING_IDEMPOTENCY_KEY)
      else
        ebind (normalizeReservationLines lc (rq_lines req)) (\<lambda>inputLines.
        let sha = hashReservationRequest digest req inputLines in
        if rq_callerService req = ''sales'' \<and> \<not> truthy (rq_branchId req) then Inl BranchRequired
        else if \<not> truthy (rq_branchId req) \<and> (\<exists>l \<in> set inputLines. fst (fst l) = []) then Inl BranchRequired
        else (case find_by_key db (rq_callerService req) key of
            Some (i, row) \<Rightarrow>
              if wr_requestSha256 row \<noteq> sha then Inl (Conflict WR_IDEMPOTENCY_CONFLICT) else Inr (db, i, True)
          | None \<Rightarrow>
              ebind (branch_lines lc db (rq_branchId req) inputLines) (\<lambda>normalizedLines.
              ebind (emap (\<lambda>l. assertActiveWarehouse db (fst (fst l))) normalizedLines) (\<lambda>_.
              ebind (efold (check_line db) normalizedLines ([], [])) (\<lambda>(lines, shortages).
              if shortages \<noteq> [] then Inl (Shortages shortages)
              else ebind (place_hold db req key sha lines newId now) (\<lambda>db'. Inr (db', newId, False))))))))"

section \<open>Settling a hold\<close>

text \<open>The rows come back ordered by warehouse and SKU (lower-case uuids, so by code units).\<close>

definition lines_of :: "WarehouseReservation \<Rightarrow> norm_line list" where
  "lines_of r = js_sort (reservation_compare code_unit_compare) (wr_lines r)"

definition commit_line ::
    "WarehouseReservation \<Rightarrow> string option \<Rightarrow> string option \<Rightarrow> norm_line \<Rightarrow> WarehouseDb \<Rightarrow> WarehouseDb wh_result" where
  "commit_line r fulfillmentId note' l db =
     (let row = map_get (balances db) (fst l);
          onHand = (case row of None \<Rightarrow> 0 | Some b \<Rightarrow> bl_onHand b);
          avg = (case row of None \<Rightarrow> 0 | Some b \<Rightarrow> bl_avgUnitCost b) in
      ebind (lift_inv (parseMoneyToVnd (Str (show_int avg)))) (\<lambda>avgVnd.
      ebind (lift_inv (vndToNumber avgVnd)) (\<lambda>avgCost.
      ebind (lift_inv (computeValuationAfterDeduction (formatMilliToDecimal onHand) (num_arg avgCost)
               (formatMilliToDecimal (snd l)))) (\<lambda>valuation.
      case row of
        None \<Rightarrow> Inl TypeErr
      | Some b \<Rightarrow>
          if bl_reserved b < snd l \<or> bl_onHand b < snd l then Inl TypeErr
          else ebind (put_balance (fst l) (b\<lparr>bl_onHand := bl_onHand b - snd l, bl_reserved := bl_reserved b - snd l,
                   bl_valuation := newValuationAmount valuation, bl_version := bl_version b + 1\<rparr>) db) (\<lambda>db'.
                 Inr (emit (INVENTORY_STOCK_CHANGED (fst l) (- snd l) (bl_onHand b - snd l) (bl_reserved b - snd l))
                   (db'\<lparr>balance_ledger := balance_ledger db' @
                     [\<lparr>sl_place = fst l, sl_qtyBefore = onHand, sl_qtyDelta = - snd l, sl_onHandAfter = bl_onHand b - snd l,
                       sl_reservedAfter = bl_reserved b - snd l, sl_unitCost = avgCost, sl_referenceType = wr_sourceRefType r,
                       sl_referenceId = (case fulfillmentId of None \<Rightarrow> wr_sourceRefId r | Some f \<Rightarrow> f),
                       sl_reason = note'\<rparr>]\<rparr>)))))))"

definition coalesce :: "'a option \<Rightarrow> 'a option \<Rightarrow> 'a option" where
  "coalesce a b = (case a of None \<Rightarrow> b | Some _ \<Rightarrow> a)"

definition commitWarehouseReservation ::
    "WarehouseDb \<Rightarrow> string \<Rightarrow> string option \<Rightarrow> string option \<Rightarrow> WarehouseDb wh_result" where
  "commitWarehouseReservation db reservationId fulfillmentId note' =
     (case map_get (wh_reservations db) reservationId of
        None \<Rightarrow> Inl NotFound
      | Some header \<Rightarrow>
          if wr_state header = COMMITTED then Inr db
          else if wr_state header \<noteq> HELD
          then Inl (StateConflict (if wr_state header = EXPIRED then WR_RESERVATION_EXPIRED else WR_RESERVATION_STATE_CONFLICT))
          else ebind (efold (commit_line header fulfillmentId note') (lines_of header) db) (\<lambda>db'.
                 Inr (emit (INVENTORY_RESERVATION_COMMITTED reservationId (lines_of header))
                   (put_row reservationId (header\<lparr>wr_state := COMMITTED,
                      wr_fulfillmentId := coalesce fulfillmentId (wr_fulfillmentId header),
                      wr_note := coalesce note' (wr_note header)\<rparr>) db'))))"

text \<open>An \<^verbatim>\<open>UPDATE\<close> that finds no row with enough reserved changes nothing.\<close>

definition release_line :: "norm_line \<Rightarrow> WarehouseDb \<Rightarrow> WarehouseDb wh_result" where
  "release_line l db =
     (case map_get (balances db) (fst l) of
        None \<Rightarrow> Inr db
      | Some b \<Rightarrow>
          if bl_reserved b < snd l then Inr db
          else put_balance (fst l) (b\<lparr>bl_reserved := bl_reserved b - snd l, bl_version := bl_version b + 1\<rparr>) db)"

definition releaseWarehouseReservation ::
    "WarehouseDb \<Rightarrow> string \<Rightarrow> string option \<Rightarrow> string option \<Rightarrow> WarehouseDb wh_result" where
  "releaseWarehouseReservation db reservationId reason note' =
     (case map_get (wh_reservations db) reservationId of
        None \<Rightarrow> Inl NotFound
      | Some header \<Rightarrow>
          if wr_state header = RELEASED \<or> wr_state header = EXPIRED then Inr db
          else if wr_state header = COMMITTED then Inl (StateConflict WR_RESERVATION_ALREADY_COMMITTED)
          else
            let why = (case reason of None \<Rightarrow> ''ORDER_CANCELLED'' | Some r \<Rightarrow> r) in
            ebind (efold release_line (lines_of header) db) (\<lambda>db'.
              Inr (emit (INVENTORY_RESERVATION_RELEASED reservationId (lines_of header) why)
                (put_row reservationId (header\<lparr>wr_state := RELEASED, wr_releaseReason := Some why,
                   wr_note := coalesce note' (wr_note header)\<rparr>) db'))))"

definition wh_due :: "int \<Rightarrow> WarehouseReservation \<Rightarrow> bool" where
  "wh_due now r \<longleftrightarrow> wr_state r = HELD \<and> (case wr_expiresAt r of None \<Rightarrow> False | Some t \<Rightarrow> t < now)"

definition expireWarehouseReservation :: "WarehouseDb \<Rightarrow> string \<Rightarrow> int \<Rightarrow> (WarehouseDb \<times> bool) wh_result" where
  "expireWarehouseReservation db reservationId now =
     (case map_get (wh_reservations db) reservationId of
        None \<Rightarrow> Inr (db, False)
      | Some header \<Rightarrow>
          if \<not> wh_due now header then Inr (db, False)
          else ebind (efold release_line (lines_of header) db) (\<lambda>db'.
                 Inr (emit (INVENTORY_RESERVATION_EXPIRED reservationId (lines_of header))
                   (put_row reservationId (header\<lparr>wr_state := EXPIRED, wr_releaseReason := Some ''EXPIRED''\<rparr>) db'), True)))"

text \<open>
  The job selects the holds past their time over all tenants; \<open>limit\<close> is this tenant's share. One transaction per hold; an
  error is logged and the next hold is tried.
\<close>

definition due_reservations :: "WarehouseDb \<Rightarrow> int \<Rightarrow> nat \<Rightarrow> string list" where
  "due_reservations db now limit =
     take limit (map fst (js_sort (\<lambda>a b. the (wr_expiresAt (snd a)) - the (wr_expiresAt (snd b)))
       (filter (\<lambda>r. wh_due now (snd r)) (wh_reservations db))))"

definition expire_hold :: "int \<Rightarrow> string \<Rightarrow> WarehouseDb \<times> nat \<Rightarrow> WarehouseDb \<times> nat" where
  "expire_hold now i s =
     (case expireWarehouseReservation (fst s) i now of
        Inl e \<Rightarrow> s
      | Inr (db', done') \<Rightarrow> (db', if done' then snd s + 1 else snd s))"

definition expireDueWarehouseReservationsOfAllTenants :: "WarehouseDb \<Rightarrow> int \<Rightarrow> nat \<Rightarrow> WarehouseDb \<times> nat" where
  "expireDueWarehouseReservationsOfAllTenants db now limit = fold (expire_hold now) (due_reservations db now limit) (db, 0)"

text \<open>The run for the active tenant does not catch: an error ends it, and the holds before it stay expired.\<close>

fun expire_each :: "int \<Rightarrow> string list \<Rightarrow> WarehouseDb \<Rightarrow> nat \<Rightarrow> WarehouseDb \<times> nat wh_result" where
  "expire_each now [] db n = (db, Inr n)"
| "expire_each now (i # is) db n =
     (case expireWarehouseReservation db i now of
        Inl e \<Rightarrow> (db, Inl e)
      | Inr (db', done') \<Rightarrow> expire_each now is db' (if done' then n + 1 else n))"

definition expireDueWarehouseReservations :: "WarehouseDb \<Rightarrow> int \<Rightarrow> nat \<Rightarrow> WarehouseDb \<times> nat wh_result" where
  "expireDueWarehouseReservations db now limit = expire_each now (due_reservations db now limit) db 0"

section \<open>Reading\<close>

record WarehouseReservationResponse =
  rs_reservationId :: string
  rs_state :: WarehouseReservationState
  rs_expiresAt :: "int option"
  rs_createdAt :: int
  rs_lines :: "(nat \<times> place \<times> string \<times> string \<times> string \<times> string) list"

definition loadWarehouseReservationResponse :: "WarehouseDb \<Rightarrow> string \<Rightarrow> WarehouseReservation \<Rightarrow> WarehouseReservationResponse" where
  "loadWarehouseReservationResponse db i r =
     \<lparr>rs_reservationId = i, rs_state = wr_state r, rs_expiresAt = wr_expiresAt r, rs_createdAt = wr_createdAt r,
      rs_lines = map (\<lambda>(n, l).
        let b = map_get (balances db) (fst l);
            onHand = (case b of None \<Rightarrow> 0 | Some b \<Rightarrow> bl_onHand b);
            reserved = (case b of None \<Rightarrow> 0 | Some b \<Rightarrow> bl_reserved b)
        in (n, fst l, formatMilliToDecimal (snd l), formatMilliToDecimal onHand, formatMilliToDecimal reserved,
            formatMilliToDecimal (onHand - reserved))) (enumerate 1 (wr_lines r))\<rparr>"

definition getWarehouseReservation :: "WarehouseDb \<Rightarrow> string \<Rightarrow> WarehouseReservationResponse wh_result" where
  "getWarehouseReservation db i =
     (case map_get (wh_reservations db) i of
        None \<Rightarrow> Inl NotFound
      | Some r \<Rightarrow> Inr (loadWarehouseReservationResponse db i r))"

section \<open>Quantity texts\<close>

lemma formatMilliToDecimal_eq: "formatMilliToDecimal m = formatMilliToQty m"
  by (simp add: formatMilliToDecimal_def formatMilliToQty_def QTY_SCALE_def)

lemma parseDecimalToMilli_eq:
  "parseDecimalToMilli s = (case parseQtyToMilli s True True of Inl _ \<Rightarrow> Inl (BadRequest WR_INVALID_QUANTITY) | Inr m \<Rightarrow> Inr m)"
  by (auto simp: parseDecimalToMilli_def parseQtyToMilli_def QTY_SCALE_def Let_def split: prod.splits option.splits)

text \<open>The module's own reader and printer of quantities agree with the domain's, so storing a quantity loses nothing.\<close>

interpretation wh_qty: fixed_point_codec parseDecimalToMilli formatMilliToDecimal "\<lambda>m. True"
  by unfold_locales (simp_all add: parseDecimalToMilli_eq formatMilliToDecimal_eq inv_signed.parse_fmt)

section \<open>Balances\<close>

declare split_paired_All [simp del] split_paired_Ex [simp del]

definition wb_on_hand :: "WarehouseDb \<Rightarrow> place demand" where
  "wb_on_hand db p = (case map_get (balances db) p of None \<Rightarrow> 0 | Some b \<Rightarrow> bl_onHand b)"

definition wb_reserved :: "WarehouseDb \<Rightarrow> place demand" where
  "wb_reserved db p = (case map_get (balances db) p of None \<Rightarrow> 0 | Some b \<Rightarrow> bl_reserved b)"

definition wb_free :: "WarehouseDb \<Rightarrow> place demand" where
  "wb_free db p = wb_on_hand db p - wb_reserved db p"

definition balances_ok :: "WarehouseDb \<Rightarrow> bool" where
  "balances_ok db \<longleftrightarrow> (\<forall>p b. map_get (balances db) p = Some b \<longrightarrow> balance_check b)"

text \<open>What a loop does to the balances, and that it leaves the reservations alone.\<close>

definition wb_moved :: "WarehouseDb \<Rightarrow> WarehouseDb \<Rightarrow> place demand \<Rightarrow> place demand \<Rightarrow> bool" where
  "wb_moved db db' h r \<longleftrightarrow> balances_ok db' \<and> wh_reservations db' = wh_reservations db \<and>
     (\<forall>p. wb_on_hand db' p = wb_on_hand db p + h p) \<and> (\<forall>p. wb_reserved db' p = wb_reserved db p + r p)"

lemma balances_okD: "balances_ok db \<Longrightarrow> 0 \<le> wb_reserved db p \<and> wb_reserved db p \<le> wb_on_hand db p"
  by (auto simp: balances_ok_def balance_check_def wb_reserved_def wb_on_hand_def split: option.splits)

lemma wb_moved_refl: "balances_ok db \<Longrightarrow> wb_moved db db (\<lambda>_. 0) (\<lambda>_. 0)"
  by (simp add: wb_moved_def)

lemma wb_moved_trans:
  "wb_moved a b h r \<Longrightarrow> wb_moved b c h' r' \<Longrightarrow> wb_moved a c (\<lambda>p. h p + h' p) (\<lambda>p. r p + r' p)"
  by (simp add: wb_moved_def)

lemma wb_moved_ok: "wb_moved a b h r \<Longrightarrow> balances_ok b"
  by (simp add: wb_moved_def)

lemma wb_moved_at:
  assumes "wb_moved a b h r"
  shows "wb_on_hand b p = wb_on_hand a p + h p" "wb_reserved b p = wb_reserved a p + r p" "wb_free b p = wb_free a p + h p - r p"
  using assms by (simp_all add: wb_moved_def wb_free_def)

text \<open>Events and ledger rows do not touch the balances.\<close>

lemma emit_same [simp]:
  "wb_on_hand (emit e db) = wb_on_hand db" "wb_reserved (emit e db) = wb_reserved db"
  "wh_reservations (emit e db) = wh_reservations db" "balances (emit e db) = balances db" "balances_ok (emit e db) = balances_ok db"
  by (simp_all add: emit_def wb_on_hand_def wb_reserved_def balances_ok_def fun_eq_iff)

lemma crossing_same [simp]:
  "wb_on_hand (emitBelowMinOnCrossing p x y db) = wb_on_hand db" "wb_reserved (emitBelowMinOnCrossing p x y db) = wb_reserved db"
  "wh_reservations (emitBelowMinOnCrossing p x y db) = wh_reservations db"
  "balances_ok (emitBelowMinOnCrossing p x y db) = balances_ok db"
  by (auto simp: emitBelowMinOnCrossing_def Let_def split: option.splits)

lemma ledger_same [simp]:
  "wb_on_hand (db\<lparr>balance_ledger := l\<rparr>) = wb_on_hand db" "wb_reserved (db\<lparr>balance_ledger := l\<rparr>) = wb_reserved db"
  "balances_ok (db\<lparr>balance_ledger := l\<rparr>) = balances_ok db"
  by (simp_all add: wb_on_hand_def wb_reserved_def balances_ok_def fun_eq_iff)

lemma row_same [simp]:
  "wb_on_hand (db\<lparr>wh_reservations := m\<rparr>) = wb_on_hand db" "wb_reserved (db\<lparr>wh_reservations := m\<rparr>) = wb_reserved db"
  "balances_ok (db\<lparr>wh_reservations := m\<rparr>) = balances_ok db"
  by (simp_all add: wb_on_hand_def wb_reserved_def balances_ok_def fun_eq_iff)

lemma put_balance_moved:
  assumes "balances_ok db" "put_balance p b db = Inr db'"
  shows "wb_moved db db' (\<lambda>x. if x = p then bl_onHand b - wb_on_hand db p else 0)
    (\<lambda>x. if x = p then bl_reserved b - wb_reserved db p else 0)"
  using assms by (auto simp: put_balance_def wb_moved_def balances_ok_def wb_on_hand_def wb_reserved_def split: if_splits)

abbreviation line_demand :: "norm_line \<Rightarrow> place demand" where
  "line_demand l \<equiv> qty_of [l]"

lemma line_demand_apply: "line_demand l p = (if p = fst l then snd l else 0)"
  by (cases l) simp

lemma qty_of_Cons_line: "qty_of (l # ls) p = line_demand l p + qty_of ls p"
  by (cases l) simp

section \<open>The three loops\<close>

text \<open>Each line either moves its quantity exactly or fails; a line fails for want of quantity only.\<close>

lemma reserve_line_iff:
  assumes "balances_ok db" "0 < snd l"
  shows "if snd l \<le> wb_free db (fst l) then \<exists>db'. reserve_line l db = Inr db' \<and> wb_moved db db' (\<lambda>_. 0) (line_demand l)
    else reserve_line l db = Inl TypeErr"
proof (cases "map_get (balances db) (fst l)")
  case None
  then show ?thesis using assms(2) by (auto simp: reserve_line_def wb_free_def wb_on_hand_def wb_reserved_def)
next
  case (Some b)
  have free: "wb_free db (fst l) = bl_onHand b - bl_reserved b" "wb_on_hand db (fst l) = bl_onHand b" "wb_reserved db (fst l) = bl_reserved b"
    using Some by (simp_all add: wb_free_def wb_on_hand_def wb_reserved_def)
  let ?b = "b\<lparr>bl_reserved := bl_reserved b + snd l, bl_version := bl_version b + 1\<rparr>"
  show ?thesis
  proof (cases "snd l \<le> wb_free db (fst l)")
    case True
    have "balance_check b" using Some assms(1) by (simp add: balances_ok_def)
    then have "balance_check ?b" using True assms(2) free by (simp add: balance_check_def)
    then obtain db1 where put: "put_balance (fst l) ?b db = Inr db1" by (simp add: put_balance_def)
    have "wb_moved db db1 (\<lambda>_. 0) (line_demand l)"
      using put_balance_moved [OF assms(1) put] free by (simp add: wb_moved_def line_demand_apply)
    then show ?thesis using True Some put free by (auto simp: reserve_line_def wb_moved_def Let_def)
  qed (use Some free in \<open>simp add: reserve_line_def\<close>)
qed

lemma reserve_loop:
  assumes "balances_ok db" "\<forall>l \<in> set ls. 0 < snd l"
  shows "if \<forall>p. qty_of ls p \<le> wb_free db p then \<exists>db'. efold reserve_line ls db = Inr db' \<and> wb_moved db db' (\<lambda>_. 0) (qty_of ls)
    else efold reserve_line ls db = Inl TypeErr"
  using assms
proof (induction ls arbitrary: db)
  case Nil
  then show ?case using balances_okD by (auto simp: wb_free_def wb_moved_def)
next
  case (Cons l ls)
  have pos: "0 < snd l" "\<forall>x \<in> set ls. 0 < snd x" "\<And>p. 0 \<le> qty_of ls p"
    using Cons.prems(2) by (auto intro!: qty_of_nonneg simp: less_imp_le)
  have nn: "0 \<le> wb_free db p" for p using balances_okD [OF Cons.prems(1), of p] by (simp add: wb_free_def)
  show ?case
  proof (cases "snd l \<le> wb_free db (fst l)")
    case True
    then obtain db1 where s1: "reserve_line l db = Inr db1" "wb_moved db db1 (\<lambda>_. 0) (line_demand l)"
      using reserve_line_iff [OF Cons.prems(1) pos(1)] by auto
    have "(\<forall>p. qty_of ls p \<le> wb_free db1 p) \<longleftrightarrow> (\<forall>p. qty_of (l # ls) p \<le> wb_free db p)"
      by (simp add: wb_moved_at [OF s1(2)] qty_of_Cons_line [of l ls] algebra_simps)
    then show ?thesis
      using Cons.IH [OF wb_moved_ok [OF s1(2)] pos(2)] s1 wb_moved_trans [OF s1(2)]
      by (auto simp: qty_of_Cons_line [of l ls, abs_def] split: if_splits)
  next
    case False
    then have "\<not> qty_of (l # ls) (fst l) \<le> wb_free db (fst l)" using pos(3) [of "fst l"] by (cases l) simp
    then show ?thesis using False reserve_line_iff [OF Cons.prems(1) pos(1)] by auto
  qed
qed

lemma release_line_ok:
  assumes "balances_ok db" "0 < snd l" "snd l \<le> wb_reserved db (fst l)"
  shows "\<exists>db'. release_line l db = Inr db' \<and> wb_moved db db' (\<lambda>_. 0) (\<lambda>p. - line_demand l p)"
proof -
  obtain b where b: "map_get (balances db) (fst l) = Some b" "bl_reserved b = wb_reserved db (fst l)" "bl_onHand b = wb_on_hand db (fst l)"
    using assms(2,3) by (auto simp: wb_reserved_def wb_on_hand_def split: option.splits)
  let ?b = "b\<lparr>bl_reserved := bl_reserved b - snd l, bl_version := bl_version b + 1\<rparr>"
  have "balance_check b" using b(1) assms(1) by (simp add: balances_ok_def)
  then have "balance_check ?b" using b assms(2,3) by (simp add: balance_check_def)
  then obtain db1 where put: "put_balance (fst l) ?b db = Inr db1" by (simp add: put_balance_def)
  have "wb_moved db db1 (\<lambda>_. 0) (\<lambda>p. - line_demand l p)"
    using put_balance_moved [OF assms(1) put] b by (simp add: wb_moved_def line_demand_apply)
  then show ?thesis using b assms(3) put by (simp add: release_line_def)
qed

lemma commit_line_ok:
  assumes "balances_ok db" "commit_line r f n l db = Inr db'"
  shows "wb_moved db db' (\<lambda>p. - line_demand l p) (\<lambda>p. - line_demand l p)"
proof -
  obtain b v db1 where b: "map_get (balances db) (fst l) = Some b"
    and put: "put_balance (fst l) (b\<lparr>bl_onHand := bl_onHand b - snd l, bl_reserved := bl_reserved b - snd l,
        bl_valuation := v, bl_version := bl_version b + 1\<rparr>) db = Inr db1"
    and same: "wb_on_hand db' = wb_on_hand db1" "wb_reserved db' = wb_reserved db1"
      "wh_reservations db' = wh_reservations db1" "balances_ok db' = balances_ok db1"
    using assms(2) by (auto simp: commit_line_def Let_def ok_simps split: option.splits if_splits)
  have "wb_moved db db1 (\<lambda>p. - line_demand l p) (\<lambda>p. - line_demand l p)"
    using put_balance_moved [OF assms(1) put] b by (simp add: wb_moved_def line_demand_apply wb_on_hand_def wb_reserved_def)
  then show ?thesis using same by (simp add: wb_moved_def)
qed

lemma release_loop:
  assumes "balances_ok db" "\<forall>l \<in> set ls. 0 < snd l" "\<forall>p. qty_of ls p \<le> wb_reserved db p"
  shows "\<exists>db'. efold release_line ls db = Inr db' \<and> wb_moved db db' (\<lambda>_. 0) (\<lambda>p. - qty_of ls p)"
  using assms
proof (induction ls arbitrary: db)
  case Nil
  then show ?case by (simp add: wb_moved_def)
next
  case (Cons l ls)
  have pos: "0 < snd l" "\<forall>x \<in> set ls. 0 < snd x" "\<And>p. 0 \<le> qty_of ls p"
    using Cons.prems(2) by (auto intro!: qty_of_nonneg simp: less_imp_le)
  have "qty_of (l # ls) (fst l) \<le> wb_reserved db (fst l)" using Cons.prems(3) by blast
  then have "snd l \<le> wb_reserved db (fst l)" using pos(3) [of "fst l"] by (cases l) simp
  then obtain db1 where s1: "release_line l db = Inr db1" "wb_moved db db1 (\<lambda>_. 0) (\<lambda>p. - line_demand l p)"
    using release_line_ok [OF Cons.prems(1) pos(1)] by blast
  have "\<forall>p. qty_of ls p \<le> wb_reserved db1 p"
    using Cons.prems(3) by (simp add: wb_moved_at [OF s1(2)] qty_of_Cons_line [of l ls] algebra_simps)
  then obtain db2 where s2: "efold release_line ls db1 = Inr db2" "wb_moved db1 db2 (\<lambda>_. 0) (\<lambda>p. - qty_of ls p)"
    using Cons.IH [OF wb_moved_ok [OF s1(2)] pos(2)] by blast
  show ?case using s1(1) s2(1) wb_moved_trans [OF s1(2) s2(2)] by (simp add: qty_of_Cons_line [of l ls, abs_def])
qed

lemma commit_loop:
  assumes "balances_ok db" "efold (commit_line r f n) ls db = Inr db'"
  shows "wb_moved db db' (\<lambda>p. - qty_of ls p) (\<lambda>p. - qty_of ls p)"
  using assms
proof (induction ls arbitrary: db)
  case Nil
  then show ?case by (simp add: wb_moved_def)
next
  case (Cons l ls)
  obtain db1 where s1: "commit_line r f n l db = Inr db1" "efold (commit_line r f n) ls db1 = Inr db'"
    using Cons.prems(2) by (auto simp: ok_simps)
  note m = commit_line_ok [OF Cons.prems(1) s1(1)]
  show ?case using wb_moved_trans [OF m Cons.IH [OF wb_moved_ok [OF m] s1(2)]] by (simp add: qty_of_Cons_line [of l ls, abs_def])
qed

section \<open>The invariant\<close>

definition wr_demand :: "WarehouseReservation \<Rightarrow> place demand option" where
  "wr_demand r = (if wr_state r = HELD then Some (qty_of (wr_lines r)) else None)"

definition abs_warehouse :: "WarehouseDb \<Rightarrow> place HoldSpec" where
  "abs_warehouse db = \<lparr>sp_stock = wb_on_hand db, sp_open = open_holds wr_demand (wh_reservations db)\<rparr>"

definition pos_row :: "WarehouseReservation \<Rightarrow> bool" where
  "pos_row r \<longleftrightarrow> (\<forall>l \<in> set (wr_lines r). 0 < snd l)"

definition warehouse_ok :: "WarehouseDb \<Rightarrow> bool" where
  "warehouse_ok db \<longleftrightarrow> balances_ok db \<and> distinct (map fst (wh_reservations db)) \<and>
     (\<forall>r \<in> set (wh_reservations db). pos_row (snd r)) \<and>
     (\<forall>p. wb_reserved db p = map_sum (held_by wr_demand p) (wh_reservations db))"

lemma warehouse_okD:
  assumes "warehouse_ok db"
  shows "balances_ok db" "distinct (map fst (wh_reservations db))" "wb_reserved db p = map_sum (held_by wr_demand p) (wh_reservations db)"
    "(i, r) \<in> set (wh_reservations db) \<Longrightarrow> pos_row r"
  using assms by (auto simp: warehouse_ok_def)

lemma pos_row_nonneg: "pos_row r \<Longrightarrow> 0 \<le> qty_of (wr_lines r) p"
  unfolding pos_row_def by (intro qty_of_nonneg) (simp add: less_imp_le)

interpretation warehouse_store: hold_store wb_on_hand wb_reserved wh_reservations wr_demand warehouse_ok
proof
  fix db p i r d
  assume ok: "warehouse_ok db"
  show "distinct (map fst (wh_reservations db))" "wb_reserved db p = map_sum (held_by wr_demand p) (wh_reservations db)"
    using ok by (simp_all add: warehouse_ok_def)
  show "wb_reserved db p \<le> wb_on_hand db p" using balances_okD [OF warehouse_okD(1) [OF ok]] by blast
  show "0 \<le> d p" if "(i, r) \<in> set (wh_reservations db)" "wr_demand r = Some d" for d
    using warehouse_okD(4) [OF ok that(1)] that(2) by (auto simp: wr_demand_def pos_row_nonneg split: if_splits)
qed

text \<open>Storing a row after a move keeps the invariant when the reserved quantities follow the open holds.\<close>

lemma warehouse_ok_put:
  assumes "warehouse_ok db" "wb_moved db db' h r" "pos_row row"
    and "\<And>p. r p = held_by wr_demand p row - (case open_holds wr_demand (wh_reservations db) i of None \<Rightarrow> 0 | Some d \<Rightarrow> d p)"
  shows "warehouse_ok (put_row i row db')"
proof -
  have m: "balances_ok db'" "wh_reservations db' = wh_reservations db" "\<And>p. wb_reserved db' p = wb_reserved db p + r p"
    using assms(2) by (simp_all add: wb_moved_def)
  have "\<forall>x \<in> set (map_set i row (wh_reservations db)). pos_row (snd x)"
    using warehouse_okD(4) [OF assms(1)] assms(3) keys_map_set set_map_set by (fastforce)
  then show ?thesis
    using m assms(4) warehouse_okD(2,3) [OF assms(1)]
    by (simp add: warehouse_ok_def put_row_def map_sum_held_set distinct_map_set)
qed

lemma warehouse_ok_emit [simp]: "warehouse_ok (emit e db) = warehouse_ok db"
  by (simp add: warehouse_ok_def)

lemma put_row_same [simp]:
  "wb_on_hand (put_row i row db) = wb_on_hand db" "wh_reservations (put_row i row db) = map_set i row (wh_reservations db)"
  by (simp_all add: put_row_def)

section \<open>Requests\<close>

lemma add_reservation_pos:
  assumes "add_reservation_line l m = Inr m'" "\<forall>x \<in> set m. 0 < snd (snd x)"
  shows "\<forall>x \<in> set m'. 0 < snd (snd x)"
proof -
  obtain k v where kv: "m' = map_set k v m" "0 < snd v"
  proof (cases "map_get m ((case li_warehouseId l of None \<Rightarrow> [] | Some w \<Rightarrow> w) @ '':'' @ li_skuId l)")
    case None
    then show ?thesis using assms(1) that by (auto simp: add_reservation_line_def ok_simps Let_def split: if_splits)
  next
    case (Some v)
    then have "0 < snd v" using assms(2) by (auto dest!: map_get_in_set)
    then show ?thesis using Some assms(1) that by (cases v) (auto simp: add_reservation_line_def ok_simps Let_def split: if_splits)
  qed
  then show ?thesis using assms(2) by (auto dest!: set_map_set_elem)
qed

lemma normalize_reservation_pos: "normalizeReservationLines lc ls = Inr ls' \<Longrightarrow> \<forall>l \<in> set ls'. 0 < snd l"
proof -
  assume "normalizeReservationLines lc ls = Inr ls'"
  then obtain m where m: "efold add_reservation_line ls [] = Inr m" "ls' = js_sort (reservation_compare lc) (map snd m)"
    by (auto simp: normalizeReservationLines_def ok_simps split: if_splits)
  have "\<forall>x \<in> set m. 0 < snd (snd x)"
    by (rule efold_invariant [OF m(1)]) (use add_reservation_pos in auto)
  then show ?thesis by (auto simp: m(2))
qed

definition resolve_sku :: "WarehouseDb \<Rightarrow> norm_line \<Rightarrow> norm_line wh_result" where
  "resolve_sku db l = ebind (assertCatalogSkuEligible db (snd (fst l))) (\<lambda>sku. Inr ((fst (fst l), sku), snd l))"

definition shortages_of :: "WarehouseDb \<Rightarrow> norm_line list \<Rightarrow> shortage list" where
  "shortages_of db ls = map (\<lambda>l. (fst l, snd l, max 0 (wb_free db (fst l)))) (filter (\<lambda>l. wb_free db (fst l) < snd l) ls)"

lemma check_loop:
  "efold (check_line db) ls s = ebind (emap (resolve_sku db) ls) (\<lambda>ls'. Inr (fst s @ ls', snd s @ shortages_of db ls'))"
proof (induction ls arbitrary: s)
  case (Cons l ls)
  show ?case
  proof (cases "assertCatalogSkuEligible db (snd (fst l))")
    case (Inr sku)
    have free: "(case map_get (balances db) p of None \<Rightarrow> 0 | Some b \<Rightarrow> bl_onHand b - bl_reserved b) = wb_free db p" for p
      by (simp add: wb_free_def wb_on_hand_def wb_reserved_def split: option.splits)
    have "check_line db l s = Inr (fst s @ [((fst (fst l), sku), snd l)], snd s @ shortages_of db [((fst (fst l), sku), snd l)])"
      by (auto simp: check_line_def Inr Let_def free shortages_of_def)
    then show ?thesis
      by (cases "emap (resolve_sku db) ls") (simp_all add: Cons.IH resolve_sku_def [of db l] Inr shortages_of_def)
  qed (simp add: check_line_def resolve_sku_def)
qed (simp add: shortages_of_def)

text \<open>
  The lines a request asks for: normalised, in the branch's warehouses, with SKU names resolved; an error is the
  error of the request.
\<close>

definition request_lines :: "(string \<Rightarrow> string \<Rightarrow> int) \<Rightarrow> WarehouseDb \<Rightarrow> CreateWarehouseReservationRequest \<Rightarrow> norm_line list wh_result" where
  "request_lines lc db req =
     ebind (normalizeReservationLines lc (rq_lines req)) (\<lambda>inputLines.
       if (rq_callerService req = ''sales'' \<and> \<not> truthy (rq_branchId req)) \<or>
          (\<not> truthy (rq_branchId req) \<and> (\<exists>l \<in> set inputLines. fst (fst l) = [])) then Inl BranchRequired
       else ebind (branch_lines lc db (rq_branchId req) inputLines) (\<lambda>ls.
            ebind (emap (\<lambda>l. assertActiveWarehouse db (fst (fst l))) ls) (\<lambda>_. emap (resolve_sku db) ls)))"

definition key_ok :: "string option \<Rightarrow> bool" where
  "key_ok k \<longleftrightarrow> (let key = js_trim (case k of None \<Rightarrow> [] | Some k \<Rightarrow> k) in key \<noteq> [] \<and> length key \<le> 128)"

lemma resolve_pos:
  assumes "emap (resolve_sku db) ls = Inr ls'" "\<forall>l \<in> set ls. 0 < snd l"
  shows "\<forall>l \<in> set ls'. 0 < snd l"
proof
  fix l'
  assume "l' \<in> set ls'"
  then obtain l where "l \<in> set ls" "resolve_sku db l = Inr l'"
    using assms(1) by (fastforce simp: emap_Inr_iff list_all2_conv_all_nth in_set_conv_nth)
  then show "0 < snd l'" using assms(2) by (auto simp: resolve_sku_def ok_simps)
qed

lemma request_linesE:
  assumes "request_lines lc db req = Inr ls"
  obtains ls0 ls1 u where "normalizeReservationLines lc (rq_lines req) = Inr ls0"
    "\<not> (rq_callerService req = ''sales'' \<and> \<not> truthy (rq_branchId req))"
    "\<not> (\<not> truthy (rq_branchId req) \<and> (\<exists>l \<in> set ls0. fst (fst l) = []))"
    "branch_lines lc db (rq_branchId req) ls0 = Inr ls1" "emap (\<lambda>l. assertActiveWarehouse db (fst (fst l))) ls1 = Inr u"
    "emap (resolve_sku db) ls1 = Inr ls"
  using assms unfolding request_lines_def ebind_eq_Inr if_Inl_eq_Inr de_Morgan_disj by blast

lemma branch_lines_pos:
  assumes "branch_lines lc db b ls = Inr ls'" "\<forall>l \<in> set ls. 0 < snd l"
  shows "\<forall>l \<in> set ls'. 0 < snd l"
proof (cases "truthy b")
  case True
  then obtain xs where "normalizeReservationLines lc xs = Inr ls'" using assms(1) by (auto simp: branch_lines_def ok_simps)
  then show ?thesis by (rule normalize_reservation_pos)
qed (use assms in \<open>simp add: branch_lines_def\<close>)

lemma request_lines_pos: "request_lines lc db req = Inr ls \<Longrightarrow> \<forall>l \<in> set ls. 0 < snd l"
  by (elim request_linesE) (rule resolve_pos, assumption, rule branch_lines_pos, assumption, rule normalize_reservation_pos)

text \<open>A new request, with its key unused: what is left of the method.\<close>

definition request_key :: "string option \<Rightarrow> string" where
  "request_key k = js_trim (case k of None \<Rightarrow> [] | Some k \<Rightarrow> k)"

lemma reserve_unfold:
  assumes "key_ok k" "find_by_key db (rq_callerService req) (request_key k) = None" "request_lines lc db req = Inr ls"
  shows "\<exists>ls0. normalizeReservationLines lc (rq_lines req) = Inr ls0 \<and> (\<forall>n now. reserveWarehouseStock lc digest db k req n now =
    (if shortages_of db ls \<noteq> [] then Inl (Shortages (shortages_of db ls))
     else ebind (place_hold db req (request_key k) (hashReservationRequest digest req ls0) ls n now) (\<lambda>db'. Inr (db', n, False))))"
proof -
  obtain ls0 ls1 u where l: "normalizeReservationLines lc (rq_lines req) = Inr ls0"
    "\<not> (rq_callerService req = ''sales'' \<and> \<not> truthy (rq_branchId req))"
    "\<not> (\<not> truthy (rq_branchId req) \<and> (\<exists>l \<in> set ls0. fst (fst l) = []))"
    "branch_lines lc db (rq_branchId req) ls0 = Inr ls1" and u: "emap (\<lambda>l. assertActiveWarehouse db (fst (fst l))) ls1 = Inr u"
    and r: "emap (resolve_sku db) ls1 = Inr ls"
    using assms(3) by (rule request_linesE)
  have key: "request_key k \<noteq> []" "\<not> length (request_key k) > 128"
    using assms(1) by (auto simp: key_ok_def request_key_def Let_def)
  have "reserveWarehouseStock lc digest db k req n now =
    (if shortages_of db ls \<noteq> [] then Inl (Shortages (shortages_of db ls))
     else ebind (place_hold db req (request_key k) (hashReservationRequest digest req ls0) ls n now) (\<lambda>db'. Inr (db', n, False)))" for n now
    unfolding reserveWarehouseStock_def request_key_def [symmetric] Let_def
    using key assms(2) l(2,3) by (simp add: l u r check_loop del: not_not split del: if_split)
  then show ?thesis using l(1) by blast
qed

lemma place_hold_outcome:
  assumes "warehouse_ok db" "n \<notin> fst ` set (wh_reservations db)" "\<forall>l \<in> set ls. 0 < snd l"
  shows "if \<forall>p. qty_of ls p \<le> wb_free db p
    then \<exists>db'. place_hold db req key sha ls n now = Inr db' \<and> warehouse_ok db' \<and> wb_on_hand db' = wb_on_hand db \<and>
      (\<forall>p. wb_reserved db' p = wb_reserved db p + qty_of ls p) \<and>
      wh_reservations db' = map_set n (new_reservation req key sha ls now) (wh_reservations db)
    else place_hold db req key sha ls n now = Inl TypeErr"
proof -
  let ?row = "new_reservation req key sha ls now"
  have none: "open_holds wr_demand (wh_reservations db) n = None"
    using assms(2) by (force simp: open_holds_def dest: map_get_in_set split: option.splits)
  have row: "pos_row ?row" "wr_demand ?row = Some (qty_of ls)" using assms(3) by (simp_all add: pos_row_def wr_demand_def new_reservation_def)
  show ?thesis
  proof (cases "\<forall>p. qty_of ls p \<le> wb_free db p")
    case True
    then obtain db1 where d: "efold reserve_line ls db = Inr db1" "wb_moved db db1 (\<lambda>_. 0) (qty_of ls)"
      using reserve_loop [OF warehouse_okD(1) [OF assms(1)] assms(3)] by auto
    have "warehouse_ok (put_row n ?row db1)"
      using warehouse_ok_put [OF assms(1) d(2) row(1), of n] none row(2) by (simp add: held_by_def)
    then show ?thesis
      using True assms(2) d by (auto simp: place_hold_def wb_moved_def put_row_def fun_eq_iff)
  next
    case False
    then have "efold reserve_line ls db = Inl TypeErr" using reserve_loop [OF warehouse_okD(1) [OF assms(1)] assms(3)] by auto
    then show ?thesis using False assms(2) by (simp add: place_hold_def)
  qed
qed

lemma shortages_fit:
  assumes "\<forall>l \<in> set ls. 0 < snd l" "\<forall>p. qty_of ls p \<le> wb_free db p"
  shows "shortages_of db ls = []"
proof -
  have "snd l \<le> qty_of ls (fst l)" if "l \<in> set ls" for l
    using that assms(1)
  proof (induction ls)
    case (Cons x xs)
    have "0 \<le> qty_of xs p" for p using Cons.prems(2) by (intro qty_of_nonneg) (auto simp: less_imp_le)
    then show ?case using Cons by (cases x) (auto simp: add_increasing add_increasing2 less_imp_le)
  qed simp
  then have "\<forall>l \<in> set ls. snd l \<le> wb_free db (fst l)" using assms(2) order_trans by blast
  then show ?thesis by (simp add: shortages_of_def filter_empty_conv not_less)
qed

lemma reserve_outcome_warehouse:
  assumes "warehouse_ok db" "n \<notin> fst ` set (wh_reservations db)" "key_ok k"
    and "find_by_key db (rq_callerService req) (request_key k) = None" "request_lines lc db req = Inr ls"
  shows "if \<forall>p. qty_of ls p \<le> wb_free db p
    then \<exists>db' ls0. reserveWarehouseStock lc digest db k req n now = Inr (db', n, False) \<and> warehouse_ok db' \<and>
      normalizeReservationLines lc (rq_lines req) = Inr ls0 \<and>
      wb_on_hand db' = wb_on_hand db \<and> (\<forall>p. wb_reserved db' p = wb_reserved db p + qty_of ls p) \<and>
      wh_reservations db' = map_set n (new_reservation req (request_key k) (hashReservationRequest digest req ls0) ls now) (wh_reservations db)
    else \<exists>e. reserveWarehouseStock lc digest db k req n now = Inl e"
proof -
  note pos = request_lines_pos [OF assms(5)]
  obtain ls0 where u: "normalizeReservationLines lc (rq_lines req) = Inr ls0"
    "reserveWarehouseStock lc digest db k req n now =
      (if shortages_of db ls \<noteq> [] then Inl (Shortages (shortages_of db ls))
       else ebind (place_hold db req (request_key k) (hashReservationRequest digest req ls0) ls n now) (\<lambda>db'. Inr (db', n, False)))"
    using reserve_unfold [OF assms(3-5), of digest] by blast
  show ?thesis
    using place_hold_outcome [OF assms(1,2) pos, of req "request_key k" "hashReservationRequest digest req ls0" now]
      shortages_fit [OF pos, of db] u by (auto split: if_splits)
qed

text \<open>A second call with the same key answers with the first reservation.\<close>

lemma map_set_new: "k \<notin> fst ` set m \<Longrightarrow> map_set k v m = m @ [(k, v)]"
  by (induction m) auto

lemma reserve_replay:
  assumes "key_ok k" "find_by_key db (rq_callerService req) (request_key k) = Some (i, row)"
    and "request_lines lc db0 req = Inr ls" "normalizeReservationLines lc (rq_lines req) = Inr ls0"
  shows "reserveWarehouseStock lc digest db k req n now =
    (if wr_requestSha256 row \<noteq> hashReservationRequest digest req ls0 then Inl (Conflict WR_IDEMPOTENCY_CONFLICT) else Inr (db, i, True))"
proof -
  have l: "\<not> (rq_callerService req = ''sales'' \<and> \<not> truthy (rq_branchId req))"
    "\<not> (\<not> truthy (rq_branchId req) \<and> (\<exists>l \<in> set ls0. fst (fst l) = []))"
    using request_linesE [OF assms(3)] assms(4) by auto
  have key: "request_key k \<noteq> []" "\<not> length (request_key k) > 128"
    using assms(1) by (auto simp: key_ok_def request_key_def Let_def)
  show ?thesis
    unfolding reserveWarehouseStock_def request_key_def [symmetric] Let_def
    by (simp add: assms(2,4) key l del: not_not split del: if_split)
qed

section \<open>Settling\<close>

lemma qty_of_lines_of [simp]: "qty_of (lines_of r) = qty_of (wr_lines r)" "set (lines_of r) = set (wr_lines r)"
  by (simp_all add: lines_of_def fun_eq_iff)

lemma held_row:
  assumes "warehouse_ok db" "map_get (wh_reservations db) i = Some r" "wr_state r = HELD"
  shows "open_holds wr_demand (wh_reservations db) i = Some (qty_of (wr_lines r))" "\<forall>l \<in> set (wr_lines r). 0 < snd l"
    "\<forall>p. qty_of (wr_lines r) p \<le> wb_reserved db p"
proof -
  have d: "wr_demand r = Some (qty_of (wr_lines r))" using assms(3) by (simp add: wr_demand_def)
  then show "open_holds wr_demand (wh_reservations db) i = Some (qty_of (wr_lines r))" using assms(2) by (simp add: open_holds_def)
  show "\<forall>l \<in> set (wr_lines r). 0 < snd l"
    using warehouse_okD(4) [OF assms(1) map_get_in_set [OF assms(2)]] by (simp add: pos_row_def)
  show "\<forall>p. qty_of (wr_lines r) p \<le> wb_reserved db p" using warehouse_store.open_covered [OF assms(1,2) d] by blast
qed

text \<open>Closing a hold after its quantities were given back or taken.\<close>

lemma close_row:
  assumes "warehouse_ok db" "map_get (wh_reservations db) i = Some r" "wr_state r = HELD"
    and "wb_moved db db' h (\<lambda>p. - qty_of (wr_lines r) p)" "wr_state r' \<noteq> HELD" "wr_lines r' = wr_lines r"
  shows "warehouse_ok (put_row i r' db')"
proof (rule warehouse_ok_put [OF assms(1,4)])
  show "pos_row r'" using held_row(2) [OF assms(1-3)] assms(6) by (simp add: pos_row_def)
  show "- qty_of (wr_lines r) p = held_by wr_demand p r' - (case open_holds wr_demand (wh_reservations db) i of None \<Rightarrow> 0 | Some d \<Rightarrow> d p)" for p
    using held_row(1) [OF assms(1-3)] assms(5) by (simp add: held_by_def wr_demand_def)
qed

lemma release_held:
  assumes "warehouse_ok db" "map_get (wh_reservations db) i = Some r" "wr_state r = HELD"
  shows "\<exists>db1. efold release_line (lines_of r) db = Inr db1 \<and> wb_moved db db1 (\<lambda>_. 0) (\<lambda>p. - qty_of (wr_lines r) p)"
  using release_loop [OF warehouse_okD(1) [OF assms(1)], of "lines_of r"] held_row [OF assms] by simp

text \<open>Both ways of giving a hold back have the same effect.\<close>

definition gives_back :: "WarehouseDb \<Rightarrow> string \<Rightarrow> WarehouseReservation \<Rightarrow> WarehouseDb \<Rightarrow> bool" where
  "gives_back db i r db' \<longleftrightarrow> warehouse_ok db' \<and> wb_on_hand db' = wb_on_hand db \<and>
     (\<forall>p. wb_reserved db' p = wb_reserved db p - qty_of (wr_lines r) p) \<and>
     (\<exists>r'. wh_reservations db' = map_set i r' (wh_reservations db) \<and> wr_state r' \<in> {RELEASED, EXPIRED})"

lemma put_row_gives_back:
  assumes "warehouse_ok db" "map_get (wh_reservations db) i = Some r" "wr_state r = HELD"
    and "wb_moved db db1 (\<lambda>_. 0) (\<lambda>p. - qty_of (wr_lines r) p)" "wr_state r' \<in> {RELEASED, EXPIRED}" "wr_lines r' = wr_lines r"
  shows "gives_back db i r (emit e (put_row i r' db1))"
proof -
  have "warehouse_ok (put_row i r' db1)" using close_row [OF assms(1-4), of r'] assms(5,6) by auto
  moreover have "wb_reserved (put_row i r' db1) = wb_reserved db1" by (simp add: put_row_def)
  ultimately show ?thesis using assms(4,5) by (auto simp: gives_back_def wb_moved_def fun_eq_iff)
qed

lemma release_ok:
  assumes "warehouse_ok db" "map_get (wh_reservations db) i = Some r" "wr_state r = HELD"
  shows "\<exists>db'. releaseWarehouseReservation db i why n = Inr db' \<and> gives_back db i r db'"
proof -
  obtain db1 where d: "efold release_line (lines_of r) db = Inr db1" "wb_moved db db1 (\<lambda>_. 0) (\<lambda>p. - qty_of (wr_lines r) p)"
    using release_held [OF assms] by blast
  show ?thesis using assms(2,3) d(1) by (auto simp: releaseWarehouseReservation_def Let_def intro!: put_row_gives_back [OF assms d(2)])
qed

lemma expire_ok:
  assumes "warehouse_ok db" "map_get (wh_reservations db) i = Some r" "wh_due now r"
  shows "\<exists>db'. expireWarehouseReservation db i now = Inr (db', True) \<and> gives_back db i r db'"
proof -
  have held: "wr_state r = HELD" using assms(3) by (simp add: wh_due_def)
  obtain db1 where d: "efold release_line (lines_of r) db = Inr db1" "wb_moved db db1 (\<lambda>_. 0) (\<lambda>p. - qty_of (wr_lines r) p)"
    using release_held [OF assms(1,2) held] by blast
  show ?thesis using assms(2,3) d(1) by (auto simp: expireWarehouseReservation_def intro!: put_row_gives_back [OF assms(1,2) held d(2)])
qed

lemma commit_effect:
  assumes "warehouse_ok db" "commitWarehouseReservation db i f n = Inr db'" "map_get (wh_reservations db) i = Some r" "wr_state r = HELD"
  shows "warehouse_ok db'" "\<forall>p. wb_on_hand db' p = wb_on_hand db p - qty_of (wr_lines r) p"
    "\<forall>p. wb_reserved db' p = wb_reserved db p - qty_of (wr_lines r) p"
    "\<exists>r'. wh_reservations db' = map_set i r' (wh_reservations db) \<and> wr_state r' = COMMITTED"
proof -
  let ?r = "r\<lparr>wr_state := COMMITTED, wr_fulfillmentId := coalesce f (wr_fulfillmentId r), wr_note := coalesce n (wr_note r)\<rparr>"
  obtain db1 where d: "efold (commit_line r f n) (lines_of r) db = Inr db1"
    "db' = emit (INVENTORY_RESERVATION_COMMITTED i (lines_of r)) (put_row i ?r db1)"
    using assms(2-4) by (auto simp: commitWarehouseReservation_def ok_simps)
  have m: "wb_moved db db1 (\<lambda>p. - qty_of (wr_lines r) p) (\<lambda>p. - qty_of (wr_lines r) p)"
    using commit_loop [OF warehouse_okD(1) [OF assms(1)] d(1)] by simp
  show "warehouse_ok db'" using close_row [OF assms(1,3,4) m, of ?r] by (simp add: d(2))
  show "\<forall>p. wb_on_hand db' p = wb_on_hand db p - qty_of (wr_lines r) p" "\<forall>p. wb_reserved db' p = wb_reserved db p - qty_of (wr_lines r) p"
    using m by (simp_all add: d(2) wb_moved_def put_row_def)
  show "\<exists>r'. wh_reservations db' = map_set i r' (wh_reservations db) \<and> wr_state r' = COMMITTED"
    using m by (auto simp: d(2) wb_moved_def intro!: exI [of _ ?r])
qed

section \<open>When a commit succeeds\<close>

text \<open>The average cost and the value of what is on hand fit into a JavaScript number.\<close>

definition priced :: "WarehouseDb \<Rightarrow> place \<Rightarrow> bool" where
  "priced db p \<longleftrightarrow> (\<forall>b. map_get (balances db) p = Some b \<longrightarrow>
     bl_avgUnitCost b \<le> max_safe \<and> half_up (bl_onHand b * bl_avgUnitCost b) 1000 \<le> max_safe)"

lemma priced_cong: "balances a = balances b \<Longrightarrow> priced a p = priced b p"
  by (simp add: priced_def)

lemma parseMoney_show: "0 \<le> n \<Longrightarrow> n \<le> max_safe \<Longrightarrow> parseMoneyToVnd (Str (show_int n)) = Inr n"
  by (simp add: parseMoneyToVnd_def show_int_def Let_def all_digits_trim all_show_digits canonical_show_digits num_of_string_digits
      is_safe_integer_of_int)

lemma commit_line_succeeds:
  assumes "balances_ok db" "0 < snd l" "snd l \<le> wb_reserved db (fst l)" "priced db (fst l)"
  shows "\<exists>db'. commit_line r f n l db = Inr db' \<and> (\<forall>p. priced db p \<longrightarrow> priced db' p)"
proof -
  obtain b where b: "map_get (balances db) (fst l) = Some b" "bl_reserved b = wb_reserved db (fst l)"
    using assms(2,3) by (auto simp: wb_reserved_def split: option.splits)
  let ?q = "snd l" and ?c = "bl_avgUnitCost b" and ?h = "bl_onHand b"
  have chk: "balance_check b" using b(1) assms(1) by (simp add: balances_ok_def)
  have c: "0 \<le> ?c" "?c \<le> max_safe" "half_up (?h * ?c) 1000 \<le> max_safe" and h: "?q \<le> ?h" "?q \<le> bl_reserved b" "0 \<le> ?h"
    using chk assms(2-4) b by (auto simp: balance_check_def priced_def)
  let ?v = "half_up ((?h - ?q) * ?c) 1000"
  have "(?h - ?q) * ?c \<le> ?h * ?c" using c(1) assms(2) by (simp add: mult_right_mono)
  then have v: "0 \<le> ?v" "?v \<le> max_safe"
    using half_up_mono [of "(?h - ?q) * ?c" "?h * ?c" 1000] c h by (auto intro!: half_up_nonneg)
  have "\<exists>w. computeValuationAfterDeduction (formatMilliToDecimal ?h) (num_arg ?c) (formatMilliToDecimal ?q) = Inr w \<and> newValuationAmount w = ?v"
    unfolding deduction_ok_iff formatMilliToDecimal_eq
    using c v h assms(2) inv_money.in_num_arg [of ?c ?c]
    by (intro exI [of _ "\<lparr>newOnHandMilli = ?h - ?q, newAvgCostVnd = ?c, newValuationVnd = ?v, newOnHandQty = formatMilliToQty (?h - ?q),
        newAvgUnitCost = ?c, newValuationAmount = ?v\<rparr>"]) (auto simp: parseQty_format QTY_SCALE_def)
  then obtain w where w: "computeValuationAfterDeduction (formatMilliToDecimal ?h) (num_arg ?c) (formatMilliToDecimal ?q) = Inr w"
    "newValuationAmount w = ?v" by blast
  let ?b = "b\<lparr>bl_onHand := ?h - ?q, bl_reserved := bl_reserved b - ?q, bl_valuation := ?v, bl_version := bl_version b + 1\<rparr>"
  have put: "put_balance (fst l) ?b db = Inr (db\<lparr>balances := map_set (fst l) ?b (balances db)\<rparr>)"
    using chk h v assms(2) by (simp add: put_balance_def balance_check_def)
  have keep: "priced (db\<lparr>balances := map_set (fst l) ?b (balances db)\<rparr>) p" if "priced db p" for p
    using that c v by (simp add: priced_def)
  have vn: "vndToNumber ?c = Inr ?c" using c by (simp add: vndToNumber_iff)
  have no: "\<not> bl_reserved b < ?q" "\<not> ?h < ?q" using h by simp_all
  have "\<exists>db'. commit_line r f n l db = Inr db' \<and> balances db' = map_set (fst l) ?b (balances db)"
    unfolding commit_line_def Let_def
    by (simp only: b(1) parseMoney_show [OF c(1,2)] lift_inv_def vn w put no sum.case option.case ebind_Inr if_False simp_thms
        sum.inject) simp
  then obtain db' where d: "commit_line r f n l db = Inr db'" "balances db' = map_set (fst l) ?b (balances db)" by blast
  have "priced db' p = priced (db\<lparr>balances := map_set (fst l) ?b (balances db)\<rparr>) p" for p by (rule priced_cong) (simp add: d(2))
  then show ?thesis using d(1) keep by blast
qed

lemma commit_loop_succeeds:
  assumes "balances_ok db" "\<forall>l \<in> set ls. 0 < snd l" "\<forall>p. qty_of ls p \<le> wb_reserved db p" "\<forall>l \<in> set ls. priced db (fst l)"
  shows "\<exists>db'. efold (commit_line r f n) ls db = Inr db'"
  using assms
proof (induction ls arbitrary: db)
  case (Cons l ls)
  have pos: "0 < snd l" "\<forall>x \<in> set ls. 0 < snd x" "\<And>p. 0 \<le> qty_of ls p"
    using Cons.prems(2) by (auto intro!: qty_of_nonneg simp: less_imp_le)
  have "qty_of (l # ls) (fst l) \<le> wb_reserved db (fst l)" using Cons.prems(3) by blast
  then have "snd l \<le> wb_reserved db (fst l)" using pos(3) [of "fst l"] by (simp add: qty_of_Cons_line [of l ls] line_demand_apply)
  then obtain db1 where s1: "commit_line r f n l db = Inr db1" "\<forall>p. priced db p \<longrightarrow> priced db1 p"
    using commit_line_succeeds [OF Cons.prems(1) pos(1)] Cons.prems(4) by fastforce
  note m = commit_line_ok [OF Cons.prems(1) s1(1)]
  have "\<forall>p. qty_of ls p \<le> wb_reserved db1 p"
    using Cons.prems(3) by (simp add: wb_moved_at [OF m] qty_of_Cons_line [of l ls] algebra_simps)
  then show ?case using Cons.IH [OF wb_moved_ok [OF m] pos(2)] s1 Cons.prems(4) by simp
qed simp

lemma commit_succeeds:
  assumes "warehouse_ok db" "map_get (wh_reservations db) i = Some r" "wr_state r = HELD" "\<forall>l \<in> set (wr_lines r). priced db (fst l)"
  shows "\<exists>db'. commitWarehouseReservation db i f n = Inr db'"
  using commit_loop_succeeds [OF warehouse_okD(1) [OF assms(1)], of "lines_of r" r f n] held_row [OF assms(1-3)] assms(2-4)
  by (auto simp: commitWarehouseReservation_def)

section \<open>Runs\<close>

text \<open>
  Each rule is one transaction of this service. Other modules of the inventory service (receipts, issues, transfers, stocktakes,
  catalogue and branch projections) change the tables as well; none of them writes reservations or reserved quantities.
\<close>

inductive wh_move :: "WarehouseDb \<Rightarrow> WarehouseDb \<Rightarrow> bool" where
  wm_reserve: "reserveWarehouseStock lc digest db k req n now = Inr (db', i, replayed) \<Longrightarrow> wh_move db db'"
| wm_commit: "commitWarehouseReservation db i f n = Inr db' \<Longrightarrow> wh_move db db'"
| wm_release: "releaseWarehouseReservation db i why n = Inr db' \<Longrightarrow> wh_move db db'"
| wm_expire: "expireWarehouseReservation db i now = Inr (db', done') \<Longrightarrow> wh_move db db'"
| wm_expire_due: "expireDueWarehouseReservations db now m = (db', c) \<Longrightarrow> wh_move db db'"
| wm_expire_job: "expireDueWarehouseReservationsOfAllTenants db now m = (db', n) \<Longrightarrow> wh_move db db'"
| wm_other: "wh_reservations db' = wh_reservations db \<Longrightarrow> (\<And>p. wb_reserved db' p = wb_reserved db p) \<Longrightarrow> balances_ok db' \<Longrightarrow> wh_move db db'"

definition empty_warehouse :: WarehouseDb where
  "empty_warehouse = \<lparr>balances = [], wh_reservations = [], balance_ledger = [], warehouses = [], sku_projection = [],
     thresholds = [], wh_outbox = []\<rparr>"

inductive wh_reach :: "WarehouseDb \<Rightarrow> bool" where
  wr_empty: "wh_reach empty_warehouse"
| wr_move: "wh_reach db \<Longrightarrow> wh_move db db' \<Longrightarrow> wh_reach db'"

definition wh_refines :: "WarehouseDb \<Rightarrow> WarehouseDb \<Rightarrow> bool" where
  "wh_refines db db' \<longleftrightarrow> warehouse_ok db' \<and> spec_reach (abs_warehouse db) (abs_warehouse db')"

lemma wh_refines_refl: "warehouse_ok db \<Longrightarrow> wh_refines db db"
  by (simp add: wh_refines_def spec_start)

lemma wh_refines_trans: "wh_refines a b \<Longrightarrow> wh_refines b c \<Longrightarrow> wh_refines a c"
  unfolding wh_refines_def using spec_reach_trans by blast

lemma wh_refines_step: "warehouse_ok db' \<Longrightarrow> spec_step (abs_warehouse db) (abs_warehouse db') \<Longrightarrow> wh_refines db db'"
  unfolding wh_refines_def using spec_reach_step spec_start by blast

lemma gives_back_refines:
  assumes "warehouse_ok db" "map_get (wh_reservations db) i = Some r" "wr_state r = HELD" "gives_back db i r db'"
  shows "wh_refines db db'"
proof -
  obtain r' where r': "wh_reservations db' = map_set i r' (wh_reservations db)" "wr_demand r' = None"
    using assms(4) by (auto simp: gives_back_def wr_demand_def)
  have "spec_step (abs_warehouse db) (abs_warehouse db')"
    unfolding abs_warehouse_def
    by (rule warehouse_store.row_closed [OF _ r'(1) held_row(1) [OF assms(1-3)] r'(2)]) (use assms(4) in \<open>simp add: gives_back_def\<close>)
  then show ?thesis using assms(4) by (intro wh_refines_step) (simp_all add: gives_back_def)
qed

lemma commit_refines_warehouse:
  assumes "warehouse_ok db" "commitWarehouseReservation db i f n = Inr db'"
  shows "wh_refines db db'"
proof (cases "\<exists>r. map_get (wh_reservations db) i = Some r \<and> wr_state r = HELD")
  case True
  then obtain r where r: "map_get (wh_reservations db) i = Some r" "wr_state r = HELD" by blast
  note e = commit_effect [OF assms r]
  obtain r' where r': "wh_reservations db' = map_set i r' (wh_reservations db)" "wr_demand r' = None"
    using e(4) by (auto simp: wr_demand_def)
  have "spec_step (abs_warehouse db) (abs_warehouse db')"
    unfolding abs_warehouse_def
    by (rule warehouse_store.row_used [OF _ r'(1) held_row(1) [OF assms(1) r] r'(2)]) (simp add: e(2) fun_eq_iff)
  then show ?thesis using e(1) by (rule wh_refines_step [rotated])
next
  case False
  then have "db' = db" using assms(2) by (auto simp: commitWarehouseReservation_def split: option.splits if_splits)
  then show ?thesis using assms(1) wh_refines_refl by simp
qed

lemma release_refines_warehouse:
  assumes "warehouse_ok db" "releaseWarehouseReservation db i why n = Inr db'"
  shows "wh_refines db db'"
proof (cases "\<exists>r. map_get (wh_reservations db) i = Some r \<and> wr_state r = HELD")
  case True
  then obtain r where r: "map_get (wh_reservations db) i = Some r" "wr_state r = HELD" by blast
  then show ?thesis using release_ok [OF assms(1) r, of why n] assms gives_back_refines [OF assms(1) r] by auto
next
  case False
  have "wr_state r = HELD \<or> wr_state r = RELEASED \<or> wr_state r = EXPIRED \<or> wr_state r = COMMITTED" for r by (cases "wr_state r") auto
  then have "db' = db" using assms(2) False by (auto simp: releaseWarehouseReservation_def split: option.splits if_splits)
  then show ?thesis using assms(1) wh_refines_refl by simp
qed

lemma expire_refines_warehouse:
  assumes "warehouse_ok db" "expireWarehouseReservation db i now = Inr (db', c)"
  shows "wh_refines db db'"
proof (cases "\<exists>r. map_get (wh_reservations db) i = Some r \<and> wh_due now r")
  case True
  then obtain r where r: "map_get (wh_reservations db) i = Some r" "wh_due now r" by blast
  then have "wr_state r = HELD" by (simp add: wh_due_def)
  then show ?thesis using expire_ok [OF assms(1) r] assms gives_back_refines [OF assms(1) r(1)] by auto
next
  case False
  then have "db' = db" using assms(2) by (auto simp: expireWarehouseReservation_def split: option.splits if_splits)
  then show ?thesis using assms(1) wh_refines_refl by simp
qed

lemma expire_due_refines:
  assumes "warehouse_ok (fst s)"
  shows "wh_refines (fst s) (fst (fold (expire_hold now) is s))"
  using assms
proof (induction "is" arbitrary: s)
  case (Cons i "is")
  have "wh_refines (fst s) (fst (expire_hold now i s))"
    using expire_refines_warehouse [OF Cons.prems, of i now] wh_refines_refl [OF Cons.prems]
    by (auto simp: expire_hold_def split: sum.splits prod.splits)
  moreover from this have "wh_refines (fst (expire_hold now i s)) (fst (fold (expire_hold now) is (expire_hold now i s)))"
    by (intro Cons.IH) (simp add: wh_refines_def)
  ultimately show ?case using wh_refines_trans by simp
qed (simp add: wh_refines_refl)

lemma expire_each_refines: "warehouse_ok db \<Longrightarrow> wh_refines db (fst (expire_each now is db n))"
proof (induction "is" arbitrary: db n)
  case (Cons i "is")
  show ?case
  proof (cases "expireWarehouseReservation db i now")
    case (Inr s)
    obtain db1 d where s: "s = (db1, d)" by (cases s)
    have one: "wh_refines db db1" using expire_refines_warehouse [OF Cons.prems] Inr s by blast
    then have "wh_refines db1 (fst (expire_each now is db1 m))" for m by (intro Cons.IH) (simp add: wh_refines_def)
    then show ?thesis using wh_refines_trans [OF one] by (simp add: Inr s)
  qed (simp add: wh_refines_refl Cons.prems)
qed (simp add: wh_refines_refl)

lemma place_hold_refines:
  assumes "warehouse_ok db" "place_hold db req key sha ls n now = Inr db'" "\<forall>l \<in> set ls. 0 < snd l"
  shows "wh_refines db db'"
proof -
  have fresh: "n \<notin> fst ` set (wh_reservations db)" using assms(2) by (simp add: place_hold_def split: if_splits)
  then have d: "warehouse_ok db'" "wb_on_hand db' = wb_on_hand db"
    "wh_reservations db' = map_set n (new_reservation req key sha ls now) (wh_reservations db)"
    using place_hold_outcome [OF assms(1) fresh assms(3), of req key sha now] assms(2) by (auto split: if_splits)
  have none: "open_holds wr_demand (wh_reservations db) n = None"
    using fresh by (force simp: open_holds_def dest: map_get_in_set split: option.splits)
  have "spec_step (abs_warehouse db) (abs_warehouse db')"
    unfolding abs_warehouse_def
    by (rule warehouse_store.row_opened [OF assms(1) d none]) (simp add: wr_demand_def new_reservation_def)
  then show ?thesis using d(1) by (rule wh_refines_step [rotated])
qed

lemma reserve_refines_warehouse:
  assumes "warehouse_ok db" "reserveWarehouseStock lc digest db k req n now = Inr (db', i, c)"
  shows "wh_refines db db'"
proof (cases "db' = db")
  case False
  then obtain ls0 ls1 ls sha where l: "normalizeReservationLines lc (rq_lines req) = Inr ls0" "branch_lines lc db (rq_branchId req) ls0 = Inr ls1"
    "emap (resolve_sku db) ls1 = Inr ls" "place_hold db req (request_key k) sha ls n now = Inr db'"
    using assms(2) unfolding reserveWarehouseStock_def request_key_def [symmetric] Let_def check_loop
    by (auto simp: ok_simps split: if_splits option.splits)
  have "\<forall>l \<in> set ls. 0 < snd l"
    by (rule resolve_pos [OF l(3) branch_lines_pos [OF l(2) normalize_reservation_pos [OF l(1)]]])
  then show ?thesis by (rule place_hold_refines [OF assms(1) l(4)])
qed (use assms(1) wh_refines_refl in simp)

lemma other_refines_warehouse:
  assumes "warehouse_ok db" "wh_reservations db' = wh_reservations db" "\<And>p. wb_reserved db' p = wb_reserved db p" "balances_ok db'"
  shows "wh_refines db db'"
proof -
  have "warehouse_ok db'" using assms by (simp add: warehouse_ok_def)
  then show ?thesis
    using warehouse_store.stock_changed [OF assms(1) _ assms(2)] by (simp add: wh_refines_def abs_warehouse_def)
qed

lemma wh_move_refines:
  assumes "wh_move db db'" "warehouse_ok db"
  shows "wh_refines db db'"
  using assms(1)
proof cases
  case (wm_expire_due now m c)
  then show ?thesis using expire_each_refines [OF assms(2), of now "due_reservations db now m" 0] by (simp add: expireDueWarehouseReservations_def)
next
  case (wm_expire_job now m n)
  then show ?thesis
    using expire_due_refines [of "(db, 0)" now "due_reservations db now m"] assms(2)
    by (simp add: expireDueWarehouseReservationsOfAllTenants_def)
qed (use assms(2) in \<open>blast intro: reserve_refines_warehouse commit_refines_warehouse release_refines_warehouse
  expire_refines_warehouse other_refines_warehouse\<close>)+

lemma wh_reach_ok: "wh_reach db \<Longrightarrow> warehouse_ok db"
proof (induction rule: wh_reach.induct)
  case wr_empty
  show ?case by (simp add: warehouse_ok_def empty_warehouse_def balances_ok_def wb_reserved_def)
qed (simp add: wh_refines_def [THEN iffD1, THEN conjunct1, OF wh_move_refines])

section \<open>Properties\<close>

text \<open>A branch with one warehouse and one SKU, and a sale that asks for it by code.\<close>

definition depot :: WarehouseDb where
  "depot = empty_warehouse\<lparr>
     balances := [((''W1'', ''S1''), \<lparr>bl_onHand = 10000, bl_reserved = 0, bl_avgUnitCost = 5000, bl_valuation = 50000, bl_version = 1\<rparr>)],
     warehouses := [\<lparr>wh_id = ''W1'', wh_kind = ''BRANCH'', wh_branchId = Some ''B'', wh_isDefault = True, wh_active = True\<rparr>],
     sku_projection := [\<lparr>sk_id = ''S1'', sk_code = ''MILK'', sk_active = True\<rparr>]\<rparr>"

definition milk_request :: "string \<Rightarrow> CreateWarehouseReservationRequest" where
  "milk_request q = \<lparr>rq_callerService = ''sales'', rq_sourceRefType = ''ORDER'', rq_sourceRefId = ''O1'', rq_branchId = Some ''B'',
     rq_ttlSeconds = None, rq_noExpiry = False,
     rq_lines = [\<lparr>li_warehouseId = None, li_skuId = ''MILK'', li_qty = q\<rparr>]\<rparr>"

definition milk_hold :: "(WarehouseDb \<times> string \<times> bool) wh_result" where
  "milk_hold = reserveWarehouseStock code_unit_compare (\<lambda>_. ''h'') depot (Some ''k1'') (milk_request ''2.5'') ''R1'' 0"

lemma depot_reach: "wh_reach depot"
proof (rule wr_move [OF wr_empty wm_other])
  show "wh_reservations depot = wh_reservations empty_warehouse" by (simp add: depot_def)
  show "wb_reserved depot p = wb_reserved empty_warehouse p" for p
    by (simp add: depot_def wb_reserved_def empty_warehouse_def map_get_def)
  show "balances_ok depot" by (simp add: balances_ok_def depot_def map_get_def balance_check_def)
qed

lemma milk_lines: "request_lines code_unit_compare depot (milk_request ''2.5'') = Inr [((''W1'', ''S1''), 2500)]"
  by code_simp

text \<open>
  C7: the warehouse store implements the hold specification: in every reachable state the reserved quantity of each warehouse and
  SKU is exactly the sum of the lines of its HELD reservations and lies between zero and what is on hand, and every transaction (reservation,
  commit, release, expiry, and changes of stock by other modules) is a sequence of steps of the specification.
\<close>

theorem warehouse_holds_refine:
  assumes "wh_reach db"
  shows "(\<forall>p. wb_reserved db p = map_sum (\<lambda>r. if wr_state r = HELD then qty_of (wr_lines r) p else 0) (wh_reservations db) \<and>
      0 \<le> wb_reserved db p \<and> wb_reserved db p \<le> wb_on_hand db p) \<and>
    (wh_move db db' \<longrightarrow> spec_reach (abs_warehouse db) (abs_warehouse db'))"
proof -
  note ok = wh_reach_ok [OF assms]
  have "held_by wr_demand p = (\<lambda>r. if wr_state r = HELD then qty_of (wr_lines r) p else 0)" for p
    by (simp add: fun_eq_iff held_by_def wr_demand_def)
  then have held: "\<forall>p. wb_reserved db p = map_sum (\<lambda>r. if wr_state r = HELD then qty_of (wr_lines r) p else 0) (wh_reservations db) \<and>
      0 \<le> wb_reserved db p \<and> wb_reserved db p \<le> wb_on_hand db p"
    using warehouse_okD(3) [OF ok] balances_okD [OF warehouse_okD(1) [OF ok]] by metis
  have "spec_reach (abs_warehouse db) (abs_warehouse db')" if "wh_move db db'"
    using wh_move_refines [OF that ok] by (simp add: wh_refines_def)
  then show ?thesis using held by blast
qed

theorem warehouse_holds_refine_witness:
  "\<exists>db' i c. milk_hold = Inr (db', i, c) \<and> spec_reach (abs_warehouse depot) (abs_warehouse db')"
proof -
  have "is_ok milk_hold" by code_simp
  then obtain db' i c where run: "milk_hold = Inr (db', i, c)" by (auto simp: is_ok_def split: sum.splits)
  then show ?thesis
    using warehouse_holds_refine [OF depot_reach] wm_reserve unfolding milk_hold_def by blast
qed

text \<open>
  C8: a warehouse reservation takes everything or nothing, and once: for a request with an unused key whose lines are valid it succeeds exactly
  when the summed quantity of every warehouse and SKU is free; then that quantity and nothing else becomes reserved under a new HELD reservation,
  and a retry with the same key returns that reservation without another change.
\<close>

theorem warehouse_reserve_exact:
  assumes "wh_reach db" "n \<notin> fst ` set (wh_reservations db)" "key_ok k"
    and "find_by_key db (rq_callerService req) (request_key k) = None" "request_lines lc db req = Inr ls"
  shows "if \<forall>p. qty_of ls p \<le> wb_free db p
    then \<exists>db' r. reserveWarehouseStock lc digest db k req n now = Inr (db', n, False) \<and>
      (\<forall>p. wb_on_hand db' p = wb_on_hand db p \<and> wb_reserved db' p = wb_reserved db p + qty_of ls p) \<and>
      wh_reservations db' = wh_reservations db @ [(n, r)] \<and> wr_state r = HELD \<and> wr_lines r = ls \<and>
      (\<forall>m later. reserveWarehouseStock lc digest db' k req m later = Inr (db', n, True))
    else \<exists>e. reserveWarehouseStock lc digest db k req n now = Inl e"
proof (cases "\<forall>p. qty_of ls p \<le> wb_free db p")
  case True
  obtain db' ls0 where d: "reserveWarehouseStock lc digest db k req n now = Inr (db', n, False)"
    "normalizeReservationLines lc (rq_lines req) = Inr ls0" "wb_on_hand db' = wb_on_hand db" "\<forall>p. wb_reserved db' p = wb_reserved db p + qty_of ls p"
    "wh_reservations db' = map_set n (new_reservation req (request_key k) (hashReservationRequest digest req ls0) ls now) (wh_reservations db)"
    using reserve_outcome_warehouse [OF wh_reach_ok [OF assms(1)] assms(2-5), of digest now] True by auto
  let ?r = "new_reservation req (request_key k) (hashReservationRequest digest req ls0) ls now"
  have rows: "wh_reservations db' = wh_reservations db @ [(n, ?r)]" using d(5) assms(2) by (simp add: map_set_new)
  have r: "wr_callerService ?r = rq_callerService req" "wr_idempotencyKey ?r = request_key k" "wr_state ?r = HELD" "wr_lines ?r = ls"
    "wr_requestSha256 ?r = hashReservationRequest digest req ls0" by (simp_all add: new_reservation_def)
  have "find_by_key db' (rq_callerService req) (request_key k) = Some (n, ?r)"
    using assms(4) r(1,2) by (simp add: find_by_key_def rows find_append)
  then have "reserveWarehouseStock lc digest db' k req m later = Inr (db', n, True)" for m later
    using reserve_replay [OF assms(3) _ assms(5) d(2)] r(5) by simp
  then show ?thesis using True d(1,3,4) rows r(3,4) by auto
next
  case False
  then show ?thesis using reserve_outcome_warehouse [OF wh_reach_ok [OF assms(1)] assms(2-5), of digest now] by auto
qed

theorem warehouse_reserve_exact_witness:
  "(\<forall>p. qty_of [((''W1'', ''S1''), 2500)] p \<le> wb_free depot p) \<and>
   (\<exists>db'. reserveWarehouseStock code_unit_compare (\<lambda>_. ''h'') depot (Some ''k1'') (milk_request ''2.5'') ''R1'' 0 = Inr (db', ''R1'', False) \<and>
     wb_reserved db' (''W1'', ''S1'') = 2500)"
proof -
  let ?ls = "[((''W1'', ''S1''), 2500)] :: norm_line list"
  have fits: "\<forall>p. qty_of ?ls p \<le> wb_free depot p"
    by (auto simp: depot_def wb_free_def wb_on_hand_def wb_reserved_def map_get_def empty_warehouse_def)
  have "key_ok (Some ''k1'')" by code_simp
  moreover have "find_by_key depot (rq_callerService (milk_request ''2.5'')) (request_key (Some ''k1'')) = None"
    by (simp add: depot_def empty_warehouse_def find_by_key_def)
  moreover have "''R1'' \<notin> fst ` set (wh_reservations depot)" by (simp add: depot_def empty_warehouse_def)
  moreover have "wb_reserved depot (''W1'', ''S1'') = 0" by (simp add: depot_def wb_reserved_def map_get_def)
  ultimately show ?thesis
    using warehouse_reserve_exact [OF depot_reach _ _ _ milk_lines, of "''R1''" "Some ''k1''" "\<lambda>_. ''h''" 0] fits
    by (simp only: fits if_True) (auto simp: fits)
qed

text \<open>
  C9: a HELD warehouse reservation is settled exactly once: it can always be released, and when due expired, which gives back exactly its lines and
  leaves what is on hand; it can be committed when its SKUs' cost and value fit a JavaScript number, which takes exactly its lines off what is
  on hand and off what is reserved. After a release or expiry a commit is refused, after a commit a release is refused,
  and repeating the same call changes nothing.
\<close>

theorem warehouse_holds_settle:
  assumes "wh_reach db" "map_get (wh_reservations db) i = Some r" "wr_state r = HELD"
  shows "(\<exists>db'. releaseWarehouseReservation db i why n = Inr db' \<and>
      (\<forall>p. wb_on_hand db' p = wb_on_hand db p \<and> wb_reserved db' p = wb_reserved db p - qty_of (wr_lines r) p) \<and>
      releaseWarehouseReservation db' i why' n' = Inr db' \<and> (\<exists>e. commitWarehouseReservation db' i f n' = Inl (StateConflict e))) \<and>
    (wh_due now r \<longrightarrow> (\<exists>db'. expireWarehouseReservation db i now = Inr (db', True) \<and>
      (\<forall>p. wb_on_hand db' p = wb_on_hand db p \<and> wb_reserved db' p = wb_reserved db p - qty_of (wr_lines r) p) \<and>
      expireWarehouseReservation db' i later = Inr (db', False) \<and> (\<exists>e. commitWarehouseReservation db' i f n' = Inl (StateConflict e)))) \<and>
    ((\<forall>l \<in> set (wr_lines r). priced db (fst l)) \<longrightarrow> (\<exists>db'. commitWarehouseReservation db i f n = Inr db' \<and>
      (\<forall>p. wb_on_hand db' p = wb_on_hand db p - qty_of (wr_lines r) p \<and> wb_reserved db' p = wb_reserved db p - qty_of (wr_lines r) p) \<and>
      commitWarehouseReservation db' i f' n' = Inr db' \<and>
      releaseWarehouseReservation db' i why n' = Inl (StateConflict WR_RESERVATION_ALREADY_COMMITTED)))"
proof (intro conjI impI)
  note ok = wh_reach_ok [OF assms(1)]
  have closed: "releaseWarehouseReservation db' i w m = Inr db' \<and> expireWarehouseReservation db' i t = Inr (db', False) \<and>
      (\<exists>e. commitWarehouseReservation db' i g m = Inl (StateConflict e))" if "gives_back db i r db'" for db' w m t g
    using that by (auto simp: gives_back_def releaseWarehouseReservation_def expireWarehouseReservation_def commitWarehouseReservation_def wh_due_def)
  show "\<exists>db'. releaseWarehouseReservation db i why n = Inr db' \<and>
      (\<forall>p. wb_on_hand db' p = wb_on_hand db p \<and> wb_reserved db' p = wb_reserved db p - qty_of (wr_lines r) p) \<and>
      releaseWarehouseReservation db' i why' n' = Inr db' \<and> (\<exists>e. commitWarehouseReservation db' i f n' = Inl (StateConflict e))"
    using release_ok [OF ok assms(2,3), of why n] closed by (fastforce simp: gives_back_def)
  show "\<exists>db'. expireWarehouseReservation db i now = Inr (db', True) \<and>
      (\<forall>p. wb_on_hand db' p = wb_on_hand db p \<and> wb_reserved db' p = wb_reserved db p - qty_of (wr_lines r) p) \<and>
      expireWarehouseReservation db' i later = Inr (db', False) \<and> (\<exists>e. commitWarehouseReservation db' i f n' = Inl (StateConflict e))"
    if "wh_due now r" using expire_ok [OF ok assms(2) that] closed by (fastforce simp: gives_back_def)
  assume "\<forall>l \<in> set (wr_lines r). priced db (fst l)"
  then obtain db' where c: "commitWarehouseReservation db i f n = Inr db'" using commit_succeeds [OF ok assms(2,3)] by blast
  note e = commit_effect [OF ok c assms(2,3)]
  have "commitWarehouseReservation db' i f' n' = Inr db' \<and>
      releaseWarehouseReservation db' i why n' = Inl (StateConflict WR_RESERVATION_ALREADY_COMMITTED)"
    using e(4) by (auto simp: commitWarehouseReservation_def releaseWarehouseReservation_def)
  then show "\<exists>db'. commitWarehouseReservation db i f n = Inr db' \<and>
      (\<forall>p. wb_on_hand db' p = wb_on_hand db p - qty_of (wr_lines r) p \<and> wb_reserved db' p = wb_reserved db p - qty_of (wr_lines r) p) \<and>
      commitWarehouseReservation db' i f' n' = Inr db' \<and>
      releaseWarehouseReservation db' i why n' = Inl (StateConflict WR_RESERVATION_ALREADY_COMMITTED)"
    using c e(2,3) by blast
qed

theorem warehouse_holds_settle_witness:
  "\<exists>db' r. milk_hold = Inr (db', ''R1'', False) \<and> map_get (wh_reservations db') ''R1'' = Some r \<and> wh_due 900001 r \<and>
     (\<exists>e. releaseWarehouseReservation db' ''R1'' None None = Inr e \<and> wb_reserved e (''W1'', ''S1'') = 0) \<and>
     (\<exists>e. expireWarehouseReservation db' ''R1'' 900001 = Inr (e, True) \<and> wb_reserved e (''W1'', ''S1'') = 0) \<and>
     (\<exists>e. commitWarehouseReservation db' ''R1'' None None = Inr e \<and> wb_on_hand e (''W1'', ''S1'') = 7500)"
proof -
  let ?p = "(''W1'', ''S1'')"
  let ?r = "new_reservation (milk_request ''2.5'') ''k1'' ''h'' [(?p, 2500)] 0"
  define db' where "db' = depot\<lparr>balances := [(?p, \<lparr>bl_onHand = 10000, bl_reserved = 2500, bl_avgUnitCost = 5000, bl_valuation = 50000, bl_version = 2\<rparr>)],
    wh_reservations := [(''R1'', ?r)], wh_outbox := [INVENTORY_RESERVATION_CONFIRMED ''R1'' [(?p, 2500)]]\<rparr>"
  have run: "milk_hold = Inr (db', ''R1'', False)" unfolding db'_def by code_simp
  have reach: "wh_reach db'" by (rule wr_move [OF depot_reach wm_reserve [OF run [unfolded milk_hold_def]]])
  have row: "map_get (wh_reservations db') ''R1'' = Some ?r" by (simp add: db'_def map_get_def)
  have r: "wr_state ?r = HELD" "wr_lines ?r = [(?p, 2500)]" by (simp_all add: new_reservation_def)
  have due: "wh_due 900001 ?r" by (simp add: wh_due_def new_reservation_def milk_request_def DEFAULT_TTL_SECONDS_def)
  have at: "wb_on_hand db' ?p = 10000" "wb_reserved db' ?p = 2500" by (simp_all add: db'_def wb_on_hand_def wb_reserved_def map_get_def)
  have "half_up (10000 * 5000) 1000 \<le> max_safe" "(5000 :: int) \<le> max_safe" by code_simp+
  then have "\<forall>l \<in> set (wr_lines ?r). priced db' (fst l)" by (simp add: r(2) priced_def db'_def map_get_def)
  note settle = warehouse_holds_settle [OF reach row r(1), where why = None and why' = None and f = None and f' = None and n = None and n' = None and now = 900001 and later = 0]
  have "\<exists>e. releaseWarehouseReservation db' ''R1'' None None = Inr e \<and> wb_reserved e ?p = 0"
    using settle [THEN conjunct1] r(2) at by auto
  moreover have "\<exists>e. expireWarehouseReservation db' ''R1'' 900001 = Inr (e, True) \<and> wb_reserved e ?p = 0"
    using settle [THEN conjunct2, THEN conjunct1, THEN mp, OF due] r(2) at by auto
  moreover have "\<exists>e. commitWarehouseReservation db' ''R1'' None None = Inr e \<and> wb_on_hand e ?p = 7500"
    using settle [THEN conjunct2, THEN conjunct2, THEN mp, OF \<open>\<forall>l \<in> set (wr_lines ?r). priced db' (fst l)\<close>] r(2) at by auto
  ultimately show ?thesis using run row due by blast
qed

text \<open>Two lines that name one SKU, by id and by code, each fit but not together: the second update finds no row.\<close>

lemma two_names_crash:
  "reserveWarehouseStock code_unit_compare (\<lambda>_. ''h'') depot (Some ''k1'')
     ((milk_request ''6'')\<lparr>rq_lines := [\<lparr>li_warehouseId = None, li_skuId = ''MILK'', li_qty = ''6''\<rparr>,
        \<lparr>li_warehouseId = None, li_skuId = ''S1'', li_qty = ''6''\<rparr>]\<rparr>) ''R1'' 0 = Inl TypeErr"
  by code_simp

end
