(* ===== verification/SalesMoney.thy ===== *)
theory SalesMoney
  imports JsString
begin

text \<open>
  Error codes, quantity and money arithmetic of the sales service
  (\<^verbatim>\<open>apps/sales/src/domain/sales-domain.ts\<close>, first part): quantities are texts with up to three
  decimals, computed in milli-units; money is a whole number of VND, computed as \<^verbatim>\<open>bigint\<close>
  and exchanged as a safe integer.
\<close>

datatype (plugins only: code) SalesDomainErrorCode =
    ORDER_NOT_FOUND | ORDER_INVALID_STATE | ORDER_ALREADY_COMPLETED | ORDER_ALREADY_CANCELLED
  | PRODUCT_NOT_SELLABLE | PRICE_CHANGED | PRICE_NOT_CONFIGURED | INVALID_DISCOUNT
  | DISCOUNT_APPROVAL_REQUIRED | INSUFFICIENT_STOCK | STOCK_RESERVATION_FAILED
  | STOCK_RESERVATION_UNKNOWN | STOCK_COMMIT_PENDING | PAYMENT_NOT_CONFIRMED
  | PAYMENT_AMOUNT_MISMATCH | PAYMENT_OUTCOME_UNKNOWN | SHIFT_NOT_FOUND | SHIFT_NOT_OPEN
  | SHIFT_ALREADY_OPEN | SHIFT_ALREADY_CLOSED | SHIFT_HAS_PENDING_TRANSACTIONS | SHIFT_REQUIRED
  | SHIFT_CLOSED | SHIFT_HAS_OPEN_DRAFTS | VARIANCE_REASON_REQUIRED | APPROVAL_REQUIRED
  | APPROVER_IS_COUNTER | COUNT_REQUIRED | OPENING_FLOAT_NOTE_REQUIRED | CASH_SETTINGS_INVALID
  | RETURN_WAREHOUSE_UNRESOLVED | PAYMENT_REFERENCE_REQUIRED | POS_DRAFT_NOT_FOUND
  | POS_DRAFT_LIMIT_EXCEEDED | RETURN_NOT_FOUND | RETURN_NOT_ELIGIBLE | RETURN_QUANTITY_EXCEEDED
  | REFUND_AMOUNT_EXCEEDED | REFUND_ALREADY_REQUESTED | COUPON_INVALID
  | COUPON_USAGE_LIMIT_EXCEEDED | LOYALTY_HOLD_FAILED | CREDIT_AUTHORIZATION_FAILED
  | CREDIT_SERVICE_UNAVAILABLE | FULFILLMENT_NOT_FOUND | FULFILLMENT_INVALID_STATE
  | CHANNEL_NOT_FOUND | REGISTER_NOT_FOUND | REGISTER_EXISTS | EXPORT_TOO_LARGE
  | PAYMENT_EXCEEDS_DUE | IDEMPOTENCY_CONFLICT | RESOURCE_VERSION_CONFLICT | TENANT_ACCESS_DENIED
  | PERMISSION_DENIED | UNKNOWN_BRANCH | VALIDATION_ERROR

type_synonym 'a sales_result = "(SalesDomainErrorCode, 'a) result"

abbreviation sales_error :: "SalesDomainErrorCode \<Rightarrow> nat \<Rightarrow> SalesDomainErrorCode err" where
  "sales_error \<equiv> DomainError"

definition QTY_SCALE :: int where
  "QTY_SCALE = 1000"

definition FACTOR_SCALE :: int where
  "FACTOR_SCALE = 10000"

section \<open>Definitions\<close>

text \<open>
  A quantity argument is \<^verbatim>\<open>string | number\<close>; the code reads \<^verbatim>\<open>String(value)\<close>, so the model takes the text.
\<close>

definition parseQtyMillis :: "string \<Rightarrow> int sales_result" where
  "parseQtyMillis value =
     (case match_decimal all_digits 3 (js_trim value) of
        None \<Rightarrow> Inl (sales_error VALIDATION_ERROR 422)
      | Some m \<Rightarrow>
          (let res = scaled_value QTY_SCALE 3 m
           in if res \<le> 0 then Inl (sales_error VALIDATION_ERROR 422) else Inr res))"

definition formatQtyMillis :: "int \<Rightarrow> string" where
  "formatQtyMillis millis = (if millis < 0 then ''-'' else []) @ show_scaled QTY_SCALE 3 \<bar>millis\<bar>"

definition parseConversionFactor :: "string option \<Rightarrow> int sales_result" where
  "parseConversionFactor value =
     (if \<not> truthy value then Inr FACTOR_SCALE
      else (case match_decimal all_digits 4 (js_trim (the value)) of
              None \<Rightarrow> Inl (sales_error VALIDATION_ERROR 422)
            | Some m \<Rightarrow>
                (let res = scaled_value FACTOR_SCALE 4 m
                 in if res \<le> 0 then Inl (sales_error VALIDATION_ERROR 422) else Inr res)))"

definition computeBaseQtyMillis :: "int \<Rightarrow> int \<Rightarrow> int" where
  "computeBaseQtyMillis qtyMillis factorTenThousands =
     bigint_div (qtyMillis * factorTenThousands + bigint_div FACTOR_SCALE 2) FACTOR_SCALE"

definition parseVndAmount :: "jsval \<Rightarrow> bool \<Rightarrow> int sales_result" where
  "parseVndAmount value allowZero =
     (if value = Undefined \<or> value = Null
      then (if allowZero then Inr 0 else Inl (sales_error VALIDATION_ERROR 422))
      else ebind
        (case value of
           Big v \<Rightarrow> Inr v
         | Num x \<Rightarrow> (if is_safe_integer x then bigint_of_num x else Inl (sales_error VALIDATION_ERROR 422))
         | _ \<Rightarrow> Inl (sales_error VALIDATION_ERROR 422))
        (\<lambda>vnd. if vnd < 0 \<or> (\<not> allowZero \<and> vnd = 0) then Inl (sales_error VALIDATION_ERROR 422)
               else Inr vnd))"

text \<open>The number is returned as the integer it denotes.\<close>

definition vndNumber :: "int \<Rightarrow> int sales_result" where
  "vndNumber amount =
     (let n = js_of_int amount
      in if \<not> is_safe_integer n then Inl (sales_error VALIDATION_ERROR 422) else Inr (int_of_num n))"

text \<open>Half away from zero; the total part first, then the guard on the denominator.\<close>

definition round_half_up :: "int \<Rightarrow> int \<Rightarrow> int" where
  "round_half_up numerator denominator =
     (if numerator \<ge> 0 then bigint_div (numerator + bigint_div denominator 2) denominator
      else - (bigint_div (- numerator + bigint_div denominator 2) denominator))"

definition roundDivHalfUp :: "int \<Rightarrow> int \<Rightarrow> int sales_result" where
  "roundDivHalfUp numerator denominator =
     (if denominator \<le> 0 then Inl (NativeError ''Error'') else Inr (round_half_up numerator denominator))"

text \<open>An optional number argument: absent is \<^verbatim>\<open>undefined\<close>.\<close>

definition opt_num :: "jsnum option \<Rightarrow> jsval" where
  "opt_num v = (case v of None \<Rightarrow> Undefined | Some x \<Rightarrow> Num x)"

section \<open>Quantities\<close>

lemma formatQtyMillis_nonneg: "0 \<le> m \<Longrightarrow> formatQtyMillis m = show_scaled QTY_SCALE 3 m"
  by (simp add: formatQtyMillis_def)

lemma parseQtyMillis_pos [dest]: "parseQtyMillis s = Inr m \<Longrightarrow> 0 < m"
  by (auto simp: parseQtyMillis_def Let_def split: option.splits if_splits)

interpretation sales_qty: fixed_point_codec parseQtyMillis formatQtyMillis "\<lambda>m. 0 < m"
proof
  fix m :: int
  assume m: "0 < m"
  have "match_decimal all_digits 3 (show_scaled QTY_SCALE 3 m) =
      Some (show_digits (m div QTY_SCALE), Some (pad_start 3 CHR ''0'' (show_digits (m mod QTY_SCALE))))"
    using m by (intro match_show_scaled) (simp_all add: QTY_SCALE_def all_show_digits)
  moreover have "scaled_value QTY_SCALE 3
      (show_digits (m div QTY_SCALE), Some (pad_start 3 CHR ''0'' (show_digits (m mod QTY_SCALE)))) = m"
    using m by (intro scaled_value_show) (simp_all add: QTY_SCALE_def)
  moreover have "js_trim (show_scaled QTY_SCALE 3 m) = show_scaled QTY_SCALE 3 m"
    using m by (simp add: show_scaled_trim QTY_SCALE_def)
  ultimately show "parseQtyMillis (formatQtyMillis m) = Inr m"
    using m by (simp add: formatQtyMillis_nonneg parseQtyMillis_def Let_def)
qed (rule parseQtyMillis_pos)

lemma parseConversionFactor_pos: "parseConversionFactor c = Inr f \<Longrightarrow> 0 < f"
  by (auto simp: parseConversionFactor_def Let_def FACTOR_SCALE_def split: option.splits if_splits)

lemma computeBaseQty_half_up:
  "0 \<le> q \<Longrightarrow> 0 \<le> f \<Longrightarrow> computeBaseQtyMillis q f = half_up (q * f) FACTOR_SCALE"
  by (simp add: computeBaseQtyMillis_def FACTOR_SCALE_def half_up_def)

section \<open>Money\<close>

lemma vndNumber_iff: "vndNumber v = Inr n \<longleftrightarrow> n = v \<and> \<bar>v\<bar> \<le> max_safe"
  using max_safe_lt js_of_int_small [of v]
  by (auto simp: vndNumber_def Let_def is_safe_integer_of_int)

declare vndNumber_iff [ok_simps]

lemma parseVnd_Num: "parseVndAmount (Num x) z = Inr n \<longleftrightarrow>
    is_safe_integer x \<and> n = int_of_num x \<and> 0 \<le> n \<and> (z \<or> n \<noteq> 0)"
  by (auto simp: parseVndAmount_def bigint_of_safe split: if_splits)

lemma parseVnd_Big: "parseVndAmount (Big v) z = Inr n \<longleftrightarrow> n = v \<and> 0 \<le> v \<and> (z \<or> v \<noteq> 0)"
  by (auto simp: parseVndAmount_def)

interpretation sales_money: money_gate "\<lambda>v. parseVndAmount v True" vndNumber
  by unfold_locales (auto simp: parseVnd_Num parseVnd_Big vndNumber_iff)

lemma parseVnd_num_arg: "parseVndAmount (num_arg n) z = Inr m \<longleftrightarrow>
    0 \<le> n \<and> n \<le> max_safe \<and> (z \<or> n \<noteq> 0) \<and> m = n"
  by (auto simp: num_arg_def parseVnd_Num)

lemma parseVnd_nonneg: "parseVndAmount v z = Inr n \<Longrightarrow> 0 \<le> n"
  by (auto simp: parseVndAmount_def ok_simps split: if_splits)

lemma parseVnd_pos: "parseVndAmount v False = Inr n \<Longrightarrow> 0 < n"
  by (auto simp: parseVndAmount_def ok_simps split: if_splits)

lemma parseVnd_opt_safe: "parseVndAmount (opt_num v) z = Inr n \<Longrightarrow> 0 \<le> n \<and> n \<le> max_safe"
  by (auto simp: opt_num_def parseVnd_Num split: option.splits elim!: is_safe_integerE)
    (auto simp: parseVndAmount_def max_safe_def split: if_splits)

section \<open>Rounding division\<close>

lemma roundDiv_pos [simp]: "0 < d \<Longrightarrow> roundDivHalfUp n d = Inr (round_half_up n d)"
  by (simp add: roundDivHalfUp_def)

lemma round_half_up_nonneg [simp]: "0 \<le> n \<Longrightarrow> 0 < d \<Longrightarrow> round_half_up n d = half_up n d"
  by (simp add: round_half_up_def half_up_def)

lemma round_half_up_neg: "n < 0 \<Longrightarrow> 0 < d \<Longrightarrow> round_half_up n d = - half_up (- n) d"
  by (simp add: round_half_up_def half_up_def)

lemma round_half_up_0 [simp]: "0 < d \<Longrightarrow> round_half_up 0 d = 0"
  using half_up_mult [of d 0] by simp

lemma round_half_up_error:
  assumes "0 < d"
  shows "\<bar>2 * (round_half_up n d * d - n)\<bar> \<le> d"
proof (cases "0 \<le> n")
  case True
  then show ?thesis using half_up_error assms by simp
next
  case False
  have "2 * (round_half_up n d * d - n) = - (2 * (half_up (- n) d * d - (- n)))"
    using False assms by (simp add: round_half_up_neg)
  then show ?thesis using half_up_error [OF assms, of "- n"] by (simp only: abs_minus_cancel)
qed

end
