(* ===== verification/SalesPricing.thy ===== *)
theory SalesPricing
  imports SalesMoney
begin

text \<open>
  Pricing of an order in the sales service (\<^verbatim>\<open>apps/sales/src/domain/sales-domain.ts\<close>): item
  discounts, the order and promotion discount pro-rated over the lines, tax and totals
  (\<^verbatim>\<open>calculateOrderQuote\<close>), and the discount ceilings of the roles.
\<close>

section \<open>Data\<close>

text \<open>\<open>OtherDiscount\<close> is a run-time value outside of the declared union, which the code refuses.\<close>

datatype DiscountType = NONE | FIXED | PERCENT | OtherDiscount string

datatype VariantStatus = ACTIVE | INACTIVE | ARCHIVED | DRAFT_VARIANT

record AuthoritativeCatalogVariant =
  cv_variantId :: string
  cv_productId :: string
  cv_skuCode :: string
  cv_barcode :: "string option"
  cv_productName :: string
  cv_variantName :: string
  cv_unitCode :: string
  cv_conversionFactor :: string
  cv_unitPrice :: jsnum
  cv_status :: VariantStatus
  cv_unitCostSnapshot :: "jsnum option"

text \<open>\<^verbatim>\<open>taxRatePercent\<close> is \<^verbatim>\<open>string | number\<close>: \<open>Str\<close> or \<open>Num\<close>, or \<open>Undefined\<close>.\<close>

record QuoteLineInput =
  ql_variantId :: string
  ql_qty :: string
  ql_expectedUnitPrice :: "jsnum option"
  ql_discountType :: "DiscountType option"
  ql_discountValue :: "jsnum option"
  ql_taxRatePercent :: jsval

record QuoteOrderInput =
  qi_lines :: "QuoteLineInput list"
  qi_orderDiscountType :: "DiscountType option"
  qi_orderDiscountValue :: "jsnum option"
  qi_promotionDiscountAmount :: "jsnum option"
  qi_shippingFee :: "jsnum option"

record IntermediateLine =
  il_lineNo :: nat
  il_catalog :: AuthoritativeCatalogVariant
  il_qtyMillis :: int
  il_baseQtyMillis :: int
  il_unitPriceVnd :: int
  il_lineGrossVnd :: int
  il_itemDiscountType :: DiscountType
  il_itemDiscountValue :: jsnum
  il_itemDiscountVnd :: int
  il_lineAfterItemDiscountVnd :: int
  il_allocatedOrderDiscountVnd :: int
  il_taxRateBps :: int
  il_taxRateStr :: string

record CalculatedOrderLine =
  ol_lineNo :: nat
  ol_variantId :: string
  ol_productId :: string
  ol_skuCode :: string
  ol_productName :: string
  ol_variantLabel :: string
  ol_unitCode :: string
  ol_conversionFactor :: string
  ol_qty :: string
  ol_baseQty :: string
  ol_unitPrice :: int
  ol_lineGross :: int
  ol_itemDiscountType :: DiscountType
  ol_itemDiscountValue :: jsnum
  ol_itemDiscountAmount :: int
  ol_lineAfterItemDiscount :: int
  ol_allocatedOrderDiscount :: int
  ol_lineNet :: int
  ol_taxRate :: string
  ol_taxAmount :: int
  ol_lineTotal :: int
  ol_unitCostSnapshot :: int

record CalculatedOrderQuote =
  oq_lines :: "CalculatedOrderLine list"
  oq_subtotal :: int
  oq_itemDiscountTotal :: int
  oq_orderDiscountType :: DiscountType
  oq_orderDiscountValue :: jsnum
  oq_orderDiscountTotal :: int
  oq_promotionDiscountTotal :: int
  oq_totalDiscount :: int
  oq_effectiveDiscountPercent :: jsnum
  oq_shippingFee :: int
  oq_taxTotal :: int
  oq_grandTotal :: int
  oq_totalBaseQty :: string

section \<open>Item discount\<close>

definition calculateItemDiscount :: "int \<Rightarrow> DiscountType \<Rightarrow> jsnum option \<Rightarrow> int sales_result" where
  "calculateItemDiscount lineGross discountType discountValue =
     (case discountValue of
        None \<Rightarrow> Inr 0
      | Some num \<Rightarrow>
          (case discountType of
             NONE \<Rightarrow> Inr 0
           | FIXED \<Rightarrow>
               ebind (parseVndAmount (Num num) True) (\<lambda>fixed.
                 if fixed > lineGross then Inl (sales_error INVALID_DISCOUNT 422) else Inr fixed)
           | PERCENT \<Rightarrow>
               (if \<not> is_finite_num num \<or> js_lt num (Fin 0) \<or> js_lt (Fin 100) num
                then Inl (sales_error INVALID_DISCOUNT 422)
                else ebind (bigint_of_num (math_round (js_scale num 100))) (\<lambda>basisPoints.
                       roundDivHalfUp (lineGross * basisPoints) 10000))
           | OtherDiscount _ \<Rightarrow> Inl (sales_error INVALID_DISCOUNT 422)))"

section \<open>The lines of a quote\<close>

text \<open>\<^verbatim>\<open>x.toFixed(2)\<close> of a non-negative number below \<open>10 ^ 21\<close>: the nearest hundredth, ties up.\<close>

definition to_fixed2 :: "jsnum \<Rightarrow> string" where
  "to_fixed2 x = (case x of Fin r \<Rightarrow> show_scaled 100 2 \<lfloor>r * 100 + 1 / 2\<rfloor> | _ \<Rightarrow> ''NaN'')"

definition tax_rate_num :: "jsval \<Rightarrow> jsnum" where
  "tax_rate_num v = (case v of Undefined \<Rightarrow> Fin 0 | Null \<Rightarrow> Fin 0 | Str s \<Rightarrow> num_of_string s | Num x \<Rightarrow> x | Big n \<Rightarrow> js_of_int n)"

text \<open>The body of the first loop, for the line at index \<open>i\<close>.\<close>

definition quote_line ::
    "(string \<Rightarrow> AuthoritativeCatalogVariant option) \<Rightarrow> nat \<Rightarrow> QuoteLineInput \<Rightarrow> IntermediateLine sales_result" where
  "quote_line catalogMap i reqLine =
     (case catalogMap (ql_variantId reqLine) of
        None \<Rightarrow> Inl (sales_error PRICE_NOT_CONFIGURED 404)
      | Some catalog \<Rightarrow>
          ebind (throw_if (cv_status catalog \<noteq> ACTIVE) (sales_error PRODUCT_NOT_SELLABLE 409)) (\<lambda>_.
          ebind (parseVndAmount (Num (cv_unitPrice catalog)) False) (\<lambda>unitPriceVnd.
          ebind (case ql_expectedUnitPrice reqLine of
                   None \<Rightarrow> Inr ()
                 | Some e \<Rightarrow>
                     ebind (parseVndAmount (Num e) False) (\<lambda>expectedVnd.
                       throw_if (expectedVnd \<noteq> unitPriceVnd) (sales_error PRICE_CHANGED 409))) (\<lambda>_.
          ebind (parseQtyMillis (ql_qty reqLine)) (\<lambda>qtyMillis.
          ebind (parseConversionFactor (Some (cv_conversionFactor catalog))) (\<lambda>factor.
          let baseQtyMillis = computeBaseQtyMillis qtyMillis factor in
          ebind (roundDivHalfUp (qtyMillis * unitPriceVnd) QTY_SCALE) (\<lambda>lineGrossVnd.
          let itemDiscountType = (case ql_discountType reqLine of None \<Rightarrow> NONE | Some t \<Rightarrow> t) in
          ebind (calculateItemDiscount lineGrossVnd itemDiscountType (ql_discountValue reqLine)) (\<lambda>itemDiscountVnd.
          let taxRateNum = tax_rate_num (ql_taxRatePercent reqLine) in
          ebind (throw_if (\<not> is_finite_num taxRateNum \<or> js_lt taxRateNum (Fin 0) \<or> js_lt (Fin 100) taxRateNum)
                   (sales_error VALIDATION_ERROR 422)) (\<lambda>_.
          ebind (bigint_of_num (math_round (js_scale taxRateNum 100))) (\<lambda>taxRateBps.
            Inr \<lparr>il_lineNo = i + 1, il_catalog = catalog, il_qtyMillis = qtyMillis,
                 il_baseQtyMillis = baseQtyMillis, il_unitPriceVnd = unitPriceVnd,
                 il_lineGrossVnd = lineGrossVnd, il_itemDiscountType = itemDiscountType,
                 il_itemDiscountValue = (case ql_discountValue reqLine of None \<Rightarrow> Fin 0 | Some x \<Rightarrow> x),
                 il_itemDiscountVnd = itemDiscountVnd,
                 il_lineAfterItemDiscountVnd = lineGrossVnd - itemDiscountVnd,
                 il_allocatedOrderDiscountVnd = 0, il_taxRateBps = taxRateBps,
                 il_taxRateStr = to_fixed2 taxRateNum\<rparr>))))))))))"

section \<open>Pro-rating the order discount\<close>

text \<open>
  The second loop: each line with a positive amount gets its rounded share; the loop also keeps the sum
  of the shares and the index of the last such line (\<open>None\<close> for \<open>-1\<close>).
\<close>

fun share_loop ::
    "int \<Rightarrow> int \<Rightarrow> nat \<Rightarrow> IntermediateLine list \<Rightarrow> int \<times> nat option \<Rightarrow> (IntermediateLine list \<times> int \<times> nat option) sales_result" where
  "share_loop combined net i [] (allocatedSum, lastPositiveIdx) = Inr ([], allocatedSum, lastPositiveIdx)"
| "share_loop combined net i (l # ls) (allocatedSum, lastPositiveIdx) =
     (if il_lineAfterItemDiscountVnd l > 0
      then ebind (roundDivHalfUp (combined * il_lineAfterItemDiscountVnd l) net) (\<lambda>share.
           ebind (share_loop combined net (Suc i) ls (allocatedSum + share, Some i)) (\<lambda>(ls', r).
             Inr (l\<lparr>il_allocatedOrderDiscountVnd := share\<rparr> # ls', r)))
      else ebind (share_loop combined net (Suc i) ls (allocatedSum, lastPositiveIdx)) (\<lambda>(ls', r).
             Inr (l # ls', r)))"

definition add_allocation :: "int \<Rightarrow> IntermediateLine \<Rightarrow> IntermediateLine" where
  "add_allocation d l = l\<lparr>il_allocatedOrderDiscountVnd := il_allocatedOrderDiscountVnd l + d\<rparr>"

definition prorate_discount :: "int \<Rightarrow> int \<Rightarrow> IntermediateLine list \<Rightarrow> IntermediateLine list sales_result" where
  "prorate_discount combined net ls =
     (if combined > 0 \<and> net > 0
      then ebind (share_loop combined net 0 ls (0, None)) (\<lambda>(ls', allocatedSum, lastPositiveIdx).
             let residual = combined - allocatedSum
             in case lastPositiveIdx of
                  None \<Rightarrow> Inr ls'
                | Some k \<Rightarrow> Inr (if residual \<noteq> 0 then ls'[k := add_allocation residual (ls' ! k)] else ls'))
      else Inr ls)"

section \<open>Tax and totals\<close>

definition line_net :: "IntermediateLine \<Rightarrow> int" where
  "line_net l = il_lineAfterItemDiscountVnd l - il_allocatedOrderDiscountVnd l"

definition or_default :: "string \<Rightarrow> string \<Rightarrow> string" where
  "or_default s d = (if s = [] then d else s)"

text \<open>The callback of the final \<^verbatim>\<open>map\<close>, with the tax amount it adds to the running total.\<close>

definition finish_line :: "IntermediateLine \<Rightarrow> CalculatedOrderLine sales_result" where
  "finish_line line =
     (let lineNetVnd = line_net line in
      ebind (roundDivHalfUp (lineNetVnd * il_taxRateBps line) 10000) (\<lambda>taxAmountVnd.
      let lineTotalVnd = lineNetVnd + taxAmountVnd; c = il_catalog line in
      ebind (vndNumber (il_unitPriceVnd line)) (\<lambda>unitPrice.
      ebind (vndNumber (il_lineGrossVnd line)) (\<lambda>lineGross.
      ebind (vndNumber (il_itemDiscountVnd line)) (\<lambda>itemDiscountAmount.
      ebind (vndNumber (il_lineAfterItemDiscountVnd line)) (\<lambda>lineAfterItemDiscount.
      ebind (vndNumber (il_allocatedOrderDiscountVnd line)) (\<lambda>allocatedOrderDiscount.
      ebind (vndNumber lineNetVnd) (\<lambda>lineNet.
      ebind (vndNumber taxAmountVnd) (\<lambda>taxAmount.
      ebind (vndNumber lineTotalVnd) (\<lambda>lineTotal.
      ebind (parseVndAmount (opt_num (cv_unitCostSnapshot c)) True) (\<lambda>costVnd.
      ebind (vndNumber costVnd) (\<lambda>unitCost.
        Inr \<lparr>ol_lineNo = il_lineNo line, ol_variantId = cv_variantId c, ol_productId = cv_productId c,
             ol_skuCode = cv_skuCode c, ol_productName = cv_productName c, ol_variantLabel = cv_variantName c,
             ol_unitCode = or_default (cv_unitCode c) ''PCS'',
             ol_conversionFactor = or_default (cv_conversionFactor c) ''1.0000'',
             ol_qty = formatQtyMillis (il_qtyMillis line), ol_baseQty = formatQtyMillis (il_baseQtyMillis line),
             ol_unitPrice = unitPrice, ol_lineGross = lineGross, ol_itemDiscountType = il_itemDiscountType line,
             ol_itemDiscountValue = il_itemDiscountValue line, ol_itemDiscountAmount = itemDiscountAmount,
             ol_lineAfterItemDiscount = lineAfterItemDiscount, ol_allocatedOrderDiscount = allocatedOrderDiscount,
             ol_lineNet = lineNet, ol_taxRate = il_taxRateStr line, ol_taxAmount = taxAmount,
             ol_lineTotal = lineTotal, ol_unitCostSnapshot = unitCost\<rparr>))))))))))))"

text \<open>
  \<^verbatim>\<open>taxTotalVnd\<close> is the sum of what the callback computed; each summand is a safe integer, so the
  amounts in the finished lines are those \<^verbatim>\<open>bigint\<close>s.
\<close>

definition calculateOrderQuote ::
    "QuoteOrderInput \<Rightarrow> (string \<Rightarrow> AuthoritativeCatalogVariant option) \<Rightarrow> CalculatedOrderQuote sales_result" where
  "calculateOrderQuote input catalogMap =
     ebind (throw_if (qi_lines input = []) (sales_error VALIDATION_ERROR 422)) (\<lambda>_.
     ebind (emapi (quote_line catalogMap) 0 (qi_lines input)) (\<lambda>interLines.
     let subtotalVnd = sum_list (map il_lineGrossVnd interLines);
         itemDiscountTotalVnd = sum_list (map il_itemDiscountVnd interLines);
         totalBaseQtyMillis = sum_list (map il_baseQtyMillis interLines);
         netAfterItemDiscounts = subtotalVnd - itemDiscountTotalVnd;
         orderDiscountType = (case qi_orderDiscountType input of None \<Rightarrow> NONE | Some t \<Rightarrow> t) in
     ebind (calculateItemDiscount netAfterItemDiscounts orderDiscountType (qi_orderDiscountValue input))
       (\<lambda>rawOrderDiscountVnd.
     ebind (parseVndAmount (opt_num (qi_promotionDiscountAmount input)) True) (\<lambda>promoDiscountVnd.
     ebind (throw_if (rawOrderDiscountVnd + promoDiscountVnd > netAfterItemDiscounts)
              (sales_error INVALID_DISCOUNT 422)) (\<lambda>_.
     let combinedOrderDiscountVnd = rawOrderDiscountVnd + promoDiscountVnd in
     ebind (prorate_discount combinedOrderDiscountVnd netAfterItemDiscounts interLines) (\<lambda>allocated.
     ebind (emap finish_line allocated) (\<lambda>calculatedLines.
     let taxTotalVnd = sum_list (map ol_taxAmount calculatedLines) in
     ebind (parseVndAmount (opt_num (qi_shippingFee input)) True) (\<lambda>shippingFeeVnd.
     let totalDiscountVnd = itemDiscountTotalVnd + combinedOrderDiscountVnd;
         grandTotalVnd = subtotalVnd - totalDiscountVnd + taxTotalVnd + shippingFeeVnd;
         effectiveDiscountPercent =
           (if subtotalVnd > 0
            then js_scale (js_of_int (bigint_div (totalDiscountVnd * 10000) subtotalVnd)) (1 / 100)
            else Fin 0) in
     ebind (vndNumber subtotalVnd) (\<lambda>subtotal.
     ebind (vndNumber itemDiscountTotalVnd) (\<lambda>itemDiscountTotal.
     ebind (vndNumber rawOrderDiscountVnd) (\<lambda>orderDiscountTotal.
     ebind (vndNumber promoDiscountVnd) (\<lambda>promotionDiscountTotal.
     ebind (vndNumber totalDiscountVnd) (\<lambda>totalDiscount.
     ebind (vndNumber shippingFeeVnd) (\<lambda>shippingFee.
     ebind (vndNumber taxTotalVnd) (\<lambda>taxTotal.
     ebind (vndNumber grandTotalVnd) (\<lambda>grandTotal.
       Inr \<lparr>oq_lines = calculatedLines, oq_subtotal = subtotal, oq_itemDiscountTotal = itemDiscountTotal,
            oq_orderDiscountType = orderDiscountType,
            oq_orderDiscountValue = (case qi_orderDiscountValue input of None \<Rightarrow> Fin 0 | Some x \<Rightarrow> x),
            oq_orderDiscountTotal = orderDiscountTotal, oq_promotionDiscountTotal = promotionDiscountTotal,
            oq_totalDiscount = totalDiscount, oq_effectiveDiscountPercent = effectiveDiscountPercent,
            oq_shippingFee = shippingFee, oq_taxTotal = taxTotal, oq_grandTotal = grandTotal,
            oq_totalBaseQty = formatQtyMillis totalBaseQtyMillis\<rparr>))))))))))))))))"

section \<open>Discount authority\<close>

text \<open>
  The property lookup of the role record. A role name that is a property of every object
  (\<^verbatim>\<open>constructor\<close>, \<^verbatim>\<open>__proto__\<close>: the only such names without capitals) yields an object, which
  compares as \<open>NaN\<close>.
\<close>

definition ROLE_MAX_DISCOUNT_PERCENT :: "string \<Rightarrow> jsnum option" where
  "ROLE_MAX_DISCOUNT_PERCENT key =
     (if key = ''owner'' then Some (Fin 100)
      else if key = ''branch_manager'' then Some (Fin 30)
      else if key = ''sales_staff'' then Some (Fin 10)
      else if key = ''manager'' then Some (Fin 30)
      else if key = ''cashier'' then Some (Fin 10)
      else if key = ''constructor'' \<or> key = ''__proto__'' then Some NaN
      else None)"

definition max_discount :: "string option \<Rightarrow> jsnum" where
  "max_discount role =
     (let roleKey = js_lower (case role of None \<Rightarrow> ''sales_staff'' | Some r \<Rightarrow> r)
      in case ROLE_MAX_DISCOUNT_PERCENT roleKey of None \<Rightarrow> Fin 10 | Some m \<Rightarrow> m)"

definition assertDiscountAuthority :: "jsnum \<Rightarrow> string option \<Rightarrow> string list \<Rightarrow> unit sales_result" where
  "assertDiscountAuthority effectiveDiscountPercent role permissions =
     (if js_le effectiveDiscountPercent (Fin 0) then Inr ()
      else if ''*'' \<in> set permissions \<or> ''sales.pos.discount.override'' \<in> set permissions then Inr ()
      else throw_if (js_lt (max_discount role) effectiveDiscountPercent)
             (sales_error DISCOUNT_APPROVAL_REQUIRED 403))"

section \<open>Item discounts\<close>

lemma percent_bps_ok:
  assumes "is_finite_num x" "\<not> js_lt x (Fin 0)" "\<not> js_lt (Fin 100) x"
    and "bigint_of_num (math_round (js_scale x 100)) = Inr k"
  shows "0 \<le> k \<and> k \<le> 10000"
proof -
  obtain r where r: "x = Fin r" using assms(1) by (auto simp: is_finite_num_def split: jsnum.splits)
  obtain j where "math_round (js_scale (Fin r) 100) = Fin (of_int j)" "0 \<le> j" "j \<le> 10000"
    using percent_to_bps [of r] assms(2,3) r by auto
  then show ?thesis using assms(4) r by (auto simp: bigint_of_num_def)
qed

lemma half_up_share_le:
  assumes "0 \<le> g" "0 \<le> k" "k \<le> 10000"
  shows "0 \<le> round_half_up (g * k) 10000 \<and> round_half_up (g * k) 10000 \<le> g"
proof -
  have "g * k \<le> g * 10000" using assms by (simp add: mult_left_mono)
  then show ?thesis using assms half_up_le [of "g * k" g 10000] half_up_nonneg [of "g * k" 10000] by simp
qed

lemma itemDiscount_bounds:
  assumes "calculateItemDiscount g t v = Inr d" "0 \<le> g"
  shows "0 \<le> d \<and> d \<le> g"
proof (cases v)
  case None
  then show ?thesis using assms by (simp add: calculateItemDiscount_def)
next
  case (Some x)
  show ?thesis
  proof (cases t)
    case NONE
    then show ?thesis using assms Some by (simp add: calculateItemDiscount_def)
  next
    case FIXED
    then show ?thesis
      using assms Some by (auto simp: calculateItemDiscount_def ok_simps dest: parseVnd_nonneg)
  next
    case PERCENT
    then obtain k where "is_finite_num x" "\<not> js_lt x (Fin 0)" "\<not> js_lt (Fin 100) x"
      "bigint_of_num (math_round (js_scale x 100)) = (Inr k :: int sales_result)" and d: "d = round_half_up (g * k) 10000"
      using assms(1) Some by (auto simp: calculateItemDiscount_def ok_simps)
    then have "0 \<le> k \<and> k \<le> 10000" by (intro percent_bps_ok)
    then show ?thesis using half_up_share_le [of g k] assms(2) by (simp only: d)
  next
    case (OtherDiscount s)
    then show ?thesis using assms Some by (simp add: calculateItemDiscount_def)
  qed
qed

section \<open>The first loop\<close>

text \<open>What holds of every line the first loop accepts.\<close>

definition inter_ok :: "(string \<Rightarrow> AuthoritativeCatalogVariant option) \<Rightarrow> nat \<Rightarrow> QuoteLineInput \<Rightarrow> IntermediateLine \<Rightarrow> bool" where
  "inter_ok cat i r l \<longleftrightarrow>
     il_lineNo l = i + 1 \<and> cat (ql_variantId r) = Some (il_catalog l) \<and> cv_status (il_catalog l) = ACTIVE \<and>
     cv_unitPrice (il_catalog l) = Fin (of_int (il_unitPriceVnd l)) \<and> 0 < il_unitPriceVnd l \<and>
     (ql_expectedUnitPrice r = None \<or> ql_expectedUnitPrice r = Some (cv_unitPrice (il_catalog l))) \<and>
     parseQtyMillis (ql_qty r) = Inr (il_qtyMillis l) \<and> 0 < il_qtyMillis l \<and>
     il_lineGrossVnd l = half_up (il_qtyMillis l * il_unitPriceVnd l) QTY_SCALE \<and> 0 \<le> il_lineGrossVnd l \<and>
     0 \<le> il_itemDiscountVnd l \<and> il_itemDiscountVnd l \<le> il_lineGrossVnd l \<and>
     il_lineAfterItemDiscountVnd l = il_lineGrossVnd l - il_itemDiscountVnd l \<and>
     il_allocatedOrderDiscountVnd l = 0 \<and> 0 \<le> il_taxRateBps l \<and> il_taxRateBps l \<le> 10000"

lemma parseVnd_price:
  assumes "parseVndAmount (Num x) False = Inr p"
  shows "x = Fin (of_int p) \<and> 0 < p"
  using assms by (auto simp: parseVnd_Num elim!: is_safe_integerE)

lemma line_gross_nonneg: "0 < q \<Longrightarrow> 0 < p \<Longrightarrow> 0 \<le> half_up (q * p) QTY_SCALE"
  by (simp add: half_up_nonneg QTY_SCALE_def)

lemma quote_line_ok:
  assumes "quote_line cat i r = Inr l"
  shows "inter_ok cat i r l"
proof -
  obtain c where c: "cat (ql_variantId r) = Some c"
    using assms by (auto simp: quote_line_def split: option.splits)
  obtain p q g d k where h: "cv_status c = ACTIVE" "parseVndAmount (Num (cv_unitPrice c)) False = Inr p"
    "(case ql_expectedUnitPrice r of None \<Rightarrow> Inr ()
       | Some e \<Rightarrow> ebind (parseVndAmount (Num e) False) (\<lambda>x. throw_if (x \<noteq> p) (sales_error PRICE_CHANGED 409))) = Inr ()"
    "parseQtyMillis (ql_qty r) = Inr q" "roundDivHalfUp (q * p) QTY_SCALE = Inr g"
    "calculateItemDiscount g (case ql_discountType r of None \<Rightarrow> NONE | Some t \<Rightarrow> t) (ql_discountValue r) = Inr d"
    "is_finite_num (tax_rate_num (ql_taxRatePercent r))" "\<not> js_lt (tax_rate_num (ql_taxRatePercent r)) (Fin 0)"
    "\<not> js_lt (Fin 100) (tax_rate_num (ql_taxRatePercent r))"
    "bigint_of_num (math_round (js_scale (tax_rate_num (ql_taxRatePercent r)) 100)) = (Inr k :: int sales_result)"
    and l: "il_lineNo l = i + 1" "il_catalog l = c" "il_qtyMillis l = q" "il_unitPriceVnd l = p"
    "il_lineGrossVnd l = g" "il_itemDiscountVnd l = d" "il_lineAfterItemDiscountVnd l = g - d"
    "il_allocatedOrderDiscountVnd l = 0" "il_taxRateBps l = k"
    using assms by (auto simp: quote_line_def c Let_def ok_simps simp del: roundDiv_pos)
  have p: "cv_unitPrice c = Fin (of_int p)" "0 < p" using parseVnd_price [OF h(2)] by auto
  have q: "0 < q" using h(4) by blast
  have "0 \<le> q * p" using p q by simp
  then have g: "g = half_up (q * p) QTY_SCALE" using h(5) by (simp add: QTY_SCALE_def)
  have g0: "0 \<le> g" using g line_gross_nonneg [OF q p(2)] by simp
  have "ql_expectedUnitPrice r = None \<or> ql_expectedUnitPrice r = Some (Fin (of_int p))"
    using h(3) by (auto simp: ok_simps dest!: parseVnd_price split: option.splits)
  moreover have "0 \<le> d \<and> d \<le> g" by (rule itemDiscount_bounds [OF h(6) g0])
  moreover have "0 \<le> k \<and> k \<le> 10000" by (rule percent_bps_ok [OF h(7-10)])
  ultimately show ?thesis
    using h(1,4) p q g g0 l c by (simp add: inter_ok_def)
qed

section \<open>The second loop\<close>

definition set_share :: "int \<Rightarrow> int \<Rightarrow> IntermediateLine \<Rightarrow> IntermediateLine" where
  "set_share combined net l =
     (if il_lineAfterItemDiscountVnd l > 0
      then l\<lparr>il_allocatedOrderDiscountVnd := round_half_up (combined * il_lineAfterItemDiscountVnd l) net\<rparr> else l)"

definition share_of :: "int \<Rightarrow> int \<Rightarrow> IntermediateLine \<Rightarrow> int" where
  "share_of combined net l =
     (if il_lineAfterItemDiscountVnd l > 0 then round_half_up (combined * il_lineAfterItemDiscountVnd l) net else 0)"

fun last_pos :: "nat \<Rightarrow> nat option \<Rightarrow> IntermediateLine list \<Rightarrow> nat option" where
  "last_pos i k [] = k"
| "last_pos i k (l # ls) = last_pos (Suc i) (if il_lineAfterItemDiscountVnd l > 0 then Some i else k) ls"

lemma share_loop_spec:
  "0 < net \<Longrightarrow> share_loop combined net i ls (s, k) =
     Inr (map (set_share combined net) ls, s + sum_list (map (share_of combined net) ls), last_pos i k ls)"
  by (induction ls arbitrary: i s k) (simp_all add: set_share_def share_of_def)

lemma last_pos_range: "last_pos i k ls = Some j \<Longrightarrow> k = Some j \<or> (i \<le> j \<and> j < i + length ls)"
proof (induction ls arbitrary: i k)
  case (Cons l ls)
  from Cons.IH [of "Suc i" "if il_lineAfterItemDiscountVnd l > 0 then Some i else k"] Cons.prems
  show ?case by (auto split: if_splits)
qed simp

lemma last_pos_None: "last_pos i k ls = None \<longleftrightarrow> k = None \<and> (\<forall>l \<in> set ls. \<not> 0 < il_lineAfterItemDiscountVnd l)"
  by (induction ls arbitrary: i k) auto

abbreviation with_allocations :: "IntermediateLine list \<Rightarrow> int list \<Rightarrow> IntermediateLine list" where
  "with_allocations \<equiv> map2 (\<lambda>l a. l\<lparr>il_allocatedOrderDiscountVnd := a\<rparr>)"

lemma with_allocations_update:
  assumes "length as = length ls" "k < length ls"
  shows "(with_allocations ls as)[k := add_allocation d (with_allocations ls as ! k)] =
    with_allocations ls (as[k := as ! k + d])"
  using assms by (intro nth_equalityI) (auto simp: nth_list_update add_allocation_def)

lemma map_set_share:
  assumes "\<forall>l \<in> set ls. il_allocatedOrderDiscountVnd l = 0"
  shows "map (set_share combined net) ls = with_allocations ls (map (share_of combined net) ls)"
  using assms by (intro nth_equalityI) (auto simp: set_share_def share_of_def)

lemma share_error:
  assumes "0 < net" "0 \<le> il_lineAfterItemDiscountVnd l"
  shows "\<bar>2 * (share_of combined net l * net - combined * il_lineAfterItemDiscountVnd l)\<bar> \<le> net"
  using assms round_half_up_error [OF assms(1)] by (cases "il_lineAfterItemDiscountVnd l = 0") (simp_all add: share_of_def)

text \<open>
  The allocations add up to the discount, and every line but one (the last with a positive amount)
  gets its exact share rounded to the nearest VND.
\<close>

lemma prorate_spec:
  assumes "\<forall>l \<in> set ls. 0 \<le> il_lineAfterItemDiscountVnd l \<and> il_allocatedOrderDiscountVnd l = 0"
    and "0 \<le> combined" "combined \<le> net" "net = sum_list (map il_lineAfterItemDiscountVnd ls)"
  shows "\<exists>as k. prorate_discount combined net ls = Inr (with_allocations ls as) \<and> length as = length ls \<and>
    sum_list as = combined \<and>
    (\<forall>i < length ls. i \<noteq> k \<longrightarrow> \<bar>2 * (as ! i * net - combined * il_lineAfterItemDiscountVnd (ls ! i))\<bar> \<le> net)"
proof (cases "0 < combined")
  case False
  then have c: "combined = 0" using assms(2) by simp
  have "with_allocations ls (replicate (length ls) 0) = ls"
    using assms(1) by (intro nth_equalityI) auto
  moreover have "0 \<le> net" using assms(2,3) by simp
  ultimately show ?thesis
    by (intro exI [of _ "replicate (length ls) 0"] exI [of _ 0]) (auto simp: c prorate_discount_def sum_list_replicate)
next
  case True
  then have net: "0 < net" using assms(3) by simp
  define sh where "sh = map (share_of combined net) ls"
  have "\<exists>l \<in> set ls. 0 < il_lineAfterItemDiscountVnd l"
  proof (rule ccontr)
    assume "\<not> ?thesis"
    then have "sum_list (map il_lineAfterItemDiscountVnd ls) = 0"
      using assms(1) by (intro sum_list_all_0) force
    then show False using net assms(4) by simp
  qed
  then have "last_pos 0 None ls \<noteq> None" by (simp add: last_pos_None)
  then obtain k where k: "last_pos 0 None ls = Some k" by blast
  then have kl: "k < length ls" using last_pos_range by fastforce
  define as where "as = (if combined - sum_list sh \<noteq> 0 then sh[k := sh ! k + (combined - sum_list sh)] else sh)"
  have len: "length as = length ls" by (simp add: as_def sh_def)
  have alloc: "\<forall>l \<in> set ls. il_allocatedOrderDiscountVnd l = 0" using assms(1) by blast
  have "prorate_discount combined net ls = Inr (with_allocations ls as)"
    using with_allocations_update [of sh ls k "combined - sum_list sh"] kl
    by (simp add: prorate_discount_def True net share_loop_spec k map_set_share [OF alloc] as_def Let_def
        flip: sh_def) (simp add: sh_def)
  moreover have "sum_list as = combined"
    using kl by (simp add: as_def sum_list_update_int sh_def)
  moreover have "\<forall>i < length ls. i \<noteq> k \<longrightarrow>
      \<bar>2 * (as ! i * net - combined * il_lineAfterItemDiscountVnd (ls ! i))\<bar> \<le> net"
    using share_error [OF net] assms(1) by (simp add: as_def sh_def)
  ultimately show ?thesis using len by blast
qed

section \<open>Quotes\<close>

lemma finish_line_ok:
  assumes "finish_line l = Inr c"
  shows "ol_lineNo c = il_lineNo l \<and> ol_variantId c = cv_variantId (il_catalog l) \<and>
    ol_qty c = formatQtyMillis (il_qtyMillis l) \<and> ol_unitPrice c = il_unitPriceVnd l \<and>
    ol_lineGross c = il_lineGrossVnd l \<and> ol_itemDiscountAmount c = il_itemDiscountVnd l \<and>
    ol_lineAfterItemDiscount c = il_lineAfterItemDiscountVnd l \<and>
    ol_allocatedOrderDiscount c = il_allocatedOrderDiscountVnd l \<and> ol_lineNet c = line_net l \<and>
    ol_taxAmount c = round_half_up (line_net l * il_taxRateBps l) 10000 \<and>
    ol_lineTotal c = ol_lineNet c + ol_taxAmount c"
  using assms unfolding finish_line_def Let_def ebind_eq_Inr vndNumber_iff
  by (elim exE conjE) (drule sym [of _ "Inr c"], simp)

lemma quoteE:
  assumes "calculateOrderQuote input cat = Inr q"
  obtains inter raw promo alloc where
    "emapi (quote_line cat) 0 (qi_lines input) = Inr inter"
    "calculateItemDiscount (oq_subtotal q - oq_itemDiscountTotal q)
       (case qi_orderDiscountType input of None \<Rightarrow> NONE | Some t \<Rightarrow> t) (qi_orderDiscountValue input) = Inr raw"
    "parseVndAmount (opt_num (qi_promotionDiscountAmount input)) True = Inr promo"
    "raw + promo \<le> oq_subtotal q - oq_itemDiscountTotal q"
    "prorate_discount (raw + promo) (oq_subtotal q - oq_itemDiscountTotal q) inter = Inr alloc"
    "emap finish_line alloc = Inr (oq_lines q)"
    "parseVndAmount (opt_num (qi_shippingFee input)) True = Inr (oq_shippingFee q)"
    "oq_subtotal q = sum_list (map il_lineGrossVnd inter)"
    "oq_itemDiscountTotal q = sum_list (map il_itemDiscountVnd inter)"
    "oq_orderDiscountTotal q = raw" "oq_promotionDiscountTotal q = promo"
    "oq_totalDiscount q = oq_itemDiscountTotal q + (raw + promo)"
    "oq_taxTotal q = sum_list (map ol_taxAmount (oq_lines q))"
    "oq_grandTotal q = oq_subtotal q - oq_totalDiscount q + oq_taxTotal q + oq_shippingFee q"
    "oq_effectiveDiscountPercent q =
       (if oq_subtotal q > 0 then js_scale (js_of_int (bigint_div (oq_totalDiscount q * 10000) (oq_subtotal q))) (1 / 100)
        else Fin 0)"
  using assms by (auto simp: calculateOrderQuote_def Let_def ok_simps)

text \<open>
  The shape of a quote: for every requested line an intermediate line and an allocation, and the
  allocations add up to the order and promotion discounts.
\<close>

lemma quote_shape:
  assumes "calculateOrderQuote input cat = Inr q"
  obtains inter as k where
    "length inter = length (qi_lines input)" "length as = length inter" "length (oq_lines q) = length inter"
    "\<And>i. i < length inter \<Longrightarrow> inter_ok cat i (qi_lines input ! i) (inter ! i)"
    "\<And>i. i < length inter \<Longrightarrow>
       finish_line ((inter ! i)\<lparr>il_allocatedOrderDiscountVnd := as ! i\<rparr>) = Inr (oq_lines q ! i)"
    "sum_list as = oq_orderDiscountTotal q + oq_promotionDiscountTotal q"
    "\<And>i. i < length inter \<Longrightarrow> i \<noteq> k \<Longrightarrow>
       \<bar>2 * (as ! i * (oq_subtotal q - oq_itemDiscountTotal q) -
         (oq_orderDiscountTotal q + oq_promotionDiscountTotal q) * il_lineAfterItemDiscountVnd (inter ! i))\<bar>
         \<le> oq_subtotal q - oq_itemDiscountTotal q"
    "oq_subtotal q = sum_list (map il_lineGrossVnd inter)"
    "oq_itemDiscountTotal q = sum_list (map il_itemDiscountVnd inter)"
    "0 \<le> oq_orderDiscountTotal q" "0 \<le> oq_promotionDiscountTotal q"
proof -
  obtain inter raw promo alloc where h:
    "emapi (quote_line cat) 0 (qi_lines input) = Inr inter"
    "calculateItemDiscount (oq_subtotal q - oq_itemDiscountTotal q)
       (case qi_orderDiscountType input of None \<Rightarrow> NONE | Some t \<Rightarrow> t) (qi_orderDiscountValue input) = Inr raw"
    "parseVndAmount (opt_num (qi_promotionDiscountAmount input)) True = Inr promo"
    "raw + promo \<le> oq_subtotal q - oq_itemDiscountTotal q"
    "prorate_discount (raw + promo) (oq_subtotal q - oq_itemDiscountTotal q) inter = Inr alloc"
    "emap finish_line alloc = Inr (oq_lines q)"
    "parseVndAmount (opt_num (qi_shippingFee input)) True = Inr (oq_shippingFee q)"
    "oq_subtotal q = sum_list (map il_lineGrossVnd inter)"
    "oq_itemDiscountTotal q = sum_list (map il_itemDiscountVnd inter)"
    "oq_orderDiscountTotal q = raw" "oq_promotionDiscountTotal q = promo"
    "oq_totalDiscount q = oq_itemDiscountTotal q + (raw + promo)"
    "oq_taxTotal q = sum_list (map ol_taxAmount (oq_lines q))"
    "oq_grandTotal q = oq_subtotal q - oq_totalDiscount q + oq_taxTotal q + oq_shippingFee q"
    "oq_effectiveDiscountPercent q =
       (if oq_subtotal q > 0 then js_scale (js_of_int (bigint_div (oq_totalDiscount q * 10000) (oq_subtotal q))) (1 / 100)
        else Fin 0)"
    by (rule quoteE [OF assms])
  have ok: "inter_ok cat i (qi_lines input ! i) (inter ! i)" if "i < length inter" for i
    using h(1) that quote_line_ok by (auto simp: emapi_Inr_iff)
  have each: "0 \<le> il_lineAfterItemDiscountVnd l \<and> il_allocatedOrderDiscountVnd l = 0 \<and>
      il_lineAfterItemDiscountVnd l = il_lineGrossVnd l - il_itemDiscountVnd l" if l: "l \<in> set inter" for l
  proof -
    obtain i where "i < length inter" "l = inter ! i" using l by (auto simp: in_set_conv_nth)
    then show ?thesis using ok [of i] by (simp add: inter_ok_def)
  qed
  let ?net = "oq_subtotal q - oq_itemDiscountTotal q"
  have "sum_list (map il_lineAfterItemDiscountVnd inter) = sum_list (map (\<lambda>l. il_lineGrossVnd l - il_itemDiscountVnd l) inter)"
    using each by (intro arg_cong [where f = sum_list] map_cong) simp_all
  then have net: "?net = sum_list (map il_lineAfterItemDiscountVnd inter)"
    using h(8,9) by (simp add: sum_list_map_diff)
  have net0: "0 \<le> ?net" unfolding net by (auto intro!: sum_list_nonneg each [THEN conjunct1])
  have raw: "0 \<le> raw" using itemDiscount_bounds [OF h(2) net0] by simp
  have promo: "0 \<le> promo" using parseVnd_nonneg [OF h(3)] .
  have pre: "\<forall>l \<in> set inter. 0 \<le> il_lineAfterItemDiscountVnd l \<and> il_allocatedOrderDiscountVnd l = 0"
    using each by blast
  obtain as k where a: "prorate_discount (raw + promo) ?net inter = Inr (with_allocations inter as)"
    "length as = length inter" "sum_list as = raw + promo"
    "\<forall>i < length inter. i \<noteq> k \<longrightarrow> \<bar>2 * (as ! i * ?net - (raw + promo) * il_lineAfterItemDiscountVnd (inter ! i))\<bar> \<le> ?net"
    using prorate_spec [OF pre _ h(4) net] raw promo by (meson add_nonneg_nonneg)
  have "list_all2 (\<lambda>x y. finish_line x = Inr y) (with_allocations inter as) (oq_lines q)"
    using h(5,6) a(1) by (simp add: emap_Inr_iff)
  then have "length (oq_lines q) = length inter \<and>
      (\<forall>i < length inter. finish_line ((inter ! i)\<lparr>il_allocatedOrderDiscountVnd := as ! i\<rparr>) = Inr (oq_lines q ! i))"
    using a(2) by (auto simp: list_all2_conv_all_nth)
  then show thesis
    using a(2-4) h(8-11) ok raw promo emapi_length [OF h(1)] by (intro that [of inter as k]) simp_all
qed

lemma quote_totals:
  assumes "calculateOrderQuote input cat = Inr q"
  shows "oq_totalDiscount q = oq_itemDiscountTotal q + (oq_orderDiscountTotal q + oq_promotionDiscountTotal q)"
    and "oq_taxTotal q = sum_list (map ol_taxAmount (oq_lines q))"
    and "oq_grandTotal q = oq_subtotal q - oq_totalDiscount q + oq_taxTotal q + oq_shippingFee q"
    and "oq_orderDiscountTotal q + oq_promotionDiscountTotal q \<le> oq_subtotal q - oq_itemDiscountTotal q"
    and "0 \<le> oq_shippingFee q"
    and "oq_effectiveDiscountPercent q =
       (if oq_subtotal q > 0 then js_scale (js_of_int (bigint_div (oq_totalDiscount q * 10000) (oq_subtotal q))) (1 / 100)
        else Fin 0)"
  by (rule quoteE [OF assms], simp add: parseVnd_nonneg)+

text \<open>The line-level facts, over the finished lines of the quote.\<close>

lemma quote_line_facts:
  assumes "calculateOrderQuote input cat = Inr q" "i < length (oq_lines q)"
  shows "\<exists>c p m bps. cat (ql_variantId (qi_lines input ! i)) = Some c \<and> cv_status c = ACTIVE \<and>
    cv_unitPrice c = Fin (of_int p) \<and> ol_unitPrice (oq_lines q ! i) = p \<and>
    parseQtyMillis (ql_qty (qi_lines input ! i)) = Inr m \<and>
    ol_lineGross (oq_lines q ! i) = half_up (m * p) 1000 \<and>
    0 \<le> ol_itemDiscountAmount (oq_lines q ! i) \<and>
    ol_itemDiscountAmount (oq_lines q ! i) \<le> ol_lineGross (oq_lines q ! i) \<and>
    ol_lineAfterItemDiscount (oq_lines q ! i) = ol_lineGross (oq_lines q ! i) - ol_itemDiscountAmount (oq_lines q ! i) \<and>
    ol_lineNet (oq_lines q ! i) = ol_lineAfterItemDiscount (oq_lines q ! i) - ol_allocatedOrderDiscount (oq_lines q ! i) \<and>
    0 \<le> bps \<and> bps \<le> 10000 \<and>
    ol_taxAmount (oq_lines q ! i) = round_half_up (ol_lineNet (oq_lines q ! i) * bps) 10000 \<and>
    ol_lineTotal (oq_lines q ! i) = ol_lineNet (oq_lines q ! i) + ol_taxAmount (oq_lines q ! i) \<and>
    ol_lineNo (oq_lines q ! i) = i + 1"
proof (rule quote_shape [OF assms(1)])
  fix inter as k
  assume len: "length (oq_lines q) = length inter"
    and ok: "\<And>i. i < length inter \<Longrightarrow> inter_ok cat i (qi_lines input ! i) (inter ! i)"
    and fin: "\<And>i. i < length inter \<Longrightarrow>
       finish_line ((inter ! i)\<lparr>il_allocatedOrderDiscountVnd := as ! i\<rparr>) = Inr (oq_lines q ! i)"
  have i: "i < length inter" using assms(2) len by simp
  show ?thesis
    using ok [OF i] finish_line_ok [OF fin [OF i]]
    by (intro exI [of _ "il_catalog (inter ! i)"] exI [of _ "il_unitPriceVnd (inter ! i)"]
        exI [of _ "il_qtyMillis (inter ! i)"] exI [of _ "il_taxRateBps (inter ! i)"])
      (simp add: inter_ok_def line_net_def QTY_SCALE_def)
qed

lemma quote_sums:
  assumes "calculateOrderQuote input cat = Inr q"
  shows "oq_subtotal q = sum_list (map ol_lineGross (oq_lines q))"
    and "oq_itemDiscountTotal q = sum_list (map ol_itemDiscountAmount (oq_lines q))"
    and "sum_list (map ol_allocatedOrderDiscount (oq_lines q)) = oq_orderDiscountTotal q + oq_promotionDiscountTotal q"
    and "length (oq_lines q) = length (qi_lines input)"
    and "0 \<le> oq_orderDiscountTotal q" "0 \<le> oq_promotionDiscountTotal q"
proof (atomize (full), rule quote_shape [OF assms])
  fix inter as k
  assume len: "length inter = length (qi_lines input)" "length as = length inter" "length (oq_lines q) = length inter"
    and fin: "\<And>i. i < length inter \<Longrightarrow>
       finish_line ((inter ! i)\<lparr>il_allocatedOrderDiscountVnd := as ! i\<rparr>) = Inr (oq_lines q ! i)"
    and sums: "sum_list as = oq_orderDiscountTotal q + oq_promotionDiscountTotal q"
      "oq_subtotal q = sum_list (map il_lineGrossVnd inter)"
      "oq_itemDiscountTotal q = sum_list (map il_itemDiscountVnd inter)"
    and nn: "0 \<le> oq_orderDiscountTotal q" "0 \<le> oq_promotionDiscountTotal q"
  have line: "ol_lineGross (oq_lines q ! i) = il_lineGrossVnd (inter ! i) \<and>
      ol_itemDiscountAmount (oq_lines q ! i) = il_itemDiscountVnd (inter ! i) \<and>
      ol_allocatedOrderDiscount (oq_lines q ! i) = as ! i" if "i < length inter" for i
    using finish_line_ok [OF fin [OF that]] by simp
  have "sum_list (map ol_lineGross (oq_lines q)) = sum_list (map il_lineGrossVnd inter)"
    "sum_list (map ol_itemDiscountAmount (oq_lines q)) = sum_list (map il_itemDiscountVnd inter)"
    "sum_list (map ol_allocatedOrderDiscount (oq_lines q)) = sum_list (map id as)"
    using line len by (intro sum_list_nth_eq; simp)+
  then show "(oq_subtotal q = sum_list (map ol_lineGross (oq_lines q)) \<and>
      oq_itemDiscountTotal q = sum_list (map ol_itemDiscountAmount (oq_lines q))) \<and>
      (sum_list (map ol_allocatedOrderDiscount (oq_lines q)) = oq_orderDiscountTotal q + oq_promotionDiscountTotal q) \<and>
      length (oq_lines q) = length (qi_lines input) \<and> 0 \<le> oq_orderDiscountTotal q \<and> 0 \<le> oq_promotionDiscountTotal q"
    using sums nn len by simp
qed

lemma quote_line_amounts:
  assumes "calculateOrderQuote input cat = Inr q" "l \<in> set (oq_lines q)"
  shows "0 \<le> ol_itemDiscountAmount l \<and>
    ol_lineTotal l = (ol_lineGross l - ol_itemDiscountAmount l - ol_allocatedOrderDiscount l) + ol_taxAmount l"
proof -
  obtain i where i: "i < length (oq_lines q)" "l = oq_lines q ! i" using assms(2) by (auto simp: in_set_conv_nth)
  show ?thesis using quote_line_facts [OF assms(1) i(1)] unfolding i(2) [symmetric] by (elim exE conjE) simp
qed

lemma quote_item_discounts_nonneg:
  assumes "calculateOrderQuote input cat = Inr q"
  shows "0 \<le> oq_itemDiscountTotal q"
  unfolding quote_sums(2) [OF assms]
  by (rule sum_list_nonneg) (auto dest: quote_line_amounts [OF assms])

section \<open>Discount authority\<close>

lemma effective_percent:
  assumes "0 < s" "0 \<le> d" "d \<le> s"
  obtains k where "js_scale (js_of_int (bigint_div (d * 10000) s)) (1 / 100) = Fin (fl (of_int k / 100))"
    "k = d * 10000 div s" "0 \<le> k" "k \<le> 10000"
proof
  let ?k = "d * 10000 div s"
  have "d * 10000 \<le> 10000 * s" using assms by simp
  then have k: "0 \<le> ?k" "?k \<le> 10000"
    using assms zdiv_mono1 [of "d * 10000" "10000 * s" s] by (simp_all add: pos_imp_zdiv_nonneg_iff)
  then have "js_of_int ?k = Fin (of_int ?k)" by (intro js_of_int_small) simp
  moreover have "\<bar>of_int ?k / 100 :: rat\<bar> \<le> 2 ^ 53"
  proof -
    have "(of_int ?k :: rat) \<le> of_int 10000" "0 \<le> (of_int ?k :: rat)" using k by (simp_all only: of_int_le_iff of_int_0_le_iff)
    then show ?thesis by simp
  qed
  ultimately show "js_scale (js_of_int (bigint_div (d * 10000) s)) (1 / 100) = Fin (fl (of_int ?k / 100))"
    using assms by (simp add: js_scale_def to_double_small)
  show "0 \<le> ?k" "?k \<le> 10000" by (fact k)+
qed (rule refl)

text \<open>The percentage reported by a quote exceeds an integer limit when the exact one does, to the basis point.\<close>

lemma percent_above_limit:
  assumes "0 \<le> k" "k \<le> 10000" "100 * L < k"
  shows "of_int L < fl (of_int k / 100)"
proof -
  have k: "of_int (100 * L + 1) \<le> (of_int k :: rat)" "(of_int k :: rat) \<le> of_int 10000" "0 \<le> (of_int k :: rat)"
    using assms by (simp_all only: of_int_le_iff of_int_0_le_iff)
  then have "\<bar>fl (of_int k / 100) - of_int k / 100\<bar> \<le> 1 / 400" by (intro fl_near) simp_all
  then have "- (fl (of_int k / 100) - of_int k / 100) \<le> 1 / 400" by (rule abs_le_D2)
  moreover have "100 * of_int L + 1 \<le> (of_int k :: rat)" using k(1) by simp
  ultimately show ?thesis by linarith
qed

section \<open>Properties\<close>

text \<open>A catalogue of one variant at 1 VND and one at 15000 VND, and an order of both.\<close>

definition sample_variant :: "string \<Rightarrow> int \<Rightarrow> AuthoritativeCatalogVariant" where
  "sample_variant v p = \<lparr>cv_variantId = v, cv_productId = ''p1'', cv_skuCode = ''SKU'', cv_barcode = None,
     cv_productName = ''Tea'', cv_variantName = ''100g'', cv_unitCode = [], cv_conversionFactor = ''1'',
     cv_unitPrice = Fin (of_int p), cv_status = ACTIVE, cv_unitCostSnapshot = None\<rparr>"

definition sample_catalog :: "string \<Rightarrow> AuthoritativeCatalogVariant option" where
  "sample_catalog v =
     (if v = ''a'' then Some (sample_variant v 1) else if v = ''b'' then Some (sample_variant v 15000) else None)"

definition sample_line :: "string \<Rightarrow> string \<Rightarrow> QuoteLineInput" where
  "sample_line v n = \<lparr>ql_variantId = v, ql_qty = n, ql_expectedUnitPrice = None, ql_discountType = None,
     ql_discountValue = None, ql_taxRatePercent = Str ''8''\<rparr>"

definition sample_order :: QuoteOrderInput where
  "sample_order = \<lparr>qi_lines = [sample_line ''b'' ''2.5'', sample_line ''a'' ''10''],
     qi_orderDiscountType = Some PERCENT, qi_orderDiscountValue = Some (Fin 10),
     qi_promotionDiscountAmount = None, qi_shippingFee = Some (Fin 20000)\<rparr>"

lemma sample_quote_ok: "is_ok (calculateOrderQuote sample_order sample_catalog)"
  by code_simp



text \<open>
Every line of a quote is priced from the catalogue: the variant is active and sold at the catalogue price, the
gross amount is quantity times price to the nearest VND, the item discount stays within it, the tax is
the rate applied to the net amount to the nearest VND, and the lines keep the order of the request.
\<close>

theorem quote_lines_priced:
  assumes "calculateOrderQuote input cat = Inr q" and "i < length (qi_lines input)"
  shows "\<exists>c p m bps l. l = oq_lines q ! i \<and> length (oq_lines q) = length (qi_lines input) \<and>
    cat (ql_variantId (qi_lines input ! i)) = Some c \<and> cv_status c = ACTIVE \<and>
    cv_unitPrice c = Fin (of_int p) \<and> ol_unitPrice l = p \<and>
    parseQtyMillis (ql_qty (qi_lines input ! i)) = Inr m \<and> \<bar>2 * (ol_lineGross l * 1000 - m * p)\<bar> \<le> 1000 \<and>
    0 \<le> ol_itemDiscountAmount l \<and> ol_itemDiscountAmount l \<le> ol_lineGross l \<and>
    ol_lineNet l = ol_lineGross l - ol_itemDiscountAmount l - ol_allocatedOrderDiscount l \<and>
    0 \<le> bps \<and> bps \<le> 10000 \<and> \<bar>2 * (ol_taxAmount l * 10000 - ol_lineNet l * bps)\<bar> \<le> 10000 \<and>
    ol_lineTotal l = ol_lineNet l + ol_taxAmount l \<and> ol_lineNo l = i + 1"
proof -
  have "i < length (oq_lines q)" using quote_sums(4) [OF assms(1)] assms(2) by simp
  from quote_line_facts [OF assms(1) this] obtain c p m bps where f:
    "cat (ql_variantId (qi_lines input ! i)) = Some c" "cv_status c = ACTIVE"
    "cv_unitPrice c = Fin (of_int p)" "ol_unitPrice (oq_lines q ! i) = p"
    "parseQtyMillis (ql_qty (qi_lines input ! i)) = Inr m"
    "ol_lineGross (oq_lines q ! i) = half_up (m * p) 1000"
    "0 \<le> ol_itemDiscountAmount (oq_lines q ! i)"
    "ol_itemDiscountAmount (oq_lines q ! i) \<le> ol_lineGross (oq_lines q ! i)"
    "ol_lineAfterItemDiscount (oq_lines q ! i) = ol_lineGross (oq_lines q ! i) - ol_itemDiscountAmount (oq_lines q ! i)"
    "ol_lineNet (oq_lines q ! i) = ol_lineAfterItemDiscount (oq_lines q ! i) - ol_allocatedOrderDiscount (oq_lines q ! i)"
    "0 \<le> bps" "bps \<le> 10000"
    "ol_taxAmount (oq_lines q ! i) = round_half_up (ol_lineNet (oq_lines q ! i) * bps) 10000"
    "ol_lineTotal (oq_lines q ! i) = ol_lineNet (oq_lines q ! i) + ol_taxAmount (oq_lines q ! i)"
    "ol_lineNo (oq_lines q ! i) = i + 1"
    by (elim exE conjE)
  have "\<bar>2 * (ol_lineGross (oq_lines q ! i) * 1000 - m * p)\<bar> \<le> 1000"
    unfolding f(6) by (rule half_up_error) simp
  moreover have "\<bar>2 * (ol_taxAmount (oq_lines q ! i) * 10000 - ol_lineNet (oq_lines q ! i) * bps)\<bar> \<le> 10000"
    unfolding f(13) by (rule round_half_up_error) simp
  ultimately show ?thesis using f quote_sums(4) [OF assms(1)] by auto
qed

theorem quote_lines_priced_witness:
  "\<exists>q. calculateOrderQuote sample_order sample_catalog = Inr q \<and> ol_unitPrice (oq_lines q ! 0) = 15000"
proof -
  obtain q where q: "calculateOrderQuote sample_order sample_catalog = Inr q"
    using sample_quote_ok by (auto simp: is_ok_def split: sum.splits)
  have i: "0 < length (qi_lines sample_order)" by code_simp
  have "sample_catalog (ql_variantId (qi_lines sample_order ! 0)) = Some (sample_variant ''b'' 15000)" by code_simp
  then show ?thesis
    using quote_lines_priced [OF q i] q by (auto simp: sample_variant_def)
qed



text \<open>
A seller without the override permission cannot give away more than the role allows: when the
authority check passes for a quote, the total discount is at most the role's percentage of the
subtotal, to the basis point.
\<close>

theorem discount_within_authority:
  assumes "calculateOrderQuote input cat = Inr q"
    and "assertDiscountAuthority (oq_effectiveDiscountPercent q) role perms = Inr ()"
    and "''*'' \<notin> set perms" and "''sales.pos.discount.override'' \<notin> set perms"
    and "max_discount role = Fin (of_int L)" and "0 \<le> L"
  shows "oq_totalDiscount q * 10000 \<le> oq_subtotal q * (100 * L + 1)"
proof -
  have d: "0 \<le> oq_totalDiscount q" "oq_totalDiscount q \<le> oq_subtotal q"
    using quote_totals(1,4) [OF assms(1)] quote_sums(5,6) [OF assms(1)] quote_item_discounts_nonneg [OF assms(1)]
    by simp_all
  show ?thesis
  proof (cases "0 < oq_subtotal q")
    case False
    then show ?thesis using d by (cases "oq_subtotal q = 0") auto
  next
    case True
    then obtain k where k: "oq_effectiveDiscountPercent q = Fin (fl (of_int k / 100))"
      "k = oq_totalDiscount q * 10000 div oq_subtotal q" "0 \<le> k" "k \<le> 10000"
      using effective_percent [OF True d] quote_totals(6) [OF assms(1)] by auto
    have "\<not> of_int L < fl (of_int k / 100)"
      using assms(2-6) k(1) by (auto simp: assertDiscountAuthority_def throw_if_def js_le_def js_eq_def split: if_splits)
    then have "k \<le> 100 * L" using percent_above_limit [OF k(3,4), of L] by linarith
    then have "k * oq_subtotal q \<le> 100 * L * oq_subtotal q" using True by (simp add: mult_right_mono)
    moreover have "oq_totalDiscount q * 10000 < k * oq_subtotal q + oq_subtotal q"
      unfolding k(2) using pos_mod_bound [OF True, of "oq_totalDiscount q * 10000"]
        div_mult_mod_eq [of "oq_totalDiscount q * 10000" "oq_subtotal q"] by linarith
    ultimately show ?thesis by (simp add: algebra_simps)
  qed
qed

theorem discount_within_authority_witness:
  "\<exists>q. calculateOrderQuote sample_order sample_catalog = Inr q \<and>
    assertDiscountAuthority (oq_effectiveDiscountPercent q) (Some ''cashier'') [''sales.read''] = Inr () \<and>
    oq_totalDiscount q * 10000 \<le> oq_subtotal q * 1001"
proof -
  obtain q where q: "calculateOrderQuote sample_order sample_catalog = Inr q"
    using sample_quote_ok by (auto simp: is_ok_def split: sum.splits)
  have "ebind (calculateOrderQuote sample_order sample_catalog)
      (\<lambda>q. assertDiscountAuthority (oq_effectiveDiscountPercent q) (Some ''cashier'') [''sales.read'']) = Inr ()"
    by code_simp
  then have a: "assertDiscountAuthority (oq_effectiveDiscountPercent q) (Some ''cashier'') [''sales.read''] = Inr ()"
    using q by simp
  have "max_discount (Some ''cashier'') = Fin 10" by code_simp
  then have "max_discount (Some ''cashier'') = Fin (of_int 10)" by simp
  from discount_within_authority [OF q a _ _ this] show ?thesis using q a by simp
qed

text \<open>
  The residual of the rounding goes to the last line as a whole, so that line may end below zero: four lines of
  1 VND with an order discount of 2 VND, and ten lines of 1 VND with a discount of 4 VND.
\<close>

definition coins_order :: "nat \<Rightarrow> int \<Rightarrow> QuoteOrderInput" where
  "coins_order n d = \<lparr>qi_lines = replicate n (sample_line ''a'' ''1''), qi_orderDiscountType = Some FIXED,
     qi_orderDiscountValue = Some (Fin (of_int d)), qi_promotionDiscountAmount = None, qi_shippingFee = None\<rparr>"

lemma quote_residual_negative:
  "ebind (calculateOrderQuote (coins_order 4 2) sample_catalog)
     (\<lambda>q. Inr (map ol_allocatedOrderDiscount (oq_lines q))) = Inr [1, 1, 1, - 1]"
  "ebind (calculateOrderQuote (coins_order 10 4) sample_catalog)
     (\<lambda>q. Inr (map ol_lineNet (oq_lines q))) = Inr [1, 1, 1, 1, 1, 1, 1, 1, 1, - 3]"
  by code_simp+

text \<open>A role named after a property of every object has no discount ceiling.\<close>

lemma discount_limit_bypassed: "assertDiscountAuthority (Fin 100) (Some ''constructor'') [] = Inr ()"
  by code_simp

end
