(* ===== verification/SalesReturn.thy ===== *)
theory SalesReturn
  imports SalesMoney
begin

text \<open>
  Partial returns and their refunds (\<^verbatim>\<open>calculateReturnRefund\<close> of
  \<^verbatim>\<open>apps/sales/src/domain/sales-domain.ts\<close>): the returned quantity of a line never exceeds what was sold, each
  refund is the pro-rated line total, and the return of the last unit refunds the exact rest.
\<close>

datatype ReturnDisposition = RESTOCK | DAMAGED | QUARANTINE | NO_PHYSICAL_RETURN

record OriginalOrderLineSnapshot =
  or_orderItemId :: string
  or_variantId :: string
  or_skuCode :: string
  or_productName :: string
  or_soldQty :: string
  or_alreadyReturnedQty :: string
  or_unitPrice :: jsnum
  or_lineNet :: jsnum
  or_taxAmount :: jsnum
  or_lineTotal :: jsnum
  or_alreadyRefundedAmount :: jsnum

record ReturnLineRequest =
  rr_orderItemId :: string
  rr_returnQty :: string
  rr_disposition :: ReturnDisposition
  rr_reason :: "string option"

record CalculatedReturnLine =
  cr_orderItemId :: string
  cr_variantId :: string
  cr_skuCode :: string
  cr_productName :: string
  cr_returnQty :: string
  cr_remainingReturnableAfter :: string
  cr_unitRefundAmount :: int
  cr_refundAmount :: int
  cr_disposition :: ReturnDisposition
  cr_reason :: "string option"

record CalculatedReturnResult =
  res_lines :: "CalculatedReturnLine list"
  res_totalRefundAmount :: int
  res_isFullOrderReturn :: bool

definition line_map :: "OriginalOrderLineSnapshot list \<Rightarrow> (string, OriginalOrderLineSnapshot) jsmap" where
  "line_map originalLines = fold (\<lambda>orig m. map_set (or_orderItemId orig) orig m) originalLines []"

text \<open>The quantity returned before; an absent or non-positive text counts as zero.\<close>

definition returned_millis :: "OriginalOrderLineSnapshot \<Rightarrow> int sales_result" where
  "returned_millis orig =
     (if or_alreadyReturnedQty orig \<noteq> [] \<and> js_lt (Fin 0) (num_of_string (or_alreadyReturnedQty orig))
      then parseQtyMillis (or_alreadyReturnedQty orig) else Inr 0)"

text \<open>The first loop: the requested quantity per item.\<close>

definition add_request ::
    "(string, OriginalOrderLineSnapshot) jsmap \<Rightarrow> ReturnLineRequest \<Rightarrow> (string, int) jsmap \<Rightarrow> (string, int) jsmap sales_result" where
  "add_request lineMap req m =
     (case map_get lineMap (rr_orderItemId req) of
        None \<Rightarrow> Inl (sales_error RETURN_NOT_ELIGIBLE 409)
      | Some _ \<Rightarrow>
          ebind (parseQtyMillis (rr_returnQty req)) (\<lambda>qtyMillis.
          let prev = (case map_get m (rr_orderItemId req) of None \<Rightarrow> 0 | Some p \<Rightarrow> p)
          in Inr (map_set (rr_orderItemId req) (prev + qtyMillis) m)))"

text \<open>The second loop: the request fits into what is left to return.\<close>

definition check_remaining ::
    "(string, OriginalOrderLineSnapshot) jsmap \<Rightarrow> string \<times> int \<Rightarrow> unit sales_result" where
  "check_remaining lineMap entry =
     (case map_get lineMap (fst entry) of
        None \<Rightarrow> Inl (NativeError ''TypeError'')
      | Some orig \<Rightarrow>
          ebind (parseQtyMillis (or_soldQty orig)) (\<lambda>soldMillis.
          ebind (returned_millis orig) (\<lambda>returnedMillis.
            throw_if (snd entry > soldMillis - returnedMillis) (sales_error RETURN_QUANTITY_EXCEEDED 409))))"

text \<open>The accumulators of the final \<^verbatim>\<open>map\<close>: what was returned and refunded per item so far.\<close>

record return_acc =
  ra_returned :: "(string, int) jsmap"
  ra_refunded :: "(string, int) jsmap"
  ra_total :: int
  ra_lines :: "CalculatedReturnLine list"

definition start_item :: "OriginalOrderLineSnapshot \<Rightarrow> return_acc \<Rightarrow> return_acc sales_result" where
  "start_item orig s =
     ebind (returned_millis orig) (\<lambda>returnedMillis.
     ebind (parseVndAmount (Num (or_alreadyRefundedAmount orig)) True) (\<lambda>refunded.
       Inr (s\<lparr>ra_returned := map_set (or_orderItemId orig) returnedMillis (ra_returned s),
              ra_refunded := map_set (or_orderItemId orig) refunded (ra_refunded s)\<rparr>)))"

text \<open>The refund of one request, given the state of its line.\<close>

definition refund_amount :: "int \<Rightarrow> int \<Rightarrow> int \<Rightarrow> int \<Rightarrow> int \<Rightarrow> int sales_result" where
  "refund_amount soldMillis reqMillis newReturnedMillis lineTotalVnd maxRemainingRefundVnd =
     (if newReturnedMillis = soldMillis then Inr maxRemainingRefundVnd
      else ebind (roundDivHalfUp (lineTotalVnd * reqMillis) soldMillis) (\<lambda>refund.
             Inr (if refund > maxRemainingRefundVnd then maxRemainingRefundVnd else refund)))"

definition return_line ::
    "(string, OriginalOrderLineSnapshot) jsmap \<Rightarrow> ReturnLineRequest \<Rightarrow> return_acc \<Rightarrow> return_acc sales_result" where
  "return_line lineMap req s =
     (case map_get lineMap (rr_orderItemId req) of
        None \<Rightarrow> Inl (NativeError ''TypeError'')
      | Some orig \<Rightarrow>
          ebind (parseQtyMillis (or_soldQty orig)) (\<lambda>soldMillis.
          ebind (parseQtyMillis (rr_returnQty req)) (\<lambda>reqMillis.
          let newReturnedMillis = the (map_get (ra_returned s) (rr_orderItemId req)) + reqMillis in
          ebind (parseVndAmount (Num (or_lineTotal orig)) True) (\<lambda>lineTotalVnd.
          let prevRefundedVnd = the (map_get (ra_refunded s) (rr_orderItemId req)) in
          ebind (refund_amount soldMillis reqMillis newReturnedMillis lineTotalVnd (lineTotalVnd - prevRefundedVnd)) (\<lambda>refundVnd.
          ebind (roundDivHalfUp (refundVnd * QTY_SCALE) reqMillis) (\<lambda>unitRefundVnd.
          ebind (vndNumber unitRefundVnd) (\<lambda>unitRefund.
          ebind (vndNumber refundVnd) (\<lambda>refund.
            Inr \<lparr>ra_returned = map_set (rr_orderItemId req) newReturnedMillis (ra_returned s),
                 ra_refunded = map_set (rr_orderItemId req) (prevRefundedVnd + refundVnd) (ra_refunded s),
                 ra_total = ra_total s + refundVnd,
                 ra_lines = ra_lines s @
                   [\<lparr>cr_orderItemId = or_orderItemId orig, cr_variantId = or_variantId orig,
                     cr_skuCode = or_skuCode orig, cr_productName = or_productName orig,
                     cr_returnQty = formatQtyMillis reqMillis,
                     cr_remainingReturnableAfter = formatQtyMillis (soldMillis - newReturnedMillis),
                     cr_unitRefundAmount = unitRefund, cr_refundAmount = refund,
                     cr_disposition = rr_disposition req, cr_reason = rr_reason req\<rparr>]\<rparr>))))))))"

definition no_returns :: return_acc where
  "no_returns = \<lparr>ra_returned = [], ra_refunded = [], ra_total = 0, ra_lines = []\<rparr>"

text \<open>\<^verbatim>\<open>every\<close> stops at the first line that is not fully returned; parsing its sold quantity may throw.\<close>

fun all_returned :: "(string, int) jsmap \<Rightarrow> OriginalOrderLineSnapshot list \<Rightarrow> bool sales_result" where
  "all_returned m [] = Inr True"
| "all_returned m (orig # rest) =
     ebind (parseQtyMillis (or_soldQty orig)) (\<lambda>soldMillis.
       if (case map_get m (or_orderItemId orig) of None \<Rightarrow> 0 | Some r \<Rightarrow> r) = soldMillis
       then all_returned m rest else Inr False)"

definition calculateReturnRefund ::
    "OriginalOrderLineSnapshot list \<Rightarrow> ReturnLineRequest list \<Rightarrow> CalculatedReturnResult sales_result" where
  "calculateReturnRefund originalLines returnRequests =
     ebind (throw_if (returnRequests = []) (sales_error VALIDATION_ERROR 422)) (\<lambda>_.
     let lineMap = line_map originalLines in
     ebind (efold (add_request lineMap) returnRequests []) (\<lambda>requested.
     ebind (emap (check_remaining lineMap) requested) (\<lambda>_.
     ebind (efold start_item originalLines no_returns) (\<lambda>s0.
     ebind (efold (return_line lineMap) returnRequests s0) (\<lambda>s.
     ebind (all_returned (ra_returned s) originalLines) (\<lambda>isFull.
     ebind (vndNumber (ra_total s)) (\<lambda>total.
       Inr \<lparr>res_lines = ra_lines s, res_totalRefundAmount = total, res_isFullOrderReturn = isFull\<rparr>)))))))"

section \<open>Maps of the loops\<close>

lemma line_map_in:
  assumes "distinct (map or_orderItemId origs)" "orig \<in> set origs"
  shows "map_get (line_map origs) (or_orderItemId orig) = Some orig"
proof -
  have "find (\<lambda>x. or_orderItemId x = or_orderItemId orig) (rev origs) \<noteq> None"
    using assms(2) by (auto simp: find_None_iff)
  then obtain y where y: "find (\<lambda>x. or_orderItemId x = or_orderItemId orig) (rev origs) = Some y" by blast
  then have "y \<in> set origs" "or_orderItemId y = or_orderItemId orig" using find_SomeD by fastforce+
  then have "y = orig" using assms by (metis distinct_map inj_onD)
  then show ?thesis using y by (simp add: line_map_def map_get_fold_set)
qed

lemma line_map_sound:
  assumes "map_get (line_map origs) k = Some orig"
  shows "orig \<in> set origs \<and> or_orderItemId orig = k"
  using assms
  by (auto simp: line_map_def map_get_fold_set split: option.splits dest!: find_SomeD)

lemma requested_sum:
  assumes "efold (add_request lm) reqs m = Inr m'"
  shows "(case map_get m' k of None \<Rightarrow> 0 | Some p \<Rightarrow> p) = (case map_get m k of None \<Rightarrow> 0 | Some p \<Rightarrow> p) +
      sum_list (map (\<lambda>r. projr (parseQtyMillis (rr_returnQty r))) (filter (\<lambda>r. rr_orderItemId r = k) reqs)) \<and>
    (\<forall>r \<in> set reqs. rr_orderItemId r = k \<longrightarrow> map_get m' k \<noteq> None)"
  using assms
proof (induction reqs arbitrary: m)
  case (Cons r reqs)
  from Cons.prems obtain m1 where m1: "add_request lm r m = Inr m1" "efold (add_request lm) reqs m1 = Inr m'"
    by (auto simp: ok_simps)
  from m1(1) obtain q where q: "parseQtyMillis (rr_returnQty r) = Inr q"
    and m1': "m1 = map_set (rr_orderItemId r) ((case map_get m (rr_orderItemId r) of None \<Rightarrow> 0 | Some p \<Rightarrow> p) + q) m"
    by (auto simp: add_request_def ok_simps Let_def split: option.splits)
  have keep: "map_get m' k \<noteq> None" if "map_get m1 k \<noteq> None"
    using m1(2) that
  proof (induction reqs arbitrary: m1)
    case (Cons x xs)
    from Cons.prems obtain m2 where m2: "add_request lm x m1 = Inr m2" "efold (add_request lm) xs m2 = Inr m'"
      by (auto simp: ok_simps)
    have "map_get m2 k \<noteq> None"
      using m2(1) Cons.prems(2) by (auto simp: add_request_def ok_simps Let_def split: option.splits)
    then show ?case using Cons.IH m2(2) by blast
  qed simp
  show ?case using Cons.IH [OF m1(2)] q keep by (auto simp: m1')
qed simp

section \<open>The refund loop\<close>

lemma refund_amount_bounds:
  assumes "refund_amount sold q m tot rest = Inr x" "0 < sold" "0 < q" "0 \<le> tot" "0 \<le> rest"
  shows "0 \<le> x \<and> x \<le> rest \<and> (m = sold \<longrightarrow> x = rest)"
  using assms half_up_nonneg [of "tot * q" sold] by (auto simp: refund_amount_def ok_simps split: if_splits)

text \<open>One request: a line with its refund is appended, and only the totals of its item change.\<close>

lemma return_lineE:
  assumes "return_line lm r s = Inr s'"
  obtains orig sold q tot x l where "map_get lm (rr_orderItemId r) = Some orig"
    "parseQtyMillis (or_soldQty orig) = Inr sold" "parseQtyMillis (rr_returnQty r) = Inr q"
    "parseVndAmount (Num (or_lineTotal orig)) True = Inr tot"
    "refund_amount sold q (the (map_get (ra_returned s) (rr_orderItemId r)) + q) tot
       (tot - the (map_get (ra_refunded s) (rr_orderItemId r))) = Inr x"
    "cr_orderItemId l = or_orderItemId orig" "cr_refundAmount l = x"
    "s' = \<lparr>ra_returned = map_set (rr_orderItemId r) (the (map_get (ra_returned s) (rr_orderItemId r)) + q) (ra_returned s),
       ra_refunded = map_set (rr_orderItemId r) (the (map_get (ra_refunded s) (rr_orderItemId r)) + x) (ra_refunded s),
       ra_total = ra_total s + x, ra_lines = ra_lines s @ [l]\<rparr>"
  using assms by (auto simp: return_line_def ok_simps Let_def split: option.splits)

abbreviation requested :: "string \<Rightarrow> ReturnLineRequest list \<Rightarrow> int" where
  "requested k reqs \<equiv> sum_list (map (\<lambda>r. projr (parseQtyMillis (rr_returnQty r))) (filter (\<lambda>r. rr_orderItemId r = k) reqs))"

abbreviation refunds :: "string \<Rightarrow> CalculatedReturnLine list \<Rightarrow> int" where
  "refunds k ls \<equiv> sum_list (map cr_refundAmount (filter (\<lambda>l. cr_orderItemId l = k) ls))"

lemma return_fold:
  assumes "efold (return_line lm) reqs s = Inr s'"
    and keys: "\<And>k orig. map_get lm k = Some orig \<Longrightarrow> or_orderItemId orig = k"
    and k: "map_get lm k = Some orig" "parseVndAmount (Num (or_lineTotal orig)) True = Inr tot"
      "parseQtyMillis (or_soldQty orig) = Inr sold"
    and s: "map_get (ra_returned s) k = Some m" "map_get (ra_refunded s) k = Some p" "p \<le> tot"
  shows "\<exists>new p'. ra_lines s' = ra_lines s @ new \<and> map cr_orderItemId new = map rr_orderItemId reqs \<and>
    ra_total s' = ra_total s + sum_list (map cr_refundAmount new) \<and>
    map_get (ra_returned s') k = Some (m + requested k reqs) \<and>
    p' = p + refunds k new \<and> p' \<le> tot \<and> (\<forall>l \<in> set new. cr_orderItemId l = k \<longrightarrow> 0 \<le> cr_refundAmount l) \<and>
    ((\<exists>r \<in> set reqs. rr_orderItemId r = k) \<and> m + requested k reqs = sold \<longrightarrow> p' = tot)"
  using assms(1) s
proof (induction reqs arbitrary: s m p)
  case (Cons r reqs)
  from Cons.prems(1) obtain s1 where s1: "return_line lm r s = Inr s1" "efold (return_line lm) reqs s1 = Inr s'"
    by (auto simp: ok_simps)
  from s1(1) show ?case
  proof (cases rule: return_lineE)
    case (1 o' sold' q tot' x l)
    have l: "cr_orderItemId l = rr_orderItemId r" using 1(1,6) keys by simp
    show ?thesis
    proof (cases "rr_orderItemId r = k")
      case False
      then have "map_get (ra_returned s1) k = Some m" "map_get (ra_refunded s1) k = Some p"
        using Cons.prems(2,3) 1(8) by simp_all
      from Cons.IH [OF s1(2) this Cons.prems(4)] obtain new p' where n: "ra_lines s' = ra_lines s1 @ new"
        "map cr_orderItemId new = map rr_orderItemId reqs" "ra_total s' = ra_total s1 + sum_list (map cr_refundAmount new)"
        "map_get (ra_returned s') k = Some (m + requested k reqs)" "p' = p + refunds k new" "p' \<le> tot"
        "\<forall>l \<in> set new. cr_orderItemId l = k \<longrightarrow> 0 \<le> cr_refundAmount l"
        "(\<exists>r \<in> set reqs. rr_orderItemId r = k) \<and> m + requested k reqs = sold \<longrightarrow> p' = tot" by blast
      show ?thesis using n False l 1(7,8) by (intro exI [of _ "l # new"] exI [of _ p']) simp
    next
      case True
      have o': "o' = orig" "sold' = sold" "tot' = tot" using 1(1-4) k True by simp_all
      have x: "0 \<le> x \<and> x \<le> tot - p \<and> (m + q = sold \<longrightarrow> x = tot - p)"
        using refund_amount_bounds [OF 1(5)] 1(2,3) parseVnd_nonneg [OF 1(4)] Cons.prems(2-4) True o' by auto
      have st: "map_get (ra_returned s1) k = Some (m + q)" "map_get (ra_refunded s1) k = Some (p + x)" "p + x \<le> tot"
        using Cons.prems(2,3) 1(8) True x by simp_all
      from Cons.IH [OF s1(2) st] obtain new p' where n: "ra_lines s' = ra_lines s1 @ new"
        "map cr_orderItemId new = map rr_orderItemId reqs" "ra_total s' = ra_total s1 + sum_list (map cr_refundAmount new)"
        "map_get (ra_returned s') k = Some (m + q + requested k reqs)" "p' = p + x + refunds k new" "p' \<le> tot"
        "\<forall>l \<in> set new. cr_orderItemId l = k \<longrightarrow> 0 \<le> cr_refundAmount l"
        "(\<exists>r \<in> set reqs. rr_orderItemId r = k) \<and> m + q + requested k reqs = sold \<longrightarrow> p' = tot" by blast
      have last: "p' = tot" if "m + q + requested k reqs = sold" "\<not> (\<exists>r \<in> set reqs. rr_orderItemId r = k)"
      proof -
        have "filter (\<lambda>r. rr_orderItemId r = k) reqs = []" using that(2) by (auto simp: filter_empty_conv)
        moreover have "k \<notin> set (map cr_orderItemId new)" using that(2) n(2) by auto
        then have "filter (\<lambda>l. cr_orderItemId l = k) new = []" by (auto simp: filter_empty_conv)
        ultimately show ?thesis using n(5) x that(1) by simp
      qed
      have "m + q + requested k reqs = sold \<longrightarrow> p' = tot" using last n(8) by blast
      then show ?thesis
        using n(1-7) True l 1(3,7,8) x by (intro exI [of _ "l # new"] exI [of _ p']) (simp add: add.assoc)
    qed
  qed
qed simp

lemma return_fold_parses:
  assumes "efold (return_line lm) reqs s = Inr s'" "r \<in> set reqs" "map_get lm (rr_orderItemId r) = Some orig"
  shows "\<exists>sold tot. parseQtyMillis (or_soldQty orig) = Inr sold \<and> parseVndAmount (Num (or_lineTotal orig)) True = Inr tot"
  using assms(1,2)
proof (induction reqs arbitrary: s)
  case (Cons x reqs)
  from Cons.prems(1) obtain s1 where s1: "return_line lm x s = Inr s1" "efold (return_line lm) reqs s1 = Inr s'"
    by (auto simp: ok_simps)
  show ?case
  proof (cases "r = x")
    case True
    from s1(1) show ?thesis by (cases rule: return_lineE) (use True assms(3) in auto)
  next
    case False
    then show ?thesis using Cons.IH [OF s1(2)] Cons.prems(2) by simp
  qed
qed simp

lemma start_fold:
  assumes "efold start_item origs s = Inr s'"
  shows "ra_lines s' = ra_lines s \<and> ra_total s' = ra_total s"
    and "k \<notin> or_orderItemId ` set origs \<Longrightarrow>
      map_get (ra_returned s') k = map_get (ra_returned s) k \<and> map_get (ra_refunded s') k = map_get (ra_refunded s) k"
    and "distinct (map or_orderItemId origs) \<Longrightarrow> orig \<in> set origs \<Longrightarrow>
      \<exists>ret p. returned_millis orig = Inr ret \<and> parseVndAmount (Num (or_alreadyRefundedAmount orig)) True = Inr p \<and>
        map_get (ra_returned s') (or_orderItemId orig) = Some ret \<and> map_get (ra_refunded s') (or_orderItemId orig) = Some p"
proof -
  have "(ra_lines s' = ra_lines s \<and> ra_total s' = ra_total s) \<and>
    (\<forall>k. k \<notin> or_orderItemId ` set origs \<longrightarrow>
      map_get (ra_returned s') k = map_get (ra_returned s) k \<and> map_get (ra_refunded s') k = map_get (ra_refunded s) k) \<and>
    (distinct (map or_orderItemId origs) \<longrightarrow> (\<forall>orig \<in> set origs.
      \<exists>ret p. returned_millis orig = Inr ret \<and> parseVndAmount (Num (or_alreadyRefundedAmount orig)) True = Inr p \<and>
        map_get (ra_returned s') (or_orderItemId orig) = Some ret \<and> map_get (ra_refunded s') (or_orderItemId orig) = Some p))"
    using assms
  proof (induction origs arbitrary: s)
    case (Cons x origs)
    then obtain s1 where s1: "start_item x s = Inr s1" "efold start_item origs s1 = Inr s'" by (auto simp: ok_simps)
    then show ?case using Cons.IH [OF s1(2)] by (auto simp: start_item_def ok_simps)
  qed simp
  then show "ra_lines s' = ra_lines s \<and> ra_total s' = ra_total s"
    and "k \<notin> or_orderItemId ` set origs \<Longrightarrow>
      map_get (ra_returned s') k = map_get (ra_returned s) k \<and> map_get (ra_refunded s') k = map_get (ra_refunded s) k"
    and "distinct (map or_orderItemId origs) \<Longrightarrow> orig \<in> set origs \<Longrightarrow>
      \<exists>ret p. returned_millis orig = Inr ret \<and> parseVndAmount (Num (or_alreadyRefundedAmount orig)) True = Inr p \<and>
        map_get (ra_returned s') (or_orderItemId orig) = Some ret \<and> map_get (ra_refunded s') (or_orderItemId orig) = Some p"
    by blast+
qed

lemma refundE:
  assumes "calculateReturnRefund origs reqs = Inr r"
  obtains m s0 s where "efold (add_request (line_map origs)) reqs [] = Inr m"
    "\<forall>x \<in> set m. check_remaining (line_map origs) x = Inr ()" "efold start_item origs no_returns = Inr s0"
    "efold (return_line (line_map origs)) reqs s0 = Inr s" "res_lines r = ra_lines s" "res_totalRefundAmount r = ra_total s"
    "all_returned (ra_returned s) origs = Inr (res_isFullOrderReturn r)"
proof -
  have "\<forall>x \<in> set m. check_remaining lm x = Inr ()" if "emap (check_remaining lm) m = Inr us" for lm m us
    using that by (induction m arbitrary: us) (auto simp: ok_simps)
  then show thesis
    using assms by (auto simp: calculateReturnRefund_def ok_simps Let_def intro: that)
qed

section \<open>Properties\<close>

definition sample_sold :: OriginalOrderLineSnapshot where
  "sample_sold = \<lparr>or_orderItemId = ''i1'', or_variantId = ''v1'', or_skuCode = ''SKU'', or_productName = ''Tea'',
     or_soldQty = ''3'', or_alreadyReturnedQty = ''1'', or_unitPrice = Fin 33333, or_lineNet = Fin 100000,
     or_taxAmount = Fin 0, or_lineTotal = Fin 100000, or_alreadyRefundedAmount = Fin 33333\<rparr>"

definition sample_return :: "string \<Rightarrow> ReturnLineRequest" where
  "sample_return q = \<lparr>rr_orderItemId = ''i1'', rr_returnQty = q, rr_disposition = RESTOCK, rr_reason = None\<rparr>"

text \<open>
C29: refunds never exceed what was paid: over any accepted return, the quantity returned of a line in total is at most
the quantity sold, every refund is non-negative, all refunds of a line stay within its total, a line that
is returned completely is refunded to the last VND, and the total is the sum of the lines.
\<close>

theorem refunds_exact:
  assumes "calculateReturnRefund origs reqs = Inr r" and "distinct (map or_orderItemId origs)"
    and "orig \<in> set origs" and "req \<in> set reqs" and "rr_orderItemId req = or_orderItemId orig"
    and "int_of_num (or_alreadyRefundedAmount orig) \<le> int_of_num (or_lineTotal orig)"
  shows "\<exists>sold before. parseQtyMillis (or_soldQty orig) = Inr sold \<and> returned_millis orig = Inr before \<and>
    (let now = sum_list (map (\<lambda>q. projr (parseQtyMillis (rr_returnQty q)))
                 (filter (\<lambda>q. rr_orderItemId q = or_orderItemId orig) reqs));
         refunded = int_of_num (or_alreadyRefundedAmount orig) +
           sum_list (map cr_refundAmount (filter (\<lambda>l. cr_orderItemId l = or_orderItemId orig) (res_lines r)))
     in before + now \<le> sold \<and> refunded \<le> int_of_num (or_lineTotal orig) \<and>
        (before + now = sold \<longrightarrow> refunded = int_of_num (or_lineTotal orig)) \<and>
        (\<forall>l \<in> set (res_lines r). cr_orderItemId l = or_orderItemId orig \<longrightarrow> 0 \<le> cr_refundAmount l) \<and>
        res_totalRefundAmount r = sum_list (map cr_refundAmount (res_lines r)))"
proof (rule refundE [OF assms(1)])
  fix m s0 s
  assume m: "efold (add_request (line_map origs)) reqs [] = Inr m"
    and chk: "\<forall>x \<in> set m. check_remaining (line_map origs) x = Inr ()"
    and s0: "efold start_item origs no_returns = Inr s0" and s: "efold (return_line (line_map origs)) reqs s0 = Inr s"
    and r: "res_lines r = ra_lines s" "res_totalRefundAmount r = ra_total s"
  let ?k = "or_orderItemId orig"
  have lm: "map_get (line_map origs) ?k = Some orig" by (rule line_map_in [OF assms(2,3)])
  have keys: "\<And>k o'. map_get (line_map origs) k = Some o' \<Longrightarrow> or_orderItemId o' = k" using line_map_sound by blast
  obtain sold tot where parse: "parseQtyMillis (or_soldQty orig) = Inr sold"
    "parseVndAmount (Num (or_lineTotal orig)) True = Inr tot"
    using return_fold_parses [OF s assms(4)] lm assms(5) by auto
  obtain ret p where st: "returned_millis orig = Inr ret" "parseVndAmount (Num (or_alreadyRefundedAmount orig)) True = Inr p"
    "map_get (ra_returned s0) ?k = Some ret" "map_get (ra_refunded s0) ?k = Some p"
    using start_fold(3) [OF s0 assms(2,3)] by blast
  have tp: "tot = int_of_num (or_lineTotal orig)" "p = int_of_num (or_alreadyRefundedAmount orig)"
    using parse(2) st(2) by (auto simp: parseVnd_Num)
  have le: "p \<le> tot" using assms(6) tp by simp
  have empty: "ra_lines s0 = []" "ra_total s0 = 0" using start_fold(1) [OF s0] by (simp_all add: no_returns_def)
  note loop = return_fold [OF s keys lm parse(2,1) st(3,4) le]
  obtain q where q: "map_get m ?k = Some q" "q = requested ?k reqs"
    using requested_sum [OF m, of ?k] assms(4,5) by (auto split: option.splits)
  have "ret + requested ?k reqs \<le> sold"
    using chk map_get_in_set [OF q(1)] q(2) lm parse(1) st(1) by (auto simp: check_remaining_def ok_simps)
  then show ?thesis
    using loop parse(1) st(1) r empty tp assms(4,5) by (auto simp: Let_def)
qed

theorem refunds_exact_witness:
  "\<exists>r. calculateReturnRefund [sample_sold] [sample_return ''1'', sample_return ''1''] = Inr r \<and>
     33333 + sum_list (map cr_refundAmount (filter (\<lambda>l. cr_orderItemId l = ''i1'') (res_lines r))) \<le> 100000"
proof -
  have "is_ok (calculateReturnRefund [sample_sold] [sample_return ''1'', sample_return ''1''])" by code_simp
  then obtain r where r: "calculateReturnRefund [sample_sold] [sample_return ''1'', sample_return ''1''] = Inr r"
    by (auto simp: is_ok_def split: sum.splits)
  have "sample_sold \<in> set [sample_sold]" "distinct (map or_orderItemId [sample_sold])"
    "sample_return ''1'' \<in> set [sample_return ''1'', sample_return ''1'']"
    "rr_orderItemId (sample_return ''1'') = or_orderItemId sample_sold"
    "int_of_num (or_alreadyRefundedAmount sample_sold) \<le> int_of_num (or_lineTotal sample_sold)"
    by (simp_all add: sample_sold_def sample_return_def int_of_num_def)
  moreover have "or_orderItemId sample_sold = ''i1''" "int_of_num (or_alreadyRefundedAmount sample_sold) = 33333"
    "int_of_num (or_lineTotal sample_sold) = 100000"
    by (simp_all add: sample_sold_def int_of_num_def)
  ultimately show ?thesis
    using refunds_exact [OF r, of sample_sold "sample_return ''1''"] r by (auto simp: Let_def)
qed

text \<open>
C35: a return is refused as a whole when it asks for more of a line than is left, or for a line that is not of
the order.
\<close>

theorem excess_return_refused:
  assumes "distinct (map or_orderItemId origs)" and "req \<in> set reqs"
    and "\<And>orig. orig \<in> set origs \<Longrightarrow> or_orderItemId orig = rr_orderItemId req \<Longrightarrow>
      \<exists>sold before. parseQtyMillis (or_soldQty orig) = Inr sold \<and> returned_millis orig = Inr before \<and>
        sold - before < sum_list (map (\<lambda>q. projr (parseQtyMillis (rr_returnQty q)))
          (filter (\<lambda>q. rr_orderItemId q = rr_orderItemId req) reqs))"
  shows "\<exists>e. calculateReturnRefund origs reqs = Inl e"
proof (cases "calculateReturnRefund origs reqs")
  case (Inr r)
  then show ?thesis
  proof (rule refundE)
    fix m s0 s
    assume m: "efold (add_request (line_map origs)) reqs [] = Inr m"
      and chk: "\<forall>x \<in> set m. check_remaining (line_map origs) x = Inr ()"
    let ?k = "rr_orderItemId req"
    obtain q where q: "map_get m ?k = Some q" "q = requested ?k reqs"
      using requested_sum [OF m, of ?k] assms(2) by (auto split: option.splits)
    have c: "check_remaining (line_map origs) (?k, q) = Inr ()" using chk map_get_in_set [OF q(1)] by blast
    then obtain orig where "map_get (line_map origs) ?k = Some orig"
      by (auto simp: check_remaining_def split: option.splits)
    then show ?thesis
      using c q(2) line_map_sound [of origs ?k orig] assms(3) [of orig] by (auto simp: check_remaining_def ok_simps)
  qed
qed simp

theorem excess_return_refused_witness:
  "\<exists>e. calculateReturnRefund [sample_sold] [sample_return ''1'', sample_return ''1.001''] = Inl e"
proof (rule excess_return_refused [where req = "sample_return ''1''"])
  have "parseQtyMillis ''3'' = Inr 3000" "returned_millis sample_sold = Inr 1000" "parseQtyMillis ''1'' = Inr 1000"
    "parseQtyMillis ''1.001'' = Inr 1001"
    by code_simp+
  then show "\<exists>sold before. parseQtyMillis (or_soldQty orig) = Inr sold \<and> returned_millis orig = Inr before \<and>
      sold - before < sum_list (map (\<lambda>q. projr (parseQtyMillis (rr_returnQty q)))
        (filter (\<lambda>q. rr_orderItemId q = rr_orderItemId (sample_return ''1'')) [sample_return ''1'', sample_return ''1.001'']))"
    if "orig \<in> set [sample_sold]" for orig
    using that by (simp add: sample_return_def) (simp add: sample_sold_def)
qed simp_all

end
