(* ===== verification/SalesOrder.thy ===== *)
theory SalesOrder
  imports SalesMoney
begin

text \<open>
  The order aggregate of the sales service (\<^verbatim>\<open>apps/sales/src/domain/sales-domain.ts\<close>): the
  three-dimensional state (commercial, payment, fulfillment), the allowed combinations, and the
  operations of \<^verbatim>\<open>OrderAggregate\<close>, together with the value objects of the same section.
\<close>

section \<open>Value objects\<close>

record VndMoney =
  amount :: int

definition VndMoney_of :: "jsval \<Rightarrow> bool \<Rightarrow> VndMoney sales_result" where
  "VndMoney_of raw allowZero = ebind (parseVndAmount raw allowZero) (\<lambda>v. Inr \<lparr>amount = v\<rparr>)"

definition VndMoney_zero :: VndMoney where
  "VndMoney_zero = \<lparr>amount = 0\<rparr>"

definition VndMoney_add :: "VndMoney \<Rightarrow> VndMoney \<Rightarrow> VndMoney" where
  "VndMoney_add a b = \<lparr>amount = amount a + amount b\<rparr>"

definition VndMoney_subtract :: "VndMoney \<Rightarrow> VndMoney \<Rightarrow> VndMoney sales_result" where
  "VndMoney_subtract a b =
     (let nxt = amount a - amount b
      in if nxt < 0 then Inl (sales_error VALIDATION_ERROR 422) else Inr \<lparr>amount = nxt\<rparr>)"

definition VndMoney_isPositive :: "VndMoney \<Rightarrow> bool" where
  "VndMoney_isPositive a \<longleftrightarrow> amount a > 0"

definition VndMoney_toString :: "VndMoney \<Rightarrow> string" where
  "VndMoney_toString a = show_int (amount a)"

record StockQuantity =
  millis :: int

definition StockQuantity_of :: "string \<Rightarrow> StockQuantity sales_result" where
  "StockQuantity_of raw = ebind (parseQtyMillis raw) (\<lambda>m. Inr \<lparr>millis = m\<rparr>)"

definition StockQuantity_add :: "StockQuantity \<Rightarrow> StockQuantity \<Rightarrow> StockQuantity" where
  "StockQuantity_add a b = \<lparr>millis = millis a + millis b\<rparr>"

definition StockQuantity_toBaseQuantity :: "StockQuantity \<Rightarrow> string option \<Rightarrow> StockQuantity sales_result" where
  "StockQuantity_toBaseQuantity q conversionFactor =
     ebind (parseConversionFactor conversionFactor) (\<lambda>factor. Inr \<lparr>millis = computeBaseQtyMillis (millis q) factor\<rparr>)"

definition StockQuantity_toString :: "StockQuantity \<Rightarrow> string" where
  "StockQuantity_toString q = formatQtyMillis (millis q)"

record DiscountPercentage =
  dp_value :: jsnum
  dp_basisPoints :: int

text \<open>The argument is \<^verbatim>\<open>Number(raw)\<close>.\<close>

definition DiscountPercentage_of :: "jsnum \<Rightarrow> DiscountPercentage sales_result" where
  "DiscountPercentage_of num =
     (if \<not> is_finite_num num \<or> js_lt num (Fin 0) \<or> js_lt (Fin 100) num
      then Inl (sales_error INVALID_DISCOUNT 422)
      else ebind (bigint_of_num (math_round (js_scale num 100))) (\<lambda>b.
             Inr \<lparr>dp_value = num, dp_basisPoints = b\<rparr>))"

section \<open>The three status dimensions\<close>

datatype CommercialOrderStatus = DRAFT | PENDING | CONFIRMED | CANCELLED | COMPLETED

datatype OrderPaymentStatus =
  UNPAID | PARTIALLY_PAID | PAID | REFUND_PENDING | PARTIALLY_REFUNDED | REFUNDED

datatype OrderFulfillmentStatus = UNFULFILLED | RESERVED | PARTIALLY_FULFILLED | FULFILLED | RETURNED

definition validateOrderStateCombination ::
    "CommercialOrderStatus \<Rightarrow> OrderPaymentStatus \<Rightarrow> OrderFulfillmentStatus \<Rightarrow> unit sales_result" where
  "validateOrderStateCombination orderStatus paymentStatus fulfillmentStatus =
     (if orderStatus = DRAFT \<and> fulfillmentStatus \<noteq> UNFULFILLED
      then Inl (sales_error ORDER_INVALID_STATE 409)
      else if orderStatus = CANCELLED \<and> (fulfillmentStatus = RESERVED \<or> fulfillmentStatus = FULFILLED)
      then Inl (sales_error ORDER_INVALID_STATE 409)
      else if orderStatus = COMPLETED \<and> fulfillmentStatus \<noteq> FULFILLED \<and> fulfillmentStatus \<noteq> RETURNED
      then Inl (sales_error ORDER_INVALID_STATE 409)
      else if orderStatus = COMPLETED \<and> paymentStatus = UNPAID
      then Inl (sales_error ORDER_INVALID_STATE 409)
      else Inr ())"

definition assertCanCancelOrder :: "CommercialOrderStatus \<Rightarrow> OrderFulfillmentStatus \<Rightarrow> unit sales_result" where
  "assertCanCancelOrder orderStatus fulfillmentStatus =
     (if orderStatus = CANCELLED then Inl (sales_error ORDER_ALREADY_CANCELLED 409)
      else if orderStatus = COMPLETED \<or> fulfillmentStatus = FULFILLED
      then Inl (sales_error ORDER_ALREADY_COMPLETED 409)
      else Inr ())"

section \<open>The aggregate\<close>

text \<open>Dates are the milliseconds they denote.\<close>

record OrderAggregate =
  oa_id :: string
  oa_tenantId :: string
  oa_code :: string
  orderStatus :: CommercialOrderStatus
  paymentStatus :: OrderPaymentStatus
  fulfillmentStatus :: OrderFulfillmentStatus
  oa_version :: int
  warehouseId :: "string option"
  reservationId :: "string option"
  completedAt :: "int option"
  cancelledAt :: "int option"
  cancelReason :: "string option"

record OrderStateTransitionRecord =
  fromOrderStatus :: CommercialOrderStatus
  toOrderStatus :: CommercialOrderStatus
  fromPaymentStatus :: OrderPaymentStatus
  toPaymentStatus :: OrderPaymentStatus
  fromFulfillmentStatus :: OrderFulfillmentStatus
  toFulfillmentStatus :: OrderFulfillmentStatus
  tr_reason :: string

definition validate :: "OrderAggregate \<Rightarrow> unit sales_result" where
  "validate a = validateOrderStateCombination (orderStatus a) (paymentStatus a) (fulfillmentStatus a)"

definition newOrderAggregate :: "OrderAggregate \<Rightarrow> OrderAggregate sales_result" where
  "newOrderAggregate a = ebind (validate a) (\<lambda>_. Inr a)"

definition legacyStatus :: "OrderAggregate \<Rightarrow> string" where
  "legacyStatus a =
     (case orderStatus a of DRAFT \<Rightarrow> ''draft'' | PENDING \<Rightarrow> ''pending'' | CONFIRMED \<Rightarrow> ''confirmed''
      | CANCELLED \<Rightarrow> ''cancelled'' | COMPLETED \<Rightarrow> ''completed'')"

definition assertEditable :: "OrderAggregate \<Rightarrow> int option \<Rightarrow> unit sales_result" where
  "assertEditable a expectedVersion =
     (if expectedVersion \<noteq> None \<and> expectedVersion \<noteq> Some (oa_version a)
      then Inl (sales_error RESOURCE_VERSION_CONFLICT 409)
      else if orderStatus a \<noteq> DRAFT \<and> orderStatus a \<noteq> PENDING
      then Inl (sales_error ORDER_INVALID_STATE 409)
      else Inr ())"

definition bumpVersion :: "OrderAggregate \<Rightarrow> OrderAggregate" where
  "bumpVersion a = a\<lparr>oa_version := oa_version a + 1\<rparr>"

definition assertCanConfirm :: "OrderAggregate \<Rightarrow> unit sales_result" where
  "assertCanConfirm a =
     (if orderStatus a \<noteq> DRAFT \<and> orderStatus a \<noteq> PENDING
      then Inl (sales_error ORDER_INVALID_STATE 409) else Inr ())"

definition transition :: "OrderAggregate \<Rightarrow> OrderAggregate \<Rightarrow> string \<Rightarrow> OrderStateTransitionRecord" where
  "transition a b r = \<lparr>fromOrderStatus = orderStatus a, toOrderStatus = orderStatus b,
     fromPaymentStatus = paymentStatus b, toPaymentStatus = paymentStatus b,
     fromFulfillmentStatus = fulfillmentStatus a, toFulfillmentStatus = fulfillmentStatus b, tr_reason = r\<rparr>"

text \<open>
  The operations mutate the object before they validate it, so an operation returns the object it leaves behind
  next to its result, also when it throws.
\<close>

type_synonym order_outcome = "OrderAggregate \<times> OrderStateTransitionRecord sales_result"

definition finish_transition :: "OrderAggregate \<Rightarrow> OrderAggregate \<Rightarrow> string \<Rightarrow> order_outcome" where
  "finish_transition a b r =
     (case validate b of
        Inl e \<Rightarrow> (b, Inl e)
      | Inr _ \<Rightarrow> (bumpVersion b, Inr (transition a b r)))"

definition confirmWithReservation :: "OrderAggregate \<Rightarrow> string \<Rightarrow> string \<Rightarrow> order_outcome" where
  "confirmWithReservation a warehouse reservation =
     (case assertCanConfirm a of
        Inl e \<Rightarrow> (a, Inl e)
      | Inr _ \<Rightarrow>
          finish_transition a
            (a\<lparr>warehouseId := Some warehouse, reservationId := Some reservation,
               orderStatus := CONFIRMED, fulfillmentStatus := RESERVED\<rparr>)
            ''ORDER_CONFIRMED_AND_RESERVED'')"

definition cancel :: "OrderAggregate \<Rightarrow> string option \<Rightarrow> int \<Rightarrow> order_outcome" where
  "cancel a reason now =
     (case assertCanCancelOrder (orderStatus a) (fulfillmentStatus a) of
        Inl e \<Rightarrow> (a, Inl e)
      | Inr _ \<Rightarrow>
          finish_transition a
            (a\<lparr>orderStatus := CANCELLED, fulfillmentStatus := UNFULFILLED,
               cancelReason := Some (case reason of None \<Rightarrow> ''CANCELLED_BY_USER'' | Some r \<Rightarrow> r),
               cancelledAt := Some now\<rparr>)
            (case reason of None \<Rightarrow> ''ORDER_CANCELLED'' | Some r \<Rightarrow> r))"

definition assertCanCreateFulfillment :: "OrderAggregate \<Rightarrow> unit sales_result" where
  "assertCanCreateFulfillment a =
     (if orderStatus a = CANCELLED \<or> orderStatus a = DRAFT
      then Inl (sales_error FULFILLMENT_INVALID_STATE 409) else Inr ())"

definition markFulfilled :: "OrderAggregate \<Rightarrow> string \<Rightarrow> int \<Rightarrow> order_outcome" where
  "markFulfilled a fulfillmentCode now =
     (let b = a\<lparr>fulfillmentStatus := FULFILLED\<rparr>;
          c = (if paymentStatus b = PAID then b\<lparr>orderStatus := COMPLETED, completedAt := Some now\<rparr> else b)
      in finish_transition a c (''FULFILLMENT_CONFIRMED:'' @ fulfillmentCode))"

section \<open>The life of an order\<close>

text \<open>
  A service loads the row into an aggregate, applies one operation and saves the result only when it did not
  throw. Payment changes are made by other services and re-enter through the constructor, which
  validates the combination.
\<close>

inductive order_step :: "OrderAggregate \<Rightarrow> OrderAggregate \<Rightarrow> bool" where
  confirm: "confirmWithReservation a w r = (b, Inr t) \<Longrightarrow> order_step a b"
| cancel: "cancel a reason now = (b, Inr t) \<Longrightarrow> order_step a b"
| fulfil: "markFulfilled a fc now = (b, Inr t) \<Longrightarrow> order_step a b"
| payment: "newOrderAggregate (a\<lparr>paymentStatus := p\<rparr>) = Inr b \<Longrightarrow> order_step a b"


inductive_cases order_stepE: "order_step a b"

definition order_ok :: "OrderAggregate \<Rightarrow> bool" where
  "order_ok a \<longleftrightarrow>
     (orderStatus a = DRAFT \<longrightarrow> fulfillmentStatus a = UNFULFILLED) \<and>
     (orderStatus a = CANCELLED \<longrightarrow> fulfillmentStatus a \<notin> {RESERVED, FULFILLED}) \<and>
     (orderStatus a = COMPLETED \<longrightarrow> fulfillmentStatus a \<in> {FULFILLED, RETURNED} \<and> paymentStatus a \<noteq> UNPAID)"

lemma validate_eq: "validate a = (if order_ok a then Inr () else Inl (sales_error ORDER_INVALID_STATE 409))"
  by (auto simp: validate_def validateOrderStateCombination_def order_ok_def)

lemma finish_transition_ok:
  "finish_transition a b r = (c, Inr t) \<longleftrightarrow> order_ok b \<and> c = bumpVersion b \<and> t = transition a b r"
  by (auto simp: finish_transition_def validate_eq)

lemma order_ok_bump [simp]: "order_ok (bumpVersion b) = order_ok b"
  by (simp add: order_ok_def bumpVersion_def)

lemma bumpVersion_fields [simp]:
  "orderStatus (bumpVersion a) = orderStatus a" "paymentStatus (bumpVersion a) = paymentStatus a"
  "fulfillmentStatus (bumpVersion a) = fulfillmentStatus a" "oa_version (bumpVersion a) = oa_version a + 1"
  "reservationId (bumpVersion a) = reservationId a" "warehouseId (bumpVersion a) = warehouseId a"
  by (simp_all add: bumpVersion_def)

lemma confirm_ok:
  "confirmWithReservation a w r = (b, Inr t) \<longleftrightarrow>
     orderStatus a \<in> {DRAFT, PENDING} \<and>
     b = bumpVersion (a\<lparr>warehouseId := Some w, reservationId := Some r, orderStatus := CONFIRMED,
       fulfillmentStatus := RESERVED\<rparr>) \<and>
     t = transition a b ''ORDER_CONFIRMED_AND_RESERVED''"
  by (auto simp: confirmWithReservation_def assertCanConfirm_def finish_transition_ok order_ok_def transition_def)

lemma cancel_ok:
  "(\<exists>b t. SalesOrder.cancel a reason now = (b, Inr t)) \<longleftrightarrow>
     orderStatus a \<notin> {CANCELLED, COMPLETED} \<and> fulfillmentStatus a \<noteq> FULFILLED"
  by (auto simp: cancel_def assertCanCancelOrder_def finish_transition_ok order_ok_def)

lemma cancel_effect:
  "SalesOrder.cancel a reason now = (b, Inr t) \<Longrightarrow>
     orderStatus a \<notin> {CANCELLED, COMPLETED} \<and> fulfillmentStatus a \<noteq> FULFILLED \<and>
     orderStatus b = CANCELLED \<and> fulfillmentStatus b = UNFULFILLED \<and> paymentStatus b = paymentStatus a \<and>
     oa_version b = oa_version a + 1 \<and> cancelledAt b = Some now \<and> order_ok b"
  by (auto simp: cancel_def assertCanCancelOrder_def finish_transition_ok bumpVersion_def order_ok_def split: if_splits)

lemma fulfil_effect:
  "markFulfilled a fc now = (b, Inr t) \<Longrightarrow>
     fulfillmentStatus b = FULFILLED \<and> paymentStatus b = paymentStatus a \<and> oa_version b = oa_version a + 1 \<and>
     orderStatus b = (if paymentStatus a = PAID then COMPLETED else orderStatus a) \<and> order_ok b"
  by (auto simp: markFulfilled_def Let_def finish_transition_ok split: if_splits)

lemma new_ok: "newOrderAggregate a = Inr b \<longleftrightarrow> b = a \<and> order_ok a"
  by (auto simp: newOrderAggregate_def validate_eq)


section \<open>Properties\<close>

definition sample_order_agg :: OrderAggregate where
  "sample_order_agg = \<lparr>oa_id = ''o1'', oa_tenantId = ''t1'', oa_code = ''DH1'', orderStatus = DRAFT,
     paymentStatus = UNPAID, fulfillmentStatus = UNFULFILLED, oa_version = 1, warehouseId = None,
     reservationId = None, completedAt = None, cancelledAt = None, cancelReason = None\<rparr>"



text \<open>
An order can be cancelled exactly when it is neither cancelled nor completed nor fulfilled; cancelling
gives up its reservation status and keeps its payment status, and no later step short of a fulfilment of a paid order
makes a cancelled order anything else.
\<close>

theorem cancellation_correct:
  assumes "order_step a b"
  shows "((\<exists>c t. SalesOrder.cancel a reason now = (c, Inr t) \<and> orderStatus c = CANCELLED \<and>
        fulfillmentStatus c = UNFULFILLED \<and> paymentStatus c = paymentStatus a) \<longleftrightarrow>
      orderStatus a \<notin> {CANCELLED, COMPLETED} \<and> fulfillmentStatus a \<noteq> FULFILLED) \<and>
    (orderStatus a = CANCELLED \<and> paymentStatus a \<noteq> PAID \<longrightarrow> orderStatus b = CANCELLED)"
proof (intro conjI impI)
  show "(\<exists>c t. SalesOrder.cancel a reason now = (c, Inr t) \<and> orderStatus c = CANCELLED \<and>
        fulfillmentStatus c = UNFULFILLED \<and> paymentStatus c = paymentStatus a) \<longleftrightarrow>
      orderStatus a \<notin> {CANCELLED, COMPLETED} \<and> fulfillmentStatus a \<noteq> FULFILLED"
    using cancel_ok [of a reason now] cancel_effect [of a reason now] by blast
  show "orderStatus b = CANCELLED" if "orderStatus a = CANCELLED \<and> paymentStatus a \<noteq> PAID"
    using assms
  proof (cases rule: order_step.cases)
    case (fulfil fc now t)
    then show ?thesis using fulfil_effect [OF fulfil] that by simp
  next
    case (cancel reason now t)
    then show ?thesis using cancel_effect [OF cancel] by simp
  qed (use that in \<open>auto simp: confirm_ok new_ok\<close>)
qed

theorem cancellation_correct_witness:
  "\<exists>c t. SalesOrder.cancel sample_order_agg None 7 = (c, Inr t) \<and> orderStatus c = CANCELLED"
proof -
  have "order_step sample_order_agg (sample_order_agg\<lparr>paymentStatus := PARTIALLY_PAID\<rparr>)"
    by (rule order_step.payment [where p = PARTIALLY_PAID]) code_simp
  from cancellation_correct [OF this, of None 7] show ?thesis
    by (auto simp: sample_order_agg_def)
qed

text \<open>
A draft or pending order, and only such an order, is confirmed: it then holds the reservation and
warehouse it was given; an order that was confirmed cannot be confirmed or edited again, and an edit
on another version than the current one is refused.
\<close>

theorem confirmation_correct:
  shows "((\<exists>b t. confirmWithReservation a w r = (b, Inr t)) \<longleftrightarrow> orderStatus a \<in> {DRAFT, PENDING}) \<and>
    (\<forall>b t. confirmWithReservation a w r = (b, Inr t) \<longrightarrow>
       orderStatus b = CONFIRMED \<and> fulfillmentStatus b = RESERVED \<and> reservationId b = Some r \<and>
       warehouseId b = Some w \<and> oa_version b = oa_version a + 1 \<and>
       assertEditable b v \<noteq> Inr () \<and> (\<nexists>c u. confirmWithReservation b w' r' = (c, Inr u))) \<and>
    (assertEditable a v = Inr () \<longleftrightarrow> (v = None \<or> v = Some (oa_version a)) \<and> orderStatus a \<in> {DRAFT, PENDING})"
  by (auto simp: confirm_ok assertEditable_def)

theorem confirmation_correct_witness:
  "\<exists>b t. confirmWithReservation sample_order_agg ''w1'' ''r1'' = (b, Inr t) \<and> reservationId b = Some ''r1''"
  using confirmation_correct [of sample_order_agg "''w1''" "''r1''" None "[]" "[]"]
  by (auto simp: sample_order_agg_def)

text \<open>
  A paid order that was cancelled is completed by a late fulfilment confirmation, and a refused
  fulfilment of a draft leaves the object in a combination its own validation refuses.
\<close>

lemma cancelled_order_completed:
  "order_ok (sample_order_agg\<lparr>orderStatus := CANCELLED, paymentStatus := PAID\<rparr>) \<and>
   (case markFulfilled (sample_order_agg\<lparr>orderStatus := CANCELLED, paymentStatus := PAID\<rparr>) ''VD1'' 5 of
      (b, r) \<Rightarrow> orderStatus b = COMPLETED \<and> is_ok r)"
  by code_simp

lemma refused_fulfilment_invalid:
  "\<exists>b e. markFulfilled sample_order_agg ''VD1'' 5 = (b, Inl e) \<and> \<not> order_ok b"
  by (simp add: markFulfilled_def finish_transition_def validate_def validateOrderStateCombination_def
      order_ok_def sample_order_agg_def)

end
