(* ===== verification/SalesTender.thy ===== *)
theory SalesTender
  imports SalesOrder
begin

text \<open>
  Tender validation at checkout (\<^verbatim>\<open>validateOrderTenders\<close> of
  \<^verbatim>\<open>apps/sales/src/domain/sales-domain.ts\<close>): the tenders of a sale add up to its grand total, cash
  covers its share, and the payment status follows from what is confirmed.
\<close>

datatype TenderMethod = CASH | BANK_TRANSFER | CARD | E_WALLET | COD | ON_ACCOUNT | COMBINED

datatype TenderStatus = TENDER_CONFIRMED | TENDER_PENDING

record TenderInputLine =
  ti_method :: TenderMethod
  ti_amount :: jsnum
  ti_tenderedCash :: "jsnum option"
  ti_externalRef :: "string option"
  ti_verified :: bool

record ValidatedTenderLine =
  vt_method :: TenderMethod
  vt_amount :: int
  vt_tenderedCash :: int
  vt_changeDue :: int
  vt_status :: TenderStatus
  vt_externalRef :: "string option"

record ValidatedTenderSummary =
  vs_tenders :: "ValidatedTenderLine list"
  vs_totalAllocated :: int
  vs_totalConfirmed :: int
  vs_totalCashSales :: int
  vs_totalChangeDue :: int
  vs_allConfirmed :: bool
  vs_paymentStatus :: OrderPaymentStatus

text \<open>The accumulators of the loop.\<close>

record tender_acc =
  totalAllocated :: int
  totalConfirmed :: int
  totalCashSales :: int
  totalChangeDue :: int
  validated :: "ValidatedTenderLine list"

definition tender_step :: "int \<Rightarrow> TenderInputLine \<Rightarrow> tender_acc \<Rightarrow> tender_acc sales_result" where
  "tender_step grandTotal t s =
     ebind (parseVndAmount (Num (ti_amount t)) (grandTotal = 0)) (\<lambda>amount.
     let s1 = s\<lparr>totalAllocated := totalAllocated s + amount\<rparr> in
     if ti_method t = CASH then
       ebind (case ti_tenderedCash t of None \<Rightarrow> Inr amount | Some x \<Rightarrow> parseVndAmount (Num x) True) (\<lambda>tendered.
       if tendered < amount then Inl (sales_error PAYMENT_AMOUNT_MISMATCH 422)
       else
         ebind (vndNumber amount) (\<lambda>amt. ebind (vndNumber tendered) (\<lambda>tend. ebind (vndNumber (tendered - amount)) (\<lambda>chg.
           Inr (s1\<lparr>totalConfirmed := totalConfirmed s1 + amount, totalCashSales := totalCashSales s1 + amount,
                  totalChangeDue := totalChangeDue s1 + (tendered - amount),
                  validated := validated s1 @ [\<lparr>vt_method = CASH, vt_amount = amt, vt_tenderedCash = tend,
                    vt_changeDue = chg, vt_status = TENDER_CONFIRMED, vt_externalRef = ti_externalRef t\<rparr>]\<rparr>)))))
     else if ti_method t = COD then
       ebind (vndNumber amount) (\<lambda>amt.
         Inr (s1\<lparr>validated := validated s1 @ [\<lparr>vt_method = COD, vt_amount = amt, vt_tenderedCash = 0,
           vt_changeDue = 0, vt_status = TENDER_PENDING, vt_externalRef = ti_externalRef t\<rparr>]\<rparr>))
     else
       (let isConfirmed = (ti_verified t \<and> truthy (ti_externalRef t));
            s2 = (if isConfirmed then s1\<lparr>totalConfirmed := totalConfirmed s1 + amount\<rparr> else s1)
        in ebind (vndNumber amount) (\<lambda>amt.
             Inr (s2\<lparr>validated := validated s2 @ [\<lparr>vt_method = ti_method t, vt_amount = amt, vt_tenderedCash = 0,
               vt_changeDue = 0, vt_status = (if isConfirmed then TENDER_CONFIRMED else TENDER_PENDING),
               vt_externalRef = ti_externalRef t\<rparr>]\<rparr>))))"

definition no_tenders :: tender_acc where
  "no_tenders = \<lparr>totalAllocated = 0, totalConfirmed = 0, totalCashSales = 0, totalChangeDue = 0, validated = []\<rparr>"

definition validateOrderTenders :: "jsnum \<Rightarrow> TenderInputLine list \<Rightarrow> ValidatedTenderSummary sales_result" where
  "validateOrderTenders grandTotalVnd tendersInput =
     ebind (parseVndAmount (Num grandTotalVnd) True) (\<lambda>grandTotal.
     if tendersInput = [] then Inl (sales_error PAYMENT_AMOUNT_MISMATCH 422)
     else
       ebind (efold (tender_step grandTotal) tendersInput no_tenders) (\<lambda>s.
       if totalAllocated s \<noteq> grandTotal then Inl (sales_error PAYMENT_AMOUNT_MISMATCH 422)
       else
         let allConfirmed = (totalConfirmed s = grandTotal);
             status = (if allConfirmed then PAID else if totalConfirmed s > 0 then PARTIALLY_PAID else UNPAID)
         in
         ebind (vndNumber (totalAllocated s)) (\<lambda>allocated.
         ebind (vndNumber (totalConfirmed s)) (\<lambda>confirmed.
         ebind (vndNumber (totalCashSales s)) (\<lambda>cashSales.
         ebind (vndNumber (totalChangeDue s)) (\<lambda>changeDue.
           Inr \<lparr>vs_tenders = validated s, vs_totalAllocated = allocated, vs_totalConfirmed = confirmed,
                vs_totalCashSales = cashSales, vs_totalChangeDue = changeDue,
                vs_allConfirmed = allConfirmed, vs_paymentStatus = status\<rparr>))))))"

section \<open>The loop\<close>

abbreviation tsum :: "(ValidatedTenderLine \<Rightarrow> bool) \<Rightarrow> ValidatedTenderLine list \<Rightarrow> int" where
  "tsum P vs \<equiv> sum_list (map vt_amount (filter P vs))"

text \<open>What every validated tender satisfies, given the grand total of the sale.\<close>

definition tender_ok :: "int \<Rightarrow> ValidatedTenderLine \<Rightarrow> bool" where
  "tender_ok g v \<longleftrightarrow>
     (if g = 0 then 0 \<le> vt_amount v else 0 < vt_amount v) \<and>
     (if vt_method v = CASH then vt_tenderedCash v = vt_amount v + vt_changeDue v \<and> 0 \<le> vt_changeDue v
      else vt_tenderedCash v = 0 \<and> vt_changeDue v = 0) \<and>
     (vt_method v = COD \<longrightarrow> vt_status v = TENDER_PENDING) \<and>
     (vt_method v \<notin> {CASH, COD} \<and> vt_status v = TENDER_CONFIRMED \<longrightarrow> truthy (vt_externalRef v))"

definition acc_ok :: "int \<Rightarrow> tender_acc \<Rightarrow> bool" where
  "acc_ok g s \<longleftrightarrow>
     totalAllocated s = tsum (\<lambda>_. True) (validated s) \<and>
     totalConfirmed s = tsum (\<lambda>v. vt_status v = TENDER_CONFIRMED) (validated s) \<and>
     totalCashSales s = tsum (\<lambda>v. vt_method v = CASH) (validated s) \<and>
     totalChangeDue s = sum_list (map vt_changeDue (validated s)) \<and>
     (\<forall>v \<in> set (validated s). tender_ok g v)"

lemma parse_amount:
  "parseVndAmount (Num x) (g = 0) = Inr n \<Longrightarrow> (if g = 0 then 0 \<le> n else 0 < n) \<and> n = int_of_num x"
  by (auto simp: parseVnd_Num)

lemma tender_step_adds:
  assumes "tender_step g t s = Inr s'"
  obtains v where "validated s' = validated s @ [v]" "tender_ok g v"
    "vt_method v = ti_method t" "vt_amount v = int_of_num (ti_amount t)"
    "totalAllocated s' = totalAllocated s + vt_amount v"
    "totalConfirmed s' = totalConfirmed s + (if vt_status v = TENDER_CONFIRMED then vt_amount v else 0)"
    "totalCashSales s' = totalCashSales s + (if vt_method v = CASH then vt_amount v else 0)"
    "totalChangeDue s' = totalChangeDue s + vt_changeDue v"
proof -
  obtain n where n: "parseVndAmount (Num (ti_amount t)) (g = 0) = Inr n"
    using assms by (auto simp: tender_step_def ok_simps)
  note amt = parse_amount [OF n]
  consider (cash) "ti_method t = CASH" | (cod) "ti_method t = COD" | (other) "ti_method t \<notin> {CASH, COD}" by blast
  then show thesis
  proof cases
    case cash
    then show ?thesis
      using assms n amt that [of "last (validated s')"] by (auto simp: tender_step_def ok_simps Let_def tender_ok_def)
  next
    case cod
    then show ?thesis
      using assms n amt that [of "last (validated s')"] by (auto simp: tender_step_def ok_simps Let_def tender_ok_def)
  next
    case other
    then show ?thesis
      using assms n amt that [of "last (validated s')"]
      by (auto simp: tender_step_def ok_simps Let_def tender_ok_def split: if_splits)
  qed
qed

lemma tender_step_ok:
  assumes "acc_ok g s" "tender_step g t s = Inr s'"
  shows "acc_ok g s'"
  using assms(2)
proof (rule tender_step_adds)
qed (use assms(1) in \<open>auto simp: acc_ok_def\<close>)

lemma tenders_fold:
  "efold (tender_step g) ts no_tenders = Inr s \<Longrightarrow> acc_ok g s"
  by (erule efold_invariant [where I = "acc_ok g"]) (simp add: acc_ok_def no_tenders_def, erule (1) tender_step_ok)

lemma tenders_fold_inputs:
  assumes "efold (tender_step g) ts s = Inr s'"
  shows "map vt_amount (validated s') = map vt_amount (validated s) @ map (int_of_num \<circ> ti_amount) ts \<and>
    map vt_method (validated s') = map vt_method (validated s) @ map ti_method ts"
  using assms
proof (induction ts arbitrary: s)
  case (Cons t ts)
  then obtain u where u: "tender_step g t s = Inr u" "efold (tender_step g) ts u = Inr s'"
    by (auto simp: ok_simps)
  from u(1) show ?case
    by (rule tender_step_adds) (use Cons.IH [OF u(2)] in simp)
qed simp

lemma validateE:
  assumes "validateOrderTenders gt ts = Inr r"
  obtains g s where "gt = Fin (of_int g)" "0 \<le> g" "efold (tender_step g) ts no_tenders = Inr s"
    "totalAllocated s = g" "vs_tenders r = validated s" "vs_totalAllocated r = g"
    "vs_totalConfirmed r = totalConfirmed s" "vs_totalCashSales r = totalCashSales s"
    "vs_totalChangeDue r = totalChangeDue s" "vs_allConfirmed r = (totalConfirmed s = g)"
    "vs_paymentStatus r = (if totalConfirmed s = g then PAID else if totalConfirmed s > 0 then PARTIALLY_PAID else UNPAID)"
proof -
  obtain g where g: "parseVndAmount (Num gt) True = Inr g"
    using assms by (auto simp: validateOrderTenders_def ok_simps)
  then have "gt = Fin (of_int g)" "0 \<le> g" by (auto simp: parseVnd_Num elim!: is_safe_integerE)
  moreover obtain s where s: "efold (tender_step g) ts no_tenders = Inr s"
    using assms g by (auto simp: validateOrderTenders_def ok_simps)
  ultimately show thesis
    using assms g by (intro that [of g s]) (auto simp: validateOrderTenders_def ok_simps Let_def)
qed

lemma confirmed_le_all: "\<forall>v \<in> set vs. 0 \<le> vt_amount v \<Longrightarrow> tsum P vs \<le> tsum (\<lambda>_. True) vs \<and> 0 \<le> tsum P vs"
  by (induction vs) auto

lemma confirmed_eq_all:
  "\<forall>v \<in> set vs. 0 < vt_amount v \<Longrightarrow> tsum P vs = tsum (\<lambda>_. True) vs \<longleftrightarrow> (\<forall>v \<in> set vs. P v)"
proof (induction vs)
  case (Cons v vs)
  have "tsum P vs \<le> tsum (\<lambda>_. True) vs" using Cons.prems confirmed_le_all [of vs P] by fastforce
  then show ?case using Cons by auto
qed simp

lemma tender_amount_nonneg: "tender_ok g v \<Longrightarrow> 0 \<le> vt_amount v"
  by (auto simp: tender_ok_def split: if_splits)

section \<open>Properties\<close>

definition sample_tenders :: "TenderInputLine list" where
  "sample_tenders =
     [\<lparr>ti_method = CASH, ti_amount = Fin 30000, ti_tenderedCash = Some (Fin 50000), ti_externalRef = None, ti_verified = False\<rparr>,
      \<lparr>ti_method = CARD, ti_amount = Fin 70000, ti_tenderedCash = None, ti_externalRef = Some ''TX1'', ti_verified = True\<rparr>]"

lemma sample_tenders_ok: "is_ok (validateOrderTenders (Fin 100000) sample_tenders)"
  by code_simp

text \<open>
C33: accepted tenders pay the sale exactly: their amounts add up to the grand total, the change on
cash is what was tendered above its share, the drawer gets exactly the cash amounts, and the confirmed
total is that of the confirmed tenders and at most the grand total.
\<close>

theorem tenders_pay_exactly:
  assumes "validateOrderTenders gt ts = Inr r"
  shows "gt = Fin (of_int (sum_list (map vt_amount (vs_tenders r)))) \<and>
    map vt_method (vs_tenders r) = map ti_method ts \<and>
    vs_totalAllocated r = sum_list (map vt_amount (vs_tenders r)) \<and>
    vs_totalCashSales r = sum_list (map vt_amount (filter (\<lambda>v. vt_method v = CASH) (vs_tenders r))) \<and>
    vs_totalChangeDue r = sum_list (map vt_changeDue (vs_tenders r)) \<and>
    (\<forall>v \<in> set (vs_tenders r). vt_method v = CASH \<longrightarrow>
       0 \<le> vt_changeDue v \<and> vt_tenderedCash v = vt_amount v + vt_changeDue v) \<and>
    vs_totalConfirmed r = sum_list (map vt_amount (filter (\<lambda>v. vt_status v = TENDER_CONFIRMED) (vs_tenders r))) \<and>
    0 \<le> vs_totalConfirmed r \<and> vs_totalConfirmed r \<le> vs_totalAllocated r"
proof (rule validateE [OF assms])
  fix g s
  assume g: "gt = Fin (of_int g)" and s: "efold (tender_step g) ts no_tenders = Inr s" "totalAllocated s = g"
    and r: "vs_tenders r = validated s" "vs_totalAllocated r = g" "vs_totalConfirmed r = totalConfirmed s"
      "vs_totalCashSales r = totalCashSales s" "vs_totalChangeDue r = totalChangeDue s"
  have ok: "acc_ok g s" by (rule tenders_fold [OF s(1)])
  then have nn: "\<forall>v \<in> set (validated s). 0 \<le> vt_amount v" by (auto simp: acc_ok_def tender_amount_nonneg)
  show ?thesis
    using ok s(2) r g confirmed_le_all [OF nn, of "\<lambda>v. vt_status v = TENDER_CONFIRMED"] tenders_fold_inputs [OF s(1)]
    by (auto simp: acc_ok_def tender_ok_def no_tenders_def)
qed

theorem tenders_pay_exactly_witness:
  "\<exists>r. validateOrderTenders (Fin 100000) sample_tenders = Inr r \<and>
     sum_list (map vt_amount (vs_tenders r)) = 100000 \<and> vs_totalChangeDue r = 20000"
proof -
  obtain r where r: "validateOrderTenders (Fin 100000) sample_tenders = Inr r"
    using sample_tenders_ok by (auto simp: is_ok_def split: sum.splits)
  have "ebind (validateOrderTenders (Fin 100000) sample_tenders) (\<lambda>r. Inr (vs_totalChangeDue r)) = Inr 20000"
    by code_simp
  moreover have "(100000 :: rat) = of_int (sum_list (map vt_amount (vs_tenders r)))"
    using tenders_pay_exactly [OF r] by simp
  then have "sum_list (map vt_amount (vs_tenders r)) = 100000" by (metis of_int_eq_numeral_iff)
  ultimately show ?thesis using r by simp
qed

text \<open>
The payment status of a sale tells the truth about its tenders: a sale of a positive amount is paid
exactly when every tender is confirmed, and unpaid exactly when none is; cash on delivery never
counts as paid, and a card, transfer, wallet or on-account tender counts only with an external reference.
\<close>

theorem payment_status_truthful:
  assumes "validateOrderTenders gt ts = Inr r" and "0 < vs_totalAllocated r"
  shows "(vs_paymentStatus r = PAID \<longleftrightarrow> (\<forall>v \<in> set (vs_tenders r). vt_status v = TENDER_CONFIRMED)) \<and>
    (vs_paymentStatus r = UNPAID \<longleftrightarrow> (\<forall>v \<in> set (vs_tenders r). vt_status v = TENDER_PENDING)) \<and>
    vs_allConfirmed r = (vs_paymentStatus r = PAID) \<and>
    (\<forall>v \<in> set (vs_tenders r). vt_status v = TENDER_CONFIRMED \<longrightarrow>
       vt_method v = CASH \<or> (vt_method v \<noteq> COD \<and> truthy (vt_externalRef v)))"
proof (rule validateE [OF assms(1)])
  fix g s
  assume s: "efold (tender_step g) ts no_tenders = Inr s" "totalAllocated s = g"
    and r: "vs_tenders r = validated s" "vs_totalAllocated r = g" "vs_allConfirmed r = (totalConfirmed s = g)"
      "vs_paymentStatus r = (if totalConfirmed s = g then PAID else if totalConfirmed s > 0 then PARTIALLY_PAID else UNPAID)"
  let ?C = "\<lambda>v. vt_status v = TENDER_CONFIRMED"
  let ?P = "\<lambda>v. vt_status v = TENDER_PENDING"
  have ok: "acc_ok g s" by (rule tenders_fold [OF s(1)])
  have g: "0 < g" using assms(2) r(2) by simp
  then have pos: "\<forall>v \<in> set (validated s). 0 < vt_amount v" using ok by (auto simp: acc_ok_def tender_ok_def)
  have split: "tsum (\<lambda>_. True) vs = tsum ?C vs + tsum ?P vs" for vs
    by (induction vs) (auto intro: TenderStatus.exhaust)
  have conf: "totalConfirmed s = g \<longleftrightarrow> (\<forall>v \<in> set (validated s). ?C v)"
    using ok s(2) confirmed_eq_all [OF pos, of ?C] by (simp add: acc_ok_def)
  have "tsum ?C (validated s) = 0 \<longleftrightarrow> (\<forall>v \<in> set (validated s). ?P v)"
    using confirmed_eq_all [OF pos, of ?P] split [of "validated s"] by simp
  moreover have "0 \<le> tsum ?C (validated s)"
    using pos by (intro confirmed_le_all [THEN conjunct2]) (auto intro: less_imp_le)
  ultimately have unpaid: "totalConfirmed s \<le> 0 \<longleftrightarrow> (\<forall>v \<in> set (validated s). ?P v)"
    using ok by (auto simp: acc_ok_def)
  have refs: "?C v \<longrightarrow> vt_method v = CASH \<or> (vt_method v \<noteq> COD \<and> truthy (vt_externalRef v))"
    if v: "v \<in> set (validated s)" for v
  proof -
    have "tender_ok g v" using ok v unfolding acc_ok_def by blast
    then show ?thesis by (cases "vt_method v") (simp_all add: tender_ok_def)
  qed
  have "vs_paymentStatus r = PAID \<longleftrightarrow> totalConfirmed s = g" "vs_paymentStatus r = UNPAID \<longleftrightarrow> totalConfirmed s \<le> 0"
    unfolding r(4) using g by auto
  then show ?thesis unfolding r(1,3) using conf unpaid refs by blast
qed

theorem payment_status_truthful_witness:
  "\<exists>r. validateOrderTenders (Fin 100000) sample_tenders = Inr r \<and> vs_paymentStatus r = PAID \<and>
     (\<forall>v \<in> set (vs_tenders r). vt_status v = TENDER_CONFIRMED)"
proof -
  obtain r where r: "validateOrderTenders (Fin 100000) sample_tenders = Inr r"
    using sample_tenders_ok by (auto simp: is_ok_def split: sum.splits)
  have "ebind (validateOrderTenders (Fin 100000) sample_tenders) (\<lambda>r. Inr (vs_totalAllocated r, vs_paymentStatus r))
      = Inr (100000, PAID)"
    by code_simp
  then have "vs_totalAllocated r = 100000" "vs_paymentStatus r = PAID" using r by simp_all
  then show ?thesis using payment_status_truthful [OF r] r by simp
qed

end
