(* ===== verification/CashSession.thy ===== *)
theory CashSession
  imports SalesTender
begin

text \<open>
  The arithmetic of a cash session (the shift and cash functions of
  \<^verbatim>\<open>apps/sales/src/domain/sales-domain.ts\<close>), reading money back from the database
  (\<^verbatim>\<open>apps/sales/src/common/money.ts\<close>) and the store's cash settings
  (\<^verbatim>\<open>apps/sales/src/modules/shifts/cash-settings.service.ts\<close>).
\<close>

section \<open>Closing a shift by totals\<close>

record ShiftCashReconciliation =
  sc_openingCash :: int
  sc_cashSalesTotal :: int
  sc_cashRefundsTotal :: int
  sc_expectedCash :: int
  sc_actualCash :: int
  sc_variance :: int

definition calculateShiftCloseSummary ::
    "jsnum \<Rightarrow> jsnum \<Rightarrow> jsnum \<Rightarrow> jsnum \<Rightarrow> ShiftCashReconciliation sales_result" where
  "calculateShiftCloseSummary openingCash cashSalesTotal cashRefundsTotal actualCash =
     ebind (parseVndAmount (Num openingCash) True) (\<lambda>opening.
     ebind (parseVndAmount (Num cashSalesTotal) True) (\<lambda>sales.
     ebind (parseVndAmount (Num cashRefundsTotal) True) (\<lambda>refunds.
     ebind (parseVndAmount (Num actualCash) True) (\<lambda>actual.
     let expected = opening + sales - refunds; variance = actual - expected in
     ebind (vndNumber opening) (\<lambda>o'. ebind (vndNumber sales) (\<lambda>s'. ebind (vndNumber refunds) (\<lambda>r'.
     ebind (vndNumber expected) (\<lambda>e'. ebind (vndNumber actual) (\<lambda>a'. ebind (vndNumber variance) (\<lambda>v'.
       Inr \<lparr>sc_openingCash = o', sc_cashSalesTotal = s', sc_cashRefundsTotal = r', sc_expectedCash = e',
            sc_actualCash = a', sc_variance = v'\<rparr>))))))))))"

section \<open>Entries, counts and the close decision\<close>

datatype CashEntryKind = CASH_SALE | CASH_REFUND | PAY_IN | PAY_OUT | CASH_SHORTAGE | CASH_OVERAGE | REVERSAL

definition CLOSING_KINDS :: "CashEntryKind list" where
  "CLOSING_KINDS = [CASH_SHORTAGE, CASH_OVERAGE]"

definition DEFAULT_CASH_DENOMINATIONS :: "jsnum list" where
  "DEFAULT_CASH_DENOMINATIONS = map (\<lambda>n. Fin (of_int n)) [500000, 200000, 100000, 50000, 20000, 10000, 5000, 2000, 1000]"

definition expectedCashFromEntries :: "jsnum \<Rightarrow> (CashEntryKind \<times> jsnum) list \<Rightarrow> int sales_result" where
  "expectedCashFromEntries openingCash entries =
     ebind (parseVndAmount (Num openingCash) True) (\<lambda>opening.
     ebind (efold (\<lambda>(kind, amount) expected.
              if kind \<in> set CLOSING_KINDS then Inr expected
              else if \<not> is_safe_integer amount then Inl (sales_error VALIDATION_ERROR 422)
              else ebind (bigint_of_num amount) (\<lambda>a. Inr (expected + a)))
            entries opening) (\<lambda>expected.
       vndNumber expected))"

definition cashSaleDrawerAmount :: "(TenderMethod \<times> jsnum) list \<Rightarrow> int sales_result" where
  "cashSaleDrawerAmount tenders =
     ebind (efold (\<lambda>(method, amount) total.
              if method = CASH then ebind (parseVndAmount (Num amount) True) (\<lambda>a. Inr (total + a)) else Inr total)
            tenders 0) vndNumber"

text \<open>
  \<^verbatim>\<open>includes\<close> on numbers, and a count per note in the order of \<^verbatim>\<open>Object.entries\<close>; the result does not
  depend on that order.
\<close>

definition countedTotalFromDenominations :: "(string \<times> jsnum) list \<Rightarrow> jsnum list \<Rightarrow> int sales_result" where
  "countedTotalFromDenominations counts allowed =
     ebind (efold (\<lambda>(note, qty) total.
              let value = num_of_string note in
              if value \<notin> set allowed then Inl (sales_error VALIDATION_ERROR 400)
              else if \<not> is_integer_num qty \<or> js_lt qty (Fin 0) then Inl (sales_error VALIDATION_ERROR 400)
              else ebind (bigint_of_num value) (\<lambda>v. ebind (bigint_of_num qty) (\<lambda>q. Inr (total + v * q))))
            counts 0) vndNumber"

datatype CloseDecision = WITHIN_TOLERANCE | REASON_REQUIRED | APPROVAL_REQUIRED_DECISION

definition decideShiftClose :: "jsnum \<Rightarrow> jsnum \<Rightarrow> jsnum \<Rightarrow> CloseDecision" where
  "decideShiftClose variance toleranceVnd approvalAboveVnd =
     (let abs = math_abs variance
      in if js_le abs toleranceVnd then WITHIN_TOLERANCE
         else if js_le abs approvalAboveVnd then REASON_REQUIRED
         else APPROVAL_REQUIRED_DECISION)"

section \<open>Money columns and settings\<close>

text \<open>A \<^verbatim>\<open>bigint\<close> column is an integer; reading it as a number fails when it is not a safe integer.\<close>

definition toMoney :: "int \<Rightarrow> int sales_result" where
  "toMoney value = (if is_safe_integer (js_of_int value) then Inr value else Inl (NativeError ''Error''))"

record CashSettings =
  toleranceVnd :: jsnum
  approvalAboveVnd :: jsnum
  responsibility :: string
  maxOpenHours :: jsnum
  maxOpeningFloatVnd :: jsnum
  denominations :: "jsnum list"

definition CASH_RESPONSIBILITIES :: "string list" where
  "CASH_RESPONSIBILITIES = [''none'', ''cashier_deduction'', ''store_loss'']"

definition DEFAULT_CASH_SETTINGS :: CashSettings where
  "DEFAULT_CASH_SETTINGS = \<lparr>toleranceVnd = Fin 10000, approvalAboveVnd = Fin 10000, responsibility = ''none'',
     maxOpenHours = Fin 16, maxOpeningFloatVnd = Fin 5000000, denominations = DEFAULT_CASH_DENOMINATIONS\<rparr>"

text \<open>The settings row of the tenant, if any.\<close>

definition loadCashSettings :: "CashSettings option \<Rightarrow> CashSettings" where
  "loadCashSettings row = (case row of None \<Rightarrow> DEFAULT_CASH_SETTINGS | Some s \<Rightarrow> s)"

definition validateCashSettings :: "CashSettings \<Rightarrow> unit sales_result" where
  "validateCashSettings s =
     (let bad = (sales_error CASH_SETTINGS_INVALID 400) in
      ebind (emap (\<lambda>v. throw_if (\<not> is_safe_integer v \<or> js_lt v (Fin 0)) bad)
               [toleranceVnd s, approvalAboveVnd s, maxOpeningFloatVnd s]) (\<lambda>_.
      ebind (throw_if (js_lt (approvalAboveVnd s) (toleranceVnd s)) bad) (\<lambda>_.
      ebind (throw_if (\<not> is_integer_num (maxOpenHours s) \<or> js_lt (maxOpenHours s) (Fin 1)) bad) (\<lambda>_.
      ebind (throw_if (responsibility s \<notin> set CASH_RESPONSIBILITIES) bad) (\<lambda>_.
        throw_if (denominations s = [] \<or>
          list_ex (\<lambda>d. \<not> is_safe_integer d \<or> js_le d (Fin 0)) (denominations s) \<or>
          \<not> distinct (denominations s)) bad)))))"

record UpdateCashSettingsDto =
  up_toleranceVnd :: "jsnum option"
  up_approvalAboveVnd :: "jsnum option"
  up_responsibility :: "string option"
  up_maxOpenHours :: "jsnum option"
  up_maxOpeningFloatVnd :: "jsnum option"
  up_denominations :: "jsnum list option"

definition nullish :: "'a option \<Rightarrow> 'a \<Rightarrow> 'a" where
  "nullish v d = (case v of None \<Rightarrow> d | Some x \<Rightarrow> x)"

text \<open>The update of the row: the new settings are stored exactly when they validate.\<close>

definition updateCashSettings :: "CashSettings option \<Rightarrow> UpdateCashSettingsDto \<Rightarrow> CashSettings sales_result" where
  "updateCashSettings row dto =
     (let current = loadCashSettings row;
          nxt = \<lparr>toleranceVnd = nullish (up_toleranceVnd dto) (toleranceVnd current),
            approvalAboveVnd = nullish (up_approvalAboveVnd dto) (approvalAboveVnd current),
            responsibility = nullish (up_responsibility dto) (responsibility current),
            maxOpenHours = nullish (up_maxOpenHours dto) (maxOpenHours current),
            maxOpeningFloatVnd = nullish (up_maxOpeningFloatVnd dto) (maxOpeningFloatVnd current),
            denominations = nullish (up_denominations dto) (denominations current)\<rparr>
      in ebind (validateCashSettings nxt) (\<lambda>_. Inr nxt))"

section \<open>Lemmas\<close>

lemma toMoney_iff [ok_simps]: "toMoney v = Inr n \<longleftrightarrow> n = v \<and> \<bar>v\<bar> \<le> max_safe"
  by (auto simp: toMoney_def is_safe_integer_of_int)

text \<open>The signed sum of the entries that move the expected cash.\<close>

definition drawer_sum :: "(CashEntryKind \<times> int) list \<Rightarrow> int" where
  "drawer_sum es = sum_list (map snd (filter (\<lambda>e. fst e \<notin> set CLOSING_KINDS) es))"

lemma drawer_sum_append [simp]: "drawer_sum (xs @ ys) = drawer_sum xs + drawer_sum ys"
  by (simp add: drawer_sum_def)

lemma drawer_sum_Nil [simp]: "drawer_sum [] = 0"
  by (simp add: drawer_sum_def)

lemma drawer_sum_Cons: "drawer_sum ((k, a) # es) = (if k \<in> set CLOSING_KINDS then 0 else a) + drawer_sum es"
  by (simp add: drawer_sum_def)

lemma expected_loop:
  assumes "\<forall>e \<in> set es. \<bar>snd e\<bar> \<le> max_safe"
  shows "efold (\<lambda>(kind, amount) expected.
      if kind \<in> set CLOSING_KINDS then Inr expected
      else if \<not> is_safe_integer amount then Inl (sales_error VALIDATION_ERROR 422)
      else ebind (bigint_of_num amount) (\<lambda>a. Inr (expected + a)))
    (map (\<lambda>(k, a). (k, Fin (of_int a))) es) s = Inr (s + drawer_sum es)"
  using assms
  by (induction es arbitrary: s) (auto simp: drawer_sum_Cons bigint_of_safe)

lemma expectedCash_eq:
  assumes "0 \<le> opening" "opening \<le> max_safe" "\<forall>e \<in> set es. \<bar>snd e\<bar> \<le> max_safe"
  shows "expectedCashFromEntries (Fin (of_int opening)) (map (\<lambda>(k, a). (k, Fin (of_int a))) es) =
    vndNumber (opening + drawer_sum es)"
proof -
  have "parseVndAmount (Num (Fin (of_int opening))) True = Inr opening"
    using assms(1,2) by (auto simp: parseVnd_Num)
  then show ?thesis by (simp add: expectedCashFromEntries_def expected_loop [OF assms(3)])
qed

lemma math_abs_int: "math_abs (Fin (of_int v)) = Fin (of_int \<bar>v\<bar>)"
  by (auto simp: math_abs_def js_neg_def)

lemma decide_iff:
  "decideShiftClose (Fin (of_int v)) (Fin (of_int t)) (Fin (of_int a)) =
    (if \<bar>v\<bar> \<le> t then WITHIN_TOLERANCE else if \<bar>v\<bar> \<le> a then REASON_REQUIRED else APPROVAL_REQUIRED_DECISION)"
  by (auto simp: decideShiftClose_def math_abs_int js_le_def js_eq_def)

end
