(* ===== verification/CashShift.thy ===== *)
theory CashShift
  imports CashSession
begin

text \<open>
  The cash shift of a register as a state machine over the tenant's tables: the cash ledger
  (\<^verbatim>\<open>apps/sales/src/modules/shifts/cash-ledger.ts\<close>) and the shift service
  (\<^verbatim>\<open>apps/sales/src/modules/shifts/shifts.service.ts\<close>). Every operation runs in one transaction that locks the
  shift row, so an operation is a function on the database and a thrown error leaves it unchanged. The
  identifiers drawn by \<^verbatim>\<open>randomUUID\<close>, the document code and the clock are arguments.
\<close>

section \<open>Tables\<close>

datatype ShiftStatus = OPEN | PENDING_CLOSE | PENDING_APPROVAL | CLOSED

definition OPEN_SHIFT_STATUSES :: "ShiftStatus list" where
  "OPEN_SHIFT_STATUSES = [OPEN, PENDING_CLOSE, PENDING_APPROVAL]"

text \<open>One step of the close history: its name and who took it.\<close>

type_synonym history = "(string \<times> string) list"

record PosShift =
  code' :: string
  branch_id :: string
  register_code :: string
  register_id :: "string option"
  staff_id :: string
  status :: ShiftStatus
  opening_cash :: int
  cash_sales_total :: int
  cash_refunds_total :: int
  expected_cash :: int
  actual_cash :: "int option"
  variance :: "int option"
  open_note :: "string option"
  close_note :: "string option"
  opened_at :: int
  planned_end_at :: int
  counted_by_denomination :: "(string \<times> jsnum) list option"
  counted_by :: "string option"
  counted_at :: "int option"
  variance_reason :: "string option"
  variance_note :: "string option"
  close_requested_by :: "string option"
  close_requested_at :: "int option"
  closed_by :: "string option"
  closed_at :: "int option"
  approved_by :: "string option"
  approved_at :: "int option"
  shift_responsibility :: "string option"
  close_history :: history
  shift_version :: int

text \<open>A row of \<^verbatim>\<open>pos_shift_cash_entry\<close>; the table is append-only.\<close>

record CashEntry =
  ce_id :: string
  ce_shiftId :: string
  ce_branchId :: string
  ce_kind :: CashEntryKind
  ce_amount :: int
  ce_reason :: "string option"
  ce_note :: "string option"
  ce_orderId :: "string option"
  ce_returnId :: "string option"
  ce_tenderId :: "string option"
  ce_staffId :: "string option"
  ce_sourceKey :: string
  ce_at :: int

record Register =
  rg_id :: string
  rg_code :: string
  rg_branch :: string
  rg_active :: bool

datatype ShiftEvent = SALES_SHIFT_OPENED string PosShift | SALES_SHIFT_CLOSED string PosShift "string option"

text \<open>
  The tenant's rows the service reads or writes: shifts by id, entries, settings, active branches,
  registers, checkout workflows (shift, state), drafts (shift, active, expiry) and the outbox.
\<close>

record CashDb =
  shifts :: "(string, PosShift) jsmap"
  entries :: "CashEntry list"
  settings_row :: "CashSettings option"
  active_branches :: "string list"
  registers :: "Register list"
  workflows :: "(string \<times> string) list"
  drafts :: "(string \<times> bool \<times> int) list"
  outbox :: "ShiftEvent list"

section \<open>The ledger\<close>

record CashEntryInput =
  in_shiftId :: string
  in_kind :: CashEntryKind
  in_amount :: int
  in_reason :: "string option"
  in_note :: "string option"
  in_orderId :: "string option"
  in_returnId :: "string option"
  in_tenderId :: "string option"
  in_staffId :: "string option"
  in_sourceKey :: string

text \<open>The check constraints of the entry table: sign by kind, and a reason for the kinds that need one.\<close>

definition entry_check :: "CashEntryKind \<Rightarrow> int \<Rightarrow> string option \<Rightarrow> bool" where
  "entry_check k a r \<longleftrightarrow>
     a \<noteq> 0 \<and>
     ((k \<in> {CASH_SALE, PAY_IN, CASH_OVERAGE} \<and> a > 0) \<or> (k \<in> {CASH_REFUND, PAY_OUT, CASH_SHORTAGE} \<and> a < 0) \<or>
      k = REVERSAL) \<and>
     (k \<notin> {PAY_IN, PAY_OUT, CASH_REFUND, CASH_SHORTAGE, REVERSAL} \<or> r \<noteq> None)"

definition shift_totals :: "CashEntryKind \<Rightarrow> int \<Rightarrow> PosShift \<Rightarrow> PosShift" where
  "shift_totals k a s =
     (if k = CASH_SHORTAGE \<or> k = CASH_OVERAGE then s
      else s\<lparr>cash_sales_total := cash_sales_total s + (if k = CASH_SALE then a else 0),
             cash_refunds_total := cash_refunds_total s + (if k = CASH_REFUND then - a else 0),
             expected_cash := expected_cash s + a, shift_version := shift_version s + 1\<rparr>)"

definition new_entry :: "string \<Rightarrow> int \<Rightarrow> string \<Rightarrow> CashEntryInput \<Rightarrow> CashEntry" where
  "new_entry entryId now branch i = \<lparr>ce_id = entryId, ce_shiftId = in_shiftId i, ce_branchId = branch,
     ce_kind = in_kind i, ce_amount = in_amount i, ce_reason = in_reason i, ce_note = in_note i,
     ce_orderId = in_orderId i, ce_returnId = in_returnId i, ce_tenderId = in_tenderId i,
     ce_staffId = in_staffId i, ce_sourceKey = in_sourceKey i, ce_at = now\<rparr>"

text \<open>Returns the database, the entry's id and whether it was a replay.\<close>

definition recordCashEntry ::
    "CashDb \<Rightarrow> CashEntryInput \<Rightarrow> bool \<Rightarrow> string \<Rightarrow> int \<Rightarrow> (CashDb \<times> string \<times> bool) sales_result" where
  "recordCashEntry db input closing entryId now =
     (case map_get (shifts db) (in_shiftId input) of
        None \<Rightarrow> Inl (sales_error SHIFT_NOT_FOUND 404)
      | Some shift \<Rightarrow>
          (case find (\<lambda>e. ce_sourceKey e = in_sourceKey input) (entries db) of
             Some e \<Rightarrow> Inr (db, ce_id e, True)
           | None \<Rightarrow>
               (if \<not> closing \<and> status shift = CLOSED then Inl (sales_error SHIFT_CLOSED 409)
                else if \<not> closing \<and> status shift \<noteq> OPEN then Inl (sales_error SHIFT_NOT_OPEN 409)
                else if entryId \<in> ce_id ` set (entries db) \<or> \<not> entry_check (in_kind input) (in_amount input) (in_reason input)
                then Inl (NativeError ''QueryFailedError'')
                else Inr (db\<lparr>entries := entries db @ [new_entry entryId now (branch_id shift) input],
                             shifts := map_set (in_shiftId input) (shift_totals (in_kind input) (in_amount input) shift) (shifts db)\<rparr>,
                          entryId, False))))"

text \<open>The caller's own open shift at the branch that was opened last.\<close>

definition later_opened :: "string \<times> PosShift \<Rightarrow> string \<times> PosShift \<Rightarrow> int" where
  "later_opened a b = opened_at (snd b) - opened_at (snd a)"

definition findCallersOpenShift :: "CashDb \<Rightarrow> string \<Rightarrow> string \<Rightarrow> string sales_result" where
  "findCallersOpenShift db staffId branchId =
     (case js_sort later_opened
        (filter (\<lambda>(i, s). staff_id s = staffId \<and> branch_id s = branchId \<and> status s = OPEN) (shifts db)) of
        [] \<Rightarrow> Inl (sales_error SHIFT_REQUIRED 409)
      | (i, s) # _ \<Rightarrow> Inr i)"

definition assertOpenShiftOfBranch :: "CashDb \<Rightarrow> string \<Rightarrow> string \<Rightarrow> unit sales_result" where
  "assertOpenShiftOfBranch db shiftId branchId =
     (case map_get (shifts db) shiftId of
        None \<Rightarrow> Inl (sales_error SHIFT_NOT_FOUND 404)
      | Some s \<Rightarrow> throw_if (branch_id s \<noteq> branchId \<or> status s \<noteq> OPEN) (sales_error SHIFT_NOT_OPEN 409))"

section \<open>Branch scope\<close>

text \<open>\<^verbatim>\<open>null\<close> is every branch of the tenant.\<close>

type_synonym BranchScope = "string list option"

definition branchAllowed :: "BranchScope \<Rightarrow> string \<Rightarrow> bool" where
  "branchAllowed scope branchId \<longleftrightarrow> (case scope of None \<Rightarrow> True | Some bs \<Rightarrow> branchId \<noteq> [] \<and> branchId \<in> set bs)"

section \<open>The service\<close>

definition lockShift :: "CashDb \<Rightarrow> string \<Rightarrow> BranchScope \<Rightarrow> PosShift sales_result" where
  "lockShift db shiftId scope =
     (case map_get (shifts db) shiftId of
        None \<Rightarrow> Inl (sales_error SHIFT_NOT_FOUND 404)
      | Some s \<Rightarrow> (if branchAllowed scope (branch_id s) then Inr s else Inl (sales_error SHIFT_NOT_FOUND 404)))"

record OpenShiftReqDto =
  os_branchId :: string
  os_registerCode :: "string option"
  os_registerId :: "string option"
  os_openingCash :: jsval
  os_note :: "string option"

definition find_register :: "CashDb \<Rightarrow> OpenShiftReqDto \<Rightarrow> (string option \<times> string) sales_result" where
  "find_register db dto =
     (if truthy (os_registerId dto)
      then (case find (\<lambda>r. rg_id r = the (os_registerId dto) \<and> rg_branch r = os_branchId dto \<and> rg_active r) (registers db) of
              None \<Rightarrow> Inl (sales_error REGISTER_NOT_FOUND 404)
            | Some r \<Rightarrow> Inr (Some (rg_id r), js_upper (rg_code r)))
      else Inr (None, js_upper (js_trim (nullish (os_registerCode dto) ''REG-01''))))"

definition shift_active :: "PosShift \<Rightarrow> bool" where
  "shift_active s \<longleftrightarrow> status s \<in> set OPEN_SHIFT_STATUSES"

definition register_busy :: "CashDb \<Rightarrow> string \<Rightarrow> string option \<Rightarrow> string \<Rightarrow> bool" where
  "register_busy db branch regId regCode \<longleftrightarrow>
     list_ex (\<lambda>(i, s). branch_id s = branch \<and> shift_active s \<and>
       (register_code s = regCode \<or> (regId \<noteq> None \<and> register_id s = regId))) (shifts db)"

definition new_shift ::
    "string \<Rightarrow> string \<Rightarrow> OpenShiftReqDto \<Rightarrow> string option \<Rightarrow> string \<Rightarrow> int \<Rightarrow> int \<Rightarrow> int \<Rightarrow> PosShift" where
  "new_shift codeText staffId dto regId regCode openingCash now hours =
     \<lparr>code' = codeText, branch_id = os_branchId dto, register_code = regCode, register_id = regId,
      staff_id = staffId, status = OPEN, opening_cash = openingCash, cash_sales_total = 0,
      cash_refunds_total = 0, expected_cash = openingCash, actual_cash = None, variance = None,
      open_note = os_note dto, close_note = None, opened_at = now, planned_end_at = now + hours * 3600000,
      counted_by_denomination = None, counted_by = None, counted_at = None, variance_reason = None,
      variance_note = None, close_requested_by = None, close_requested_at = None, closed_by = None,
      closed_at = None, approved_by = None, approved_at = None, shift_responsibility = None,
      close_history = [], shift_version = 1\<rparr>"

text \<open>
  A second active shift of the register and a shift id already in use violate unique indexes; both
  surface as \<^verbatim>\<open>SHIFT_ALREADY_OPEN\<close>.
\<close>

definition openShift ::
    "CashDb \<Rightarrow> string \<Rightarrow> BranchScope \<Rightarrow> OpenShiftReqDto \<Rightarrow> string \<Rightarrow> string \<Rightarrow> int \<Rightarrow> (CashDb \<times> PosShift) sales_result" where
  "openShift db staffId scope dto shiftId codeText now =
     ebind (throw_if (\<not> branchAllowed scope (os_branchId dto)) (sales_error SHIFT_NOT_FOUND 404)) (\<lambda>_.
     ebind (parseVndAmount (os_openingCash dto) True) (\<lambda>openingVnd.
     ebind (vndNumber openingVnd) (\<lambda>openingCash.
     let settings = loadCashSettings (settings_row db) in
     ebind (throw_if (js_lt (maxOpeningFloatVnd settings) (Fin (of_int openingCash)) \<and>
              \<not> truthy (map_option js_trim (os_note dto))) (sales_error OPENING_FLOAT_NOTE_REQUIRED 400)) (\<lambda>_.
     ebind (throw_if (os_branchId dto \<notin> set (active_branches db)) (sales_error UNKNOWN_BRANCH 400)) (\<lambda>_.
     ebind (find_register db dto) (\<lambda>(regId, regCode).
     ebind (throw_if (register_busy db (os_branchId dto) regId regCode \<or> map_get (shifts db) shiftId \<noteq> None)
              (sales_error SHIFT_ALREADY_OPEN 409)) (\<lambda>_.
     let row = new_shift codeText staffId dto regId regCode openingCash now (int_of_num (maxOpenHours settings)) in
       Inr (db\<lparr>shifts := map_set shiftId row (shifts db), outbox := outbox db @ [SALES_SHIFT_OPENED shiftId row]\<rparr>,
            row))))))))"

definition PENDING_STATES :: "string list" where
  "PENDING_STATES = [''PENDING_STOCK'', ''RESERVING'', ''RESERVING_STOCK'', ''STOCK_RESERVED'',
     ''COMMITTING_STOCK'', ''FINALIZING'', ''RECOVERY_PENDING'']"

definition assertNoPendingWork :: "CashDb \<Rightarrow> string \<Rightarrow> bool \<Rightarrow> int \<Rightarrow> unit sales_result" where
  "assertNoPendingWork db shiftId checkDrafts now =
     ebind (throw_if (list_ex (\<lambda>(i, st). i = shiftId \<and> st \<in> set PENDING_STATES) (workflows db))
              (sales_error SHIFT_HAS_PENDING_TRANSACTIONS 409)) (\<lambda>_.
       throw_if (checkDrafts \<and> list_ex (\<lambda>(i, active, expires). i = shiftId \<and> active \<and> expires > now) (drafts db))
         (sales_error SHIFT_HAS_OPEN_DRAFTS 400))"

definition shift_entries :: "CashDb \<Rightarrow> string \<Rightarrow> CashEntry list" where
  "shift_entries db shiftId = filter (\<lambda>e. ce_shiftId e = shiftId) (entries db)"

definition expectedFromEntries :: "CashDb \<Rightarrow> string \<Rightarrow> PosShift \<Rightarrow> int sales_result" where
  "expectedFromEntries db shiftId shift =
     ebind (toMoney (opening_cash shift)) (\<lambda>opening.
     ebind (emap (\<lambda>e. ebind (toMoney (ce_amount e)) (\<lambda>a. Inr (ce_kind e, Fin (of_int a)))) (shift_entries db shiftId)) (\<lambda>es.
       expectedCashFromEntries (Fin (of_int opening)) es))"

definition assertVersion :: "PosShift \<Rightarrow> int option \<Rightarrow> unit sales_result" where
  "assertVersion shift v =
     throw_if (v \<noteq> None \<and> v \<noteq> Some (shift_version shift)) (sales_error RESOURCE_VERSION_CONFLICT 409)"

text \<open>Neither closed nor waiting for approval.\<close>

definition assertCountable :: "PosShift \<Rightarrow> unit sales_result" where
  "assertCountable shift =
     (if status shift = CLOSED then Inl (sales_error SHIFT_ALREADY_CLOSED 409)
      else if status shift = PENDING_APPROVAL then Inl (sales_error APPROVAL_REQUIRED 409)
      else Inr ())"

definition put_shift :: "string \<Rightarrow> PosShift \<Rightarrow> CashDb \<Rightarrow> CashDb" where
  "put_shift shiftId s db = db\<lparr>shifts := map_set shiftId s (shifts db)\<rparr>"

definition countShift ::
    "CashDb \<Rightarrow> string \<Rightarrow> string \<Rightarrow> BranchScope \<Rightarrow> (string \<times> jsnum) list \<Rightarrow> int option \<Rightarrow> int \<Rightarrow>
     (CashDb \<times> int \<times> int \<times> int \<times> CloseDecision) sales_result" where
  "countShift db shiftId actorId scope denoms v now =
     ebind (lockShift db shiftId scope) (\<lambda>shift.
     ebind (assertVersion shift v) (\<lambda>_.
     ebind (assertCountable shift) (\<lambda>_.
     ebind (assertNoPendingWork db shiftId False now) (\<lambda>_.
     let settings = loadCashSettings (settings_row db) in
     ebind (countedTotalFromDenominations denoms (denominations settings)) (\<lambda>counted.
     ebind (expectedFromEntries db shiftId shift) (\<lambda>expected.
     let var = fli (counted - expected);
         updated = shift\<lparr>status := PENDING_CLOSE, counted_by_denomination := Some denoms,
           counted_by := Some actorId, counted_at := Some now, expected_cash := expected,
           actual_cash := Some counted, variance := Some var,
           close_history := close_history shift @ [(''counted'', actorId)],
           shift_version := shift_version shift + 1\<rparr>
     in Inr (put_shift shiftId updated db, counted, expected, var,
          decideShiftClose (Fin (of_int var)) (toleranceVnd settings) (approvalAboveVnd settings))))))))"

text \<open>What a close writes: the count it rests on, the variance and who is responsible.\<close>

record close_base =
  cb_counted :: int
  cb_countedBy :: "string option"
  cb_denominations :: "(string \<times> jsnum) list option"
  cb_expected :: int
  cb_variance :: int
  cb_reason :: "string option"
  cb_note :: "string option"
  cb_closedBy :: string
  cb_approvedBy :: "string option"

definition option_or :: "'a option \<Rightarrow> 'a option \<Rightarrow> 'a option" where
  "option_or a b = (if a = None then b else a)"

definition finalizeClose ::
    "CashDb \<Rightarrow> string \<Rightarrow> PosShift \<Rightarrow> close_base \<Rightarrow> string \<Rightarrow> int \<Rightarrow> (CashDb \<times> PosShift) sales_result" where
  "finalizeClose db shiftId shift p entryId now =
     ebind (if cb_variance p \<noteq> 0
            then ebind (recordCashEntry db
                   \<lparr>in_shiftId = shiftId, in_kind = (if cb_variance p < 0 then CASH_SHORTAGE else CASH_OVERAGE),
                    in_amount = cb_variance p, in_reason = Some (nullish (cb_reason p) ''within_tolerance''),
                    in_note = cb_note p, in_orderId = None, in_returnId = None, in_tenderId = None,
                    in_staffId = cb_countedBy p, in_sourceKey = ''close:'' @ shiftId\<rparr> True entryId now)
                   (\<lambda>(db', e, _). Inr (db', Some e))
            else Inr (db, None)) (\<lambda>(db1, varianceEntryId).
     let closeNote = option_or (cb_note p) (variance_note shift);
         closed = shift\<lparr>status := CLOSED, expected_cash := cb_expected p, actual_cash := Some (cb_counted p),
           variance := Some (cb_variance p), close_note := closeNote, closed_by := Some (cb_closedBy p),
           closed_at := Some now, counted_by := cb_countedBy p,
           counted_by_denomination := cb_denominations p,
           counted_at := option_or (counted_at shift) (Some now), variance_reason := cb_reason p,
           variance_note := closeNote, approved_by := cb_approvedBy p,
           approved_at := (if cb_approvedBy p = None then None else Some now),
           shift_responsibility := Some (responsibility (loadCashSettings (settings_row db))),
           close_history := close_history shift @
             [(if truthy (cb_approvedBy p) then ''approved'' else ''closed'', cb_closedBy p)],
           shift_version := shift_version shift + 1\<rparr>
     in Inr ((put_shift shiftId closed db1)\<lparr>outbox := outbox db1 @ [SALES_SHIFT_CLOSED shiftId closed varianceEntryId]\<rparr>,
             closed))"

record CloseShiftReqDto =
  cs_version :: "int option"
  cs_actualCash :: jsval
  cs_reason :: "string option"
  cs_note :: "string option"

text \<open>The count a close rests on: given now, or taken before.\<close>

definition close_count ::
    "PosShift \<Rightarrow> string \<Rightarrow> CloseShiftReqDto \<Rightarrow> (int \<times> string option \<times> (string \<times> jsnum) list option) sales_result" where
  "close_count shift actorId dto =
     (if cs_actualCash dto \<noteq> Undefined
      then ebind (parseVndAmount (cs_actualCash dto) True) (\<lambda>v. ebind (vndNumber v) (\<lambda>counted.
             Inr (counted, Some actorId, None)))
      else (case actual_cash shift of
              Some c \<Rightarrow>
                (if status shift = PENDING_CLOSE
                 then ebind (toMoney c) (\<lambda>counted. Inr (counted, counted_by shift, counted_by_denomination shift))
                 else Inl (sales_error COUNT_REQUIRED 400))
            | None \<Rightarrow> Inl (sales_error COUNT_REQUIRED 400)))"

definition closeShift ::
    "CashDb \<Rightarrow> string \<Rightarrow> string \<Rightarrow> BranchScope \<Rightarrow> CloseShiftReqDto \<Rightarrow> string \<Rightarrow> int \<Rightarrow> (CashDb \<times> PosShift) sales_result" where
  "closeShift db shiftId actorId scope dto entryId now =
     ebind (lockShift db shiftId scope) (\<lambda>shift.
     ebind (assertVersion shift (cs_version dto)) (\<lambda>_.
     ebind (assertCountable shift) (\<lambda>_.
     ebind (assertNoPendingWork db shiftId True now) (\<lambda>_.
     let settings = loadCashSettings (settings_row db) in
     ebind (close_count shift actorId dto) (\<lambda>(counted, countedBy, denoms).
     ebind (expectedFromEntries db shiftId shift) (\<lambda>expected.
     let var = fli (counted - expected);
         decision = decideShiftClose (Fin (of_int var)) (toleranceVnd settings) (approvalAboveVnd settings);
         reason = cs_reason dto;
         countedBy' = option_or countedBy (Some actorId) in
     ebind (throw_if (decision \<noteq> WITHIN_TOLERANCE \<and> \<not> truthy reason) (sales_error VARIANCE_REASON_REQUIRED 400)) (\<lambda>_.
     if decision = APPROVAL_REQUIRED_DECISION then
       (let updated = shift\<lparr>status := PENDING_APPROVAL, counted_by_denomination := denoms, counted_by := countedBy',
              counted_at := option_or (counted_at shift) (Some now), expected_cash := expected,
              actual_cash := Some counted, variance := Some var, variance_reason := reason,
              variance_note := cs_note dto, close_requested_by := Some actorId, close_requested_at := Some now,
              close_history := close_history shift @ [(''close_requested'', actorId)],
              shift_version := shift_version shift + 1\<rparr>
        in Inr (put_shift shiftId updated db, updated))
     else
       finalizeClose db shiftId shift
         \<lparr>cb_counted = counted, cb_countedBy = countedBy', cb_denominations = denoms, cb_expected = expected,
          cb_variance = var, cb_reason = reason, cb_note = cs_note dto, cb_closedBy = actorId,
          cb_approvedBy = None\<rparr> entryId now)))))))"

definition approveClose ::
    "CashDb \<Rightarrow> string \<Rightarrow> string \<Rightarrow> BranchScope \<Rightarrow> string option \<Rightarrow> string \<Rightarrow> int \<Rightarrow> (CashDb \<times> PosShift) sales_result" where
  "approveClose db shiftId actorId scope note entryId now =
     ebind (lockShift db shiftId scope) (\<lambda>shift.
     if status shift = CLOSED then Inl (sales_error SHIFT_ALREADY_CLOSED 409)
     else if status shift \<noteq> PENDING_APPROVAL then Inl (sales_error SHIFT_NOT_OPEN 409)
     else if counted_by shift = Some actorId \<or> close_requested_by shift = Some actorId
     then Inl (sales_error APPROVER_IS_COUNTER 403)
     else
       ebind (expectedFromEntries db shiftId shift) (\<lambda>expected.
       ebind (case actual_cash shift of None \<Rightarrow> Inl (NativeError ''Error'') | Some c \<Rightarrow> toMoney c) (\<lambda>counted.
         finalizeClose db shiftId shift
           \<lparr>cb_counted = counted, cb_countedBy = counted_by shift, cb_denominations = counted_by_denomination shift,
            cb_expected = expected, cb_variance = fli (counted - expected), cb_reason = variance_reason shift,
            cb_note = option_or note (variance_note shift), cb_closedBy = actorId, cb_approvedBy = Some actorId\<rparr>
           entryId now)))"

definition rejectClose ::
    "CashDb \<Rightarrow> string \<Rightarrow> string \<Rightarrow> BranchScope \<Rightarrow> (CashDb \<times> PosShift) sales_result" where
  "rejectClose db shiftId actorId scope =
     ebind (lockShift db shiftId scope) (\<lambda>shift.
     if status shift = CLOSED then Inl (sales_error SHIFT_ALREADY_CLOSED 409)
     else if status shift = OPEN then Inl (sales_error SHIFT_NOT_OPEN 409)
     else
       ebind (case actual_cash shift of None \<Rightarrow> Inr 0 | Some c \<Rightarrow> toMoney c) (\<lambda>_.
       let updated = shift\<lparr>status := OPEN, counted_by_denomination := None, counted_by := None, counted_at := None,
             actual_cash := None, variance := None, variance_reason := None, variance_note := None,
             close_requested_by := None, close_requested_at := None,
             close_history := close_history shift @ [(''sent_back'', actorId)],
             shift_version := shift_version shift + 1\<rparr>
       in Inr (put_shift shiftId updated db, updated)))"

text \<open>The request is a pay-in or a pay-out of a positive amount; \<open>anyKey\<close> is the drawn key of a request without one.\<close>

definition addCashEntry ::
    "CashDb \<Rightarrow> string \<Rightarrow> string \<Rightarrow> BranchScope \<Rightarrow> string option \<Rightarrow> bool \<Rightarrow> int \<Rightarrow> string \<Rightarrow> string option \<Rightarrow>
     string \<Rightarrow> string \<Rightarrow> int \<Rightarrow> (CashDb \<times> string \<times> bool) sales_result" where
  "addCashEntry db shiftId actorId scope key payIn amt reason note anyKey entryId now =
     ebind (lockShift db shiftId scope) (\<lambda>_.
       recordCashEntry db
         \<lparr>in_shiftId = shiftId, in_kind = (if payIn then PAY_IN else PAY_OUT),
          in_amount = (if payIn then amt else - amt), in_reason = Some (js_trim reason), in_note = note,
          in_orderId = None, in_returnId = None, in_tenderId = None, in_staffId = Some actorId,
          in_sourceKey = (if truthy (map_option js_trim key)
             then ''cash:'' @ shiftId @ '':'' @ take 100 (js_trim (the key)) else ''cash:'' @ anyKey)\<rparr>
         False entryId now)"

definition patchPlannedEnd ::
    "CashDb \<Rightarrow> string \<Rightarrow> BranchScope \<Rightarrow> int \<Rightarrow> (CashDb \<times> PosShift) sales_result" where
  "patchPlannedEnd db shiftId scope plannedEndAt =
     ebind (lockShift db shiftId scope) (\<lambda>shift.
     if status shift \<noteq> OPEN
     then Inl (sales_error (if status shift = CLOSED then SHIFT_CLOSED else SHIFT_NOT_OPEN) 409)
     else let updated = shift\<lparr>planned_end_at := plannedEndAt, shift_version := shift_version shift + 1\<rparr>
          in Inr (put_shift shiftId updated db, updated))"

text \<open>The overdue flag of \<^verbatim>\<open>mapShiftRow\<close>.\<close>

definition shift_overdue :: "PosShift \<Rightarrow> CashSettings \<Rightarrow> int \<Rightarrow> bool" where
  "shift_overdue s settings now \<longleftrightarrow>
     status s \<noteq> CLOSED \<and>
     (now > planned_end_at s \<or> now > opened_at s + int_of_num (maxOpenHours settings) * 3600000)"

section \<open>The life of the tables\<close>

text \<open>
  One committed transaction. \<open>sale\<close> stands for the other services that write to the drawer (checkout, order
  payments, refunds): they write cash sales and refunds under source keys of their own
  (\<^verbatim>\<open>sale:..\<close>, \<^verbatim>\<open>tender:..\<close>, \<^verbatim>\<open>refund:..\<close>). \<open>other\<close> is any change of the tables this service only reads.
\<close>

inductive cash_step :: "CashDb \<Rightarrow> CashDb \<Rightarrow> bool" where
  open': "openShift db staffId scope dto shiftId codeText now = Inr (db', s) \<Longrightarrow> cash_step db db'"
| sale: "in_kind i \<in> {CASH_SALE, CASH_REFUND} \<Longrightarrow> take 6 (in_sourceKey i) \<noteq> ''close:'' \<Longrightarrow>
    recordCashEntry db i False entryId now = Inr (db', r) \<Longrightarrow> cash_step db db'"
| pay: "addCashEntry db shiftId actorId scope key payIn amt reason note anyKey entryId now = Inr (db', r) \<Longrightarrow> cash_step db db'"
| count: "countShift db shiftId actorId scope denoms v now = Inr (db', r) \<Longrightarrow> cash_step db db'"
| close: "closeShift db shiftId actorId scope cdto entryId now = Inr (db', s) \<Longrightarrow> cash_step db db'"
| approve: "approveClose db shiftId actorId scope note entryId now = Inr (db', s) \<Longrightarrow> cash_step db db'"
| reject: "rejectClose db shiftId actorId scope = Inr (db', s) \<Longrightarrow> cash_step db db'"
| patch: "patchPlannedEnd db shiftId scope plannedEnd = Inr (db', s) \<Longrightarrow> cash_step db db'"
| other: "shifts db' = shifts db \<Longrightarrow> entries db' = entries db \<Longrightarrow> cash_step db db'"

inductive cash_reach :: "CashDb \<Rightarrow> CashDb \<Rightarrow> bool" where
  start: "cash_reach db db"
| step: "cash_reach db db1 \<Longrightarrow> cash_step db1 db2 \<Longrightarrow> cash_reach db db2"

section \<open>The invariant\<close>

definition moves :: "CashDb \<Rightarrow> string \<Rightarrow> (CashEntryKind \<times> int) list" where
  "moves db i = map (\<lambda>e. (ce_kind e, ce_amount e)) (shift_entries db i)"

definition kind_sum :: "CashEntryKind \<Rightarrow> (CashEntryKind \<times> int) list \<Rightarrow> int" where
  "kind_sum k es = sum_list (map snd (filter (\<lambda>e. fst e = k) es))"

definition closing_sum :: "(CashEntryKind \<times> int) list \<Rightarrow> int" where
  "closing_sum es = sum_list (map snd (filter (\<lambda>e. fst e \<in> set CLOSING_KINDS) es))"

definition reconciled :: "(CashEntryKind \<times> int) list \<Rightarrow> PosShift \<Rightarrow> bool" where
  "reconciled es s \<longleftrightarrow>
     (\<exists>c. actual_cash s = Some c \<and> variance s = Some (fli (c - expected_cash s)) \<and>
          closing_sum es = fli (c - expected_cash s))"

definition shift_ok :: "(CashEntryKind \<times> int) list \<Rightarrow> PosShift \<Rightarrow> bool" where
  "shift_ok es s \<longleftrightarrow>
     expected_cash s = opening_cash s + drawer_sum es \<and>
     cash_sales_total s = kind_sum CASH_SALE es \<and> cash_refunds_total s = - kind_sum CASH_REFUND es \<and>
     (if status s = CLOSED then reconciled es s else closing_sum es = 0 \<and> approved_by s = None) \<and>
     (\<forall>m. approved_by s = Some m \<longrightarrow> counted_by s \<noteq> Some m \<and> close_requested_by s \<noteq> Some m)"

definition one_per_register :: "CashDb \<Rightarrow> bool" where
  "one_per_register db \<longleftrightarrow>
     (\<forall>i j s t. map_get (shifts db) i = Some s \<and> map_get (shifts db) j = Some t \<and> shift_active s \<and> shift_active t \<and>
        branch_id s = branch_id t \<and> register_code s = register_code t \<longrightarrow> i = j)"

definition close_key :: "CashDb \<Rightarrow> CashEntry \<Rightarrow> bool" where
  "close_key db e \<longleftrightarrow>
     map_get (shifts db) (ce_shiftId e) \<noteq> None \<and>
     (\<forall>i. ce_sourceKey e = ''close:'' @ i \<longrightarrow> (\<exists>s. map_get (shifts db) i = Some s \<and> status s = CLOSED))"

definition cash_ok :: "CashDb \<Rightarrow> bool" where
  "cash_ok db \<longleftrightarrow>
     distinct (map fst (shifts db)) \<and>
     (\<forall>i s. map_get (shifts db) i = Some s \<longrightarrow> shift_ok (moves db i) s) \<and>
     (\<forall>e \<in> set (entries db). close_key db e) \<and> one_per_register db"

lemma sums_append [simp]:
  "kind_sum k (xs @ ys) = kind_sum k xs + kind_sum k ys" "closing_sum (xs @ ys) = closing_sum xs + closing_sum ys"
  by (simp_all add: kind_sum_def closing_sum_def)

lemma sums_single [simp]:
  "kind_sum k [(k', a)] = (if k' = k then a else 0)" "closing_sum [(k', a)] = (if k' \<in> set CLOSING_KINDS then a else 0)"
  "drawer_sum [(k', a)] = (if k' \<in> set CLOSING_KINDS then 0 else a)"
  "kind_sum k [] = 0" "closing_sum [] = 0"
  by (simp_all add: kind_sum_def closing_sum_def drawer_sum_def)

lemma closing_kinds [simp]: "k \<in> set CLOSING_KINDS \<longleftrightarrow> k = CASH_SHORTAGE \<or> k = CASH_OVERAGE"
  by (auto simp: CLOSING_KINDS_def)

lemma shift_active_iff: "shift_active s \<longleftrightarrow> status s \<noteq> CLOSED"
  by (cases "status s") (simp_all add: shift_active_def OPEN_SHIFT_STATUSES_def)

lemma moves_append:
  "entries db' = entries db @ new \<Longrightarrow> \<forall>e \<in> set new. ce_shiftId e = i \<Longrightarrow>
     moves db' j = moves db j @ (if j = i then map (\<lambda>e. (ce_kind e, ce_amount e)) new else [])"
  by (auto simp: moves_def shift_entries_def filter_empty_conv)

lemma moves_cong: "entries db' = entries db \<Longrightarrow> moves db' = moves db"
  by (simp add: moves_def shift_entries_def fun_eq_iff)

text \<open>A transaction that changes one shift that is not closed, and appends entries of that shift.\<close>

lemma cash_ok_update:
  assumes ok: "cash_ok db" and s: "map_get (shifts db) i = Some s" "status s \<noteq> CLOSED"
    and db': "shifts db' = map_set i s' (shifts db)" "entries db' = entries db @ new"
    and new: "\<forall>e \<in> set new. ce_shiftId e = i"
      "\<forall>e \<in> set new. \<forall>j. ce_sourceKey e = ''close:'' @ j \<longrightarrow> j = i \<and> status s' = CLOSED"
    and s': "shift_ok (moves db i @ map (\<lambda>e. (ce_kind e, ce_amount e)) new) s'"
      "branch_id s' = branch_id s" "register_code s' = register_code s"
  shows "cash_ok db'"
proof -
  have get: "map_get (shifts db') j = (if j = i then Some s' else map_get (shifts db) j)" for j
    by (simp add: db'(1))
  have "distinct (map fst (shifts db'))"
    using ok by (simp add: cash_ok_def db'(1) distinct_map_set)
  moreover have "shift_ok (moves db' j) t" if "map_get (shifts db') j = Some t" for j t
    using that ok s'(1) moves_append [OF db'(2) new(1), of j] by (auto simp: get cash_ok_def split: if_splits)
  moreover have "close_key db' e" if "e \<in> set (entries db')" for e
  proof (cases "e \<in> set new")
    case True
    then show ?thesis using new get by (auto simp: close_key_def)
  next
    case False
    then have "close_key db e" using that ok db'(2) by (simp add: cash_ok_def)
    then show ?thesis using s get by (auto simp: close_key_def)
  qed
  moreover have "one_per_register db'"
    unfolding one_per_register_def
  proof (intro allI impI)
    fix a b t u
    assume h: "map_get (shifts db') a = Some t \<and> map_get (shifts db') b = Some u \<and> shift_active t \<and> shift_active u \<and>
      branch_id t = branch_id u \<and> register_code t = register_code u"
    have "\<exists>t'. map_get (shifts db) c = Some t' \<and> shift_active t' \<and> branch_id t' = branch_id w \<and>
        register_code t' = register_code w" if "map_get (shifts db') c = Some w" "shift_active w" for c w
      using that s s'(2,3) get [of c] by (cases "c = i") (auto simp: shift_active_iff)
    then obtain t' u' where "map_get (shifts db) a = Some t'" "shift_active t'" "branch_id t' = branch_id t"
      "register_code t' = register_code t" "map_get (shifts db) b = Some u'" "shift_active u'"
      "branch_id u' = branch_id u" "register_code u' = register_code u"
      using h by meson
    then show "a = b" using ok h unfolding cash_ok_def one_per_register_def by metis
  qed
  ultimately show ?thesis by (simp add: cash_ok_def)
qed

lemma lockShift_ok: "lockShift db i scope = Inr s \<longleftrightarrow> map_get (shifts db) i = Some s \<and> branchAllowed scope (branch_id s)"
  by (auto simp: lockShift_def split: option.splits)

lemma expectedFromEntries_eq:
  assumes "expectedFromEntries db i s = Inr x"
  shows "x = opening_cash s + drawer_sum (moves db i) \<and> \<bar>x\<bar> \<le> max_safe"
proof -
  obtain es where es: "emap (\<lambda>e. ebind (toMoney (ce_amount e)) (\<lambda>a. Inr (ce_kind e, Fin (of_int a)))) (shift_entries db i) =
      (Inr es :: (CashEntryKind \<times> jsnum) list sales_result)" "\<bar>opening_cash s\<bar> \<le> max_safe"
    "expectedCashFromEntries (Fin (of_int (opening_cash s))) es = Inr x"
    using assms by (auto simp: expectedFromEntries_def ok_simps)
  have es': "es = map (\<lambda>(k, a). (k, Fin (of_int a))) (moves db i) \<and> (\<forall>e \<in> set (moves db i). \<bar>snd e\<bar> \<le> max_safe)"
    using es(1) unfolding moves_def emap_Inr_iff
    by (induction rule: list_all2_induct) (auto simp: ok_simps)
  have "0 \<le> opening_cash s"
    using es(3) by (auto simp: expectedCashFromEntries_def ok_simps parseVnd_Num)
  then show ?thesis
    using es(2,3) es' expectedCash_eq [of "opening_cash s" "moves db i"] by (auto simp: vndNumber_iff)
qed

section \<open>Every operation keeps the invariant\<close>

lemma put_shift_fields [simp]:
  "shifts (put_shift i s db) = map_set i s (shifts db)" "entries (put_shift i s db) = entries db"
  "settings_row (put_shift i s db) = settings_row db"
  by (simp_all add: put_shift_def)

lemma shift_totals_fields [simp]:
  "status (shift_totals k a s) = status s" "branch_id (shift_totals k a s) = branch_id s"
  "register_code (shift_totals k a s) = register_code s" "opening_cash (shift_totals k a s) = opening_cash s"
  "approved_by (shift_totals k a s) = approved_by s" "counted_by (shift_totals k a s) = counted_by s"
  "close_requested_by (shift_totals k a s) = close_requested_by s"
  by (simp_all add: shift_totals_def)

lemma record_cases:
  assumes "recordCashEntry db i closing eid now = Inr (db', r)"
  obtains s where "map_get (shifts db) (in_shiftId i) = Some s" "db' = db" "snd r" "\<exists>e \<in> set (entries db). ce_sourceKey e = in_sourceKey i"
  | s where "map_get (shifts db) (in_shiftId i) = Some s" "\<not> closing \<Longrightarrow> status s = OPEN"
    "\<forall>e \<in> set (entries db). ce_sourceKey e \<noteq> in_sourceKey i"
    "entry_check (in_kind i) (in_amount i) (in_reason i)" "r = (eid, False)"
    "db' = db\<lparr>entries := entries db @ [new_entry eid now (branch_id s) i],
       shifts := map_set (in_shiftId i) (shift_totals (in_kind i) (in_amount i) s) (shifts db)\<rparr>"
proof -
  obtain s where s: "map_get (shifts db) (in_shiftId i) = Some s"
    using assms by (auto simp: recordCashEntry_def split: option.splits)
  show thesis
  proof (cases "find (\<lambda>e. ce_sourceKey e = in_sourceKey i) (entries db)")
    case (Some e)
    then have ex: "\<exists>e \<in> set (entries db). ce_sourceKey e = in_sourceKey i" by (auto simp: find_Some_iff)
    show ?thesis using assms s Some by (intro that(1) [OF s _ _ ex]) (auto simp: recordCashEntry_def)
  next
    case None
    then have keys: "\<forall>e \<in> set (entries db). ce_sourceKey e \<noteq> in_sourceKey i" by (auto simp: find_None_iff)
    show ?thesis using assms s None by (intro that(2) [OF s _ keys]) (auto simp: recordCashEntry_def split: if_splits)
  qed
qed

lemma shift_ok_move:
  assumes "shift_ok es s" "status s \<noteq> CLOSED" "k \<notin> set CLOSING_KINDS"
  shows "shift_ok (es @ [(k, a)]) (shift_totals k a s)"
  using assms by (simp add: shift_ok_def shift_totals_def)

lemma record_ok:
  assumes ok: "cash_ok db" and r: "recordCashEntry db i False eid now = Inr (db', r)"
    and i: "in_kind i \<notin> set CLOSING_KINDS" "\<And>j. in_sourceKey i \<noteq> ''close:'' @ j"
  shows "cash_ok db'"
  using r
proof (cases rule: record_cases)
  case (1 s)
  then show ?thesis using ok by simp
next
  case (2 s)
  have "shift_ok (moves db (in_shiftId i)) s" using ok 2(1) by (simp add: cash_ok_def)
  then show ?thesis
    using 2 i by (intro cash_ok_update [OF ok 2(1), where new = "[new_entry eid now (branch_id s) i]"
        and s' = "shift_totals (in_kind i) (in_amount i) s"]) (auto simp: new_entry_def intro!: shift_ok_move)
qed

lemma pay_ok:
  assumes ok: "cash_ok db" and r: "addCashEntry db i actor scope key payIn amt reason note anyKey eid now = Inr (db', r)"
  shows "cash_ok db'"
proof -
  let ?key = "if truthy (map_option js_trim key) then ''cash:'' @ i @ '':'' @ take 100 (js_trim (the key)) else ''cash:'' @ anyKey"
  have "recordCashEntry db \<lparr>in_shiftId = i, in_kind = (if payIn then PAY_IN else PAY_OUT),
      in_amount = (if payIn then amt else - amt), in_reason = Some (js_trim reason), in_note = note,
      in_orderId = None, in_returnId = None, in_tenderId = None, in_staffId = Some actor,
      in_sourceKey = ?key\<rparr> False eid now = Inr (db', r)"
    using r by (auto simp: addCashEntry_def ok_simps)
  then show ?thesis by (rule record_ok [OF ok]) (auto simp: truthy_def)
qed

lemma shift_ok_keep:
  assumes "shift_ok es s" "status s \<noteq> CLOSED" "status s' \<noteq> CLOSED" "opening_cash s' = opening_cash s"
    and "cash_sales_total s' = cash_sales_total s" "cash_refunds_total s' = cash_refunds_total s"
    and "expected_cash s' = expected_cash s" "approved_by s' = approved_by s"
  shows "shift_ok es s'"
  using assms by (simp add: shift_ok_def)

lemma put_ok:
  assumes ok: "cash_ok db" and s: "map_get (shifts db) i = Some s" "status s \<noteq> CLOSED" "status s' \<noteq> CLOSED"
    and "opening_cash s' = opening_cash s" "cash_sales_total s' = cash_sales_total s"
      "cash_refunds_total s' = cash_refunds_total s" "expected_cash s' = expected_cash s" "approved_by s' = approved_by s"
    and b: "branch_id s' = branch_id s" "register_code s' = register_code s"
  shows "cash_ok (put_shift i s' db)"
proof -
  have "shift_ok (moves db i) s" using ok s(1) by (simp add: cash_ok_def)
  then have "shift_ok (moves db i) s'" using assms by (intro shift_ok_keep [of "moves db i" s s'])
  then show ?thesis using b by (intro cash_ok_update [OF ok s(1,2), where new = "[]" and s' = s']) simp_all
qed

text \<open>The expected cash read back from the entries is the one the shift carries.\<close>

lemma expected_is_carried:
  assumes "cash_ok db" "map_get (shifts db) i = Some s" "expectedFromEntries db i s = Inr x"
  shows "x = expected_cash s"
  using assms expectedFromEntries_eq [OF assms(3)] by (simp add: cash_ok_def shift_ok_def)

lemma countable_iff: "assertCountable s = Inr u \<longleftrightarrow> status s = OPEN \<or> status s = PENDING_CLOSE"
  by (cases "status s") (simp_all add: assertCountable_def)

lemma count_ok:
  assumes ok: "cash_ok db" and c: "countShift db i actor scope denoms v now = Inr (db', r)"
  shows "cash_ok db'"
proof -
  obtain s counted x where s: "map_get (shifts db) i = Some s" "status s \<noteq> CLOSED" "expectedFromEntries db i s = Inr x"
    and db': "db' = put_shift i (s\<lparr>status := PENDING_CLOSE, counted_by_denomination := Some denoms,
           counted_by := Some actor, counted_at := Some now, expected_cash := x,
           actual_cash := Some counted, variance := Some (fli (counted - x)),
           close_history := close_history s @ [(''counted'', actor)],
           shift_version := shift_version s + 1\<rparr>) db"
    using c by (auto simp: countShift_def ok_simps Let_def lockShift_ok countable_iff)
  show ?thesis
    unfolding db' using expected_is_carried [OF ok s(1,3)] s(2) by (intro put_ok [OF ok s(1)]) simp_all
qed

lemma reject_ok:
  assumes ok: "cash_ok db" and c: "rejectClose db i actor scope = Inr (db', r)"
  shows "cash_ok db'"
proof -
  obtain s where s: "map_get (shifts db) i = Some s" "status s \<noteq> CLOSED"
    and db': "db' = put_shift i (s\<lparr>status := OPEN, counted_by_denomination := None, counted_by := None, counted_at := None,
             actual_cash := None, variance := None, variance_reason := None, variance_note := None,
             close_requested_by := None, close_requested_at := None,
             close_history := close_history s @ [(''sent_back'', actor)],
             shift_version := shift_version s + 1\<rparr>) db"
    using c by (auto simp: rejectClose_def ok_simps Let_def lockShift_ok split: if_splits)
  show ?thesis
    unfolding db' using s(2) by (intro put_ok [OF ok s(1)]) simp_all
qed

lemma patch_ok:
  assumes ok: "cash_ok db" and c: "patchPlannedEnd db i scope pe = Inr (db', r)"
  shows "cash_ok db'"
proof -
  obtain s where s: "map_get (shifts db) i = Some s" "status s = OPEN"
    and db': "db' = put_shift i (s\<lparr>planned_end_at := pe, shift_version := shift_version s + 1\<rparr>) db"
    using c by (auto simp: patchPlannedEnd_def ok_simps Let_def lockShift_ok split: if_splits)
  show ?thesis
    unfolding db' using s(2) by (intro put_ok [OF ok s(1)]) simp_all
qed

text \<open>What the final step of a close writes.\<close>

definition variance_entry :: "string \<Rightarrow> close_base \<Rightarrow> string \<Rightarrow> int \<Rightarrow> string \<Rightarrow> CashEntry list" where
  "variance_entry i p eid now branch =
     (if cb_variance p = 0 then []
      else [new_entry eid now branch
        \<lparr>in_shiftId = i, in_kind = (if cb_variance p < 0 then CASH_SHORTAGE else CASH_OVERAGE),
         in_amount = cb_variance p, in_reason = Some (nullish (cb_reason p) ''within_tolerance''),
         in_note = cb_note p, in_orderId = None, in_returnId = None, in_tenderId = None,
         in_staffId = cb_countedBy p, in_sourceKey = ''close:'' @ i\<rparr>])"

lemma no_close_key:
  "cash_ok db \<Longrightarrow> map_get (shifts db) i = Some s \<Longrightarrow> status s \<noteq> CLOSED \<Longrightarrow>
     \<forall>e \<in> set (entries db). ce_sourceKey e \<noteq> ''close:'' @ i"
  by (auto simp: cash_ok_def close_key_def)

lemma finalize_effect:
  assumes ok: "cash_ok db" and s: "map_get (shifts db) i = Some s" "status s \<noteq> CLOSED"
    and f: "finalizeClose db i s p eid now = Inr (db', c)"
  shows "shifts db' = map_set i c (shifts db) \<and> entries db' = entries db @ variance_entry i p eid now (branch_id s) \<and>
    status c = CLOSED \<and> expected_cash c = cb_expected p \<and> actual_cash c = Some (cb_counted p) \<and>
    variance c = Some (cb_variance p) \<and> approved_by c = cb_approvedBy p \<and> counted_by c = cb_countedBy p \<and>
    close_requested_by c = close_requested_by s \<and> opening_cash c = opening_cash s \<and>
    cash_sales_total c = cash_sales_total s \<and> cash_refunds_total c = cash_refunds_total s \<and>
    branch_id c = branch_id s \<and> register_code c = register_code s \<and> settings_row db' = settings_row db"
proof (cases "cb_variance p = 0")
  case True
  then show ?thesis using f by (auto simp: finalizeClose_def ok_simps Let_def variance_entry_def)
next
  case False
  obtain db1 e b where r: "recordCashEntry db
     \<lparr>in_shiftId = i, in_kind = (if cb_variance p < 0 then CASH_SHORTAGE else CASH_OVERAGE),
      in_amount = cb_variance p, in_reason = Some (nullish (cb_reason p) ''within_tolerance''),
      in_note = cb_note p, in_orderId = None, in_returnId = None, in_tenderId = None,
      in_staffId = cb_countedBy p, in_sourceKey = ''close:'' @ i\<rparr> True eid now = Inr (db1, e, b)"
    using f False by (auto simp: finalizeClose_def ok_simps Let_def)
  from r have "shifts db1 = map_set i s (shifts db) \<and> settings_row db1 = settings_row db \<and>
      entries db1 = entries db @ variance_entry i p eid now (branch_id s)"
    by (cases rule: record_cases)
      (use no_close_key [OF ok s] s(1) False in \<open>auto simp: variance_entry_def shift_totals_def\<close>)
  then show ?thesis using f False r by (auto simp: finalizeClose_def Let_def)
qed

lemma closing_move: "closing_sum (map (\<lambda>e. (ce_kind e, ce_amount e)) (variance_entry i p eid now b)) = cb_variance p"
    "drawer_sum (map (\<lambda>e. (ce_kind e, ce_amount e)) (variance_entry i p eid now b)) = 0"
    "kind_sum CASH_SALE (map (\<lambda>e. (ce_kind e, ce_amount e)) (variance_entry i p eid now b)) = 0"
    "kind_sum CASH_REFUND (map (\<lambda>e. (ce_kind e, ce_amount e)) (variance_entry i p eid now b)) = 0"
  by (simp_all add: variance_entry_def new_entry_def)

lemma finalize_ok:
  assumes ok: "cash_ok db" and s: "map_get (shifts db) i = Some s" "status s \<noteq> CLOSED"
    and f: "finalizeClose db i s p eid now = Inr (db', c)"
    and p: "cb_expected p = expected_cash s" "cb_variance p = fli (cb_counted p - cb_expected p)"
      "\<And>m. cb_approvedBy p = Some m \<Longrightarrow> cb_countedBy p \<noteq> Some m \<and> close_requested_by s \<noteq> Some m"
  shows "cash_ok db'"
proof -
  note c = finalize_effect [OF ok s f]
  have "shift_ok (moves db i) s" using ok s(1) by (simp add: cash_ok_def)
  then have "shift_ok (moves db i @ map (\<lambda>e. (ce_kind e, ce_amount e)) (variance_entry i p eid now (branch_id s))) c"
    using c s(2) p by (simp add: shift_ok_def reconciled_def closing_move)
  then show ?thesis
    using c by (intro cash_ok_update [OF ok s, where s' = c and new = "variance_entry i p eid now (branch_id s)"])
      (auto simp: variance_entry_def new_entry_def)
qed

lemma close_cases:
  assumes "closeShift db i actor scope dto eid now = Inr (db', r)"
  obtains (wait) s counted cb denoms x where "map_get (shifts db) i = Some s" "status s \<noteq> CLOSED"
    "expectedFromEntries db i s = Inr x" "r = s\<lparr>status := PENDING_APPROVAL, counted_by_denomination := denoms,
       counted_by := option_or cb (Some actor), counted_at := option_or (counted_at s) (Some now), expected_cash := x,
       actual_cash := Some counted, variance := Some (fli (counted - x)), variance_reason := cs_reason dto,
       variance_note := cs_note dto, close_requested_by := Some actor, close_requested_at := Some now,
       close_history := close_history s @ [(''close_requested'', actor)], shift_version := shift_version s + 1\<rparr>"
    "db' = put_shift i r db"
  | (final) s counted cb denoms x where "map_get (shifts db) i = Some s" "status s \<noteq> CLOSED"
    "expectedFromEntries db i s = Inr x"
    "finalizeClose db i s
         \<lparr>cb_counted = counted, cb_countedBy = option_or cb (Some actor), cb_denominations = denoms, cb_expected = x,
          cb_variance = fli (counted - x), cb_reason = cs_reason dto, cb_note = cs_note dto, cb_closedBy = actor,
          cb_approvedBy = None\<rparr> eid now = Inr (db', r)"
    "decideShiftClose (Fin (of_int (fli (counted - x)))) (toleranceVnd (loadCashSettings (settings_row db)))
       (approvalAboveVnd (loadCashSettings (settings_row db))) \<noteq> APPROVAL_REQUIRED_DECISION"
proof -
  obtain s where s: "map_get (shifts db) i = Some s" "status s \<noteq> CLOSED"
    using assms by (auto simp: closeShift_def ok_simps lockShift_ok countable_iff)
  obtain counted cb denoms x where x: "expectedFromEntries db i s = Inr x" "close_count s actor dto = Inr (counted, cb, denoms)"
    using assms s by (auto simp: closeShift_def ok_simps Let_def lockShift_ok)
  let ?d = "decideShiftClose (Fin (of_int (fli (counted - x)))) (toleranceVnd (loadCashSettings (settings_row db)))
       (approvalAboveVnd (loadCashSettings (settings_row db)))"
  show thesis
  proof (cases "?d = APPROVAL_REQUIRED_DECISION")
    case True
    then show ?thesis
      using assms s x wait [OF s x(1)] by (auto simp: closeShift_def ok_simps Let_def lockShift_ok)
  next
    case False
    then show ?thesis
      using assms s x final [OF s x(1) _ False] by (auto simp: closeShift_def ok_simps Let_def lockShift_ok)
  qed
qed

lemma close_ok:
  assumes ok: "cash_ok db" and c: "closeShift db i actor scope dto eid now = Inr (db', r)"
  shows "cash_ok db'"
  using c
proof (cases rule: close_cases)
  case (wait s counted cb denoms x)
  then show ?thesis
    using expected_is_carried [OF ok wait(1,3)] by (auto intro!: put_ok [OF ok wait(1)])
next
  case (final s counted cb denoms x)
  then show ?thesis
    using expected_is_carried [OF ok final(1,3)] by (intro finalize_ok [OF ok final(1,2,4)]) simp_all
qed

lemma approve_cases:
  assumes "approveClose db i actor scope note eid now = Inr (db', r)"
  obtains s counted x where "map_get (shifts db) i = Some s" "status s = PENDING_APPROVAL"
    "counted_by s \<noteq> Some actor" "close_requested_by s \<noteq> Some actor" "expectedFromEntries db i s = Inr x"
    "finalizeClose db i s
         \<lparr>cb_counted = counted, cb_countedBy = counted_by s, cb_denominations = counted_by_denomination s, cb_expected = x,
          cb_variance = fli (counted - x), cb_reason = variance_reason s, cb_note = option_or note (variance_note s),
          cb_closedBy = actor, cb_approvedBy = Some actor\<rparr> eid now = Inr (db', r)"
  using assms by (auto simp: approveClose_def ok_simps Let_def lockShift_ok split: if_splits)

lemma approve_ok:
  assumes ok: "cash_ok db" and c: "approveClose db i actor scope note eid now = Inr (db', r)"
  shows "cash_ok db'"
  using c
proof (cases rule: approve_cases)
  case (1 s counted x)
  have "status s \<noteq> CLOSED" using 1(2) by simp
  then show ?thesis
    using expected_is_carried [OF ok 1(1,5)] 1(3,4) by (intro finalize_ok [OF ok 1(1) _ 1(6)]) simp_all
qed

lemma open_ok:
  assumes ok: "cash_ok db" and c: "openShift db staff scope dto i codeText now = Inr (db', r)"
  shows "cash_ok db'"
proof -
  obtain regId regCode n h where new: "map_get (shifts db) i = None" "\<not> register_busy db (os_branchId dto) regId regCode"
    and r: "r = new_shift codeText staff dto regId regCode n now h"
    and db': "shifts db' = map_set i r (shifts db)" "entries db' = entries db"
    using c by (auto simp: openShift_def ok_simps Let_def)
  have get: "map_get (shifts db') j = (if j = i then Some r else map_get (shifts db) j)" for j by (simp add: db')
  have none: "moves db i = []"
    using ok new(1) by (auto simp: moves_def shift_entries_def cash_ok_def close_key_def filter_empty_conv)
  have "distinct (map fst (shifts db'))" using ok by (simp add: cash_ok_def db' distinct_map_set)
  moreover have "shift_ok (moves db' j) t" if "map_get (shifts db') j = Some t" for j t
    using that ok none by (auto simp: get moves_cong [OF db'(2)] cash_ok_def shift_ok_def r new_shift_def split: if_splits)
  moreover have "close_key db' e" if "e \<in> set (entries db')" for e
  proof -
    have "close_key db e" using that ok db' by (simp add: cash_ok_def)
    then show ?thesis using new(1) get by (auto simp: close_key_def)
  qed
  moreover have "one_per_register db'"
  proof -
    have free: "\<not> (branch_id s = branch_id r \<and> shift_active s \<and> register_code s = register_code r)"
      if "map_get (shifts db) j = Some s" for j s
      using new(2) map_get_in_set [OF that] by (auto simp: register_busy_def list_ex_iff r new_shift_def)
    show ?thesis
      using ok free get unfolding one_per_register_def cash_ok_def by (metis option.inject)
  qed
  ultimately show ?thesis by (simp add: cash_ok_def)
qed

lemma cash_step_ok:
  assumes "cash_step db db'" "cash_ok db"
  shows "cash_ok db'"
  using assms
proof (cases rule: cash_step.cases)
  case (sale i eid now r)
  then show ?thesis using assms(2) by (intro record_ok [OF assms(2) sale(3)]) auto
next
  case other
  then show ?thesis
    using assms(2) unfolding cash_ok_def one_per_register_def close_key_def moves_cong [OF other(2)] other by blast
qed (rule open_ok [OF assms(2)] pay_ok [OF assms(2)] count_ok [OF assms(2)] close_ok [OF assms(2)]
    approve_ok [OF assms(2)] reject_ok [OF assms(2)] patch_ok [OF assms(2)], assumption)+

lemma cash_reach_ok: "cash_reach db0 db \<Longrightarrow> cash_ok db0 \<Longrightarrow> cash_ok db"
  by (induction rule: cash_reach.induct) (auto intro: cash_step_ok)

section \<open>Closed shifts\<close>

lemma sum_split: "sum_list (map ce_amount (shift_entries db i)) = drawer_sum (moves db i) + closing_sum (moves db i)"
proof -
  have "sum_list (map ce_amount es) = drawer_sum (map (\<lambda>e. (ce_kind e, ce_amount e)) es) +
      closing_sum (map (\<lambda>e. (ce_kind e, ce_amount e)) es)" for es
    by (induction es) (simp_all add: drawer_sum_def closing_sum_def)
  then show ?thesis by (simp add: moves_def)
qed

definition keeps_closed :: "CashDb \<Rightarrow> CashDb \<Rightarrow> bool" where
  "keeps_closed db db' \<longleftrightarrow>
     (\<forall>i s. map_get (shifts db) i = Some s \<and> status s = CLOSED \<longrightarrow>
        map_get (shifts db') i = Some s \<and> shift_entries db' i = shift_entries db i)"

lemma keeps_closed_update:
  assumes "\<And>s. map_get (shifts db) i = Some s \<Longrightarrow> status s \<noteq> CLOSED"
    and "shifts db' = map_set i s' (shifts db)" "entries db' = entries db @ new" "\<forall>e \<in> set new. ce_shiftId e = i"
  shows "keeps_closed db db'"
  using assms by (auto simp: keeps_closed_def shift_entries_def filter_empty_conv)

lemma record_keeps_closed:
  assumes "recordCashEntry db i False eid now = Inr (db', r)"
  shows "keeps_closed db db'"
  using assms
proof (cases rule: record_cases)
  case (1 s)
  then show ?thesis by (simp add: keeps_closed_def)
next
  case (2 s)
  then show ?thesis
    by (intro keeps_closed_update [where i = "in_shiftId i" and new = "[new_entry eid now (branch_id s) i]"])
      (auto simp: new_entry_def)
qed

lemma put_keeps_closed:
  assumes "map_get (shifts db) i = Some s" "status s \<noteq> CLOSED"
  shows "keeps_closed db (put_shift i s' db)"
  using assms by (intro keeps_closed_update [where i = i and new = "[]"]) auto

lemma finalize_keeps_closed:
  assumes "cash_ok db" "map_get (shifts db) i = Some s" "status s \<noteq> CLOSED" "finalizeClose db i s p eid now = Inr (db', c)"
  shows "keeps_closed db db'"
  using finalize_effect [OF assms] assms(2,3)
  by (intro keeps_closed_update [where i = i and s' = c and new = "variance_entry i p eid now (branch_id s)"])
    (auto simp: variance_entry_def new_entry_def)

lemma step_keeps_closed:
  assumes ok: "cash_ok db" and "cash_step db db'"
  shows "keeps_closed db db'"
  using assms(2)
proof (cases rule: cash_step.cases)
  case (open' staffId scope dto shiftId codeText now s)
  then have "map_get (shifts db) shiftId = None" "shifts db' = map_set shiftId s (shifts db)" "entries db' = entries db"
    by (auto simp: openShift_def ok_simps Let_def)
  then show ?thesis by (intro keeps_closed_update [where new = "[]"]) auto
next
  case (sale i entryId now r)
  then show ?thesis using record_keeps_closed by blast
next
  case (pay shiftId actorId scope key payIn amt reason nt anyKey entryId now r)
  then show ?thesis by (auto simp: addCashEntry_def ok_simps intro: record_keeps_closed)
next
  case (count shiftId actorId scope denoms v now r)
  then show ?thesis
    by (auto simp: countShift_def ok_simps Let_def lockShift_ok countable_iff intro!: put_keeps_closed)
next
  case (close shiftId actorId scope cdto entryId now s)
  then show ?thesis
    by (cases rule: close_cases) (auto intro: put_keeps_closed finalize_keeps_closed [OF ok])
next
  case (approve shiftId actorId scope nt entryId now s)
  then show ?thesis
    by (cases rule: approve_cases) (auto intro: finalize_keeps_closed [OF ok])
next
  case (reject shiftId actorId scope s)
  then show ?thesis
    by (auto simp: rejectClose_def ok_simps Let_def lockShift_ok intro!: put_keeps_closed split: if_splits)
next
  case (patch shiftId scope plannedEnd s)
  then show ?thesis
    by (auto simp: patchPlannedEnd_def ok_simps Let_def lockShift_ok intro!: put_keeps_closed split: if_splits)
next
  case other
  then show ?thesis by (simp add: keeps_closed_def shift_entries_def)
qed

section \<open>A day at the register\<close>

definition empty_db :: "string list \<Rightarrow> CashDb" where
  "empty_db branches = \<lparr>shifts = [], entries = [], settings_row = None, active_branches = branches, registers = [],
     workflows = [], drafts = [], outbox = []\<rparr>"

lemma empty_db_ok: "cash_ok (empty_db bs)"
  by (simp add: cash_ok_def empty_db_def one_per_register_def)

definition day_open :: "(CashDb \<times> PosShift) sales_result" where
  "day_open = openShift (empty_db [''b1'']) ''ann'' None
     \<lparr>os_branchId = ''b1'', os_registerCode = None, os_registerId = None, os_openingCash = num_arg 100000, os_note = None\<rparr>
     ''s1'' ''CA1'' 0"

definition day_sale :: "(CashDb \<times> string \<times> bool) sales_result" where
  "day_sale = recordCashEntry (fst (projr day_open))
     \<lparr>in_shiftId = ''s1'', in_kind = CASH_SALE, in_amount = 450000, in_reason = None, in_note = None,
      in_orderId = Some ''o1'', in_returnId = None, in_tenderId = None, in_staffId = Some ''ann'',
      in_sourceKey = ''sale:o1''\<rparr> False ''e1'' 10"

definition day_count :: "(CashDb \<times> int \<times> int \<times> int \<times> CloseDecision) sales_result" where
  "day_count = countShift (fst (projr day_sale)) ''s1'' ''ann'' None [(''500000'', Fin 1)] None 20"

definition day_close :: "(CashDb \<times> PosShift) sales_result" where
  "day_close = closeShift (fst (projr day_count)) ''s1'' ''ann'' None
     \<lparr>cs_version = None, cs_actualCash = Undefined, cs_reason = Some ''miscounted_change'', cs_note = None\<rparr> ''e2'' 30"

definition day_approve :: "(CashDb \<times> PosShift) sales_result" where
  "day_approve = approveClose (fst (projr day_close)) ''s1'' ''bob'' None None ''e2'' 40"

lemmas day_defs = day_open_def day_sale_def day_count_def day_close_def day_approve_def

lemma ok_projr: "is_ok m \<Longrightarrow> m = Inr (fst (projr m), snd (projr m))"
  by (cases m) simp_all

lemma day_ok: "is_ok day_open" "is_ok day_sale" "is_ok day_count" "is_ok day_close" "is_ok day_approve"
  by code_simp+

lemma day_steps:
  "cash_step (empty_db [''b1'']) (fst (projr day_open))"
  "cash_step (fst (projr day_open)) (fst (projr day_sale))"
  "cash_step (fst (projr day_sale)) (fst (projr day_count))"
  "cash_step (fst (projr day_count)) (fst (projr day_close))"
  "cash_step (fst (projr day_close)) (fst (projr day_approve))"
proof -
  show "cash_step (empty_db [''b1'']) (fst (projr day_open))"
    using ok_projr [OF day_ok(1)] by (subst (asm) (1) day_open_def) (rule cash_step.open')
  show "cash_step (fst (projr day_open)) (fst (projr day_sale))"
    using ok_projr [OF day_ok(2)] by (subst (asm) (1) day_sale_def) (rule cash_step.sale [rotated 2], assumption, simp_all)
  show "cash_step (fst (projr day_sale)) (fst (projr day_count))"
    using ok_projr [OF day_ok(3)] by (subst (asm) (1) day_count_def) (rule cash_step.count)
  show "cash_step (fst (projr day_count)) (fst (projr day_close))"
    using ok_projr [OF day_ok(4)] by (subst (asm) (1) day_close_def) (rule cash_step.close)
  show "cash_step (fst (projr day_close)) (fst (projr day_approve))"
    using ok_projr [OF day_ok(5)] by (subst (asm) (1) day_approve_def) (rule cash_step.approve)
qed

lemma day_reach:
  "cash_reach (empty_db [''b1'']) (fst (projr day_close))"
  "cash_reach (empty_db [''b1'']) (fst (projr day_approve))"
  by (meson cash_reach.intros day_steps)+

section \<open>Who closes a shift\<close>







section \<open>Properties\<close>

text \<open>
C2: the totals of a cash shift are the totals of its ledger: after any sequence of transactions, the expected cash of a
shift is its opening float plus every signed entry other than the closing ones, its cash sales are the sum of
its sale entries and its refunds the sum of its refund entries.
\<close>

theorem cash_ledger_balanced:
  assumes "cash_reach (empty_db branches) db" and "map_get (shifts db) i = Some s"
  shows "expected_cash s = opening_cash s +
      sum_list (map ce_amount (filter (\<lambda>e. ce_kind e \<notin> {CASH_SHORTAGE, CASH_OVERAGE}) (shift_entries db i))) \<and>
    cash_sales_total s = sum_list (map ce_amount (filter (\<lambda>e. ce_kind e = CASH_SALE) (shift_entries db i))) \<and>
    cash_refunds_total s = - sum_list (map ce_amount (filter (\<lambda>e. ce_kind e = CASH_REFUND) (shift_entries db i)))"
proof -
  have "shift_ok (moves db i) s"
    using cash_reach_ok [OF assms(1) empty_db_ok] assms(2) by (simp add: cash_ok_def)
  then show ?thesis
    by (simp add: shift_ok_def drawer_sum_def kind_sum_def moves_def filter_map comp_def)
qed

theorem cash_ledger_balanced_witness:
  "\<exists>db s. cash_reach (empty_db [''b1'']) db \<and> map_get (shifts db) ''s1'' = Some s \<and>
     expected_cash s = opening_cash s +
       sum_list (map ce_amount (filter (\<lambda>e. ce_kind e \<notin> {CASH_SHORTAGE, CASH_OVERAGE}) (shift_entries db ''s1'')))"
proof -
  have "map_get (shifts (fst (projr day_close))) ''s1'' \<noteq> None" by code_simp
  then obtain s where s: "map_get (shifts (fst (projr day_close))) ''s1'' = Some s" by blast
  show ?thesis using cash_ledger_balanced [OF day_reach(1) s] day_reach(1) s by blast
qed

text \<open>
C32: a closed shift reconciles: it records the counted cash and a variance that is the counted cash less the
expected cash, and with the shortage or overage entry that the close wrote, the opening float plus all its
entries is exactly the counted cash (for amounts a double holds exactly).
\<close>

theorem closed_shift_reconciles:
  assumes "cash_reach (empty_db branches) db" and "map_get (shifts db) i = Some s" and "status s = CLOSED"
  shows "\<exists>counted. actual_cash s = Some counted \<and> variance s = Some (fli (counted - expected_cash s)) \<and>
    (\<bar>counted - expected_cash s\<bar> \<le> 2 ^ 53 \<longrightarrow>
       opening_cash s + sum_list (map ce_amount (shift_entries db i)) = counted)"
proof -
  have ok: "shift_ok (moves db i) s"
    using cash_reach_ok [OF assms(1) empty_db_ok] assms(2) by (simp add: cash_ok_def)
  then have "reconciled (moves db i) s" using assms(3) by (simp add: shift_ok_def)
  then show ?thesis
    using ok unfolding reconciled_def shift_ok_def sum_split by auto
qed

theorem closed_shift_reconciles_witness:
  "\<exists>db s. cash_reach (empty_db [''b1'']) db \<and> map_get (shifts db) ''s1'' = Some s \<and> status s = CLOSED \<and>
     (\<exists>counted. actual_cash s = Some counted \<and> variance s = Some (fli (counted - expected_cash s)))"
proof -
  have "(case map_get (shifts (fst (projr day_approve))) ''s1'' of Some s \<Rightarrow> status s = CLOSED | None \<Rightarrow> False)"
    by code_simp
  then obtain s where s: "map_get (shifts (fst (projr day_approve))) ''s1'' = Some s" "status s = CLOSED"
    by (auto split: option.splits)
  show ?thesis using closed_shift_reconciles [OF day_reach(2) s] day_reach(2) s by blast
qed

text \<open>
A closed shift is final: no later transaction changes its row or adds an entry to its ledger.
\<close>

theorem closed_shift_final:
  assumes "cash_reach (empty_db branches) db" and "map_get (shifts db) i = Some s" and "status s = CLOSED"
    and "cash_reach db db'"
  shows "map_get (shifts db') i = Some s \<and> shift_entries db' i = shift_entries db i"
proof -
  have "cash_ok db" using cash_reach_ok [OF assms(1) empty_db_ok] .
  with assms(4,2) show ?thesis
  proof (induction rule: cash_reach.induct)
    case (step db db1 db2)
    then have "cash_ok db1" using cash_reach_ok by blast
    then have "keeps_closed db1 db2" using step.hyps(2) step_keeps_closed by blast
    then show ?case using step.IH step.prems assms(3) by (simp add: keeps_closed_def)
  qed simp
qed

theorem closed_shift_final_witness:
  "\<exists>s. map_get (shifts (fst (projr day_approve))) ''s1'' = Some s \<and> status s = CLOSED \<and>
    (\<forall>db'. cash_reach (fst (projr day_approve)) db' \<longrightarrow> map_get (shifts db') ''s1'' = Some s)"
proof -
  have "(case map_get (shifts (fst (projr day_approve))) ''s1'' of Some s \<Rightarrow> status s = CLOSED | None \<Rightarrow> False)"
    by code_simp
  then obtain s where s: "map_get (shifts (fst (projr day_approve))) ''s1'' = Some s" "status s = CLOSED"
    by (auto split: option.splits)
  show ?thesis using closed_shift_final [OF day_reach(2) s] s by blast
qed



text \<open>
A register has one cash drawer: however shifts are opened, counted, sent back and closed, two shifts that are not
closed never share a branch and register code.
\<close>

theorem one_open_shift_per_register:
  assumes "cash_reach (empty_db branches) db"
    and "map_get (shifts db) i = Some s" and "map_get (shifts db) j = Some t"
    and "status s \<noteq> CLOSED" and "status t \<noteq> CLOSED"
    and "branch_id s = branch_id t" and "register_code s = register_code t"
  shows "i = j"
  using cash_reach_ok [OF assms(1) empty_db_ok] assms(2-)
  unfolding cash_ok_def one_per_register_def shift_active_iff by blast

theorem one_open_shift_per_register_witness:
  "\<exists>s. map_get (shifts (fst (projr day_close))) ''s1'' = Some s \<and> status s \<noteq> CLOSED \<and>
     (\<forall>j t. map_get (shifts (fst (projr day_close))) j = Some t \<and> status t \<noteq> CLOSED \<and> branch_id s = branch_id t \<and>
        register_code s = register_code t \<longrightarrow> ''s1'' = j)"
proof -
  have "(case map_get (shifts (fst (projr day_close))) ''s1'' of Some s \<Rightarrow> status s \<noteq> CLOSED | None \<Rightarrow> False)"
    by code_simp
  then obtain s where s: "map_get (shifts (fst (projr day_close))) ''s1'' = Some s" "status s \<noteq> CLOSED"
    by (auto split: option.splits)
  show ?thesis
    using one_open_shift_per_register [OF day_reach(1) s(1) _ s(2)] s by blast
qed

text \<open>
A cash movement is recorded once: after an entry was written, every retry with the same source key returns that
entry and changes nothing, also after the shift was closed; and an entry is accepted only while its shift is open.
\<close>

theorem cash_entry_recorded_once:
  assumes "recordCashEntry db input False entryId now = Inr (db1, eid, False)"
    and "entries db2 = entries db1 @ later" and "map_get (shifts db2) (in_shiftId input) \<noteq> None"
  shows "recordCashEntry db2 input closing entryId' now' = Inr (db2, eid, True) \<and>
    (\<exists>s. map_get (shifts db) (in_shiftId input) = Some s \<and> status s = OPEN)"
  using assms(1)
proof (cases rule: record_cases)
  case (1 s)
  then show ?thesis by simp
next
  case (2 s)
  have "find (\<lambda>e. ce_sourceKey e = in_sourceKey input) (entries db) = None"
    using 2(3) by (auto simp: find_None_iff)
  then have "find (\<lambda>e. ce_sourceKey e = in_sourceKey input) (entries db2) =
      Some (new_entry entryId now (branch_id s) input)"
    using assms(2) 2(6) by (simp add: find_append new_entry_def)
  then show ?thesis
    using assms(3) 2 by (auto simp: recordCashEntry_def new_entry_def)
qed

theorem cash_entry_recorded_once_witness:
  "recordCashEntry (fst (projr day_sale))
     \<lparr>in_shiftId = ''s1'', in_kind = CASH_SALE, in_amount = 450000, in_reason = None, in_note = None,
      in_orderId = Some ''o1'', in_returnId = None, in_tenderId = None, in_staffId = Some ''ann'',
      in_sourceKey = ''sale:o1''\<rparr> False ''e9'' 99 = Inr (fst (projr day_sale), ''e1'', True)"
proof -
  have p: "snd (projr day_sale) = (''e1'', False)" "map_get (shifts (fst (projr day_sale))) ''s1'' \<noteq> None"
    by code_simp+
  have d: "day_sale = Inr (fst (projr day_sale), ''e1'', False)" using ok_projr [OF day_ok(2)] p(1) by simp
  have r: "recordCashEntry (fst (projr day_open))
     \<lparr>in_shiftId = ''s1'', in_kind = CASH_SALE, in_amount = 450000, in_reason = None, in_note = None,
      in_orderId = Some ''o1'', in_returnId = None, in_tenderId = None, in_staffId = Some ''ann'',
      in_sourceKey = ''sale:o1''\<rparr> False ''e1'' 10 = Inr (fst (projr day_sale), ''e1'', False)"
    using d by (subst (asm) (1) day_sale_def)
  show ?thesis
    using cash_entry_recorded_once [OF r, of "fst (projr day_sale)" "[]"] p(2) by simp
qed

end
