(* ===== verification/FinanceDomain.thy ===== *)
theory FinanceDomain
  imports JsString
begin

text \<open>
  The domain layer of the finance service (\<^verbatim>\<open>apps/finance/src/domain/finance-domain.ts\<close>): money validation, the
  chart of accounts, balanced journals, credit authorization, payment allocation, refunds, cash on
  delivery, shift reconciliation and the separation of maker and checker. Money is a JavaScript number that holds an
  integer; sums are rounded to a double (\<open>fli\<close>), which is exact up to \<open>2 ^ 53\<close>.
\<close>

datatype (plugins only: code) FinanceDomainErrorCode =
    FINANCIAL_ACCOUNT_NOT_FOUND | FINANCIAL_ACCOUNT_INACTIVE | CASH_ACCOUNT_NOT_FOUND
  | CASH_ACCOUNT_INACTIVE | CASH_ACCOUNT_CODE_CONFLICT | CASHBOOK_CATEGORY_NOT_FOUND
  | CASHBOOK_ENTRY_NOT_FOUND | CASHBOOK_ENTRY_ALREADY_POSTED | CASHBOOK_ENTRY_INVALID_STATE
  | JOURNAL_NOT_BALANCED | JOURNAL_NOT_FOUND | JOURNAL_ALREADY_POSTED | POSTING_ALREADY_REVERSED
  | RECEIVABLE_NOT_FOUND | RECEIVABLE_INVALID_STATE | PAYMENT_ALLOCATION_EXCEEDED
  | CUSTOMER_CREDIT_LIMIT_EXCEEDED | CREDIT_AUTHORIZATION_NOT_FOUND
  | CREDIT_AUTHORIZATION_INVALID_STATE | PAYABLE_NOT_FOUND | PAYABLE_INVALID_STATE
  | SUPPLIER_PAYMENT_EXCEEDED | SETTLEMENT_NOT_FOUND | SETTLEMENT_AMOUNT_MISMATCH
  | SETTLEMENT_RECONCILIATION_REQUIRED | REFUND_NOT_FOUND | REFUND_NOT_ELIGIBLE
  | REFUND_AMOUNT_EXCEEDED | REFUND_OUTCOME_UNKNOWN | REFUND_INVALID_STATE
  | COD_RECEIVABLE_NOT_FOUND | COD_SETTLEMENT_NOT_FOUND | COD_SETTLEMENT_DUPLICATE
  | COD_SETTLEMENT_MISMATCH | SHIFT_RECONCILIATION_NOT_FOUND | ADJUSTMENT_NOT_FOUND
  | ADJUSTMENT_INVALID_STATE | MAKER_CHECKER_VIOLATION | IDEMPOTENCY_CONFLICT
  | RESOURCE_VERSION_CONFLICT | TENANT_ACCESS_DENIED | PERMISSION_DENIED | VALIDATION_ERROR

type_synonym 'a fin_result = "(FinanceDomainErrorCode, 'a) result"

abbreviation fin_error :: "FinanceDomainErrorCode \<Rightarrow> nat \<Rightarrow> FinanceDomainErrorCode err" where
  "fin_error \<equiv> DomainError"

definition DEFAULT_CUSTOMER_CREDIT_LIMIT_VND :: int where
  "DEFAULT_CUSTOMER_CREDIT_LIMIT_VND = 2000000"

definition MAX_MONETARY_VND :: int where
  "MAX_MONETARY_VND = max_safe"

section \<open>Money, codes and masks\<close>

text \<open>The options are the two flags; the number is returned as the integer it denotes.\<close>

definition parseVnd :: "jsval \<Rightarrow> bool \<Rightarrow> bool \<Rightarrow> int fin_result" where
  "parseVnd raw allowZero allowNegative =
     (case raw of
        Num x \<Rightarrow>
          (if \<not> is_safe_integer x then Inl (fin_error VALIDATION_ERROR 422)
           else if js_lt x (Fin 0) \<and> \<not> allowNegative then Inl (fin_error VALIDATION_ERROR 422)
           else if js_eq x (Fin 0) \<and> \<not> allowZero then Inl (fin_error VALIDATION_ERROR 422)
           else Inr (int_of_num x))
      | _ \<Rightarrow> Inl (fin_error VALIDATION_ERROR 422))"

definition finance_code_char :: "char \<Rightarrow> bool" where
  "finance_code_char c \<longleftrightarrow> is_upper c \<or> is_digit c \<or> c = CHR ''_'' \<or> c = CHR ''-''"

definition normalizeFinanceCode :: "string option \<Rightarrow> string fin_result" where
  "normalizeFinanceCode raw =
     (let cleaned = js_upper (js_trim (case raw of None \<Rightarrow> [] | Some s \<Rightarrow> s))
      in if cleaned = [] \<or> \<not> (list_all finance_code_char cleaned \<and> 2 \<le> length cleaned \<and> length cleaned \<le> 64)
         then Inl (fin_error VALIDATION_ERROR 422) else Inr cleaned)"

definition maskBankAccountNumber :: "string option \<Rightarrow> string option" where
  "maskBankAccountNumber raw =
     (if \<not> truthy raw then None
      else let trimmed = filter (\<lambda>c. \<not> is_space c) (js_trim (the raw))
           in if length trimmed \<le> 4 then Some ''****''
              else Some (replicate (min 8 (length trimmed - 4)) CHR ''*'' @ drop (length trimmed - 4) trimmed))"

section \<open>Chart of accounts\<close>

datatype AccountType = ASSET | LIABILITY | EQUITY | REVENUE | CONTRA_REVENUE | EXPENSE

datatype NormalSide = DEBIT | CREDIT

text \<open>Display names are not modelled.\<close>

record StandardFinancialAccountSpec =
  ac_code :: string
  ac_type :: AccountType
  ac_side :: NormalSide

definition GL_ACCOUNT_CODES :: "(string \<times> string) list" where
  "GL_ACCOUNT_CODES = [(''CASH_ON_HAND'', ''1110''), (''CASH_AT_BANK'', ''1120''),
     (''ACCOUNTS_RECEIVABLE'', ''1310''), (''COD_CARRIER_RECEIVABLE'', ''1315''),
     (''PAYMENT_CLEARING'', ''1388''), (''INVENTORY_PURCHASE_CLEARING'', ''1560''),
     (''CUSTOMER_PREPAYMENT'', ''3315''), (''ACCOUNTS_PAYABLE'', ''3310''),
     (''SALES_REVENUE_CLEARING'', ''5110''), (''SALES_RETURN_REFUND'', ''5210''),
     (''CARRIER_FEE_EXPENSE'', ''6410''), (''OPERATING_EXPENSE'', ''6420''),
     (''OTHER_INCOME'', ''7110''), (''CASH_VARIANCE'', ''8110'')]"

definition gl :: "string \<Rightarrow> string" where
  "gl name = the (map_of GL_ACCOUNT_CODES name)"

definition account :: "string \<Rightarrow> AccountType \<Rightarrow> NormalSide \<Rightarrow> StandardFinancialAccountSpec" where
  "account name t s = \<lparr>ac_code = gl name, ac_type = t, ac_side = s\<rparr>"

definition DEFAULT_FINANCE_ACCOUNTS :: "StandardFinancialAccountSpec list" where
  "DEFAULT_FINANCE_ACCOUNTS =
     [account ''CASH_ON_HAND'' ASSET DEBIT, account ''CASH_AT_BANK'' ASSET DEBIT,
      account ''ACCOUNTS_RECEIVABLE'' ASSET DEBIT, account ''COD_CARRIER_RECEIVABLE'' ASSET DEBIT,
      account ''PAYMENT_CLEARING'' ASSET DEBIT, account ''INVENTORY_PURCHASE_CLEARING'' ASSET DEBIT,
      account ''CUSTOMER_PREPAYMENT'' LIABILITY CREDIT, account ''ACCOUNTS_PAYABLE'' LIABILITY CREDIT,
      account ''SALES_REVENUE_CLEARING'' REVENUE CREDIT, account ''SALES_RETURN_REFUND'' CONTRA_REVENUE DEBIT,
      account ''CARRIER_FEE_EXPENSE'' EXPENSE DEBIT, account ''OPERATING_EXPENSE'' EXPENSE DEBIT,
      account ''OTHER_INCOME'' REVENUE CREDIT, account ''CASH_VARIANCE'' EXPENSE DEBIT]"

datatype CashDirection = RECEIPT | EXPENSE_DIRECTION

record StandardCashbookCategorySpec =
  cat_code :: string
  cat_direction :: CashDirection
  cat_glAccountCode :: string

definition category :: "string \<Rightarrow> CashDirection \<Rightarrow> string \<Rightarrow> StandardCashbookCategorySpec" where
  "category c d n = \<lparr>cat_code = c, cat_direction = d, cat_glAccountCode = gl n\<rparr>"

definition DEFAULT_CASHBOOK_CATEGORIES :: "StandardCashbookCategorySpec list" where
  "DEFAULT_CASHBOOK_CATEGORIES =
     [category ''SALES_RECEIPT'' RECEIPT ''SALES_REVENUE_CLEARING'',
      category ''DEBT_COLLECTION'' RECEIPT ''ACCOUNTS_RECEIVABLE'',
      category ''COD_SETTLEMENT_RECEIPT'' RECEIPT ''COD_CARRIER_RECEIVABLE'',
      category ''OTHER_RECEIPT'' RECEIPT ''OTHER_INCOME'',
      category ''SUPPLIER_PAYMENT'' EXPENSE_DIRECTION ''ACCOUNTS_PAYABLE'',
      category ''CUSTOMER_REFUND'' EXPENSE_DIRECTION ''SALES_RETURN_REFUND'',
      category ''OPERATING_EXPENSE'' EXPENSE_DIRECTION ''OPERATING_EXPENSE'']"

section \<open>Journals\<close>

datatype PartyType = CUSTOMER | SUPPLIER | CARRIER

record JournalLineInput =
  jl_accountCode :: "string option"
  jl_debitAmount :: jsval
  jl_creditAmount :: jsval
  jl_branchId :: "string option"
  jl_partyType :: "PartyType option"
  jl_partyId :: "string option"
  jl_referenceType :: "string option"
  jl_referenceId :: "string option"
  jl_memo :: "string option"

text \<open>The amounts are stored twice in the code (\<^verbatim>\<open>debitAmount\<close> and \<^verbatim>\<open>debitVnd\<close>); here once.\<close>

record ValidatedJournalLine =
  vj_lineNo :: nat
  vj_accountCode :: string
  vj_debit :: int
  vj_credit :: int
  vj_branchId :: "string option"
  vj_partyType :: "PartyType option"
  vj_partyId :: "string option"
  vj_referenceType :: "string option"
  vj_referenceId :: "string option"
  vj_memo :: "string option"

record ValidatedJournalResult =
  vr_totalDebit :: int
  vr_totalCredit :: int
  vr_lines :: "ValidatedJournalLine list"

definition or_zero :: "jsval \<Rightarrow> jsval" where
  "or_zero v = (if v = Undefined \<or> v = Null then Num (Fin 0) else v)"

definition journal_line :: "nat \<Rightarrow> JournalLineInput \<Rightarrow> ValidatedJournalLine fin_result" where
  "journal_line i line =
     (let accountCode = js_upper (js_trim (case jl_accountCode line of None \<Rightarrow> [] | Some s \<Rightarrow> s)) in
      ebind (throw_if (accountCode = []) (fin_error VALIDATION_ERROR 422)) (\<lambda>_.
      ebind (parseVnd (or_zero (jl_debitAmount line)) True False) (\<lambda>debitVnd.
      ebind (parseVnd (or_zero (jl_creditAmount line)) True False) (\<lambda>creditVnd.
      ebind (throw_if ((debitVnd = 0 \<and> creditVnd = 0) \<or> (debitVnd > 0 \<and> creditVnd > 0))
               (fin_error JOURNAL_NOT_BALANCED 422)) (\<lambda>_.
        Inr \<lparr>vj_lineNo = i + 1, vj_accountCode = accountCode, vj_debit = debitVnd, vj_credit = creditVnd,
             vj_branchId = jl_branchId line, vj_partyType = jl_partyType line, vj_partyId = jl_partyId line,
             vj_referenceType = jl_referenceType line, vj_referenceId = jl_referenceId line,
             vj_memo = jl_memo line\<rparr>)))))"

text \<open>A running total of numbers, each addition rounded to a double.\<close>

definition js_total :: "int list \<Rightarrow> int" where
  "js_total xs = foldl (\<lambda>t x. fli (t + x)) 0 xs"

definition validateBalancedJournalLines :: "JournalLineInput list \<Rightarrow> ValidatedJournalResult fin_result" where
  "validateBalancedJournalLines lines =
     ebind (throw_if (length lines < 2) (fin_error JOURNAL_NOT_BALANCED 422)) (\<lambda>_.
     ebind (emapi journal_line 0 lines) (\<lambda>validated.
     let totalDebitVnd = js_total (map vj_debit validated); totalCreditVnd = js_total (map vj_credit validated) in
     ebind (throw_if (totalDebitVnd \<le> 0 \<or> totalDebitVnd \<noteq> totalCreditVnd) (fin_error JOURNAL_NOT_BALANCED 422)) (\<lambda>_.
       Inr \<lparr>vr_totalDebit = totalDebitVnd, vr_totalCredit = totalCreditVnd, vr_lines = validated\<rparr>)))"

section \<open>Credit authorization\<close>

record CreditAuthorizationEvaluationInput =
  ci_creditLimit :: jsnum
  ci_postedDebt :: jsnum
  ci_heldCredit :: jsnum
  ci_requestedAmount :: jsnum
  ci_overrideApprovedBy :: "string option"

record CreditAuthorizationEvaluationResult =
  ca_creditLimit :: int
  ca_postedDebt :: int
  ca_heldCreditBefore :: int
  ca_availableCreditBefore :: int
  ca_requestedAmount :: int
  ca_heldCreditAfter :: int
  ca_availableCreditAfter :: int
  ca_isOverride :: bool

definition available_credit :: "int \<Rightarrow> int \<Rightarrow> int \<Rightarrow> int" where
  "available_credit limit posted held =
     (if limit > fli (posted + held) then fli (fli (limit - posted) - held) else 0)"

definition evaluateCreditAuthorization ::
    "CreditAuthorizationEvaluationInput \<Rightarrow> CreditAuthorizationEvaluationResult fin_result" where
  "evaluateCreditAuthorization input =
     ebind (parseVnd (Num (ci_creditLimit input)) True False) (\<lambda>limitVnd.
     ebind (parseVnd (Num (ci_postedDebt input)) True False) (\<lambda>postedVnd.
     ebind (parseVnd (Num (ci_heldCredit input)) True False) (\<lambda>heldVnd.
     ebind (parseVnd (Num (ci_requestedAmount input)) False False) (\<lambda>reqVnd.
     let availableBefore = available_credit limitVnd postedVnd heldVnd;
         isOverride = (case ci_overrideApprovedBy input of None \<Rightarrow> False | Some s \<Rightarrow> js_trim s \<noteq> []) in
     ebind (throw_if (reqVnd > availableBefore \<and> \<not> isOverride) (fin_error CUSTOMER_CREDIT_LIMIT_EXCEEDED 409)) (\<lambda>_.
     let heldAfter = fli (heldVnd + reqVnd) in
       Inr \<lparr>ca_creditLimit = limitVnd, ca_postedDebt = postedVnd, ca_heldCreditBefore = heldVnd,
            ca_availableCreditBefore = availableBefore, ca_requestedAmount = reqVnd, ca_heldCreditAfter = heldAfter,
            ca_availableCreditAfter = available_credit limitVnd postedVnd heldAfter, ca_isOverride = isOverride\<rparr>)))))"

section \<open>Payment allocation\<close>

record OpenObligationSnapshot =
  ob_id :: string
  ob_code :: string
  ob_originalAmount :: jsnum
  ob_paidAmount :: jsnum
  ob_adjustedAmount :: jsnum
  ob_outstandingAmount :: jsnum

record RequestedAllocationLine =
  ra_documentId :: string
  ra_amount :: jsnum

datatype AllocationStatus = PARTIALLY_PAID | PAID

record CalculatedAllocationLine =
  al_documentId :: string
  al_code :: string
  al_allocatedAmount :: int
  al_paidAmountAfter :: int
  al_outstandingBefore :: int
  al_outstandingAfter :: int
  al_statusAfter :: AllocationStatus

record CalculatedPaymentAllocationResult =
  pa_paymentAmount :: int
  pa_totalAllocated :: int
  pa_overpaymentAmount :: int
  pa_allocations :: "CalculatedAllocationLine list"

datatype OverpaymentPolicy = REJECT | PREPAYMENT

datatype AllocationKind = RECEIVABLE | PAYABLE

definition allocation_error :: "AllocationKind \<Rightarrow> FinanceDomainErrorCode" where
  "allocation_error k = (case k of RECEIVABLE \<Rightarrow> PAYMENT_ALLOCATION_EXCEEDED | PAYABLE \<Rightarrow> SUPPLIER_PAYMENT_EXCEEDED)"

definition not_found_error :: "AllocationKind \<Rightarrow> FinanceDomainErrorCode" where
  "not_found_error k = (case k of RECEIVABLE \<Rightarrow> RECEIVABLE_NOT_FOUND | PAYABLE \<Rightarrow> PAYABLE_NOT_FOUND)"

definition allocation_line :: "OpenObligationSnapshot \<Rightarrow> int \<Rightarrow> int \<Rightarrow> int \<Rightarrow> CalculatedAllocationLine" where
  "allocation_line doc allocVnd outBeforeVnd paidBeforeVnd =
     (let outAfterVnd = fli (outBeforeVnd - allocVnd) in
      \<lparr>al_documentId = ob_id doc, al_code = ob_code doc, al_allocatedAmount = allocVnd,
       al_paidAmountAfter = fli (paidBeforeVnd + allocVnd), al_outstandingBefore = outBeforeVnd,
       al_outstandingAfter = outAfterVnd, al_statusAfter = (if outAfterVnd = 0 then PAID else PARTIALLY_PAID)\<rparr>)"

definition doc_map :: "OpenObligationSnapshot list \<Rightarrow> (string, OpenObligationSnapshot) jsmap" where
  "doc_map docs = fold (\<lambda>d m. map_set (ob_id d) d m) docs []"

text \<open>The loop over explicit allocations: documents seen, total and lines so far.\<close>

definition explicit_step ::
    "AllocationKind \<Rightarrow> (string, OpenObligationSnapshot) jsmap \<Rightarrow> RequestedAllocationLine \<Rightarrow>
     string list \<times> int \<times> CalculatedAllocationLine list \<Rightarrow> (string list \<times> int \<times> CalculatedAllocationLine list) fin_result" where
  "explicit_step kind docMap req s =
     (case s of (seen, totalAllocated, allocations) \<Rightarrow>
        if ra_documentId req \<in> set seen then Inl (fin_error VALIDATION_ERROR 422)
        else (case map_get docMap (ra_documentId req) of
            None \<Rightarrow> Inl (fin_error (not_found_error kind) 404)
          | Some doc \<Rightarrow>
              ebind (parseVnd (Num (ra_amount req)) False False) (\<lambda>allocVnd.
              ebind (parseVnd (Num (ob_outstandingAmount doc)) True False) (\<lambda>outBeforeVnd.
              ebind (parseVnd (Num (ob_paidAmount doc)) True False) (\<lambda>paidBeforeVnd.
                if allocVnd > outBeforeVnd then Inl (fin_error (allocation_error kind) 409)
                else Inr (ra_documentId req # seen, fli (totalAllocated + allocVnd),
                          allocations @ [allocation_line doc allocVnd outBeforeVnd paidBeforeVnd]))))))"

text \<open>First in, first out: \<^verbatim>\<open>break\<close> when nothing remains, \<^verbatim>\<open>continue\<close> past a settled document.\<close>

fun fifo_loop ::
    "OpenObligationSnapshot list \<Rightarrow> int \<Rightarrow> int \<Rightarrow> CalculatedAllocationLine list \<Rightarrow>
     (int \<times> CalculatedAllocationLine list) fin_result" where
  "fifo_loop [] remaining totalAllocated allocations = Inr (totalAllocated, allocations)"
| "fifo_loop (doc # docs) remaining totalAllocated allocations =
     (if remaining \<le> 0 then Inr (totalAllocated, allocations)
      else
        ebind (parseVnd (Num (ob_outstandingAmount doc)) True False) (\<lambda>outBeforeVnd.
        if outBeforeVnd \<le> 0 then fifo_loop docs remaining totalAllocated allocations
        else
          ebind (parseVnd (Num (ob_paidAmount doc)) True False) (\<lambda>paidBeforeVnd.
          let allocVnd = (if remaining \<le> outBeforeVnd then remaining else outBeforeVnd) in
            fifo_loop docs (fli (remaining - allocVnd)) (fli (totalAllocated + allocVnd))
              (allocations @ [allocation_line doc allocVnd outBeforeVnd paidBeforeVnd]))))"

definition calculateDocumentAllocations ::
    "jsnum \<Rightarrow> OpenObligationSnapshot list \<Rightarrow> RequestedAllocationLine list \<Rightarrow> OverpaymentPolicy \<Rightarrow> AllocationKind \<Rightarrow>
     CalculatedPaymentAllocationResult fin_result" where
  "calculateDocumentAllocations paymentAmountRaw openDocuments explicitAllocations overpaymentPolicy kind =
     ebind (parseVnd (Num paymentAmountRaw) False False) (\<lambda>paymentVnd.
     ebind (if explicitAllocations \<noteq> []
            then ebind (efold (explicit_step kind (doc_map openDocuments)) explicitAllocations ([], 0, [])) (\<lambda>s. Inr (snd s))
            else fifo_loop openDocuments paymentVnd 0 []) (\<lambda>(totalAllocatedVnd, allocations).
     ebind (throw_if (totalAllocatedVnd > paymentVnd) (fin_error (allocation_error kind) 409)) (\<lambda>_.
     let overpaymentVnd = fli (paymentVnd - totalAllocatedVnd) in
     ebind (throw_if (overpaymentVnd > 0 \<and> overpaymentPolicy = REJECT) (fin_error (allocation_error kind) 409)) (\<lambda>_.
       Inr \<lparr>pa_paymentAmount = paymentVnd, pa_totalAllocated = totalAllocatedVnd,
            pa_overpaymentAmount = overpaymentVnd, pa_allocations = allocations\<rparr>))))"

section \<open>Refunds, cash on delivery, shifts, separation of duties\<close>

record RefundEligibilityResult =
  re_originalPaidAmount :: int
  re_alreadyRefundedAmount :: int
  re_remainingRefundableBefore :: int
  re_requestedRefundAmount :: int
  re_remainingRefundableAfter :: int

definition validateRefundAllocation :: "jsnum \<Rightarrow> jsnum \<Rightarrow> jsnum \<Rightarrow> RefundEligibilityResult fin_result" where
  "validateRefundAllocation originalPaidAmount alreadyRefundedAmount requestedRefundAmount =
     ebind (parseVnd (Num originalPaidAmount) False False) (\<lambda>paidVnd.
     ebind (parseVnd (Num alreadyRefundedAmount) True False) (\<lambda>refundedVnd.
     ebind (parseVnd (Num requestedRefundAmount) False False) (\<lambda>reqVnd.
     let remainingBefore = (if paidVnd > refundedVnd then fli (paidVnd - refundedVnd) else 0) in
     ebind (throw_if (reqVnd > remainingBefore) (fin_error REFUND_AMOUNT_EXCEEDED 409)) (\<lambda>_.
       Inr \<lparr>re_originalPaidAmount = paidVnd, re_alreadyRefundedAmount = refundedVnd,
            re_remainingRefundableBefore = remainingBefore, re_requestedRefundAmount = reqVnd,
            re_remainingRefundableAfter = fli (remainingBefore - reqVnd)\<rparr>))))"

text \<open>The reasons of a discrepancy carry the numbers the code prints into the text.\<close>

datatype CodReason = GrossMismatch int int | StatementMath int int int | NetDiscrepancy int

datatype CodStatus = MATCHED | DISCREPANCY

record CodSettlementLineEvaluationResult =
  cod_expectedGrossCod :: int
  cod_reportedGrossCod :: int
  cod_carrierFee :: int
  cod_expectedNetPayout :: int
  cod_reportedNetPayout :: int
  cod_discrepancyAmount :: int
  cod_status :: CodStatus
  cod_reasons :: "CodReason list"

definition evaluateCodSettlementLine ::
    "jsnum \<Rightarrow> jsnum \<Rightarrow> jsnum \<Rightarrow> jsnum \<Rightarrow> CodSettlementLineEvaluationResult fin_result" where
  "evaluateCodSettlementLine expectedGrossCod reportedGrossCod carrierFee reportedNetPayout =
     ebind (parseVnd (Num expectedGrossCod) False False) (\<lambda>expectedGrossVnd.
     ebind (parseVnd (Num reportedGrossCod) True False) (\<lambda>reportedGrossVnd.
     ebind (parseVnd (Num carrierFee) True False) (\<lambda>feeVnd.
     ebind (parseVnd (Num reportedNetPayout) True True) (\<lambda>reportedNetVnd.
     let expectedNetVnd = fli (expectedGrossVnd - feeVnd);
         discrepancyVnd = fli (reportedNetVnd - expectedNetVnd);
         reasons1 = (if reportedGrossVnd \<noteq> expectedGrossVnd then [GrossMismatch reportedGrossVnd expectedGrossVnd] else []);
         reasons2 = reasons1 @ (if fli (reportedGrossVnd - feeVnd) \<noteq> reportedNetVnd
           then [StatementMath reportedGrossVnd feeVnd reportedNetVnd] else []);
         reasons = (if discrepancyVnd \<noteq> 0 \<and> reasons2 = [] then [NetDiscrepancy discrepancyVnd] else reasons2) in
       Inr \<lparr>cod_expectedGrossCod = expectedGrossVnd, cod_reportedGrossCod = reportedGrossVnd, cod_carrierFee = feeVnd,
            cod_expectedNetPayout = expectedNetVnd, cod_reportedNetPayout = reportedNetVnd,
            cod_discrepancyAmount = discrepancyVnd, cod_status = (if reasons = [] then MATCHED else DISCREPANCY),
            cod_reasons = reasons\<rparr>))))"

record ShiftCashEvaluationInput =
  si_openingCash :: jsval
  si_confirmedCashSales :: jsval
  si_confirmedCashRefunds :: jsval
  si_otherCashReceipts :: jsval
  si_otherCashExpenses :: jsval
  si_actualCountedCash :: jsval

datatype ReconciliationStatus = RECONCILED | VARIANCE_DETECTED

record ShiftCashEvaluationResult =
  se_openingCash :: int
  se_confirmedCashSales :: int
  se_confirmedCashRefunds :: int
  se_otherCashReceipts :: int
  se_otherCashExpenses :: int
  se_expectedClosingCash :: int
  se_actualCountedCash :: int
  se_varianceAmount :: int
  se_status :: ReconciliationStatus

definition evaluateShiftCashReconciliation :: "ShiftCashEvaluationInput \<Rightarrow> ShiftCashEvaluationResult fin_result" where
  "evaluateShiftCashReconciliation input =
     ebind (parseVnd (si_openingCash input) True False) (\<lambda>opening.
     ebind (parseVnd (si_confirmedCashSales input) True False) (\<lambda>sales.
     ebind (parseVnd (si_confirmedCashRefunds input) True False) (\<lambda>refunds.
     ebind (parseVnd (or_zero (si_otherCashReceipts input)) True False) (\<lambda>otherIn.
     ebind (parseVnd (or_zero (si_otherCashExpenses input)) True False) (\<lambda>otherOut.
     ebind (parseVnd (si_actualCountedCash input) True False) (\<lambda>actual.
     let expected = fli (fli (fli (fli (opening + sales) - refunds) + otherIn) - otherOut);
         variance = fli (actual - expected) in
       Inr \<lparr>se_openingCash = opening, se_confirmedCashSales = sales, se_confirmedCashRefunds = refunds,
            se_otherCashReceipts = otherIn, se_otherCashExpenses = otherOut, se_expectedClosingCash = expected,
            se_actualCountedCash = actual, se_varianceAmount = variance,
            se_status = (if variance = 0 then RECONCILED else VARIANCE_DETECTED)\<rparr>))))))"

definition assertMakerCheckerSeparation :: "string \<Rightarrow> string \<Rightarrow> unit fin_result" where
  "assertMakerCheckerSeparation requestedBy approvedBy =
     (if requestedBy = [] \<or> approvedBy = [] then Inl (fin_error VALIDATION_ERROR 422)
      else if js_trim requestedBy = js_trim approvedBy then Inl (fin_error MAKER_CHECKER_VIOLATION 403)
      else Inr ())"

section \<open>Money and sums\<close>

lemma finVnd_Num: "parseVnd (Num x) z n = Inr v \<longleftrightarrow>
    is_safe_integer x \<and> v = int_of_num x \<and> (n \<or> 0 \<le> v) \<and> (z \<or> v \<noteq> 0)"
  by (auto simp: parseVnd_def js_eq_def int_of_num_def elim!: is_safe_integerE)

lemma finVnd_bounds: "parseVnd r z n = Inr v \<Longrightarrow> \<bar>v\<bar> \<le> max_safe \<and> (n \<or> 0 \<le> v) \<and> (z \<or> v \<noteq> 0)"
  by (cases r) (auto simp: finVnd_Num int_of_num_safe, auto simp: parseVnd_def)

lemma finVnd_num_arg: "parseVnd (Num (Fin (of_int v))) z n = Inr w \<longleftrightarrow>
    w = v \<and> \<bar>v\<bar> \<le> max_safe \<and> (n \<or> 0 \<le> v) \<and> (z \<or> v \<noteq> 0)"
  by (auto simp: finVnd_Num)

lemmas money_bounds = finVnd_bounds [THEN conjunct1]

lemma safe_exact: "\<bar>n\<bar> \<le> max_safe \<Longrightarrow> fli n = n"
  using max_safe_lt by (intro fli_exact) linarith

lemma diff_exact: "0 \<le> a \<Longrightarrow> a \<le> max_safe \<Longrightarrow> 0 \<le> b \<Longrightarrow> b \<le> max_safe \<Longrightarrow> fli (a - b) = a - b"
  by (intro safe_exact) linarith

text \<open>A running total below \<open>2 ^ 53\<close> is exact, and a sum that fits is computed exactly.\<close>

lemma js_total_ge: "2 ^ 53 \<le> t \<Longrightarrow> \<forall>x \<in> set xs. 0 \<le> x \<Longrightarrow> 2 ^ 53 \<le> foldl (\<lambda>t x. fli (t + x)) t xs"
proof (induction xs arbitrary: t)
  case (Cons x xs)
  have "2 ^ 53 \<le> fli (t + x)" using Cons.prems by (intro fli_lower) simp_all
  then show ?case using Cons by simp
qed simp

lemma js_total_acc:
  "0 \<le> t \<Longrightarrow> t \<le> 2 ^ 53 \<Longrightarrow> \<forall>x \<in> set xs. 0 \<le> x \<Longrightarrow>
     (t + sum_list xs \<le> 2 ^ 53 \<longrightarrow> foldl (\<lambda>t x. fli (t + x)) t xs = t + sum_list xs) \<and>
     (2 ^ 53 < t + sum_list xs \<longrightarrow> 2 ^ 53 \<le> foldl (\<lambda>t x. fli (t + x)) t xs)"
proof (induction xs arbitrary: t)
  case (Cons x xs)
  have nn: "0 \<le> x" "\<forall>x \<in> set xs. 0 \<le> x" "0 \<le> sum_list xs" using Cons.prems by (auto intro: sum_list_nonneg)
  show ?case
  proof (cases "t + x \<le> 2 ^ 53")
    case True
    then have "fli (t + x) = t + x" using Cons.prems(1) nn(1) by (intro fli_exact) simp
    then show ?thesis using Cons.IH [of "t + x"] True Cons.prems(1) nn by (simp add: add.assoc)
  next
    case False
    then have "2 ^ 53 \<le> fli (t + x)" by (intro fli_lower) simp_all
    then have "2 ^ 53 \<le> foldl (\<lambda>t x. fli (t + x)) (fli (t + x)) xs" by (rule js_total_ge [OF _ nn(2)])
    then show ?thesis using False nn(3) by simp
  qed
qed simp

lemma js_total_exact: "\<forall>x \<in> set xs. 0 \<le> x \<Longrightarrow> js_total xs < 2 ^ 53 \<Longrightarrow> js_total xs = sum_list xs"
  using js_total_acc [of 0 xs] unfolding js_total_def by (cases "sum_list xs \<le> 2 ^ 53") auto

lemma js_total_fits: "\<forall>x \<in> set xs. 0 \<le> x \<Longrightarrow> sum_list xs \<le> 2 ^ 53 \<Longrightarrow> js_total xs = sum_list xs"
  using js_total_acc [of 0 xs] by (simp add: js_total_def)

section \<open>Journals\<close>

lemma journal_line_ok:
  assumes "journal_line i l = Inr v"
  shows "0 \<le> vj_debit v \<and> 0 \<le> vj_credit v \<and> (vj_debit v = 0) \<noteq> (vj_credit v = 0) \<and> vj_accountCode v \<noteq> [] \<and> vj_lineNo v = i + 1"
  using assms by (auto simp: journal_line_def ok_simps Let_def dest!: finVnd_bounds)

lemma journalE:
  assumes "validateBalancedJournalLines ls = Inr r"
  obtains "emapi journal_line 0 ls = Inr (vr_lines r)" "2 \<le> length ls"
    "vr_totalDebit r = js_total (map vj_debit (vr_lines r))" "vr_totalCredit r = js_total (map vj_credit (vr_lines r))"
    "0 < vr_totalDebit r" "vr_totalDebit r = vr_totalCredit r"
  using assms by (auto simp: validateBalancedJournalLines_def ok_simps Let_def)

lemma journal_lines_ok:
  assumes "emapi journal_line 0 ls = Inr vs" "v \<in> set vs"
  shows "0 \<le> vj_debit v \<and> 0 \<le> vj_credit v \<and> (vj_debit v = 0) \<noteq> (vj_credit v = 0) \<and> vj_accountCode v \<noteq> []"
proof -
  obtain k where "k < length vs" "v = vs ! k" using assms(2) by (auto simp: in_set_conv_nth)
  then show ?thesis using assms(1) journal_line_ok [of k "ls ! k" v] by (auto simp: emapi_Inr_iff)
qed

section \<open>Credit\<close>

lemma available_credit_exact:
  assumes "0 \<le> limit" "limit \<le> max_safe" "0 \<le> posted" "posted \<le> max_safe" "0 \<le> held"
  shows "available_credit limit posted held = max 0 (limit - posted - held)"
proof (cases "posted + held < 2 ^ 53")
  case True
  then have "fli (posted + held) = posted + held" using assms by (intro fli_exact) simp
  moreover have "fli (limit - posted) = limit - posted" using assms by (intro diff_exact)
  moreover have "fli (limit - posted - held) = limit - posted - held" if "posted + held < limit"
    using that assms by (intro safe_exact) linarith
  ultimately show ?thesis by (simp add: available_credit_def)
next
  case False
  then have "2 ^ 53 \<le> fli (posted + held)" by (intro fli_lower) simp_all
  then have "\<not> limit > fli (posted + held)" using assms(2) max_safe_lt by linarith
  moreover have "limit - posted - held \<le> 0" using False assms(2) max_safe_lt by linarith
  ultimately show ?thesis by (simp add: available_credit_def)
qed

section \<open>Allocation\<close>

definition alloc_ok :: "CalculatedAllocationLine \<Rightarrow> bool" where
  "alloc_ok a \<longleftrightarrow>
     0 < al_allocatedAmount a \<and> al_allocatedAmount a \<le> al_outstandingBefore a \<and>
     al_outstandingAfter a = al_outstandingBefore a - al_allocatedAmount a \<and> al_outstandingBefore a \<le> max_safe \<and>
     (al_statusAfter a = PAID \<longleftrightarrow> al_outstandingAfter a = 0)"

lemma allocation_line_ok:
  assumes "0 < a" "a \<le> out" "out \<le> max_safe"
  shows "alloc_ok (allocation_line doc a out paid)"
  using assms diff_exact [of out a] by (simp add: alloc_ok_def allocation_line_def Let_def)

definition alloc_total :: "CalculatedAllocationLine list \<Rightarrow> int" where
  "alloc_total as = js_total (map al_allocatedAmount as)"

lemma alloc_total_snoc [simp]:
  "alloc_total (as @ [a]) = fli (alloc_total as + al_allocatedAmount a)" "alloc_total [] = 0"
  by (simp_all add: alloc_total_def js_total_def)

lemma allocation_line_fields [simp]:
  "al_allocatedAmount (allocation_line d a out paid) = a" "al_documentId (allocation_line d a out paid) = ob_id d"
  "al_outstandingBefore (allocation_line d a out paid) = out"
  by (simp_all add: allocation_line_def Let_def)

definition exp_ok :: "string list \<times> int \<times> CalculatedAllocationLine list \<Rightarrow> bool" where
  "exp_ok s \<longleftrightarrow>
     (case s of (seen, t, as) \<Rightarrow> t = alloc_total as \<and> list_all alloc_ok as \<and> distinct seen \<and>
        map al_documentId as = rev seen)"

lemma doc_map_key: "map_get (doc_map docs) k = Some d \<Longrightarrow> ob_id d = k"
  by (auto simp: doc_map_def map_get_fold_set split: option.splits dest!: find_SomeD)

lemma explicit_step_ok:
  assumes "exp_ok s" "explicit_step kind (doc_map docs) req s = Inr s'"
  shows "exp_ok s'"
proof -
  obtain seen t as where s: "s = (seen, t, as)" by (cases s)
  obtain doc a out paid where h: "ra_documentId req \<notin> set seen" "map_get (doc_map docs) (ra_documentId req) = Some doc"
    "parseVnd (Num (ra_amount req)) False False = Inr a" "parseVnd (Num (ob_outstandingAmount doc)) True False = Inr out"
    "a \<le> out" "s' = (ra_documentId req # seen, fli (t + a), as @ [allocation_line doc a out paid])"
    using assms(2) by (auto simp: explicit_step_def s ok_simps split: if_splits option.splits)
  have "0 < a" "out \<le> max_safe" using finVnd_bounds [OF h(3)] finVnd_bounds [OF h(4)] by auto
  then show ?thesis
    using assms(1) h allocation_line_ok [of a out doc paid] doc_map_key [OF h(2)] by (auto simp: exp_ok_def s)
qed

lemma fifo_ok:
  assumes "fifo_loop docs rem t as = Inr (t', as')" "t = alloc_total as" "list_all alloc_ok as"
    and "0 \<le> rem" "rem \<le> max_safe"
  shows "t' = alloc_total as' \<and> list_all alloc_ok as'"
  using assms
proof (induction docs arbitrary: rem t as)
  case (Cons doc docs)
  show ?case
  proof (cases "rem \<le> 0")
    case False
    then obtain out where out: "parseVnd (Num (ob_outstandingAmount doc)) True False = Inr out"
      using Cons.prems(1) by (auto simp: ok_simps)
    note ob = finVnd_bounds [OF out]
    show ?thesis
    proof (cases "out \<le> 0")
      case True
      then show ?thesis using Cons.IH Cons.prems False out by simp
    next
      case pos: False
      obtain paid where paid: "parseVnd (Num (ob_paidAmount doc)) True False = Inr paid"
        using Cons.prems(1) False pos out by (auto simp: ok_simps)
      let ?a = "if rem \<le> out then rem else out"
      have a: "0 < ?a" "?a \<le> out" "out \<le> max_safe" "0 \<le> rem - ?a" using False pos ob by auto
      have r: "fli (rem - ?a) = rem - ?a" using Cons.prems(4,5) a by (intro diff_exact) auto
      have loop: "fifo_loop docs (rem - ?a) (fli (t + ?a)) (as @ [allocation_line doc ?a out paid]) = Inr (t', as')"
        using Cons.prems(1) False pos out paid r by (simp add: Let_def)
      show ?thesis
        by (rule Cons.IH [OF loop]) (use Cons.prems a allocation_line_ok [OF a(1-3)] in auto)
    qed
  qed (use Cons.prems in auto)
qed simp

lemma allocationsE:
  assumes "calculateDocumentAllocations pay docs ex pol kind = Inr r"
  obtains "pay = Fin (of_int (pa_paymentAmount r))" "0 < pa_paymentAmount r" "pa_paymentAmount r \<le> max_safe"
    "pa_totalAllocated r = alloc_total (pa_allocations r)" "list_all alloc_ok (pa_allocations r)"
    "pa_totalAllocated r \<le> pa_paymentAmount r" "pa_overpaymentAmount r = fli (pa_paymentAmount r - pa_totalAllocated r)"
    "pol = REJECT \<longrightarrow> pa_overpaymentAmount r \<le> 0" "ex \<noteq> [] \<longrightarrow> distinct (map al_documentId (pa_allocations r))"
proof -
  obtain p t as where h: "parseVnd (Num pay) False False = Inr p" "t \<le> p"
    "(if ex \<noteq> [] then ebind (efold (explicit_step kind (doc_map docs)) ex ([], 0, [])) (\<lambda>s. Inr (snd s))
      else fifo_loop docs p 0 []) = Inr (t, as)" "pol = REJECT \<longrightarrow> fli (p - t) \<le> 0"
    and r: "r = \<lparr>pa_paymentAmount = p, pa_totalAllocated = t, pa_overpaymentAmount = fli (p - t), pa_allocations = as\<rparr>"
    using assms by (auto simp: calculateDocumentAllocations_def ok_simps Let_def not_less)
  have p: "0 < p" "p \<le> max_safe" "pay = Fin (of_int p)"
    using h(1) by (auto simp: finVnd_Num elim!: is_safe_integerE)
  have "t = alloc_total as \<and> list_all alloc_ok as \<and> (ex \<noteq> [] \<longrightarrow> distinct (map al_documentId as))"
  proof (cases "ex = []")
    case True
    then show ?thesis using h(3) p fifo_ok [of docs p 0 "[]" t as] by simp
  next
    case False
    then obtain seen where e: "efold (explicit_step kind (doc_map docs)) ex ([], 0, []) = Inr (seen, t, as)"
      using h(3) by (auto simp: ok_simps)
    have "exp_ok (seen, t, as)"
      by (rule efold_invariant [OF e]) (auto simp: exp_ok_def [of "([], 0, [])"] intro: explicit_step_ok)
    then show ?thesis by (simp add: exp_ok_def)
  qed
  then show thesis using p h(2,4) by (intro that) (simp_all add: r)
qed

text \<open>The amounts of a first-in-first-out run, for documents with whole non-negative balances.\<close>

definition owed :: "OpenObligationSnapshot \<Rightarrow> int" where
  "owed d = int_of_num (ob_outstandingAmount d)"

definition owed_ok :: "OpenObligationSnapshot \<Rightarrow> bool" where
  "owed_ok d \<longleftrightarrow> is_safe_integer (ob_outstandingAmount d) \<and> 0 \<le> owed d"

lemma fifo_spec:
  assumes "fifo_loop docs rem t as = Inr (t', as')" "0 \<le> rem" "rem \<le> max_safe" "list_all owed_ok docs"
  shows "\<exists>new. as' = as @ new \<and> sum_list (map al_allocatedAmount new) = min rem (sum_list (map owed docs)) \<and>
    map al_documentId new = take (length new) (map ob_id (filter (\<lambda>d. 0 < owed d) docs)) \<and>
    (\<forall>a \<in> set (butlast new). al_allocatedAmount a = al_outstandingBefore a)"
  using assms
proof (induction docs arbitrary: rem t as)
  case (Cons doc docs)
  have nn: "0 \<le> owed doc" "0 \<le> sum_list (map owed docs)"
    using Cons.prems(4) by (auto intro!: sum_list_nonneg simp: owed_ok_def list_all_iff)
  show ?case
  proof (cases "rem \<le> 0")
    case True
    then show ?thesis using Cons.prems nn by (intro exI [of _ "[]"]) auto
  next
    case False
    have out: "parseVnd (Num (ob_outstandingAmount doc)) True False = Inr (owed doc)" "owed doc \<le> max_safe"
      using Cons.prems(4) int_of_num_safe [of "ob_outstandingAmount doc"] by (auto simp: finVnd_Num owed_def owed_ok_def)
    show ?thesis
    proof (cases "owed doc = 0")
      case True
      then have "fifo_loop docs rem t as = Inr (t', as')" using Cons.prems(1) False out by simp
      then show ?thesis using Cons.IH [of rem t as] Cons.prems True by simp
    next
      case pos: False
      let ?a = "if rem \<le> owed doc then rem else owed doc"
      obtain paid where paid: "parseVnd (Num (ob_paidAmount doc)) True False = Inr paid"
        using Cons.prems(1) False pos nn out by (auto simp: ok_simps)
      have r: "fli (rem - ?a) = rem - ?a" using Cons.prems(2,3) nn out(2) by (intro diff_exact) auto
      have loop: "fifo_loop docs (rem - ?a) (fli (t + ?a)) (as @ [allocation_line doc ?a (owed doc) paid]) = Inr (t', as')"
        using Cons.prems(1) False pos nn out paid r by (simp add: Let_def)
      have side: "0 \<le> rem - ?a" "rem - ?a \<le> max_safe" "list_all owed_ok docs"
        using Cons.prems(2-4) nn by auto
      obtain new where n: "as' = (as @ [allocation_line doc ?a (owed doc) paid]) @ new"
        "sum_list (map al_allocatedAmount new) = min (rem - ?a) (sum_list (map owed docs))"
        "map al_documentId new = take (length new) (map ob_id (filter (\<lambda>d. 0 < owed d) docs))"
        "\<forall>a \<in> set (butlast new). al_allocatedAmount a = al_outstandingBefore a"
        using Cons.IH [OF loop] side by blast
      have first: "?a = owed doc" if "new \<noteq> []"
      proof (rule ccontr)
        assume "?a \<noteq> owed doc"
        then have "fifo_loop docs 0 (fli (t + ?a)) (as @ [allocation_line doc ?a (owed doc) paid]) = Inr (t', as')"
          using loop by (simp split: if_splits)
        then have "as' = as @ [allocation_line doc ?a (owed doc) paid]" by (cases docs) auto
        then show False using n(1) that by simp
      qed
      show ?thesis
        using n first nn pos by (intro exI [of _ "allocation_line doc ?a (owed doc) paid # new"]) (auto split: if_splits)
    qed
  qed
qed simp

section \<open>Properties\<close>

definition sample_journal_line :: "string \<Rightarrow> int \<Rightarrow> int \<Rightarrow> JournalLineInput" where
  "sample_journal_line a d c = \<lparr>jl_accountCode = Some a, jl_debitAmount = num_arg d, jl_creditAmount = num_arg c,
     jl_branchId = None, jl_partyType = None, jl_partyId = None, jl_referenceType = None, jl_referenceId = None,
     jl_memo = None\<rparr>"

text \<open>
Double entry: lines that validate one by one are accepted as a journal exactly when there are at least two of
them and their debits equal their credits, and the journal reports that common total (for totals a
double holds exactly).
\<close>

theorem journal_accepted_iff_balanced:
  assumes "emapi journal_line 0 ls = Inr vs"
    and "sum_list (map vj_debit vs) \<le> 2 ^ 53" and "sum_list (map vj_credit vs) \<le> 2 ^ 53"
  shows "((\<exists>r. validateBalancedJournalLines ls = Inr r) \<longleftrightarrow>
      2 \<le> length ls \<and> sum_list (map vj_debit vs) = sum_list (map vj_credit vs)) \<and>
    (\<forall>r. validateBalancedJournalLines ls = Inr r \<longrightarrow> vr_lines r = vs \<and>
      vr_totalDebit r = sum_list (map vj_debit vs) \<and> vr_totalCredit r = sum_list (map vj_credit vs) \<and> 0 < vr_totalDebit r)"
proof -
  have line: "0 \<le> vj_debit v \<and> 0 \<le> vj_credit v \<and> (vj_debit v = 0) \<noteq> (vj_credit v = 0)" if "v \<in> set vs" for v
    using journal_lines_ok [OF assms(1) that] by blast
  have tot: "js_total (map vj_debit vs) = sum_list (map vj_debit vs)" "js_total (map vj_credit vs) = sum_list (map vj_credit vs)"
    using assms(2,3) line by (auto intro!: js_total_fits)
  have pos: "0 < sum_list (map vj_debit vs)" if "vs \<noteq> []" "sum_list (map vj_debit vs) = sum_list (map vj_credit vs)"
  proof -
    have nn: "0 \<le> sum_list (map vj_debit ws) \<and> 0 \<le> sum_list (map vj_credit ws)" if "set ws \<subseteq> set vs" for ws
    proof -
      have "\<forall>w \<in> set ws. 0 \<le> vj_debit w \<and> 0 \<le> vj_credit w" using that line by blast
      then show ?thesis by (auto intro!: sum_list_nonneg)
    qed
    obtain v ws where vs: "vs = v # ws" using \<open>vs \<noteq> []\<close> by (cases vs) auto
    then have "0 < vj_debit v \<or> 0 < vj_credit v" "0 \<le> vj_debit v" "0 \<le> vj_credit v" using line [of v] by auto
    moreover have "set ws \<subseteq> set vs" using vs by auto
    ultimately show ?thesis using nn [of ws] that(2) vs by auto
  qed
  have len: "length vs = length ls" using emapi_length [OF assms(1)] .
  have "validateBalancedJournalLines ls =
      (if length ls < 2 \<or> sum_list (map vj_debit vs) \<le> 0 \<or> sum_list (map vj_debit vs) \<noteq> sum_list (map vj_credit vs)
       then Inl (fin_error JOURNAL_NOT_BALANCED 422)
       else Inr \<lparr>vr_totalDebit = sum_list (map vj_debit vs), vr_totalCredit = sum_list (map vj_credit vs), vr_lines = vs\<rparr>)"
    using assms(1) tot by (simp add: validateBalancedJournalLines_def Let_def throw_if_def)
  moreover have "vs \<noteq> []" if "2 \<le> length ls" using that len by auto
  ultimately show ?thesis using pos by (auto simp: not_less)
qed

theorem journal_accepted_iff_balanced_witness:
  "(\<exists>r. validateBalancedJournalLines [sample_journal_line ''1110'' 500 0, sample_journal_line ''5110'' 0 500] = Inr r) \<and>
   \<not> (\<exists>r. validateBalancedJournalLines [sample_journal_line ''1110'' 500 0, sample_journal_line ''5110'' 0 499] = Inr r)"
proof -
  have line: "journal_line i (sample_journal_line a d c) = Inr \<lparr>vj_lineNo = i + 1, vj_accountCode = a, vj_debit = d,
      vj_credit = c, vj_branchId = None, vj_partyType = None, vj_partyId = None, vj_referenceType = None,
      vj_referenceId = None, vj_memo = None\<rparr>"
    if "js_upper (js_trim a) = a" "a \<noteq> []" "0 \<le> d" "d \<le> max_safe" "0 \<le> c" "c \<le> max_safe" "(d = 0) \<noteq> (c = 0)" for i a d c
    using that by (auto simp: journal_line_def sample_journal_line_def or_zero_def num_arg_def Let_def parseVnd_def
        js_eq_def throw_if_def)
  have t: "js_upper (js_trim ''1110'') = ''1110''" "js_upper (js_trim ''5110'') = ''5110''" "500 \<le> max_safe" "499 \<le> max_safe" "0 \<le> max_safe"
    by code_simp+
  show ?thesis
    using journal_accepted_iff_balanced [of "[sample_journal_line ''1110'' 500 0, sample_journal_line ''5110'' 0 500]"]
      journal_accepted_iff_balanced [of "[sample_journal_line ''1110'' 500 0, sample_journal_line ''5110'' 0 499]"]
    by (simp add: line t)
qed

definition sample_credit :: "int \<Rightarrow> CreditAuthorizationEvaluationInput" where
  "sample_credit q = \<lparr>ci_creditLimit = Fin (of_int 2000000), ci_postedDebt = Fin (of_int 500000),
     ci_heldCredit = Fin (of_int 300000), ci_requestedAmount = Fin (of_int q), ci_overrideApprovedBy = None\<rparr>"

lemma sample_credit_fields:
  "ci_creditLimit (sample_credit q) = Fin (of_int 2000000)" "ci_postedDebt (sample_credit q) = Fin (of_int 500000)"
  "ci_heldCredit (sample_credit q) = Fin (of_int 300000)" "ci_requestedAmount (sample_credit q) = Fin (of_int q)"
  "ci_overrideApprovedBy (sample_credit q) = None"
  by (simp_all only: sample_credit_def CreditAuthorizationEvaluationInput.simps)

text \<open>
Credit stays within the limit: a request without an override is accepted exactly when posted debt, held credit and
the request together fit into the customer's limit, and the held credit then grows by exactly the request.
\<close>

theorem credit_within_limit:
  assumes "ci_creditLimit i = Fin (of_int l)" and "ci_postedDebt i = Fin (of_int p)" and "ci_heldCredit i = Fin (of_int h)"
    and "ci_requestedAmount i = Fin (of_int q)" and "0 \<le> l \<and> l \<le> max_safe" and "0 \<le> p \<and> p \<le> max_safe"
    and "0 \<le> h \<and> h \<le> max_safe" and "0 < q \<and> q \<le> max_safe" and "ci_overrideApprovedBy i = None"
  shows "((\<exists>r. evaluateCreditAuthorization i = Inr r) \<longleftrightarrow> p + h + q \<le> l) \<and>
    (\<forall>r. evaluateCreditAuthorization i = Inr r \<longrightarrow>
       ca_heldCreditAfter r = h + q \<and> ca_availableCreditAfter r = l - p - (h + q) \<and> \<not> ca_isOverride r)"
proof -
  have parse: "parseVnd (Num (ci_creditLimit i)) True False = Inr l" "parseVnd (Num (ci_postedDebt i)) True False = Inr p"
    "parseVnd (Num (ci_heldCredit i)) True False = Inr h" "parseVnd (Num (ci_requestedAmount i)) False False = Inr q"
    using assms by (simp_all add: finVnd_num_arg)
  have before: "available_credit l p h = max 0 (l - p - h)" using assms(5-7) by (intro available_credit_exact) auto
  have after: "fli (h + q) = h + q \<and> available_credit l p (h + q) = l - p - (h + q)" if "p + h + q \<le> l"
    using that assms(5-8) safe_exact [of "h + q"] available_credit_exact [of l p "h + q"] by auto
  have fits: "\<not> q > max 0 (l - p - h) \<longleftrightarrow> p + h + q \<le> l" using assms(8) by auto
  show ?thesis
  proof (cases "p + h + q \<le> l")
    case True
    then have "\<not> q > max 0 (l - p - h)" using fits by blast
    then show ?thesis using True after by (simp add: evaluateCreditAuthorization_def parse Let_def before assms(9))
  next
    case False
    then have "q > max 0 (l - p - h)" using fits by blast
    then show ?thesis using False by (simp add: evaluateCreditAuthorization_def parse Let_def before assms(9))
  qed
qed

theorem credit_within_limit_witness:
  "(\<exists>r. evaluateCreditAuthorization (sample_credit 1200000) = Inr r) \<and>
   \<not> (\<exists>r. evaluateCreditAuthorization (sample_credit 1200001) = Inr r)"
proof -
  have m: "2000000 \<le> max_safe" by code_simp
  then have s: "0 \<le> (500000::int) \<and> 500000 \<le> max_safe" "0 \<le> (300000::int) \<and> 300000 \<le> max_safe"
    "0 < (1200000::int) \<and> 1200000 \<le> max_safe" "0 < (1200001::int) \<and> 1200001 \<le> max_safe" by simp_all
  note c = credit_within_limit [OF sample_credit_fields(1-4) _ s(1,2) _ sample_credit_fields(5)]
  show ?thesis using c [OF _ s(3)] c [OF _ s(4)] m by auto
qed

lemma alloc_nonneg: "list_all alloc_ok as \<Longrightarrow> \<forall>x \<in> set (map al_allocatedAmount as). 0 \<le> x"
  by (auto simp: alloc_ok_def list_all_iff dest!: bspec)

lemma allocations_sum:
  assumes "list_all alloc_ok as" "alloc_total as < 2 ^ 53"
  shows "alloc_total as = sum_list (map al_allocatedAmount as)"
  using assms js_total_exact [of "map al_allocatedAmount as"] alloc_nonneg [OF assms(1)]
  by (simp add: alloc_total_def)

text \<open>The totals of an accepted allocation.\<close>

lemma allocation_totals:
  assumes "calculateDocumentAllocations pay docs ex pol kind = Inr r"
  shows "sum_list (map al_allocatedAmount (pa_allocations r)) = pa_totalAllocated r" "pa_totalAllocated r + pa_overpaymentAmount r = pa_paymentAmount r"
    "0 \<le> pa_overpaymentAmount r" "0 \<le> pa_totalAllocated r" "pa_paymentAmount r \<le> max_safe" "0 < pa_paymentAmount r" "pay = Fin (of_int (pa_paymentAmount r))"
proof -
  have t: "sum_list (map al_allocatedAmount (pa_allocations r)) = pa_totalAllocated r \<and> pa_totalAllocated r + pa_overpaymentAmount r = pa_paymentAmount r \<and>
     0 \<le> pa_overpaymentAmount r \<and> 0 \<le> pa_totalAllocated r \<and> pa_paymentAmount r \<le> max_safe \<and> 0 < pa_paymentAmount r \<and> pay = Fin (of_int (pa_paymentAmount r))"
  proof (rule allocationsE [OF assms])
    assume h: "pay = Fin (of_int (pa_paymentAmount r))" "0 < pa_paymentAmount r" "pa_paymentAmount r \<le> max_safe"
      "pa_totalAllocated r = alloc_total (pa_allocations r)" "list_all alloc_ok (pa_allocations r)"
      "pa_totalAllocated r \<le> pa_paymentAmount r" "pa_overpaymentAmount r = fli (pa_paymentAmount r - pa_totalAllocated r)"
    have sum: "pa_totalAllocated r = sum_list (map al_allocatedAmount (pa_allocations r))"
      using h max_safe_lt allocations_sum [OF h(5)] by linarith
    moreover have "0 \<le> sum_list (map al_allocatedAmount (pa_allocations r))"
      using alloc_nonneg [OF h(5)] by (intro sum_list_nonneg) blast
    ultimately show ?thesis using h by (simp add: diff_exact)
  qed
  then show "sum_list (map al_allocatedAmount (pa_allocations r)) = pa_totalAllocated r" "pa_totalAllocated r + pa_overpaymentAmount r = pa_paymentAmount r"
    "0 \<le> pa_overpaymentAmount r" "0 \<le> pa_totalAllocated r" "pa_paymentAmount r \<le> max_safe" "0 < pa_paymentAmount r" "pay = Fin (of_int (pa_paymentAmount r))"
    by blast+
qed

text \<open>
A payment is spent exactly: in every accepted allocation the parts add up to the total, the total and the
overpayment add up to the payment, each part is positive and at most what its document owed, the balance left is exact,
the document is paid exactly when nothing is left, and under the rejecting policy nothing is left over.
\<close>

theorem payment_allocated_exactly:
  assumes "calculateDocumentAllocations pay docs ex pol kind = Inr r"
  shows "pay = Fin (of_int (pa_paymentAmount r)) \<and>
    sum_list (map al_allocatedAmount (pa_allocations r)) = pa_totalAllocated r \<and>
    pa_totalAllocated r + pa_overpaymentAmount r = pa_paymentAmount r \<and> 0 \<le> pa_overpaymentAmount r \<and>
    (pol = REJECT \<longrightarrow> pa_overpaymentAmount r = 0) \<and>
    (\<forall>a \<in> set (pa_allocations r). 0 < al_allocatedAmount a \<and> al_allocatedAmount a \<le> al_outstandingBefore a \<and>
       al_outstandingAfter a = al_outstandingBefore a - al_allocatedAmount a \<and>
       (al_statusAfter a = PAID \<longleftrightarrow> al_outstandingAfter a = 0)) \<and>
    (ex \<noteq> [] \<longrightarrow> distinct (map al_documentId (pa_allocations r)))"
proof (rule allocationsE [OF assms])
  assume h: "list_all alloc_ok (pa_allocations r)" "pol = REJECT \<longrightarrow> pa_overpaymentAmount r \<le> 0" "ex \<noteq> [] \<longrightarrow> distinct (map al_documentId (pa_allocations r))"
  note t = allocation_totals [OF assms]
  have each: "\<forall>a \<in> set (pa_allocations r). 0 < al_allocatedAmount a \<and> al_allocatedAmount a \<le> al_outstandingBefore a \<and>
       al_outstandingAfter a = al_outstandingBefore a - al_allocatedAmount a \<and>
       (al_statusAfter a = PAID \<longleftrightarrow> al_outstandingAfter a = 0)"
    using h(1) unfolding list_all_iff alloc_ok_def by blast
  show ?thesis using t h(2,3) each by simp
qed

definition sample_obligation :: "string \<Rightarrow> int \<Rightarrow> OpenObligationSnapshot" where
  "sample_obligation i out = \<lparr>ob_id = i, ob_code = i, ob_originalAmount = Fin (of_int out), ob_paidAmount = Fin 0,
     ob_adjustedAmount = Fin 0, ob_outstandingAmount = Fin (of_int out)\<rparr>"

theorem payment_allocated_exactly_witness:
  "\<exists>r. calculateDocumentAllocations (Fin 700) [sample_obligation ''A'' 500, sample_obligation ''B'' 300]
      [\<lparr>ra_documentId = ''B'', ra_amount = Fin 300\<rparr>, \<lparr>ra_documentId = ''A'', ra_amount = Fin 400\<rparr>] REJECT RECEIVABLE = Inr r \<and>
    sum_list (map al_allocatedAmount (pa_allocations r)) = pa_totalAllocated r \<and> pa_overpaymentAmount r = 0"
proof -
  have ok: "\<not> isl (calculateDocumentAllocations (Fin 700) [sample_obligation ''A'' 500, sample_obligation ''B'' 300]
      [\<lparr>ra_documentId = ''B'', ra_amount = Fin 300\<rparr>, \<lparr>ra_documentId = ''A'', ra_amount = Fin 400\<rparr>] REJECT RECEIVABLE)"
    by code_simp
  then obtain r where r: "calculateDocumentAllocations (Fin 700) [sample_obligation ''A'' 500, sample_obligation ''B'' 300]
      [\<lparr>ra_documentId = ''B'', ra_amount = Fin 300\<rparr>, \<lparr>ra_documentId = ''A'', ra_amount = Fin 400\<rparr>] REJECT RECEIVABLE = Inr r"
    unfolding isl_def by (metis sum.exhaust_sel)
  show ?thesis using payment_allocated_exactly [OF r] r by blast
qed

text \<open>A first-in-first-out run over documents with whole balances always returns.\<close>

lemma fifo_returns:
  assumes "list_all owed_ok docs" "\<forall>d \<in> set docs. \<exists>p. parseVnd (Num (ob_paidAmount d)) True False = Inr p"
  shows "\<exists>t' as'. fifo_loop docs rem t as = Inr (t', as')"
  using assms
proof (induction docs arbitrary: rem t as)
  case (Cons doc docs)
  obtain p where p: "parseVnd (Num (ob_paidAmount doc)) True False = Inr p" using Cons.prems(2) by auto
  have "parseVnd (Num (ob_outstandingAmount doc)) True False = Inr (owed doc)"
    using Cons.prems(1) by (simp add: finVnd_Num owed_def owed_ok_def)
  then show ?case using Cons p by (simp add: Let_def)
qed simp

text \<open>
A payment without explicit allocations pays the oldest documents first: over documents with whole balances it is
accepted exactly when the overpayment policy allows what remains, it allocates the smaller of the payment and the total
debt, the documents paid are the first ones that owe anything, in order, and every one but the last is paid in full.
\<close>

theorem fifo_pays_oldest_first:
  assumes "list_all owed_ok docs" and "\<forall>d \<in> set docs. \<exists>p. parseVnd (Num (ob_paidAmount d)) True False = Inr p"
    and "0 < pay" and "pay \<le> max_safe"
  shows "((\<exists>r. calculateDocumentAllocations (Fin (of_int pay)) docs [] pol kind = Inr r) \<longleftrightarrow>
      pol = PREPAYMENT \<or> pay \<le> sum_list (map owed docs)) \<and>
    (\<forall>r. calculateDocumentAllocations (Fin (of_int pay)) docs [] pol kind = Inr r \<longrightarrow>
      pa_totalAllocated r = min pay (sum_list (map owed docs)) \<and>
      map al_documentId (pa_allocations r) =
        take (length (pa_allocations r)) (map ob_id (filter (\<lambda>d. 0 < owed d) docs)) \<and>
      (\<forall>a \<in> set (butlast (pa_allocations r)). al_outstandingAfter a = 0))"
proof -
  obtain t as where run: "fifo_loop docs pay 0 [] = Inr (t, as)" using fifo_returns [OF assms(1,2)] by blast
  obtain new where new: "as = [] @ new" "sum_list (map al_allocatedAmount new) = min pay (sum_list (map owed docs))"
    "map al_documentId new = take (length new) (map ob_id (filter (\<lambda>d. 0 < owed d) docs))"
    "\<forall>a \<in> set (butlast new). al_allocatedAmount a = al_outstandingBefore a"
    using fifo_spec [OF run] assms by fastforce
  have ok: "t = alloc_total as" "list_all alloc_ok as" using fifo_ok [OF run] assms(3,4) by simp_all
  have "sum_list (map al_allocatedAmount as) \<le> 2 ^ 53" using new(1,2) assms(4) max_safe_lt by simp
  then have t: "t = min pay (sum_list (map owed docs))"
    using new(1,2) ok(1) js_total_fits [OF alloc_nonneg [OF ok(2)]] by (simp add: alloc_total_def)
  then have tp: "t \<le> pay" by simp
  have nn: "0 \<le> sum_list (map owed docs)" using assms(1) by (auto intro!: sum_list_nonneg simp: list_all_iff owed_ok_def)
  then have over: "fli (pay - t) = pay - t" using t assms(3,4) by (intro diff_exact) auto
  have full: "\<forall>a \<in> set (butlast as). al_outstandingAfter a = 0"
    using new(1,4) ok(2) by (auto simp: alloc_ok_def list_all_iff dest: in_set_butlastD)
  have parse: "parseVnd (Num (Fin (of_int pay))) False False = Inr pay" using assms(3,4) by (simp add: finVnd_num_arg)
  have "calculateDocumentAllocations (Fin (of_int pay)) docs [] pol kind =
      (if pay - t > 0 \<and> pol = REJECT then Inl (fin_error (allocation_error kind) 409)
       else Inr \<lparr>pa_paymentAmount = pay, pa_totalAllocated = t, pa_overpaymentAmount = pay - t, pa_allocations = as\<rparr>)"
    using tp by (simp add: calculateDocumentAllocations_def parse run over Let_def throw_if_def)
  then show ?thesis using t new full by (cases pol) auto
qed

theorem fifo_pays_oldest_first_witness:
  "(\<exists>r. calculateDocumentAllocations (Fin (of_int 600)) [sample_obligation ''A'' 500, sample_obligation ''B'' 0,
      sample_obligation ''C'' 300] [] REJECT PAYABLE = Inr r \<and> pa_totalAllocated r = 600) \<and>
   \<not> (\<exists>r. calculateDocumentAllocations (Fin (of_int 801)) [sample_obligation ''A'' 500, sample_obligation ''B'' 0,
      sample_obligation ''C'' 300] [] REJECT PAYABLE = Inr r)"
proof -
  let ?docs = "[sample_obligation ''A'' 500, sample_obligation ''B'' 0, sample_obligation ''C'' 300]"
  have ok: "list_all owed_ok ?docs" "sum_list (map owed ?docs) = 800" "801 \<le> max_safe" by code_simp+
  have paid: "\<forall>d \<in> set ?docs. \<exists>p. parseVnd (Num (ob_paidAmount d)) True False = Inr p"
    using finVnd_num_arg [of 0 True False 0] ok(3) by (auto simp: sample_obligation_def)
  show ?thesis
    using fifo_pays_oldest_first [OF ok(1) paid, of 600 REJECT PAYABLE]
      fifo_pays_oldest_first [OF ok(1) paid, of 801 REJECT PAYABLE] ok(2,3) by auto
qed

text \<open>
Refunds never exceed the payment: against a payment with some of it already refunded, a request is accepted
exactly when it is positive and, together with the earlier refunds, at most the payment; the refundable amount reported
afterwards is what is left; every refused request is answered with a validation or an amount error.
\<close>

theorem refund_within_payment:
  assumes "0 < paid" and "paid \<le> max_safe" and "0 \<le> prior" and "prior \<le> max_safe" and "\<bar>req\<bar> \<le> max_safe"
  shows "validateRefundAllocation (Fin (of_int paid)) (Fin (of_int prior)) (Fin (of_int req)) =
    (if req \<le> 0 then Inl (fin_error VALIDATION_ERROR 422)
     else if paid < prior + req then Inl (fin_error REFUND_AMOUNT_EXCEEDED 409)
     else Inr \<lparr>re_originalPaidAmount = paid, re_alreadyRefundedAmount = prior, re_remainingRefundableBefore = paid - prior,
       re_requestedRefundAmount = req, re_remainingRefundableAfter = paid - (prior + req)\<rparr>)"
proof -
  have parse: "parseVnd (Num (Fin (of_int paid))) False False = Inr paid" "parseVnd (Num (Fin (of_int prior))) True False = Inr prior"
    "0 < req \<Longrightarrow> parseVnd (Num (Fin (of_int req))) False False = Inr req"
    using assms by (simp_all add: finVnd_num_arg)
  have bad: "parseVnd (Num (Fin (of_int req))) False False = Inl (fin_error VALIDATION_ERROR 422)" if "req \<le> 0"
    using that assms(5) by (auto simp: parseVnd_def js_eq_def)
  have before: "(if paid > prior then fli (paid - prior) else 0) = max 0 (paid - prior)"
    using assms diff_exact [of paid prior] by auto
  have after: "fli (max 0 (paid - prior) - req) = paid - (prior + req)" if "0 < req" "prior + req \<le> paid"
    using that assms safe_exact [of "paid - (prior + req)"] by (simp add: algebra_simps)
  show ?thesis
  proof (cases "0 < req")
    case True
    show ?thesis
      unfolding validateRefundAllocation_def parse(1,2) parse(3) [OF True] ebind_Inr before Let_def
      using True after by (auto simp: throw_if_def)
  qed (simp add: validateRefundAllocation_def parse(1,2) bad)
qed

theorem refund_within_payment_witness:
  "validateRefundAllocation (Fin (of_int 100000)) (Fin (of_int 60000)) (Fin (of_int 40001)) =
     Inl (fin_error REFUND_AMOUNT_EXCEEDED 409)"
proof -
  have "100000 \<le> max_safe" by code_simp
  then show ?thesis using refund_within_payment [of 100000 60000 40001] by simp
qed

text \<open>
A carrier's statement line matches exactly when the carrier reports the cash the delivery was to collect and pays out
that cash less its fee; the reported discrepancy is the difference between the payout made and the payout due, and every
discrepancy carries a reason.
\<close>

theorem cod_line_matched_iff:
  assumes "evaluateCodSettlementLine (Fin (of_int gross)) (Fin (of_int rep)) (Fin (of_int fee)) (Fin (of_int net)) = Inr r"
    and "\<bar>net - (gross - fee)\<bar> \<le> 2 ^ 53"
  shows "(cod_status r = MATCHED \<longleftrightarrow> rep = gross \<and> net = gross - fee) \<and>
    cod_expectedNetPayout r = gross - fee \<and> cod_discrepancyAmount r = net - (gross - fee) \<and>
    (cod_status r = DISCREPANCY \<longleftrightarrow> cod_reasons r \<noteq> [])"
proof -
  have p: "parseVnd (Num (Fin (of_int gross))) False False = Inr gross" "parseVnd (Num (Fin (of_int rep))) True False = Inr rep"
    "parseVnd (Num (Fin (of_int fee))) True False = Inr fee" "parseVnd (Num (Fin (of_int net))) True True = Inr net"
    using assms(1) by (auto simp: evaluateCodSettlementLine_def ok_simps finVnd_num_arg)
  have e: "fli (gross - fee) = gross - fee" "fli (rep - fee) = rep - fee" "fli (net - (gross - fee)) = net - (gross - fee)"
    using p diff_exact [of gross fee] diff_exact [of rep fee] fli_exact [OF assms(2)] by (auto simp: finVnd_num_arg)
  show ?thesis
    using assms(1) unfolding evaluateCodSettlementLine_def p e ebind_Inr Let_def
    by (cases "rep = gross"; cases "net = gross - fee") (auto simp: e)
qed

theorem cod_line_matched_iff_witness:
  "\<exists>r. evaluateCodSettlementLine (Fin (of_int 500000)) (Fin (of_int 500000)) (Fin (of_int 25000)) (Fin (of_int 470000)) = Inr r \<and>
     cod_status r = DISCREPANCY \<and> cod_discrepancyAmount r = -5000"
proof -
  let ?e = "evaluateCodSettlementLine (Fin (of_int 500000)) (Fin (of_int 500000)) (Fin (of_int 25000)) (Fin (of_int 470000))"
  have "\<not> isl ?e" by code_simp
  then obtain r where r: "?e = Inr r" by (cases ?e) simp_all
  then have c: "(cod_status r = MATCHED) = False" "cod_discrepancyAmount r = -5000"
    using cod_line_matched_iff [OF r] by simp_all
  then show ?thesis using r by (cases "cod_status r") auto
qed

text \<open>
  The journal totals are sums of doubles: two debits of 9007199254740991 and 2 balance against credits of 9007199254740991
  and 1.
\<close>

lemma journal_unbalanced_accepted:
  "\<not> isl (validateBalancedJournalLines [sample_journal_line ''1110'' 9007199254740991 0, sample_journal_line ''1120'' 2 0,
      sample_journal_line ''5110'' 0 9007199254740991, sample_journal_line ''7110'' 0 1])"
  by code_simp

end
