(* ===== verification/GeneralLedger.thy ===== *)
theory GeneralLedger
  imports FinanceDomain
begin

text \<open>
  The general ledger of the finance service: \<^verbatim>\<open>apps/finance/src/modules/financial-journal/financial-journal.service.ts\<close> and
  \<^verbatim>\<open>finance-code.generator.ts\<close>. The tables hold the rows of one tenant; every method runs in one transaction, so a
  method that throws changes nothing. Other finance services post and reverse through the same two methods. The
  constraints of the tables (unique keys, checks, column lengths) are tested where a row is inserted. Generated ids and the clock are arguments;
  \<open>pick\<close> is the row that a query without an order returns among several.
\<close>

section \<open>Tables\<close>

record FinancialAccount =
  fa_id :: string
  fa_code :: string
  fa_type :: AccountType
  fa_side :: NormalSide
  fa_system :: bool
  fa_active :: bool

datatype JournalStatus = JN_POSTED | JN_REVERSED

record FinancialJournal =
  jn_id :: string
  jn_code :: string
  jn_journalType :: string
  jn_sourceType :: string
  jn_sourceId :: string
  jn_idempotencyKey :: string
  jn_branchId :: "string option"
  jn_totalDebit :: int
  jn_totalCredit :: int
  jn_status :: JournalStatus
  jn_reversalOf :: "string option"
  jn_reversedBy :: "string option"
  jn_description :: "string option"
  jn_effectiveDate :: int
  jn_postedBy :: string
  jn_correlationId :: "string option"
  jn_postedAt :: int

record FinancialJournalLine =
  ln_journalId :: string
  ln_lineNo :: nat
  ln_accountId :: string
  ln_accountCode :: string
  ln_debit :: int
  ln_credit :: int
  ln_branchId :: "string option"
  ln_partyType :: "PartyType option"
  ln_partyId :: "string option"
  ln_referenceType :: "string option"
  ln_referenceId :: "string option"
  ln_memo :: "string option"

record LedgerDb =
  gl_accounts :: "FinancialAccount list"
  gl_journals :: "FinancialJournal list"
  gl_lines :: "FinancialJournalLine list"
  gl_sequence :: "(string, int) jsmap"

abbreviation query_failed :: "FinanceDomainErrorCode err" where
  "query_failed \<equiv> NativeError ''QueryFailedError''"

text \<open>Reading a \<^verbatim>\<open>bigint\<close> column: a stored amount that is not a safe integer makes the query throw.\<close>

definition finMoney :: "int \<Rightarrow> int fin_result" where
  "finMoney value = (if is_safe_integer (js_of_int value) then Inr value else Inl (NativeError ''Error''))"

definition load_journal :: "FinancialJournal \<Rightarrow> FinancialJournal fin_result" where
  "load_journal j = ebind (finMoney (jn_totalDebit j)) (\<lambda>_. ebind (finMoney (jn_totalCredit j)) (\<lambda>_. Inr j))"

definition fits :: "nat \<Rightarrow> string option \<Rightarrow> bool" where
  "fits n s \<longleftrightarrow> (case s of None \<Rightarrow> True | Some t \<Rightarrow> length t \<le> n)"

text \<open>The constraints of \<^verbatim>\<open>financial_journals\<close>: primary key, four unique keys, the balance check, lengths and range.\<close>

definition journal_check :: "LedgerDb \<Rightarrow> FinancialJournal \<Rightarrow> bool" where
  "journal_check db j \<longleftrightarrow>
     list_all (\<lambda>o'. jn_id o' \<noteq> jn_id j \<and> jn_code o' \<noteq> jn_code j \<and>
       \<not> (jn_sourceType o' = jn_sourceType j \<and> jn_sourceId o' = jn_sourceId j) \<and>
       jn_idempotencyKey o' \<noteq> jn_idempotencyKey j \<and>
       (jn_reversalOf j = None \<or> jn_reversalOf o' \<noteq> jn_reversalOf j)) (gl_journals db) \<and>
     0 < jn_totalDebit j \<and> jn_totalDebit j = jn_totalCredit j \<and> jn_totalDebit j < 2 ^ 63 \<and>
     length (jn_code j) \<le> 32 \<and> length (jn_journalType j) \<le> 32 \<and> length (jn_sourceType j) \<le> 48 \<and>
     length (jn_sourceId j) \<le> 128 \<and> length (jn_idempotencyKey j) \<le> 128 \<and> length (jn_postedBy j) \<le> 64 \<and>
     fits 128 (jn_correlationId j)"

definition line_check :: "FinancialJournalLine \<Rightarrow> bool" where
  "line_check l \<longleftrightarrow> (0 < ln_debit l \<and> ln_credit l = 0 \<or> 0 < ln_credit l \<and> ln_debit l = 0) \<and>
     length (ln_accountCode l) \<le> 32 \<and> fits 64 (ln_partyId l) \<and> fits 48 (ln_referenceType l) \<and> fits 128 (ln_referenceId l)"

section \<open>Document codes\<close>

definition nextFinanceDocumentCode :: "LedgerDb \<Rightarrow> string \<Rightarrow> LedgerDb \<times> string" where
  "nextFinanceDocumentCode db prefix =
     (let seq = (case map_get (gl_sequence db) prefix of None \<Rightarrow> 1 | Some v \<Rightarrow> v + 1)
      in (db\<lparr>gl_sequence := map_set prefix seq (gl_sequence db)\<rparr>, prefix @ pad_start 6 CHR ''0'' (show_digits seq)))"

section \<open>Accounts\<close>

definition find_account :: "LedgerDb \<Rightarrow> string \<Rightarrow> FinancialAccount option" where
  "find_account db c = find (\<lambda>a. fa_code a = c) (gl_accounts db)"

definition add_default :: "(string \<Rightarrow> string) \<Rightarrow> StandardFinancialAccountSpec \<Rightarrow> LedgerDb \<Rightarrow> LedgerDb" where
  "add_default mkId spec db =
     (if find_account db (ac_code spec) \<noteq> None then db
      else db\<lparr>gl_accounts := gl_accounts db @ [\<lparr>fa_id = mkId (ac_code spec), fa_code = ac_code spec, fa_type = ac_type spec,
             fa_side = ac_side spec, fa_system = True, fa_active = True\<rparr>]\<rparr>)"

text \<open>\<open>mkId\<close> gives the generated id of the account with a code.\<close>

definition ensureDefaultAccountsInTx :: "(string \<Rightarrow> string) \<Rightarrow> LedgerDb \<Rightarrow> LedgerDb" where
  "ensureDefaultAccountsInTx mkId db = fold (add_default mkId) DEFAULT_FINANCE_ACCOUNTS db"

definition createAccount ::
    "(string \<Rightarrow> string) \<Rightarrow> LedgerDb \<Rightarrow> string option \<Rightarrow> AccountType \<Rightarrow> NormalSide \<Rightarrow> (LedgerDb \<times> FinancialAccount) fin_result" where
  "createAccount mkId db code' accountType normalSide =
     ebind (normalizeFinanceCode code') (\<lambda>c.
       let db1 = ensureDefaultAccountsInTx mkId db in
       case find_account db1 c of
         Some dup \<Rightarrow> Inr (db1, dup)
       | None \<Rightarrow>
           let a = \<lparr>fa_id = mkId c, fa_code = c, fa_type = accountType, fa_side = normalSide, fa_system = False, fa_active = True\<rparr>
           in if length c > 32 then Inl query_failed else Inr (db1\<lparr>gl_accounts := gl_accounts db1 @ [a]\<rparr>, a))"

section \<open>Posting\<close>

record PostJournalInTxInput =
  pj_journalType :: string
  pj_sourceType :: string
  pj_sourceId :: string
  pj_idempotencyKey :: "string option"
  pj_branchId :: "string option"
  pj_description :: "string option"
  pj_effectiveDate :: "int option"
  pj_postedBy :: string
  pj_correlationId :: "string option"
  pj_reversalOf :: "string option"
  pj_lines :: "JournalLineInput list"

definition posting_key :: "PostJournalInTxInput \<Rightarrow> string" where
  "posting_key i =
     js_lower (js_trim (case pj_idempotencyKey i of
       Some k \<Rightarrow> k
     | None \<Rightarrow> ''jnl:'' @ js_upper (js_trim (pj_sourceType i)) @ '':'' @ js_trim (pj_sourceId i)))"

definition matching_journals :: "LedgerDb \<Rightarrow> PostJournalInTxInput \<Rightarrow> FinancialJournal list" where
  "matching_journals db i =
     filter (\<lambda>j. (jn_sourceType j = js_upper (js_trim (pj_sourceType i)) \<and> jn_sourceId j = js_trim (pj_sourceId i)) \<or>
                 jn_idempotencyKey j = posting_key i) (gl_journals db)"

definition check_account :: "LedgerDb \<Rightarrow> ValidatedJournalLine \<Rightarrow> FinancialAccount fin_result" where
  "check_account db l =
     (case find_account db (vj_accountCode l) of
        None \<Rightarrow> Inl (fin_error FINANCIAL_ACCOUNT_NOT_FOUND 404)
      | Some a \<Rightarrow> if \<not> fa_active a then Inl (fin_error FINANCIAL_ACCOUNT_INACTIVE 409) else Inr a)"

definition opt_or :: "'a option \<Rightarrow> 'a option \<Rightarrow> 'a option" where
  "opt_or a b = (case a of None \<Rightarrow> b | Some _ \<Rightarrow> a)"

definition new_journal :: "PostJournalInTxInput \<Rightarrow> ValidatedJournalResult \<Rightarrow> string \<Rightarrow> string \<Rightarrow> string option \<Rightarrow> int \<Rightarrow> FinancialJournal" where
  "new_journal i v newId code' requestId now =
     \<lparr>jn_id = newId, jn_code = code', jn_journalType = js_upper (js_trim (pj_journalType i)),
      jn_sourceType = js_upper (js_trim (pj_sourceType i)), jn_sourceId = js_trim (pj_sourceId i), jn_idempotencyKey = posting_key i,
      jn_branchId = pj_branchId i, jn_totalDebit = vr_totalDebit v, jn_totalCredit = vr_totalCredit v, jn_status = JN_POSTED,
      jn_reversalOf = pj_reversalOf i, jn_reversedBy = None, jn_description = pj_description i,
      jn_effectiveDate = (case pj_effectiveDate i of None \<Rightarrow> now | Some d \<Rightarrow> d), jn_postedBy = pj_postedBy i,
      jn_correlationId = opt_or (pj_correlationId i) requestId, jn_postedAt = now\<rparr>"

definition new_line :: "PostJournalInTxInput \<Rightarrow> string \<Rightarrow> FinancialAccount \<Rightarrow> ValidatedJournalLine \<Rightarrow> FinancialJournalLine" where
  "new_line i journalId acc l =
     \<lparr>ln_journalId = journalId, ln_lineNo = vj_lineNo l, ln_accountId = fa_id acc, ln_accountCode = fa_code acc,
      ln_debit = vj_debit l, ln_credit = vj_credit l, ln_branchId = vj_branchId l, ln_partyType = vj_partyType l,
      ln_partyId = vj_partyId l, ln_referenceType = opt_or (vj_referenceType l) (Some (js_upper (js_trim (pj_sourceType i)))),
      ln_referenceId = opt_or (vj_referenceId l) (Some (js_trim (pj_sourceId i))),
      ln_memo = opt_or (vj_memo l) (pj_description i)\<rparr>"

definition insert_journal :: "FinancialJournal \<Rightarrow> FinancialJournalLine list \<Rightarrow> LedgerDb \<Rightarrow> LedgerDb fin_result" where
  "insert_journal j ls db =
     (if \<not> journal_check db j \<or> \<not> list_all line_check ls then Inl query_failed
      else Inr (db\<lparr>gl_journals := gl_journals db @ [j], gl_lines := gl_lines db @ ls\<rparr>))"

definition lines_of_journal :: "LedgerDb \<Rightarrow> string \<Rightarrow> FinancialJournalLine list" where
  "lines_of_journal db i = js_sort (\<lambda>a b. int (ln_lineNo a) - int (ln_lineNo b)) (filter (\<lambda>l. ln_journalId l = i) (gl_lines db))"

text \<open>The result is the journal and whether it was a replay; its lines are \<open>lines_of_journal\<close>.\<close>

definition postJournalInTx ::
    "(FinancialJournal list \<Rightarrow> FinancialJournal) \<Rightarrow> (string \<Rightarrow> string) \<Rightarrow> LedgerDb \<Rightarrow> PostJournalInTxInput \<Rightarrow> string \<Rightarrow>
     string option \<Rightarrow> int \<Rightarrow> (LedgerDb \<times> FinancialJournal \<times> bool) fin_result" where
  "postJournalInTx pick mkId db input newId requestId now =
     ebind (validateBalancedJournalLines (pj_lines input)) (\<lambda>validated.
       if matching_journals db input \<noteq> []
       then ebind (load_journal (pick (matching_journals db input))) (\<lambda>existing.
              if jn_totalDebit existing \<noteq> vr_totalDebit validated \<or>
                 jn_sourceType existing \<noteq> js_upper (js_trim (pj_sourceType input)) \<or>
                 jn_sourceId existing \<noteq> js_trim (pj_sourceId input)
              then Inl (fin_error IDEMPOTENCY_CONFLICT 409)
              else Inr (db, existing, True))
       else
         let db1 = ensureDefaultAccountsInTx mkId db in
         ebind (emap (check_account db1) (vr_lines validated)) (\<lambda>accounts.
         let (db2, code') = nextFinanceDocumentCode db1 ''JNL'';
             j = new_journal input validated newId code' requestId now in
         ebind (insert_journal j (map2 (new_line input newId) accounts (vr_lines validated)) db2) (\<lambda>db3.
           Inr (db3, j, False))))"

section \<open>Reversing\<close>

definition find_journal :: "LedgerDb \<Rightarrow> string \<Rightarrow> FinancialJournal option" where
  "find_journal db i = find (\<lambda>j. jn_id j = i) (gl_journals db)"

definition reversal_line :: "FinancialJournal \<Rightarrow> string \<Rightarrow> FinancialJournalLine \<Rightarrow> JournalLineInput" where
  "reversal_line orig reason l =
     \<lparr>jl_accountCode = Some (ln_accountCode l), jl_debitAmount = num_arg (ln_credit l), jl_creditAmount = num_arg (ln_debit l),
      jl_branchId = ln_branchId l, jl_partyType = ln_partyType l, jl_partyId = ln_partyId l,
      jl_referenceType = Some ''JOURNAL_REVERSAL'', jl_referenceId = Some (jn_id orig),
      jl_memo = Some (''Reversal of '' @ jn_code orig @ '': '' @ reason)\<rparr>"

definition reversal_input ::
    "string \<Rightarrow> LedgerDb \<Rightarrow> FinancialJournal \<Rightarrow> string \<Rightarrow> string \<Rightarrow> string option \<Rightarrow> PostJournalInTxInput" where
  "reversal_input tenantId db orig actorId reason idempotencyKey =
     \<lparr>pj_journalType = jn_journalType orig @ ''_REVERSAL'', pj_sourceType = ''JOURNAL_REVERSAL'', pj_sourceId = jn_id orig,
      pj_idempotencyKey = opt_or idempotencyKey (Some (''jnl-rev:'' @ tenantId @ '':'' @ jn_id orig)),
      pj_branchId = jn_branchId orig, pj_description = Some (''Reversal of '' @ jn_code orig @ '': '' @ reason),
      pj_effectiveDate = None, pj_postedBy = actorId, pj_correlationId = None, pj_reversalOf = Some (jn_id orig),
      pj_lines = map (reversal_line orig reason) (lines_of_journal db (jn_id orig))\<rparr>"

definition mark_reversed :: "string \<Rightarrow> string \<Rightarrow> LedgerDb \<Rightarrow> LedgerDb" where
  "mark_reversed i by' db =
     db\<lparr>gl_journals := map (\<lambda>j. if jn_id j = i then j\<lparr>jn_status := JN_REVERSED, jn_reversedBy := Some by'\<rparr> else j) (gl_journals db)\<rparr>"

definition reverseJournalInTx ::
    "(FinancialJournal list \<Rightarrow> FinancialJournal) \<Rightarrow> (string \<Rightarrow> string) \<Rightarrow> string \<Rightarrow> LedgerDb \<Rightarrow> string \<Rightarrow> string \<Rightarrow> string \<Rightarrow>
     string option \<Rightarrow> string \<Rightarrow> string option \<Rightarrow> int \<Rightarrow> (LedgerDb \<times> FinancialJournal \<times> bool) fin_result" where
  "reverseJournalInTx pick mkId tenantId db journalId actorId reason idempotencyKey newId requestId now =
     (case find_journal db journalId of
        None \<Rightarrow> Inl (fin_error JOURNAL_NOT_FOUND 404)
      | Some row \<Rightarrow>
          ebind (load_journal row) (\<lambda>orig.
          if jn_status orig = JN_REVERSED \<and> truthy (jn_reversedBy orig)
          then (if truthy idempotencyKey
                then (case find_journal db (the (jn_reversedBy orig)) of
                        None \<Rightarrow> Inl (fin_error POSTING_ALREADY_REVERSED 409)
                      | Some rv \<Rightarrow>
                          ebind (load_journal rv) (\<lambda>revJournal.
                            if jn_idempotencyKey revJournal = js_lower (js_trim (the idempotencyKey))
                            then Inr (db, revJournal, True)
                            else Inl (fin_error POSTING_ALREADY_REVERSED 409)))
                else Inl (fin_error POSTING_ALREADY_REVERSED 409))
          else
            ebind (postJournalInTx pick mkId db (reversal_input tenantId db orig actorId reason idempotencyKey) newId requestId now)
              (\<lambda>(db', posted, replayed). Inr (mark_reversed (jn_id orig) (jn_id posted) db', posted, replayed))))"

section \<open>Entry points\<close>

record PostJournalDto =
  pd_journalType :: string
  pd_sourceType :: string
  pd_sourceId :: string
  pd_branchId :: "string option"
  pd_description :: "string option"
  pd_idempotencyKey :: "string option"
  pd_lines :: "JournalLineInput list"

definition postManualJournal ::
    "(FinancialJournal list \<Rightarrow> FinancialJournal) \<Rightarrow> (string \<Rightarrow> string) \<Rightarrow> LedgerDb \<Rightarrow> string \<Rightarrow> string option \<Rightarrow> PostJournalDto \<Rightarrow>
     string \<Rightarrow> string option \<Rightarrow> int \<Rightarrow> (LedgerDb \<times> FinancialJournal \<times> bool) fin_result" where
  "postManualJournal pick mkId db actorId header dto newId requestId now =
     postJournalInTx pick mkId db
       \<lparr>pj_journalType = pd_journalType dto, pj_sourceType = pd_sourceType dto, pj_sourceId = pd_sourceId dto,
        pj_idempotencyKey = opt_or header (pd_idempotencyKey dto), pj_branchId = pd_branchId dto,
        pj_description = pd_description dto, pj_effectiveDate = None, pj_postedBy = actorId, pj_correlationId = None,
        pj_reversalOf = None, pj_lines = pd_lines dto\<rparr> newId requestId now"

definition reverseJournal ::
    "(FinancialJournal list \<Rightarrow> FinancialJournal) \<Rightarrow> (string \<Rightarrow> string) \<Rightarrow> string \<Rightarrow> LedgerDb \<Rightarrow> string \<Rightarrow> string \<Rightarrow> string option \<Rightarrow>
     string \<Rightarrow> string option \<Rightarrow> string \<Rightarrow> string option \<Rightarrow> int \<Rightarrow> (LedgerDb \<times> FinancialJournal \<times> bool) fin_result" where
  "reverseJournal pick mkId tenantId db journalId actorId header reason dtoKey newId requestId now =
     reverseJournalInTx pick mkId tenantId db journalId actorId reason (opt_or header dtoKey) newId requestId now"

definition getJournalById :: "LedgerDb \<Rightarrow> string \<Rightarrow> (FinancialJournal \<times> FinancialJournalLine list) fin_result" where
  "getJournalById db i =
     (case find_journal db i of
        None \<Rightarrow> Inl (fin_error JOURNAL_NOT_FOUND 404)
      | Some row \<Rightarrow> ebind (load_journal row) (\<lambda>j. Inr (j, lines_of_journal db (jn_id j))))"

section \<open>The invariant\<close>

definition ids_of :: "LedgerDb \<Rightarrow> string list" where
  "ids_of db = map jn_id (gl_journals db)"

definition rows_of :: "LedgerDb \<Rightarrow> string \<Rightarrow> FinancialJournalLine list" where
  "rows_of db i = filter (\<lambda>l. ln_journalId l = i) (gl_lines db)"

definition debits :: "FinancialJournalLine list \<Rightarrow> int" where
  "debits ls = sum_list (map ln_debit ls)"

definition credits :: "FinancialJournalLine list \<Rightarrow> int" where
  "credits ls = sum_list (map ln_credit ls)"

text \<open>A code that the validation of a journal line leaves as it is.\<close>

definition plain_code :: "string \<Rightarrow> bool" where
  "plain_code c \<longleftrightarrow> c \<noteq> [] \<and> js_upper (js_trim c) = c"

definition line_ok :: "LedgerDb \<Rightarrow> FinancialJournalLine \<Rightarrow> bool" where
  "line_ok db l \<longleftrightarrow> ln_journalId l \<in> set (ids_of db) \<and> plain_code (ln_accountCode l) \<and>
     0 \<le> ln_debit l \<and> ln_debit l \<le> max_safe \<and> 0 \<le> ln_credit l \<and> ln_credit l \<le> max_safe \<and> (ln_debit l = 0) \<noteq> (ln_credit l = 0)"

text \<open>A journal whose total is a safe integer balances exactly.\<close>

definition journal_ok :: "LedgerDb \<Rightarrow> FinancialJournal \<Rightarrow> bool" where
  "journal_ok db j \<longleftrightarrow> 0 < jn_totalDebit j \<and> jn_totalCredit j = jn_totalDebit j \<and>
     (jn_totalDebit j \<le> max_safe \<longrightarrow> debits (rows_of db (jn_id j)) = jn_totalDebit j \<and> credits (rows_of db (jn_id j)) = jn_totalDebit j) \<and>
     (jn_status j = JN_REVERSED \<longrightarrow> jn_reversedBy j \<noteq> None)"

definition ledger_ok :: "LedgerDb \<Rightarrow> bool" where
  "ledger_ok db \<longleftrightarrow> distinct (ids_of db) \<and> distinct (map (\<lambda>j. (jn_sourceType j, jn_sourceId j)) (gl_journals db)) \<and>
     distinct (map jn_idempotencyKey (gl_journals db)) \<and> (\<forall>j \<in> set (gl_journals db). journal_ok db j) \<and>
     (\<forall>l \<in> set (gl_lines db). line_ok db l) \<and> (\<forall>a \<in> set (gl_accounts db). plain_code (fa_code a))"

lemma max_safe_pow: "n \<le> max_safe \<longleftrightarrow> n < 2 ^ 53"
  by (simp add: max_safe_def) linarith

lemma load_journal_iff: "load_journal j = Inr k \<longleftrightarrow> k = j \<and> \<bar>jn_totalDebit j\<bar> \<le> max_safe \<and> \<bar>jn_totalCredit j\<bar> \<le> max_safe"
  by (auto simp: load_journal_def finMoney_def is_safe_integer_of_int ok_simps)

section \<open>Accounts\<close>

lemma finance_char_plain: "finance_code_char c \<Longrightarrow> \<not> is_space c \<and> to_upper_char c = c"
  by (auto simp: finance_code_char_def is_space_def is_upper_def is_digit_def to_upper_char_def is_lower_def code_def)

lemma plain_codeI: "c \<noteq> [] \<Longrightarrow> list_all finance_code_char c \<Longrightarrow> plain_code c"
  unfolding plain_code_def
proof -
  assume c: "c \<noteq> []" "list_all finance_code_char c"
  have all: "finance_code_char x" if "x \<in> set c" for x using c(2) that by (simp add: list_all_iff)
  have "js_trim c = c" using c(1) all finance_char_plain by (intro js_trim_id) (auto simp: hd_in_set last_in_set)
  moreover have "js_upper c = c" unfolding js_upper_def using all finance_char_plain by (intro map_idI) auto
  ultimately show "c \<noteq> [] \<and> js_upper (js_trim c) = c" using c(1) by simp
qed

lemma default_codes_plain: "list_all (\<lambda>s. ac_code s \<noteq> [] \<and> list_all finance_code_char (ac_code s)) DEFAULT_FINANCE_ACCOUNTS"
  by code_simp

text \<open>Adding accounts touches nothing else.\<close>

definition more_accounts :: "LedgerDb \<Rightarrow> LedgerDb \<Rightarrow> bool" where
  "more_accounts db db' \<longleftrightarrow> (\<exists>as. db' = db\<lparr>gl_accounts := gl_accounts db @ as\<rparr> \<and> (\<forall>a \<in> set as. plain_code (fa_code a)))"

lemma more_accounts_refl: "more_accounts db db"
  unfolding more_accounts_def by (intro exI [of _ "[]"]) simp

lemma more_accounts_trans:
  assumes "more_accounts a b" "more_accounts b c"
  shows "more_accounts a c"
proof -
  obtain as bs where "b = a\<lparr>gl_accounts := gl_accounts a @ as\<rparr>" "c = b\<lparr>gl_accounts := gl_accounts b @ bs\<rparr>"
    "\<forall>x \<in> set as \<union> set bs. plain_code (fa_code x)" using assms unfolding more_accounts_def by blast
  then show ?thesis unfolding more_accounts_def by (intro exI [of _ "as @ bs"]) simp
qed

lemma more_accounts_add:
  "plain_code (fa_code a) \<Longrightarrow> more_accounts db (db\<lparr>gl_accounts := gl_accounts db @ [a]\<rparr>)"
  unfolding more_accounts_def by (intro exI [of _ "[a]"]) simp

lemma ensure_more: "more_accounts db (ensureDefaultAccountsInTx mkId db)"
proof -
  have "more_accounts db (fold (add_default mkId) ss db)" if "list_all (\<lambda>s. ac_code s \<noteq> [] \<and> list_all finance_code_char (ac_code s)) ss" for ss
    using that
  proof (induction ss arbitrary: db)
    case (Cons s ss)
    have "more_accounts db (add_default mkId s db)"
      using Cons.prems by (auto simp: add_default_def intro!: more_accounts_refl more_accounts_add plain_codeI)
    then show ?case using Cons more_accounts_trans by fastforce
  qed (simp add: more_accounts_refl)
  then show ?thesis using default_codes_plain by (simp add: ensureDefaultAccountsInTx_def)
qed

lemma more_accounts_same:
  assumes "more_accounts db db'"
  shows "gl_journals db' = gl_journals db" "gl_lines db' = gl_lines db" "gl_sequence db' = gl_sequence db" "ids_of db' = ids_of db" "rows_of db' = rows_of db"
  using assms by (auto simp: more_accounts_def ids_of_def rows_of_def)

lemma more_accounts_ok: "more_accounts db db' \<Longrightarrow> ledger_ok db \<Longrightarrow> ledger_ok db'"
  by (auto simp: more_accounts_def ledger_ok_def journal_ok_def line_ok_def ids_of_def rows_of_def)

lemma createAccount_more:
  assumes "createAccount mkId db c t s = Inr (db', a)"
  shows "more_accounts db db'"
proof -
  let ?db1 = "ensureDefaultAccountsInTx mkId db"
  obtain code' where n: "normalizeFinanceCode c = Inr code'" using assms by (auto simp: createAccount_def ok_simps)
  then have "plain_code code'" by (auto simp: normalizeFinanceCode_def Let_def intro!: plain_codeI split: if_splits)
  then have "more_accounts ?db1 db'"
    using assms n by (auto simp: createAccount_def Let_def intro!: more_accounts_refl more_accounts_add split: option.splits if_splits)
  then show ?thesis using ensure_more more_accounts_trans by blast
qed

section \<open>Posting\<close>

lemma new_line_sel:
  "ln_journalId (new_line i n a v) = n" "ln_debit (new_line i n a v) = vj_debit v" "ln_credit (new_line i n a v) = vj_credit v"
  "ln_accountCode (new_line i n a v) = fa_code a" "ln_lineNo (new_line i n a v) = vj_lineNo v"
  by (simp_all add: new_line_def)

lemma posted_fresh:
  assumes "postJournalInTx pick mkId db i n rq now = Inr (db', j, False)"
  obtains v accs db1 where "validateBalancedJournalLines (pj_lines i) = Inr v" "matching_journals db i = []"
    "more_accounts db db1" "list_all2 (\<lambda>l a. fa_code a = vj_accountCode l \<and> a \<in> set (gl_accounts db1)) (vr_lines v) accs"
    "jn_id j = n" "jn_totalDebit j = vr_totalDebit v" "jn_totalCredit j = vr_totalCredit v" "jn_status j = JN_POSTED"
    "jn_idempotencyKey j = posting_key i" "jn_sourceType j = js_upper (js_trim (pj_sourceType i))" "jn_sourceId j = js_trim (pj_sourceId i)"
    "jn_reversalOf j = pj_reversalOf i"
    "journal_check db j" "gl_journals db' = gl_journals db @ [j]" "gl_lines db' = gl_lines db @ map2 (new_line i n) accs (vr_lines v)"
    "gl_accounts db' = gl_accounts db1"
proof -
  let ?db1 = "ensureDefaultAccountsInTx mkId db"
  let ?db2 = "fst (nextFinanceDocumentCode ?db1 ''JNL'')"
  obtain v where v: "validateBalancedJournalLines (pj_lines i) = Inr v" using assms by (auto simp: postJournalInTx_def ok_simps)
  have m: "matching_journals db i = []" using assms v by (auto simp: postJournalInTx_def ok_simps split: if_splits)
  obtain accs where a: "emap (check_account ?db1) (vr_lines v) = Inr accs"
    and ins: "insert_journal j (map2 (new_line i n) accs (vr_lines v)) ?db2 = Inr db'"
    and j: "\<exists>c. j = new_journal i v n c rq now"
    using assms v m by (cases "nextFinanceDocumentCode ?db1 ''JNL''") (auto simp: postJournalInTx_def ok_simps Let_def)
  have same: "gl_journals ?db2 = gl_journals db" "gl_lines ?db2 = gl_lines db" "gl_accounts ?db2 = gl_accounts ?db1"
    using more_accounts_same [OF ensure_more [of db mkId]] by (simp_all add: nextFinanceDocumentCode_def Let_def)
  have acc: "list_all2 (\<lambda>l a. fa_code a = vj_accountCode l \<and> a \<in> set (gl_accounts ?db1)) (vr_lines v) accs"
    using a unfolding emap_Inr_iff
    by (rule list_all2_mono) (auto simp: check_account_def find_account_def split: option.splits if_splits dest!: find_SomeD)
  have chk: "journal_check db j" using ins by (auto simp: insert_journal_def journal_check_def same split: if_splits)
  show ?thesis
    using that [OF v m ensure_more acc] j ins chk by (auto simp: insert_journal_def same new_journal_def split: if_splits)
qed

lemma map2_sums:
  assumes "length as = length vs"
  shows "map ln_debit (map2 (new_line i n) as vs) = map vj_debit vs" "map ln_credit (map2 (new_line i n) as vs) = map vj_credit vs"
  using assms by (induction as vs rule: list_induct2) (simp_all add: new_line_sel)

lemma map2_totals:
  assumes "length as = length vs"
  shows "debits (map2 (new_line i n) as vs) = sum_list (map vj_debit vs)" "credits (map2 (new_line i n) as vs) = sum_list (map vj_credit vs)"
  unfolding debits_def credits_def map2_sums [OF assms] by (rule refl)+

lemma in_map2: "l \<in> set (map2 f as vs) \<Longrightarrow> \<exists>k. k < length as \<and> k < length vs \<and> l = f (as ! k) (vs ! k)"
  by (auto simp: in_set_zip)

lemma validated_line:
  assumes "validateBalancedJournalLines ls = Inr v" "x \<in> set (vr_lines v)"
  shows "0 \<le> vj_debit x \<and> vj_debit x \<le> max_safe \<and> 0 \<le> vj_credit x \<and> vj_credit x \<le> max_safe \<and> (vj_debit x = 0) \<noteq> (vj_credit x = 0)"
proof -
  obtain k where "k < length (vr_lines v)" "x = vr_lines v ! k" using assms(2) by (auto simp: in_set_conv_nth)
  then have "journal_line k (ls ! k) = Inr x" using assms(1) by (auto elim!: journalE simp: emapi_Inr_iff)
  then show ?thesis by (auto simp: journal_line_def ok_simps Let_def dest!: finVnd_bounds)
qed

lemma validated_sums:
  assumes "validateBalancedJournalLines ls = Inr v" "vr_totalDebit v \<le> max_safe"
  shows "sum_list (map vj_debit (vr_lines v)) = vr_totalDebit v" "sum_list (map vj_credit (vr_lines v)) = vr_totalDebit v"
proof -
  have t: "vr_totalDebit v = js_total (map vj_debit (vr_lines v))" "vr_totalDebit v = js_total (map vj_credit (vr_lines v))"
    using assms(1) by (auto elim: journalE)
  have nn: "\<forall>x \<in> set (map vj_debit (vr_lines v)). 0 \<le> x" "\<forall>x \<in> set (map vj_credit (vr_lines v)). 0 \<le> x"
    using validated_line [OF assms(1)] by auto
  show "sum_list (map vj_debit (vr_lines v)) = vr_totalDebit v" "sum_list (map vj_credit (vr_lines v)) = vr_totalDebit v"
    using js_total_exact [OF nn(1)] js_total_exact [OF nn(2)] t assms(2) by (simp_all add: max_safe_pow)
qed

lemma rows_absent: "ledger_ok db \<Longrightarrow> n \<notin> set (ids_of db) \<Longrightarrow> rows_of db n = []"
  by (auto simp: ledger_ok_def line_ok_def rows_of_def filter_empty_conv)

lemma check_ids: "journal_check db j \<Longrightarrow> jn_id j \<notin> set (ids_of db)"
  by (auto simp: journal_check_def ids_of_def list_all_iff)

lemma post_rows:
  assumes "ledger_ok db" "jn_id j \<notin> set (ids_of db)" "gl_lines db' = gl_lines db @ map2 (new_line i (jn_id j)) as vs"
  shows "rows_of db' (jn_id j) = map2 (new_line i (jn_id j)) as vs" "k \<noteq> jn_id j \<Longrightarrow> rows_of db' k = rows_of db k"
proof -
  have all: "\<forall>l \<in> set (map2 (new_line i (jn_id j)) as vs). ln_journalId l = jn_id j" by (auto simp: new_line_sel)
  have "filter (\<lambda>l. ln_journalId l = jn_id j) (map2 (new_line i (jn_id j)) as vs) = map2 (new_line i (jn_id j)) as vs"
    using all by (intro filter_True) simp
  then show "rows_of db' (jn_id j) = map2 (new_line i (jn_id j)) as vs"
    using rows_absent [OF assms(1,2)] assms(3) by (simp add: rows_of_def)
  show "rows_of db' k = rows_of db k" if "k \<noteq> jn_id j"
  proof -
    have "filter (\<lambda>l. ln_journalId l = k) (map2 (new_line i (jn_id j)) as vs) = []" using all that by (intro filter_False) auto
    then show ?thesis using assms(3) by (simp add: rows_of_def)
  qed
qed

lemma post_fresh_ok:
  assumes "ledger_ok db" "postJournalInTx pick mkId db i n rq now = Inr (db', j, False)"
  shows "ledger_ok db'"
proof -
  obtain v accs db1 where p: "validateBalancedJournalLines (pj_lines i) = Inr v" "more_accounts db db1"
    "list_all2 (\<lambda>l a. fa_code a = vj_accountCode l \<and> a \<in> set (gl_accounts db1)) (vr_lines v) accs"
    "jn_id j = n" "jn_totalDebit j = vr_totalDebit v" "jn_totalCredit j = vr_totalCredit v" "jn_status j = JN_POSTED" "journal_check db j"
    "gl_journals db' = gl_journals db @ [j]" "gl_lines db' = gl_lines db @ map2 (new_line i n) accs (vr_lines v)" "gl_accounts db' = gl_accounts db1"
    using assms(2) by (elim posted_fresh) blast
  note ok1 = more_accounts_ok [OF p(2) assms(1)]
  note fresh = check_ids [OF p(8)]
  have len: "length accs = length (vr_lines v)" using p(3) by (simp add: list_all2_lengthD)
  note rows = post_rows [OF assms(1) fresh, of db' i accs "vr_lines v"]
  have ids: "ids_of db' = ids_of db @ [n]" using p(4,9) by (simp add: ids_of_def)
  have tot: "0 < vr_totalDebit v" "vr_totalCredit v = vr_totalDebit v" using p(1) by (auto elim: journalE)
  have new: "journal_ok db' j"
    using validated_sums [OF p(1)] tot p(4-7,10) rows(1)
    by (simp add: journal_ok_def map2_totals [OF len])
  have old: "journal_ok db' o'" if "o' \<in> set (gl_journals db)" for o'
  proof -
    have "jn_id o' \<in> set (ids_of db)" using that by (simp add: ids_of_def)
    then have "jn_id o' \<noteq> jn_id j" using fresh by metis
    then show ?thesis using assms(1) that rows(2) p(4,10) by (simp add: ledger_ok_def journal_ok_def)
  qed
  have nl: "line_ok db' l" if mem: "l \<in> set (map2 (new_line i n) accs (vr_lines v))" for l
  proof -
    obtain k where k: "k < length accs" "k < length (vr_lines v)" "l = new_line i n (accs ! k) (vr_lines v ! k)"
      using in_map2 [OF mem] by blast
    have "accs ! k \<in> set (gl_accounts db1)" using p(3) k by (simp add: list_all2_conv_all_nth)
    then have "plain_code (fa_code (accs ! k))" using ok1 by (simp add: ledger_ok_def)
    then show ?thesis using validated_line [OF p(1), of "vr_lines v ! k"] k ids by (simp add: line_ok_def new_line_sel)
  qed
  have ol: "line_ok db' l" if "l \<in> set (gl_lines db)" for l
    using assms(1) that ids by (simp add: ledger_ok_def line_ok_def)
  have "distinct (ids_of db')" "distinct (map (\<lambda>j. (jn_sourceType j, jn_sourceId j)) (gl_journals db'))" "distinct (map jn_idempotencyKey (gl_journals db'))"
    using assms(1) p(8,9) by (auto simp: ledger_ok_def ids_of_def journal_check_def list_all_iff)
  moreover have "\<forall>a \<in> set (gl_accounts db'). plain_code (fa_code a)" using ok1 p(11) by (simp add: ledger_ok_def)
  ultimately show ?thesis using new old nl ol p(9,10) unfolding ledger_ok_def by (auto simp del: map_zip_map2)
qed

lemma post_replay_same:
  assumes "postJournalInTx pick mkId db i n rq now = Inr (db', j, True)"
  shows "db' = db" "matching_journals db i \<noteq> []" "j = pick (matching_journals db i)"
    "jn_sourceType j = js_upper (js_trim (pj_sourceType i))" "jn_sourceId j = js_trim (pj_sourceId i)"
  using assms by (auto simp: postJournalInTx_def ok_simps Let_def load_journal_iff split: if_splits prod.splits)

lemma post_ok: "ledger_ok db \<Longrightarrow> postJournalInTx pick mkId db i n rq now = Inr (db', j, c) \<Longrightarrow> ledger_ok db'"
  by (cases c) (auto dest: post_fresh_ok post_replay_same(1))

section \<open>Reversing\<close>

lemma mark_same:
  "ids_of (mark_reversed k n db) = ids_of db" "gl_lines (mark_reversed k n db) = gl_lines db" "gl_accounts (mark_reversed k n db) = gl_accounts db"
  "rows_of (mark_reversed k n db) = rows_of db"
  by (auto simp: mark_reversed_def ids_of_def rows_of_def)

lemma mark_ok:
  assumes "ledger_ok db"
  shows "ledger_ok (mark_reversed k n db)"
proof -
  let ?f = "\<lambda>j. if jn_id j = k then j\<lparr>jn_status := JN_REVERSED, jn_reversedBy := Some n\<rparr> else j"
  have j: "gl_journals (mark_reversed k n db) = map ?f (gl_journals db)" by (simp add: mark_reversed_def)
  have m: "map (\<lambda>j. (jn_sourceType j, jn_sourceId j)) (map ?f xs) = map (\<lambda>j. (jn_sourceType j, jn_sourceId j)) xs"
    "map jn_idempotencyKey (map ?f xs) = map jn_idempotencyKey xs" for xs by simp_all
  have "journal_ok (mark_reversed k n db) (?f x)" if "x \<in> set (gl_journals db)" for x
    using assms that by (auto simp: ledger_ok_def journal_ok_def mark_same)
  then have "\<forall>x \<in> set (map ?f (gl_journals db)). journal_ok (mark_reversed k n db) x" by (simp only: set_map ball_simps) blast
  moreover have "line_ok (mark_reversed k n db) l = line_ok db l" for l by (simp add: line_ok_def mark_same)
  ultimately show ?thesis using assms unfolding ledger_ok_def mark_same j m by blast
qed


lemma reverse_cases:
  assumes "reverseJournalInTx pick mkId t db i actor why key n rq now = Inr (db', j, c)"
  obtains (again) "db' = db" "c"
  | (first) orig db1 where "find_journal db i = Some orig" "\<bar>jn_totalDebit orig\<bar> \<le> max_safe" "\<not> (jn_status orig = JN_REVERSED \<and> truthy (jn_reversedBy orig))"
      "postJournalInTx pick mkId db (reversal_input t db orig actor why key) n rq now = Inr (db1, j, c)"
      "db' = mark_reversed (jn_id orig) (jn_id j) db1"
  using assms by (auto simp: reverseJournalInTx_def ok_simps load_journal_iff split: option.splits if_splits)

lemma reverse_ok:
  assumes "ledger_ok db" "reverseJournalInTx pick mkId t db i actor why key n rq now = Inr (db', j, c)"
  shows "ledger_ok db'"
  using assms(2) by (cases rule: reverse_cases) (use assms(1) post_ok mark_ok in \<open>auto\<close>)

text \<open>The balance of an account over some lines: debits less credits.\<close>

definition balance_of :: "FinancialJournalLine list \<Rightarrow> string \<Rightarrow> int" where
  "balance_of ls c = sum_list (map (\<lambda>l. ln_debit l - ln_credit l) (filter (\<lambda>l. ln_accountCode l = c) ls))"

lemma balance_append [simp]: "balance_of (xs @ ys) c = balance_of xs c + balance_of ys c"
  by (simp add: balance_of_def)

lemma balance_lines_of [simp]: "balance_of (lines_of_journal db i) c = balance_of (rows_of db i) c"
  by (simp add: balance_of_def lines_of_journal_def rows_of_def)




section \<open>Runs\<close>

text \<open>Each rule is one transaction; the other finance services post and reverse inside theirs through the same methods.\<close>

inductive ledger_move :: "LedgerDb \<Rightarrow> LedgerDb \<Rightarrow> bool" where
  lm_account: "createAccount mkId db c ty si = Inr (db', a) \<Longrightarrow> ledger_move db db'"
| lm_accounts: "ledger_move db (ensureDefaultAccountsInTx mkId db)"
| lm_post: "postJournalInTx pick mkId db i n rq now = Inr (db', j, replayed) \<Longrightarrow> ledger_move db db'"
| lm_reverse: "reverseJournalInTx pick mkId t db i actor why key n rq now = Inr (db', j, replayed) \<Longrightarrow> ledger_move db db'"

definition empty_ledger :: LedgerDb where
  "empty_ledger = \<lparr>gl_accounts = [], gl_journals = [], gl_lines = [], gl_sequence = []\<rparr>"

inductive ledger_reach :: "LedgerDb \<Rightarrow> bool" where
  lr_empty: "ledger_reach empty_ledger"
| lr_move: "ledger_reach db \<Longrightarrow> ledger_move db db' \<Longrightarrow> ledger_reach db'"

lemma ledger_move_ok: "ledger_move db db' \<Longrightarrow> ledger_ok db \<Longrightarrow> ledger_ok db'"
  by (induction rule: ledger_move.induct) (auto intro: more_accounts_ok createAccount_more ensure_more post_ok reverse_ok)

lemma ledger_reach_ok: "ledger_reach db \<Longrightarrow> ledger_ok db"
proof (induction rule: ledger_reach.induct)
  case lr_empty
  show ?case by (simp add: ledger_ok_def empty_ledger_def ids_of_def)
qed (rule ledger_move_ok)

text \<open>Lines add up journal by journal.\<close>

lemma sum_indicator: "distinct is \<Longrightarrow> a \<in> set is \<Longrightarrow> sum_list (map (\<lambda>i. if a = i then v else 0) is) = (v :: int)"
proof (induction "is")
  case (Cons i "is")
  show ?case
  proof (cases "a = i")
    case True
    then have "sum_list (map (\<lambda>i. if a = i then v else 0) is) = 0" using Cons.prems(1) by (intro sum_list_all_0) auto
    then show ?thesis using True by simp
  qed (use Cons in auto)
qed simp

lemma sum_partition:
  assumes "distinct is" "\<forall>l \<in> set ls. g l \<in> set is"
  shows "sum_list (map f ls) = sum_list (map (\<lambda>i. sum_list (map f (filter (\<lambda>l. g l = i) ls))) is :: int list)"
  using assms(2)
proof (induction ls)
  case (Cons l ls)
  have "sum_list (map f (filter (\<lambda>x. g x = i) (l # ls))) = (if g l = i then f l else 0) + sum_list (map f (filter (\<lambda>x. g x = i) ls))" for i by simp
  then have "sum_list (map (\<lambda>i. sum_list (map f (filter (\<lambda>x. g x = i) (l # ls)))) is) =
      sum_list (map (\<lambda>i. if g l = i then f l else 0) is) + sum_list (map (\<lambda>i. sum_list (map f (filter (\<lambda>x. g x = i) ls))) is)"
    by (simp only: sum_list_addf)
  then show ?case using Cons sum_indicator [OF assms(1), of "g l" "f l"] by simp
qed (simp add: sum_list_all_0)

lemma trial_balance:
  assumes "ledger_ok db" "\<forall>j \<in> set (gl_journals db). jn_totalDebit j \<le> max_safe"
  shows "debits (gl_lines db) = credits (gl_lines db)"
proof -
  have d: "distinct (ids_of db)" and l: "\<forall>l \<in> set (gl_lines db). ln_journalId l \<in> set (ids_of db)"
    using assms(1) by (auto simp: ledger_ok_def line_ok_def)
  have "debits (rows_of db i) = credits (rows_of db i)" if "i \<in> set (ids_of db)" for i
    using that assms by (fastforce simp: ids_of_def ledger_ok_def journal_ok_def)
  then have "map (\<lambda>i. debits (rows_of db i)) (ids_of db) = map (\<lambda>i. credits (rows_of db i)) (ids_of db)" by (intro map_cong) simp_all
  then have "sum_list (map (\<lambda>i. debits (rows_of db i)) (ids_of db)) = sum_list (map (\<lambda>i. credits (rows_of db i)) (ids_of db))" by (rule arg_cong)
  then show ?thesis
    using sum_partition [OF d l, of ln_debit] sum_partition [OF d l, of ln_credit] unfolding debits_def credits_def rows_of_def by simp
qed

section \<open>Repeating a call\<close>

lemma matching_posted:
  assumes "jn_idempotencyKey j = posting_key i" "matching_journals db i = []" "gl_journals db' = gl_journals db @ [j]"
  shows "matching_journals db' i = [j]"
  using assms by (simp add: matching_journals_def)

lemma validated_total_pos: "validateBalancedJournalLines ls = Inr v \<Longrightarrow> 0 < vr_totalDebit v \<and> vr_totalCredit v = vr_totalDebit v"
  by (auto elim: journalE)

text \<open>A posting with another set of lines under the source or key of a posted journal.\<close>

lemma post_existing:
  assumes "matching_journals db i = [j]" "\<And>xs. xs \<noteq> [] \<Longrightarrow> pick xs \<in> set xs"
    and "validateBalancedJournalLines (pj_lines i) = Inr v" "0 < jn_totalDebit j" "jn_totalDebit j \<le> max_safe" "jn_totalCredit j = jn_totalDebit j"
  shows "postJournalInTx pick mkId db i n rq now =
    (if jn_totalDebit j \<noteq> vr_totalDebit v \<or> jn_sourceType j \<noteq> js_upper (js_trim (pj_sourceType i)) \<or> jn_sourceId j \<noteq> js_trim (pj_sourceId i)
     then Inl (fin_error IDEMPOTENCY_CONFLICT 409) else Inr (db, j, True))"
proof -
  have "pick [j] = j" using assms(2) [of "[j]"] by simp
  moreover have "load_journal j = Inr j" using assms(4-6) by (simp add: load_journal_iff)
  ultimately show ?thesis by (simp add: postJournalInTx_def assms(1,3))
qed



section \<open>Properties\<close>

text \<open>A shop sells for cash, then the sale is reversed.\<close>

definition cash_sale :: PostJournalDto where
  "cash_sale = \<lparr>pd_journalType = ''sale'', pd_sourceType = ''order'', pd_sourceId = ''O1'', pd_branchId = None, pd_description = None,
     pd_idempotencyKey = None, pd_lines = [sample_journal_line ''1110'' 500 0, sample_journal_line ''5110'' 0 500]\<rparr>"

definition sale_ledger :: "(LedgerDb \<times> FinancialJournal \<times> bool) fin_result" where
  "sale_ledger = postManualJournal hd id empty_ledger ''ann'' None cash_sale ''J1'' None 1"

lemma sale_reach: "sale_ledger = Inr (db, j, c) \<Longrightarrow> ledger_reach db"
  unfolding sale_ledger_def postManualJournal_def by (rule lr_move [OF lr_empty lm_post])

text \<open>
  C21: double entry: in every state that posting, reversing and account creation can reach, every journal whose total is a safe integer has
  lines whose debits and whose credits both add up to that total, every line is on one side, no two journals share a source or an idempotency key,
  and the trial balance holds: when all totals are safe integers, all debits of the ledger equal all credits.
\<close>

theorem ledger_always_balanced:
  assumes "ledger_reach db"
  shows "(\<forall>j \<in> set (gl_journals db). jn_totalDebit j \<le> max_safe \<longrightarrow>
      debits (rows_of db (jn_id j)) = jn_totalDebit j \<and> credits (rows_of db (jn_id j)) = jn_totalDebit j) \<and>
    (\<forall>l \<in> set (gl_lines db). 0 \<le> ln_debit l \<and> 0 \<le> ln_credit l \<and> (0 < ln_debit l) \<noteq> (0 < ln_credit l)) \<and>
    distinct (map (\<lambda>j. (jn_sourceType j, jn_sourceId j)) (gl_journals db)) \<and> distinct (map jn_idempotencyKey (gl_journals db)) \<and>
    ((\<forall>j \<in> set (gl_journals db). jn_totalDebit j \<le> max_safe) \<longrightarrow> debits (gl_lines db) = credits (gl_lines db))"
proof (intro conjI impI)
  note ok = ledger_reach_ok [OF assms]
  show "\<forall>j \<in> set (gl_journals db). jn_totalDebit j \<le> max_safe \<longrightarrow>
      debits (rows_of db (jn_id j)) = jn_totalDebit j \<and> credits (rows_of db (jn_id j)) = jn_totalDebit j"
    using ok by (simp add: ledger_ok_def journal_ok_def)
  have "0 \<le> ln_debit l \<and> 0 \<le> ln_credit l \<and> (0 < ln_debit l) \<noteq> (0 < ln_credit l)" if "line_ok db l" for l
    using that by (auto simp: line_ok_def)
  then show "\<forall>l \<in> set (gl_lines db). 0 \<le> ln_debit l \<and> 0 \<le> ln_credit l \<and> (0 < ln_debit l) \<noteq> (0 < ln_credit l)"
    using ok by (simp add: ledger_ok_def)
  show "distinct (map (\<lambda>j. (jn_sourceType j, jn_sourceId j)) (gl_journals db))" "distinct (map jn_idempotencyKey (gl_journals db))"
    using ok by (simp_all add: ledger_ok_def)
  show "debits (gl_lines db) = credits (gl_lines db)" if "\<forall>j \<in> set (gl_journals db). jn_totalDebit j \<le> max_safe"
    by (rule trial_balance [OF ok that])
qed

lemma sale_totals: "case sale_ledger of Inl _ \<Rightarrow> False | Inr (db, j, c) \<Rightarrow>
    \<not> c \<and> list_all (\<lambda>j. jn_totalDebit j \<le> max_safe) (gl_journals db) \<and> length (gl_lines db) = 2"
  by code_simp

theorem ledger_always_balanced_witness:
  "\<exists>db j. sale_ledger = Inr (db, j, False) \<and> length (gl_lines db) = 2 \<and> debits (gl_lines db) = credits (gl_lines db)"
proof -
  obtain db j where s: "sale_ledger = Inr (db, j, False)" "\<forall>j \<in> set (gl_journals db). jn_totalDebit j \<le> max_safe" "length (gl_lines db) = 2"
    using sale_totals by (auto simp: list_all_iff split: sum.splits prod.splits)
  then show ?thesis using ledger_always_balanced [OF sale_reach [OF s(1)]] by blast
qed




text \<open>
  Posting is idempotent: after a posting, a call with the same source and key posts nothing and, when its lines
  have the same total, returns the journal already posted; with another total it is refused as a conflict.
\<close>

theorem posting_idempotent:
  assumes "postJournalInTx pick mkId db i n rq now = Inr (db', j, False)" "jn_totalDebit j \<le> max_safe"
    and "\<And>xs. xs \<noteq> [] \<Longrightarrow> pick' xs \<in> set xs" "validateBalancedJournalLines ls = Inr v"
  shows "postJournalInTx pick' mkId' db' (i\<lparr>pj_lines := ls\<rparr>) n' rq' now' =
    (if vr_totalDebit v = jn_totalDebit j then Inr (db', j, True) else Inl (fin_error IDEMPOTENCY_CONFLICT 409))"
proof -
  obtain w accs db1 where p: "validateBalancedJournalLines (pj_lines i) = Inr w" "matching_journals db i = []"
    "more_accounts db db1" "list_all2 (\<lambda>l a. fa_code a = vj_accountCode l \<and> a \<in> set (gl_accounts db1)) (vr_lines w) accs"
    "jn_id j = n" "jn_totalDebit j = vr_totalDebit w" "jn_totalCredit j = vr_totalCredit w" "jn_status j = JN_POSTED"
    "jn_idempotencyKey j = posting_key i" "jn_sourceType j = js_upper (js_trim (pj_sourceType i))" "jn_sourceId j = js_trim (pj_sourceId i)"
    "jn_reversalOf j = pj_reversalOf i"
    "journal_check db j" "gl_journals db' = gl_journals db @ [j]" "gl_lines db' = gl_lines db @ map2 (new_line i n) accs (vr_lines w)"
    "gl_accounts db' = gl_accounts db1" by (rule posted_fresh [OF assms(1)])
  have "posting_key (i\<lparr>pj_lines := ls\<rparr>) = posting_key i" by (cases "pj_idempotencyKey i") (simp_all add: posting_key_def)
  then have "matching_journals db' (i\<lparr>pj_lines := ls\<rparr>) = [j]" using matching_posted [OF p(9,2,14)] by (simp add: matching_journals_def)
  then show ?thesis
    using post_existing [of db' "i\<lparr>pj_lines := ls\<rparr>" j pick' v] assms(2-4) p(6,7,10,11) validated_total_pos [OF p(1)] by auto
qed

theorem posting_idempotent_witness:
  "\<exists>db i j ls v. postJournalInTx hd id empty_ledger i ''J1'' None 1 = Inr (db, j, False) \<and> validateBalancedJournalLines ls = Inr v \<and>
     vr_totalDebit v \<noteq> jn_totalDebit j \<and>
     postJournalInTx hd id db (i\<lparr>pj_lines := ls\<rparr>) ''J2'' None 2 = Inl (fin_error IDEMPOTENCY_CONFLICT 409)"
proof -
  define i where "i = \<lparr>pj_journalType = ''sale'', pj_sourceType = ''order'', pj_sourceId = ''O1'', pj_idempotencyKey = None, pj_branchId = None,
    pj_description = None, pj_effectiveDate = None, pj_postedBy = ''ann'', pj_correlationId = None, pj_reversalOf = None,
    pj_lines = [sample_journal_line ''1110'' 500 0, sample_journal_line ''5110'' 0 500]\<rparr>"
  let ?ls = "[sample_journal_line ''1110'' 600 0, sample_journal_line ''5110'' 0 600]"
  have "case postJournalInTx hd id empty_ledger i ''J1'' None 1 of Inl _ \<Rightarrow> False | Inr (db, j, c) \<Rightarrow> \<not> c \<and> jn_totalDebit j = 500 \<and> jn_totalDebit j \<le> max_safe"
    unfolding i_def by code_simp
  then obtain db j where d: "postJournalInTx hd id empty_ledger i ''J1'' None 1 = Inr (db, j, False)" "jn_totalDebit j = 500" "jn_totalDebit j \<le> max_safe"
    by (auto split: sum.splits prod.splits)
  have "case validateBalancedJournalLines ?ls of Inl _ \<Rightarrow> False | Inr v \<Rightarrow> vr_totalDebit v = 600" by code_simp
  then obtain v where v: "validateBalancedJournalLines ?ls = Inr v" "vr_totalDebit v = 600" by (auto split: sum.splits)
  have "postJournalInTx hd id db (i\<lparr>pj_lines := ?ls\<rparr>) ''J2'' None 2 = Inl (fin_error IDEMPOTENCY_CONFLICT 409)"
    using posting_idempotent [OF d(1,3) _ v(1), of hd id "''J2''" None 2] d(2) v(2) by simp
  then show ?thesis using d(1,2) v by (intro exI [of _ db] exI [of _ i] exI [of _ j] exI [of _ ?ls] exI [of _ v]) simp
qed

section \<open>Two weaknesses\<close>

text \<open>
  The recognition of a supplier payable posts under a type of 28 characters; with \<^verbatim>\<open>_REVERSAL\<close> it no longer fits the column, so such a journal
  can never be reversed.
\<close>

lemma post_type:
  assumes "postJournalInTx pick mkId db i n rq now = Inr (db', j, False)"
  shows "length (js_upper (js_trim (pj_journalType i))) \<le> 32"
  using assms
  by (cases "nextFinanceDocumentCode (ensureDefaultAccountsInTx mkId db) ''JNL''")
    (auto simp: postJournalInTx_def ok_simps Let_def insert_journal_def journal_check_def new_journal_def split: if_splits)

lemma payable_recognition_irreversible:
  assumes "find_journal db i = Some orig" "jn_journalType orig = ''SUPPLIER_PAYABLE_RECOGNITION''"
  shows "reverseJournalInTx pick mkId t db i actor why key n rq now \<noteq> Inr (db', j, False)"
proof
  assume "reverseJournalInTx pick mkId t db i actor why key n rq now = Inr (db', j, False)"
  then obtain db1 where "postJournalInTx pick mkId db (reversal_input t db orig actor why key) n rq now = Inr (db1, j, False)"
    by (cases rule: reverse_cases) (use assms(1) in auto)
  from post_type [OF this] have "length (js_upper (js_trim (''SUPPLIER_PAYABLE_RECOGNITION'' @ ''_REVERSAL''))) \<le> 32"
    by (simp only: reversal_input_def PostJournalInTxInput.select_convs assms(2))
  moreover have "length (js_upper (js_trim (''SUPPLIER_PAYABLE_RECOGNITION'' @ ''_REVERSAL''))) = 37" by code_simp
  ultimately show False by simp
qed

text \<open>
  A manual journal may name the source of a future reversal: reversing the sale then finds that journal, which has the same total, and marks the
  sale as reversed although no account is put back.
\<close>

definition forged_reversal :: PostJournalDto where
  "forged_reversal = cash_sale\<lparr>pd_sourceType := ''journal_reversal'', pd_sourceId := ''J1'',
     pd_lines := [sample_journal_line ''6420'' 500 0, sample_journal_line ''7110'' 0 500]\<rparr>"

lemma reversal_can_be_forged:
  "case ebind sale_ledger (\<lambda>(db, _). ebind (postManualJournal hd id db ''ann'' None forged_reversal ''J9'' None 2) (\<lambda>(db, _).
      reverseJournal hd id ''T'' db ''J1'' ''bob'' None ''mistake'' None ''J2'' None 3)) of
     Inl _ \<Rightarrow> False
   | Inr (db, j, replayed) \<Rightarrow> replayed \<and> map jn_status (gl_journals db) = [JN_REVERSED, JN_POSTED] \<and> balance_of (gl_lines db) ''1110'' = 500"
  by code_simp

end
