(* ===== verification/CashBook.thy ===== *)
theory CashBook
  imports GeneralLedger
begin

text \<open>
  Cash accounts and the cashbook: \<^verbatim>\<open>apps/finance/src/modules/cash-accounts/cash-accounts.service.ts\<close> and
  \<^verbatim>\<open>apps/finance/src/modules/cashbook/cashbook.service.ts\<close>. A receipt or expense voucher is drafted, approved and posted;
  posting writes a journal (unless the caller brings one) and moves the balance of a cash account; a posted voucher is
  reversed by an opposite one. Every other finance service moves cash through these methods. The tables extend those of the general ledger,
  every method runs in one transaction, and ids, the clock, the payload hash and the row a query without an order picks are arguments.
\<close>

section \<open>Tables\<close>

datatype CashAccountType = CASH_DRAWER | SAFE | BANK | E_WALLET

datatype CashAccountStatus = AC_ACTIVE | AC_INACTIVE | AC_CLOSED

record CashAccount =
  ka_branchId :: "string option"
  ka_code :: string
  ka_name :: string
  ka_accountType :: CashAccountType
  ka_glAccountCode :: string
  ka_currentBalance :: int
  ka_status :: CashAccountStatus
  ka_bankName :: "string option"
  ka_maskedAccountNumber :: "string option"
  ka_version :: int
  ka_createdAt :: int
  ka_updatedAt :: int

record CashbookCategory =
  kc_code :: string
  kc_direction :: CashDirection
  kc_glAccountCode :: string
  kc_isSystem :: bool

datatype VoucherStatus = DRAFT | APPROVED | POSTED | REVERSED | CANCELLED

record CashbookEntry =
  ke_code :: string
  ke_branchId :: "string option"
  ke_cashAccountId :: string
  ke_categoryId :: string
  ke_direction :: CashDirection
  ke_voucherType :: string
  ke_amount :: int
  ke_status :: VoucherStatus
  ke_sourceType :: "string option"
  ke_sourceId :: "string option"
  ke_partyType :: "PartyType option"
  ke_partyId :: "string option"
  ke_shiftId :: "string option"
  ke_journalId :: "string option"
  ke_reversalOfEntryId :: "string option"
  ke_reversedByEntryId :: "string option"
  ke_idempotencyKey :: "string option"
  ke_requestHash :: "string option"
  ke_description :: "string option"
  ke_referenceDoc :: "string option"
  ke_createdBy :: string
  ke_approvedBy :: "string option"
  ke_postedBy :: "string option"
  ke_reversedBy :: "string option"
  ke_approvedAt :: "int option"
  ke_postedAt :: "int option"
  ke_reversedAt :: "int option"
  ke_version :: int
  ke_createdAt :: int
  ke_updatedAt :: int

text \<open>The event of a posted voucher: the voucher, its direction, amount and journal.\<close>

datatype CashEvent = FINANCE_CASHBOOK_ENTRY_POSTED string CashDirection int string

record CashbookDb =
  cb_ledger :: LedgerDb
  cb_accounts :: "(string, CashAccount) jsmap"
  cb_categories :: "(string, CashbookCategory) jsmap"
  cb_entries :: "(string, CashbookEntry) jsmap"
  cb_outbox :: "CashEvent list"

definition load_account :: "CashAccount \<Rightarrow> CashAccount fin_result" where
  "load_account a = ebind (finMoney (ka_currentBalance a)) (\<lambda>_. Inr a)"

definition load_entry :: "CashbookEntry \<Rightarrow> CashbookEntry fin_result" where
  "load_entry e = ebind (finMoney (ke_amount e)) (\<lambda>_. Inr e)"

text \<open>The constraints of the tables, tested where a row is written.\<close>

definition save_account :: "string \<Rightarrow> CashAccount \<Rightarrow> 'a CashbookDb_scheme \<Rightarrow> 'a CashbookDb_scheme fin_result" where
  "save_account k a db =
     (if \<bar>ka_currentBalance a\<bar> < 2 ^ 63 \<and> ka_version a < 2 ^ 31 \<and> length (ka_code a) \<le> 32 \<and> length (ka_name a) \<le> 120 \<and>
         fits 120 (ka_bankName a) \<and> fits 64 (ka_maskedAccountNumber a) \<and>
         list_all (\<lambda>(k', b). k' \<noteq> k \<longrightarrow> ka_code b \<noteq> ka_code a) (cb_accounts db)
      then Inr (db\<lparr>cb_accounts := map_set k a (cb_accounts db)\<rparr>) else Inl query_failed)"

definition entry_row_check :: "CashbookEntry \<Rightarrow> bool" where
  "entry_row_check e \<longleftrightarrow> 0 < ke_amount e \<and> ke_amount e < 2 ^ 63 \<and> ke_version e < 2 ^ 31 \<and> length (ke_code e) \<le> 32 \<and>
     length (ke_voucherType e) \<le> 32 \<and> fits 48 (ke_sourceType e) \<and> fits 128 (ke_sourceId e) \<and> fits 64 (ke_partyId e) \<and>
     fits 128 (ke_idempotencyKey e) \<and> fits 128 (ke_requestHash e) \<and> fits 128 (ke_referenceDoc e) \<and> length (ke_createdBy e) \<le> 64 \<and>
     fits 64 (ke_approvedBy e) \<and> fits 64 (ke_postedBy e) \<and> fits 64 (ke_reversedBy e)"

definition save_entry :: "string \<Rightarrow> CashbookEntry \<Rightarrow> 'a CashbookDb_scheme \<Rightarrow> 'a CashbookDb_scheme fin_result" where
  "save_entry i e db =
     (if entry_row_check e \<and> list_all (\<lambda>(i', b). i' \<noteq> i \<longrightarrow> ke_code b \<noteq> ke_code e \<and>
           (ke_idempotencyKey e = None \<or> ke_idempotencyKey b \<noteq> ke_idempotencyKey e) \<and>
           (ke_reversalOfEntryId e = None \<or> ke_reversalOfEntryId b \<noteq> ke_reversalOfEntryId e)) (cb_entries db)
      then Inr (db\<lparr>cb_entries := map_set i e (cb_entries db)\<rparr>) else Inl query_failed)"

definition insert_entry :: "string \<Rightarrow> CashbookEntry \<Rightarrow> 'a CashbookDb_scheme \<Rightarrow> 'a CashbookDb_scheme fin_result" where
  "insert_entry i e db = (if map_get (cb_entries db) i \<noteq> None then Inl query_failed else save_entry i e db)"

definition cash_code :: "string \<Rightarrow> 'a CashbookDb_scheme \<Rightarrow> 'a CashbookDb_scheme \<times> string" where
  "cash_code prefix db = (let (g, c) = nextFinanceDocumentCode (cb_ledger db) prefix in (db\<lparr>cb_ledger := g\<rparr>, c))"

definition key_of :: "string option \<Rightarrow> string option" where
  "key_of k = (case k of None \<Rightarrow> None | Some s \<Rightarrow> if js_lower (js_trim s) = [] then None else Some (js_lower (js_trim s)))"

section \<open>Cash accounts\<close>

definition account_with :: "((string \<times> CashAccount) list \<Rightarrow> string \<times> CashAccount) \<Rightarrow> (CashAccount \<Rightarrow> bool) \<Rightarrow> 'a CashbookDb_scheme \<Rightarrow> (string \<times> CashAccount) option" where
  "account_with pickAcc P db =
     (let rows = filter (\<lambda>(_, a). P a) (cb_accounts db);
          oldest = filter (\<lambda>(_, a). list_all (\<lambda>(_, b). ka_createdAt a \<le> ka_createdAt b) rows) rows
      in if rows = [] then None else Some (pickAcc oldest))"

definition default_account :: "string option \<Rightarrow> CashAccountType \<Rightarrow> int \<Rightarrow> CashAccount" where
  "default_account branchId accountType now =
     \<lparr>ka_branchId = branchId, ka_code = (if accountType = BANK then ''BANK-MAIN'' else ''CASH-MAIN''),
      ka_name = (if accountType = BANK then ''Main Company Bank Account'' else ''Main Store Cash Drawer''), ka_accountType = accountType,
      ka_glAccountCode = gl (if accountType = BANK then ''CASH_AT_BANK'' else ''CASH_ON_HAND''), ka_currentBalance = 0, ka_status = AC_ACTIVE,
      ka_bankName = None, ka_maskedAccountNumber = None, ka_version = 1, ka_createdAt = now, ka_updatedAt = now\<rparr>"

definition account_by_code :: "string \<Rightarrow> 'a CashbookDb_scheme \<Rightarrow> (string \<times> CashAccount) option" where
  "account_by_code c db = find (\<lambda>(_, a). ka_code a = c) (cb_accounts db)"

text \<open>The service calls it with a cash drawer or a bank account; the row it returns comes with its id.\<close>

definition ensureDefaultCashAccountInTx ::
    "((string \<times> CashAccount) list \<Rightarrow> string \<times> CashAccount) \<Rightarrow> string \<Rightarrow> int \<Rightarrow> 'a CashbookDb_scheme \<Rightarrow> string option \<Rightarrow> CashAccountType \<Rightarrow>
     ('a CashbookDb_scheme \<times> string \<times> CashAccount) fin_result" where
  "ensureDefaultCashAccountInTx pickAcc newId now db branchId accountType =
     (let own = (if truthy branchId \<and> accountType = CASH_DRAWER
                 then account_with pickAcc (\<lambda>a. ka_branchId a = branchId \<and> ka_accountType a = CASH_DRAWER \<and> ka_status a = AC_ACTIVE) db else None);
          some = account_with pickAcc (\<lambda>a. ka_accountType a = accountType \<and> ka_status a = AC_ACTIVE) db;
          fresh = default_account branchId accountType now;
          db1 = (if account_by_code (ka_code fresh) db \<noteq> None then db else db\<lparr>cb_accounts := map_set newId fresh (cb_accounts db)\<rparr>) in
      case own of
        Some (k, a) \<Rightarrow> ebind (load_account a) (\<lambda>a'. Inr (db, k, a'))
      | None \<Rightarrow>
          (case some of
             Some (k, a) \<Rightarrow> ebind (load_account a) (\<lambda>a'. Inr (db, k, a'))
           | None \<Rightarrow>
               (case account_by_code (ka_code fresh) db1 of
                  None \<Rightarrow> Inl (NativeError ''TypeError'')
                | Some (k, a) \<Rightarrow> ebind (load_account a) (\<lambda>a'. Inr (db1, k, a')))))"

record CreateCashAccountDto =
  ka'_branchId :: "string option"
  ka'_code :: "string option"
  ka'_name :: string
  ka'_accountType :: "CashAccountType option"
  ka'_bankName :: "string option"
  ka'_accountNumber :: "string option"

definition createCashAccount ::
    "string \<Rightarrow> int \<Rightarrow> 'a CashbookDb_scheme \<Rightarrow> CreateCashAccountDto \<Rightarrow> ('a CashbookDb_scheme \<times> CashAccount) fin_result" where
  "createCashAccount newId now db dto =
     ebind (normalizeFinanceCode (ka'_code dto)) (\<lambda>c.
     let accountType = (case ka'_accountType dto of None \<Rightarrow> CASH_DRAWER | Some t \<Rightarrow> t);
         glAccountCode = gl (if accountType = BANK \<or> accountType = E_WALLET then ''CASH_AT_BANK'' else ''CASH_ON_HAND'') in
     case account_by_code c db of
       Some (_, row) \<Rightarrow> ebind (load_account row) (\<lambda>_. Inl (fin_error CASH_ACCOUNT_CODE_CONFLICT 409))
     | None \<Rightarrow>
         let entity = \<lparr>ka_branchId = ka'_branchId dto, ka_code = c, ka_name = js_trim (ka'_name dto), ka_accountType = accountType,
               ka_glAccountCode = glAccountCode, ka_currentBalance = 0, ka_status = AC_ACTIVE, ka_bankName = map_option js_trim (ka'_bankName dto),
               ka_maskedAccountNumber = maskBankAccountNumber (ka'_accountNumber dto), ka_version = 1, ka_createdAt = now, ka_updatedAt = now\<rparr> in
         if map_get (cb_accounts db) newId \<noteq> None then Inl query_failed
         else ebind (save_account newId entity db) (\<lambda>db'. Inr (db', entity)))"

definition getCashAccountById :: "'a CashbookDb_scheme \<Rightarrow> string \<Rightarrow> CashAccount fin_result" where
  "getCashAccountById db i =
     (case map_get (cb_accounts db) i of None \<Rightarrow> Inl (fin_error CASH_ACCOUNT_NOT_FOUND 404) | Some row \<Rightarrow> load_account row)"

definition updateCashAccount ::
    "'a CashbookDb_scheme \<Rightarrow> string \<Rightarrow> string option \<Rightarrow> CashAccountStatus option \<Rightarrow> string option \<Rightarrow> int \<Rightarrow> ('a CashbookDb_scheme \<times> CashAccount) fin_result" where
  "updateCashAccount db i name' status' bankName' now =
     (case map_get (cb_accounts db) i of
        None \<Rightarrow> Inl (fin_error CASH_ACCOUNT_NOT_FOUND 404)
      | Some row \<Rightarrow>
          ebind (load_account row) (\<lambda>acc.
          ebind (if status' = Some AC_CLOSED
                 then ebind (parseVnd (num_arg (ka_currentBalance acc)) True True) (\<lambda>balVnd.
                      ebind (throw_if (balVnd \<noteq> 0) (fin_error CASH_ACCOUNT_INACTIVE 409)) (\<lambda>_.
                      throw_if (filter (\<lambda>(_, e). ke_cashAccountId e = i \<and> (ke_status e = DRAFT \<or> ke_status e = APPROVED)) (cb_entries db) \<noteq> [])
                        (fin_error CASH_ACCOUNT_INACTIVE 409)))
                 else Inr ()) (\<lambda>_.
          let acc' = acc\<lparr>ka_name := (case name' of None \<Rightarrow> ka_name acc | Some n \<Rightarrow> js_trim n),
                ka_status := (case status' of None \<Rightarrow> ka_status acc | Some s \<Rightarrow> s),
                ka_bankName := (case bankName' of None \<Rightarrow> ka_bankName acc | Some b \<Rightarrow> Some (js_trim b)),
                ka_version := ka_version acc + 1, ka_updatedAt := now\<rparr> in
          ebind (save_account i acc' db) (\<lambda>db'. Inr (db', acc')))))"

section \<open>Categories\<close>

definition category_by_code :: "string \<Rightarrow> 'a CashbookDb_scheme \<Rightarrow> (string \<times> CashbookCategory) option" where
  "category_by_code c db = find (\<lambda>(_, k). kc_code k = c) (cb_categories db)"

definition add_category :: "(string \<Rightarrow> string) \<Rightarrow> StandardCashbookCategorySpec \<Rightarrow> 'a CashbookDb_scheme \<Rightarrow> 'a CashbookDb_scheme" where
  "add_category mkId spec db =
     (if category_by_code (cat_code spec) db \<noteq> None then db
      else db\<lparr>cb_categories := map_set (mkId (cat_code spec)) \<lparr>kc_code = cat_code spec, kc_direction = cat_direction spec,
                kc_glAccountCode = cat_glAccountCode spec, kc_isSystem = True\<rparr> (cb_categories db)\<rparr>)"

definition ensureDefaultCategoriesInTx :: "(string \<Rightarrow> string) \<Rightarrow> 'a CashbookDb_scheme \<Rightarrow> 'a CashbookDb_scheme" where
  "ensureDefaultCategoriesInTx mkId db = fold (add_category mkId) DEFAULT_CASHBOOK_CATEGORIES db"

definition createCategory ::
    "(string \<Rightarrow> string) \<Rightarrow> 'a CashbookDb_scheme \<Rightarrow> string option \<Rightarrow> CashDirection \<Rightarrow> string option \<Rightarrow> ('a CashbookDb_scheme \<times> CashbookCategory) fin_result" where
  "createCategory mkId db code' direction glAccountCode =
     ebind (normalizeFinanceCode code') (\<lambda>c.
     let db1 = ensureDefaultCategoriesInTx mkId db in
     case category_by_code c db1 of
       Some (_, existing) \<Rightarrow> Inr (db1, existing)
     | None \<Rightarrow>
         let entity = \<lparr>kc_code = c, kc_direction = direction,
               kc_glAccountCode = (case glAccountCode of Some g \<Rightarrow> js_upper (js_trim g)
                 | None \<Rightarrow> gl (if direction = RECEIPT then ''OTHER_INCOME'' else ''OPERATING_EXPENSE'')), kc_isSystem = False\<rparr> in
         if length c > 32 \<or> length (kc_glAccountCode entity) > 32 \<or> map_get (cb_categories db1) (mkId c) \<noteq> None then Inl query_failed
         else Inr (db1\<lparr>cb_categories := map_set (mkId c) entity (cb_categories db1)\<rparr>, entity))"

text \<open>\<open>byCode\<close> is the database's order by code.\<close>

definition listCategories ::
    "(CashbookCategory list \<Rightarrow> CashbookCategory list) \<Rightarrow> (string \<Rightarrow> string) \<Rightarrow> 'a CashbookDb_scheme \<Rightarrow> CashDirection option \<Rightarrow> 'a CashbookDb_scheme \<times> CashbookCategory list" where
  "listCategories byCode mkId db direction =
     (let db1 = ensureDefaultCategoriesInTx mkId db
      in (db1, byCode (filter (\<lambda>k. direction = None \<or> direction = Some (kc_direction k)) (map snd (cb_categories db1)))))"

section \<open>Vouchers\<close>

record VoucherInput =
  vi_actorId :: string
  vi_direction :: CashDirection
  vi_cashAccountId :: string
  vi_categoryId :: "string option"
  vi_categoryCode :: "string option"
  vi_amount :: int
  vi_branchId :: "string option"
  vi_shiftId :: "string option"
  vi_voucherType :: "string option"
  vi_sourceType :: "string option"
  vi_sourceId :: "string option"
  vi_partyType :: "PartyType option"
  vi_partyId :: "string option"
  vi_description :: "string option"
  vi_referenceDoc :: "string option"
  vi_autoPost :: bool
  vi_idempotencyKey :: "string option"
  vi_requestHash :: "string option"
  vi_skipJournalIfLinked :: "string option"

definition show_direction :: "CashDirection \<Rightarrow> string" where
  "show_direction d = (case d of RECEIPT \<Rightarrow> ''RECEIPT'' | EXPENSE_DIRECTION \<Rightarrow> ''EXPENSE'')"

definition cash_line :: "string \<Rightarrow> CashbookEntry \<Rightarrow> bool \<Rightarrow> string \<Rightarrow> JournalLineInput" where
  "cash_line glCode entry debit memo =
     \<lparr>jl_accountCode = Some glCode, jl_debitAmount = (if debit then num_arg (ke_amount entry) else Undefined),
      jl_creditAmount = (if debit then Undefined else num_arg (ke_amount entry)), jl_branchId = ke_branchId entry,
      jl_partyType = None, jl_partyId = None, jl_referenceType = None, jl_referenceId = None, jl_memo = Some memo\<rparr>"

definition category_line :: "string \<Rightarrow> CashbookEntry \<Rightarrow> bool \<Rightarrow> string \<Rightarrow> JournalLineInput" where
  "category_line glCode entry debit memo =
     (cash_line glCode entry debit memo)\<lparr>jl_partyType := ke_partyType entry, jl_partyId := ke_partyId entry,
        jl_memo := opt_or (ke_description entry) (Some memo)\<rparr>"

definition voucher_lines :: "string \<Rightarrow> string \<Rightarrow> CashbookEntry \<Rightarrow> JournalLineInput list" where
  "voucher_lines cashGl categoryGl entry =
     (if ke_direction entry = RECEIPT
      then [cash_line cashGl entry True (''Cash receipt '' @ ke_code entry), category_line categoryGl entry False (''Cash receipt '' @ ke_code entry)]
      else [category_line categoryGl entry True (''Cash expense '' @ ke_code entry), cash_line cashGl entry False (''Cash expense '' @ ke_code entry)])"

definition voucher_journal :: "string \<Rightarrow> CashbookEntry \<Rightarrow> string \<Rightarrow> string option \<Rightarrow> string \<Rightarrow> string \<Rightarrow> PostJournalInTxInput" where
  "voucher_journal i entry actorId cleanKey cashGl categoryGl =
     \<lparr>pj_journalType = (if ke_direction entry = RECEIPT then ''CASHBOOK_RECEIPT'' else ''CASHBOOK_EXPENSE''),
      pj_sourceType = ''CASHBOOK_ENTRY'', pj_sourceId = i, pj_idempotencyKey = opt_or cleanKey (Some (''cb-post:'' @ i)),
      pj_branchId = ke_branchId entry,
      pj_description = opt_or (ke_description entry) (Some (show_direction (ke_direction entry) @ '' voucher '' @ ke_code entry)),
      pj_effectiveDate = None, pj_postedBy = actorId, pj_correlationId = None, pj_reversalOf = None,
      pj_lines = voucher_lines cashGl categoryGl entry\<rparr>"

definition balance_after :: "CashDirection \<Rightarrow> int \<Rightarrow> int \<Rightarrow> int" where
  "balance_after d curBalVnd amtVnd = (if d = RECEIPT then fli (curBalVnd + amtVnd) else fli (curBalVnd - amtVnd))"

definition posted_entry :: "CashbookEntry \<Rightarrow> string \<Rightarrow> string \<Rightarrow> string option \<Rightarrow> int \<Rightarrow> CashbookEntry" where
  "posted_entry entry actorId journalId cleanKey now =
     entry\<lparr>ke_status := POSTED, ke_approvedBy := opt_or (ke_approvedBy entry) (Some actorId),
       ke_approvedAt := opt_or (ke_approvedAt entry) (Some now), ke_postedBy := Some actorId, ke_postedAt := Some now,
       ke_journalId := Some journalId,
       ke_idempotencyKey := (if cleanKey \<noteq> None \<and> \<not> truthy (ke_idempotencyKey entry) then cleanKey else ke_idempotencyKey entry),
       ke_version := ke_version entry + 1, ke_updatedAt := now\<rparr>"

text \<open>The journal of a posting: the one the caller brings, or a new one.\<close>

definition posting_journal ::
    "(FinancialJournal list \<Rightarrow> FinancialJournal) \<Rightarrow> (string \<Rightarrow> string) \<Rightarrow> 'a CashbookDb_scheme \<Rightarrow> string option \<Rightarrow> PostJournalInTxInput \<Rightarrow> string \<Rightarrow>
     string option \<Rightarrow> int \<Rightarrow> ('a CashbookDb_scheme \<times> string) fin_result" where
  "posting_journal pick mkId db preLinked input journalId requestId now =
     (if truthy preLinked then Inr (db, the preLinked)
      else ebind (postJournalInTx pick mkId (cb_ledger db) input journalId requestId now)
             (\<lambda>(g, j, _). Inr (db\<lparr>cb_ledger := g\<rparr>, jn_id j)))"

definition postEntryInTx ::
    "(FinancialJournal list \<Rightarrow> FinancialJournal) \<Rightarrow> (string \<Rightarrow> string) \<Rightarrow> 'a CashbookDb_scheme \<Rightarrow> string \<Rightarrow> string \<Rightarrow> string option \<Rightarrow> string option \<Rightarrow>
     string \<Rightarrow> string option \<Rightarrow> int \<Rightarrow> ('a CashbookDb_scheme \<times> string \<times> CashbookEntry) fin_result" where
  "postEntryInTx pick mkId db entryId actorId idempotencyKey preLinkedJournalId journalId requestId now =
     (case map_get (cb_entries db) entryId of
        None \<Rightarrow> Inl (fin_error CASHBOOK_ENTRY_NOT_FOUND 404)
      | Some row \<Rightarrow>
          ebind (load_entry row) (\<lambda>entry.
          let cleanKey = key_of idempotencyKey in
          if ke_status entry = POSTED
          then (if cleanKey \<noteq> None \<and> ke_idempotencyKey entry = cleanKey then Inr (db, entryId, entry)
                else Inl (fin_error CASHBOOK_ENTRY_ALREADY_POSTED 409))
          else if ke_status entry \<noteq> DRAFT \<and> ke_status entry \<noteq> APPROVED then Inl (fin_error CASHBOOK_ENTRY_INVALID_STATE 409)
          else (case map_get (cb_accounts db) (ke_cashAccountId entry) of
             None \<Rightarrow> Inl (fin_error CASH_ACCOUNT_NOT_FOUND 404)
           | Some arow \<Rightarrow>
               ebind (load_account arow) (\<lambda>acc.
               if ka_status acc \<noteq> AC_ACTIVE then Inl (fin_error CASH_ACCOUNT_INACTIVE 409)
               else
                 let categoryGl = (case map_get (cb_categories db) (ke_categoryId entry) of Some c \<Rightarrow> kc_glAccountCode c
                       | None \<Rightarrow> gl (if ke_direction entry = RECEIPT then ''OTHER_INCOME'' else ''OPERATING_EXPENSE'')) in
                 ebind (posting_journal pick mkId db preLinkedJournalId
                          (voucher_journal entryId entry actorId cleanKey (ka_glAccountCode acc) categoryGl) journalId requestId now) (\<lambda>(db1, jid).
                 ebind (parseVnd (num_arg (ka_currentBalance acc)) True True) (\<lambda>curBalVnd.
                 ebind (parseVnd (num_arg (ke_amount entry)) False False) (\<lambda>amtVnd.
                 let acc' = acc\<lparr>ka_currentBalance := balance_after (ke_direction entry) curBalVnd amtVnd,
                                ka_version := ka_version acc + 1, ka_updatedAt := now\<rparr>;
                     entry' = posted_entry entry actorId jid cleanKey now in
                 ebind (save_account (ke_cashAccountId entry) acc' db1) (\<lambda>db2.
                 ebind (save_entry entryId entry' db2) (\<lambda>db3.
                   Inr (db3\<lparr>cb_outbox := cb_outbox db3 @ [FINANCE_CASHBOOK_ENTRY_POSTED entryId (ke_direction entry) (ke_amount entry) jid]\<rparr>,
                        entryId, entry'))))))))))"

definition entry_by_key :: "string \<Rightarrow> 'a CashbookDb_scheme \<Rightarrow> (string \<times> CashbookEntry) option" where
  "entry_by_key k db = find (\<lambda>(_, e). ke_idempotencyKey e = Some k) (cb_entries db)"

definition find_category :: "'a CashbookDb_scheme \<Rightarrow> VoucherInput \<Rightarrow> (string \<times> CashbookCategory) option" where
  "find_category db input =
     (if truthy (vi_categoryId input) then map_option (Pair (the (vi_categoryId input))) (map_get (cb_categories db) (the (vi_categoryId input)))
      else if truthy (vi_categoryCode input) then category_by_code (js_upper (js_trim (the (vi_categoryCode input)))) db
      else category_by_code (if vi_direction input = RECEIPT then ''OTHER_RECEIPT'' else ''OPERATING_EXPENSE'') db)"

definition new_voucher :: "VoucherInput \<Rightarrow> CashAccount \<Rightarrow> string \<Rightarrow> string \<Rightarrow> int \<Rightarrow> CashbookEntry" where
  "new_voucher input acc categoryId code' now =
     \<lparr>ke_code = code', ke_branchId = opt_or (vi_branchId input) (ka_branchId acc), ke_cashAccountId = vi_cashAccountId input,
      ke_categoryId = categoryId, ke_direction = vi_direction input,
      ke_voucherType = (case vi_voucherType input of None \<Rightarrow> ''MANUAL'' | Some t \<Rightarrow> t), ke_amount = vi_amount input, ke_status = DRAFT,
      ke_sourceType = vi_sourceType input, ke_sourceId = vi_sourceId input, ke_partyType = vi_partyType input, ke_partyId = vi_partyId input,
      ke_shiftId = vi_shiftId input, ke_journalId = None, ke_reversalOfEntryId = None, ke_reversedByEntryId = None,
      ke_idempotencyKey = vi_idempotencyKey input, ke_requestHash = vi_requestHash input, ke_description = vi_description input,
      ke_referenceDoc = vi_referenceDoc input, ke_createdBy = vi_actorId input, ke_approvedBy = None, ke_postedBy = None, ke_reversedBy = None,
      ke_approvedAt = None, ke_postedAt = None, ke_reversedAt = None, ke_version = 1, ke_createdAt = now, ke_updatedAt = now\<rparr>"

text \<open>The ids of one call: of the new voucher and, when it is posted, of its journal; \<open>mkCat\<close> gives the ids of default categories.\<close>

definition draft_voucher ::
    "(string \<Rightarrow> string) \<Rightarrow> 'a CashbookDb_scheme \<Rightarrow> VoucherInput \<Rightarrow> string \<Rightarrow> int \<Rightarrow> ('a CashbookDb_scheme \<times> CashbookEntry) fin_result" where
  "draft_voucher mkCat db input entryId now =
     (case map_get (cb_accounts db) (vi_cashAccountId input) of
        None \<Rightarrow> Inl (fin_error CASH_ACCOUNT_NOT_FOUND 404)
      | Some arow \<Rightarrow>
          ebind (load_account arow) (\<lambda>acc.
          if ka_status acc \<noteq> AC_ACTIVE then Inl (fin_error CASH_ACCOUNT_INACTIVE 409)
          else
            let db1 = ensureDefaultCategoriesInTx mkCat db in
            (case find_category db1 input of
               None \<Rightarrow> Inl (fin_error CASHBOOK_CATEGORY_NOT_FOUND 404)
             | Some (cid, cat) \<Rightarrow>
                 ebind (throw_if (kc_direction cat \<noteq> vi_direction input) (fin_error VALIDATION_ERROR 422)) (\<lambda>_.
                 ebind (throw_if (vi_direction input = EXPENSE_DIRECTION \<and> (\<not> truthy (vi_description input) \<or> js_trim (the (vi_description input)) = []))
                          (fin_error VALIDATION_ERROR 422)) (\<lambda>_.
                 let (db2, code') = cash_code (if vi_direction input = RECEIPT then ''PT'' else ''PC'') db1;
                     entry = new_voucher input acc cid code' now in
                 ebind (insert_entry entryId entry db2) (\<lambda>db3. Inr (db3, entry)))))))"

definition createAndOptionallyPostVoucherInTx ::
    "(FinancialJournal list \<Rightarrow> FinancialJournal) \<Rightarrow> (string \<Rightarrow> string) \<Rightarrow> (string \<Rightarrow> string) \<Rightarrow> 'a CashbookDb_scheme \<Rightarrow> VoucherInput \<Rightarrow>
     string \<Rightarrow> string \<Rightarrow> string option \<Rightarrow> int \<Rightarrow> ('a CashbookDb_scheme \<times> string \<times> CashbookEntry) fin_result" where
  "createAndOptionallyPostVoucherInTx pick mkId mkCat db input entryId journalId requestId now =
     (case (if truthy (vi_idempotencyKey input) then entry_by_key (the (vi_idempotencyKey input)) db else None) of
        Some (i, row) \<Rightarrow>
          ebind (load_entry row) (\<lambda>existing.
          if truthy (vi_requestHash input) \<and> truthy (ke_requestHash existing) \<and> ke_requestHash existing \<noteq> vi_requestHash input
          then Inl (fin_error IDEMPOTENCY_CONFLICT 409)
          else if vi_autoPost input \<and> ke_status existing \<noteq> POSTED
          then postEntryInTx pick mkId db i (vi_actorId input) (vi_idempotencyKey input) (vi_skipJournalIfLinked input) journalId requestId now
          else Inr (db, i, existing))
      | None \<Rightarrow>
          ebind (draft_voucher mkCat db input entryId now) (\<lambda>(db1, entry).
          if vi_autoPost input
          then postEntryInTx pick mkId db1 entryId (vi_actorId input) (vi_idempotencyKey input) (vi_skipJournalIfLinked input) journalId requestId now
          else Inr (db1, entryId, entry)))"

record CreateCashbookVoucherDto =
  vd_cashAccountId :: string
  vd_categoryId :: "string option"
  vd_categoryCode :: "string option"
  vd_amount :: jsnum
  vd_branchId :: "string option"
  vd_shiftId :: "string option"
  vd_voucherType :: "string option"
  vd_sourceType :: "string option"
  vd_sourceId :: "string option"
  vd_partyType :: "PartyType option"
  vd_partyId :: "string option"
  vd_description :: "string option"
  vd_referenceDoc :: "string option"
  vd_autoPost :: bool
  vd_idempotencyKey :: "string option"

type_synonym voucher_payload =
  "CashDirection \<times> string \<times> string option \<times> string option \<times> int \<times> string option \<times> string option \<times> string option"

definition createVoucher ::
    "(voucher_payload \<Rightarrow> string) \<Rightarrow> (FinancialJournal list \<Rightarrow> FinancialJournal) \<Rightarrow> (string \<Rightarrow> string) \<Rightarrow> (string \<Rightarrow> string) \<Rightarrow> 'a CashbookDb_scheme \<Rightarrow>
     string \<Rightarrow> CashDirection \<Rightarrow> string option \<Rightarrow> CreateCashbookVoucherDto \<Rightarrow> string list option \<Rightarrow> string \<Rightarrow> string \<Rightarrow> string option \<Rightarrow> int \<Rightarrow>
     ('a CashbookDb_scheme \<times> string \<times> CashbookEntry) fin_result" where
  "createVoucher computePayloadHash pick mkId mkCat db actorId direction header dto scope entryId journalId requestId now =
     ebind (parseVnd (Num (vd_amount dto)) False False) (\<lambda>amountVnd.
     let cleanKey = key_of (opt_or header (vd_idempotencyKey dto));
         reqHash = computePayloadHash (direction, vd_cashAccountId dto, vd_categoryId dto, vd_categoryCode dto, amountVnd, vd_branchId dto,
           vd_sourceType dto, vd_sourceId dto) in
     ebind (case scope of
              None \<Rightarrow> Inr ()
            | Some branches \<Rightarrow>
                (case map_get (cb_accounts db) (vd_cashAccountId dto) of
                   None \<Rightarrow> Inr ()
                 | Some row \<Rightarrow> ebind (load_account row) (\<lambda>acc.
                     throw_if (\<not> truthy (ka_branchId acc) \<or> the (ka_branchId acc) \<notin> set branches) (fin_error CASH_ACCOUNT_NOT_FOUND 404)))) (\<lambda>_.
       createAndOptionallyPostVoucherInTx pick mkId mkCat db
         \<lparr>vi_actorId = actorId, vi_direction = direction, vi_cashAccountId = vd_cashAccountId dto, vi_categoryId = vd_categoryId dto,
          vi_categoryCode = vd_categoryCode dto, vi_amount = amountVnd, vi_branchId = vd_branchId dto, vi_shiftId = vd_shiftId dto,
          vi_voucherType = Some (case vd_voucherType dto of None \<Rightarrow> ''MANUAL'' | Some t \<Rightarrow> t), vi_sourceType = vd_sourceType dto, vi_sourceId = vd_sourceId dto,
          vi_partyType = vd_partyType dto, vi_partyId = vd_partyId dto, vi_description = vd_description dto, vi_referenceDoc = vd_referenceDoc dto,
          vi_autoPost = vd_autoPost dto, vi_idempotencyKey = cleanKey, vi_requestHash = Some reqHash, vi_skipJournalIfLinked = None\<rparr>
         entryId journalId requestId now))"

definition createReceiptVoucher where
  "createReceiptVoucher computePayloadHash pick mkId mkCat db actorId = createVoucher computePayloadHash pick mkId mkCat db actorId RECEIPT"

definition createExpenseVoucher where
  "createExpenseVoucher computePayloadHash pick mkId mkCat db actorId = createVoucher computePayloadHash pick mkId mkCat db actorId EXPENSE_DIRECTION"

definition approveEntry :: "'a CashbookDb_scheme \<Rightarrow> string \<Rightarrow> string \<Rightarrow> int \<Rightarrow> ('a CashbookDb_scheme \<times> CashbookEntry) fin_result" where
  "approveEntry db entryId actorId now =
     (case map_get (cb_entries db) entryId of
        None \<Rightarrow> Inl (fin_error CASHBOOK_ENTRY_NOT_FOUND 404)
      | Some row \<Rightarrow>
          ebind (load_entry row) (\<lambda>entry.
          if ke_status entry = APPROVED \<or> ke_status entry = POSTED then Inr (db, entry)
          else if ke_status entry \<noteq> DRAFT then Inl (fin_error CASHBOOK_ENTRY_INVALID_STATE 409)
          else
            let entry' = entry\<lparr>ke_status := APPROVED, ke_approvedBy := Some actorId, ke_approvedAt := Some now,
                               ke_version := ke_version entry + 1, ke_updatedAt := now\<rparr> in
            ebind (save_entry entryId entry' db) (\<lambda>db'. Inr (db', entry'))))"

definition postEntry where
  "postEntry pick mkId db entryId actorId header = postEntryInTx pick mkId db entryId actorId header None"

section \<open>Reversing a voucher\<close>

definition opposite :: "CashDirection \<Rightarrow> CashDirection" where
  "opposite d = (if d = RECEIPT then EXPENSE_DIRECTION else RECEIPT)"

definition reversal_entry :: "string \<Rightarrow> CashbookEntry \<Rightarrow> string \<Rightarrow> string \<Rightarrow> string option \<Rightarrow> string option \<Rightarrow> string \<Rightarrow> int \<Rightarrow> CashbookEntry" where
  "reversal_entry i orig code' actorId reversalJournalId cleanKey reason now =
     \<lparr>ke_code = code', ke_branchId = ke_branchId orig, ke_cashAccountId = ke_cashAccountId orig, ke_categoryId = ke_categoryId orig,
      ke_direction = opposite (ke_direction orig), ke_voucherType = ''REVERSAL'', ke_amount = ke_amount orig, ke_status = POSTED,
      ke_sourceType = Some ''CASHBOOK_REVERSAL'', ke_sourceId = Some i, ke_partyType = ke_partyType orig, ke_partyId = ke_partyId orig,
      ke_shiftId = ke_shiftId orig, ke_journalId = reversalJournalId, ke_reversalOfEntryId = Some i, ke_reversedByEntryId = None,
      ke_idempotencyKey = opt_or cleanKey (Some (''cb-rev:'' @ i)), ke_requestHash = None,
      ke_description = Some (''Reversal of '' @ ke_code orig @ '': '' @ reason), ke_referenceDoc = Some (ke_code orig), ke_createdBy = actorId,
      ke_approvedBy = Some actorId, ke_postedBy = Some actorId, ke_reversedBy = None, ke_approvedAt = Some now, ke_postedAt = Some now,
      ke_reversedAt = None, ke_version = 1, ke_createdAt = now, ke_updatedAt = now\<rparr>"

definition reversed_entry :: "CashbookEntry \<Rightarrow> string \<Rightarrow> string \<Rightarrow> int \<Rightarrow> CashbookEntry" where
  "reversed_entry orig actorId revId now =
     orig\<lparr>ke_status := REVERSED, ke_reversedBy := Some actorId, ke_reversedAt := Some now, ke_reversedByEntryId := Some revId,
       ke_version := ke_version orig + 1, ke_updatedAt := now\<rparr>"

definition reversing_journal ::
    "(FinancialJournal list \<Rightarrow> FinancialJournal) \<Rightarrow> (string \<Rightarrow> string) \<Rightarrow> string \<Rightarrow> 'a CashbookDb_scheme \<Rightarrow> CashbookEntry \<Rightarrow> string \<Rightarrow> string \<Rightarrow>
     string option \<Rightarrow> string \<Rightarrow> string option \<Rightarrow> int \<Rightarrow> ('a CashbookDb_scheme \<times> string option) fin_result" where
  "reversing_journal pick mkId tenantId db orig actorId reason cleanKey journalId requestId now =
     (if \<not> truthy (ke_journalId orig) then Inr (db, None)
      else ebind (reverseJournalInTx pick mkId tenantId (cb_ledger db) (the (ke_journalId orig)) actorId reason
                    (map_option (\<lambda>k. k @ '':jnl'') cleanKey) journalId requestId now)
             (\<lambda>(g, j, _). Inr (db\<lparr>cb_ledger := g\<rparr>, Some (jn_id j))))"

definition reverseEntry ::
    "(FinancialJournal list \<Rightarrow> FinancialJournal) \<Rightarrow> (string \<Rightarrow> string) \<Rightarrow> string \<Rightarrow> 'a CashbookDb_scheme \<Rightarrow> string \<Rightarrow> string \<Rightarrow> string option \<Rightarrow>
     string \<Rightarrow> string option \<Rightarrow> string \<Rightarrow> string \<Rightarrow> string option \<Rightarrow> int \<Rightarrow> ('a CashbookDb_scheme \<times> string \<times> CashbookEntry) fin_result" where
  "reverseEntry pick mkId tenantId db entryId actorId header reason dtoKey revId journalId requestId now =
     (let cleanKey = key_of (opt_or header dtoKey) in
      case map_get (cb_entries db) entryId of
        None \<Rightarrow> Inl (fin_error CASHBOOK_ENTRY_NOT_FOUND 404)
      | Some row \<Rightarrow>
          ebind (load_entry row) (\<lambda>orig.
          if ke_status orig = REVERSED \<and> truthy (ke_reversedByEntryId orig)
          then (case (if cleanKey \<noteq> None then map_get (cb_entries db) (the (ke_reversedByEntryId orig)) else None) of
                  None \<Rightarrow> Inl (fin_error POSTING_ALREADY_REVERSED 409)
                | Some rv \<Rightarrow> ebind (load_entry rv) (\<lambda>revEntry.
                    if ke_idempotencyKey revEntry = cleanKey then Inr (db, the (ke_reversedByEntryId orig), revEntry)
                    else Inl (fin_error POSTING_ALREADY_REVERSED 409)))
          else if ke_status orig \<noteq> POSTED then Inl (fin_error CASHBOOK_ENTRY_INVALID_STATE 409)
          else (case map_get (cb_accounts db) (ke_cashAccountId orig) of
             None \<Rightarrow> Inl (fin_error CASH_ACCOUNT_NOT_FOUND 404)
           | Some arow \<Rightarrow>
               ebind (load_account arow) (\<lambda>acc.
               ebind (reversing_journal pick mkId tenantId db orig actorId reason cleanKey journalId requestId now) (\<lambda>(db1, reversalJournalId).
               let (db2, revCode) = cash_code (if opposite (ke_direction orig) = RECEIPT then ''PT'' else ''PC'') db1;
                   revEntry = reversal_entry entryId orig revCode actorId reversalJournalId cleanKey reason now in
               ebind (insert_entry revId revEntry db2) (\<lambda>db3.
               ebind (save_entry entryId (reversed_entry orig actorId revId now) db3) (\<lambda>db4.
               ebind (parseVnd (num_arg (ka_currentBalance acc)) True True) (\<lambda>curBalVnd.
               ebind (parseVnd (num_arg (ke_amount orig)) False False) (\<lambda>amtVnd.
               let acc' = acc\<lparr>ka_currentBalance := balance_after (opposite (ke_direction orig)) curBalVnd amtVnd,
                              ka_version := ka_version acc + 1, ka_updatedAt := now\<rparr> in
               ebind (save_account (ke_cashAccountId orig) acc' db4) (\<lambda>db5. Inr (db5, revId, revEntry)))))))))))"

definition getEntryById :: "'a CashbookDb_scheme \<Rightarrow> string \<Rightarrow> CashbookEntry fin_result" where
  "getEntryById db i =
     (case map_get (cb_entries db) i of None \<Rightarrow> Inl (fin_error CASHBOOK_ENTRY_NOT_FOUND 404) | Some row \<Rightarrow> load_entry row)"

section \<open>The invariant\<close>

text \<open>What a voucher moved on a cash account: posted vouchers count, reversed ones too, because their reversal is a voucher of its own.\<close>

definition signed :: "CashDirection \<Rightarrow> int \<Rightarrow> int" where
  "signed d v = (if d = RECEIPT then v else - v)"

definition settled :: "CashbookEntry \<Rightarrow> bool" where
  "settled e \<longleftrightarrow> ke_status e = POSTED \<or> ke_status e = REVERSED"

definition moved_by :: "string \<Rightarrow> CashbookEntry \<Rightarrow> int" where
  "moved_by k e = (if ke_cashAccountId e = k \<and> settled e then signed (ke_direction e) (ke_amount e) else 0)"

definition cash_total :: "'a CashbookDb_scheme \<Rightarrow> string \<Rightarrow> int" where
  "cash_total db k = map_sum (moved_by k) (cb_entries db)"

definition cash_balance :: "'a CashbookDb_scheme \<Rightarrow> string \<Rightarrow> int" where
  "cash_balance db k = (case map_get (cb_accounts db) k of None \<Rightarrow> 0 | Some a \<Rightarrow> ka_currentBalance a)"

text \<open>A reversed voucher has a settled voucher of the same account and amount in the opposite direction.\<close>

definition reversal_pair :: "'a CashbookDb_scheme \<Rightarrow> string \<Rightarrow> CashbookEntry \<Rightarrow> bool" where
  "reversal_pair db i e \<longleftrightarrow> (\<exists>r f. ke_reversedByEntryId e = Some r \<and> map_get (cb_entries db) r = Some f \<and> settled f \<and> r \<noteq> i \<and>
     ke_reversalOfEntryId f = Some i \<and> ke_cashAccountId f = ke_cashAccountId e \<and> ke_amount f = ke_amount e \<and> ke_direction f = opposite (ke_direction e))"

definition cashbook_ok :: "'a CashbookDb_scheme \<Rightarrow> bool" where
  "cashbook_ok db \<longleftrightarrow> ledger_ok (cb_ledger db) \<and>
     (\<forall>k. \<bar>cash_balance db k\<bar> \<le> max_safe \<longrightarrow> cash_balance db k = cash_total db k) \<and>
     (\<forall>i e. map_get (cb_entries db) i = Some e \<and> ke_status e = REVERSED \<longrightarrow> reversal_pair db i e)"

lemma cashbook_okD:
  assumes "cashbook_ok db"
  shows "ledger_ok (cb_ledger db)" "\<bar>cash_balance db k\<bar> \<le> max_safe \<Longrightarrow> cash_balance db k = cash_total db k"
    "map_get (cb_entries db) i = Some e \<Longrightarrow> ke_status e = REVERSED \<Longrightarrow> reversal_pair db i e"
  using assms by (simp_all add: cashbook_ok_def)

lemma fli_safe_abs: "\<bar>fli a\<bar> \<le> max_safe \<Longrightarrow> fli a = a"
proof (cases "\<bar>a\<bar> \<le> 2 ^ 53")
  case False
  then consider "2 ^ 53 \<le> a" | "a \<le> - (2 ^ 53)" by linarith
  then have "2 ^ 53 \<le> fli a \<or> fli a \<le> - (2 ^ 53)" by cases (auto intro!: fli_lower fli_upper)
  moreover assume "\<bar>fli a\<bar> \<le> max_safe"
  ultimately show ?thesis using max_safe_lt by linarith
qed simp

lemma balance_after_safe: "\<bar>balance_after d b v\<bar> \<le> max_safe \<Longrightarrow> balance_after d b v = b + signed d v"
  unfolding balance_after_def signed_def using fli_safe_abs by (auto split: if_splits)

lemma opposite_simps [simp]: "opposite (opposite d) = d" "signed (opposite d) v = - signed d v" "opposite d \<noteq> d"
  by (cases d; simp add: opposite_def signed_def)+

text \<open>Pairs survive a change of a voucher that keeps what they say.\<close>

definition same_move :: "CashbookEntry \<Rightarrow> CashbookEntry \<Rightarrow> bool" where
  "same_move e e' \<longleftrightarrow> ke_cashAccountId e' = ke_cashAccountId e \<and> ke_amount e' = ke_amount e \<and> ke_direction e' = ke_direction e \<and>
     ke_reversalOfEntryId e' = ke_reversalOfEntryId e \<and> (settled e \<longrightarrow> settled e')"

lemma pair_kept:
  assumes "reversal_pair db i e" "cb_entries db' = map_set j f' (cb_entries db)"
    and "\<And>f. map_get (cb_entries db) j = Some f \<Longrightarrow> same_move f f'"
  shows "reversal_pair db' i e"
proof -
  obtain r f where r: "ke_reversedByEntryId e = Some r" "map_get (cb_entries db) r = Some f" "settled f" "r \<noteq> i" "ke_reversalOfEntryId f = Some i"
    "ke_cashAccountId f = ke_cashAccountId e" "ke_amount f = ke_amount e" "ke_direction f = opposite (ke_direction e)"
    using assms(1) by (auto simp: reversal_pair_def)
  show ?thesis
  proof (cases "r = j")
    case True
    then have "same_move f f'" using assms(3) r(2) by simp
    then show ?thesis unfolding reversal_pair_def using r True
      by (intro exI [of _ r] exI [of _ f']) (auto simp: assms(2) same_move_def)
  next
    case False
    then show ?thesis unfolding reversal_pair_def using r by (intro exI [of _ r] exI [of _ f]) (simp add: assms(2))
  qed
qed

text \<open>A voucher that is written without being settled, now or before, changes no sum.\<close>

lemma unsettled_step:
  assumes ok: "cashbook_ok db" and gl: "ledger_ok (cb_ledger db')" and acc: "cash_balance db' = cash_balance db"
    and e: "cb_entries db' = map_set i e' (cb_entries db)" "\<not> settled e'"
      "\<And>e. map_get (cb_entries db) i = Some e \<Longrightarrow> same_move e e' \<and> \<not> settled e"
  shows "cashbook_ok db'"
proof -
  have "cash_total db' k = cash_total db k" for k using e by (auto simp: cash_total_def map_sum_set moved_by_def split: option.splits)
  moreover have "reversal_pair db' j f" if "map_get (cb_entries db') j = Some f" "ke_status f = REVERSED" for j f
  proof -
    have "map_get (cb_entries db) j = Some f" using that e(1,2) by (auto simp: settled_def split: if_splits)
    then show ?thesis using pair_kept [OF cashbook_okD(3) [OF ok _ that(2)] e(1)] e(3) by blast
  qed
  ultimately show ?thesis using gl cashbook_okD(2) [OF ok] acc by (auto simp: cashbook_ok_def)
qed

text \<open>A voucher that becomes settled moves the balance by its signed amount.\<close>

lemma settle_step:
  assumes ok: "cashbook_ok db" and gl: "ledger_ok (cb_ledger db')"
    and acc: "map_get (cb_accounts db) k = Some a" "\<bar>ka_currentBalance a\<bar> \<le> max_safe" "cb_accounts db' = map_set k a' (cb_accounts db)"
      "ka_currentBalance a' = balance_after (ke_direction e') (ka_currentBalance a) (ke_amount e')"
    and e: "cb_entries db' = map_set i e' (cb_entries db)" "ke_status e' = POSTED" "ke_cashAccountId e' = k"
      "\<And>e. map_get (cb_entries db) i = Some e \<Longrightarrow> same_move e e' \<and> \<not> settled e"
  shows "cashbook_ok db'"
proof -
  have total: "cash_total db' x = cash_total db x + (if x = k then signed (ke_direction e') (ke_amount e') else 0)" for x
    using e by (auto simp: cash_total_def map_sum_set moved_by_def settled_def split: option.splits)
  have "cash_balance db k = ka_currentBalance a" using acc(1) by (simp add: cash_balance_def)
  then have old: "ka_currentBalance a = cash_total db k" using cashbook_okD(2) [OF ok, of k] acc(2) by simp
  have "cash_balance db' x = cash_total db' x" if "\<bar>cash_balance db' x\<bar> \<le> max_safe" for x
  proof (cases "x = k")
    case True
    then have "cash_balance db' x = ka_currentBalance a'" by (simp add: cash_balance_def acc(3))
    then show ?thesis using that True acc(4) balance_after_safe [of "ke_direction e'" "ka_currentBalance a" "ke_amount e'"] total old by simp
  next
    case False
    then have "cash_balance db' x = cash_balance db x" by (simp add: cash_balance_def acc(3))
    then show ?thesis using that False total cashbook_okD(2) [OF ok, of x] by simp
  qed
  moreover have "reversal_pair db' j f" if "map_get (cb_entries db') j = Some f" "ke_status f = REVERSED" for j f
  proof -
    have "map_get (cb_entries db) j = Some f" using that e(1,2) by (auto split: if_splits)
    then show ?thesis using pair_kept [OF cashbook_okD(3) [OF ok _ that(2)] e(1)] e(4) by blast
  qed
  ultimately show ?thesis using gl by (simp add: cashbook_ok_def)
qed

section \<open>Posting keeps the invariant\<close>

lemma load_account_iff: "load_account a = Inr b \<longleftrightarrow> b = a \<and> \<bar>ka_currentBalance a\<bar> \<le> max_safe"
  by (auto simp: load_account_def ok_simps finMoney_def is_safe_integer_of_int)

lemma load_entry_iff: "load_entry e = Inr f \<longleftrightarrow> f = e \<and> \<bar>ke_amount e\<bar> \<le> max_safe"
  by (auto simp: load_entry_def ok_simps finMoney_def is_safe_integer_of_int)

lemma parse_num [ok_simps]: "parseVnd (num_arg v) z n = Inr w \<longleftrightarrow> w = v \<and> \<bar>v\<bar> \<le> max_safe \<and> (n \<or> 0 \<le> v) \<and> (z \<or> v \<noteq> 0)"
  by (simp add: num_arg_def finVnd_num_arg)

lemma save_account_run: "save_account k a db = Inr db' \<Longrightarrow> db' = db\<lparr>cb_accounts := map_set k a (cb_accounts db)\<rparr>"
  by (auto simp: save_account_def split: if_splits)

lemma save_entry_run: "save_entry i e db = Inr db' \<Longrightarrow> db' = db\<lparr>cb_entries := map_set i e (cb_entries db)\<rparr>"
  by (auto simp: save_entry_def split: if_splits)

lemma insert_entry_run: "insert_entry i e db = Inr db' \<Longrightarrow> db' = db\<lparr>cb_entries := map_set i e (cb_entries db)\<rparr> \<and> map_get (cb_entries db) i = None"
  by (auto simp: insert_entry_def dest!: save_entry_run split: if_splits)

lemma cash_code_run:
  "cash_code x db = (db', c) \<Longrightarrow> \<exists>g. db' = db\<lparr>cb_ledger := g\<rparr> \<and> gl_lines g = gl_lines (cb_ledger db) \<and> (ledger_ok (cb_ledger db) \<longrightarrow> ledger_ok g)"
  by (auto simp: cash_code_def nextFinanceDocumentCode_def Let_def ledger_ok_def journal_ok_def line_ok_def ids_of_def rows_of_def)

lemma posting_journal_run:
  assumes "posting_journal pick mkId db pre input jid rq now = Inr (db1, j)"
  shows "\<exists>g. db1 = db\<lparr>cb_ledger := g\<rparr> \<and> (ledger_ok (cb_ledger db) \<longrightarrow> ledger_ok g) \<and> (truthy pre \<longrightarrow> g = cb_ledger db \<and> j = the pre)"
proof (cases "truthy pre")
  case True
  then show ?thesis using assms by (intro exI [of _ "cb_ledger db"]) (simp add: posting_journal_def)
next
  case False
  then obtain g k c where "postJournalInTx pick mkId (cb_ledger db) input jid rq now = Inr (g, k, c)" "db1 = db\<lparr>cb_ledger := g\<rparr>"
    using assms by (auto simp: posting_journal_def ok_simps)
  then show ?thesis using False post_ok by blast
qed

lemma post_entry_cases:
  assumes run: "postEntryInTx pick mkId db i actor key pre jid rq now = Inr (db', i', e')"
  shows "i' = i \<and> (\<exists>e. map_get (cb_entries db) i = Some e \<and>
    (db' = db \<and> e' = e \<and> ke_status e = POSTED \<and> key_of key \<noteq> None \<and> ke_idempotencyKey e = key_of key \<or>
     (ke_status e = DRAFT \<or> ke_status e = APPROVED) \<and> (\<exists>a a' g j out. map_get (cb_accounts db) (ke_cashAccountId e) = Some a \<and> ka_status a = AC_ACTIVE \<and>
       \<bar>ka_currentBalance a\<bar> \<le> max_safe \<and> 0 < ke_amount e \<and> ke_amount e \<le> max_safe \<and>
       ka_currentBalance a' = balance_after (ke_direction e) (ka_currentBalance a) (ke_amount e) \<and> ka_status a' = ka_status a \<and>
       e' = posted_entry e actor j (key_of key) now \<and> (ledger_ok (cb_ledger db) \<longrightarrow> ledger_ok g) \<and> (truthy pre \<longrightarrow> g = cb_ledger db \<and> j = the pre) \<and>
       db' = db\<lparr>cb_ledger := g, cb_accounts := map_set (ke_cashAccountId e) a' (cb_accounts db), cb_entries := map_set i e' (cb_entries db), cb_outbox := out\<rparr>)))"
proof -
  obtain e where e: "map_get (cb_entries db) i = Some e" "\<bar>ke_amount e\<bar> \<le> max_safe"
    using run by (auto simp: postEntryInTx_def ok_simps load_entry_iff split: option.splits)
  have load: "load_entry e = Inr e" using e(2) by (simp add: load_entry_iff)
  note run1 = run [unfolded postEntryInTx_def e(1) option.case load ebind_Inr Let_def]
  show ?thesis
  proof (cases "ke_status e = POSTED")
    case True
    then show ?thesis using run1 e(1) by (auto split: if_splits)
  next
    case False
    then have draft: "ke_status e = DRAFT \<or> ke_status e = APPROVED" using run1 by (auto split: if_splits)
    obtain a where a: "map_get (cb_accounts db) (ke_cashAccountId e) = Some a" "\<bar>ka_currentBalance a\<bar> \<le> max_safe" "ka_status a = AC_ACTIVE"
      using run1 False draft by (auto simp: ok_simps load_account_iff split: option.splits if_splits)
    have loada: "load_account a = Inr a" using a(2) by (simp add: load_account_iff)
    let ?c = "case map_get (cb_categories db) (ke_categoryId e) of Some c \<Rightarrow> kc_glAccountCode c
      | None \<Rightarrow> gl (if ke_direction e = RECEIPT then ''OTHER_INCOME'' else ''OPERATING_EXPENSE'')"
    let ?a = "a\<lparr>ka_currentBalance := balance_after (ke_direction e) (ka_currentBalance a) (ke_amount e), ka_version := ka_version a + 1, ka_updatedAt := now\<rparr>"
    obtain db1 j db2 db3 where st: "posting_journal pick mkId db pre (voucher_journal i e actor (key_of key) (ka_glAccountCode a) ?c) jid rq now = Inr (db1, j)"
      "save_account (ke_cashAccountId e) ?a db1 = Inr db2" "save_entry i (posted_entry e actor j (key_of key) now) db2 = Inr db3"
      "db' = db3\<lparr>cb_outbox := cb_outbox db'\<rparr>" "i' = i" "e' = posted_entry e actor j (key_of key) now" "0 < ke_amount e"
      using run1 False draft a loada by (auto simp: ok_simps split: if_splits prod.splits)
    obtain g where g: "db1 = db\<lparr>cb_ledger := g\<rparr>" "ledger_ok (cb_ledger db) \<longrightarrow> ledger_ok g" "truthy pre \<longrightarrow> g = cb_ledger db \<and> j = the pre"
      using posting_journal_run [OF st(1)] by blast
    have "db' = db\<lparr>cb_ledger := g, cb_accounts := map_set (ke_cashAccountId e) ?a (cb_accounts db), cb_entries := map_set i e' (cb_entries db),
        cb_outbox := cb_outbox db'\<rparr>"
      by (subst st(4)) (simp add: save_account_run [OF st(2)] save_entry_run [OF st(3)] g(1) st(6))
    then have "\<exists>a a' g j out. map_get (cb_accounts db) (ke_cashAccountId e) = Some a \<and> ka_status a = AC_ACTIVE \<and>
       \<bar>ka_currentBalance a\<bar> \<le> max_safe \<and> 0 < ke_amount e \<and> ke_amount e \<le> max_safe \<and>
       ka_currentBalance a' = balance_after (ke_direction e) (ka_currentBalance a) (ke_amount e) \<and> ka_status a' = ka_status a \<and>
       e' = posted_entry e actor j (key_of key) now \<and> (ledger_ok (cb_ledger db) \<longrightarrow> ledger_ok g) \<and> (truthy pre \<longrightarrow> g = cb_ledger db \<and> j = the pre) \<and>
       db' = db\<lparr>cb_ledger := g, cb_accounts := map_set (ke_cashAccountId e) a' (cb_accounts db), cb_entries := map_set i e' (cb_entries db), cb_outbox := out\<rparr>"
      using a e(2) st(6,7) g(2,3)
      by - (rule exI [of _ a], rule exI [of _ ?a], rule exI [of _ g], rule exI [of _ j], rule exI [of _ "cb_outbox db'"], simp)
    then show ?thesis using e(1) draft st(5) by blast
  qed
qed


lemma posted_entry_sel [simp]:
  "ke_status (posted_entry e ac j k now) = POSTED" "ke_cashAccountId (posted_entry e ac j k now) = ke_cashAccountId e"
  "ke_direction (posted_entry e ac j k now) = ke_direction e" "ke_amount (posted_entry e ac j k now) = ke_amount e"
  "ke_reversalOfEntryId (posted_entry e ac j k now) = ke_reversalOfEntryId e" "ke_journalId (posted_entry e ac j k now) = Some j"
  by (simp_all add: posted_entry_def)

lemma post_entry_ok:
  assumes ok: "cashbook_ok db" and run: "postEntryInTx pick mkId db i actor key pre jid rq now = Inr (db', i', e')"
  shows "cashbook_ok db'"
proof -
  obtain e where e: "map_get (cb_entries db) i = Some e" and
    "db' = db \<or> (ke_status e = DRAFT \<or> ke_status e = APPROVED) \<and> (\<exists>a a' g j out. map_get (cb_accounts db) (ke_cashAccountId e) = Some a \<and>
       \<bar>ka_currentBalance a\<bar> \<le> max_safe \<and> ka_currentBalance a' = balance_after (ke_direction e) (ka_currentBalance a) (ke_amount e) \<and>
       e' = posted_entry e actor j (key_of key) now \<and> (ledger_ok (cb_ledger db) \<longrightarrow> ledger_ok g) \<and>
       db' = db\<lparr>cb_ledger := g, cb_accounts := map_set (ke_cashAccountId e) a' (cb_accounts db), cb_entries := map_set i e' (cb_entries db), cb_outbox := out\<rparr>)"
    using post_entry_cases [OF run] by blast
  then consider "db' = db" | a a' g j out where "\<not> settled e" "map_get (cb_accounts db) (ke_cashAccountId e) = Some a" "\<bar>ka_currentBalance a\<bar> \<le> max_safe"
    "ka_currentBalance a' = balance_after (ke_direction e) (ka_currentBalance a) (ke_amount e)" "e' = posted_entry e actor j (key_of key) now" "ledger_ok g"
    "db' = db\<lparr>cb_ledger := g, cb_accounts := map_set (ke_cashAccountId e) a' (cb_accounts db), cb_entries := map_set i e' (cb_entries db), cb_outbox := out\<rparr>"
    using cashbook_okD(1) [OF ok] by (auto simp: settled_def)
  then show ?thesis
  proof cases
    case 2
    show ?thesis
      by (rule settle_step [OF ok, where a = a and a' = a' and e' = e' and k = "ke_cashAccountId e" and i = i]) (use 2 e in \<open>auto simp: same_move_def\<close>)
  qed (use ok in simp)
qed


lemma categories_only: "\<exists>cs. ensureDefaultCategoriesInTx mk db = db\<lparr>cb_categories := cs\<rparr>"
proof -
  have "\<exists>cs. fold (add_category mk) specs db = db\<lparr>cb_categories := cs\<rparr>" for specs
  proof (induction specs arbitrary: db)
    case Nil
    show ?case by (intro exI [of _ "cb_categories db"]) simp
  next
    case (Cons s specs)
    obtain cs where cs: "add_category mk s db = db\<lparr>cb_categories := cs\<rparr>"
      by (cases "category_by_code (cat_code s) db = None") (auto simp: add_category_def intro: that [of "cb_categories db"])
    then show ?case using Cons.IH [of "add_category mk s db"] by auto
  qed
  then show ?thesis by (simp add: ensureDefaultCategoriesInTx_def)
qed

lemma new_voucher_sel [simp]:
  "ke_status (new_voucher inp a c k now) = DRAFT" "ke_amount (new_voucher inp a c k now) = vi_amount inp" "ke_direction (new_voucher inp a c k now) = vi_direction inp"
  "ke_cashAccountId (new_voucher inp a c k now) = vi_cashAccountId inp" "ke_reversalOfEntryId (new_voucher inp a c k now) = None"
  by (simp_all add: new_voucher_def)

lemma draft_run:
  assumes "draft_voucher mkCat db inp i now = Inr (db', e)"
  shows "\<exists>g cs. db' = db\<lparr>cb_ledger := g, cb_categories := cs, cb_entries := map_set i e (cb_entries db)\<rparr> \<and> map_get (cb_entries db) i = None \<and>
    gl_lines g = gl_lines (cb_ledger db) \<and> (ledger_ok (cb_ledger db) \<longrightarrow> ledger_ok g) \<and> ke_status e = DRAFT \<and> ke_amount e = vi_amount inp \<and>
    ke_direction e = vi_direction inp \<and> ke_cashAccountId e = vi_cashAccountId inp \<and>
    (\<exists>a. map_get (cb_accounts db) (vi_cashAccountId inp) = Some a \<and> ka_status a = AC_ACTIVE)"
proof -
  let ?db1 = "ensureDefaultCategoriesInTx mkCat db"
  obtain cs where cs: "?db1 = db\<lparr>cb_categories := cs\<rparr>" using categories_only by blast
  obtain db2 c where code: "cash_code (if vi_direction inp = RECEIPT then ''PT'' else ''PC'') ?db1 = (db2, c)" by fastforce
  obtain a cid where st: "map_get (cb_accounts db) (vi_cashAccountId inp) = Some a" "ka_status a = AC_ACTIVE" "e = new_voucher inp a cid c now"
    "insert_entry i e db2 = Inr db'"
    using assms code by (auto simp: draft_voucher_def Let_def ok_simps load_account_iff split: option.splits if_splits)
  obtain g where g: "db2 = ?db1\<lparr>cb_ledger := g\<rparr>" "gl_lines g = gl_lines (cb_ledger ?db1)" "ledger_ok (cb_ledger ?db1) \<longrightarrow> ledger_ok g"
    using cash_code_run [OF code] by blast
  have eq: "db' = db2\<lparr>cb_entries := map_set i e (cb_entries db2)\<rparr>" "map_get (cb_entries db2) i = None" using insert_entry_run [OF st(4)] by auto
  show ?thesis
    by (rule exI [of _ g], rule exI [of _ cs]) (use st eq g cs in simp)
qed

lemma draft_ok: "cashbook_ok db \<Longrightarrow> draft_voucher mkCat db inp i now = Inr (db', e) \<Longrightarrow> cashbook_ok db'"
proof -
  assume ok: "cashbook_ok db" and "draft_voucher mkCat db inp i now = Inr (db', e)"
  then obtain g cs where d: "db' = db\<lparr>cb_ledger := g, cb_categories := cs, cb_entries := map_set i e (cb_entries db)\<rparr>" "map_get (cb_entries db) i = None"
    "ledger_ok (cb_ledger db) \<longrightarrow> ledger_ok g" "ke_status e = DRAFT" using draft_run by blast
  show ?thesis
    by (rule unsettled_step [OF ok, where i = i and e' = e]) (use d cashbook_okD(1) [OF ok] in \<open>auto simp: settled_def cash_balance_def fun_eq_iff\<close>)
qed

lemma voucher_ok:
  assumes ok: "cashbook_ok db" and run: "createAndOptionallyPostVoucherInTx pick mkId mkCat db inp i jid rq now = Inr (db', i', e')"
  shows "cashbook_ok db'"
proof (cases "if truthy (vi_idempotencyKey inp) then entry_by_key (the (vi_idempotencyKey inp)) db else None")
  case None
  obtain db1 e where d: "draft_voucher mkCat db inp i now = Inr (db1, e)"
    "(if vi_autoPost inp then postEntryInTx pick mkId db1 i (vi_actorId inp) (vi_idempotencyKey inp) (vi_skipJournalIfLinked inp) jid rq now
      else Inr (db1, i, e)) = Inr (db', i', e')"
    using run by (auto simp: createAndOptionallyPostVoucherInTx_def None ok_simps)
  have "cashbook_ok db1" by (rule draft_ok [OF ok d(1)])
  then show ?thesis using d(2) post_entry_ok by (cases "vi_autoPost inp") auto
next
  case (Some x)
  then show ?thesis
    using run ok post_entry_ok by (auto simp: createAndOptionallyPostVoucherInTx_def ok_simps split: if_splits prod.splits)
qed

lemma createVoucher_ok:
  "cashbook_ok db \<Longrightarrow> createVoucher H pick mkId mkCat db actor d header dto sc i jid rq now = Inr (db', i', e') \<Longrightarrow> cashbook_ok db'"
  by (auto simp: createVoucher_def Let_def ok_simps intro: voucher_ok)

lemma approve_entry_ok:
  assumes ok: "cashbook_ok db" and run: "approveEntry db i actor now = Inr (db', e')"
  shows "cashbook_ok db'"
proof -
  obtain e where e: "map_get (cb_entries db) i = Some e" using run by (auto simp: approveEntry_def split: option.splits)
  show ?thesis
  proof (cases "ke_status e = DRAFT")
    case True
    let ?e = "e\<lparr>ke_status := APPROVED, ke_approvedBy := Some actor, ke_approvedAt := Some now, ke_version := ke_version e + 1, ke_updatedAt := now\<rparr>"
    have "save_entry i ?e db = Inr db'" using run e True by (auto simp: approveEntry_def ok_simps load_entry_iff Let_def)
    note d = save_entry_run [OF this]
    show ?thesis
      by (rule unsettled_step [OF ok, where i = i and e' = ?e])
        (use d e True cashbook_okD(1) [OF ok] in \<open>auto simp: settled_def cash_balance_def same_move_def fun_eq_iff\<close>)
  qed (use run e ok in \<open>auto simp: approveEntry_def ok_simps load_entry_iff split: if_splits\<close>)
qed

section \<open>Cash accounts keep the invariant\<close>

lemma accounts_step:
  assumes "cashbook_ok db" "db' = db\<lparr>cb_accounts := m\<rparr>" "cash_balance db' = cash_balance db"
  shows "cashbook_ok db'"
  using assms by (simp add: cashbook_ok_def cash_total_def reversal_pair_def)

lemma same_balance_ok:
  assumes "cashbook_ok db" "db' = db\<lparr>cb_accounts := map_set k a (cb_accounts db)\<rparr>" "ka_currentBalance a = cash_balance db k"
  shows "cashbook_ok db'"
  by (rule accounts_step [OF assms(1,2)]) (use assms(3) in \<open>auto simp: assms(2) cash_balance_def fun_eq_iff\<close>)

lemma create_account_ok: "cashbook_ok db \<Longrightarrow> createCashAccount n now db dto = Inr (db', a) \<Longrightarrow> cashbook_ok db'"
  by (erule same_balance_ok [where k = n and a = a])
    (auto simp: createCashAccount_def Let_def ok_simps cash_balance_def dest!: save_account_run split: option.splits if_splits)

lemma update_account_ok:
  assumes ok: "cashbook_ok db" and run: "updateCashAccount db i nm st bk now = Inr (db', a')"
  shows "cashbook_ok db'"
proof -
  obtain a where a: "map_get (cb_accounts db) i = Some a" using run by (auto simp: updateCashAccount_def split: option.splits)
  have "save_account i a' db = Inr db'" "ka_currentBalance a' = ka_currentBalance a"
    using run a by (auto simp: updateCashAccount_def ok_simps load_account_iff Let_def)
  then show ?thesis using same_balance_ok [OF ok save_account_run, of i a' db'] a by (simp add: cash_balance_def)
qed

text \<open>The default account is either there or created empty.\<close>

lemma ensure_account_run:
  assumes "ensureDefaultCashAccountInTx pickAcc n now db br ty = Inr (db', k, a)"
  shows "db' = db \<or> db' = db\<lparr>cb_accounts := map_set n (default_account br ty now) (cb_accounts db)\<rparr>"
  using assms by (auto simp: ensureDefaultCashAccountInTx_def Let_def ok_simps split: option.splits if_splits prod.splits)

lemma ensure_account_ok:
  assumes "cashbook_ok db" "map_get (cb_accounts db) n = None" "ensureDefaultCashAccountInTx pickAcc n now db br ty = Inr (db', k, a)"
  shows "cashbook_ok db'"
proof -
  have "cash_balance db n = 0" using assms(2) by (simp add: cash_balance_def)
  then show ?thesis
    using ensure_account_run [OF assms(3)] same_balance_ok [OF assms(1), where k = n and a = "default_account br ty now"] assms(1)
    by (auto simp: default_account_def)
qed

lemma category_ok: "cashbook_ok db \<Longrightarrow> cashbook_ok (db\<lparr>cb_categories := cs\<rparr>)"
  by (simp add: cashbook_ok_def cash_total_def cash_balance_def reversal_pair_def)

lemma ensure_categories_ok: "cashbook_ok db \<Longrightarrow> cashbook_ok (ensureDefaultCategoriesInTx mk db)"
  using categories_only [of mk db] category_ok by metis

lemma create_category_ok: "cashbook_ok db \<Longrightarrow> createCategory mk db c d g = Inr (db', k) \<Longrightarrow> cashbook_ok db'"
  by (auto simp: createCategory_def Let_def ok_simps ensure_categories_ok category_ok split: option.splits if_splits)


section \<open>Reversing\<close>

lemma reversal_entry_sel [simp]:
  "ke_status (reversal_entry i e c ac j k w now) = POSTED" "ke_amount (reversal_entry i e c ac j k w now) = ke_amount e"
  "ke_direction (reversal_entry i e c ac j k w now) = opposite (ke_direction e)" "ke_cashAccountId (reversal_entry i e c ac j k w now) = ke_cashAccountId e"
  "ke_reversalOfEntryId (reversal_entry i e c ac j k w now) = Some i" "ke_journalId (reversal_entry i e c ac j k w now) = j"
  "ke_idempotencyKey (reversal_entry i e c ac j k w now) = opt_or k (Some (''cb-rev:'' @ i))"
  by (simp_all add: reversal_entry_def)

lemma reversed_entry_sel [simp]:
  "ke_status (reversed_entry e ac r now) = REVERSED" "ke_amount (reversed_entry e ac r now) = ke_amount e"
  "ke_direction (reversed_entry e ac r now) = ke_direction e" "ke_cashAccountId (reversed_entry e ac r now) = ke_cashAccountId e"
  "ke_reversalOfEntryId (reversed_entry e ac r now) = ke_reversalOfEntryId e" "ke_reversedByEntryId (reversed_entry e ac r now) = Some r"
  by (simp_all add: reversed_entry_def)

text \<open>What the reversal of a journal does for the voucher: with a journal, the ledger's reversal; without, nothing.\<close>

lemma reversing_journal_run:
  assumes "reversing_journal pick mkId t db e actor why key jid rq now = Inr (db1, j)"
  shows "\<exists>g. db1 = db\<lparr>cb_ledger := g\<rparr> \<and> (ledger_ok (cb_ledger db) \<longrightarrow> ledger_ok g) \<and>
    (if truthy (ke_journalId e) then \<exists>k c. reverseJournalInTx pick mkId t (cb_ledger db) (the (ke_journalId e)) actor why
        (map_option (\<lambda>k. k @ '':jnl'') key) jid rq now = Inr (g, k, c) \<and> j = Some (jn_id k)
     else g = cb_ledger db \<and> j = None)"
proof (cases "truthy (ke_journalId e)")
  case True
  then obtain g k c where "reverseJournalInTx pick mkId t (cb_ledger db) (the (ke_journalId e)) actor why (map_option (\<lambda>k. k @ '':jnl'') key) jid rq now = Inr (g, k, c)"
    "db1 = db\<lparr>cb_ledger := g\<rparr>" "j = Some (jn_id k)" using assms by (auto simp: reversing_journal_def ok_simps)
  then show ?thesis using True reverse_ok by fastforce
next
  case False
  then show ?thesis using assms by (intro exI [of _ "cb_ledger db"]) (simp add: reversing_journal_def)
qed

lemma reverse_new:
  assumes e: "map_get (cb_entries db) i = Some e" "ke_status e = POSTED"
    and run: "reverseEntry pick mkId t db i actor header why dkey r jid rq now = Inr (db', r', f)"
  shows "\<exists>a a' g0 g j c. map_get (cb_accounts db) (ke_cashAccountId e) = Some a \<and> \<bar>ka_currentBalance a\<bar> \<le> max_safe \<and> 0 < ke_amount e \<and>
    ke_amount e \<le> max_safe \<and> map_get (cb_entries db) r = None \<and> r' = r \<and>
    f = reversal_entry i e c actor j (key_of (opt_or header dkey)) why now \<and>
    ka_currentBalance a' = balance_after (opposite (ke_direction e)) (ka_currentBalance a) (ke_amount e) \<and>
    reversing_journal pick mkId t db e actor why (key_of (opt_or header dkey)) jid rq now = Inr (db\<lparr>cb_ledger := g0\<rparr>, j) \<and>
    gl_lines g = gl_lines g0 \<and> (ledger_ok (cb_ledger db) \<longrightarrow> ledger_ok g) \<and>
    db' = db\<lparr>cb_ledger := g, cb_accounts := map_set (ke_cashAccountId e) a' (cb_accounts db),
      cb_entries := map_set i (reversed_entry e actor r now) (map_set r f (cb_entries db))\<rparr>"
proof -
  let ?key = "key_of (opt_or header dkey)"
  have amt: "\<bar>ke_amount e\<bar> \<le> max_safe" using run e by (auto simp: reverseEntry_def Let_def ok_simps load_entry_iff)
  have load: "load_entry e = Inr e" using amt by (simp add: load_entry_iff)
  note run1 = run [unfolded reverseEntry_def Let_def e(1) option.case load ebind_Inr e(2), simplified]
  obtain a where a: "map_get (cb_accounts db) (ke_cashAccountId e) = Some a" "\<bar>ka_currentBalance a\<bar> \<le> max_safe"
    using run1 by (auto simp: ok_simps load_account_iff split: option.splits)
  have loada: "load_account a = Inr a" using a(2) by (simp add: load_account_iff)
  obtain db1 j where rj: "reversing_journal pick mkId t db e actor why ?key jid rq now = Inr (db1, j)"
    using run1 a loada by (auto simp: ok_simps)
  obtain db2 c where code: "cash_code (if opposite (ke_direction e) = RECEIPT then ''PT'' else ''PC'') db1 = (db2, c)" by fastforce
  let ?f = "reversal_entry i e c actor j ?key why now"
  let ?a = "a\<lparr>ka_currentBalance := balance_after (opposite (ke_direction e)) (ka_currentBalance a) (ke_amount e), ka_version := ka_version a + 1, ka_updatedAt := now\<rparr>"
  obtain db3 db4 where st: "insert_entry r ?f db2 = Inr db3" "save_entry i (reversed_entry e actor r now) db3 = Inr db4"
    "save_account (ke_cashAccountId e) ?a db4 = Inr db'" "r' = r" "f = ?f" "0 < ke_amount e" "ke_amount e \<le> max_safe"
    using run1 a loada rj code by (auto simp: ok_simps)
  obtain g0 where g0: "db1 = db\<lparr>cb_ledger := g0\<rparr>" "ledger_ok (cb_ledger db) \<longrightarrow> ledger_ok g0" using reversing_journal_run [OF rj] by blast
  obtain g where g: "db2 = db1\<lparr>cb_ledger := g\<rparr>" "gl_lines g = gl_lines (cb_ledger db1)" "ledger_ok (cb_ledger db1) \<longrightarrow> ledger_ok g"
    using cash_code_run [OF code] by blast
  note s = insert_entry_run [OF st(1)] save_entry_run [OF st(2)] save_account_run [OF st(3)]
  show ?thesis
    by (rule exI [of _ a], rule exI [of _ ?a], rule exI [of _ g0], rule exI [of _ g], rule exI [of _ j], rule exI [of _ c])
      (use a st(4-7) rj g0 g s in simp)
qed

lemma mark_step:
  assumes ok: "cashbook_ok db" and e: "map_get (cb_entries db) i = Some e" "settled e" "same_move e e'" "ke_status e' = REVERSED" "reversal_pair db i e'"
    and db': "db' = db\<lparr>cb_entries := map_set i e' (cb_entries db)\<rparr>"
  shows "cashbook_ok db'"
proof -
  have "moved_by k e' = moved_by k e" for k using e by (auto simp: moved_by_def same_move_def settled_def)
  then have "cash_total db' k = cash_total db k" for k using e(1) by (simp add: cash_total_def db' map_sum_set)
  moreover have "reversal_pair db' j f" if "map_get (cb_entries db') j = Some f" "ke_status f = REVERSED" for j f
  proof -
    have "reversal_pair db j f" using that e(5) cashbook_okD(3) [OF ok] by (auto simp: db' split: if_splits)
    then show ?thesis by (rule pair_kept [where j = i and f' = e']) (use e(1,3) db' in auto)
  qed
  ultimately show ?thesis using cashbook_okD(1,2) [OF ok] by (simp add: cashbook_ok_def cash_balance_def db')
qed

lemma reverse_entry_ok:
  assumes ok: "cashbook_ok db" and run: "reverseEntry pick mkId t db i actor header why dkey r jid rq now = Inr (db', r', f)"
  shows "cashbook_ok db'"
proof -
  obtain e where e: "map_get (cb_entries db) i = Some e" using run by (auto simp: reverseEntry_def Let_def split: option.splits)
  show ?thesis
  proof (cases "ke_status e = POSTED")
    case False
    then have "db' = db" using run e by (auto simp: reverseEntry_def Let_def ok_simps load_entry_iff split: if_splits option.splits)
    then show ?thesis using ok by simp
  next
    case True
    obtain a a' g0 g j c where n: "map_get (cb_accounts db) (ke_cashAccountId e) = Some a" "\<bar>ka_currentBalance a\<bar> \<le> max_safe"
      "map_get (cb_entries db) r = None" "f = reversal_entry i e c actor j (key_of (opt_or header dkey)) why now"
      "ka_currentBalance a' = balance_after (opposite (ke_direction e)) (ka_currentBalance a) (ke_amount e)"
      "reversing_journal pick mkId t db e actor why (key_of (opt_or header dkey)) jid rq now = Inr (db\<lparr>cb_ledger := g0\<rparr>, j)"
      "ledger_ok (cb_ledger db) \<longrightarrow> ledger_ok g"
      "db' = db\<lparr>cb_ledger := g, cb_accounts := map_set (ke_cashAccountId e) a' (cb_accounts db),
        cb_entries := map_set i (reversed_entry e actor r now) (map_set r f (cb_entries db))\<rparr>"
      using reverse_new [OF e True run] by (elim exE conjE) (rule that)
    let ?m = "db\<lparr>cb_ledger := g, cb_accounts := map_set (ke_cashAccountId e) a' (cb_accounts db), cb_entries := map_set r f (cb_entries db)\<rparr>"
    have ne: "r \<noteq> i" using e n(3) by auto
    have m: "cashbook_ok ?m"
      by (rule settle_step [OF ok, where a = a and a' = a' and e' = f and k = "ke_cashAccountId e" and i = r]) (use n cashbook_okD(1) [OF ok] in auto)
    show ?thesis
    proof (rule mark_step [OF m, where i = i and e = e and e' = "reversed_entry e actor r now"])
      show "reversal_pair ?m i (reversed_entry e actor r now)"
        unfolding reversal_pair_def by (rule exI [of _ r], rule exI [of _ f]) (use ne n(4) in \<open>simp add: settled_def\<close>)
    qed (use e True ne n(8) in \<open>auto simp: settled_def same_move_def\<close>)
  qed
qed

section \<open>Reachable states\<close>

text \<open>Each rule is one transaction of the two services or a posting of another service through the general ledger; new accounts get new ids.\<close>

inductive cash_move :: "'a CashbookDb_scheme \<Rightarrow> 'a CashbookDb_scheme \<Rightarrow> bool" where
  km_ensure: "ensureDefaultCashAccountInTx pickAcc n now db br ty = Inr (db', k, a) \<Longrightarrow> map_get (cb_accounts db) n = None \<Longrightarrow> cash_move db db'"
| km_account: "createCashAccount n now db dto = Inr (db', a) \<Longrightarrow> cash_move db db'"
| km_update: "updateCashAccount db i nm st bk now = Inr (db', a) \<Longrightarrow> cash_move db db'"
| km_category: "createCategory mk db c d g = Inr (db', k) \<Longrightarrow> cash_move db db'"
| km_list: "listCategories byCode mk db d = (db', ks) \<Longrightarrow> cash_move db db'"
| km_voucher: "createVoucher H pick mkId mkCat db actor d header dto sc i jid rq now = Inr (db', i', e) \<Longrightarrow> cash_move db db'"
| km_voucher_in_tx: "createAndOptionallyPostVoucherInTx pick mkId mkCat db inp i jid rq now = Inr (db', i', e) \<Longrightarrow> cash_move db db'"
| km_approve: "approveEntry db i actor now = Inr (db', e) \<Longrightarrow> cash_move db db'"
| km_post: "postEntryInTx pick mkId db i actor key pre jid rq now = Inr (db', i', e) \<Longrightarrow> cash_move db db'"
| km_reverse: "reverseEntry pick mkId t db i actor header why dkey r jid rq now = Inr (db', r', f) \<Longrightarrow> cash_move db db'"
| km_ledger: "ledger_move (cb_ledger db) g \<Longrightarrow> cash_move db (db\<lparr>cb_ledger := g\<rparr>)"

definition empty_cash :: CashbookDb where
  "empty_cash = \<lparr>cb_ledger = empty_ledger, cb_accounts = [], cb_categories = [], cb_entries = [], cb_outbox = []\<rparr>"

inductive cash_book_reach :: "CashbookDb \<Rightarrow> bool" where
  kr_empty: "cash_book_reach empty_cash"
| kr_move: "cash_book_reach db \<Longrightarrow> cash_move db db' \<Longrightarrow> cash_book_reach db'"

lemma cash_move_ok: "cash_move db db' \<Longrightarrow> cashbook_ok db \<Longrightarrow> cashbook_ok db'"
proof (induction rule: cash_move.induct)
  case (km_list byCode mk db d db' ks)
  then show ?case by (auto simp: listCategories_def Let_def ensure_categories_ok)
next
  case (km_ledger db g)
  then show ?case using ledger_move_ok by (auto simp: cashbook_ok_def cash_total_def cash_balance_def reversal_pair_def)
qed (blast intro: ensure_account_ok create_account_ok update_account_ok create_category_ok createVoucher_ok voucher_ok approve_entry_ok post_entry_ok reverse_entry_ok)+

lemma cash_book_ok: "cash_book_reach db \<Longrightarrow> cashbook_ok db"
proof (induction rule: cash_book_reach.induct)
  case kr_empty
  have "ledger_ok empty_ledger" using ledger_reach_ok lr_empty by blast
  then show ?case by (simp add: cashbook_ok_def empty_cash_def cash_balance_def cash_total_def)
qed (simp add: cash_move_ok)


section \<open>Journals of two lines\<close>

lemma posted_balances:
  assumes "postJournalInTx pick mkId g i n rq now = Inr (g', j, False)"
  shows "\<exists>w. validateBalancedJournalLines (pj_lines i) = Inr w \<and> (\<forall>c. balance_of (gl_lines g') c =
    balance_of (gl_lines g) c + sum_list (map (\<lambda>l. if vj_accountCode l = c then vj_debit l - vj_credit l else 0) (vr_lines w)))"
proof -
  obtain w accs and g1 :: LedgerDb where w: "validateBalancedJournalLines (pj_lines i) = Inr w"
    "list_all2 (\<lambda>l a. fa_code a = vj_accountCode l \<and> a \<in> set (gl_accounts g1)) (vr_lines w) accs"
    "gl_lines g' = gl_lines g @ map2 (new_line i n) accs (vr_lines w)" using assms by (elim posted_fresh) blast
  have "balance_of (map2 (new_line i n) accs (vr_lines w)) c = sum_list (map (\<lambda>l. if vj_accountCode l = c then vj_debit l - vj_credit l else 0) (vr_lines w))" for c
    using w(2) by (induction rule: list_all2_induct) (auto simp: balance_of_def new_line_sel)
  then show ?thesis using w(1,3) by (intro exI [of _ w]) (simp del: map_zip_map2)
qed

lemma debit_credit_valid:
  assumes "0 < v" "v \<le> max_safe" "jl_accountCode x = Some a" "jl_accountCode y = Some b"
    and "js_upper (js_trim a) \<noteq> []" "js_upper (js_trim b) \<noteq> []"
    and "jl_debitAmount x = num_arg v" "jl_creditAmount x = Undefined" "jl_debitAmount y = Undefined" "jl_creditAmount y = num_arg v"
  shows "\<exists>l l'. validateBalancedJournalLines [x, y] = Inr \<lparr>vr_totalDebit = v, vr_totalCredit = v, vr_lines = [l, l']\<rparr> \<and>
    vj_accountCode l = js_upper (js_trim a) \<and> vj_debit l = v \<and> vj_credit l = 0 \<and>
    vj_accountCode l' = js_upper (js_trim b) \<and> vj_debit l' = 0 \<and> vj_credit l' = v"
proof -
  have parse: "parseVnd (num_arg v) True False = Inr v" "parseVnd (Num (Fin 0)) True False = Inr 0"
    using assms finVnd_num_arg [of 0 True False 0] by (auto simp: parse_num)
  have zero: "or_zero Undefined = Num (Fin 0)" "or_zero (num_arg v) = num_arg v" by (simp_all add: or_zero_def num_arg_def)
  have "fli v = v" using assms(1,2) by (intro safe_exact) simp
  then show ?thesis using assms by (simp add: validateBalancedJournalLines_def journal_line_def Let_def parse zero js_total_def)
qed

lemma debit_credit_posted:
  assumes "postJournalInTx pick mkId g i n rq now = Inr (g', j, False)" "pj_lines i = [x, y]" "0 < v" "v \<le> max_safe"
    and "jl_accountCode x = Some a" "jl_accountCode y = Some b" "plain_code a" "plain_code b"
    and "jl_debitAmount x = num_arg v" "jl_creditAmount x = Undefined" "jl_debitAmount y = Undefined" "jl_creditAmount y = num_arg v"
  shows "balance_of (gl_lines g') c = balance_of (gl_lines g) c + (if c = a then v else 0) - (if c = b then v else 0)"
proof -
  have codes: "js_upper (js_trim a) = a" "js_upper (js_trim b) = b" "a \<noteq> []" "b \<noteq> []" using assms(7,8) by (simp_all add: plain_code_def)
  obtain l l' where "validateBalancedJournalLines [x, y] = Inr \<lparr>vr_totalDebit = v, vr_totalCredit = v, vr_lines = [l, l']\<rparr>"
    "vj_accountCode l = a" "vj_debit l = v" "vj_credit l = 0" "vj_accountCode l' = b" "vj_debit l' = 0" "vj_credit l' = v"
    using debit_credit_valid [OF assms(3-6) _ _ assms(9-12)] codes by auto
  then show ?thesis using posted_balances [OF assms(1)] assms(2) by auto
qed

text \<open>A voucher's new journal moves the ledger's cash account by what the voucher moves, against the account of its category.\<close>

lemma voucher_journal_posted:
  assumes "postJournalInTx pick mkId g (voucher_journal i e actor key cash cat) n rq now = Inr (g', j, False)"
    and "0 < ke_amount e" "ke_amount e \<le> max_safe" "plain_code cash" "plain_code cat"
  shows "balance_of (gl_lines g') c = balance_of (gl_lines g) c + (if c = cash then signed (ke_direction e) (ke_amount e) else 0) -
    (if c = cat then signed (ke_direction e) (ke_amount e) else 0)"
proof (cases "ke_direction e = RECEIPT")
  case True
  then have l: "pj_lines (voucher_journal i e actor key cash cat) =
      [cash_line cash e True (''Cash receipt '' @ ke_code e), category_line cat e False (''Cash receipt '' @ ke_code e)]"
    by (simp add: voucher_journal_def voucher_lines_def)
  show ?thesis
    using debit_credit_posted [OF assms(1) l assms(2,3), where a = cash and b = cat and c = c] assms(4,5) True
    by (simp add: cash_line_def category_line_def signed_def)
next
  case False
  then have l: "pj_lines (voucher_journal i e actor key cash cat) =
      [category_line cat e True (''Cash expense '' @ ke_code e), cash_line cash e False (''Cash expense '' @ ke_code e)]"
    by (simp add: voucher_journal_def voucher_lines_def)
  show ?thesis
    using debit_credit_posted [OF assms(1) l assms(2,3), where a = cat and b = cash and c = c] assms(4,5) False
    by (simp add: cash_line_def category_line_def signed_def)
qed

section \<open>Properties\<close>

definition till_dto :: CreateCashAccountDto where
  "till_dto = \<lparr>ka'_branchId = Some ''B1'', ka'_code = Some ''till-1'', ka'_name = ''Till'', ka'_accountType = None, ka'_bankName = None, ka'_accountNumber = None\<rparr>"

definition till :: "(CashbookDb \<times> CashAccount) fin_result" where
  "till = createCashAccount ''K1'' 0 empty_cash till_dto"

definition rent :: CreateCashbookVoucherDto where
  "rent = \<lparr>vd_cashAccountId = ''K1'', vd_categoryId = None, vd_categoryCode = None, vd_amount = Fin 300, vd_branchId = None, vd_shiftId = None,
     vd_voucherType = None, vd_sourceType = None, vd_sourceId = None, vd_partyType = None, vd_partyId = None, vd_description = Some ''rent'',
     vd_referenceDoc = None, vd_autoPost = True, vd_idempotencyKey = Some ''rent-1''\<rparr>"

definition paid_rent :: "(CashbookDb \<times> string \<times> CashbookEntry) fin_result" where
  "paid_rent = ebind till (\<lambda>(db, _). createVoucher (\<lambda>_. ''h'') hd id id db ''ann'' EXPENSE_DIRECTION None rent None ''E1'' ''J1'' None 1)"

lemma paid_rent_reach: "paid_rent = Inr (db, i, e) \<Longrightarrow> cash_book_reach db"
proof -
  assume run: "paid_rent = Inr (db, i, e)"
  obtain db0 a where "till = Inr (db0, a)" and v: "createVoucher (\<lambda>_. ''h'') hd id id db0 ''ann'' EXPENSE_DIRECTION None rent None ''E1'' ''J1'' None 1 = Inr (db, i, e)"
    using run [unfolded paid_rent_def ebind_eq_Inr] by auto
  then have "cash_book_reach db0" unfolding till_def by (intro kr_move [OF kr_empty km_account])
  then show ?thesis by (rule kr_move [OF _ km_voucher [OF v]])
qed

text \<open>
  C27: the cashbook reconciles: in every reachable state, a cash account whose balance is a safe integer holds exactly the sum of its posted
  and reversed vouchers, receipts positive and expenses negative, and every reversed voucher has a settled voucher of the same
  account and amount in the opposite direction that names it.
\<close>

theorem cash_balance_reconciles:
  assumes "cash_book_reach db"
  shows "(\<forall>k a. map_get (cb_accounts db) k = Some a \<and> \<bar>ka_currentBalance a\<bar> \<le> max_safe \<longrightarrow>
      ka_currentBalance a = map_sum (\<lambda>e. if ke_cashAccountId e = k \<and> ke_status e \<in> {POSTED, REVERSED}
        then (if ke_direction e = RECEIPT then ke_amount e else - ke_amount e) else 0) (cb_entries db)) \<and>
    (\<forall>i e. map_get (cb_entries db) i = Some e \<and> ke_status e = REVERSED \<longrightarrow> (\<exists>r f. ke_reversedByEntryId e = Some r \<and>
      map_get (cb_entries db) r = Some f \<and> ke_status f \<in> {POSTED, REVERSED} \<and> ke_reversalOfEntryId f = Some i \<and>
      ke_cashAccountId f = ke_cashAccountId e \<and> ke_amount f = ke_amount e \<and> ke_direction f \<noteq> ke_direction e))"
proof (intro conjI allI impI)
  note ok = cash_book_ok [OF assms]
  show "ka_currentBalance a = map_sum (\<lambda>e. if ke_cashAccountId e = k \<and> ke_status e \<in> {POSTED, REVERSED}
        then (if ke_direction e = RECEIPT then ke_amount e else - ke_amount e) else 0) (cb_entries db)"
    if "map_get (cb_accounts db) k = Some a \<and> \<bar>ka_currentBalance a\<bar> \<le> max_safe" for k a
  proof -
    have "moved_by k = (\<lambda>e. if ke_cashAccountId e = k \<and> ke_status e \<in> {POSTED, REVERSED}
        then (if ke_direction e = RECEIPT then ke_amount e else - ke_amount e) else 0)"
      by (auto simp: fun_eq_iff moved_by_def settled_def signed_def)
    then show ?thesis using cashbook_okD(2) [OF ok, of k] that by (simp add: cash_balance_def cash_total_def)
  qed
  show "\<exists>r f. ke_reversedByEntryId e = Some r \<and> map_get (cb_entries db) r = Some f \<and> ke_status f \<in> {POSTED, REVERSED} \<and>
      ke_reversalOfEntryId f = Some i \<and> ke_cashAccountId f = ke_cashAccountId e \<and> ke_amount f = ke_amount e \<and> ke_direction f \<noteq> ke_direction e"
    if "map_get (cb_entries db) i = Some e \<and> ke_status e = REVERSED" for i e
    using cashbook_okD(3) [OF ok, of i e] that by (auto simp: reversal_pair_def settled_def)
qed

lemma paid_rent_state: "case paid_rent of Inl _ \<Rightarrow> False | Inr (db, i, e) \<Rightarrow>
    map_get (cb_accounts db) ''K1'' \<noteq> None \<and> ka_currentBalance (the (map_get (cb_accounts db) ''K1'')) = - 300 \<and>
    i = ''E1'' \<and> map_get (cb_entries db) ''E1'' = Some e \<and> ke_status e = POSTED \<and> ke_cashAccountId e = ''K1'' \<and> ke_amount e = 300 \<and>
    ke_direction e = EXPENSE_DIRECTION"
  by code_simp

theorem cash_balance_reconciles_witness:
  "\<exists>db i e a. paid_rent = Inr (db, i, e) \<and> map_get (cb_accounts db) ''K1'' = Some a \<and> ka_currentBalance a = - 300 \<and>
     map_sum (\<lambda>e. if ke_cashAccountId e = ''K1'' \<and> ke_status e \<in> {POSTED, REVERSED}
        then (if ke_direction e = RECEIPT then ke_amount e else - ke_amount e) else 0) (cb_entries db) = - 300"
proof -
  obtain db i e a where s: "paid_rent = Inr (db, i, e)" "map_get (cb_accounts db) ''K1'' = Some a" "ka_currentBalance a = - 300"
    using paid_rent_state by (auto split: sum.splits prod.splits)
  have "\<bar>- 300 :: int\<bar> \<le> max_safe" by (simp add: max_safe_def)
  then show ?thesis using cash_balance_reconciles [OF paid_rent_reach [OF s(1)], THEN conjunct1, rule_format, of "''K1''" a] s by auto
qed







text \<open>
  A reversal takes a voucher back once: it moves the balance of the cash account by exactly the opposite of what the voucher moved, records a
  posted voucher in the opposite direction that names it and marks it as reversed; a second reversal is refused as already reversed, or
  returns the first one when it brings the same idempotency key, and the voucher cannot be posted again.
\<close>

theorem voucher_reversed_once:
  assumes "cash_book_reach db" "map_get (cb_entries db) i = Some e" "ke_status e = POSTED" "r \<noteq> []"
    and "reverseEntry pick mkId t db i actor header why dkey r jid rq now = Inr (db', r', f)" "\<bar>cash_balance db' (ke_cashAccountId e)\<bar> \<le> max_safe"
  shows "(\<forall>k. cash_balance db' k = cash_balance db k -
      (if k = ke_cashAccountId e then (if ke_direction e = RECEIPT then ke_amount e else - ke_amount e) else 0)) \<and>
    map_get (cb_entries db') r = Some f \<and> ke_status f = POSTED \<and> ke_reversalOfEntryId f = Some i \<and> ke_direction f \<noteq> ke_direction e \<and> ke_amount f = ke_amount e \<and>
    reverseEntry pick2 mkId2 t db' i actor2 header2 why2 dkey2 r2 jid2 rq2 now2 =
      (if key_of (opt_or header2 dkey2) \<noteq> None \<and> ke_idempotencyKey f = key_of (opt_or header2 dkey2) then Inr (db', r, f)
       else Inl (fin_error POSTING_ALREADY_REVERSED 409)) \<and>
    postEntry pick2 mkId2 db' i actor2 header2 jid2 rq2 now2 = Inl (fin_error CASHBOOK_ENTRY_INVALID_STATE 409)"
proof -
  obtain a a' g0 g j c where n: "map_get (cb_accounts db) (ke_cashAccountId e) = Some a" "0 < ke_amount e" "ke_amount e \<le> max_safe"
    "map_get (cb_entries db) r = None" "f = reversal_entry i e c actor j (key_of (opt_or header dkey)) why now"
    "ka_currentBalance a' = balance_after (opposite (ke_direction e)) (ka_currentBalance a) (ke_amount e)"
    "reversing_journal pick mkId t db e actor why (key_of (opt_or header dkey)) jid rq now = Inr (db\<lparr>cb_ledger := g0\<rparr>, j)"
    "db' = db\<lparr>cb_ledger := g, cb_accounts := map_set (ke_cashAccountId e) a' (cb_accounts db),
      cb_entries := map_set i (reversed_entry e actor r now) (map_set r f (cb_entries db))\<rparr>"
    using reverse_new [OF assms(2,3,5)] by (elim exE conjE) (rule that)
  have ne: "r \<noteq> i" using assms(2) n(4) by auto
  have "cash_balance db' (ke_cashAccountId e) = ka_currentBalance a'" by (simp add: n(8) cash_balance_def)
  then have "ka_currentBalance a' = ka_currentBalance a - signed (ke_direction e) (ke_amount e)"
    using assms(6) n(6) balance_after_safe [of "opposite (ke_direction e)" "ka_currentBalance a" "ke_amount e"] by simp
  then have "cash_balance db' k = cash_balance db k - (if k = ke_cashAccountId e then (if ke_direction e = RECEIPT then ke_amount e else - ke_amount e) else 0)" for k
    using n(1) by (simp add: n(8) cash_balance_def signed_def)
  moreover have rows: "map_get (cb_entries db') i = Some (reversed_entry e actor r now)" "map_get (cb_entries db') r = Some f" using ne by (simp_all add: n(8))
  moreover have load: "load_entry (reversed_entry e actor r now) = Inr (reversed_entry e actor r now)" "load_entry f = Inr f"
    using n(2,3,5) by (simp_all add: load_entry_iff)
  have "reverseEntry pick2 mkId2 t db' i actor2 header2 why2 dkey2 r2 jid2 rq2 now2 =
      (if key_of (opt_or header2 dkey2) \<noteq> None \<and> ke_idempotencyKey f = key_of (opt_or header2 dkey2) then Inr (db', r, f)
       else Inl (fin_error POSTING_ALREADY_REVERSED 409))"
    using assms(4) by (simp add: reverseEntry_def rows load Let_def truthy_def)
  moreover have "postEntry pick2 mkId2 db' i actor2 header2 jid2 rq2 now2 = Inl (fin_error CASHBOOK_ENTRY_INVALID_STATE 409)"
    by (simp add: postEntry_def postEntryInTx_def rows load Let_def)
  ultimately show ?thesis using n(5) by simp
qed

lemma paid_rent_reverses: "case paid_rent of Inl _ \<Rightarrow> False | Inr (db, i, e) \<Rightarrow> cash_balance db ''K1'' = - 300 \<and>
    (case reverseEntry hd id ''T'' db ''E1'' ''bob'' None ''mistake'' None ''E2'' ''J2'' None 2 of Inl _ \<Rightarrow> False | Inr (db', _) \<Rightarrow> cash_balance db' ''K1'' = 0)"
  by code_simp

theorem voucher_reversed_once_witness:
  "\<exists>db i e db' f. paid_rent = Inr (db, i, e) \<and> reverseEntry hd id ''T'' db ''E1'' ''bob'' None ''mistake'' None ''E2'' ''J2'' None 2 = Inr (db', ''E2'', f) \<and>
     cash_balance db ''K1'' = - 300 \<and> cash_balance db' ''K1'' = 0 \<and>
     reverseEntry hd id ''T'' db' ''E1'' ''bob'' None ''mistake'' None ''E3'' ''J3'' None 3 = Inl (fin_error POSTING_ALREADY_REVERSED 409)"
proof -
  obtain db i e where s: "paid_rent = Inr (db, i, e)" "map_get (cb_entries db) ''E1'' = Some e" "ke_status e = POSTED" "ke_cashAccountId e = ''K1''"
    using paid_rent_state by (auto split: sum.splits prod.splits)
  obtain db' r f where v:
    "reverseEntry hd id ''T'' db ''E1'' ''bob'' None ''mistake'' None ''E2'' ''J2'' None 2 = Inr (db', r, f)"
    "cash_balance db ''K1'' = - 300" "cash_balance db' ''K1'' = 0"
    using paid_rent_reverses [unfolded s(1)] by (auto split: sum.splits prod.splits)
  have "r = ''E2''" using reverse_new [OF s(2,3) v(1)] by blast
  moreover have "\<bar>cash_balance db' (ke_cashAccountId e)\<bar> \<le> max_safe" by (simp add: s(4) v(3) max_safe_def)
  from voucher_reversed_once [OF paid_rent_reach [OF s(1)] s(2,3) _ v(1) this, of hd id "''bob''" None "''mistake''" None "''E3''" "''J3''" None 3]
  have "reverseEntry hd id ''T'' db' ''E1'' ''bob'' None ''mistake'' None ''E3'' ''J3'' None 3 = Inl (fin_error POSTING_ALREADY_REVERSED 409)"
    by (simp add: key_of_def opt_or_def)
  ultimately show ?thesis using s v by blast
qed

end
