(* ===== verification/CustomerCredit.thy ===== *)
theory CustomerCredit
  imports CashBook HoldSpec "HOL-Library.Multiset"
begin

text \<open>
  Selling on credit: \<^verbatim>\<open>apps/finance/src/modules/credit-authorization/credit-authorization.service.ts\<close> and the recognition of
  receivables in \<^verbatim>\<open>apps/finance/src/modules/receivables/receivables.service.ts\<close>. A customer's credit profile counts the
  debt already posted and the credit held by open authorizations; an authorization is committed into a receivable,
  released or expired. Every method runs in one transaction that locks the profile, so a method that throws changes
  nothing. Generated ids, the clock and the payload hash (SHA-256 of the JSON text) are arguments; a query that loads a row with an
  amount that is not a safe integer throws.
\<close>

section \<open>Tables\<close>

record CreditProfile =
  cp_id :: string
  cp_creditLimit :: int
  cp_postedDebt :: int
  cp_heldCredit :: int
  cp_prepaymentBalance :: int
  cp_status :: string
  cp_version :: int
  cp_updatedAt :: int

datatype CreditState = CR_HELD | CR_COMMITTED | CR_RELEASED | CR_EXPIRED

record CreditAuthorization =
  au_code :: string
  au_customerId :: string
  au_orderId :: "string option"
  au_branchId :: "string option"
  au_authorizedAmount :: int
  au_state :: CreditState
  au_overrideApprovedBy :: "string option"
  au_overrideReason :: "string option"
  au_idempotencyKey :: string
  au_requestHash :: string
  au_callerService :: string
  au_expiresAt :: int
  au_committedReceivableId :: "string option"
  au_releasedReason :: "string option"
  au_createdBy :: string
  au_committedAt :: "int option"
  au_releasedAt :: "int option"
  au_createdAt :: int
  au_updatedAt :: int

datatype ReceivableStatus = RC_OPEN | RC_PARTIALLY_PAID | RC_PAID | RC_WRITTEN_OFF | RC_REVERSED

record CustomerReceivable =
  rc_code :: string
  rc_customerId :: string
  rc_orderId :: "string option"
  rc_branchId :: "string option"
  rc_creditAuthorizationId :: "string option"
  rc_originalAmount :: int
  rc_paidAmount :: int
  rc_adjustedAmount :: int
  rc_outstandingAmount :: int
  rc_status :: ReceivableStatus
  rc_dueDate :: int
  rc_sourceType :: string
  rc_sourceId :: string
  rc_journalId :: string
  rc_idempotencyKey :: string
  rc_version :: int
  rc_createdAt :: int
  rc_updatedAt :: int

datatype DebtEntryType = DEBT_RECOGNIZED | PAYMENT_APPLIED | WRITE_OFF | ADJUSTMENT | DEBT_REVERSAL

record DebtEntry =
  de_id :: string
  de_customerId :: string
  de_receivableId :: string
  de_entryType :: DebtEntryType
  de_amountDelta :: int
  de_balanceBefore :: int
  de_balanceAfter :: int
  de_paymentMethod :: "string option"
  de_cashbookEntryId :: "string option"
  de_journalId :: string
  de_referenceType :: string
  de_referenceId :: string
  de_idempotencyKey :: string
  de_note :: "string option"
  de_actorId :: string
  de_occurredAt :: int

text \<open>What the service publishes: the authorization (or receivable) and the profile after the change.\<close>

datatype CreditEvent =
    FINANCE_CREDIT_AUTHORIZED string int int int int
  | FINANCE_CREDIT_COMMITTED string int int int int string
  | FINANCE_CREDIT_RELEASED string int int int int
  | FINANCE_RECEIVABLE_CREATED string int int int int
  | FINANCE_RECEIVABLE_PAYMENT_APPLIED string int int int int

text \<open>The tables extend those of the cashbook and the general ledger: profiles are kept by customer, authorizations and receivables by id.\<close>

record CreditDb = CashbookDb +
  cc_profiles :: "(string, CreditProfile) jsmap"
  cc_auths :: "(string, CreditAuthorization) jsmap"
  cc_receivables :: "(string, CustomerReceivable) jsmap"
  cc_debts :: "DebtEntry list"
  cc_outbox :: "CreditEvent list"

definition load_profile :: "CreditProfile \<Rightarrow> CreditProfile fin_result" where
  "load_profile p =
     ebind (finMoney (cp_creditLimit p)) (\<lambda>_. ebind (finMoney (cp_postedDebt p)) (\<lambda>_.
     ebind (finMoney (cp_heldCredit p)) (\<lambda>_. ebind (finMoney (cp_prepaymentBalance p)) (\<lambda>_. Inr p))))"

definition load_auth :: "CreditAuthorization \<Rightarrow> CreditAuthorization fin_result" where
  "load_auth a = ebind (finMoney (au_authorizedAmount a)) (\<lambda>_. Inr a)"

definition load_receivable :: "CustomerReceivable \<Rightarrow> CustomerReceivable fin_result" where
  "load_receivable r =
     ebind (finMoney (rc_originalAmount r)) (\<lambda>_. ebind (finMoney (rc_paidAmount r)) (\<lambda>_.
     ebind (finMoney (rc_adjustedAmount r)) (\<lambda>_. ebind (finMoney (rc_outstandingAmount r)) (\<lambda>_. Inr r))))"

text \<open>The constraints of the four tables: checks, lengths, ranges and unique keys.\<close>

definition profile_check :: "CreditProfile \<Rightarrow> bool" where
  "profile_check p \<longleftrightarrow>
     list_all (\<lambda>v. 0 \<le> v \<and> v < 2 ^ 63) [cp_creditLimit p, cp_postedDebt p, cp_heldCredit p, cp_prepaymentBalance p] \<and>
     cp_version p < 2 ^ 31"

definition save_profile :: "string \<Rightarrow> CreditProfile \<Rightarrow> CreditDb \<Rightarrow> CreditDb fin_result" where
  "save_profile customerId p db =
     (if \<not> profile_check p then Inl query_failed else Inr (db\<lparr>cc_profiles := map_set customerId p (cc_profiles db)\<rparr>))"

definition auth_check :: "CreditAuthorization \<Rightarrow> bool" where
  "auth_check a \<longleftrightarrow> 0 < au_authorizedAmount a \<and> length (au_code a) \<le> 32 \<and> fits 64 (au_overrideApprovedBy a) \<and>
     length (au_idempotencyKey a) \<le> 128 \<and> length (au_requestHash a) \<le> 128 \<and> length (au_callerService a) \<le> 32 \<and> length (au_createdBy a) \<le> 64"

definition insert_auth :: "string \<Rightarrow> CreditAuthorization \<Rightarrow> CreditDb \<Rightarrow> CreditDb fin_result" where
  "insert_auth i a db =
     (if \<not> auth_check a \<or> map_get (cc_auths db) i \<noteq> None \<or>
         \<not> list_all (\<lambda>(_, b). au_idempotencyKey b \<noteq> au_idempotencyKey a) (cc_auths db) then Inl query_failed
      else Inr (db\<lparr>cc_auths := map_set i a (cc_auths db)\<rparr>))"

definition receivable_check :: "CustomerReceivable \<Rightarrow> bool" where
  "receivable_check r \<longleftrightarrow> 0 < rc_originalAmount r \<and> 0 \<le> rc_paidAmount r \<and> 0 \<le> rc_outstandingAmount r \<and>
     rc_paidAmount r + rc_adjustedAmount r + rc_outstandingAmount r = rc_originalAmount r \<and> length (rc_code r) \<le> 32 \<and>
     length (rc_sourceType r) \<le> 48 \<and> length (rc_sourceId r) \<le> 128 \<and> length (rc_idempotencyKey r) \<le> 128 \<and> rc_version r < 2 ^ 31"

definition insert_receivable :: "string \<Rightarrow> CustomerReceivable \<Rightarrow> CreditDb \<Rightarrow> CreditDb fin_result" where
  "insert_receivable i r db =
     (if \<not> receivable_check r \<or> map_get (cc_receivables db) i \<noteq> None \<or>
         \<not> list_all (\<lambda>(_, q). rc_code q \<noteq> rc_code r \<and> rc_idempotencyKey q \<noteq> rc_idempotencyKey r \<and>
             \<not> (rc_sourceType q = rc_sourceType r \<and> rc_sourceId q = rc_sourceId r)) (cc_receivables db) then Inl query_failed
      else Inr (db\<lparr>cc_receivables := map_set i r (cc_receivables db)\<rparr>))"

definition insert_debt :: "DebtEntry \<Rightarrow> CreditDb \<Rightarrow> CreditDb fin_result" where
  "insert_debt d db =
     (if de_amountDelta d = 0 \<or> de_balanceAfter d < 0 \<or> 2 ^ 63 \<le> de_balanceAfter d \<or> 24 < length (case de_paymentMethod d of None \<Rightarrow> [] | Some m \<Rightarrow> m) \<or>
         48 < length (de_referenceType d) \<or> 128 < length (de_referenceId d) \<or> 128 < length (de_idempotencyKey d) \<or> 64 < length (de_actorId d) \<or>
         \<not> list_all (\<lambda>o'. de_id o' \<noteq> de_id d \<and> de_idempotencyKey o' \<noteq> de_idempotencyKey d) (cc_debts db) then Inl query_failed
      else Inr (db\<lparr>cc_debts := cc_debts db @ [d]\<rparr>))"

definition publish :: "CreditEvent \<Rightarrow> CreditDb \<Rightarrow> CreditDb" where
  "publish e db = db\<lparr>cc_outbox := cc_outbox db @ [e]\<rparr>"

section \<open>Profiles\<close>

definition fresh_profile :: "string \<Rightarrow> int \<Rightarrow> CreditProfile" where
  "fresh_profile newId now =
     \<lparr>cp_id = newId, cp_creditLimit = DEFAULT_CUSTOMER_CREDIT_LIMIT_VND, cp_postedDebt = 0, cp_heldCredit = 0,
      cp_prepaymentBalance = 0, cp_status = ''ACTIVE'', cp_version = 1, cp_updatedAt = now\<rparr>"

definition create_profile :: "string \<Rightarrow> int \<Rightarrow> string \<Rightarrow> CreditDb \<Rightarrow> CreditDb" where
  "create_profile newId now customerId db =
     (if map_get (cc_profiles db) customerId \<noteq> None then db
      else db\<lparr>cc_profiles := map_set customerId (fresh_profile newId now) (cc_profiles db)\<rparr>)"

definition lockOrCreateProfileInTx :: "string \<Rightarrow> int \<Rightarrow> CreditDb \<Rightarrow> string \<Rightarrow> (CreditDb \<times> CreditProfile) fin_result" where
  "lockOrCreateProfileInTx newId now db customerId =
     (let db1 = create_profile newId now customerId db in
      ebind (load_profile (the (map_get (cc_profiles db1) customerId))) (\<lambda>p. Inr (db1, p)))"

text \<open>The three amounts as the responses parse them, and the credit that is left.\<close>

definition credit_left :: "CreditProfile \<Rightarrow> int fin_result" where
  "credit_left p =
     ebind (parseVnd (num_arg (cp_creditLimit p)) True False) (\<lambda>limitVnd.
     ebind (parseVnd (num_arg (cp_postedDebt p)) True False) (\<lambda>postedVnd.
     ebind (parseVnd (num_arg (cp_heldCredit p)) True False) (\<lambda>heldVnd.
       Inr (available_credit limitVnd postedVnd heldVnd))))"

definition formatProfileResponse :: "CreditProfile \<Rightarrow> (CreditProfile \<times> int) fin_result" where
  "formatProfileResponse p = ebind (credit_left p) (\<lambda>avail. Inr (p, avail))"

definition formatAuthorizationResponse ::
    "string \<Rightarrow> CreditAuthorization \<Rightarrow> CreditProfile \<Rightarrow> (string \<times> CreditAuthorization \<times> CreditProfile \<times> int) fin_result" where
  "formatAuthorizationResponse i a p = ebind (credit_left p) (\<lambda>avail. Inr (i, a, p, avail))"

definition getCreditProfile :: "string \<Rightarrow> int \<Rightarrow> CreditDb \<Rightarrow> string \<Rightarrow> (CreditDb \<times> CreditProfile \<times> int) fin_result" where
  "getCreditProfile newId now db customerId =
     ebind (lockOrCreateProfileInTx newId now db customerId) (\<lambda>(db1, profile).
     ebind (formatProfileResponse profile) (\<lambda>r. Inr (db1, r)))"

definition updateCreditLimit :: "string \<Rightarrow> int \<Rightarrow> CreditDb \<Rightarrow> string \<Rightarrow> jsnum \<Rightarrow> (CreditDb \<times> CreditProfile \<times> int) fin_result" where
  "updateCreditLimit newId now db customerId creditLimit =
     ebind (parseVnd (Num creditLimit) True False) (\<lambda>newLimitVnd.
     ebind (lockOrCreateProfileInTx newId now db customerId) (\<lambda>(db1, profile).
     let profile' = profile\<lparr>cp_creditLimit := newLimitVnd, cp_version := cp_version profile + 1, cp_updatedAt := now\<rparr> in
     ebind (save_profile customerId profile' db1) (\<lambda>db2.
     ebind (formatProfileResponse profile') (\<lambda>r. Inr (db2, r)))))"

section \<open>Authorizing\<close>

record CreateCreditAuthorizationDto =
  cd_customerId :: string
  cd_amount :: jsnum
  cd_orderId :: "string option"
  cd_branchId :: "string option"
  cd_callerService :: "string option"
  cd_ttlSeconds :: "int option"
  cd_overrideApprovedBy :: "string option"
  cd_overrideReason :: "string option"
  cd_idempotencyKey :: "string option"

type_synonym hash_payload = "string \<times> int \<times> string option \<times> string option \<times> string option"

definition auth_by_key :: "CreditDb \<Rightarrow> string \<Rightarrow> (string \<times> CreditAuthorization) option" where
  "auth_by_key db k = find (\<lambda>(_, a). au_idempotencyKey a = k) (cc_auths db)"

definition new_auth ::
    "string \<Rightarrow> CreateCreditAuthorizationDto \<Rightarrow> int \<Rightarrow> string \<Rightarrow> string \<Rightarrow> string \<Rightarrow> int \<Rightarrow> CreditAuthorization" where
  "new_auth actorId dto amountVnd code' idempotencyKey requestHash now =
     \<lparr>au_code = code', au_customerId = cd_customerId dto, au_orderId = cd_orderId dto, au_branchId = cd_branchId dto,
      au_authorizedAmount = amountVnd, au_state = CR_HELD, au_overrideApprovedBy = cd_overrideApprovedBy dto,
      au_overrideReason = cd_overrideReason dto, au_idempotencyKey = idempotencyKey, au_requestHash = requestHash,
      au_callerService = (case cd_callerService dto of None \<Rightarrow> ''sales'' | Some s \<Rightarrow> s),
      au_expiresAt = now + (case cd_ttlSeconds dto of None \<Rightarrow> 900 | Some t \<Rightarrow> t) * 1000,
      au_committedReceivableId = None, au_releasedReason = None, au_createdBy = actorId, au_committedAt = None,
      au_releasedAt = None, au_createdAt = now, au_updatedAt = now\<rparr>"

text \<open>The last component of the result says whether the call was a replay.\<close>

type_synonym auth_result = "(CreditDb \<times> (string \<times> CreditAuthorization \<times> CreditProfile \<times> int) \<times> bool) fin_result"

definition authorizeCredit ::
    "(hash_payload \<Rightarrow> string) \<Rightarrow> CreditDb \<Rightarrow> string \<Rightarrow> string option \<Rightarrow> CreateCreditAuthorizationDto \<Rightarrow> string \<Rightarrow> string \<Rightarrow> int \<Rightarrow> auth_result" where
  "authorizeCredit computePayloadHash db actorId header dto profileId newId now =
     (let rawKey = js_trim (case opt_or header (cd_idempotencyKey dto) of None \<Rightarrow> [] | Some k \<Rightarrow> k) in
      ebind (throw_if (rawKey = []) (fin_error VALIDATION_ERROR 422)) (\<lambda>_.
      let idempotencyKey = js_lower rawKey in
      ebind (parseVnd (Num (cd_amount dto)) False False) (\<lambda>amountVnd.
      let requestHash = computePayloadHash (cd_customerId dto, amountVnd, cd_orderId dto, cd_branchId dto, cd_overrideApprovedBy dto) in
      ebind (lockOrCreateProfileInTx profileId now db (cd_customerId dto)) (\<lambda>(db1, profile).
      case auth_by_key db1 idempotencyKey of
        Some (i, row) \<Rightarrow>
          ebind (load_auth row) (\<lambda>existing.
          if au_requestHash existing \<noteq> requestHash then Inl (fin_error IDEMPOTENCY_CONFLICT 409)
          else ebind (formatAuthorizationResponse i existing profile) (\<lambda>r. Inr (db1, r, True)))
      | None \<Rightarrow>
          ebind (evaluateCreditAuthorization
                   \<lparr>ci_creditLimit = Fin (of_int (cp_creditLimit profile)), ci_postedDebt = Fin (of_int (cp_postedDebt profile)),
                    ci_heldCredit = Fin (of_int (cp_heldCredit profile)), ci_requestedAmount = Fin (of_int amountVnd),
                    ci_overrideApprovedBy = cd_overrideApprovedBy dto\<rparr>) (\<lambda>evaluation.
          let (db2, code') = cash_code ''CRD'' db1;
              profile' = profile\<lparr>cp_heldCredit := ca_heldCreditAfter evaluation, cp_version := cp_version profile + 1, cp_updatedAt := now\<rparr>;
              auth = new_auth actorId dto amountVnd code' idempotencyKey requestHash now in
          ebind (save_profile (cd_customerId dto) profile' db2) (\<lambda>db3.
          ebind (insert_auth newId auth db3) (\<lambda>db4.
          let db5 = publish (FINANCE_CREDIT_AUTHORIZED newId amountVnd (cp_postedDebt profile') (cp_heldCredit profile')
                               (ca_availableCreditAfter evaluation)) db4 in
          ebind (formatAuthorizationResponse newId auth profile') (\<lambda>r. Inr (db5, r, False)))))))))"

definition getAuthorizationById ::
    "CreditDb \<Rightarrow> string \<Rightarrow> string \<Rightarrow> int \<Rightarrow> (CreditDb \<times> string \<times> CreditAuthorization \<times> CreditProfile \<times> int) fin_result" where
  "getAuthorizationById db i profileId now =
     (case map_get (cc_auths db) i of
        None \<Rightarrow> Inl (fin_error CREDIT_AUTHORIZATION_NOT_FOUND 404)
      | Some row \<Rightarrow>
          ebind (load_auth row) (\<lambda>auth.
          ebind (lockOrCreateProfileInTx profileId now db (au_customerId auth)) (\<lambda>(db1, profile).
          ebind (formatAuthorizationResponse i auth profile) (\<lambda>r. Inr (db1, r)))))"

definition getAuthorizationByIdempotencyKey ::
    "CreditDb \<Rightarrow> string \<Rightarrow> string \<Rightarrow> int \<Rightarrow> (CreditDb \<times> string \<times> CreditAuthorization \<times> CreditProfile \<times> int) fin_result" where
  "getAuthorizationByIdempotencyKey db key profileId now =
     (case auth_by_key db (js_lower (js_trim key)) of
        None \<Rightarrow> Inl (fin_error CREDIT_AUTHORIZATION_NOT_FOUND 404)
      | Some (i, row) \<Rightarrow>
          ebind (load_auth row) (\<lambda>auth.
          ebind (lockOrCreateProfileInTx profileId now db (au_customerId auth)) (\<lambda>(db1, profile).
          ebind (formatAuthorizationResponse i auth profile) (\<lambda>r. Inr (db1, r)))))"

section \<open>Committing, releasing and expiring\<close>

definition held_less :: "int \<Rightarrow> int \<Rightarrow> int" where
  "held_less heldBeforeVnd authVnd = (if heldBeforeVnd \<ge> authVnd then fli (heldBeforeVnd - authVnd) else 0)"

text \<open>A credit sale debits the receivables account and credits the clearing account of sales revenue.\<close>

definition credit_sale_lines :: "int \<Rightarrow> string option \<Rightarrow> string \<Rightarrow> string \<Rightarrow> string \<Rightarrow> JournalLineInput list" where
  "credit_sale_lines amount branchId customerId memo memo' =
     [\<lparr>jl_accountCode = Some (gl ''ACCOUNTS_RECEIVABLE''), jl_debitAmount = num_arg amount, jl_creditAmount = Undefined,
       jl_branchId = branchId, jl_partyType = Some CUSTOMER, jl_partyId = Some customerId, jl_referenceType = None,
       jl_referenceId = None, jl_memo = Some memo\<rparr>,
      \<lparr>jl_accountCode = Some (gl ''SALES_REVENUE_CLEARING''), jl_debitAmount = Undefined, jl_creditAmount = num_arg amount,
       jl_branchId = branchId, jl_partyType = Some CUSTOMER, jl_partyId = Some customerId, jl_referenceType = None,
       jl_referenceId = None, jl_memo = Some memo'\<rparr>]"

definition commit_journal :: "string \<Rightarrow> CreditAuthorization \<Rightarrow> string option \<Rightarrow> string \<Rightarrow> PostJournalInTxInput" where
  "commit_journal i auth branchId effectiveActor =
     \<lparr>pj_journalType = ''CREDIT_SALE_RECEIVABLE'', pj_sourceType = ''CREDIT_AUTHORIZATION_COMMIT'', pj_sourceId = i,
      pj_idempotencyKey = Some (''crd-commit-jnl:'' @ i), pj_branchId = branchId,
      pj_description = Some (''Credit sale receivable for authorization '' @ au_code auth), pj_effectiveDate = None,
      pj_postedBy = effectiveActor, pj_correlationId = None, pj_reversalOf = None,
      pj_lines = credit_sale_lines (au_authorizedAmount auth) branchId (au_customerId auth)
        (''Customer receivable from credit authorization '' @ au_code auth) (''Credit sale clearing for '' @ au_code auth)\<rparr>"

definition new_receivable ::
    "string \<Rightarrow> string \<Rightarrow> string option \<Rightarrow> string option \<Rightarrow> string option \<Rightarrow> int \<Rightarrow> string \<Rightarrow> string \<Rightarrow> string \<Rightarrow> string \<Rightarrow> int \<Rightarrow> CustomerReceivable" where
  "new_receivable code' customerId orderId branchId authId amount sourceType sourceId journalId key now =
     \<lparr>rc_code = code', rc_customerId = customerId, rc_orderId = orderId, rc_branchId = branchId, rc_creditAuthorizationId = authId,
      rc_originalAmount = amount, rc_paidAmount = 0, rc_adjustedAmount = 0, rc_outstandingAmount = amount, rc_status = RC_OPEN,
      rc_dueDate = now + 30 * 86400 * 1000, rc_sourceType = sourceType, rc_sourceId = sourceId, rc_journalId = journalId,
      rc_idempotencyKey = key, rc_version = 1, rc_createdAt = now, rc_updatedAt = now\<rparr>"

definition recognized_debt ::
    "string \<Rightarrow> string \<Rightarrow> string \<Rightarrow> int \<Rightarrow> int \<Rightarrow> int \<Rightarrow> string \<Rightarrow> string \<Rightarrow> string \<Rightarrow> string \<Rightarrow> string option \<Rightarrow> string \<Rightarrow> int \<Rightarrow> DebtEntry" where
  "recognized_debt newId customerId receivableId amount before after journalId refType refId key why actor now =
     \<lparr>de_id = newId, de_customerId = customerId, de_receivableId = receivableId, de_entryType = DEBT_RECOGNIZED,
      de_amountDelta = amount, de_balanceBefore = before, de_balanceAfter = after, de_paymentMethod = Some ''CREDIT'',
      de_cashbookEntryId = None, de_journalId = journalId, de_referenceType = refType, de_referenceId = refId,
      de_idempotencyKey = key, de_note = why, de_actorId = actor, de_occurredAt = now\<rparr>"

record CommitCreditAuthorizationDto =
  cm_orderId :: "string option"
  cm_branchId :: "string option"
  cm_actorId :: "string option"

text \<open>The ids the transaction generates: of the profile, the journal, the receivable and the ledger entry.\<close>

record credit_ids =
  id_profile :: string
  id_journal :: string
  id_receivable :: string
  id_debt :: string

definition commit_receivable :: "string \<Rightarrow> CreditAuthorization \<Rightarrow> string option \<Rightarrow> string option \<Rightarrow> string \<Rightarrow> string \<Rightarrow> int \<Rightarrow> CustomerReceivable" where
  "commit_receivable i auth orderId branchId code' journalId now =
     new_receivable code' (au_customerId auth) orderId branchId (Some i) (au_authorizedAmount auth)
       (if truthy orderId then ''SALES_ORDER'' else ''CREDIT_AUTHORIZATION'') (case orderId of None \<Rightarrow> i | Some o' \<Rightarrow> o')
       journalId (''ar-from-crd:'' @ i) now"

definition commitAuthorization ::
    "(FinancialJournal list \<Rightarrow> FinancialJournal) \<Rightarrow> (string \<Rightarrow> string) \<Rightarrow> CreditDb \<Rightarrow> string \<Rightarrow> string \<Rightarrow> CommitCreditAuthorizationDto \<Rightarrow>
     credit_ids \<Rightarrow> string option \<Rightarrow> int \<Rightarrow> auth_result" where
  "commitAuthorization pick mkId db i actorId dto ids requestId now =
     (case map_get (cc_auths db) i of
        None \<Rightarrow> Inl (fin_error CREDIT_AUTHORIZATION_NOT_FOUND 404)
      | Some row \<Rightarrow>
          ebind (load_auth row) (\<lambda>auth.
          ebind (lockOrCreateProfileInTx (id_profile ids) now db (au_customerId auth)) (\<lambda>(db1, profile).
          if au_state auth = CR_COMMITTED then ebind (formatAuthorizationResponse i auth profile) (\<lambda>r. Inr (db1, r, True))
          else if au_state auth \<noteq> CR_HELD then Inl (fin_error CREDIT_AUTHORIZATION_INVALID_STATE 409)
          else
            ebind (parseVnd (num_arg (au_authorizedAmount auth)) False False) (\<lambda>authVnd.
            ebind (parseVnd (num_arg (cp_heldCredit profile)) True False) (\<lambda>heldBeforeVnd.
            ebind (parseVnd (num_arg (cp_postedDebt profile)) True False) (\<lambda>postedBeforeVnd.
            let heldAfterVnd = held_less heldBeforeVnd authVnd;
                postedAfterVnd = fli (postedBeforeVnd + authVnd);
                orderId = opt_or (cm_orderId dto) (au_orderId auth);
                branchId = opt_or (cm_branchId dto) (au_branchId auth);
                effectiveActor = (case cm_actorId dto of None \<Rightarrow> actorId | Some a \<Rightarrow> a) in
            ebind (postJournalInTx pick mkId (cb_ledger db1) (commit_journal i auth branchId effectiveActor) (id_journal ids) requestId now)
              (\<lambda>(g, journal, _).
            let (db2, recCode) = cash_code ''AR'' (db1\<lparr>cb_ledger := g\<rparr>);
                receivable = commit_receivable i auth orderId branchId recCode (jn_id journal) now in
            ebind (insert_receivable (id_receivable ids) receivable db2) (\<lambda>db3.
            ebind (insert_debt (recognized_debt (id_debt ids) (au_customerId auth) (id_receivable ids) (au_authorizedAmount auth)
                     postedBeforeVnd postedAfterVnd (jn_id journal) ''CREDIT_AUTHORIZATION'' i (''ar-ldg-crd:'' @ i)
                     (Some (''Committed credit hold '' @ au_code auth)) effectiveActor now) db3) (\<lambda>db4.
            let profile' = profile\<lparr>cp_heldCredit := heldAfterVnd, cp_postedDebt := postedAfterVnd,
                                   cp_version := cp_version profile + 1, cp_updatedAt := now\<rparr>;
                auth' = auth\<lparr>au_state := CR_COMMITTED, au_orderId := orderId, au_branchId := branchId,
                             au_committedReceivableId := Some (id_receivable ids), au_committedAt := Some now, au_updatedAt := now\<rparr> in
            ebind (save_profile (au_customerId auth) profile' db4) (\<lambda>db5.
            let db6 = db5\<lparr>cc_auths := map_set i auth' (cc_auths db5)\<rparr> in
            ebind (parseVnd (num_arg (cp_creditLimit profile')) True False) (\<lambda>limitVnd.
            let db7 = publish (FINANCE_CREDIT_COMMITTED i (au_authorizedAmount auth) postedAfterVnd heldAfterVnd
                                 (available_credit limitVnd postedAfterVnd heldAfterVnd) (id_receivable ids)) db6;
                db8 = publish (FINANCE_RECEIVABLE_CREATED (id_receivable ids) (rc_originalAmount receivable) (rc_paidAmount receivable)
                                 (rc_outstandingAmount receivable) postedAfterVnd) db7 in
            ebind (formatAuthorizationResponse i auth' profile') (\<lambda>r. Inr (db8, r, False)))))))))))))"

definition releaseAuthorization ::
    "CreditDb \<Rightarrow> string \<Rightarrow> string \<Rightarrow> string option \<Rightarrow> string option \<Rightarrow> string \<Rightarrow> int \<Rightarrow> auth_result" where
  "releaseAuthorization db i actorId reason dtoActor profileId now =
     (case map_get (cc_auths db) i of
        None \<Rightarrow> Inl (fin_error CREDIT_AUTHORIZATION_NOT_FOUND 404)
      | Some row \<Rightarrow>
          ebind (load_auth row) (\<lambda>auth.
          ebind (lockOrCreateProfileInTx profileId now db (au_customerId auth)) (\<lambda>(db1, profile).
          if au_state auth = CR_RELEASED \<or> au_state auth = CR_EXPIRED
          then ebind (formatAuthorizationResponse i auth profile) (\<lambda>r. Inr (db1, r, True))
          else if au_state auth \<noteq> CR_HELD then Inl (fin_error CREDIT_AUTHORIZATION_INVALID_STATE 409)
          else
            ebind (parseVnd (num_arg (au_authorizedAmount auth)) False False) (\<lambda>authVnd.
            ebind (parseVnd (num_arg (cp_heldCredit profile)) True False) (\<lambda>heldBeforeVnd.
            let heldAfterVnd = held_less heldBeforeVnd authVnd;
                profile' = profile\<lparr>cp_heldCredit := heldAfterVnd, cp_version := cp_version profile + 1, cp_updatedAt := now\<rparr>;
                auth' = auth\<lparr>au_state := CR_RELEASED,
                  au_releasedReason := Some (case reason of Some r \<Rightarrow> r
                    | None \<Rightarrow> ''Released by '' @ (case dtoActor of None \<Rightarrow> actorId | Some a \<Rightarrow> a)),
                  au_releasedAt := Some now, au_updatedAt := now\<rparr> in
            ebind (save_profile (au_customerId auth) profile' db1) (\<lambda>db2.
            let db3 = db2\<lparr>cc_auths := map_set i auth' (cc_auths db2)\<rparr> in
            ebind (parseVnd (num_arg (cp_creditLimit profile')) True False) (\<lambda>limitVnd.
            ebind (parseVnd (num_arg (cp_postedDebt profile')) True False) (\<lambda>postedVnd.
            let db4 = publish (FINANCE_CREDIT_RELEASED i (au_authorizedAmount auth) postedVnd heldAfterVnd
                                 (available_credit limitVnd postedVnd heldAfterVnd)) db3 in
            ebind (formatAuthorizationResponse i auth' profile') (\<lambda>r. Inr (db4, r, False))))))))))"

text \<open>
  The sweep: the query returns, in no stated order (\<open>order\<close>), the due authorizations that no other transaction has locked
  (\<^verbatim>\<open>SKIP LOCKED\<close>: \<open>locked\<close> are the ids that are skipped).
\<close>

definition stale :: "CreditDb \<Rightarrow> string list \<Rightarrow> int \<Rightarrow> (string \<times> CreditAuthorization) list" where
  "stale db locked now =
     filter (\<lambda>(i, a). au_state a = CR_HELD \<and> au_expiresAt a \<le> now \<and> i \<notin> set locked) (cc_auths db)"

definition set_expired :: "int \<Rightarrow> CreditAuthorization \<Rightarrow> CreditAuthorization" where
  "set_expired now a = a\<lparr>au_state := CR_EXPIRED, au_releasedReason := Some ''TTL_EXPIRED'', au_releasedAt := Some now, au_updatedAt := now\<rparr>"

definition expire_row :: "string \<Rightarrow> int \<Rightarrow> string \<times> CreditAuthorization \<Rightarrow> CreditDb \<Rightarrow> CreditDb fin_result" where
  "expire_row profileId now row db =
     (case row of (i, a) \<Rightarrow>
        ebind (finMoney (au_authorizedAmount a)) (\<lambda>amountVnd.
        ebind (lockOrCreateProfileInTx profileId now db (au_customerId a)) (\<lambda>(db1, profile).
        ebind (parseVnd (num_arg (cp_heldCredit profile)) True False) (\<lambda>heldBefore.
        ebind (parseVnd (num_arg amountVnd) False False) (\<lambda>authVnd.
        let profile' = profile\<lparr>cp_heldCredit := held_less heldBefore authVnd, cp_version := cp_version profile + 1, cp_updatedAt := now\<rparr> in
        ebind (save_profile (au_customerId a) profile' db1) (\<lambda>db2.
          Inr (case map_get (cc_auths db2) i of None \<Rightarrow> db2
               | Some b \<Rightarrow> db2\<lparr>cc_auths := map_set i (set_expired now b) (cc_auths db2)\<rparr>)))))))"

definition expireStaleAuthorizations ::
    "((string \<times> CreditAuthorization) list \<Rightarrow> (string \<times> CreditAuthorization) list) \<Rightarrow> CreditDb \<Rightarrow> string list \<Rightarrow> string \<Rightarrow> int \<Rightarrow> (CreditDb \<times> nat) fin_result" where
  "expireStaleAuthorizations order db locked profileId now =
     (let overdue = order (stale db locked now) in
      ebind (efold (expire_row profileId now) overdue db) (\<lambda>db'. Inr (db', length overdue)))"

section \<open>Recognizing a receivable\<close>

record RecognizeReceivableDto =
  rd_customerId :: string
  rd_amount :: jsnum
  rd_orderId :: "string option"
  rd_branchId :: "string option"
  rd_sourceType :: "string option"
  rd_sourceId :: "string option"
  rd_overrideApprovedBy :: "string option"
  rd_note :: "string option"
  rd_idempotencyKey :: "string option"

definition receivable_source :: "RecognizeReceivableDto \<Rightarrow> int \<Rightarrow> string \<times> string" where
  "receivable_source dto amountVnd =
     (js_upper (js_trim (case rd_sourceType dto of None \<Rightarrow> ''SALES_ORDER'' | Some s \<Rightarrow> s)),
      js_trim (case opt_or (rd_sourceId dto) (rd_orderId dto) of
        None \<Rightarrow> ''manual:'' @ rd_customerId dto @ '':'' @ show_digits amountVnd | Some s \<Rightarrow> s))"

definition receivable_key :: "string option \<Rightarrow> RecognizeReceivableDto \<Rightarrow> string \<times> string \<Rightarrow> string" where
  "receivable_key header dto source =
     js_lower (js_trim (case opt_or header (rd_idempotencyKey dto) of
       None \<Rightarrow> ''ar:'' @ fst source @ '':'' @ snd source | Some k \<Rightarrow> k))"

definition matching_receivables :: "CreditDb \<Rightarrow> string \<times> string \<Rightarrow> string \<Rightarrow> (string \<times> CustomerReceivable) list" where
  "matching_receivables db source key =
     filter (\<lambda>(_, r). (rc_sourceType r, rc_sourceId r) = source \<or> rc_idempotencyKey r = key) (cc_receivables db)"

definition recognize_journal :: "RecognizeReceivableDto \<Rightarrow> int \<Rightarrow> string \<times> string \<Rightarrow> string \<Rightarrow> string \<Rightarrow> PostJournalInTxInput" where
  "recognize_journal dto amountVnd source key actorId =
     (let label = fst source @ '':'' @ snd source in
      \<lparr>pj_journalType = ''CREDIT_SALE_RECEIVABLE'', pj_sourceType = fst source, pj_sourceId = snd source,
       pj_idempotencyKey = Some (''ar-jnl:'' @ key), pj_branchId = rd_branchId dto,
       pj_description = opt_or (rd_note dto) (Some (''Customer receivable recognized for '' @ label)), pj_effectiveDate = None,
       pj_postedBy = actorId, pj_correlationId = None, pj_reversalOf = None,
       pj_lines = credit_sale_lines amountVnd (rd_branchId dto) (rd_customerId dto)
         (''Receivable for '' @ label) (''Sales clearing for '' @ label)\<rparr>)"

text \<open>The result is the receivable with its id, the customer's debt after the call and whether it was a replay.\<close>

definition recognizeReceivable ::
    "((string \<times> CustomerReceivable) list \<Rightarrow> string \<times> CustomerReceivable) \<Rightarrow> (FinancialJournal list \<Rightarrow> FinancialJournal) \<Rightarrow> (string \<Rightarrow> string) \<Rightarrow>
     CreditDb \<Rightarrow> string \<Rightarrow> string option \<Rightarrow> RecognizeReceivableDto \<Rightarrow> credit_ids \<Rightarrow> string option \<Rightarrow> int \<Rightarrow>
     (CreditDb \<times> (string \<times> CustomerReceivable) \<times> int \<times> bool) fin_result" where
  "recognizeReceivable pickRow pick mkId db actorId header dto ids requestId now =
     ebind (parseVnd (Num (rd_amount dto)) False False) (\<lambda>amountVnd.
     let source = receivable_source dto amountVnd; key = receivable_key header dto source in
     ebind (lockOrCreateProfileInTx (id_profile ids) now db (rd_customerId dto)) (\<lambda>(db1, profile).
     if matching_receivables db1 source key \<noteq> [] then
       (case pickRow (matching_receivables db1 source key) of (i, row) \<Rightarrow>
          ebind (load_receivable row) (\<lambda>existing.
          if rc_customerId existing \<noteq> rd_customerId dto \<or> rc_originalAmount existing \<noteq> amountVnd then Inl (fin_error IDEMPOTENCY_CONFLICT 409)
          else Inr (db1, (i, existing), cp_postedDebt profile, True)))
     else
       ebind (evaluateCreditAuthorization
                \<lparr>ci_creditLimit = Fin (of_int (cp_creditLimit profile)), ci_postedDebt = Fin (of_int (cp_postedDebt profile)),
                 ci_heldCredit = Fin (of_int (cp_heldCredit profile)), ci_requestedAmount = Fin (of_int amountVnd),
                 ci_overrideApprovedBy = rd_overrideApprovedBy dto\<rparr>) (\<lambda>_.
       ebind (parseVnd (num_arg (cp_postedDebt profile)) True False) (\<lambda>postedBeforeVnd.
       let postedAfterVnd = fli (postedBeforeVnd + amountVnd) in
       ebind (postJournalInTx pick mkId (cb_ledger db1) (recognize_journal dto amountVnd source key actorId) (id_journal ids) requestId now)
         (\<lambda>(g, journal, _).
       let (db2, code') = cash_code ''AR'' (db1\<lparr>cb_ledger := g\<rparr>);
           receivable = new_receivable code' (rd_customerId dto) (rd_orderId dto) (rd_branchId dto) None amountVnd (fst source) (snd source)
             (jn_id journal) key now in
       ebind (insert_receivable (id_receivable ids) receivable db2) (\<lambda>db3.
       ebind (insert_debt (recognized_debt (id_debt ids) (rd_customerId dto) (id_receivable ids) amountVnd postedBeforeVnd postedAfterVnd
                (jn_id journal) (fst source) (snd source) (''ar-ldg:'' @ key) (rd_note dto) actorId now) db3) (\<lambda>db4.
       let profile' = profile\<lparr>cp_postedDebt := postedAfterVnd, cp_version := cp_version profile + 1, cp_updatedAt := now\<rparr> in
       ebind (save_profile (rd_customerId dto) profile' db4) (\<lambda>db5.
         Inr (publish (FINANCE_RECEIVABLE_CREATED (id_receivable ids) amountVnd 0 amountVnd postedAfterVnd) db5,
              (id_receivable ids, receivable), postedAfterVnd, False)))))))))"

section \<open>The invariant\<close>

text \<open>The demand of an open authorization, the debt a receivable still carries and what an entry moved, per customer.\<close>

definition credit_demand :: "CreditAuthorization \<Rightarrow> string demand option" where
  "credit_demand a = (if au_state a = CR_HELD then Some (\<lambda>c. if c = au_customerId a then au_authorizedAmount a else 0) else None)"

definition held_of :: "CreditDb \<Rightarrow> string demand" where
  "held_of db c = (case map_get (cc_profiles db) c of None \<Rightarrow> 0 | Some p \<Rightarrow> cp_heldCredit p)"

definition posted_of :: "CreditDb \<Rightarrow> string \<Rightarrow> int" where
  "posted_of db c = (case map_get (cc_profiles db) c of None \<Rightarrow> 0 | Some p \<Rightarrow> cp_postedDebt p)"

definition prepaid_of :: "CreditDb \<Rightarrow> string \<Rightarrow> int" where
  "prepaid_of db c = (case map_get (cc_profiles db) c of None \<Rightarrow> 0 | Some p \<Rightarrow> cp_prepaymentBalance p)"

definition limit_of :: "CreditDb \<Rightarrow> string \<Rightarrow> int" where
  "limit_of db c = (case map_get (cc_profiles db) c of None \<Rightarrow> DEFAULT_CUSTOMER_CREDIT_LIMIT_VND | Some p \<Rightarrow> cp_creditLimit p)"

definition owes :: "string \<Rightarrow> CustomerReceivable \<Rightarrow> int" where
  "owes c r = (if rc_customerId r = c then rc_outstandingAmount r else 0)"

definition owed_by :: "CreditDb \<Rightarrow> string \<Rightarrow> int" where
  "owed_by db c = map_sum (owes c) (cc_receivables db)"

definition debt_by :: "CreditDb \<Rightarrow> string \<Rightarrow> int" where
  "debt_by db c = sum_list (map de_amountDelta (filter (\<lambda>d. de_customerId d = c) (cc_debts db)))"

text \<open>
  A posted debt that is not a safe integer can be stored (by a recognition that overrides the limit), and so can a prepayment balance (by an
  overpayment), but neither can be read back: such a debt is left out of the invariant, and such a profile cannot be locked any more.
\<close>

definition readable :: "CreditDb \<Rightarrow> string \<Rightarrow> bool" where
  "readable db c \<longleftrightarrow> posted_of db c \<le> max_safe \<and> prepaid_of db c \<le> max_safe"

definition posted_ok :: "CreditDb \<Rightarrow> string \<Rightarrow> bool" where
  "posted_ok db c \<longleftrightarrow> 0 \<le> posted_of db c \<and>
     (posted_of db c \<le> max_safe \<longrightarrow> posted_of db c = owed_by db c \<and> posted_of db c = debt_by db c)"

definition profile_ok :: "CreditProfile \<Rightarrow> bool" where
  "profile_ok p \<longleftrightarrow> 0 \<le> cp_creditLimit p \<and> cp_creditLimit p \<le> max_safe \<and> 0 \<le> cp_heldCredit p \<and> cp_heldCredit p \<le> max_safe \<and>
     0 \<le> cp_postedDebt p \<and> 0 \<le> cp_prepaymentBalance p"

definition auth_ok :: "(string, CustomerReceivable) jsmap \<Rightarrow> CreditAuthorization \<Rightarrow> bool" where
  "auth_ok rs a \<longleftrightarrow> 0 < au_authorizedAmount a \<and> au_authorizedAmount a \<le> max_safe \<and>
     (au_state a = CR_COMMITTED \<longrightarrow> (\<exists>i r. au_committedReceivableId a = Some i \<and> map_get rs i = Some r \<and>
        rc_originalAmount r = au_authorizedAmount a \<and> rc_customerId r = au_customerId a))"

text \<open>A receivable is never adjusted, its amounts are safe integers and it is paid exactly when nothing is outstanding.\<close>

definition receivable_ok :: "CustomerReceivable \<Rightarrow> bool" where
  "receivable_ok r \<longleftrightarrow> receivable_check r \<and> rc_adjustedAmount r = 0 \<and> rc_originalAmount r \<le> max_safe \<and>
     (if rc_outstandingAmount r = 0 then rc_status r = RC_PAID else rc_status r = RC_OPEN \<or> rc_status r = RC_PARTIALLY_PAID)"

definition credit_ok :: "CreditDb \<Rightarrow> bool" where
  "credit_ok db \<longleftrightarrow> cashbook_ok db \<and> distinct (map fst (cc_auths db)) \<and> distinct (map fst (cc_receivables db)) \<and>
     (\<forall>x \<in> set (cc_receivables db). receivable_ok (snd x)) \<and>
     (\<forall>c p. map_get (cc_profiles db) c = Some p \<longrightarrow> profile_ok p) \<and>
     (\<forall>x \<in> set (cc_auths db). auth_ok (cc_receivables db) (snd x)) \<and>
     (\<forall>c. held_of db c = map_sum (held_by credit_demand c) (cc_auths db)) \<and> (\<forall>c. posted_ok db c)"

interpretation credit_holds: hold_table held_of cc_auths credit_demand credit_ok
proof
  show "0 \<le> d c" if "credit_ok db" "(i, a) \<in> set (cc_auths db)" "credit_demand a = Some d" for db i a d c
  proof -
    have "auth_ok (cc_receivables db) a" using that(1,2) by (auto simp: credit_ok_def)
    then show ?thesis using that(3) by (auto simp: credit_demand_def auth_ok_def split: if_splits)
  qed
qed (simp_all add: credit_ok_def)

lemma credit_okD:
  assumes "credit_ok db"
  shows "cashbook_ok db" "map_get (cc_profiles db) c = Some p \<Longrightarrow> profile_ok p" "posted_ok db c"
    "map_get (cc_auths db) i = Some a \<Longrightarrow> auth_ok (cc_receivables db) a" "ledger_ok (cb_ledger db)"
    "map_get (cc_receivables db) k = Some r \<Longrightarrow> receivable_ok r"
  using assms map_get_in_set [of "cc_auths db" i a] map_get_in_set [of "cc_receivables db" k r] by (auto simp: credit_ok_def cashbook_ok_def)

lemma cashbook_ok_credit [simp]:
  fixes db :: CreditDb
  shows "cashbook_ok (db\<lparr>cc_profiles := m1\<rparr>) = cashbook_ok db" "cashbook_ok (db\<lparr>cc_auths := m2\<rparr>) = cashbook_ok db" "cashbook_ok (db\<lparr>cc_receivables := m3\<rparr>) = cashbook_ok db"
    "cashbook_ok (db\<lparr>cc_debts := ds\<rparr>) = cashbook_ok db" "cashbook_ok (db\<lparr>cc_outbox := out\<rparr>) = cashbook_ok db"
  by (simp_all add: cashbook_ok_def cash_balance_def cash_total_def reversal_pair_def)

lemma cashbook_ok_ledger: "cashbook_ok db \<Longrightarrow> ledger_ok g \<Longrightarrow> cashbook_ok (db\<lparr>cb_ledger := g\<rparr>)"
  by (simp add: cashbook_ok_def cash_balance_def cash_total_def reversal_pair_def)

lemma held_by_demand: "held_by credit_demand c a = (if au_state a = CR_HELD \<and> c = au_customerId a then au_authorizedAmount a else 0)"
  by (simp add: held_by_def credit_demand_def)

text \<open>A step that writes the profile of one customer, authorizations, receivables and entries keeps the invariant when the sums agree.\<close>

lemma credit_step:
  assumes ok: "credit_ok db" and gl: "cashbook_ok db'"
    and recs: "distinct (map fst (cc_receivables db'))" "\<forall>x \<in> set (cc_receivables db'). receivable_ok (snd x)"
    and prof: "cc_profiles db' = map_set c p' (cc_profiles db)" "profile_ok p'"
    and auths: "distinct (map fst (cc_auths db'))" "\<forall>x \<in> set (cc_auths db'). auth_ok (cc_receivables db') (snd x)"
    and held: "cp_heldCredit p' = map_sum (held_by credit_demand c) (cc_auths db')"
      "\<And>x. x \<noteq> c \<Longrightarrow> map_sum (held_by credit_demand x) (cc_auths db') = held_of db x"
    and posted: "cp_postedDebt p' \<le> max_safe \<Longrightarrow> cp_postedDebt p' = owed_by db' c \<and> cp_postedDebt p' = debt_by db' c"
      "\<And>x. x \<noteq> c \<Longrightarrow> owed_by db' x = owed_by db x \<and> debt_by db' x = debt_by db x"
  shows "credit_ok db'"
proof -
  have at: "held_of db' x = (if x = c then cp_heldCredit p' else held_of db x)" "posted_of db' x = (if x = c then cp_postedDebt p' else posted_of db x)" for x
    by (simp_all add: held_of_def posted_of_def prof(1))
  have "posted_ok db' x" for x
    using posted credit_okD(3) [OF ok, of x] prof(2) by (cases "x = c") (simp_all add: posted_ok_def at profile_ok_def)
  moreover have "held_of db' x = map_sum (held_by credit_demand x) (cc_auths db')" for x
    using held by (cases "x = c") (simp_all add: at)
  moreover have "profile_ok p" if "map_get (cc_profiles db') x = Some p" for x p
    using that prof(2) credit_okD(2) [OF ok] by (auto simp: prof(1) split: if_splits)
  ultimately show ?thesis using gl recs auths by (simp add: credit_ok_def)
qed

section \<open>Profiles\<close>

lemma finMoney_iff: "finMoney v = Inr w \<longleftrightarrow> w = v \<and> \<bar>v\<bar> \<le> max_safe"
  by (auto simp: finMoney_def is_safe_integer_of_int)

lemma load_profile_iff: "load_profile p = Inr q \<longleftrightarrow> q = p \<and> \<bar>cp_creditLimit p\<bar> \<le> max_safe \<and> \<bar>cp_postedDebt p\<bar> \<le> max_safe \<and>
    \<bar>cp_heldCredit p\<bar> \<le> max_safe \<and> \<bar>cp_prepaymentBalance p\<bar> \<le> max_safe"
  by (auto simp: load_profile_def ok_simps finMoney_iff)

lemma credit_left_iff:
  "credit_left p = Inr v \<longleftrightarrow> 0 \<le> cp_creditLimit p \<and> cp_creditLimit p \<le> max_safe \<and> 0 \<le> cp_postedDebt p \<and> cp_postedDebt p \<le> max_safe \<and>
     0 \<le> cp_heldCredit p \<and> cp_heldCredit p \<le> max_safe \<and> v = max 0 (cp_creditLimit p - cp_postedDebt p - cp_heldCredit p)"
  by (auto simp: credit_left_def ok_simps available_credit_exact)

lemma fresh_profile_ok: "profile_ok (fresh_profile n now)"
  by (simp add: profile_ok_def fresh_profile_def DEFAULT_CUSTOMER_CREDIT_LIMIT_VND_def max_safe_def)

text \<open>Creating a profile changes no customer's numbers.\<close>

lemma create_same:
  "cb_ledger (create_profile n now c db) = cb_ledger db" "cashbook_ok (create_profile n now c db) = cashbook_ok db" "cc_auths (create_profile n now c db) = cc_auths db"
  "cc_receivables (create_profile n now c db) = cc_receivables db" "cc_debts (create_profile n now c db) = cc_debts db"
  "held_of (create_profile n now c db) = held_of db" "posted_of (create_profile n now c db) = posted_of db"
  "limit_of (create_profile n now c db) = limit_of db"
  "owed_by (create_profile n now c db) = owed_by db" "debt_by (create_profile n now c db) = debt_by db" "prepaid_of (create_profile n now c db) = prepaid_of db"
  by (auto simp: create_profile_def held_of_def posted_of_def limit_of_def prepaid_of_def owed_by_def debt_by_def fresh_profile_def fun_eq_iff split: option.splits)

lemma create_ok: "credit_ok db \<Longrightarrow> credit_ok (create_profile n now c db)"
proof -
  assume ok: "credit_ok db"
  have "profile_ok p" if "map_get (cc_profiles (create_profile n now c db)) x = Some p" for x p
    using that credit_okD(2) [OF ok] fresh_profile_ok by (auto simp: create_profile_def split: if_splits)
  then show ?thesis using ok by (simp add: credit_ok_def posted_ok_def create_same)
qed

lemma lock_cases:
  assumes "lockOrCreateProfileInTx n now db c = Inr (db1, p)"
  shows "db1 = create_profile n now c db" "map_get (cc_profiles db1) c = Some p" "cp_postedDebt p \<le> max_safe"
    "held_of db c = cp_heldCredit p" "posted_of db c = cp_postedDebt p" "limit_of db c = cp_creditLimit p"
    "prepaid_of db c = cp_prepaymentBalance p" "cp_prepaymentBalance p \<le> max_safe"
proof -
  show db1: "db1 = create_profile n now c db" using assms by (auto simp: lockOrCreateProfileInTx_def ok_simps Let_def)
  obtain q where q: "map_get (cc_profiles db1) c = Some q"
    unfolding db1 by (cases "map_get (cc_profiles db) c") (auto simp: create_profile_def)
  then show p: "map_get (cc_profiles db1) c = Some p" "cp_postedDebt p \<le> max_safe"
    using assms by (auto simp: lockOrCreateProfileInTx_def ok_simps Let_def load_profile_iff)
  show "cp_prepaymentBalance p \<le> max_safe"
    using assms q by (auto simp: lockOrCreateProfileInTx_def ok_simps Let_def load_profile_iff)
  have "held_of db1 c = cp_heldCredit p" "posted_of db1 c = cp_postedDebt p" "limit_of db1 c = cp_creditLimit p" "prepaid_of db1 c = cp_prepaymentBalance p"
    using p(1) by (simp_all add: held_of_def posted_of_def limit_of_def prepaid_of_def)
  then show "held_of db c = cp_heldCredit p" "posted_of db c = cp_postedDebt p" "limit_of db c = cp_creditLimit p" "prepaid_of db c = cp_prepaymentBalance p"
    by (simp_all add: db1 create_same)
qed

lemma lock_succeeds:
  assumes "credit_ok db" "readable db c"
  shows "\<exists>p. lockOrCreateProfileInTx n now db c = Inr (create_profile n now c db, p)"
proof -
  let ?db1 = "create_profile n now c db"
  obtain q where q: "map_get (cc_profiles ?db1) c = Some q" by (cases "map_get (cc_profiles db) c") (auto simp: create_profile_def)
  have "profile_ok q" by (rule credit_okD(2) [OF create_ok [OF assms(1)] q])
  moreover have "posted_of ?db1 c = cp_postedDebt q" "prepaid_of ?db1 c = cp_prepaymentBalance q" using q by (simp_all add: posted_of_def prepaid_of_def)
  then have "cp_postedDebt q \<le> max_safe" "cp_prepaymentBalance q \<le> max_safe" using assms(2) by (simp_all add: create_same readable_def)
  ultimately have "load_profile q = Inr q" by (simp add: load_profile_iff profile_ok_def)
  then show ?thesis using q by (simp add: lockOrCreateProfileInTx_def Let_def)
qed

lemma lock_ok:
  assumes "credit_ok db" "lockOrCreateProfileInTx n now db c = Inr (db1, p)"
  shows "credit_ok db1" "profile_ok p"
  using assms create_ok lock_cases(1,2) [OF assms(2)] credit_okD(2) by blast+

section \<open>Authorizing\<close>

lemma fli_safe: "0 \<le> a \<Longrightarrow> fli a \<le> max_safe \<Longrightarrow> fli a = a"
  using fli_safe_abs [of a] fli_lower [of 0 a] by simp

lemma code_same:
  fixes db :: CreditDb
  assumes "cash_code x db = (db', c)"
  shows "cc_profiles db' = cc_profiles db \<and> cc_auths db' = cc_auths db \<and> cc_receivables db' = cc_receivables db \<and>
     cc_debts db' = cc_debts db \<and> cc_outbox db' = cc_outbox db \<and> (cashbook_ok db \<longrightarrow> cashbook_ok db')"
  using cash_code_run [OF assms] by (auto intro: cashbook_ok_ledger simp: cashbook_ok_def [of db])

text \<open>The decision: without an override, the request must fit into what the limit leaves.\<close>

lemma evaluate_iff:
  assumes "profile_ok p" "cp_postedDebt p \<le> max_safe" "0 < q" "q \<le> max_safe"
  shows "evaluateCreditAuthorization \<lparr>ci_creditLimit = Fin (of_int (cp_creditLimit p)), ci_postedDebt = Fin (of_int (cp_postedDebt p)),
      ci_heldCredit = Fin (of_int (cp_heldCredit p)), ci_requestedAmount = Fin (of_int q), ci_overrideApprovedBy = ov\<rparr> =
    (if cp_postedDebt p + cp_heldCredit p + q \<le> cp_creditLimit p \<or> (case ov of None \<Rightarrow> False | Some s \<Rightarrow> js_trim s \<noteq> [])
     then Inr \<lparr>ca_creditLimit = cp_creditLimit p, ca_postedDebt = cp_postedDebt p, ca_heldCreditBefore = cp_heldCredit p,
       ca_availableCreditBefore = max 0 (cp_creditLimit p - cp_postedDebt p - cp_heldCredit p), ca_requestedAmount = q,
       ca_heldCreditAfter = fli (cp_heldCredit p + q),
       ca_availableCreditAfter = available_credit (cp_creditLimit p) (cp_postedDebt p) (fli (cp_heldCredit p + q)),
       ca_isOverride = (case ov of None \<Rightarrow> False | Some s \<Rightarrow> js_trim s \<noteq> [])\<rparr>
     else Inl (fin_error CUSTOMER_CREDIT_LIMIT_EXCEEDED 409))"
proof -
  have parse: "parseVnd (Num (Fin (of_int (cp_creditLimit p)))) True False = Inr (cp_creditLimit p)"
    "parseVnd (Num (Fin (of_int (cp_postedDebt p)))) True False = Inr (cp_postedDebt p)"
    "parseVnd (Num (Fin (of_int (cp_heldCredit p)))) True False = Inr (cp_heldCredit p)"
    "parseVnd (Num (Fin (of_int q))) False False = Inr q"
    using assms by (simp_all add: finVnd_num_arg profile_ok_def)
  have "available_credit (cp_creditLimit p) (cp_postedDebt p) (cp_heldCredit p) = max 0 (cp_creditLimit p - cp_postedDebt p - cp_heldCredit p)"
    using assms by (intro available_credit_exact) (auto simp: profile_ok_def)
  then show ?thesis using assms(3) by (auto simp: evaluateCreditAuthorization_def parse Let_def)
qed

definition request_key_of :: "string option \<Rightarrow> string option \<Rightarrow> string" where
  "request_key_of header own = js_trim (case opt_or header own of None \<Rightarrow> [] | Some k \<Rightarrow> k)"

definition holding :: "CreditProfile \<Rightarrow> int \<Rightarrow> int \<Rightarrow> CreditProfile" where
  "holding p held now = p\<lparr>cp_heldCredit := held, cp_version := cp_version p + 1, cp_updatedAt := now\<rparr>"

lemma holding_sel [simp]:
  "cp_heldCredit (holding p h now) = h" "cp_postedDebt (holding p h now) = cp_postedDebt p" "cp_creditLimit (holding p h now) = cp_creditLimit p"
  "cp_prepaymentBalance (holding p h now) = cp_prepaymentBalance p" "cp_version (holding p h now) = cp_version p + 1"
  by (simp_all add: holding_def)

lemma new_auth_sel [simp]:
  "au_customerId (new_auth ac dto v code' k h now) = cd_customerId dto" "au_authorizedAmount (new_auth ac dto v code' k h now) = v"
  "au_state (new_auth ac dto v code' k h now) = CR_HELD" "au_idempotencyKey (new_auth ac dto v code' k h now) = k"
  "au_requestHash (new_auth ac dto v code' k h now) = h"
  by (simp_all add: new_auth_def)

lemma authorize_new:
  assumes ok: "credit_ok db" and run: "authorizeCredit H db actor header dto pid n now = Inr (db', r, False)"
  shows "\<exists>db1 p v code'. lockOrCreateProfileInTx pid now db (cd_customerId dto) = Inr (db1, p) \<and> 0 < v \<and> v \<le> max_safe \<and>
    parseVnd (Num (cd_amount dto)) False False = Inr v \<and> cp_heldCredit p + v \<le> max_safe \<and>
    (cd_overrideApprovedBy dto = None \<longrightarrow> cp_postedDebt p + cp_heldCredit p + v \<le> cp_creditLimit p) \<and>
    cc_profiles db' = map_set (cd_customerId dto) (holding p (cp_heldCredit p + v) now) (cc_profiles db1) \<and>
    cc_auths db' = map_set n (new_auth actor dto v code' (js_lower (request_key_of header (cd_idempotencyKey dto)))
      (H (cd_customerId dto, v, cd_orderId dto, cd_branchId dto, cd_overrideApprovedBy dto)) now) (cc_auths db) \<and>
    map_get (cc_auths db) n = None \<and> cc_receivables db' = cc_receivables db \<and> cc_debts db' = cc_debts db \<and>
    cashbook_ok db' \<and> list_all (\<lambda>(_, b). au_idempotencyKey b \<noteq> js_lower (request_key_of header (cd_idempotencyKey dto))) (cc_auths db)"
proof -
  obtain v db1 p where lock: "lockOrCreateProfileInTx pid now db (cd_customerId dto) = Inr (db1, p)"
    and v: "parseVnd (Num (cd_amount dto)) False False = Inr v"
    using run by (auto simp: authorizeCredit_def Let_def ok_simps)
  have pos: "0 < v" "v \<le> max_safe" using finVnd_bounds [OF v] by auto
  note p = lock_ok [OF ok lock] lock_cases [OF lock]
  obtain db2 code' where code: "cash_code ''CRD'' db1 = (db2, code')" by fastforce
  note same = code_same [OF code]
  let ?k = "js_lower (request_key_of header (cd_idempotencyKey dto))"
  have none: "auth_by_key db1 ?k = None"
    using run by (auto simp: authorizeCredit_def Let_def ok_simps lock v request_key_of_def split: option.splits prod.splits)
  note eval = evaluate_iff [OF p(2,5) pos, of "cd_overrideApprovedBy dto"]
  let ?fits = "cp_postedDebt p + cp_heldCredit p + v \<le> cp_creditLimit p \<or> (case cd_overrideApprovedBy dto of None \<Rightarrow> False | Some s \<Rightarrow> js_trim s \<noteq> [])"
  have fits: ?fits
    using run none by (auto simp: authorizeCredit_def Let_def ok_simps lock v eval request_key_of_def split: if_splits)
  note run' = run [unfolded authorizeCredit_def request_key_of_def [symmetric] Let_def, simplified lock v ebind_Inr prod.case none option.case eval fits if_True code]
  let ?p = "holding p (fli (cp_heldCredit p + v)) now"
  let ?a = "new_auth actor dto v code' ?k (H (cd_customerId dto, v, cd_orderId dto, cd_branchId dto, cd_overrideApprovedBy dto)) now"
  obtain db3 db4 where st: "save_profile (cd_customerId dto) ?p db2 = Inr db3" "insert_auth n ?a db3 = Inr db4"
    "db' = db4\<lparr>cc_outbox := cc_outbox db'\<rparr>" "fli (cp_heldCredit p + v) \<le> max_safe"
    using run' by (auto simp: ok_simps publish_def formatAuthorizationResponse_def credit_left_iff holding_def)
  have held: "fli (cp_heldCredit p + v) = cp_heldCredit p + v" using st(4) p(2) pos(1) by (intro fli_safe) (auto simp: profile_ok_def)
  have db3: "db3 = db2\<lparr>cc_profiles := map_set (cd_customerId dto) ?p (cc_profiles db2)\<rparr>"
    using st(1) by (auto simp: save_profile_def split: if_splits)
  then have db4: "db4 = db3\<lparr>cc_auths := map_set n ?a (cc_auths db2)\<rparr>" "map_get (cc_auths db2) n = None"
    "list_all (\<lambda>(_, b). au_idempotencyKey b \<noteq> ?k) (cc_auths db2)"
    using st(2) by (auto simp: insert_auth_def split: if_splits)
  have eqs: "cc_profiles db' = map_set (cd_customerId dto) (holding p (cp_heldCredit p + v) now) (cc_profiles db1)"
    "cc_auths db' = map_set n ?a (cc_auths db)" "cc_receivables db' = cc_receivables db" "cc_debts db' = cc_debts db"
    "cashbook_ok db'"
    by (subst st(3), simp add: db4(1) db3 same p(3) create_same held credit_okD(1) [OF p(1)] credit_okD(1) [OF ok])+
  have "cc_auths db2 = cc_auths db" by (simp add: same p(3) create_same)
  moreover have "cp_heldCredit p + v \<le> max_safe" using st(4) held by simp
  moreover have "cd_overrideApprovedBy dto = None \<longrightarrow> cp_postedDebt p + cp_heldCredit p + v \<le> cp_creditLimit p" using fits by auto
  ultimately show ?thesis using lock v pos eqs db4(2,3) by (intro exI conjI) simp_all
qed

text \<open>Writing one authorization of the customer whose profile is written.\<close>

lemma auth_step:
  assumes ok: "credit_ok db1" and prof: "map_get (cc_profiles db1) c = Some p" "cc_profiles db' = map_set c (holding p held now) (cc_profiles db1)"
    and auths: "cc_auths db' = map_set i a (cc_auths db1)" "au_customerId a = c" "auth_ok (cc_receivables db1) a"
      "\<And>b. map_get (cc_auths db1) i = Some b \<Longrightarrow> au_customerId b = c"
    and held: "0 \<le> held" "held \<le> max_safe" "held = cp_heldCredit p + held_by credit_demand c a -
      (case map_get (cc_auths db1) i of None \<Rightarrow> 0 | Some b \<Rightarrow> held_by credit_demand c b)"
    and rest: "cc_receivables db' = cc_receivables db1" "cc_debts db' = cc_debts db1" "cashbook_ok db'"
  shows "credit_ok db'"
proof (rule credit_step [OF ok rest(3) _ _ prof(2)])
  show "distinct (map fst (cc_receivables db'))" "\<forall>x \<in> set (cc_receivables db'). receivable_ok (snd x)"
    using ok by (simp_all add: credit_ok_def rest(1))
  have p: "profile_ok p" by (rule credit_okD(2) [OF ok prof(1)])
  then show "profile_ok (holding p held now)" using held(1,2) by (simp add: profile_ok_def)
  have "distinct (map fst (cc_auths db1))" using ok by (simp add: credit_ok_def)
  then show "distinct (map fst (cc_auths db'))" by (simp add: auths(1) distinct_map_set)
  show "\<forall>x \<in> set (cc_auths db'). auth_ok (cc_receivables db') (snd x)"
    using ok auths(1,3) rest(1) by (auto simp: credit_ok_def dest!: set_map_set_elem)
  have "held_of db1 c = cp_heldCredit p" using prof(1) by (simp add: held_of_def)
  then show "cp_heldCredit (holding p held now) = map_sum (held_by credit_demand c) (cc_auths db')"
    using held(3) by (simp add: auths(1) credit_holds.sum_after_set [OF ok])
  show "map_sum (held_by credit_demand x) (cc_auths db') = held_of db1 x" if "x \<noteq> c" for x
    using that auths(2,4) by (auto simp: auths(1) credit_holds.sum_after_set [OF ok] held_by_demand split: option.splits)
  have same: "owed_by db' = owed_by db1" "debt_by db' = debt_by db1" using rest by (auto simp: owed_by_def debt_by_def fun_eq_iff)
  show "cp_postedDebt (holding p held now) = owed_by db' c \<and> cp_postedDebt (holding p held now) = debt_by db' c"
    if "cp_postedDebt (holding p held now) \<le> max_safe"
    using credit_okD(3) [OF ok, of c] that prof(1) by (simp add: same posted_ok_def posted_of_def)
  show "owed_by db' x = owed_by db1 x \<and> debt_by db' x = debt_by db1 x" for x by (simp add: same)
qed

lemma authorize_ok:
  assumes ok: "credit_ok db" and run: "authorizeCredit H db actor header dto pid n now = Inr (db', r, replayed)"
  shows "credit_ok db'"
proof (cases replayed)
  case True
  then have "\<exists>p. lockOrCreateProfileInTx pid now db (cd_customerId dto) = Inr (db', p)"
    using run by (auto simp: authorizeCredit_def Let_def ok_simps split: option.splits if_splits prod.splits)
  then show ?thesis using lock_ok(1) [OF ok] by blast
next
  case False
  then have run': "authorizeCredit H db actor header dto pid n now = Inr (db', r, False)" using run by simp
  obtain db1 p v code' where a: "lockOrCreateProfileInTx pid now db (cd_customerId dto) = Inr (db1, p)" "0 < v" "v \<le> max_safe"
    "cp_heldCredit p + v \<le> max_safe" "cc_profiles db' = map_set (cd_customerId dto) (holding p (cp_heldCredit p + v) now) (cc_profiles db1)"
    "cc_auths db' = map_set n (new_auth actor dto v code' (js_lower (request_key_of header (cd_idempotencyKey dto)))
      (H (cd_customerId dto, v, cd_orderId dto, cd_branchId dto, cd_overrideApprovedBy dto)) now) (cc_auths db)"
    "map_get (cc_auths db) n = None" "cc_receivables db' = cc_receivables db" "cc_debts db' = cc_debts db" "cashbook_ok db'"
    using authorize_new [OF ok run'] by blast
  note l = lock_ok [OF ok a(1)] lock_cases [OF a(1)]
  have same: "cc_auths db1 = cc_auths db" "cc_receivables db1 = cc_receivables db" "cc_debts db1 = cc_debts db" by (simp_all add: l(3) create_same)
  show ?thesis
    by (rule auth_step [OF l(1) l(4) a(5)]) (use a l(2) in \<open>auto simp: same auth_ok_def profile_ok_def held_by_demand\<close>)
qed

section \<open>Giving credit back\<close>

lemma load_auth_iff: "load_auth a = Inr b \<longleftrightarrow> b = a \<and> \<bar>au_authorizedAmount a\<bar> \<le> max_safe"
  by (auto simp: load_auth_def ok_simps finMoney_iff)

text \<open>What an open authorization holds is part of what the profile holds, so taking it off is exact.\<close>

lemma open_amount:
  assumes "credit_ok db" "map_get (cc_auths db) i = Some a" "au_state a = CR_HELD"
  shows "au_authorizedAmount a \<le> held_of db (au_customerId a)" "0 < au_authorizedAmount a" "au_authorizedAmount a \<le> max_safe"
  using credit_holds.open_covered [OF assms(1,2), of _ "au_customerId a"] credit_okD(4) [OF assms(1,2)] assms(3)
  by (auto simp: credit_demand_def auth_ok_def)

lemma held_less_exact: "0 < v \<Longrightarrow> v \<le> h \<Longrightarrow> h \<le> max_safe \<Longrightarrow> held_less h v = h - v"
  by (simp add: held_less_def diff_exact)

definition closes :: "CreditAuthorization \<Rightarrow> CreditAuthorization \<Rightarrow> bool" where
  "closes a b \<longleftrightarrow> au_customerId b = au_customerId a \<and> au_authorizedAmount b = au_authorizedAmount a \<and> au_state b \<in> {CR_RELEASED, CR_EXPIRED}"

text \<open>What giving back does: the amount leaves the held credit of the customer and nothing else changes.\<close>

definition gave_back :: "CreditDb \<Rightarrow> string \<Rightarrow> CreditAuthorization \<Rightarrow> CreditDb \<Rightarrow> bool" where
  "gave_back db i a db' \<longleftrightarrow> credit_ok db' \<and> (\<exists>b. cc_auths db' = map_set i b (cc_auths db) \<and> closes a b) \<and>
     held_of db' = (\<lambda>c. held_of db c - (if c = au_customerId a then au_authorizedAmount a else 0)) \<and> posted_of db' = posted_of db \<and> prepaid_of db' = prepaid_of db \<and>
     limit_of db' = limit_of db \<and> cc_receivables db' = cc_receivables db \<and> cc_debts db' = cc_debts db \<and> cb_ledger db' = cb_ledger db \<and>
     map_get (cc_profiles db') (au_customerId a) \<noteq> None"

lemma give_back:
  assumes ok: "credit_ok db" and lock: "lockOrCreateProfileInTx pid now db (au_customerId a) = Inr (db1, p)"
    and a: "map_get (cc_auths db) i = Some a" "au_state a = CR_HELD" and b: "closes a b"
    and db': "cc_profiles db' = map_set (au_customerId a) (holding p (held_less (cp_heldCredit p) (au_authorizedAmount a)) now) (cc_profiles db1)"
      "cc_auths db' = map_set i b (cc_auths db1)" "cc_receivables db' = cc_receivables db1" "cc_debts db' = cc_debts db1" "cb_ledger db' = cb_ledger db1" "cashbook_ok db1 \<Longrightarrow> cashbook_ok db'"
  shows "gave_back db i a db'"
proof -
  note l = lock_ok [OF ok lock] lock_cases [OF lock]
  note v = open_amount [OF ok a]
  have same: "cc_auths db1 = cc_auths db" "cc_receivables db1 = cc_receivables db" "cc_debts db1 = cc_debts db" "cb_ledger db1 = cb_ledger db"
    by (simp_all add: l(3) create_same)
  have less: "held_less (cp_heldCredit p) (au_authorizedAmount a) = cp_heldCredit p - au_authorizedAmount a"
    using v l(2,6) by (intro held_less_exact) (auto simp: profile_ok_def)
  have "credit_ok db'"
    by (rule auth_step [OF l(1) l(4) db'(1,2)])
      (use v l(1,2,6) a b db' credit_okD(1) [OF ok] in \<open>auto simp: same less closes_def auth_ok_def profile_ok_def held_by_demand credit_okD(1)\<close>)
  moreover have "held_of db' = (\<lambda>c. held_of db c - (if c = au_customerId a then au_authorizedAmount a else 0))"
    "posted_of db' = posted_of db" "limit_of db' = limit_of db" "prepaid_of db' = prepaid_of db"
    using l(3-9) create_same(6-8,11) [of pid now "au_customerId a" db]
    by (auto simp: fun_eq_iff held_of_def posted_of_def limit_of_def prepaid_of_def db'(1) less split: option.splits)
  ultimately show ?thesis using b db'(1-5) by (auto simp: gave_back_def same)
qed

text \<open>The version of a profile is a 32-bit column that every write increments.\<close>

definition version_of :: "CreditDb \<Rightarrow> string \<Rightarrow> int" where
  "version_of db c = (case map_get (cc_profiles db) c of None \<Rightarrow> 1 | Some p \<Rightarrow> cp_version p)"

lemma lock_version: "lockOrCreateProfileInTx n now db c = Inr (db1, p) \<Longrightarrow> version_of db c = cp_version p"
  using lock_cases(1,2) [of n now db c db1 p]
  by (auto simp: version_of_def create_profile_def fresh_profile_def split: option.splits if_splits)

lemma save_holding:
  assumes "profile_ok p" "cp_postedDebt p \<le> max_safe" "cp_prepaymentBalance p \<le> max_safe" "0 \<le> h" "h \<le> max_safe" "cp_version p + 1 < 2 ^ 31"
  shows "save_profile c (holding p h now) db = Inr (db\<lparr>cc_profiles := map_set c (holding p h now) (cc_profiles db)\<rparr>)"
  using assms max_safe_lt by (auto simp: save_profile_def profile_check_def profile_ok_def)

lemma holding_left:
  "profile_ok p \<Longrightarrow> cp_postedDebt p \<le> max_safe \<Longrightarrow> 0 \<le> h \<Longrightarrow> h \<le> max_safe \<Longrightarrow>
     credit_left (holding p h now) = Inr (max 0 (cp_creditLimit p - cp_postedDebt p - h))"
  by (simp add: credit_left_iff profile_ok_def)

lemma release_cases:
  assumes ok: "credit_ok db" and run: "releaseAuthorization db i actor why who pid now = Inr (db', r, replayed)"
  shows "\<exists>a. map_get (cc_auths db) i = Some a \<and>
    (if replayed then au_state a \<in> {CR_RELEASED, CR_EXPIRED} \<and> (\<exists>p. lockOrCreateProfileInTx pid now db (au_customerId a) = Inr (db', p))
     else au_state a = CR_HELD \<and> gave_back db i a db')"
proof -
  obtain a where a: "map_get (cc_auths db) i = Some a" using run by (auto simp: releaseAuthorization_def split: option.splits)
  then obtain db1 p where lock: "lockOrCreateProfileInTx pid now db (au_customerId a) = Inr (db1, p)"
    using run by (auto simp: releaseAuthorization_def ok_simps load_auth_iff)
  show ?thesis
  proof (cases "au_state a = CR_HELD")
    case False
    then show ?thesis using run a lock
      by (auto simp: releaseAuthorization_def ok_simps load_auth_iff split: if_splits)
  next
    case True
    let ?b = "a\<lparr>au_state := CR_RELEASED, au_releasedReason := Some (case why of Some r \<Rightarrow> r
       | None \<Rightarrow> ''Released by '' @ (case who of None \<Rightarrow> actor | Some a \<Rightarrow> a)), au_releasedAt := Some now, au_updatedAt := now\<rparr>"
    obtain db2 where st: "save_profile (au_customerId a) (holding p (held_less (cp_heldCredit p) (au_authorizedAmount a)) now) db1 = Inr db2"
      "db' = db2\<lparr>cc_auths := map_set i ?b (cc_auths db2), cc_outbox := cc_outbox db'\<rparr>" "\<not> replayed"
      using run a lock True by (auto simp: releaseAuthorization_def ok_simps load_auth_iff Let_def holding_def publish_def)
    have db2: "db2 = db1\<lparr>cc_profiles := map_set (au_customerId a) (holding p (held_less (cp_heldCredit p) (au_authorizedAmount a)) now) (cc_profiles db1)\<rparr>"
      using st(1) by (auto simp: save_profile_def split: if_splits)
    have "closes a ?b" by (simp add: closes_def)
    then have "gave_back db i a db'"
      by (rule give_back [OF ok lock a True]) (subst st(2), simp add: db2)+
    then show ?thesis using a True st(3) by auto
  qed
qed

lemma release_succeeds:
  assumes ok: "credit_ok db" and a: "map_get (cc_auths db) i = Some a" "au_state a = CR_HELD"
    and c: "readable db (au_customerId a)" "version_of db (au_customerId a) + 1 < 2 ^ 31"
  shows "\<exists>db' r. releaseAuthorization db i actor why who pid now = Inr (db', r, False)"
proof -
  obtain db1 p where lock: "lockOrCreateProfileInTx pid now db (au_customerId a) = Inr (db1, p)" using lock_succeeds [OF ok c(1)] by blast
  note l = lock_ok [OF ok lock] lock_cases [OF lock] lock_version [OF lock]
  note v = open_amount [OF ok a]
  have less: "held_less (cp_heldCredit p) (au_authorizedAmount a) = cp_heldCredit p - au_authorizedAmount a"
    using v l(2,6) by (intro held_less_exact) (auto simp: profile_ok_def)
  have h: "0 \<le> cp_heldCredit p - au_authorizedAmount a" "cp_heldCredit p - au_authorizedAmount a \<le> max_safe"
    using v l(2,6) by (auto simp: profile_ok_def)
  note save = save_holding [OF l(2,5,10) h, unfolded holding_def] and left = holding_left [OF l(2,5) h, unfolded holding_def]
  have parse: "parseVnd (num_arg (au_authorizedAmount a)) False False = Inr (au_authorizedAmount a)"
    "parseVnd (num_arg (cp_heldCredit p)) True False = Inr (cp_heldCredit p)" "parseVnd (num_arg (cp_creditLimit p)) True False = Inr (cp_creditLimit p)"
    "parseVnd (num_arg (cp_postedDebt p)) True False = Inr (cp_postedDebt p)"
    using v l(2,5) by (auto simp: parse_num profile_ok_def)
  have "load_auth a = Inr a" using v by (simp add: load_auth_iff)
  then show ?thesis
    using c(2) l(11) by (simp add: releaseAuthorization_def a lock less parse save left Let_def formatAuthorizationResponse_def)
qed

section \<open>The sweep\<close>

lemma gave_back_at:
  assumes "gave_back db i a db'"
  shows "credit_ok db'" "k \<noteq> i \<Longrightarrow> map_get (cc_auths db') k = map_get (cc_auths db) k"
    "\<exists>b. map_get (cc_auths db') i = Some b \<and> closes a b" "readable db' = readable db"
  using assms by (auto simp: gave_back_def readable_def fun_eq_iff)

lemma expire_row_run:
  assumes ok: "credit_ok db" and a: "map_get (cc_auths db) i = Some a" "au_state a = CR_HELD"
    and run: "expire_row pid now (i, a) db = Inr db'"
  shows "gave_back db i a db' \<and> map_get (cc_auths db') i = Some (set_expired now a) \<and>
    version_of db' = (version_of db)(au_customerId a := version_of db (au_customerId a) + 1)"
proof -
  obtain db1 p where lock: "lockOrCreateProfileInTx pid now db (au_customerId a) = Inr (db1, p)"
    using run by (auto simp: expire_row_def ok_simps)
  note l = lock_cases [OF lock] lock_version [OF lock]
  let ?p = "holding p (held_less (cp_heldCredit p) (au_authorizedAmount a)) now"
  have auths: "cc_auths db1 = cc_auths db" by (simp add: l(1) create_same)
  have db': "db' = db1\<lparr>cc_profiles := map_set (au_customerId a) ?p (cc_profiles db1), cc_auths := map_set i (set_expired now a) (cc_auths db1)\<rparr>"
    using run a lock by (auto simp: expire_row_def ok_simps finMoney_iff Let_def save_profile_def holding_def auths split: if_splits)
  have "closes a (set_expired now a)" by (simp add: closes_def set_expired_def)
  then have "gave_back db i a db'" by (rule give_back [OF ok lock a]) (simp_all add: db')
  moreover have "version_of db' = (version_of db)(au_customerId a := version_of db (au_customerId a) + 1)"
    using l(9) by (auto simp: fun_eq_iff version_of_def db' l(1) create_profile_def split: option.splits)
  ultimately show ?thesis by (simp add: db')
qed

lemma expire_row_succeeds:
  assumes ok: "credit_ok db" and a: "map_get (cc_auths db) i = Some a" "au_state a = CR_HELD"
    and c: "readable db (au_customerId a)" "version_of db (au_customerId a) + 1 < 2 ^ 31"
  shows "\<exists>db'. expire_row pid now (i, a) db = Inr db'"
proof -
  obtain db1 p where lock: "lockOrCreateProfileInTx pid now db (au_customerId a) = Inr (db1, p)" using lock_succeeds [OF ok c(1)] by blast
  note l = lock_ok [OF ok lock] lock_cases [OF lock] lock_version [OF lock]
  note v = open_amount [OF ok a]
  have h: "0 \<le> cp_heldCredit p - au_authorizedAmount a" "cp_heldCredit p - au_authorizedAmount a \<le> max_safe"
    "held_less (cp_heldCredit p) (au_authorizedAmount a) = cp_heldCredit p - au_authorizedAmount a"
    using v l(2,6) held_less_exact [OF v(2), of "cp_heldCredit p"] by (auto simp: profile_ok_def)
  have "finMoney (au_authorizedAmount a) = Inr (au_authorizedAmount a)"
    "parseVnd (num_arg (au_authorizedAmount a)) False False = Inr (au_authorizedAmount a)"
    "parseVnd (num_arg (cp_heldCredit p)) True False = Inr (cp_heldCredit p)"
    using v l(2) by (auto simp: parse_num finMoney_iff profile_ok_def)
  then show ?thesis
    using save_holding [OF l(2,5,10) h(1,2), of "au_customerId a" now db1] c(2) l(11)
    by (simp add: expire_row_def lock h(3) Let_def holding_def)
qed

text \<open>What a list of open authorizations holds of a customer's credit.\<close>

definition rows_hold :: "(string \<times> CreditAuthorization) list \<Rightarrow> string \<Rightarrow> int" where
  "rows_hold rows c = sum_list (map (\<lambda>(_, a). if au_customerId a = c then au_authorizedAmount a else 0) rows)"

lemma credit_expire_loop:
  assumes "credit_ok db" "distinct (map fst rows)" "\<forall>(i, a) \<in> set rows. map_get (cc_auths db) i = Some a \<and> au_state a = CR_HELD"
    and "\<forall>(i, a) \<in> set rows. readable db (au_customerId a)"
    and "\<forall>(i, a) \<in> set rows. version_of db (au_customerId a) + int (length rows) < 2 ^ 31"
  shows "\<exists>db'. efold (expire_row pid now) rows db = Inr db' \<and> credit_ok db' \<and> readable db' = readable db \<and>
    (\<forall>c. held_of db' c = held_of db c - rows_hold rows c) \<and>
    (\<forall>i. map_get (cc_auths db') i = (case map_of rows i of None \<Rightarrow> map_get (cc_auths db) i | Some a \<Rightarrow> Some (set_expired now a)))"
  using assms
proof (induction rows arbitrary: db)
  case (Cons x rows)
  obtain i a where x: "x = (i, a)" by (cases x)
  have a: "map_get (cc_auths db) i = Some a" "au_state a = CR_HELD" using Cons.prems(3) x by auto
  obtain db1 where run: "expire_row pid now x db = Inr db1"
    using expire_row_succeeds [OF Cons.prems(1) a] Cons.prems(4,5) x by fastforce
  note e = expire_row_run [OF Cons.prems(1) a run [unfolded x]]
  note g = gave_back_at [OF e [THEN conjunct1]]
  have other: "map_get (cc_auths db1) j = map_get (cc_auths db) j" if "j \<in> set (map fst rows)" for j
    using that Cons.prems(2) x by (intro g(2)) force
  have rows: "\<forall>(j, b) \<in> set rows. map_get (cc_auths db1) j = Some b \<and> au_state b = CR_HELD" using Cons.prems(3) other by fastforce
  have ver: "\<forall>(j, b) \<in> set rows. version_of db1 (au_customerId b) + int (length rows) < 2 ^ 31"
    using Cons.prems(5) e by (fastforce simp: x)
  obtain db' where r: "efold (expire_row pid now) rows db1 = Inr db'" "credit_ok db'" "readable db' = readable db1"
    "\<forall>c. held_of db' c = held_of db1 c - rows_hold rows c"
    "\<forall>i. map_get (cc_auths db') i = (case map_of rows i of None \<Rightarrow> map_get (cc_auths db1) i | Some a \<Rightarrow> Some (set_expired now a))"
    using Cons.IH [OF g(1) _ rows _ ver] Cons.prems(2,4) g(4) by auto
  have "held_of db1 = (\<lambda>c. held_of db c - (if c = au_customerId a then au_authorizedAmount a else 0))" using e by (simp add: gave_back_def)
  then have "\<forall>c. held_of db' c = held_of db c - rows_hold (x # rows) c" using r(4) by (simp add: rows_hold_def x)
  moreover have "map_of rows i = None" using Cons.prems(2) x by (simp add: map_of_eq_None_iff)
  then have "map_get (cc_auths db') k = (case map_of (x # rows) k of None \<Rightarrow> map_get (cc_auths db) k | Some a \<Rightarrow> Some (set_expired now a))" for k
    using r(5) g(2) [of k] e by (cases "k = i") (auto simp: x split: option.splits)
  ultimately show ?case using r(1-3) run g(4) by auto
qed (simp add: rows_hold_def)

lemma credit_expire_loop_ok:
  assumes "credit_ok db" "distinct (map fst rows)" "\<forall>(i, a) \<in> set rows. map_get (cc_auths db) i = Some a \<and> au_state a = CR_HELD"
    and "efold (expire_row pid now) rows db = Inr db'"
  shows "credit_ok db'"
  using assms
proof (induction rows arbitrary: db)
  case (Cons x rows)
  obtain i a where x: "x = (i, a)" by (cases x)
  obtain db1 where run: "expire_row pid now x db = Inr db1" "efold (expire_row pid now) rows db1 = Inr db'"
    using Cons.prems(4) by (auto simp: ok_simps)
  have "gave_back db i a db1" using expire_row_run [OF Cons.prems(1) _ _ run(1) [unfolded x]] Cons.prems(3) x by simp
  note g = gave_back_at [OF this]
  have "map_get (cc_auths db1) j = map_get (cc_auths db) j" if "j \<in> set (map fst rows)" for j
    using that Cons.prems(2) x by (intro g(2)) force
  then show ?case using Cons.IH [OF g(1) _ _ run(2)] Cons.prems(2,3) by fastforce
qed simp

text \<open>The query returns each due row once, in some order.\<close>

lemma stale_rows:
  assumes "credit_ok db" "mset (order (stale db locked now)) = mset (stale db locked now)"
  shows "distinct (map fst (order (stale db locked now)))"
    "\<forall>(i, a) \<in> set (order (stale db locked now)). map_get (cc_auths db) i = Some a \<and> au_state a = CR_HELD"
proof -
  have d: "distinct (map fst (cc_auths db))" using assms(1) by (simp add: credit_ok_def)
  then have "distinct (map fst (stale db locked now))" by (simp add: stale_def distinct_map_filter)
  then show "distinct (map fst (order (stale db locked now)))"
    using assms(2) by (metis mset_eq_imp_distinct_iff mset_map)
  have "set (order (stale db locked now)) = set (stale db locked now)" using assms(2) by (rule mset_eq_setD)
  then show "\<forall>(i, a) \<in> set (order (stale db locked now)). map_get (cc_auths db) i = Some a \<and> au_state a = CR_HELD"
    using d by (auto simp: stale_def map_get_eq_Some)
qed

section \<open>Posting debt\<close>

lemma credit_sale_posted:
  assumes "postJournalInTx pick mkId g i n rq now = Inr (g', j, False)" "pj_lines i = credit_sale_lines v b c m m'" "0 < v" "v \<le> max_safe"
  shows "balance_of (gl_lines g') ''1310'' = balance_of (gl_lines g) ''1310'' + v" "balance_of (gl_lines g') ''5110'' = balance_of (gl_lines g) ''5110'' - v"
proof -
  have code: "gl ''ACCOUNTS_RECEIVABLE'' = ''1310''" "gl ''SALES_REVENUE_CLEARING'' = ''5110''" "plain_code ''1310''" "plain_code ''5110''" by code_simp+
  note post = debit_credit_posted [OF assms(1) assms(2) [unfolded credit_sale_lines_def code] assms(3,4), where a = "''1310''" and b = "''5110''"]
  show "balance_of (gl_lines g') ''1310'' = balance_of (gl_lines g) ''1310'' + v" "balance_of (gl_lines g') ''5110'' = balance_of (gl_lines g) ''5110'' - v"
    using post code(3,4) by simp_all
qed

lemma auth_ok_more: "auth_ok rs a \<Longrightarrow> map_get rs k = None \<Longrightarrow> auth_ok (map_set k r rs) a"
  unfolding auth_ok_def by (metis map_get_set option.distinct(1))

text \<open>Adding a receivable of the customer and the entry of its debt.\<close>

lemma debt_step:
  assumes ok: "credit_ok db" and gl: "cashbook_ok db'"
    and p: "map_get (cc_profiles db) c = Some p" "cp_postedDebt p \<le> max_safe" "cc_profiles db' = map_set c p' (cc_profiles db)"
      "profile_ok p'" "cp_postedDebt p' = fli (cp_postedDebt p + v)"
    and auths: "distinct (map fst (cc_auths db'))" "\<forall>x \<in> set (cc_auths db'). auth_ok (cc_receivables db') (snd x)"
    and held: "cp_heldCredit p' = map_sum (held_by credit_demand c) (cc_auths db')"
      "\<And>x. x \<noteq> c \<Longrightarrow> map_sum (held_by credit_demand x) (cc_auths db') = held_of db x"
    and r: "cc_receivables db' = map_set k r (cc_receivables db)" "map_get (cc_receivables db) k = None" "rc_customerId r = c" "rc_outstandingAmount r = v" "receivable_ok r"
    and d: "cc_debts db' = cc_debts db @ [d]" "de_customerId d = c" "de_amountDelta d = v" and v: "0 < v"
  shows "credit_ok db'"
proof (rule credit_step [OF ok gl _ _ p(3,4) auths held])
  show "distinct (map fst (cc_receivables db'))" "\<forall>x \<in> set (cc_receivables db'). receivable_ok (snd x)"
    using ok r(1,5) by (auto simp: credit_ok_def distinct_map_set dest!: set_map_set_elem)
  have owed: "owed_by db' x = owed_by db x + (if x = c then v else 0)" for x using r by (simp add: owed_by_def map_sum_set owes_def)
  have debt: "debt_by db' x = debt_by db x + (if x = c then v else 0)" for x using d by (simp add: debt_by_def)
  show "owed_by db' x = owed_by db x \<and> debt_by db' x = debt_by db x" if "x \<noteq> c" for x using that owed debt by simp
  have old: "cp_postedDebt p = owed_by db c" "cp_postedDebt p = debt_by db c" "0 \<le> cp_postedDebt p"
    using credit_okD(3) [OF ok, of c] p(1,2) by (auto simp: posted_ok_def posted_of_def)
  show "cp_postedDebt p' = owed_by db' c \<and> cp_postedDebt p' = debt_by db' c" if "cp_postedDebt p' \<le> max_safe"
    using fli_safe [of "cp_postedDebt p + v"] that old v owed debt p(5) by simp
qed

lemma insert_receivable_run:
  "insert_receivable k r db = Inr db' \<Longrightarrow> db' = db\<lparr>cc_receivables := map_set k r (cc_receivables db)\<rparr> \<and> map_get (cc_receivables db) k = None \<and> receivable_check r"
  by (auto simp: insert_receivable_def split: if_splits)

lemma insert_debt_run: "insert_debt d db = Inr db' \<Longrightarrow> db' = db\<lparr>cc_debts := cc_debts db @ [d]\<rparr>"
  by (auto simp: insert_debt_def split: if_splits)

lemma save_profile_run: "save_profile c p db = Inr db' \<Longrightarrow> db' = db\<lparr>cc_profiles := map_set c p (cc_profiles db)\<rparr> \<and> profile_check p"
  by (auto simp: save_profile_def split: if_splits)

definition indebted :: "CreditProfile \<Rightarrow> int \<Rightarrow> int \<Rightarrow> int \<Rightarrow> CreditProfile" where
  "indebted p held posted now = p\<lparr>cp_heldCredit := held, cp_postedDebt := posted, cp_version := cp_version p + 1, cp_updatedAt := now\<rparr>"

definition commits :: "string \<Rightarrow> CreditAuthorization \<Rightarrow> CreditAuthorization \<Rightarrow> bool" where
  "commits k a b \<longleftrightarrow> au_customerId b = au_customerId a \<and> au_authorizedAmount b = au_authorizedAmount a \<and> au_state b = CR_COMMITTED \<and>
     au_committedReceivableId b = Some k"

lemma commit_new:
  assumes ok: "credit_ok db" and a: "map_get (cc_auths db) i = Some a" "au_state a = CR_HELD"
    and run: "commitAuthorization pick mkId db i actor dto ids rq now = Inr (db', r, replayed)"
  shows "\<exists>db1 p b q d g j again. \<not> replayed \<and> lockOrCreateProfileInTx (id_profile ids) now db (au_customerId a) = Inr (db1, p) \<and>
    fli (cp_postedDebt p + au_authorizedAmount a) \<le> max_safe \<and>
    cc_profiles db' = map_set (au_customerId a)
      (indebted p (held_less (cp_heldCredit p) (au_authorizedAmount a)) (fli (cp_postedDebt p + au_authorizedAmount a)) now) (cc_profiles db1) \<and>
    cc_auths db' = map_set i b (cc_auths db1) \<and> commits (id_receivable ids) a b \<and>
    cc_receivables db' = map_set (id_receivable ids) q (cc_receivables db1) \<and> map_get (cc_receivables db1) (id_receivable ids) = None \<and>
    rc_customerId q = au_customerId a \<and> rc_originalAmount q = au_authorizedAmount a \<and> rc_outstandingAmount q = au_authorizedAmount a \<and>
    rc_status q = RC_OPEN \<and> rc_creditAuthorizationId q = Some i \<and> rc_journalId q = jn_id j \<and>
    cc_debts db' = cc_debts db1 @ [d] \<and> de_customerId d = au_customerId a \<and> de_amountDelta d = au_authorizedAmount a \<and>
    postJournalInTx pick mkId (cb_ledger db1) (commit_journal i a (opt_or (cm_branchId dto) (au_branchId a))
      (case cm_actorId dto of None \<Rightarrow> actor | Some x \<Rightarrow> x)) (id_journal ids) rq now = Inr (g, j, again) \<and>
    gl_lines (cb_ledger db') = gl_lines g \<and> receivable_ok q \<and> (cashbook_ok db1 \<and> ledger_ok g \<longrightarrow> cashbook_ok db')"
proof -
  obtain db1 p where lock: "lockOrCreateProfileInTx (id_profile ids) now db (au_customerId a) = Inr (db1, p)"
    using run a by (auto simp: commitAuthorization_def ok_simps load_auth_iff)
  let ?J = "commit_journal i a (opt_or (cm_branchId dto) (au_branchId a)) (case cm_actorId dto of None \<Rightarrow> actor | Some x \<Rightarrow> x)"
  obtain g j again where post: "postJournalInTx pick mkId (cb_ledger db1) ?J (id_journal ids) rq now = Inr (g, j, again)"
    using run a lock by (auto simp: commitAuthorization_def ok_simps load_auth_iff Let_def)
  obtain db2 code' where code: "cash_code ''AR'' (db1\<lparr>cb_ledger := g\<rparr>) = (db2, code')" by fastforce
  let ?q = "commit_receivable i a (opt_or (cm_orderId dto) (au_orderId a)) (opt_or (cm_branchId dto) (au_branchId a)) code' (jn_id j) now"
  obtain db3 d db4 db5 b where st: "insert_receivable (id_receivable ids) ?q db2 = Inr db3" "insert_debt d db3 = Inr db4"
    "save_profile (au_customerId a) (indebted p (held_less (cp_heldCredit p) (au_authorizedAmount a))
       (fli (cp_postedDebt p + au_authorizedAmount a)) now) db4 = Inr db5"
    "db' = db5\<lparr>cc_auths := map_set i b (cc_auths db5), cc_outbox := cc_outbox db'\<rparr>" "\<not> replayed" "commits (id_receivable ids) a b"
    "de_customerId d = au_customerId a" "de_amountDelta d = au_authorizedAmount a" "fli (cp_postedDebt p + au_authorizedAmount a) \<le> max_safe"
    using run a lock post code that
    by (auto simp: commitAuthorization_def ok_simps load_auth_iff Let_def publish_def indebted_def commits_def recognized_debt_def
        formatAuthorizationResponse_def credit_left_iff)
  note s = code_same [OF code] insert_receivable_run [OF st(1)] insert_debt_run [OF st(2)] save_profile_run [OF st(3)]
  have lines: "gl_lines (cb_ledger db2) = gl_lines g" using code by (auto simp: cash_code_def nextFinanceDocumentCode_def Let_def)
  have q: "rc_customerId ?q = au_customerId a" "rc_originalAmount ?q = au_authorizedAmount a" "rc_outstandingAmount ?q = au_authorizedAmount a"
    "rc_status ?q = RC_OPEN" "rc_creditAuthorizationId ?q = Some i" "rc_journalId ?q = jn_id j" by (simp_all add: commit_receivable_def new_receivable_def)
  have "rc_adjustedAmount ?q = 0" by (simp add: commit_receivable_def new_receivable_def)
  then have "receivable_ok ?q" using insert_receivable_run [OF st(1)] q open_amount [OF ok a] by (auto simp: receivable_ok_def receivable_check_def)
  have eqs: "cc_profiles db' = cc_profiles db5" "cc_auths db' = map_set i b (cc_auths db5)" "cc_receivables db' = cc_receivables db5"
    "cc_debts db' = cc_debts db5" "cb_ledger db' = cb_ledger db5" by (subst st(4), simp)+
  have cash: "cashbook_ok db1 \<and> ledger_ok g \<longrightarrow> cashbook_ok db'" by (subst st(4)) (use s cashbook_ok_ledger [of db1 g] in simp)
  show ?thesis
    by (rule exI [of _ db1], rule exI [of _ p], rule exI [of _ b], rule exI [of _ ?q], rule exI [of _ d], rule exI [of _ g], rule exI [of _ j], rule exI [of _ again])
      (use lock post st(5-9) s q \<open>receivable_ok ?q\<close> lines eqs cash in simp)
qed

lemma indebted_sel [simp]:
  "cp_heldCredit (indebted p h d now) = h" "cp_postedDebt (indebted p h d now) = d" "cp_creditLimit (indebted p h d now) = cp_creditLimit p"
  "cp_prepaymentBalance (indebted p h d now) = cp_prepaymentBalance p"
  by (simp_all add: indebted_def)

text \<open>A commit moves the authorized amount from the held credit to the posted debt of the customer and books it.\<close>

definition moved_to_debt :: "CreditDb \<Rightarrow> string \<Rightarrow> CreditAuthorization \<Rightarrow> string \<Rightarrow> CreditDb \<Rightarrow> bool" where
  "moved_to_debt db i a k db' \<longleftrightarrow> credit_ok db' \<and>
     held_of db' = (held_of db)(au_customerId a := held_of db (au_customerId a) - au_authorizedAmount a) \<and>
     posted_of db' = (posted_of db)(au_customerId a := posted_of db (au_customerId a) + au_authorizedAmount a) \<and>
     posted_of db' (au_customerId a) \<le> max_safe \<and> limit_of db' = limit_of db \<and>
     (\<exists>b. cc_auths db' = map_set i b (cc_auths db) \<and> commits k a b) \<and>
     (\<exists>q. cc_receivables db' = map_set k q (cc_receivables db) \<and> map_get (cc_receivables db) k = None \<and> rc_customerId q = au_customerId a \<and>
        rc_originalAmount q = au_authorizedAmount a \<and> rc_outstandingAmount q = au_authorizedAmount a \<and> rc_creditAuthorizationId q = Some i)"

lemma commit_run:
  assumes ok: "credit_ok db" and a: "map_get (cc_auths db) i = Some a" "au_state a = CR_HELD"
    and run: "commitAuthorization pick mkId db i actor dto ids rq now = Inr (db', r, replayed)"
  shows "\<not> replayed" "moved_to_debt db i a (id_receivable ids) db'"
proof -
  obtain db1 p b q d g j again where c: "\<not> replayed" "lockOrCreateProfileInTx (id_profile ids) now db (au_customerId a) = Inr (db1, p)"
    "fli (cp_postedDebt p + au_authorizedAmount a) \<le> max_safe"
    "cc_profiles db' = map_set (au_customerId a)
      (indebted p (held_less (cp_heldCredit p) (au_authorizedAmount a)) (fli (cp_postedDebt p + au_authorizedAmount a)) now) (cc_profiles db1)"
    "cc_auths db' = map_set i b (cc_auths db1)" "commits (id_receivable ids) a b"
    "cc_receivables db' = map_set (id_receivable ids) q (cc_receivables db1)" "map_get (cc_receivables db1) (id_receivable ids) = None"
    "rc_customerId q = au_customerId a" "rc_originalAmount q = au_authorizedAmount a" "rc_outstandingAmount q = au_authorizedAmount a"
    "rc_creditAuthorizationId q = Some i" "cc_debts db' = cc_debts db1 @ [d]" "de_customerId d = au_customerId a" "de_amountDelta d = au_authorizedAmount a"
    "postJournalInTx pick mkId (cb_ledger db1) (commit_journal i a (opt_or (cm_branchId dto) (au_branchId a))
      (case cm_actorId dto of None \<Rightarrow> actor | Some x \<Rightarrow> x)) (id_journal ids) rq now = Inr (g, j, again)" "receivable_ok q" "cashbook_ok db1 \<and> ledger_ok g \<longrightarrow> cashbook_ok db'"
    using commit_new [OF ok a run] by (elim exE conjE) (rule that)
  show "\<not> replayed" by (rule c(1))
  note l = lock_ok [OF ok c(2)] lock_cases [OF c(2)]
  note v = open_amount [OF ok a]
  have same: "cc_auths db1 = cc_auths db" "cc_receivables db1 = cc_receivables db" "held_of db1 = held_of db" by (simp_all add: l(3) create_same)
  have h: "held_less (cp_heldCredit p) (au_authorizedAmount a) = cp_heldCredit p - au_authorizedAmount a" "au_authorizedAmount a \<le> cp_heldCredit p"
    using v l(2,6) held_less_exact [OF v(2), of "cp_heldCredit p"] by (auto simp: profile_ok_def)
  have d: "fli (cp_postedDebt p + au_authorizedAmount a) = cp_postedDebt p + au_authorizedAmount a"
    using c(3) v(2) l(2) by (intro fli_safe) (auto simp: profile_ok_def)
  have sum: "map_sum (held_by credit_demand x) (cc_auths db') = held_of db x - (if x = au_customerId a then au_authorizedAmount a else 0)" for x
    using c(6) a credit_holds.sum_after_set [OF ok, of x i b] by (simp add: c(5) same held_by_demand commits_def)
  have "credit_ok db'"
  proof (rule debt_step [OF l(1) _ l(4,5) c(4) _ _ _ _ _ _ c(7-9) _ c(17) c(13-15) v(2)])
    show "cashbook_ok db'" using c(16,18) post_ok credit_okD(1,5) [OF l(1)] by blast
    show "distinct (map fst (cc_auths db'))" using l(1) by (simp add: c(5) distinct_map_set credit_ok_def)
    have "auth_ok (cc_receivables db') b" using c(6,10,9) v(2,3) by (simp add: auth_ok_def commits_def c(7))
    then show "\<forall>x \<in> set (cc_auths db'). auth_ok (cc_receivables db') (snd x)"
      using l(1) c(8) by (auto simp: c(5,7) credit_ok_def dest!: set_map_set_elem intro: auth_ok_more)
  qed (use l(2,6) h d c(3,11) v sum in \<open>auto simp: profile_ok_def same\<close>)
  moreover have "held_of db' = (held_of db)(au_customerId a := held_of db (au_customerId a) - au_authorizedAmount a)"
    "posted_of db' = (posted_of db)(au_customerId a := posted_of db (au_customerId a) + au_authorizedAmount a)" "limit_of db' = limit_of db"
    using l(3-8) create_same(6-8) [of "id_profile ids" now "au_customerId a" db]
    by (auto simp: fun_eq_iff held_of_def posted_of_def limit_of_def c(4) h d split: option.splits)
  moreover have "posted_of db' (au_customerId a) \<le> max_safe" using c(3) by (simp add: posted_of_def c(4))
  ultimately show "moved_to_debt db i a (id_receivable ids) db'" using c(5-12) by (auto simp: moved_to_debt_def same)
qed

lemma commit_ok:
  assumes ok: "credit_ok db" and run: "commitAuthorization pick mkId db i actor dto ids rq now = Inr (db', r, replayed)"
  shows "credit_ok db'"
proof -
  obtain a where a: "map_get (cc_auths db) i = Some a" using run by (auto simp: commitAuthorization_def split: option.splits)
  show ?thesis
  proof (cases "au_state a = CR_HELD")
    case True
    then show ?thesis using commit_run(2) [OF ok a _ run] by (simp add: moved_to_debt_def)
  next
    case False
    then have "\<exists>p. lockOrCreateProfileInTx (id_profile ids) now db (au_customerId a) = Inr (db', p)"
      using run a by (auto simp: commitAuthorization_def ok_simps load_auth_iff split: if_splits)
    then show ?thesis using lock_ok(1) [OF ok] by blast
  qed
qed

section \<open>Recognizing a receivable\<close>

lemma recognize_new:
  assumes ok: "credit_ok db" and run: "recognizeReceivable pickRow pick mkId db actor header dto ids rq now = Inr (db', (k, q), debt, False)"
  shows "\<exists>db1 p v d g j again. lockOrCreateProfileInTx (id_profile ids) now db (rd_customerId dto) = Inr (db1, p) \<and>
    parseVnd (Num (rd_amount dto)) False False = Inr v \<and> 0 < v \<and> v \<le> max_safe \<and> k = id_receivable ids \<and> debt = fli (cp_postedDebt p + v) \<and>
    (rd_overrideApprovedBy dto = None \<longrightarrow> cp_postedDebt p + cp_heldCredit p + v \<le> cp_creditLimit p) \<and>
    cc_profiles db' = map_set (rd_customerId dto) (indebted p (cp_heldCredit p) (fli (cp_postedDebt p + v)) now) (cc_profiles db1) \<and>
    cc_auths db' = cc_auths db1 \<and> cc_receivables db' = map_set k q (cc_receivables db1) \<and> map_get (cc_receivables db1) k = None \<and>
    rc_customerId q = rd_customerId dto \<and> rc_originalAmount q = v \<and> rc_outstandingAmount q = v \<and>
    cc_debts db' = cc_debts db1 @ [d] \<and> de_customerId d = rd_customerId dto \<and> de_amountDelta d = v \<and>
    postJournalInTx pick mkId (cb_ledger db1) (recognize_journal dto v (receivable_source dto v) (receivable_key header dto (receivable_source dto v)) actor)
      (id_journal ids) rq now = Inr (g, j, again) \<and> receivable_ok q \<and> (cashbook_ok db1 \<and> ledger_ok g \<longrightarrow> cashbook_ok db')"
proof -
  obtain v db1 p where v: "parseVnd (Num (rd_amount dto)) False False = Inr v"
    and lock: "lockOrCreateProfileInTx (id_profile ids) now db (rd_customerId dto) = Inr (db1, p)"
    using run by (auto simp: recognizeReceivable_def ok_simps Let_def)
  have pos: "0 < v" "v \<le> max_safe" using finVnd_bounds [OF v] by auto
  note l = lock_ok [OF ok lock] lock_cases [OF lock]
  let ?src = "receivable_source dto v"
  let ?key = "receivable_key header dto ?src"
  have none: "matching_receivables db1 ?src ?key = []"
    using run by (auto simp: recognizeReceivable_def ok_simps Let_def v lock split: if_splits prod.splits)
  note eval = evaluate_iff [OF l(2,5) pos, of "rd_overrideApprovedBy dto"]
  have fits: "cp_postedDebt p + cp_heldCredit p + v \<le> cp_creditLimit p \<or> (case rd_overrideApprovedBy dto of None \<Rightarrow> False | Some s \<Rightarrow> js_trim s \<noteq> [])"
    using run none by (auto simp: recognizeReceivable_def Let_def ok_simps lock v eval split: if_splits)
  obtain g j again where post: "postJournalInTx pick mkId (cb_ledger db1) (recognize_journal dto v ?src ?key actor) (id_journal ids) rq now = Inr (g, j, again)"
    using run none fits by (auto simp: recognizeReceivable_def Let_def ok_simps lock v eval)
  obtain db2 code' where code: "cash_code ''AR'' (db1\<lparr>cb_ledger := g\<rparr>) = (db2, code')" by fastforce
  let ?q = "new_receivable code' (rd_customerId dto) (rd_orderId dto) (rd_branchId dto) None v (fst ?src) (snd ?src) (jn_id j) ?key now"
  obtain db3 d db4 db5 where st: "insert_receivable (id_receivable ids) ?q db2 = Inr db3" "insert_debt d db3 = Inr db4"
    "save_profile (rd_customerId dto) (indebted p (cp_heldCredit p) (fli (cp_postedDebt p + v)) now) db4 = Inr db5"
    "db' = db5\<lparr>cc_outbox := cc_outbox db'\<rparr>" "k = id_receivable ids" "q = ?q" "debt = fli (cp_postedDebt p + v)"
    "de_customerId d = rd_customerId dto" "de_amountDelta d = v"
    using run none fits post code that
    by (auto simp: recognizeReceivable_def Let_def ok_simps lock v eval publish_def indebted_def recognized_debt_def)
  note s = code_same [OF code] insert_receivable_run [OF st(1)] insert_debt_run [OF st(2)] save_profile_run [OF st(3)]
  have eqs: "cc_profiles db' = cc_profiles db5" "cc_auths db' = cc_auths db5" "cc_receivables db' = cc_receivables db5"
    "cc_debts db' = cc_debts db5" "cb_ledger db' = cb_ledger db5" by (subst st(4), simp)+
  have q: "rc_customerId q = rd_customerId dto" "rc_originalAmount q = v" "rc_outstandingAmount q = v" "rc_status q = RC_OPEN"
    by (simp_all add: st(6) new_receivable_def)
  have "rc_adjustedAmount q = 0" by (simp add: st(6) new_receivable_def)
  then have q': "receivable_ok q" using q insert_receivable_run [OF st(1)] pos st(6) by (auto simp: receivable_ok_def)
  have ov: "rd_overrideApprovedBy dto = None \<longrightarrow> cp_postedDebt p + cp_heldCredit p + v \<le> cp_creditLimit p" using fits by auto
  have cash: "cashbook_ok db1 \<and> ledger_ok g \<longrightarrow> cashbook_ok db'" by (subst st(4)) (use s cashbook_ok_ledger [of db1 g] in simp)
  show ?thesis
    by (rule exI [of _ db1], rule exI [of _ p], rule exI [of _ v], rule exI [of _ d], rule exI [of _ g], rule exI [of _ j], rule exI [of _ again])
      (use lock v pos post st(5-9) s q q' ov eqs cash in simp)
qed

lemma recognize_ok:
  assumes ok: "credit_ok db" and run: "recognizeReceivable pickRow pick mkId db actor header dto ids rq now = Inr (db', kq, debt, replayed)"
  shows "credit_ok db'"
proof (cases replayed)
  case True
  then have "\<exists>p. lockOrCreateProfileInTx (id_profile ids) now db (rd_customerId dto) = Inr (db', p)"
    using run by (auto simp: recognizeReceivable_def Let_def ok_simps split: if_splits prod.splits)
  then show ?thesis using lock_ok(1) [OF ok] by blast
next
  case False
  obtain k q where kq: "kq = (k, q)" by (cases kq)
  have run': "recognizeReceivable pickRow pick mkId db actor header dto ids rq now = Inr (db', (k, q), debt, False)" using run False kq by simp
  obtain db1 p v d g j again where c: "lockOrCreateProfileInTx (id_profile ids) now db (rd_customerId dto) = Inr (db1, p)" "0 < v"
    "cc_profiles db' = map_set (rd_customerId dto) (indebted p (cp_heldCredit p) (fli (cp_postedDebt p + v)) now) (cc_profiles db1)"
    "cc_auths db' = cc_auths db1" "cc_receivables db' = map_set k q (cc_receivables db1)" "map_get (cc_receivables db1) k = None"
    "rc_customerId q = rd_customerId dto" "rc_outstandingAmount q = v"
    "cc_debts db' = cc_debts db1 @ [d]" "de_customerId d = rd_customerId dto" "de_amountDelta d = v"
    "postJournalInTx pick mkId (cb_ledger db1) (recognize_journal dto v (receivable_source dto v) (receivable_key header dto (receivable_source dto v)) actor)
      (id_journal ids) rq now = Inr (g, j, again)" "receivable_ok q" "cashbook_ok db1 \<and> ledger_ok g \<longrightarrow> cashbook_ok db'"
    using recognize_new [OF ok run'] by blast
  note l = lock_ok [OF ok c(1)] lock_cases [OF c(1)]
  have held: "held_of db1 x = map_sum (held_by credit_demand x) (cc_auths db1)" for x by (rule credit_holds.reserved_held [OF l(1)])
  have at: "held_of db1 (rd_customerId dto) = cp_heldCredit p" using l(4) by (simp add: held_of_def)
  have "0 \<le> fli (cp_postedDebt p + v)" using l(2) c(2) by (intro fli_lower) (auto simp: profile_ok_def)
  show ?thesis
  proof (rule debt_step [OF l(1) _ l(4,5) c(3) _ _ _ _ _ _ c(5-8) c(13) c(9-11) c(2)])
    show "cashbook_ok db'" using c(12,14) post_ok credit_okD(1,5) [OF l(1)] by blast
    show "\<forall>x \<in> set (cc_auths db'). auth_ok (cc_receivables db') (snd x)"
      using l(1) c(6) by (auto simp: c(4,5) credit_ok_def intro: auth_ok_more)
  qed (use l(1,2) \<open>0 \<le> fli _\<close> held at c(4) in \<open>auto simp: profile_ok_def credit_ok_def\<close>)
qed

end
