(* ===== verification/ReceivablePayments.thy ===== *)
theory ReceivablePayments
  imports CustomerCredit
begin

text \<open>
  Collecting debt: \<^verbatim>\<open>recordReceivablePayment\<close> and the queries of \<^verbatim>\<open>apps/finance/src/modules/receivables/receivables.service.ts\<close>,
  and the check of the receivables subledger in \<^verbatim>\<open>apps/finance/src/modules/reconciliation/reconciliation.service.ts\<close>. A payment is allocated to the
  open receivables of a customer, booked in the general ledger and the cashbook, and taken off the receivables, the debt ledger and the
  credit profile, in one transaction.
\<close>

section \<open>Recording a payment\<close>

datatype ReceivablePaymentMethod = PM_CASH | PM_BANK_TRANSFER | PM_CARD | PM_E_WALLET

definition show_method :: "ReceivablePaymentMethod \<Rightarrow> string" where
  "show_method m = (case m of PM_CASH \<Rightarrow> ''CASH'' | PM_BANK_TRANSFER \<Rightarrow> ''BANK_TRANSFER'' | PM_CARD \<Rightarrow> ''CARD'' | PM_E_WALLET \<Rightarrow> ''E_WALLET'')"

record RecordReceivablePaymentDto =
  rp_amount :: jsnum
  rp_paymentMethod :: "ReceivablePaymentMethod option"
  rp_cashAccountId :: "string option"
  rp_branchId :: "string option"
  rp_overpaymentPolicy :: "OverpaymentPolicy option"
  rp_allocations :: "RequestedAllocationLine list"
  rp_note :: "string option"
  rp_idempotencyKey :: "string option"

text \<open>A missing list of allocations is an empty one: the allocation treats them alike.\<close>

record payment_ids =
  pi_key :: string
  pi_profile :: string
  pi_account :: string
  pi_journal :: string
  pi_entry :: string
  pi_debt :: "nat \<Rightarrow> string"

fun join_codes :: "string list \<Rightarrow> string" where
  "join_codes [] = []"
| "join_codes [c] = c"
| "join_codes (c # cs) = c @ '', '' @ join_codes cs"

definition load_debt :: "DebtEntry \<Rightarrow> DebtEntry fin_result" where
  "load_debt d =
     ebind (finMoney (de_amountDelta d)) (\<lambda>_. ebind (finMoney (de_balanceBefore d)) (\<lambda>_. ebind (finMoney (de_balanceAfter d)) (\<lambda>_. Inr d)))"

definition save_receivable :: "string \<Rightarrow> CustomerReceivable \<Rightarrow> CreditDb \<Rightarrow> CreditDb fin_result" where
  "save_receivable i r db =
     (if \<not> receivable_check r then Inl query_failed else Inr (db\<lparr>cc_receivables := map_set i r (cc_receivables db)\<rparr>))"

definition payment_key :: "string option \<Rightarrow> RecordReceivablePaymentDto \<Rightarrow> string \<Rightarrow> string" where
  "payment_key header dto newKey =
     js_lower (js_trim (case opt_or header (rp_idempotencyKey dto) of None \<Rightarrow> ''ar-pay:'' @ newKey | Some k \<Rightarrow> k))"

definition payment_entries :: "CreditDb \<Rightarrow> string \<Rightarrow> DebtEntry list" where
  "payment_entries db cleanKey = filter (\<lambda>d. de_idempotencyKey d = cleanKey \<or> de_idempotencyKey d = cleanKey @ '':1'') (cc_debts db)"

definition paying_customer :: "CreditDb \<Rightarrow> string option \<Rightarrow> string option \<Rightarrow> string fin_result" where
  "paying_customer db targetReceivableId targetCustomerId =
     ebind (if truthy targetReceivableId \<and> \<not> truthy targetCustomerId
            then (case map_get (cc_receivables db) (the targetReceivableId) of
                    None \<Rightarrow> Inl (fin_error RECEIVABLE_NOT_FOUND 404)
                  | Some row \<Rightarrow> ebind (load_receivable row) (\<lambda>target. Inr (Some (rc_customerId target))))
            else Inr targetCustomerId) (\<lambda>customerId.
     if \<not> truthy customerId then Inl (fin_error VALIDATION_ERROR 422) else Inr (the customerId))"

text \<open>The documents are read oldest first; \<open>byId\<close> is the database's order of their ids.\<close>

type_synonym receivable_rows = "(string \<times> CustomerReceivable) list"

definition open_rows :: "(receivable_rows \<Rightarrow> receivable_rows) \<Rightarrow> CreditDb \<Rightarrow> string option \<Rightarrow> string \<Rightarrow> receivable_rows" where
  "open_rows byId db targetReceivableId customerId =
     sort_key (\<lambda>(_, r). rc_createdAt r) (byId (filter (\<lambda>(i, r). rc_customerId r = customerId \<and>
       (if truthy targetReceivableId then i = the targetReceivableId
        else rc_status r = RC_OPEN \<or> rc_status r = RC_PARTIALLY_PAID)) (cc_receivables db)))"

definition open_documents :: "(receivable_rows \<Rightarrow> receivable_rows) \<Rightarrow> CreditDb \<Rightarrow> string option \<Rightarrow> string \<Rightarrow> receivable_rows fin_result" where
  "open_documents byId db targetReceivableId customerId =
     emap (\<lambda>(i, r). ebind (load_receivable r) (\<lambda>r'. Inr (i, r'))) (open_rows byId db targetReceivableId customerId)"

definition obligation :: "string \<times> CustomerReceivable \<Rightarrow> OpenObligationSnapshot" where
  "obligation d =
     (case d of (i, r) \<Rightarrow>
       \<lparr>ob_id = i, ob_code = rc_code r, ob_originalAmount = Fin (of_int (rc_originalAmount r)), ob_paidAmount = Fin (of_int (rc_paidAmount r)),
        ob_adjustedAmount = Fin (of_int (rc_adjustedAmount r)), ob_outstandingAmount = Fin (of_int (rc_outstandingAmount r))\<rparr>)"

definition payment_account ::
    "((string \<times> CashAccount) list \<Rightarrow> string \<times> CashAccount) \<Rightarrow> string \<Rightarrow> int \<Rightarrow> CreditDb \<Rightarrow> RecordReceivablePaymentDto \<Rightarrow> string option \<Rightarrow>
     ReceivablePaymentMethod \<Rightarrow> (CreditDb \<times> string \<times> CashAccount) fin_result" where
  "payment_account pickAcc newId now db dto branchId paymentMethod =
     (if truthy (rp_cashAccountId dto)
      then (case map_get (cb_accounts db) (the (rp_cashAccountId dto)) of
              None \<Rightarrow> Inl (fin_error CASH_ACCOUNT_NOT_FOUND 404)
            | Some row \<Rightarrow> ebind (load_account row) (\<lambda>found. Inr (db, the (rp_cashAccountId dto), found)))
      else ensureDefaultCashAccountInTx pickAcc newId now db branchId (if paymentMethod = PM_CASH then CASH_DRAWER else BANK))"

definition payment_line :: "string \<Rightarrow> jsval \<Rightarrow> jsval \<Rightarrow> string option \<Rightarrow> string \<Rightarrow> string \<Rightarrow> JournalLineInput" where
  "payment_line accountCode debit credit branchId customerId memo =
     \<lparr>jl_accountCode = Some accountCode, jl_debitAmount = debit, jl_creditAmount = credit, jl_branchId = branchId, jl_partyType = Some CUSTOMER,
      jl_partyId = Some customerId, jl_referenceType = None, jl_referenceId = None, jl_memo = Some memo\<rparr>"

definition payment_lines ::
    "string \<Rightarrow> CalculatedPaymentAllocationResult \<Rightarrow> int \<Rightarrow> string option \<Rightarrow> string \<Rightarrow> string option \<Rightarrow> ReceivablePaymentMethod \<Rightarrow> JournalLineInput list" where
  "payment_lines cashGl alloc overpayVnd branchId customerId note' paymentMethod =
     [payment_line cashGl (num_arg (pa_paymentAmount alloc)) Undefined branchId customerId
        (case note' of None \<Rightarrow> ''Customer debt collection ('' @ show_method paymentMethod @ '')'' | Some n \<Rightarrow> n),
      payment_line (gl ''ACCOUNTS_RECEIVABLE'') Undefined (num_arg (pa_totalAllocated alloc)) branchId customerId
        (''Allocated to receivable(s): '' @ join_codes (map al_code (pa_allocations alloc)))] @
     (if overpayVnd > 0
      then [payment_line (gl ''CUSTOMER_PREPAYMENT'') Undefined (num_arg (pa_overpaymentAmount alloc)) branchId customerId ''Customer overpayment credit'']
      else [])"

definition payment_journal ::
    "string \<Rightarrow> string \<Rightarrow> string option \<Rightarrow> string option \<Rightarrow> CalculatedPaymentAllocationResult \<Rightarrow> JournalLineInput list \<Rightarrow> PostJournalInTxInput" where
  "payment_journal cleanKey actorId branchId note' alloc lines' =
     \<lparr>pj_journalType = ''RECEIVABLE_COLLECTION'', pj_sourceType = ''RECEIVABLE_PAYMENT'', pj_sourceId = cleanKey,
      pj_idempotencyKey = Some (''ar-pay-jnl:'' @ cleanKey), pj_branchId = branchId,
      pj_description = opt_or note' (Some (''Customer debt collection for '' @ join_codes (map al_code (pa_allocations alloc)))),
      pj_effectiveDate = None, pj_postedBy = actorId, pj_correlationId = None, pj_reversalOf = None, pj_lines = lines'\<rparr>"

definition payment_voucher ::
    "string \<Rightarrow> string \<Rightarrow> string option \<Rightarrow> string option \<Rightarrow> string \<Rightarrow> string \<Rightarrow> CalculatedPaymentAllocationResult \<Rightarrow> string \<Rightarrow> VoucherInput" where
  "payment_voucher cleanKey actorId branchId note' customerId accountId alloc journalId =
     \<lparr>vi_actorId = actorId, vi_direction = RECEIPT, vi_cashAccountId = accountId, vi_categoryId = None, vi_categoryCode = Some ''DEBT_COLLECTION'',
      vi_amount = pa_paymentAmount alloc, vi_branchId = branchId, vi_shiftId = None, vi_voucherType = Some ''DEBT_COLLECTION'',
      vi_sourceType = Some ''RECEIVABLE_PAYMENT'', vi_sourceId = Some cleanKey, vi_partyType = Some CUSTOMER, vi_partyId = Some customerId,
      vi_description = opt_or note' (Some (''Debt collection for '' @ join_codes (map al_code (pa_allocations alloc)))), vi_referenceDoc = None,
      vi_autoPost = True, vi_idempotencyKey = Some (''cb-ar-pay:'' @ cleanKey), vi_requestHash = None, vi_skipJournalIfLinked = Some journalId\<rparr>"

text \<open>One turn of the loop over the allocations, counted from 0: the running debt, the document, its ledger entry. \<open>docs\<close> is the map of loaded documents.\<close>

record payment_loop =
  pl_db :: CreditDb
  pl_debt :: int
  pl_docs :: "(string, CustomerReceivable) jsmap"
  pl_updated :: "string list"

definition settle_receivable :: "CustomerReceivable \<Rightarrow> CalculatedAllocationLine \<Rightarrow> int \<Rightarrow> CustomerReceivable" where
  "settle_receivable doc alloc now =
     doc\<lparr>rc_paidAmount := al_paidAmountAfter alloc, rc_outstandingAmount := al_outstandingAfter alloc,
       rc_status := (case al_statusAfter alloc of PARTIALLY_PAID \<Rightarrow> RC_PARTIALLY_PAID | PAID \<Rightarrow> RC_PAID),
       rc_version := rc_version doc + 1, rc_updatedAt := now\<rparr>"

definition payment_entry ::
    "string \<Rightarrow> string \<Rightarrow> string \<Rightarrow> CustomerReceivable \<Rightarrow> CalculatedAllocationLine \<Rightarrow> int \<Rightarrow> int \<Rightarrow> ReceivablePaymentMethod \<Rightarrow> string \<Rightarrow> string \<Rightarrow> string \<Rightarrow> string \<Rightarrow>
     string option \<Rightarrow> string \<Rightarrow> int \<Rightarrow> DebtEntry" where
  "payment_entry newId customerId docId doc alloc debtBefore debtAfter paymentMethod cashbookEntryId journalId cleanKey ownKey note' actorId now =
     \<lparr>de_id = newId, de_customerId = customerId, de_receivableId = docId, de_entryType = PAYMENT_APPLIED, de_amountDelta = - al_allocatedAmount alloc,
      de_balanceBefore = debtBefore, de_balanceAfter = debtAfter, de_paymentMethod = Some (show_method paymentMethod),
      de_cashbookEntryId = Some cashbookEntryId, de_journalId = journalId, de_referenceType = ''RECEIVABLE_PAYMENT'', de_referenceId = cleanKey,
      de_idempotencyKey = ownKey, de_note = opt_or note' (Some (''Payment applied to '' @ rc_code doc)), de_actorId = actorId, de_occurredAt = now\<rparr>"

definition entry_key :: "string \<Rightarrow> nat \<Rightarrow> nat \<Rightarrow> string" where
  "entry_key cleanKey n i = (if n = 1 then cleanKey else cleanKey @ '':'' @ show_digits (int i + 1))"

text \<open>\<open>ledgerEntry\<close> gives the ledger entry of a turn; the debt left is cut off at 0 like the credit left in \<open>held_less\<close>.\<close>

definition apply_allocation ::
    "(nat \<Rightarrow> CustomerReceivable \<Rightarrow> CalculatedAllocationLine \<Rightarrow> int \<Rightarrow> int \<Rightarrow> DebtEntry) \<Rightarrow> int \<Rightarrow> nat \<times> CalculatedAllocationLine \<Rightarrow> payment_loop \<Rightarrow> payment_loop fin_result" where
  "apply_allocation ledgerEntry now turn s =
     (case turn of (i, alloc) \<Rightarrow>
        (case map_get (pl_docs s) (al_documentId alloc) of
           None \<Rightarrow> Inl (NativeError ''TypeError'')
         | Some doc \<Rightarrow>
             ebind (parseVnd (num_arg (al_allocatedAmount alloc)) False False) (\<lambda>allocVnd.
             let debtBeforeVnd = pl_debt s;
                 debtAfterVnd = held_less debtBeforeVnd allocVnd;
                 doc' = settle_receivable doc alloc now in
             ebind (save_receivable (al_documentId alloc) doc' (pl_db s)) (\<lambda>db1.
             ebind (insert_debt (ledgerEntry i doc' alloc debtBeforeVnd debtAfterVnd) db1) (\<lambda>db2.
               Inr \<lparr>pl_db = db2, pl_debt = debtAfterVnd, pl_docs = map_set (al_documentId alloc) doc' (pl_docs s),
                    pl_updated = pl_updated s @ [al_documentId alloc]\<rparr>)))))"

record ReceivablePaymentResult =
  pr_receivable :: "(string \<times> CustomerReceivable) option"
  pr_updatedReceivables :: "string list"
  pr_allocation :: "CalculatedPaymentAllocationResult option"
  pr_customerTotalDebtAfter :: int
  pr_prepaymentBalanceAfter :: int
  pr_journalId :: string
  pr_cashbookEntryId :: "string option"
  pr_replayed :: bool

text \<open>A repeated key finds an entry of the first run; which of several is not stated (\<open>pickDebt\<close>).\<close>

definition replay_payment :: "(DebtEntry list \<Rightarrow> DebtEntry) \<Rightarrow> CreditDb \<Rightarrow> string \<Rightarrow> string \<Rightarrow> int \<Rightarrow> (CreditDb \<times> ReceivablePaymentResult) fin_result" where
  "replay_payment pickDebt db cleanKey profileId now =
     ebind (load_debt (pickDebt (payment_entries db cleanKey))) (\<lambda>existing.
     ebind (case map_get (cc_receivables db) (de_receivableId existing) of
              None \<Rightarrow> Inr None
            | Some row \<Rightarrow> ebind (load_receivable row) (\<lambda>r. Inr (Some (de_receivableId existing, r)))) (\<lambda>rec.
     ebind (lockOrCreateProfileInTx profileId now db (de_customerId existing)) (\<lambda>(db1, profile).
       Inr (db1, \<lparr>pr_receivable = rec, pr_updatedReceivables = [], pr_allocation = None, pr_customerTotalDebtAfter = cp_postedDebt profile,
                  pr_prepaymentBalanceAfter = cp_prepaymentBalance profile, pr_journalId = de_journalId existing,
                  pr_cashbookEntryId = de_cashbookEntryId existing, pr_replayed = True\<rparr>))))"

definition pay_profile :: "CreditProfile \<Rightarrow> int \<Rightarrow> int \<Rightarrow> int \<Rightarrow> CreditProfile fin_result" where
  "pay_profile profile runningDebtVnd overpayVnd now =
     ebind (if overpayVnd > 0
            then ebind (parseVnd (num_arg (cp_prepaymentBalance profile)) True False) (\<lambda>prevPrep. Inr (fli (prevPrep + overpayVnd)))
            else Inr (cp_prepaymentBalance profile)) (\<lambda>prepayment.
     Inr (profile\<lparr>cp_postedDebt := runningDebtVnd, cp_prepaymentBalance := prepayment, cp_version := cp_version profile + 1, cp_updatedAt := now\<rparr>))"

definition settle_payment ::
    "(nat \<Rightarrow> CustomerReceivable \<Rightarrow> CalculatedAllocationLine \<Rightarrow> int \<Rightarrow> int \<Rightarrow> DebtEntry) \<Rightarrow> CreditDb \<Rightarrow> string \<Rightarrow> CreditProfile \<Rightarrow> receivable_rows \<Rightarrow>
     CalculatedPaymentAllocationResult \<Rightarrow> int \<Rightarrow> string \<Rightarrow> string \<Rightarrow> int \<Rightarrow> (CreditDb \<times> ReceivablePaymentResult) fin_result" where
  "settle_payment ledgerEntry db customerId profile openDocs alloc overpayVnd journalId cashbookEntryId now =
     ebind (parseVnd (num_arg (cp_postedDebt profile)) True False) (\<lambda>postedVnd.
     ebind (efold (apply_allocation ledgerEntry now) (enumerate 0 (pa_allocations alloc))
              \<lparr>pl_db = db, pl_debt = postedVnd, pl_docs = fold (\<lambda>(i, d). map_set i d) openDocs [], pl_updated = []\<rparr>) (\<lambda>s.
     ebind (pay_profile profile (pl_debt s) overpayVnd now) (\<lambda>profile'.
     ebind (save_profile customerId profile' (pl_db s)) (\<lambda>db1.
     case pl_updated s of
       [] \<Rightarrow> Inl (NativeError ''TypeError'')
     | first # _ \<Rightarrow>
         let primaryRec = the (map_get (pl_docs s) first) in
         Inr (publish (FINANCE_RECEIVABLE_PAYMENT_APPLIED first (rc_originalAmount primaryRec) (rc_paidAmount primaryRec)
                         (rc_outstandingAmount primaryRec) (cp_postedDebt profile')) db1,
              \<lparr>pr_receivable = Some (first, primaryRec), pr_updatedReceivables = pl_updated s, pr_allocation = Some alloc,
               pr_customerTotalDebtAfter = cp_postedDebt profile', pr_prepaymentBalanceAfter = cp_prepaymentBalance profile',
               pr_journalId = journalId, pr_cashbookEntryId = Some cashbookEntryId, pr_replayed = False\<rparr>)))))"

definition recordReceivablePayment ::
    "(DebtEntry list \<Rightarrow> DebtEntry) \<Rightarrow> (receivable_rows \<Rightarrow> receivable_rows) \<Rightarrow> ((string \<times> CashAccount) list \<Rightarrow> string \<times> CashAccount) \<Rightarrow>
     (FinancialJournal list \<Rightarrow> FinancialJournal) \<Rightarrow> (string \<Rightarrow> string) \<Rightarrow> (string \<Rightarrow> string) \<Rightarrow> CreditDb \<Rightarrow> string option \<Rightarrow> string option \<Rightarrow> string \<Rightarrow>
     string option \<Rightarrow> RecordReceivablePaymentDto \<Rightarrow> payment_ids \<Rightarrow> string option \<Rightarrow> int \<Rightarrow> (CreditDb \<times> ReceivablePaymentResult) fin_result" where
  "recordReceivablePayment pickDebt byId pickAcc pick mkId mkCat db targetReceivableId targetCustomerId actorId header dto ids requestId now =
     (let cleanKey = payment_key header dto (pi_key ids) in
      if payment_entries db cleanKey \<noteq> [] then replay_payment pickDebt db cleanKey (pi_profile ids) now
      else
        ebind (paying_customer db targetReceivableId targetCustomerId) (\<lambda>customerId.
        ebind (lockOrCreateProfileInTx (pi_profile ids) now db customerId) (\<lambda>(db1, profile).
        ebind (open_documents byId db1 targetReceivableId customerId) (\<lambda>openDocs.
        ebind (throw_if (openDocs = []) (fin_error RECEIVABLE_NOT_FOUND 404)) (\<lambda>_.
        ebind (calculateDocumentAllocations (rp_amount dto) (map obligation openDocs) (rp_allocations dto)
                 (case rp_overpaymentPolicy dto of None \<Rightarrow> REJECT | Some p \<Rightarrow> p) RECEIVABLE) (\<lambda>alloc.
        let paymentMethod = (case rp_paymentMethod dto of None \<Rightarrow> PM_CASH | Some m \<Rightarrow> m);
            branchId = opt_or (rp_branchId dto) (rc_branchId (snd (hd openDocs))) in
        ebind (payment_account pickAcc (pi_account ids) now db1 dto branchId paymentMethod) (\<lambda>(db2, accountId, cashAccount).
        ebind (parseVnd (num_arg (pa_overpaymentAmount alloc)) True False) (\<lambda>overpayVnd.
        ebind (postJournalInTx pick mkId (cb_ledger db2)
                 (payment_journal cleanKey actorId branchId (rp_note dto) alloc
                   (payment_lines (ka_glAccountCode cashAccount) alloc overpayVnd branchId customerId (rp_note dto) paymentMethod))
                 (pi_journal ids) requestId now) (\<lambda>(g, journal, _).
        ebind (createAndOptionallyPostVoucherInTx pick mkId mkCat (db2\<lparr>cb_ledger := g\<rparr>)
                 (payment_voucher cleanKey actorId branchId (rp_note dto) customerId accountId alloc (jn_id journal))
                 (pi_entry ids) (pi_journal ids) requestId now) (\<lambda>(db3, entryId, _).
          settle_payment (\<lambda>i doc a before after.
              payment_entry (pi_debt ids i) customerId (al_documentId a) doc a before after paymentMethod entryId (jn_id journal) cleanKey
                (entry_key cleanKey (length (pa_allocations alloc)) i) (rp_note dto) actorId now)
            db3 customerId profile openDocs alloc overpayVnd (jn_id journal) entryId now))))))))))"

section \<open>Queries\<close>

definition getReceivableById :: "CreditDb \<Rightarrow> string \<Rightarrow> CustomerReceivable fin_result" where
  "getReceivableById db i =
     (case map_get (cc_receivables db) i of None \<Rightarrow> Inl (fin_error RECEIVABLE_NOT_FOUND 404) | Some row \<Rightarrow> load_receivable row)"

text \<open>The latest 50 rows of each kind, in the order of the query (\<open>newest\<close>, \<open>newestDebt\<close>).\<close>

definition getCustomerDebtSummary ::
    "(receivable_rows \<Rightarrow> receivable_rows) \<Rightarrow> (DebtEntry list \<Rightarrow> DebtEntry list) \<Rightarrow> string \<Rightarrow> int \<Rightarrow> CreditDb \<Rightarrow> string \<Rightarrow>
     (CreditDb \<times> CreditProfile \<times> int \<times> nat \<times> receivable_rows \<times> DebtEntry list) fin_result" where
  "getCustomerDebtSummary newest newestDebt newId now db customerId =
     ebind (lockOrCreateProfileInTx newId now db customerId) (\<lambda>(db1, profile).
     ebind (emap (\<lambda>(i, r). ebind (load_receivable r) (\<lambda>r'. Inr (i, r'))) (take 50 (newest (filter (\<lambda>(_, r). rc_customerId r = customerId) (cc_receivables db1)))))
       (\<lambda>receivables.
     ebind (emap load_debt (take 50 (newestDebt (filter (\<lambda>d. de_customerId d = customerId) (cc_debts db1))))) (\<lambda>ledger.
     ebind (credit_left profile) (\<lambda>availVnd.
       Inr (db1, profile, availVnd,
            length (filter (\<lambda>(_, r). rc_status r = RC_OPEN \<or> rc_status r = RC_PARTIALLY_PAID) receivables), receivables, ledger)))))"

section \<open>The check of the subledger\<close>

text \<open>What a reconciliation run compares for one profile: the sum of its customer's open receivables and its posted debt.\<close>

definition sum_open :: "(string \<times> CustomerReceivable) list \<Rightarrow> int fin_result" where
  "sum_open rows =
     efold (\<lambda>(_, r) sum. if rc_status r = RC_OPEN \<or> rc_status r = RC_PARTIALLY_PAID
              then ebind (parseVnd (num_arg (rc_outstandingAmount r)) True False) (\<lambda>v. Inr (fli (sum + v))) else Inr sum) rows 0"

text \<open>Each row is loaded first; the result is the expected and the actual amount of the mismatch, or nothing.\<close>

definition subledger_check ::
    "(receivable_rows \<Rightarrow> receivable_rows) \<Rightarrow> CreditDb \<Rightarrow> string \<Rightarrow> CreditProfile \<Rightarrow> (int \<times> int) option fin_result" where
  "subledger_check anyOrder db customerId row =
     ebind (load_profile row) (\<lambda>profile.
     ebind (emap (\<lambda>(i, r). ebind (load_receivable r) (\<lambda>r'. Inr (i, r'))) (anyOrder (filter (\<lambda>(_, r). rc_customerId r = customerId) (cc_receivables db))))
       (\<lambda>openAr.
     ebind (sum_open openAr) (\<lambda>sumOpenVnd.
     ebind (parseVnd (num_arg (cp_postedDebt profile)) True False) (\<lambda>postedDebtVnd.
       Inr (if sumOpenVnd = postedDebtVnd then None else Some (sumOpenVnd, postedDebtVnd))))))"

section \<open>Allocations and their documents\<close>

definition linked :: "OpenObligationSnapshot list \<Rightarrow> CalculatedAllocationLine \<Rightarrow> bool" where
  "linked docs a \<longleftrightarrow> (\<exists>d p. d \<in> set docs \<and> al_documentId a = ob_id d \<and>
     parseVnd (Num (ob_outstandingAmount d)) True False = Inr (al_outstandingBefore a) \<and>
     parseVnd (Num (ob_paidAmount d)) True False = Inr p \<and> al_paidAmountAfter a = fli (p + al_allocatedAmount a))"

lemma linked_line:
  "d \<in> set docs \<Longrightarrow> parseVnd (Num (ob_outstandingAmount d)) True False = Inr out \<Longrightarrow> parseVnd (Num (ob_paidAmount d)) True False = Inr p \<Longrightarrow>
     linked docs (allocation_line d a out p)"
  unfolding linked_def by (rule exI [of _ d], rule exI [of _ p]) (simp add: allocation_line_def Let_def)

lemma linked_more: "linked docs a \<Longrightarrow> linked (d # docs) a"
  unfolding linked_def by auto

lemma linked_id: "linked docs a \<Longrightarrow> al_documentId a \<in> ob_id ` set docs"
  by (auto simp: linked_def)

lemma explicit_linked:
  assumes "explicit_step kind (doc_map docs) req s = Inr s'" "\<forall>a \<in> set (snd (snd s)). linked docs a"
  shows "\<forall>a \<in> set (snd (snd s')). linked docs a"
proof -
  obtain doc a out paid where h: "map_get (doc_map docs) (ra_documentId req) = Some doc"
    "parseVnd (Num (ob_outstandingAmount doc)) True False = Inr out" "parseVnd (Num (ob_paidAmount doc)) True False = Inr paid"
    "snd (snd s') = snd (snd s) @ [allocation_line doc a out paid]"
    using assms(1) by (cases s) (auto simp: explicit_step_def ok_simps split: if_splits option.splits)
  have "doc \<in> set docs" using h(1) by (auto simp: doc_map_def map_get_fold_set split: option.splits dest!: find_SomeD)
  then show ?thesis using assms(2) h linked_line by auto
qed

lemma fifo_linked:
  assumes "fifo_loop docs rem t as = Inr (t', as')"
  shows "\<exists>new. as' = as @ new \<and> (\<forall>a \<in> set new. linked docs a) \<and> (distinct (map ob_id docs) \<longrightarrow> distinct (map al_documentId new))"
  using assms
proof (induction docs arbitrary: rem t as)
  case (Cons d docs)
  show ?case
  proof (cases "rem \<le> 0")
    case False
    obtain out where out: "parseVnd (Num (ob_outstandingAmount d)) True False = Inr out" using Cons.prems False by (auto simp: ok_simps)
    show ?thesis
    proof (cases "out \<le> 0")
      case True
      then show ?thesis using Cons.IH [of rem t as] Cons.prems False out linked_more by fastforce
    next
      case pos: False
      obtain p where p: "parseVnd (Num (ob_paidAmount d)) True False = Inr p" using Cons.prems False pos out by (auto simp: ok_simps)
      let ?a = "if rem \<le> out then rem else out"
      let ?l = "allocation_line d ?a out p"
      obtain new where new: "as' = (as @ [?l]) @ new" "\<forall>a \<in> set new. linked docs a" "distinct (map ob_id docs) \<longrightarrow> distinct (map al_documentId new)"
        using Cons.IH [of "fli (rem - ?a)" "fli (t + ?a)" "as @ [?l]"] Cons.prems False pos out p by (auto simp: Let_def)
      have "linked (d # docs) ?l" using out p by (intro linked_line) simp_all
      moreover have "ob_id d \<notin> al_documentId ` set new" if "distinct (map ob_id (d # docs))"
        using that new(2) linked_id by fastforce
      ultimately show ?thesis
        by - (rule exI [of _ "?l # new"], use new linked_more in auto)
    qed
  qed (use Cons.prems in auto)
qed simp

lemma alloc_linked:
  assumes "calculateDocumentAllocations pay docs ex pol kind = Inr r" "distinct (map ob_id docs)"
  shows "\<forall>a \<in> set (pa_allocations r). linked docs a" "distinct (map al_documentId (pa_allocations r))"
proof -
  show "\<forall>a \<in> set (pa_allocations r). linked docs a"
  proof (cases "ex = []")
    case True
    then show ?thesis using assms(1) fifo_linked by (fastforce simp: calculateDocumentAllocations_def ok_simps Let_def)
  next
    case False
    then obtain s where s: "efold (explicit_step kind (doc_map docs)) ex ([], 0, []) = Inr s" "pa_allocations r = snd (snd s)"
      using assms(1) by (auto simp: calculateDocumentAllocations_def ok_simps Let_def)
    show ?thesis unfolding s(2) by (rule efold_invariant [OF s(1)]) (auto dest: explicit_linked)
  qed
  show "distinct (map al_documentId (pa_allocations r))"
  proof (cases "ex = []")
    case True
    then show ?thesis using assms fifo_linked by (fastforce simp: calculateDocumentAllocations_def ok_simps Let_def)
  next
    case False
    show ?thesis by (rule allocationsE [OF assms(1)]) (use False in simp)
  qed
qed

section \<open>The loop over the allocations\<close>

lemma settle_sel [simp]:
  "rc_customerId (settle_receivable d a now) = rc_customerId d" "rc_originalAmount (settle_receivable d a now) = rc_originalAmount d"
  "rc_outstandingAmount (settle_receivable d a now) = al_outstandingAfter a" "rc_paidAmount (settle_receivable d a now) = al_paidAmountAfter a"
  "rc_adjustedAmount (settle_receivable d a now) = rc_adjustedAmount d"
  "rc_status (settle_receivable d a now) = (case al_statusAfter a of PARTIALLY_PAID \<Rightarrow> RC_PARTIALLY_PAID | PAID \<Rightarrow> RC_PAID)"
  by (simp_all add: settle_receivable_def)

lemma settle_ok:
  "alloc_ok a \<Longrightarrow> receivable_ok d \<Longrightarrow> receivable_check (settle_receivable d a now) \<Longrightarrow> receivable_ok (settle_receivable d a now)"
  by (auto simp: receivable_ok_def alloc_ok_def split: AllocationStatus.splits)

lemma apply_run:
  assumes "apply_allocation E now (i, a) s = Inr s'"
  obtains d e where "map_get (pl_docs s) (al_documentId a) = Some d" "e = E i (settle_receivable d a now) a (pl_debt s) (pl_debt s')"
    "pl_debt s' = held_less (pl_debt s) (al_allocatedAmount a)" "receivable_check (settle_receivable d a now)"
    "pl_db s' = (pl_db s)\<lparr>cc_receivables := map_set (al_documentId a) (settle_receivable d a now) (cc_receivables (pl_db s)),
       cc_debts := cc_debts (pl_db s) @ [e]\<rparr>"
    "pl_docs s' = map_set (al_documentId a) (settle_receivable d a now) (pl_docs s)" "pl_updated s' = pl_updated s @ [al_documentId a]"
proof -
  obtain d where d: "map_get (pl_docs s) (al_documentId a) = Some d" using assms by (auto simp: apply_allocation_def split: option.splits)
  show thesis
    by (rule that [OF d refl]) (use assms d in \<open>auto simp: apply_allocation_def ok_simps Let_def save_receivable_def insert_debt_def split: if_splits\<close>)
qed

text \<open>What the receivables owe is non-negative, so a running debt that equals their sum covers every allocation.\<close>

lemma owed_covers:
  assumes "\<forall>x \<in> set (cc_receivables db). receivable_ok (snd x)" "map_get (cc_receivables db) k = Some d"
  shows "rc_outstandingAmount d \<le> owed_by db (rc_customerId d)"
proof -
  have "0 \<le> owes c (snd x)" if "x \<in> set (cc_receivables db)" for x c
    using assms(1) that by (auto simp: owes_def receivable_ok_def receivable_check_def)
  then have "owes (rc_customerId d) (snd (k, d)) \<le> sum_list (map (owes (rc_customerId d) \<circ> snd) (cc_receivables db))"
    using map_get_in_set [OF assms(2)] by (intro member_le_sum_list) force+
  then show ?thesis by (simp add: owed_by_def map_sum_def owes_def case_prod_beta comp_def)
qed

text \<open>What the entries of a payment say: the customer, the document, the amount taken off, the balances and a key per turn.\<close>

definition books :: "string \<Rightarrow> (nat \<Rightarrow> string) \<Rightarrow> (nat \<Rightarrow> CustomerReceivable \<Rightarrow> CalculatedAllocationLine \<Rightarrow> int \<Rightarrow> int \<Rightarrow> DebtEntry) \<Rightarrow> bool" where
  "books c K E \<longleftrightarrow> (\<forall>i d a b b'. de_customerId (E i d a b b') = c \<and> de_receivableId (E i d a b b') = al_documentId a \<and>
     de_amountDelta (E i d a b b') = - al_allocatedAmount a \<and> de_balanceBefore (E i d a b b') = b \<and> de_balanceAfter (E i d a b b') = b' \<and>
     de_idempotencyKey (E i d a b b') = K i)"

definition booked :: "string \<Rightarrow> string \<Rightarrow> DebtEntry \<Rightarrow> bool" where
  "booked c k e \<longleftrightarrow> load_debt e = Inr e \<and> de_customerId e = c \<and> de_receivableId e = k"

lemma load_debt_iff:
  "load_debt d = Inr e \<longleftrightarrow> e = d \<and> \<bar>de_amountDelta d\<bar> \<le> max_safe \<and> \<bar>de_balanceBefore d\<bar> \<le> max_safe \<and> \<bar>de_balanceAfter d\<bar> \<le> max_safe"
  by (auto simp: load_debt_def ok_simps finMoney_iff)

text \<open>The state of the loop: loaded documents are the rows of the customer, and the running debt is what they owe.\<close>

definition loop_ok :: "string \<Rightarrow> (nat \<times> CalculatedAllocationLine) list \<Rightarrow> payment_loop \<Rightarrow> bool" where
  "loop_ok c ts s \<longleftrightarrow>
     distinct (map fst (cc_receivables (pl_db s))) \<and> (\<forall>x \<in> set (cc_receivables (pl_db s)). receivable_ok (snd x)) \<and>
     (\<forall>k d. map_get (pl_docs s) k = Some d \<longrightarrow> map_get (cc_receivables (pl_db s)) k = Some d \<and> rc_customerId d = c) \<and>
     (\<forall>(i, a) \<in> set ts. alloc_ok a \<and> (\<exists>d. map_get (pl_docs s) (al_documentId a) = Some d \<and> rc_outstandingAmount d = al_outstandingBefore a)) \<and>
     distinct (map (al_documentId \<circ> snd) ts) \<and> pl_debt s = owed_by (pl_db s) c \<and> pl_debt s \<le> max_safe"

definition paid_off :: "(nat \<times> CalculatedAllocationLine) list \<Rightarrow> int" where
  "paid_off ts = sum_list (map (al_allocatedAmount \<circ> snd) ts)"

lemma paid_off_simps [simp]: "paid_off [] = 0" "paid_off (t # ts) = al_allocatedAmount (snd t) + paid_off ts"
  by (simp_all add: paid_off_def)

lemma apply_step:
  assumes inv: "loop_ok c ((i, a) # ts) s" and run: "apply_allocation E now (i, a) s = Inr s'"
    and E: "books c K E"
  shows "loop_ok c ts s'" "pl_debt s' = pl_debt s - al_allocatedAmount a"
    "\<exists>d e. map_get (cc_receivables (pl_db s)) (al_documentId a) = Some d \<and> rc_customerId d = c \<and> rc_outstandingAmount d = al_outstandingBefore a \<and>
       al_paidAmountAfter a = rc_paidAmount d + al_allocatedAmount a \<and> de_idempotencyKey e = K i \<and> booked c (al_documentId a) e \<and>
       pl_db s' = (pl_db s)\<lparr>cc_receivables := map_set (al_documentId a) (settle_receivable d a now) (cc_receivables (pl_db s)), cc_debts := cc_debts (pl_db s) @ [e]\<rparr>"
    "\<And>x. owed_by (pl_db s') x = owed_by (pl_db s) x - (if x = c then al_allocatedAmount a else 0)"
    "\<And>x. debt_by (pl_db s') x = debt_by (pl_db s) x - (if x = c then al_allocatedAmount a else 0)"
    "pl_updated s' = pl_updated s @ [al_documentId a]"
proof -
  note i = inv [unfolded loop_ok_def]
  obtain d e where r: "map_get (pl_docs s) (al_documentId a) = Some d" "e = E i (settle_receivable d a now) a (pl_debt s) (pl_debt s')"
    "pl_debt s' = held_less (pl_debt s) (al_allocatedAmount a)" "receivable_check (settle_receivable d a now)"
    "pl_db s' = (pl_db s)\<lparr>cc_receivables := map_set (al_documentId a) (settle_receivable d a now) (cc_receivables (pl_db s)),
       cc_debts := cc_debts (pl_db s) @ [e]\<rparr>"
    "pl_docs s' = map_set (al_documentId a) (settle_receivable d a now) (pl_docs s)" "pl_updated s' = pl_updated s @ [al_documentId a]"
    using apply_run [OF run] by blast
  have d: "map_get (cc_receivables (pl_db s)) (al_documentId a) = Some d" "rc_customerId d = c" "rc_outstandingAmount d = al_outstandingBefore a" "alloc_ok a"
    using i r(1) by auto
  have a: "0 < al_allocatedAmount a" "al_allocatedAmount a \<le> al_outstandingBefore a" "al_outstandingAfter a = al_outstandingBefore a - al_allocatedAmount a"
    using d(4) by (auto simp: alloc_ok_def)
  have le: "al_allocatedAmount a \<le> pl_debt s" using owed_covers [OF _ d(1)] i a(2) d(2,3) by force
  then show debt: "pl_debt s' = pl_debt s - al_allocatedAmount a" using held_less_exact [OF a(1) le] i r(3) by simp
  show owed: "owed_by (pl_db s') x = owed_by (pl_db s) x - (if x = c then al_allocatedAmount a else 0)" for x
    using d a(3) by (simp add: owed_by_def r(5) map_sum_set owes_def)
  show "debt_by (pl_db s') x = debt_by (pl_db s) x - (if x = c then al_allocatedAmount a else 0)" for x
    using E by (simp add: debt_by_def r(2,5) books_def)
  have dok: "receivable_ok d" using i map_get_in_set [OF d(1)] by force
  have "booked c (al_documentId a) e"
    using E le a(1) i debt by (auto simp: booked_def books_def load_debt_iff r(2))
  moreover have "de_idempotencyKey e = K i" using E by (simp add: books_def r(2))
  moreover have "al_paidAmountAfter a = rc_paidAmount d + al_allocatedAmount a"
    using dok r(4) d(3) a(3) by (auto simp: receivable_ok_def receivable_check_def)
  ultimately show "\<exists>d e. map_get (cc_receivables (pl_db s)) (al_documentId a) = Some d \<and> rc_customerId d = c \<and> rc_outstandingAmount d = al_outstandingBefore a \<and>
       al_paidAmountAfter a = rc_paidAmount d + al_allocatedAmount a \<and> de_idempotencyKey e = K i \<and> booked c (al_documentId a) e \<and>
       pl_db s' = (pl_db s)\<lparr>cc_receivables := map_set (al_documentId a) (settle_receivable d a now) (cc_receivables (pl_db s)), cc_debts := cc_debts (pl_db s) @ [e]\<rparr>"
    using d r(5) by (intro exI [of _ d] exI [of _ e]) simp
  show "pl_updated s' = pl_updated s @ [al_documentId a]" by (rule r(7))
  have "\<forall>(j, b) \<in> set ts. al_documentId b \<noteq> al_documentId a" using i by (auto simp: image_iff)
  moreover have "\<forall>x \<in> set (cc_receivables (pl_db s')). receivable_ok (snd x)"
    using i settle_ok [OF d(4) dok r(4)] by (auto simp: r(5) dest!: set_map_set_elem)
  ultimately show "loop_ok c ts s'"
    using i d(2) owed [of c] debt a(1) unfolding loop_ok_def
    by (auto simp: r(5,6) distinct_map_set split: if_splits)
qed

text \<open>What the whole loop does to the receivables of the customer.\<close>

definition allocated :: "int \<Rightarrow> string \<Rightarrow> CreditDb \<Rightarrow> CreditDb \<Rightarrow> CalculatedAllocationLine \<Rightarrow> bool" where
  "allocated now c db db' a \<longleftrightarrow> (\<exists>d. map_get (cc_receivables db) (al_documentId a) = Some d \<and> rc_customerId d = c \<and>
     rc_outstandingAmount d = al_outstandingBefore a \<and> al_paidAmountAfter a = rc_paidAmount d + al_allocatedAmount a \<and>
     map_get (cc_receivables db') (al_documentId a) = Some (settle_receivable d a now))"

lemma loop_run:
  assumes "loop_ok c ts s" "efold (apply_allocation E now) ts s = Inr s'"
    and E: "books c K E"
  shows "loop_ok c [] s' \<and> pl_debt s' = pl_debt s - paid_off ts \<and> pl_updated s' = pl_updated s @ map (al_documentId \<circ> snd) ts \<and>
    (\<exists>rs new. pl_db s' = (pl_db s)\<lparr>cc_receivables := rs, cc_debts := cc_debts (pl_db s) @ new\<rparr> \<and> map de_idempotencyKey new = map (K \<circ> fst) ts \<and>
       (\<forall>e \<in> set new. \<exists>a \<in> snd ` set ts. booked c (al_documentId a) e)) \<and>
    (\<forall>x. owed_by (pl_db s') x = owed_by (pl_db s) x - (if x = c then paid_off ts else 0) \<and>
       debt_by (pl_db s') x = debt_by (pl_db s) x - (if x = c then paid_off ts else 0)) \<and>
    (\<forall>a \<in> snd ` set ts. allocated now c (pl_db s) (pl_db s') a) \<and>
    (\<forall>k. k \<notin> al_documentId ` snd ` set ts \<longrightarrow> map_get (cc_receivables (pl_db s')) k = map_get (cc_receivables (pl_db s)) k)"
  using assms(1,2)
proof (induction ts arbitrary: s)
  case Nil
  then show ?case by (auto intro: exI [of _ "cc_receivables (pl_db s)"])
next
  case (Cons t ts)
  obtain i a where t: "t = (i, a)" by (cases t)
  obtain s1 where run: "apply_allocation E now (i, a) s = Inr s1" "efold (apply_allocation E now) ts s1 = Inr s'"
    using Cons.prems(2) t by (auto simp: ok_simps)
  note st = apply_step [OF Cons.prems(1) [unfolded t] run(1) E]
  note ih = Cons.IH [OF st(1) run(2)]
  obtain d e where d: "map_get (cc_receivables (pl_db s)) (al_documentId a) = Some d" "rc_customerId d = c" "rc_outstandingAmount d = al_outstandingBefore a"
    "al_paidAmountAfter a = rc_paidAmount d + al_allocatedAmount a" "de_idempotencyKey e = K i" "booked c (al_documentId a) e"
    "pl_db s1 = (pl_db s)\<lparr>cc_receivables := map_set (al_documentId a) (settle_receivable d a now) (cc_receivables (pl_db s)), cc_debts := cc_debts (pl_db s) @ [e]\<rparr>"
    using st(3) by (elim exE conjE) (rule that)
  obtain rs new where n: "pl_db s' = (pl_db s1)\<lparr>cc_receivables := rs, cc_debts := cc_debts (pl_db s1) @ new\<rparr>" "map de_idempotencyKey new = map (K \<circ> fst) ts"
    "\<forall>e \<in> set new. \<exists>a \<in> snd ` set ts. booked c (al_documentId a) e"
    using ih by blast
  have own: "al_documentId a \<notin> al_documentId ` snd ` set ts" using Cons.prems(1) by (simp add: loop_ok_def t image_image)
  have here: "allocated now c (pl_db s) (pl_db s') a"
    unfolding allocated_def using d own ih by (intro exI [of _ d]) simp
  have there: "allocated now c (pl_db s) (pl_db s') b" if "b \<in> snd ` set ts" for b
  proof -
    have "al_documentId b \<noteq> al_documentId a" using own that by (metis imageI)
    then show ?thesis using ih that by (auto simp: allocated_def d(7))
  qed
  have rows: "\<exists>rs new. pl_db s' = (pl_db s)\<lparr>cc_receivables := rs, cc_debts := cc_debts (pl_db s) @ new\<rparr> \<and> map de_idempotencyKey new = map (K \<circ> fst) (t # ts) \<and>
       (\<forall>e \<in> set new. \<exists>a \<in> snd ` set (t # ts). booked c (al_documentId a) e)"
    by (rule exI [of _ rs], rule exI [of _ "e # new"]) (use n d(5-7) in \<open>simp add: t\<close>)
  have sums: "\<forall>x. owed_by (pl_db s') x = owed_by (pl_db s) x - (if x = c then paid_off (t # ts) else 0) \<and>
      debt_by (pl_db s') x = debt_by (pl_db s) x - (if x = c then paid_off (t # ts) else 0)" using ih st(4,5) by (simp add: t)
  have other: "map_get (cc_receivables (pl_db s')) k = map_get (cc_receivables (pl_db s)) k" if "k \<notin> al_documentId ` snd ` set (t # ts)" for k
    using that ih by (simp add: d(7) t)
  show ?case
    by (intro conjI rows sums) (use ih st(2,6) here there other in \<open>simp_all add: t\<close>)
qed

section \<open>What the cashbook leaves alone\<close>

text \<open>The cashbook and the ledger write only their own tables: the rest of the record (\<^verbatim>\<open>more\<close>) stays.\<close>

lemma credit_tables_more:
  fixes db db' :: CreditDb
  assumes "CashbookDb.more db' = CashbookDb.more db"
  shows "cc_profiles db' = cc_profiles db" "cc_auths db' = cc_auths db" "cc_receivables db' = cc_receivables db" "cc_debts db' = cc_debts db"
  using assms by (cases db; cases db'; simp)+

lemma post_more: "postEntryInTx pick mkId db i actor key pre jid rq now = Inr (db', i', e') \<Longrightarrow> CashbookDb.more db' = CashbookDb.more db"
  by (drule post_entry_cases) auto

lemma draft_more: "draft_voucher mkCat db inp i now = Inr (db', e) \<Longrightarrow> CashbookDb.more db' = CashbookDb.more db"
  by (drule draft_run) auto

lemma voucher_more:
  "createAndOptionallyPostVoucherInTx pick mkId mkCat db inp i jid rq now = Inr (db', i', e') \<Longrightarrow> CashbookDb.more db' = CashbookDb.more db"
  by (auto simp: createAndOptionallyPostVoucherInTx_def ok_simps dest!: post_more draft_more split: option.splits if_splits prod.splits)

lemma ensure_account_more: "ensureDefaultCashAccountInTx pickAcc n now db br ty = Inr (db', k, a) \<Longrightarrow> CashbookDb.more db' = CashbookDb.more db"
  by (drule ensure_account_run) auto

lemma reverse_more: "reverseEntry pick mkId t db i actor header why dkey r jid rq now = Inr (db', r', f) \<Longrightarrow> CashbookDb.more db' = CashbookDb.more db"
proof -
  assume run: "reverseEntry pick mkId t db i actor header why dkey r jid rq now = Inr (db', r', f)"
  obtain e where e: "map_get (cb_entries db) i = Some e" using run by (auto simp: reverseEntry_def Let_def split: option.splits)
  show ?thesis
  proof (cases "ke_status e = POSTED")
    case True
    then show ?thesis using reverse_new [OF e True run] by (elim exE conjE) simp
  next
    case False
    then show ?thesis using run e by (auto simp: reverseEntry_def Let_def ok_simps load_entry_iff split: if_splits option.splits)
  qed
qed

lemma categories_more: "CashbookDb.more (ensureDefaultCategoriesInTx mk db) = CashbookDb.more db"
  using categories_only [of mk db] by auto

lemma cash_move_more: "cash_move db db' \<Longrightarrow> CashbookDb.more db' = CashbookDb.more db"
proof (induction rule: cash_move.induct)
  case km_account
  then show ?case by (auto simp: createCashAccount_def Let_def ok_simps dest!: save_account_run split: option.splits if_splits)
next
  case km_update
  then show ?case by (auto simp: updateCashAccount_def Let_def ok_simps dest!: save_account_run split: option.splits)
next
  case km_category
  then show ?case by (auto simp: createCategory_def Let_def ok_simps categories_more split: option.splits if_splits)
next
  case km_list
  then show ?case by (auto simp: listCategories_def Let_def categories_more)
next
  case km_voucher
  then show ?case by (auto simp: createVoucher_def Let_def ok_simps dest!: voucher_more)
next
  case km_approve
  then show ?case by (auto simp: approveEntry_def Let_def ok_simps load_entry_iff dest!: save_entry_run split: option.splits if_splits)
qed (auto dest: ensure_account_more voucher_more post_more reverse_more)

section \<open>The documents of a payment\<close>

lemma load_receivable_iff:
  "load_receivable r = Inr q \<longleftrightarrow> q = r \<and> \<bar>rc_originalAmount r\<bar> \<le> max_safe \<and> \<bar>rc_paidAmount r\<bar> \<le> max_safe \<and> \<bar>rc_adjustedAmount r\<bar> \<le> max_safe \<and>
     \<bar>rc_outstandingAmount r\<bar> \<le> max_safe"
  by (auto simp: load_receivable_def ok_simps finMoney_iff)

lemma load_rows: "emap (\<lambda>(i, r). ebind (load_receivable r) (\<lambda>r'. Inr (i, r'))) rows = Inr docs \<Longrightarrow> docs = rows"
  unfolding emap_Inr_iff by (induction rule: list_all2_induct) (auto simp: ok_simps load_receivable_iff)

lemma map_get_fold_pairs:
  "distinct (map fst xs) \<Longrightarrow> map_get (fold (\<lambda>(i, d). map_set i d) xs m) k = (case map_of xs k of None \<Rightarrow> map_get m k | Some d \<Rightarrow> Some d)"
proof (induction xs arbitrary: m)
  case (Cons x xs)
  obtain i d where x: "x = (i, d)" by (cases x)
  have "map_of xs i = None" using Cons.prems x by (simp add: map_of_eq_None_iff)
  then show ?case using Cons by (auto simp: x split: option.splits)
qed simp

lemma distinct_keys_mset:
  assumes "mset xs = mset ys" "distinct (map f ys)"
  shows "distinct (map f xs)"
proof -
  have "mset (map f xs) = mset (map f ys)" using assms(1) by (simp only: mset_map)
  then show ?thesis using assms(2) mset_eq_imp_distinct_iff by blast
qed

lemma open_rows_set:
  assumes "credit_ok db" "\<And>xs. mset (byId xs) = mset xs"
  shows "distinct (map fst (open_rows byId db tr c))"
    "\<forall>(k, d) \<in> set (open_rows byId db tr c). map_get (cc_receivables db) k = Some d \<and> rc_customerId d = c"
proof -
  have d: "distinct (map fst (cc_receivables db))" using assms(1) by (simp add: credit_ok_def)
  let ?rows = "filter (\<lambda>(i, r). rc_customerId r = c \<and> (if truthy tr then i = the tr
        else rc_status r = RC_OPEN \<or> rc_status r = RC_PARTIALLY_PAID)) (cc_receivables db)"
  have m: "mset (open_rows byId db tr c) = mset ?rows" by (simp add: open_rows_def assms(2))
  have "distinct (map fst ?rows)" using d by (rule distinct_map_filter)
  with m show "distinct (map fst (open_rows byId db tr c))" by (rule distinct_keys_mset)
  have "set (open_rows byId db tr c) = set ?rows" using m by (rule mset_eq_setD)
  then show "\<forall>(k, d) \<in> set (open_rows byId db tr c). map_get (cc_receivables db) k = Some d \<and> rc_customerId d = c"
    using d by (auto simp: map_get_eq_Some)
qed

lemma obligation_sel [simp]:
  "ob_id (obligation x) = fst x" "ob_outstandingAmount (obligation x) = Fin (of_int (rc_outstandingAmount (snd x)))"
  by (cases x, simp add: obligation_def)+

text \<open>The loop starts in a good state.\<close>

lemma payment_loop_starts:
  assumes ok: "credit_ok db" and ids: "\<And>xs. mset (byId xs) = mset xs" and p: "map_get (cc_profiles db) c = Some p" "cp_postedDebt p \<le> max_safe"
    and alloc: "calculateDocumentAllocations pay (map obligation (open_rows byId db tr c)) ex pol kind = Inr r"
    and same: "cc_receivables db' = cc_receivables db"
  shows "loop_ok c (enumerate 0 (pa_allocations r)) \<lparr>pl_db = db', pl_debt = cp_postedDebt p, pl_docs = fold (\<lambda>(i, d). map_set i d) (open_rows byId db tr c) [],
    pl_updated = []\<rparr>"
proof -
  let ?rows = "open_rows byId db tr c"
  note rows = open_rows_set [OF ok ids, of tr c]
  have docs: "map_get (fold (\<lambda>(i, d). map_set i d) ?rows []) k = map_of ?rows k" for k
    using map_get_fold_pairs [OF rows(1), of "[]" k] by (simp add: map_get_def split: option.splits)
  have "distinct (map ob_id (map obligation ?rows))" using rows(1) by (simp add: comp_def)
  note l = alloc_linked [OF alloc this]
  have "\<exists>d. map_of ?rows (al_documentId a) = Some d \<and> rc_outstandingAmount d = al_outstandingBefore a" if a: "a \<in> set (pa_allocations r)" for a
  proof -
    obtain x where x: "x \<in> set ?rows" "al_documentId a = fst x" "parseVnd (Num (ob_outstandingAmount (obligation x))) True False = Inr (al_outstandingBefore a)"
      using bspec [OF l(1) a] unfolding linked_def by (elim exE conjE) auto
    have "map_of ?rows (fst x) = Some (snd x)" using rows(1) x(1) by simp
    then show ?thesis using x(2,3) parse_num [of "rc_outstandingAmount (snd x)" True False "al_outstandingBefore a"] by (simp add: num_arg_def)
  qed
  moreover have "list_all alloc_ok (pa_allocations r)" by (rule allocationsE [OF alloc]) simp
  moreover have "cp_postedDebt p = owed_by db c" using credit_okD(3) [OF ok, of c] p by (simp add: posted_ok_def posted_of_def)
  moreover have "map_get (cc_receivables db) k = Some d \<and> rc_customerId d = c" if "map_of ?rows k = Some d" for k d
    using rows(2) map_of_SomeD [OF that] by blast
  moreover have "map (al_documentId \<circ> snd) (enumerate 0 (pa_allocations r)) = map al_documentId (pa_allocations r)"
    by (metis map_map map_snd_enumerate)
  moreover have "(i, a) \<in> set (enumerate 0 (pa_allocations r)) \<Longrightarrow> a \<in> set (pa_allocations r)" for i a
    by (metis image_eqI map_snd_enumerate list.set_map snd_conv)
  ultimately show ?thesis
    using ok p(2) l(2) by (fastforce simp: loop_ok_def docs same owed_by_def credit_ok_def list_all_iff)
qed

section \<open>A payment\<close>

text \<open>The state a payment settles in: the tables of the credit are those after the profile was locked, the others moved by the cashbook.\<close>

lemma settle_run:
  assumes run: "settle_payment E db c p docs alloc over jid eid now = Inr (db', r)"
    and start: "loop_ok c (enumerate 0 (pa_allocations alloc)) \<lparr>pl_db = db, pl_debt = cp_postedDebt p, pl_docs = fold (\<lambda>(i, d). map_set i d) docs [], pl_updated = []\<rparr>"
    and E: "books c K E"
  obtains p' rs new where "db' = db\<lparr>cc_receivables := rs, cc_debts := cc_debts db @ new, cc_profiles := map_set c p' (cc_profiles db), cc_outbox := cc_outbox db'\<rparr>"
    "cp_postedDebt p' = cp_postedDebt p - sum_list (map al_allocatedAmount (pa_allocations alloc))" "cp_heldCredit p' = cp_heldCredit p"
    "cp_creditLimit p' = cp_creditLimit p" "cp_prepaymentBalance p' = (if over > 0 then fli (cp_prepaymentBalance p + over) else cp_prepaymentBalance p)"
    "map de_idempotencyKey new = map K [0..<length (pa_allocations alloc)]" "pa_allocations alloc \<noteq> []"
    "\<forall>e \<in> set new. \<exists>a \<in> set (pa_allocations alloc). booked c (al_documentId a) e"
    "distinct (map fst rs)" "\<forall>x \<in> set rs. receivable_ok (snd x)"
    "\<forall>x. owed_by db' x = owed_by db x - (if x = c then sum_list (map al_allocatedAmount (pa_allocations alloc)) else 0) \<and>
       debt_by db' x = debt_by db x - (if x = c then sum_list (map al_allocatedAmount (pa_allocations alloc)) else 0)"
    "\<forall>a \<in> set (pa_allocations alloc). allocated now c db db' a"
    "\<forall>k. k \<notin> al_documentId ` set (pa_allocations alloc) \<longrightarrow> map_get (cc_receivables db') k = map_get (cc_receivables db) k"
    "\<not> pr_replayed r" "pr_customerTotalDebtAfter r = cp_postedDebt p'" "pr_prepaymentBalanceAfter r = cp_prepaymentBalance p'" "pr_allocation r = Some alloc"
    "pr_journalId r = jid" "pr_cashbookEntryId r = Some eid"
proof -
  let ?as = "pa_allocations alloc"
  let ?s = "\<lparr>pl_db = db, pl_debt = cp_postedDebt p, pl_docs = fold (\<lambda>(i, d). map_set i d) docs [], pl_updated = []\<rparr>"
  obtain s p' db1 where run1: "efold (apply_allocation E now) (enumerate 0 ?as) ?s = Inr s" "pay_profile p (pl_debt s) over now = Inr p'"
    "save_profile c p' (pl_db s) = Inr db1"
    using run by (auto simp: settle_payment_def ok_simps)
  have st: "efold (apply_allocation E now) (enumerate 0 ?as) ?s = Inr s" "pay_profile p (pl_debt s) over now = Inr p'"
    "save_profile c p' (pl_db s) = Inr db1" "db' = db1\<lparr>cc_outbox := cc_outbox db'\<rparr>" "pl_updated s \<noteq> []"
    "\<not> pr_replayed r" "pr_customerTotalDebtAfter r = cp_postedDebt p'" "pr_prepaymentBalanceAfter r = cp_prepaymentBalance p'" "pr_allocation r = Some alloc"
    "pr_journalId r = jid" "pr_cashbookEntryId r = Some eid"
    using run run1 by (cases "pl_updated s"; auto simp: settle_payment_def ok_simps Let_def publish_def)+
  note l = loop_run [OF start st(1) E]
  have snds: "snd ` set (enumerate 0 ?as) = set ?as" by (metis list.set_map map_snd_enumerate)
  have off: "paid_off (enumerate 0 ?as) = sum_list (map al_allocatedAmount ?as)" unfolding paid_off_def by (metis map_map map_snd_enumerate)
  have keys: "map (K \<circ> fst) (enumerate 0 ?as) = map K [0..<length ?as]" by (metis map_fst_enumerate map_map add_0)
  obtain rs new where n: "pl_db s = db\<lparr>cc_receivables := rs, cc_debts := cc_debts db @ new\<rparr>" "map de_idempotencyKey new = map K [0..<length ?as]"
    "\<forall>e \<in> set new. \<exists>a \<in> set ?as. booked c (al_documentId a) e"
    using l unfolding keys snds by auto
  have ne: "?as \<noteq> []" using l st(5) by auto
  note db1 = save_profile_run [OF st(3), THEN conjunct1]
  have tables: "cc_receivables db' = cc_receivables (pl_db s)" "cc_debts db' = cc_debts (pl_db s)" by (subst st(4), simp add: db1)+
  have sums: "owed_by db' = owed_by (pl_db s)" "debt_by db' = debt_by (pl_db s)" by (simp_all add: fun_eq_iff owed_by_def debt_by_def tables)
  have p': "cp_postedDebt p' = pl_debt s" "cp_heldCredit p' = cp_heldCredit p" "cp_creditLimit p' = cp_creditLimit p"
    "cp_prepaymentBalance p' = (if over > 0 then fli (cp_prepaymentBalance p + over) else cp_prepaymentBalance p)"
    using st(2) by (auto simp: pay_profile_def ok_simps split: if_splits)
  show thesis
  proof (rule that [of p' new rs])
    show "db' = db\<lparr>cc_receivables := rs, cc_debts := cc_debts db @ new, cc_profiles := map_set c p' (cc_profiles db), cc_outbox := cc_outbox db'\<rparr>"
      by (subst st(4)) (simp add: db1 n(1))
    show "\<forall>a \<in> set ?as. allocated now c db db' a" using l snds by (simp add: allocated_def tables)
    show "\<forall>k. k \<notin> al_documentId ` set ?as \<longrightarrow> map_get (cc_receivables db') k = map_get (cc_receivables db) k"
      using l snds by (simp add: tables)
    show "distinct (map fst rs)" "\<forall>x \<in> set rs. receivable_ok (snd x)" using l n(1) by (auto simp: loop_ok_def)
    show "\<forall>x. owed_by db' x = owed_by db x - (if x = c then sum_list (map al_allocatedAmount ?as) else 0) \<and>
       debt_by db' x = debt_by db x - (if x = c then sum_list (map al_allocatedAmount ?as) else 0)" using l off by (simp add: sums)
  qed (use l p' n(2,3) ne off st(6-11) in simp_all)
qed

lemma paying_customer_run:
  assumes "credit_ok db" "paying_customer db tr tc = Inr c"
  shows "c = (if truthy tc then the tc else rc_customerId (the (map_get (cc_receivables db) (the tr))))"
  using assms(2) by (auto simp: paying_customer_def ok_simps load_receivable_iff split: if_splits option.splits)

lemma payment_account_run:
  assumes "payment_account pickAcc n now db dto br m = Inr (db', k, a)"
  shows "CashbookDb.more db' = CashbookDb.more db" "cb_ledger db' = cb_ledger db" "cashbook_ok db \<Longrightarrow> map_get (cb_accounts db) n = None \<Longrightarrow> cashbook_ok db'"
    "cb_entries db' = cb_entries db"
proof -
  consider "db' = db" | ty where "ensureDefaultCashAccountInTx pickAcc n now db br ty = Inr (db', k, a)"
    using assms by (auto simp: payment_account_def ok_simps split: if_splits option.splits)
  then have "CashbookDb.more db' = CashbookDb.more db \<and> cb_ledger db' = cb_ledger db \<and> cb_entries db' = cb_entries db \<and>
      (cashbook_ok db \<longrightarrow> map_get (cb_accounts db) n = None \<longrightarrow> cashbook_ok db')"
    by cases (auto dest: ensure_account_more ensure_account_ok ensure_account_run)
  then show "CashbookDb.more db' = CashbookDb.more db" "cb_ledger db' = cb_ledger db" "cashbook_ok db \<Longrightarrow> map_get (cb_accounts db) n = None \<Longrightarrow> cashbook_ok db'"
    "cb_entries db' = cb_entries db" by auto
qed

text \<open>The run of a payment that is not a replay, step by step.\<close>

lemma payment_new:
  assumes ok: "credit_ok db" and ids: "\<And>xs. mset (byId xs) = mset xs"
    and run: "recordReceivablePayment pickDebt byId pickAcc pick mkId mkCat db tr tc actor header dto is rq now = Inr (db', r)" and new: "\<not> pr_replayed r"
  obtains c db1 p alloc db2 ak acc g j again db3 ek e where
    "payment_entries db (payment_key header dto (pi_key is)) = []" "paying_customer db tr tc = Inr c"
    "lockOrCreateProfileInTx (pi_profile is) now db c = Inr (db1, p)"
    "calculateDocumentAllocations (rp_amount dto) (map obligation (open_rows byId db1 tr c)) (rp_allocations dto)
       (case rp_overpaymentPolicy dto of None \<Rightarrow> REJECT | Some p \<Rightarrow> p) RECEIVABLE = Inr alloc"
    "payment_account pickAcc (pi_account is) now db1 dto (opt_or (rp_branchId dto) (rc_branchId (snd (hd (open_rows byId db1 tr c)))))
       (case rp_paymentMethod dto of None \<Rightarrow> PM_CASH | Some m \<Rightarrow> m) = Inr (db2, ak, acc)"
    "postJournalInTx pick mkId (cb_ledger db2)
       (payment_journal (payment_key header dto (pi_key is)) actor (opt_or (rp_branchId dto) (rc_branchId (snd (hd (open_rows byId db1 tr c))))) (rp_note dto) alloc
         (payment_lines (ka_glAccountCode acc) alloc (pa_overpaymentAmount alloc) (opt_or (rp_branchId dto) (rc_branchId (snd (hd (open_rows byId db1 tr c))))) c
           (rp_note dto) (case rp_paymentMethod dto of None \<Rightarrow> PM_CASH | Some m \<Rightarrow> m))) (pi_journal is) rq now = Inr (g, j, again)"
    "createAndOptionallyPostVoucherInTx pick mkId mkCat (db2\<lparr>cb_ledger := g\<rparr>)
       (payment_voucher (payment_key header dto (pi_key is)) actor (opt_or (rp_branchId dto) (rc_branchId (snd (hd (open_rows byId db1 tr c))))) (rp_note dto) c ak alloc (jn_id j))
       (pi_entry is) (pi_journal is) rq now = Inr (db3, ek, e)"
    "settle_payment (\<lambda>i doc a before after. payment_entry (pi_debt is i) c (al_documentId a) doc a before after
         (case rp_paymentMethod dto of None \<Rightarrow> PM_CASH | Some m \<Rightarrow> m) ek (jn_id j) (payment_key header dto (pi_key is))
         (entry_key (payment_key header dto (pi_key is)) (length (pa_allocations alloc)) i) (rp_note dto) actor now)
       db3 c p (open_rows byId db1 tr c) alloc (pa_overpaymentAmount alloc) (jn_id j) ek now = Inr (db', r)"
proof -
  let ?key = "payment_key header dto (pi_key is)"
  have key: "payment_entries db ?key = []"
    using run new by (auto simp: recordReceivablePayment_def replay_payment_def Let_def ok_simps split: if_splits)
  note run1 = run [unfolded recordReceivablePayment_def Let_def, simplified key, simplified]
  obtain c db1 p docs where a: "paying_customer db tr tc = Inr c" "lockOrCreateProfileInTx (pi_profile is) now db c = Inr (db1, p)"
    "open_documents byId db1 tr c = Inr docs"
    using run1 by (auto simp: ok_simps)
  have docs: "docs = open_rows byId db1 tr c" using load_rows a(3) by (auto simp: open_documents_def)
  let ?docs = "open_rows byId db1 tr c"
  obtain alloc where b: "calculateDocumentAllocations (rp_amount dto) (map obligation ?docs) (rp_allocations dto)
       (case rp_overpaymentPolicy dto of None \<Rightarrow> REJECT | Some p \<Rightarrow> p) RECEIVABLE = Inr alloc" "?docs \<noteq> []"
    using run1 a by (auto simp: ok_simps docs)
  have over: "parseVnd (num_arg (pa_overpaymentAmount alloc)) True False = Inr w \<Longrightarrow> w = pa_overpaymentAmount alloc" for w by (simp add: parse_num)
  show thesis
    using run1 a b docs over that [OF key a(1,2) b(1)] by (auto simp: ok_simps)
qed

text \<open>What a payment does to the credit: the allocated amounts leave the documents, the debt and nothing else; an overpayment is added to the prepayment balance.\<close>

definition payment_applied :: "int \<Rightarrow> CreditDb \<Rightarrow> string \<Rightarrow> CalculatedPaymentAllocationResult \<Rightarrow> CreditDb \<Rightarrow> bool" where
  "payment_applied now db c alloc db' \<longleftrightarrow>
     posted_of db' = (posted_of db)(c := posted_of db c - pa_totalAllocated alloc) \<and>
     prepaid_of db' = (prepaid_of db)(c := if pa_overpaymentAmount alloc > 0 then fli (prepaid_of db c + pa_overpaymentAmount alloc) else prepaid_of db c) \<and>
     held_of db' = held_of db \<and> limit_of db' = limit_of db \<and> cc_auths db' = cc_auths db \<and>
     (\<forall>a \<in> set (pa_allocations alloc). allocated now c db db' a) \<and>
     (\<forall>k. k \<notin> al_documentId ` set (pa_allocations alloc) \<longrightarrow> map_get (cc_receivables db') k = map_get (cc_receivables db) k)"

lemma auth_ok_settled:
  assumes "auth_ok rs a" "\<And>k r. map_get rs k = Some r \<Longrightarrow>
    \<exists>q. map_get rs' k = Some q \<and> rc_originalAmount q = rc_originalAmount r \<and> rc_customerId q = rc_customerId r"
  shows "auth_ok rs' a"
  using assms unfolding auth_ok_def by metis

lemma pay_step:
  assumes ok: "credit_ok db" and p: "map_get (cc_profiles db) c = Some p" "cp_postedDebt p \<le> max_safe" "cc_profiles db' = map_set c p' (cc_profiles db)"
      "cp_postedDebt p' = cp_postedDebt p - v" "cp_heldCredit p' = cp_heldCredit p" "cp_creditLimit p' = cp_creditLimit p" "0 \<le> cp_prepaymentBalance p'"
    and rest: "cashbook_ok db'" "cc_auths db' = cc_auths db"
    and rs: "distinct (map fst (cc_receivables db'))" "\<forall>x \<in> set (cc_receivables db'). receivable_ok (snd x)"
      "\<And>k r. map_get (cc_receivables db) k = Some r \<Longrightarrow>
         \<exists>q. map_get (cc_receivables db') k = Some q \<and> rc_originalAmount q = rc_originalAmount r \<and> rc_customerId q = rc_customerId r"
    and sums: "\<And>x. owed_by db' x = owed_by db x - (if x = c then v else 0)" "\<And>x. debt_by db' x = debt_by db x - (if x = c then v else 0)"
  shows "credit_ok db'"
proof (rule credit_step [OF ok rest(1) rs(1,2) p(3)])
  have posted: "cp_postedDebt p = owed_by db c" "cp_postedDebt p = debt_by db c"
    using credit_okD(3) [OF ok, of c] p(1,2) by (simp_all add: posted_ok_def posted_of_def)
  have "0 \<le> owed_by db' c" unfolding owed_by_def map_sum_def using rs(2)
    by (intro sum_list_nonneg) (auto simp: owes_def receivable_ok_def receivable_check_def)
  then have "0 \<le> cp_postedDebt p'" using p(4) sums(1) posted(1) by simp
  then show "profile_ok p'" using credit_okD(2) [OF ok p(1)] p(5-7) by (simp add: profile_ok_def)
  show "distinct (map fst (cc_auths db'))" using ok by (simp add: rest(2) credit_ok_def)
  show "\<forall>x \<in> set (cc_auths db'). auth_ok (cc_receivables db') (snd x)"
    using ok auth_ok_settled [OF _ rs(3)] by (auto simp: rest(2) credit_ok_def)
  show "cp_heldCredit p' = map_sum (held_by credit_demand c) (cc_auths db')"
    using credit_holds.reserved_held [OF ok, of c] p(1,5) by (simp add: rest(2) held_of_def)
  show "map_sum (held_by credit_demand x) (cc_auths db') = held_of db x" for x using credit_holds.reserved_held [OF ok, of x] by (simp add: rest(2))
  show "cp_postedDebt p' = owed_by db' c \<and> cp_postedDebt p' = debt_by db' c" using p(4) posted by (simp add: sums)
  show "owed_by db' x = owed_by db x \<and> debt_by db' x = debt_by db x" if "x \<noteq> c" for x using that by (simp add: sums)
qed

lemma payment_run:
  assumes ok: "credit_ok db" and ids: "\<And>xs. mset (byId xs) = mset xs" and acc: "map_get (cb_accounts db) (pi_account is) = None"
    and run: "recordReceivablePayment pickDebt byId pickAcc pick mkId mkCat db tr tc actor header dto is rq now = Inr (db', r)" and new: "\<not> pr_replayed r"
  obtains c alloc es where "paying_customer db tr tc = Inr c" "pr_allocation r = Some alloc" "credit_ok db'" "payment_applied now db c alloc db'"
    "calculateDocumentAllocations (rp_amount dto) (map obligation (open_rows byId db tr c)) (rp_allocations dto)
       (case rp_overpaymentPolicy dto of None \<Rightarrow> REJECT | Some p \<Rightarrow> p) RECEIVABLE = Inr alloc"
    "cc_debts db' = cc_debts db @ es" "payment_entries db (payment_key header dto (pi_key is)) = []" "map_get (cc_profiles db') c \<noteq> None"
    "map de_idempotencyKey es = map (entry_key (payment_key header dto (pi_key is)) (length (pa_allocations alloc))) [0..<length (pa_allocations alloc)]"
    "pa_allocations alloc \<noteq> []" "\<forall>e \<in> set es. \<exists>k. booked c k e \<and> map_get (cc_receivables db') k \<noteq> None"
    "pr_customerTotalDebtAfter r = posted_of db' c" "pr_prepaymentBalanceAfter r = prepaid_of db' c"
proof (rule payment_new [OF ok ids run new])
  fix c ak ek and db1 db2 db3 :: CreditDb and p :: CreditProfile and alloc :: CalculatedPaymentAllocationResult and acc' :: CashAccount
    and g :: LedgerDb and j :: FinancialJournal and again and e :: CashbookEntry
  let ?key = "payment_key header dto (pi_key is)" and ?m = "case rp_paymentMethod dto of None \<Rightarrow> PM_CASH | Some m \<Rightarrow> m"
  let ?br = "opt_or (rp_branchId dto) (rc_branchId (snd (hd (open_rows byId db1 tr c))))"
  let ?E = "\<lambda>i doc a before after. payment_entry (pi_debt is i) c (al_documentId a) doc a before after ?m ek (jn_id j) ?key
         (entry_key ?key (length (pa_allocations alloc)) i) (rp_note dto) actor now"
  assume a: "payment_entries db ?key = []" "paying_customer db tr tc = Inr c" "lockOrCreateProfileInTx (pi_profile is) now db c = Inr (db1, p)"
    "calculateDocumentAllocations (rp_amount dto) (map obligation (open_rows byId db1 tr c)) (rp_allocations dto)
       (case rp_overpaymentPolicy dto of None \<Rightarrow> REJECT | Some p \<Rightarrow> p) RECEIVABLE = Inr alloc"
    "payment_account pickAcc (pi_account is) now db1 dto ?br ?m = Inr (db2, ak, acc')"
    "postJournalInTx pick mkId (cb_ledger db2) (payment_journal ?key actor ?br (rp_note dto) alloc
         (payment_lines (ka_glAccountCode acc') alloc (pa_overpaymentAmount alloc) ?br c (rp_note dto) ?m)) (pi_journal is) rq now = Inr (g, j, again)"
    "createAndOptionallyPostVoucherInTx pick mkId mkCat (db2\<lparr>cb_ledger := g\<rparr>) (payment_voucher ?key actor ?br (rp_note dto) c ak alloc (jn_id j))
       (pi_entry is) (pi_journal is) rq now = Inr (db3, ek, e)"
    "settle_payment ?E db3 c p (open_rows byId db1 tr c) alloc (pa_overpaymentAmount alloc) (jn_id j) ek now = Inr (db', r)"
  note l = lock_ok [OF ok a(3)] lock_cases [OF a(3)]
  note t = allocation_totals [OF a(4)]
  note pa = payment_account_run [OF a(5)]
  have more: "CashbookDb.more db3 = CashbookDb.more db1" using voucher_more [OF a(7)] pa(1) by simp
  note tables = credit_tables_more [OF more]
  have "cashbook_ok db2" using pa(3) acc credit_okD(1) [OF l(1)] by (simp add: l(3) create_profile_def)
  then have "cashbook_ok (db2\<lparr>cb_ledger := g\<rparr>)" using post_ok a(6) cashbook_okD(1) cashbook_ok_ledger by blast
  then have cash3: "cashbook_ok db3" by (rule voucher_ok [OF _ a(7)])
  have start: "loop_ok c (enumerate 0 (pa_allocations alloc)) \<lparr>pl_db = db3, pl_debt = cp_postedDebt p,
      pl_docs = fold (\<lambda>(i, d). map_set i d) (open_rows byId db1 tr c) [], pl_updated = []\<rparr>"
    by (rule payment_loop_starts [OF l(1) ids l(4,5) a(4) tables(3)])
  have E: "books c (entry_key ?key (length (pa_allocations alloc))) ?E" by (simp add: books_def payment_entry_def)
  have same: "cc_receivables db1 = cc_receivables db" "cc_debts db1 = cc_debts db" "cc_auths db1 = cc_auths db" by (simp_all add: l(3) create_same)
  obtain p' rs es where s: "db' = db3\<lparr>cc_receivables := rs, cc_debts := cc_debts db3 @ es, cc_profiles := map_set c p' (cc_profiles db3), cc_outbox := cc_outbox db'\<rparr>"
    "cp_postedDebt p' = cp_postedDebt p - pa_totalAllocated alloc" "cp_heldCredit p' = cp_heldCredit p" "cp_creditLimit p' = cp_creditLimit p"
    "cp_prepaymentBalance p' = (if pa_overpaymentAmount alloc > 0 then fli (cp_prepaymentBalance p + pa_overpaymentAmount alloc) else cp_prepaymentBalance p)"
    "map de_idempotencyKey es = map (entry_key ?key (length (pa_allocations alloc))) [0..<length (pa_allocations alloc)]" "pa_allocations alloc \<noteq> []"
    "\<forall>e \<in> set es. \<exists>a \<in> set (pa_allocations alloc). booked c (al_documentId a) e" "distinct (map fst rs)" "\<forall>x \<in> set rs. receivable_ok (snd x)"
    "\<forall>x. owed_by db' x = owed_by db3 x - (if x = c then pa_totalAllocated alloc else 0) \<and> debt_by db' x = debt_by db3 x - (if x = c then pa_totalAllocated alloc else 0)"
    "\<forall>a \<in> set (pa_allocations alloc). allocated now c db3 db' a"
    "\<forall>k. k \<notin> al_documentId ` set (pa_allocations alloc) \<longrightarrow> map_get (cc_receivables db') k = map_get (cc_receivables db3) k"
    "pr_customerTotalDebtAfter r = cp_postedDebt p'" "pr_prepaymentBalanceAfter r = cp_prepaymentBalance p'" "pr_allocation r = Some alloc"
    by (rule settle_run [OF a(8) start E, unfolded t(1)])
  have new_tables: "cc_receivables db' = rs" "cc_debts db' = cc_debts db1 @ es" "cc_profiles db' = map_set c p' (cc_profiles db1)" "cc_auths db' = cc_auths db1"
    by (subst s(1), simp add: tables)+
  have rows: "\<forall>a \<in> set (pa_allocations alloc). allocated now c db db' a"
    "\<forall>k. k \<notin> al_documentId ` set (pa_allocations alloc) \<longrightarrow> map_get (cc_receivables db') k = map_get (cc_receivables db) k"
    using s(12,13) by (simp_all add: allocated_def tables(3) same)
  have sums: "owed_by db3 = owed_by db1" "debt_by db3 = debt_by db1" by (simp_all add: fun_eq_iff owed_by_def debt_by_def tables)
  have kept: "\<exists>q. map_get (cc_receivables db') k = Some q \<and> rc_originalAmount q = rc_originalAmount d \<and> rc_customerId q = rc_customerId d"
    if "map_get (cc_receivables db) k = Some d" for k d
    using rows that by (cases "k \<in> al_documentId ` set (pa_allocations alloc)") (auto simp: allocated_def)
  have okdb: "credit_ok db'"
  proof (rule pay_step [OF l(1) l(4,5) new_tables(3) s(2-4) _ _ new_tables(4)])
    show "cashbook_ok db'" by (subst s(1)) (simp add: cash3)
    show "0 \<le> cp_prepaymentBalance p'" using l(2) t(3) s(5) by (auto simp: profile_ok_def intro: fli_lower)
  qed (use s(9-11) kept sums in \<open>auto simp: new_tables(1) same\<close>)
  have eqs: "posted_of db1 = posted_of db" "prepaid_of db1 = prepaid_of db" "held_of db1 = held_of db" "limit_of db1 = limit_of db"
    by (simp_all add: l(3) create_same)
  have at: "posted_of db' x = (if x = c then cp_postedDebt p' else posted_of db1 x)" "prepaid_of db' x = (if x = c then cp_prepaymentBalance p' else prepaid_of db1 x)"
    "held_of db' x = (if x = c then cp_heldCredit p' else held_of db1 x)" "limit_of db' x = (if x = c then cp_creditLimit p' else limit_of db1 x)" for x
    by (simp_all add: posted_of_def prepaid_of_def held_of_def limit_of_def new_tables(3))
  have "payment_applied now db c alloc db'"
    using rows l(6-9) s(2-5) unfolding payment_applied_def by (simp add: fun_eq_iff at eqs new_tables(4) same(3))
  moreover have "open_rows byId db1 = open_rows byId db" by (simp add: fun_eq_iff open_rows_def same)
  moreover have "\<exists>k. booked c k e \<and> map_get (cc_receivables db') k \<noteq> None" if "e \<in> set es" for e
    using s(8) rows(1) that unfolding allocated_def by (metis option.distinct(1))
  ultimately show thesis
    using a(1,2,4) s(6,7,14-16) okdb by (intro that [of c alloc es]) (auto simp: new_tables same posted_of_def prepaid_of_def)
qed

end
