(* ===== verification/CreditBook.thy ===== *)
theory CreditBook
  imports ReceivablePayments
begin

text \<open>
  The state machine of a customer's credit and its properties: every transaction of the credit authorization, receivables, cash account, cashbook and
  journal services is a move of \<open>credit_move\<close>, \<open>credit_reach\<close> are the states they reach from empty tables, and \<open>credit_ok\<close> holds in all of them.
\<close>

section \<open>Reachable states\<close>

text \<open>
  One rule per transaction of the credit, receivables, cash account, cashbook and journal services. The sweep and the payment read their rows in
  some order that keeps each row once, and a new cash account gets a new id.
\<close>

inductive credit_move :: "CreditDb \<Rightarrow> CreditDb \<Rightarrow> bool" where
  cm_profile: "getCreditProfile n now db c = Inr (db', r) \<Longrightarrow> credit_move db db'"
| cm_limit: "updateCreditLimit n now db c l = Inr (db', r) \<Longrightarrow> credit_move db db'"
| cm_authorize: "authorizeCredit H db actor header dto pid n now = Inr (db', r, replayed) \<Longrightarrow> credit_move db db'"
| cm_get: "getAuthorizationById db i pid now = Inr (db', r) \<Longrightarrow> credit_move db db'"
| cm_get_by_key: "getAuthorizationByIdempotencyKey db k pid now = Inr (db', r) \<Longrightarrow> credit_move db db'"
| cm_commit: "commitAuthorization pick mkId db i actor cdto ids rq now = Inr (db', r, replayed) \<Longrightarrow> credit_move db db'"
| cm_release: "releaseAuthorization db i actor why who pid now = Inr (db', r, replayed) \<Longrightarrow> credit_move db db'"
| cm_expire: "expireStaleAuthorizations order db locked pid now = Inr (db', n) \<Longrightarrow> (\<And>xs. mset (order xs) = mset xs) \<Longrightarrow> credit_move db db'"
| cm_recognize: "recognizeReceivable pickRow pick mkId db actor header rdto ids rq now = Inr (db', kq, debt, replayed) \<Longrightarrow> credit_move db db'"
| cm_pay: "recordReceivablePayment pickDebt byId pickAcc pick mkId mkCat db tr tc actor header pdto is rq now = Inr (db', res) \<Longrightarrow>
    (\<And>xs. mset (byId xs) = mset xs) \<Longrightarrow> map_get (cb_accounts db) (pi_account is) = None \<Longrightarrow> credit_move db db'"
| cm_summary: "getCustomerDebtSummary newest newestDebt n now db c = Inr (db', sm) \<Longrightarrow> credit_move db db'"
| cm_cash: "cash_move db db' \<Longrightarrow> credit_move db db'"

definition empty_credit :: CreditDb where
  "empty_credit = \<lparr>cb_ledger = empty_ledger, cb_accounts = [], cb_categories = [], cb_entries = [], cb_outbox = [], cc_profiles = [], cc_auths = [],
     cc_receivables = [], cc_debts = [], cc_outbox = []\<rparr>"

inductive credit_reach :: "CreditDb \<Rightarrow> bool" where
  cr_empty: "credit_reach empty_credit"
| cr_move: "credit_reach db \<Longrightarrow> credit_move db db' \<Longrightarrow> credit_reach db'"

lemma limit_ok:
  assumes ok: "credit_ok db" and run: "updateCreditLimit n now db c l = Inr (db', r)"
  shows "credit_ok db'"
proof -
  obtain v db1 p where a: "parseVnd (Num l) True False = Inr v" "lockOrCreateProfileInTx n now db c = Inr (db1, p)"
    "save_profile c (p\<lparr>cp_creditLimit := v, cp_version := cp_version p + 1, cp_updatedAt := now\<rparr>) db1 = Inr db'"
    using run by (auto simp: updateCreditLimit_def ok_simps Let_def)
  note lk = lock_ok [OF ok a(2)] lock_cases [OF a(2)]
  note db' = save_profile_run [OF a(3), THEN conjunct1]
  have v: "0 \<le> v" "v \<le> max_safe" using finVnd_bounds [OF a(1)] by auto
  have same: "owed_by db' = owed_by db1" "debt_by db' = debt_by db1" by (simp_all add: db' fun_eq_iff owed_by_def debt_by_def)
  show ?thesis
  proof (rule credit_step [OF lk(1), where c = c])
    show "cc_profiles db' = map_set c (p\<lparr>cp_creditLimit := v, cp_version := cp_version p + 1, cp_updatedAt := now\<rparr>) (cc_profiles db1)" by (simp add: db')
    show "cashbook_ok db'" using credit_okD(1) [OF lk(1)] by (simp add: db')
    show "map_sum (held_by credit_demand x) (cc_auths db') = held_of db1 x" for x using credit_holds.reserved_held [OF lk(1), of x] by (simp add: db')
    show "cp_heldCredit (p\<lparr>cp_creditLimit := v, cp_version := cp_version p + 1, cp_updatedAt := now\<rparr>) = map_sum (held_by credit_demand c) (cc_auths db')"
      using credit_holds.reserved_held [OF lk(1), of c] lk(4) by (simp add: db' held_of_def)
    show "cp_postedDebt (p\<lparr>cp_creditLimit := v, cp_version := cp_version p + 1, cp_updatedAt := now\<rparr>) = owed_by db' c \<and>
        cp_postedDebt (p\<lparr>cp_creditLimit := v, cp_version := cp_version p + 1, cp_updatedAt := now\<rparr>) = debt_by db' c"
      using credit_okD(3) [OF lk(1), of c] lk(4,5) by (simp add: same posted_ok_def posted_of_def)
  qed (use lk(1,2) v in \<open>auto simp: db' profile_ok_def credit_ok_def owed_by_def debt_by_def\<close>)
qed

lemma settle_new: "settle_payment E db c p docs alloc over jid eid now = Inr (db', r) \<Longrightarrow> \<not> pr_replayed r"
proof -
  assume run: "settle_payment E db c p docs alloc over jid eid now = Inr (db', r)"
  then obtain s where "efold (apply_allocation E now) (enumerate 0 (pa_allocations alloc))
      \<lparr>pl_db = db, pl_debt = cp_postedDebt p, pl_docs = fold (\<lambda>(i, d). map_set i d) docs [], pl_updated = []\<rparr> = Inr s"
    by (auto simp: settle_payment_def ok_simps)
  then show ?thesis using run by (cases "pl_updated s") (auto simp: settle_payment_def ok_simps Let_def)
qed

lemma collect_ok:
  assumes ok: "credit_ok db" and ids: "\<And>xs. mset (byId xs) = mset xs" and acc: "map_get (cb_accounts db) (pi_account is) = None"
    and run: "recordReceivablePayment pickDebt byId pickAcc pick mkId mkCat db tr tc actor header dto is rq now = Inr (db', r)"
  shows "credit_ok db'"
proof (cases "pr_replayed r")
  case False
  then show ?thesis using payment_run [OF ok ids acc run] by blast
next
  case True
  have "payment_entries db (payment_key header dto (pi_key is)) \<noteq> []"
  proof
    assume "payment_entries db (payment_key header dto (pi_key is)) = []"
    then show False using run True by (auto simp: recordReceivablePayment_def Let_def ok_simps dest: settle_new)
  qed
  then obtain c p where "lockOrCreateProfileInTx (pi_profile is) now db c = Inr (db', p)"
    using run by (auto simp: recordReceivablePayment_def replay_payment_def Let_def ok_simps)
  then show ?thesis using lock_ok(1) [OF ok] by blast
qed

lemma cash_move_credit_ok:
  assumes "credit_ok db" "cash_move db db'"
  shows "credit_ok db'"
proof -
  note t = credit_tables_more [OF cash_move_more [OF assms(2)]]
  have "cashbook_ok db'" using cash_move_ok [OF assms(2)] credit_okD(1) [OF assms(1)] by blast
  then show ?thesis using assms(1) by (simp add: credit_ok_def posted_ok_def held_of_def posted_of_def owed_by_def debt_by_def t)
qed

lemma credit_move_ok: "credit_move db db' \<Longrightarrow> credit_ok db \<Longrightarrow> credit_ok db'"
proof (induction rule: credit_move.induct)
  case (cm_expire order db locked pid now db' n)
  note rows = stale_rows [where order = order and locked = locked and now = now, OF cm_expire(3) cm_expire(2)]
  show ?case
    using credit_expire_loop_ok [OF cm_expire(3) rows] cm_expire(1) by (auto simp: expireStaleAuthorizations_def Let_def ok_simps)
next
  case cm_profile
  then show ?case by (auto simp: getCreditProfile_def ok_simps intro: lock_ok)
next
  case cm_get
  then show ?case by (auto simp: getAuthorizationById_def ok_simps intro: lock_ok split: option.splits)
next
  case cm_get_by_key
  then show ?case by (auto simp: getAuthorizationByIdempotencyKey_def ok_simps intro: lock_ok split: option.splits)
next
  case cm_summary
  then show ?case by (auto simp: getCustomerDebtSummary_def ok_simps intro: lock_ok)
next
  case cm_release
  then show ?case using release_cases [OF cm_release(2,1)] by (auto simp: gave_back_def intro: lock_ok split: if_splits)
qed (blast intro: limit_ok authorize_ok commit_ok recognize_ok collect_ok cash_move_credit_ok)+

lemma credit_reach_ok: "credit_reach db \<Longrightarrow> credit_ok db"
proof (induction rule: credit_reach.induct)
  case cr_empty
  have "ledger_ok empty_ledger" using ledger_reach_ok lr_empty by blast
  then show ?case
    by (simp add: credit_ok_def empty_credit_def cashbook_ok_def cash_balance_def cash_total_def held_of_def posted_ok_def posted_of_def owed_by_def debt_by_def max_safe_def)
qed (simp add: credit_move_ok)

section \<open>A sample customer\<close>

definition credit_sale :: CreateCreditAuthorizationDto where
  "credit_sale = \<lparr>cd_customerId = ''C1'', cd_amount = Fin 500, cd_orderId = Some ''O1'', cd_branchId = Some ''B1'', cd_callerService = None,
     cd_ttlSeconds = None, cd_overrideApprovedBy = None, cd_overrideReason = None, cd_idempotencyKey = None\<rparr>"

definition credit_held :: auth_result where
  "credit_held = authorizeCredit (\<lambda>_. ''h'') empty_credit ''ann'' (Some ''k1'') credit_sale ''P1'' ''A1'' 0"

definition credit_sold :: auth_result where
  "credit_sold = ebind credit_held (\<lambda>(db, _). commitAuthorization hd id db ''A1'' ''ann''
     \<lparr>cm_orderId = None, cm_branchId = None, cm_actorId = None\<rparr>
     \<lparr>id_profile = ''P2'', id_journal = ''J1'', id_receivable = ''R1'', id_debt = ''D1''\<rparr> None 1)"

definition debt_payment :: RecordReceivablePaymentDto where
  "debt_payment = \<lparr>rp_amount = Fin 300, rp_paymentMethod = None, rp_cashAccountId = None, rp_branchId = None, rp_overpaymentPolicy = None, rp_allocations = [],
     rp_note = None, rp_idempotencyKey = Some ''pay-1''\<rparr>"

definition payment_id_set :: payment_ids where
  "payment_id_set = \<lparr>pi_key = ''x'', pi_profile = ''P3'', pi_account = ''K1'', pi_journal = ''J2'', pi_entry = ''E1'', pi_debt = (\<lambda>i. ''D2'')\<rparr>"

definition credit_paid :: "(CreditDb \<times> ReceivablePaymentResult) fin_result" where
  "credit_paid = ebind credit_sold (\<lambda>(db, _). recordReceivablePayment hd id hd hd id id db None (Some ''C1'') ''bob'' None debt_payment payment_id_set None 2)"

lemma credit_held_reach: "credit_held = Inr (db, r, again) \<Longrightarrow> credit_reach db"
  unfolding credit_held_def by (rule cr_move [OF cr_empty cm_authorize])

lemma credit_sold_reach: "credit_sold = Inr (db, r, again) \<Longrightarrow> credit_reach db"
proof -
  assume "credit_sold = Inr (db, r, again)"
  then obtain db0 r0 again0 where h: "credit_held = Inr (db0, r0, again0)" and
    c: "commitAuthorization hd id db0 ''A1'' ''ann'' \<lparr>cm_orderId = None, cm_branchId = None, cm_actorId = None\<rparr>
      \<lparr>id_profile = ''P2'', id_journal = ''J1'', id_receivable = ''R1'', id_debt = ''D1''\<rparr> None 1 = Inr (db, r, again)"
    unfolding credit_sold_def ebind_eq_Inr by auto
  then show ?thesis by (intro cr_move [OF credit_held_reach [OF h] cm_commit [OF c]])
qed

lemma credit_held_state: "case credit_held of Inl _ \<Rightarrow> False | Inr (db, r, again) \<Rightarrow> \<not> again \<and> held_of db ''C1'' = 500 \<and> posted_of db ''C1'' = 0 \<and> readable db ''C1'' \<and>
    version_of db ''C1'' = 2 \<and> limit_of db ''C1'' = 2000000 \<and> map_get (cc_auths db) ''A1'' \<noteq> None \<and>
    au_state (the (map_get (cc_auths db) ''A1'')) = CR_HELD \<and> au_customerId (the (map_get (cc_auths db) ''A1'')) = ''C1'' \<and>
    au_authorizedAmount (the (map_get (cc_auths db) ''A1'')) = 500 \<and> auth_by_key db ''k2'' = None \<and>
    map (\<lambda>(i, a). (i, au_customerId a, au_authorizedAmount a)) (stale db [] 900000) = [(''A1'', ''C1'', 500)]"
  by code_simp

lemma credit_sold_state: "case credit_sold of Inl _ \<Rightarrow> False | Inr (db, r, again) \<Rightarrow> \<not> again \<and> held_of db ''C1'' = 0 \<and> posted_of db ''C1'' = 500 \<and>
    readable db ''C1'' \<and> map_get (cc_profiles db) ''C1'' \<noteq> None \<and> map_get (cb_accounts db) ''K1'' = None"
  by code_simp

lemma credit_paid_state: "case credit_paid of Inl _ \<Rightarrow> False | Inr (db, r) \<Rightarrow> \<not> pr_replayed r \<and> posted_of db ''C1'' = 200 \<and>
    readable db ''C1'' \<and> cash_balance db ''K1'' = 300"
  by code_simp

lemma credit_held_run:
  obtains db r a where "credit_held = Inr (db, r, False)" "credit_reach db" "held_of db ''C1'' = 500" "posted_of db ''C1'' = 0" "readable db ''C1''"
    "version_of db ''C1'' = 2" "limit_of db ''C1'' = 2000000" "map_get (cc_auths db) ''A1'' = Some a" "au_state a = CR_HELD" "au_customerId a = ''C1''"
    "au_authorizedAmount a = 500" "auth_by_key db ''k2'' = None"
    "map (\<lambda>(i, a). (i, au_customerId a, au_authorizedAmount a)) (stale db [] 900000) = [(''A1'', ''C1'', 500)]"
  using credit_held_state credit_held_reach by (auto split: sum.splits prod.splits)

section \<open>Properties\<close>

text \<open>
  C23: what a customer owes and holds is exact: in every reachable state the held credit is the sum of the open authorizations, a posted debt that is a safe integer is both the
  sum of what the customer's receivables still carry and the sum of the debt ledger, every receivable splits its amount into what is
  paid and what is outstanding and is paid exactly when nothing is outstanding, and every committed authorization became a receivable of its amount and customer.
\<close>

theorem credit_exposure_exact:
  assumes "credit_reach db"
  shows "held_of db c = map_sum (\<lambda>a. if au_state a = CR_HELD \<and> au_customerId a = c then au_authorizedAmount a else 0) (cc_auths db) \<and>
    (posted_of db c \<le> max_safe \<longrightarrow> posted_of db c = map_sum (\<lambda>r. if rc_customerId r = c then rc_outstandingAmount r else 0) (cc_receivables db) \<and>
      posted_of db c = sum_list (map de_amountDelta (filter (\<lambda>d. de_customerId d = c) (cc_debts db)))) \<and>
    (\<forall>k r. map_get (cc_receivables db) k = Some r \<longrightarrow> rc_paidAmount r + rc_outstandingAmount r = rc_originalAmount r \<and> 0 \<le> rc_paidAmount r \<and>
      0 \<le> rc_outstandingAmount r \<and> (rc_status r = RC_PAID \<longleftrightarrow> rc_outstandingAmount r = 0)) \<and>
    (\<forall>i a. map_get (cc_auths db) i = Some a \<and> au_state a = CR_COMMITTED \<longrightarrow> (\<exists>k r. au_committedReceivableId a = Some k \<and>
      map_get (cc_receivables db) k = Some r \<and> rc_originalAmount r = au_authorizedAmount a \<and> rc_customerId r = au_customerId a))"
proof -
  note ok = credit_reach_ok [OF assms]
  have "held_by credit_demand c = (\<lambda>a. if au_state a = CR_HELD \<and> au_customerId a = c then au_authorizedAmount a else 0)"
    by (auto simp: fun_eq_iff held_by_demand)
  then have "held_of db c = map_sum (\<lambda>a. if au_state a = CR_HELD \<and> au_customerId a = c then au_authorizedAmount a else 0) (cc_auths db)"
    using credit_holds.reserved_held [OF ok, of c] by simp
  moreover have "owes c = (\<lambda>r. if rc_customerId r = c then rc_outstandingAmount r else 0)" by (simp add: fun_eq_iff owes_def)
  then have "posted_of db c \<le> max_safe \<longrightarrow> posted_of db c = map_sum (\<lambda>r. if rc_customerId r = c then rc_outstandingAmount r else 0) (cc_receivables db) \<and>
      posted_of db c = sum_list (map de_amountDelta (filter (\<lambda>d. de_customerId d = c) (cc_debts db)))"
    using credit_okD(3) [OF ok, of c] by (simp add: posted_ok_def owed_by_def debt_by_def)
  moreover have "rc_paidAmount r + rc_outstandingAmount r = rc_originalAmount r \<and> 0 \<le> rc_paidAmount r \<and>
      0 \<le> rc_outstandingAmount r \<and> (rc_status r = RC_PAID \<longleftrightarrow> rc_outstandingAmount r = 0)" if "map_get (cc_receivables db) k = Some r" for k r
    using credit_okD(6) [OF ok that] by (auto simp: receivable_ok_def receivable_check_def split: if_splits)
  moreover have "\<exists>k r. au_committedReceivableId a = Some k \<and> map_get (cc_receivables db) k = Some r \<and> rc_originalAmount r = au_authorizedAmount a \<and>
      rc_customerId r = au_customerId a" if "map_get (cc_auths db) i = Some a \<and> au_state a = CR_COMMITTED" for i a
    using credit_okD(4) [OF ok, of i a] that by (simp add: auth_ok_def)
  ultimately show ?thesis by blast
qed

theorem credit_exposure_exact_witness:
  "\<exists>db r again. credit_sold = Inr (db, r, again) \<and> posted_of db ''C1'' = 500 \<and>
     map_sum (\<lambda>r. if rc_customerId r = ''C1'' then rc_outstandingAmount r else 0) (cc_receivables db) = 500 \<and>
     map_sum (\<lambda>a. if au_state a = CR_HELD \<and> au_customerId a = ''C1'' then au_authorizedAmount a else 0) (cc_auths db) = 0"
proof -
  obtain db r again where s: "credit_sold = Inr (db, r, again)" "held_of db ''C1'' = 0" "posted_of db ''C1'' = 500"
    using credit_sold_state by (auto split: sum.splits prod.splits)
  have "(500 :: int) \<le> max_safe" by (simp add: max_safe_def)
  then show ?thesis
    by - (rule exI [of _ db], rule exI [of _ r], rule exI [of _ again],
      use s credit_exposure_exact [OF credit_sold_reach [OF s(1)], of "''C1''"] in simp)
qed

lemma receivable_loads: "receivable_ok r \<Longrightarrow> load_receivable r = Inr r"
  by (auto simp: receivable_ok_def receivable_check_def load_receivable_iff)

lemma owes_filter: "sum_list (map (owes c \<circ> snd) (filter (\<lambda>(_, r). rc_customerId r = c) rs)) = map_sum (owes c) rs"
  unfolding map_sum_def by (induction rs) (auto simp: owes_def)

text \<open>The fold over the customer's rows adds what they owe: a paid row is skipped and owes nothing.\<close>

lemma sum_open_run:
  assumes "\<forall>x \<in> set rows. receivable_ok (snd x) \<and> rc_customerId (snd x) = c" "0 \<le> acc"
    "acc + sum_list (map (owes c \<circ> snd) rows) \<le> max_safe"
  shows "efold (\<lambda>(_, r) sum. if rc_status r = RC_OPEN \<or> rc_status r = RC_PARTIALLY_PAID
      then ebind (parseVnd (num_arg (rc_outstandingAmount r)) True False) (\<lambda>v. Inr (fli (sum + v))) else Inr sum) rows acc
    = Inr (acc + sum_list (map (owes c \<circ> snd) rows))"
  using assms
proof (induction rows arbitrary: acc)
  case (Cons x rows)
  obtain k r where x: "x = (k, r)" by (cases x)
  have r: "receivable_ok r" "rc_customerId r = c" using Cons.prems(1) x by auto
  then have out: "0 \<le> rc_outstandingAmount r" "owes c r = rc_outstandingAmount r" by (auto simp: owes_def receivable_ok_def receivable_check_def)
  have "0 \<le> sum_list (map (owes c \<circ> snd) rows)"
    using Cons.prems(1) by (intro sum_list_nonneg) (auto simp: owes_def receivable_ok_def receivable_check_def)
  then have le: "acc + rc_outstandingAmount r \<le> max_safe" using Cons.prems(3) out by (simp add: x comp_def)
  have fl: "fli (acc + rc_outstandingAmount r) = acc + rc_outstandingAmount r" using le Cons.prems(2) out(1) by (intro safe_exact) linarith
  have parse: "parseVnd (num_arg (rc_outstandingAmount r)) True False = Inr (rc_outstandingAmount r)" using le Cons.prems(2) out(1) by (simp add: parse_num)
  have st: "(if rc_status r = RC_OPEN \<or> rc_status r = RC_PARTIALLY_PAID
      then ebind (parseVnd (num_arg (rc_outstandingAmount r)) True False) (\<lambda>v. Inr (fli (acc + v))) else Inr acc) = Inr (acc + rc_outstandingAmount r)"
    using r(1) fl parse by (auto simp: receivable_ok_def split: if_splits)
  show ?case using Cons.IH [of "acc + rc_outstandingAmount r"] Cons.prems out st by (simp add: x)
qed simp

text \<open>
  The nightly check of the receivables subledger never reports a customer: in every reachable state, for every profile that can be read
  and in whatever order the rows come, the sum of the open receivables it computes equals the posted debt.
\<close>

theorem subledger_check_clean:
  assumes "credit_reach db" "map_get (cc_profiles db) c = Some p" "readable db c" "\<And>xs. mset (anyOrder xs) = mset xs"
  shows "subledger_check anyOrder db c p = Inr None"
proof -
  note ok = credit_reach_ok [OF assms(1)]
  let ?rows = "filter (\<lambda>(_, r). rc_customerId r = c) (cc_receivables db)"
  have m: "mset (anyOrder ?rows) = mset ?rows" by (rule assms(4))
  have rows: "\<forall>x \<in> set (anyOrder ?rows). receivable_ok (snd x) \<and> rc_customerId (snd x) = c"
    using ok by (auto simp: mset_eq_setD [OF m] credit_ok_def)
  have p: "profile_ok p" "cp_postedDebt p \<le> max_safe" "cp_prepaymentBalance p \<le> max_safe"
    using credit_okD(2) [OF ok assms(2)] assms(2,3) by (simp_all add: readable_def posted_of_def prepaid_of_def)
  have "emap (\<lambda>(i, r). ebind (load_receivable r) (\<lambda>r'. Inr (i, r'))) (anyOrder ?rows) = Inr (map (\<lambda>x. x) (anyOrder ?rows))"
    by (rule emap_total) (use rows receivable_loads in auto)
  then have load: "emap (\<lambda>(i, r). ebind (load_receivable r) (\<lambda>r'. Inr (i, r'))) (anyOrder ?rows) = Inr (anyOrder ?rows)" by simp
  have "sum_list (map (owes c \<circ> snd) (anyOrder ?rows)) = sum_list (map (owes c \<circ> snd) ?rows)"
    by (simp only: sum_mset_sum_list [symmetric] mset_map m)
  also have "\<dots> = owed_by db c" unfolding owed_by_def by (rule owes_filter)
  also have "\<dots> = cp_postedDebt p" using credit_okD(3) [OF ok, of c] assms(2) p(2) by (simp add: posted_ok_def posted_of_def)
  finally have sum: "sum_list (map (owes c \<circ> snd) (anyOrder ?rows)) = cp_postedDebt p" .
  have "sum_open (anyOrder ?rows) = Inr (cp_postedDebt p)"
    using sum_open_run [OF rows, of 0] p(2) by (simp add: sum_open_def sum)
  moreover have "load_profile p = Inr p" "parseVnd (num_arg (cp_postedDebt p)) True False = Inr (cp_postedDebt p)"
    using p by (auto simp: load_profile_iff profile_ok_def parse_num)
  ultimately show ?thesis by (simp add: subledger_check_def load)
qed

theorem subledger_check_clean_witness:
  "\<exists>db r again p. credit_sold = Inr (db, r, again) \<and> map_get (cc_profiles db) ''C1'' = Some p \<and> cp_postedDebt p = 500 \<and> subledger_check rev db ''C1'' p = Inr None"
proof -
  obtain db r again p where s: "credit_sold = Inr (db, r, again)" "map_get (cc_profiles db) ''C1'' = Some p" "readable db ''C1''" "posted_of db ''C1'' = 500"
    using credit_sold_state by (auto split: sum.splits prod.splits)
  then show ?thesis
    by - (rule exI [of _ db], rule exI [of _ r], rule exI [of _ again], rule exI [of _ p],
      use subledger_check_clean [OF credit_sold_reach [OF s(1)] s(2,3), of rev] in \<open>simp add: posted_of_def\<close>)
qed

text \<open>
  C26: an authorization without an override never takes a customer past the limit: a new request that does not fit into what the limit leaves
  beside the posted debt and the held credit is refused as exceeding the limit; one that is accepted fits, holds
  exactly its amount for its customer and changes no other customer's credit and no debt.
\<close>

theorem credit_limit_enforced:
  assumes "credit_reach db" "readable db (cd_customerId dto)" "parseVnd (Num (cd_amount dto)) False False = Inr v" "cd_overrideApprovedBy dto = None"
    and "request_key_of header (cd_idempotencyKey dto) \<noteq> []" "auth_by_key db (js_lower (request_key_of header (cd_idempotencyKey dto))) = None"
  shows "(limit_of db (cd_customerId dto) < posted_of db (cd_customerId dto) + held_of db (cd_customerId dto) + v \<longrightarrow>
      authorizeCredit H db actor header dto pid n now = Inl (fin_error CUSTOMER_CREDIT_LIMIT_EXCEEDED 409)) \<and>
    (\<forall>db' r again. authorizeCredit H db actor header dto pid n now = Inr (db', r, again) \<longrightarrow> \<not> again \<and>
      posted_of db' (cd_customerId dto) + held_of db' (cd_customerId dto) \<le> limit_of db' (cd_customerId dto) \<and>
      held_of db' = (held_of db)(cd_customerId dto := held_of db (cd_customerId dto) + v) \<and> posted_of db' = posted_of db \<and> limit_of db' = limit_of db \<and>
      (\<exists>a. cc_auths db' = map_set n a (cc_auths db) \<and> map_get (cc_auths db) n = None \<and> au_state a = CR_HELD \<and>
        au_customerId a = cd_customerId dto \<and> au_authorizedAmount a = v))"
proof (intro conjI impI allI)
  note ok = credit_reach_ok [OF assms(1)]
  obtain db1 p where lock: "lockOrCreateProfileInTx pid now db (cd_customerId dto) = Inr (db1, p)" using lock_succeeds [OF ok assms(2)] by blast
  note l = lock_ok [OF ok lock] lock_cases [OF lock]
  have pos: "0 < v" "v \<le> max_safe" using finVnd_bounds [OF assms(3)] by auto
  have none: "auth_by_key db1 (js_lower (request_key_of header (cd_idempotencyKey dto))) = None"
    using assms(6) by (simp add: auth_by_key_def l(3) create_same)
  {
    assume "limit_of db (cd_customerId dto) < posted_of db (cd_customerId dto) + held_of db (cd_customerId dto) + v"
    then have "\<not> cp_postedDebt p + cp_heldCredit p + v \<le> cp_creditLimit p" by (simp add: l(6-8))
    note ev = evaluate_iff [OF l(2,5) pos, of None, unfolded option.case, simplified this]
    then show "authorizeCredit H db actor header dto pid n now = Inl (fin_error CUSTOMER_CREDIT_LIMIT_EXCEEDED 409)"
      using assms(5) none by (simp add: authorizeCredit_def request_key_of_def [symmetric] Let_def assms(3,4) lock)
  }
  fix db' r again
  assume run: "authorizeCredit H db actor header dto pid n now = Inr (db', r, again)"
  show new: "\<not> again"
    using run none assms(3) lock by (cases "cash_code ''CRD'' db1") (auto simp: authorizeCredit_def request_key_of_def [symmetric] Let_def ok_simps)
  then have run': "authorizeCredit H db actor header dto pid n now = Inr (db', r, False)" using run by simp
  obtain code' where a: "cp_postedDebt p + cp_heldCredit p + v \<le> cp_creditLimit p"
    "cc_profiles db' = map_set (cd_customerId dto) (holding p (cp_heldCredit p + v) now) (cc_profiles db1)"
    "cc_auths db' = map_set n (new_auth actor dto v code' (js_lower (request_key_of header (cd_idempotencyKey dto)))
      (H (cd_customerId dto, v, cd_orderId dto, cd_branchId dto, cd_overrideApprovedBy dto)) now) (cc_auths db)" "map_get (cc_auths db) n = None"
    using authorize_new [OF ok run'] assms(3,4) lock by auto
  have same: "held_of db1 = held_of db" "posted_of db1 = posted_of db" "limit_of db1 = limit_of db" by (simp_all add: l(3) create_same)
  have at: "held_of db' x = (if x = cd_customerId dto then cp_heldCredit p + v else held_of db1 x)"
    "posted_of db' x = (if x = cd_customerId dto then cp_postedDebt p else posted_of db1 x)"
    "limit_of db' x = (if x = cd_customerId dto then cp_creditLimit p else limit_of db1 x)" for x
    by (simp_all add: held_of_def posted_of_def limit_of_def a(2))
  show "posted_of db' (cd_customerId dto) + held_of db' (cd_customerId dto) \<le> limit_of db' (cd_customerId dto)" using a(1) by (simp add: at)
  show "held_of db' = (held_of db)(cd_customerId dto := held_of db (cd_customerId dto) + v)" "posted_of db' = posted_of db" "limit_of db' = limit_of db"
    using l(6-8) by (auto simp: fun_eq_iff at same)
  show "\<exists>a. cc_auths db' = map_set n a (cc_auths db) \<and> map_get (cc_auths db) n = None \<and> au_state a = CR_HELD \<and> au_customerId a = cd_customerId dto \<and>
        au_authorizedAmount a = v"
    by (rule exI, intro conjI, rule a(3)) (simp_all add: a(4))
qed

theorem credit_limit_enforced_witness:
  "\<exists>db r. credit_held = Inr (db, r, False) \<and> held_of db ''C1'' = 500 \<and>
     authorizeCredit (\<lambda>_. ''h'') db ''ann'' (Some ''k2'') (credit_sale\<lparr>cd_amount := Fin 1999501\<rparr>) ''P2'' ''A2'' 1 = Inl (fin_error CUSTOMER_CREDIT_LIMIT_EXCEEDED 409)"
proof (rule credit_held_run)
  fix db r a
  assume s: "credit_held = Inr (db, r, False)" "credit_reach db" "held_of db ''C1'' = 500" "posted_of db ''C1'' = 0" "readable db ''C1''"
    "limit_of db ''C1'' = 2000000" "auth_by_key db ''k2'' = None"
  let ?dto = "credit_sale\<lparr>cd_amount := Fin 1999501\<rparr>"
  have c: "cd_customerId ?dto = ''C1''" "cd_overrideApprovedBy ?dto = None" "request_key_of (Some ''k2'') (cd_idempotencyKey ?dto) \<noteq> []"
    "js_lower (request_key_of (Some ''k2'') (cd_idempotencyKey ?dto)) = ''k2''" "parseVnd (Num (cd_amount ?dto)) False False = Inr 1999501" by code_simp+
  have "authorizeCredit (\<lambda>_. ''h'') db ''ann'' (Some ''k2'') ?dto ''P2'' ''A2'' 1 = Inl (fin_error CUSTOMER_CREDIT_LIMIT_EXCEEDED 409)"
    by (rule credit_limit_enforced [THEN conjunct1, THEN mp]) (use s c in \<open>simp_all only:, simp_all\<close>)
  then show ?thesis using s by blast
qed

lemma journal_new: "matching_journals g i = [] \<Longrightarrow> postJournalInTx pick mkId g i n rq now = Inr (g', j, again) \<Longrightarrow> \<not> again"
  by (cases "nextFinanceDocumentCode (ensureDefaultAccountsInTx mkId g) ''JNL''") (auto simp: postJournalInTx_def Let_def ok_simps)

text \<open>Locking a profile that is there and can be read changes nothing.\<close>

lemma lock_again:
  assumes "credit_ok db" "readable db c" "map_get (cc_profiles db) c \<noteq> None"
  shows "\<exists>p. lockOrCreateProfileInTx x t db c = Inr (db, p) \<and> profile_ok p \<and> cp_postedDebt p \<le> max_safe"
  using lock_succeeds [OF assms(1,2), of x t] lock_ok(2) [OF assms(1)] lock_cases(3) assms(3) by (fastforce simp: create_profile_def)

text \<open>
  C25: committing an open authorization turns credit into debt once: its amount leaves the held credit of its customer and becomes a new open receivable and
  posted debt, booked from the sales clearing account to the receivables account when the journal is new; afterwards a commit is a replay
  that changes nothing and a release is refused.
\<close>

theorem credit_committed_once:
  assumes "credit_reach db" "map_get (cc_auths db) i = Some a" "au_state a = CR_HELD"
    and "commitAuthorization pick mkId db i actor dto ids rq now = Inr (db', r, again)"
  shows "\<not> again \<and> held_of db' = (held_of db)(au_customerId a := held_of db (au_customerId a) - au_authorizedAmount a) \<and>
    posted_of db' = (posted_of db)(au_customerId a := posted_of db (au_customerId a) + au_authorizedAmount a) \<and>
    (\<exists>q. cc_receivables db' = map_set (id_receivable ids) q (cc_receivables db) \<and> map_get (cc_receivables db) (id_receivable ids) = None \<and>
      rc_customerId q = au_customerId a \<and> rc_outstandingAmount q = au_authorizedAmount a \<and> rc_creditAuthorizationId q = Some i) \<and>
    (matching_journals (cb_ledger db) (commit_journal i a (opt_or (cm_branchId dto) (au_branchId a)) (case cm_actorId dto of None \<Rightarrow> actor | Some x \<Rightarrow> x)) = [] \<longrightarrow>
      balance_of (gl_lines (cb_ledger db')) ''1310'' = balance_of (gl_lines (cb_ledger db)) ''1310'' + au_authorizedAmount a \<and>
      balance_of (gl_lines (cb_ledger db')) ''5110'' = balance_of (gl_lines (cb_ledger db)) ''5110'' - au_authorizedAmount a) \<and>
    (\<exists>r2. commitAuthorization pick2 mkId2 db' i actor2 dto2 ids2 rq2 now2 = Inr (db', r2, True)) \<and>
    releaseAuthorization db' i actor3 why who pid3 now3 = Inl (fin_error CREDIT_AUTHORIZATION_INVALID_STATE 409)"
proof -
  note ok = credit_reach_ok [OF assms(1)]
  note c = commit_run [OF ok assms(2-4)]
  note m = c(2) [unfolded moved_to_debt_def]
  obtain b where b: "map_get (cc_auths db') i = Some b" "commits (id_receivable ids) a b" using m by auto
  have ok': "credit_ok db'" using m by simp
  note v = open_amount [OF ok assms(2,3)]
  have load: "load_auth b = Inr b" "au_state b = CR_COMMITTED" "au_customerId b = au_customerId a"
    using b(2) v by (auto simp: load_auth_iff commits_def)
  obtain db1 p q d g j again' where n: "lockOrCreateProfileInTx (id_profile ids) now db (au_customerId a) = Inr (db1, p)"
    "cc_profiles db' = map_set (au_customerId a)
      (indebted p (held_less (cp_heldCredit p) (au_authorizedAmount a)) (fli (cp_postedDebt p + au_authorizedAmount a)) now) (cc_profiles db1)"
    "postJournalInTx pick mkId (cb_ledger db1) (commit_journal i a (opt_or (cm_branchId dto) (au_branchId a))
      (case cm_actorId dto of None \<Rightarrow> actor | Some x \<Rightarrow> x)) (id_journal ids) rq now = Inr (g, j, again')" "gl_lines (cb_ledger db') = gl_lines g"
    using commit_new [OF ok assms(2-4)] by (elim exE conjE) (rule that)
  note l = lock_cases [OF n(1)]
  have "prepaid_of db' (au_customerId a) \<le> max_safe" using l(8) by (simp add: prepaid_of_def n(2))
  moreover have "posted_of db' (au_customerId a) \<le> max_safe" using m by blast
  ultimately have read: "readable db' (au_customerId a)" by (simp add: readable_def)
  have prof: "map_get (cc_profiles db') (au_customerId a) \<noteq> None" by (simp add: n(2))
  have lock: "\<exists>p. lockOrCreateProfileInTx x t db' (au_customerId a) = Inr (db', p) \<and> profile_ok p \<and> cp_postedDebt p \<le> max_safe" for x t
    by (rule lock_again [OF ok' read prof])
  have "\<exists>r2. commitAuthorization pick2 mkId2 db' i actor2 dto2 ids2 rq2 now2 = Inr (db', r2, True)"
    using lock [of "id_profile ids2" now2] load b(1)
    by (auto simp: commitAuthorization_def formatAuthorizationResponse_def ok_simps credit_left_iff profile_ok_def)
  moreover have "releaseAuthorization db' i actor3 why who pid3 now3 = Inl (fin_error CREDIT_AUTHORIZATION_INVALID_STATE 409)"
    using lock [of pid3 now3] load b(1) by (auto simp: releaseAuthorization_def)
  moreover have "balance_of (gl_lines (cb_ledger db')) ''1310'' = balance_of (gl_lines (cb_ledger db)) ''1310'' + au_authorizedAmount a \<and>
      balance_of (gl_lines (cb_ledger db')) ''5110'' = balance_of (gl_lines (cb_ledger db)) ''5110'' - au_authorizedAmount a"
    if none: "matching_journals (cb_ledger db) (commit_journal i a (opt_or (cm_branchId dto) (au_branchId a)) (case cm_actorId dto of None \<Rightarrow> actor | Some x \<Rightarrow> x)) = []"
  proof -
    have same: "cb_ledger db1 = cb_ledger db" by (simp add: l(1) create_same)
    have "\<not> again'" using journal_new [OF _ n(3)] none same by simp
    then have "postJournalInTx pick mkId (cb_ledger db) (commit_journal i a (opt_or (cm_branchId dto) (au_branchId a))
      (case cm_actorId dto of None \<Rightarrow> actor | Some x \<Rightarrow> x)) (id_journal ids) rq now = Inr (g, j, False)" using n(3) same by simp
    from credit_sale_posted [OF this _ v(2,3)] show ?thesis by (simp add: commit_journal_def n(4))
  qed
  ultimately show ?thesis using c(1) m by blast
qed

theorem credit_committed_once_witness:
  "\<exists>db r db' r' r2. credit_held = Inr (db, r, False) \<and> held_of db ''C1'' = 500 \<and> credit_sold = Inr (db', r', False) \<and> held_of db' ''C1'' = 0 \<and> posted_of db' ''C1'' = 500 \<and>
     commitAuthorization hd id db' ''A1'' ''ann'' \<lparr>cm_orderId = None, cm_branchId = None, cm_actorId = None\<rparr>
       \<lparr>id_profile = ''P2'', id_journal = ''J9'', id_receivable = ''R9'', id_debt = ''D9''\<rparr> None 2 = Inr (db', r2, True) \<and>
     releaseAuthorization db' ''A1'' ''ann'' None None ''P2'' 3 = Inl (fin_error CREDIT_AUTHORIZATION_INVALID_STATE 409)"
proof (rule credit_held_run)
  fix db r a
  assume s: "credit_held = Inr (db, r, False)" "credit_reach db" "held_of db ''C1'' = 500" "posted_of db ''C1'' = 0"
    "map_get (cc_auths db) ''A1'' = Some a" "au_state a = CR_HELD" "au_customerId a = ''C1''" "au_authorizedAmount a = 500"
  obtain db' r' where c: "credit_sold = Inr (db', r', False)" using credit_sold_state by (auto split: sum.splits prod.splits)
  then have run: "commitAuthorization hd id db ''A1'' ''ann'' \<lparr>cm_orderId = None, cm_branchId = None, cm_actorId = None\<rparr>
     \<lparr>id_profile = ''P2'', id_journal = ''J1'', id_receivable = ''R1'', id_debt = ''D1''\<rparr> None 1 = Inr (db', r', False)" by (simp add: credit_sold_def s(1))
  note t = credit_committed_once [OF s(2,5,6) run, of hd id "''ann''" "\<lparr>cm_orderId = None, cm_branchId = None, cm_actorId = None\<rparr>"
    "\<lparr>id_profile = ''P2'', id_journal = ''J9'', id_receivable = ''R9'', id_debt = ''D9''\<rparr>" None 2 "''ann''" None None "''P2''" 3]
  have "held_of db' ''C1'' = 0" "posted_of db' ''C1'' = 500" using t s by simp_all
  then show ?thesis using t s(1,3) c by blast
qed

text \<open>
  Held credit can always be given back: releasing an open authorization of a customer whose profile can be read succeeds (the profile's version, a
  32-bit column, has room), takes exactly its amount off the held credit and nothing else; afterwards a release is a replay that changes nothing and a
  commit is refused.
\<close>

theorem credit_released_once:
  assumes "credit_reach db" "map_get (cc_auths db) i = Some a" "au_state a = CR_HELD" "readable db (au_customerId a)" "version_of db (au_customerId a) + 1 < 2 ^ 31"
  shows "\<exists>db' r. releaseAuthorization db i actor why who pid now = Inr (db', r, False) \<and>
    held_of db' = (\<lambda>c. held_of db c - (if c = au_customerId a then au_authorizedAmount a else 0)) \<and> posted_of db' = posted_of db \<and>
    cc_receivables db' = cc_receivables db \<and> cb_ledger db' = cb_ledger db \<and>
    (\<exists>r2. releaseAuthorization db' i actor2 why2 who2 pid2 now2 = Inr (db', r2, True)) \<and>
    commitAuthorization pick mkId db' i actor2 dto ids rq now2 = Inl (fin_error CREDIT_AUTHORIZATION_INVALID_STATE 409)"
proof -
  note ok = credit_reach_ok [OF assms(1)]
  obtain db' r where run: "releaseAuthorization db i actor why who pid now = Inr (db', r, False)"
    using release_succeeds [OF ok assms(2-5)] by blast
  have g: "gave_back db i a db'" using release_cases [OF ok run] assms(2) by auto
  obtain b where b: "map_get (cc_auths db') i = Some b" "closes a b" using gave_back_at(3) [OF g] by blast
  note v = open_amount [OF ok assms(2,3)]
  have load: "load_auth b = Inr b" "au_state b = CR_RELEASED \<or> au_state b = CR_EXPIRED" "au_customerId b = au_customerId a"
    using b(2) v by (auto simp: load_auth_iff closes_def)
  have ok': "credit_ok db'" and read: "readable db' (au_customerId a)" using gave_back_at(1,4) [OF g] assms(4) by auto
  have prof: "map_get (cc_profiles db') (au_customerId a) \<noteq> None" using g by (simp add: gave_back_def)
  have lock: "\<exists>p. lockOrCreateProfileInTx x t db' (au_customerId a) = Inr (db', p) \<and> profile_ok p \<and> cp_postedDebt p \<le> max_safe" for x t
    by (rule lock_again [OF ok' read prof])
  have "\<exists>r2. releaseAuthorization db' i actor2 why2 who2 pid2 now2 = Inr (db', r2, True)"
    using lock [of pid2 now2] load b(1)
    by (auto simp: releaseAuthorization_def formatAuthorizationResponse_def ok_simps credit_left_iff profile_ok_def)
  moreover have "commitAuthorization pick mkId db' i actor2 dto ids rq now2 = Inl (fin_error CREDIT_AUTHORIZATION_INVALID_STATE 409)"
    using lock [of "id_profile ids" now2] load b(1) by (auto simp: commitAuthorization_def)
  ultimately show ?thesis using run g unfolding gave_back_def by blast
qed

theorem credit_released_once_witness:
  "\<exists>db r db' r'. credit_held = Inr (db, r, False) \<and> held_of db ''C1'' = 500 \<and> releaseAuthorization db ''A1'' ''ann'' None None ''P2'' 1 = Inr (db', r', False) \<and>
     held_of db' ''C1'' = 0 \<and> commitAuthorization hd id db' ''A1'' ''ann'' \<lparr>cm_orderId = None, cm_branchId = None, cm_actorId = None\<rparr>
       \<lparr>id_profile = ''P2'', id_journal = ''J1'', id_receivable = ''R1'', id_debt = ''D1''\<rparr> None 2 = Inl (fin_error CREDIT_AUTHORIZATION_INVALID_STATE 409)"
proof (rule credit_held_run)
  fix db r a
  assume s: "credit_held = Inr (db, r, False)" "credit_reach db" "held_of db ''C1'' = 500" "readable db ''C1''" "version_of db ''C1'' = 2"
    "map_get (cc_auths db) ''A1'' = Some a" "au_state a = CR_HELD" "au_customerId a = ''C1''" "au_authorizedAmount a = 500"
  have "readable db (au_customerId a)" "version_of db (au_customerId a) + 1 < 2 ^ 31" using s(4,5) by (simp_all add: s(8))
  from credit_released_once [OF s(2,6,7) this, of "''ann''" None None "''P2''" 1 "''ann''" None None "''P2''" 2 hd id
    "\<lparr>cm_orderId = None, cm_branchId = None, cm_actorId = None\<rparr>" "\<lparr>id_profile = ''P2'', id_journal = ''J1'', id_receivable = ''R1'', id_debt = ''D1''\<rparr>" None]
  obtain db' r' where t: "releaseAuthorization db ''A1'' ''ann'' None None ''P2'' 1 = Inr (db', r', False)"
    "held_of db' = (\<lambda>c. held_of db c - (if c = au_customerId a then au_authorizedAmount a else 0))"
    "commitAuthorization hd id db' ''A1'' ''ann'' \<lparr>cm_orderId = None, cm_branchId = None, cm_actorId = None\<rparr>
       \<lparr>id_profile = ''P2'', id_journal = ''J1'', id_receivable = ''R1'', id_debt = ''D1''\<rparr> None 2 = Inl (fin_error CREDIT_AUTHORIZATION_INVALID_STATE 409)"
    by (elim exE conjE) (rule that)
  have "held_of db' ''C1'' = 0" using s by (simp add: t(2))
  then show ?thesis using s(1,3) t(1,3) by blast
qed

text \<open>
  The sweep gives back exactly the credit of overdue authorizations: when the profiles concerned can be read and their versions have room, it succeeds, whatever the order of
  the rows; every open authorization that is due and not locked becomes expired, no other authorization changes, the held credit of each customer
  falls by the sum of its expired amounts, and a second sweep at the same time finds nothing.
\<close>

theorem overdue_credit_released:
  assumes "credit_reach db" "\<And>xs. mset (order xs) = mset xs"
    and "\<forall>(i, a) \<in> set (stale db locked now). readable db (au_customerId a)"
    and "\<forall>(i, a) \<in> set (stale db locked now). version_of db (au_customerId a) + int (length (stale db locked now)) < 2 ^ 31"
  shows "\<exists>db'. expireStaleAuthorizations order db locked pid now = Inr (db', length (stale db locked now)) \<and>
    (\<forall>i. map_get (cc_auths db') i = (case map_get (cc_auths db) i of None \<Rightarrow> None
       | Some a \<Rightarrow> Some (if au_state a = CR_HELD \<and> au_expiresAt a \<le> now \<and> i \<notin> set locked then set_expired now a else a))) \<and>
    (\<forall>c. held_of db' c = held_of db c - sum_list (map (\<lambda>(_, a). if au_customerId a = c then au_authorizedAmount a else 0) (stale db locked now))) \<and>
    stale db' locked now = []"
proof -
  note ok = credit_reach_ok [OF assms(1)]
  let ?st = "stale db locked now"
  have m: "mset (order ?st) = mset ?st" by (rule assms(2))
  note rows = stale_rows [where order = order and locked = locked and now = now, OF ok m]
  have set: "set (order ?st) = set ?st" and len: "length (order ?st) = length ?st" using m mset_eq_setD mset_eq_length by blast+
  obtain db' where e: "efold (expire_row pid now) (order ?st) db = Inr db'" "credit_ok db'" "\<forall>c. held_of db' c = held_of db c - rows_hold (order ?st) c"
    "\<forall>i. map_get (cc_auths db') i = (case map_of (order ?st) i of None \<Rightarrow> map_get (cc_auths db) i | Some a \<Rightarrow> Some (set_expired now a))"
    using credit_expire_loop [OF ok rows] assms(3,4) unfolding set len by blast
  have hold: "rows_hold (order ?st) c = sum_list (map (\<lambda>(_, a). if au_customerId a = c then au_authorizedAmount a else 0) ?st)" for c
    unfolding rows_hold_def by (simp only: sum_mset_sum_list [symmetric] mset_map m)
  have d: "distinct (map fst (cc_auths db))" "distinct (map fst (cc_auths db'))" using ok e(2) by (simp_all add: credit_ok_def)
  have due: "map_of (order ?st) i = Some a \<longleftrightarrow> map_get (cc_auths db) i = Some a \<and> au_state a = CR_HELD \<and> au_expiresAt a \<le> now \<and> i \<notin> set locked" for i a
    using rows(1) by (simp add: map_of_eq_Some_iff set) (auto simp: stale_def map_get_eq_Some [OF d(1)])
  have auths: "map_get (cc_auths db') i = (case map_get (cc_auths db) i of None \<Rightarrow> None
       | Some a \<Rightarrow> Some (if au_state a = CR_HELD \<and> au_expiresAt a \<le> now \<and> i \<notin> set locked then set_expired now a else a))" for i
  proof (cases "map_of (order ?st) i")
    case None
    then show ?thesis using e(4) due [of i] by (auto split: option.splits)
  next
    case (Some a)
    then show ?thesis using e(4) due [of i a] by simp
  qed
  have "stale db' locked now = []"
  proof (rule ccontr)
    assume "stale db' locked now \<noteq> []"
    then obtain i a where "(i, a) \<in> set (cc_auths db')" "au_state a = CR_HELD" "au_expiresAt a \<le> now" "i \<notin> set locked"
      by (auto simp: stale_def filter_empty_conv)
    then show False using auths [of i] map_get_eq_Some [OF d(2), of i a] by (auto simp: set_expired_def split: option.splits if_splits)
  qed
  moreover have "expireStaleAuthorizations order db locked pid now = Inr (db', length ?st)"
    using e(1) len by (simp add: expireStaleAuthorizations_def Let_def)
  ultimately show ?thesis using auths e(3) hold by (intro exI [of _ db']) simp
qed

theorem overdue_credit_released_witness:
  "\<exists>db r db'. credit_held = Inr (db, r, False) \<and> held_of db ''C1'' = 500 \<and> expireStaleAuthorizations rev db [] ''P2'' 900000 = Inr (db', 1) \<and> held_of db' ''C1'' = 0"
proof (rule credit_held_run)
  fix db r a
  assume s: "credit_held = Inr (db, r, False)" "credit_reach db" "held_of db ''C1'' = 500" "readable db ''C1''" "version_of db ''C1'' = 2"
    "map (\<lambda>(i, a). (i, au_customerId a, au_authorizedAmount a)) (stale db [] 900000) = [(''A1'', ''C1'', 500)]"
  then obtain b where b: "stale db [] 900000 = [(''A1'', b)]" "au_customerId b = ''C1''" "au_authorizedAmount b = 500" by auto
  have "mset (rev xs) = mset xs" for xs :: "(string \<times> CreditAuthorization) list" by simp
  from overdue_credit_released [OF s(2) this, of "[]" 900000 "''P2''"]
  obtain db' where t: "expireStaleAuthorizations rev db [] ''P2'' 900000 = Inr (db', 1)" "held_of db' ''C1'' = 0" using s(3-5) b by auto
  then show ?thesis using s(1,3) by blast
qed

lemma first_entry_key: "0 < n \<Longrightarrow> entry_key k n 0 = k \<or> entry_key k n 0 = k @ '':1''"
proof -
  have "show_digits 1 = ''1''" by code_simp
  then show ?thesis by (simp add: entry_key_def)
qed

text \<open>A payment whose key is found again is answered from its entries.\<close>

lemma payment_replayed:
  assumes ok: "credit_ok db" and es: "payment_entries db key \<noteq> []" "\<forall>e \<in> set (payment_entries db key). \<exists>k. booked c k e \<and> map_get (cc_receivables db) k \<noteq> None"
    and read: "readable db c" "map_get (cc_profiles db) c \<noteq> None" and pick: "\<And>xs. xs \<noteq> [] \<Longrightarrow> pickDebt xs \<in> set xs"
  shows "\<exists>r. replay_payment pickDebt db key pid now = Inr (db, r) \<and> pr_replayed r"
proof -
  obtain k where e: "booked c k (pickDebt (payment_entries db key))" "map_get (cc_receivables db) k \<noteq> None" using es pick by blast
  then obtain q where q: "map_get (cc_receivables db) k = Some q" by blast
  have "load_receivable q = Inr q" by (rule receivable_loads [OF credit_okD(6) [OF ok q]])
  then show ?thesis using e(1) q lock_again [OF ok read, of pid now] by (auto simp: replay_payment_def booked_def)
qed

text \<open>
  C24: a payment is applied exactly and once: in a run that is not a replay the payment splits into what is allocated and the overpayment, each allocated amount is positive,
  at most what its document of this customer owed, and moves from outstanding to paid, no other receivable changes, the posted debt of the customer
  falls by the allocated total and nobody else's, and the held credit stays; a later call with the same key is a replay that changes
  nothing (while the customer's profile can be read).
\<close>

theorem payment_applied_once:
  assumes "credit_reach db" "\<And>xs. mset (byId xs) = mset xs" "map_get (cb_accounts db) (pi_account is) = None"
    and "recordReceivablePayment pickDebt byId pickAcc pick mkId mkCat db tr tc actor header dto is rq now = Inr (db', r)" "\<not> pr_replayed r"
    and "\<And>xs. xs \<noteq> [] \<Longrightarrow> pickDebt xs \<in> set xs" "payment_key header2 dto2 (pi_key is2) = payment_key header dto (pi_key is)"
  shows "\<exists>c alloc. paying_customer db tr tc = Inr c \<and> pr_allocation r = Some alloc \<and> rp_amount dto = Fin (of_int (pa_paymentAmount alloc)) \<and>
    sum_list (map al_allocatedAmount (pa_allocations alloc)) + pa_overpaymentAmount alloc = pa_paymentAmount alloc \<and> 0 \<le> pa_overpaymentAmount alloc \<and>
    posted_of db' = (posted_of db)(c := posted_of db c - sum_list (map al_allocatedAmount (pa_allocations alloc))) \<and> held_of db' = held_of db \<and>
    (\<forall>a \<in> set (pa_allocations alloc). \<exists>d d'. map_get (cc_receivables db) (al_documentId a) = Some d \<and> map_get (cc_receivables db') (al_documentId a) = Some d' \<and>
      rc_customerId d = c \<and> 0 < al_allocatedAmount a \<and> al_allocatedAmount a \<le> rc_outstandingAmount d \<and>
      rc_outstandingAmount d' = rc_outstandingAmount d - al_allocatedAmount a \<and> rc_paidAmount d' = rc_paidAmount d + al_allocatedAmount a) \<and>
    (\<forall>k. k \<notin> al_documentId ` set (pa_allocations alloc) \<longrightarrow> map_get (cc_receivables db') k = map_get (cc_receivables db) k) \<and>
    (readable db' c \<longrightarrow> (\<exists>r2. recordReceivablePayment pickDebt byId2 pickAcc2 pick2 mkId2 mkCat2 db' tr2 tc2 actor2 header2 dto2 is2 rq2 now2 = Inr (db', r2) \<and> pr_replayed r2))"
proof (rule payment_run [OF credit_reach_ok [OF assms(1)] assms(2-5)])
  fix c and alloc :: CalculatedPaymentAllocationResult and es :: "DebtEntry list"
  let ?key = "payment_key header dto (pi_key is)"
  assume a: "paying_customer db tr tc = Inr c" "pr_allocation r = Some alloc" "credit_ok db'" "payment_applied now db c alloc db'"
    "calculateDocumentAllocations (rp_amount dto) (map obligation (open_rows byId db tr c)) (rp_allocations dto)
       (case rp_overpaymentPolicy dto of None \<Rightarrow> REJECT | Some p \<Rightarrow> p) RECEIVABLE = Inr alloc"
    "cc_debts db' = cc_debts db @ es" "payment_entries db ?key = []" "map_get (cc_profiles db') c \<noteq> None"
    "map de_idempotencyKey es = map (entry_key ?key (length (pa_allocations alloc))) [0..<length (pa_allocations alloc)]" "pa_allocations alloc \<noteq> []"
    "\<forall>e \<in> set es. \<exists>k. booked c k e \<and> map_get (cc_receivables db') k \<noteq> None"
  note t = allocation_totals [OF a(5)]
  have "list_all alloc_ok (pa_allocations alloc)" by (rule allocationsE [OF a(5)]) simp
  then have rows: "\<forall>x \<in> set (pa_allocations alloc). \<exists>d d'. map_get (cc_receivables db) (al_documentId x) = Some d \<and> map_get (cc_receivables db') (al_documentId x) = Some d' \<and>
      rc_customerId d = c \<and> 0 < al_allocatedAmount x \<and> al_allocatedAmount x \<le> rc_outstandingAmount d \<and>
      rc_outstandingAmount d' = rc_outstandingAmount d - al_allocatedAmount x \<and> rc_paidAmount d' = rc_paidAmount d + al_allocatedAmount x"
    using a(4) by (fastforce simp: payment_applied_def allocated_def list_all_iff alloc_ok_def)
  have new: "payment_entries db' ?key = filter (\<lambda>d. de_idempotencyKey d = ?key \<or> de_idempotencyKey d = ?key @ '':1'') es"
    using a(6,7) by (simp add: payment_entries_def)
  obtain e es' where es: "es = e # es'" "de_idempotencyKey e = entry_key ?key (length (pa_allocations alloc)) 0"
    using a(9,10) by (cases es; cases "pa_allocations alloc") (auto simp: upt_rec)
  have "payment_entries db' ?key \<noteq> []" using first_entry_key [of "length (pa_allocations alloc)" ?key] a(10) es by (simp add: new)
  moreover have "\<forall>e \<in> set (payment_entries db' ?key). \<exists>k. booked c k e \<and> map_get (cc_receivables db') k \<noteq> None" using a(11) by (simp add: new)
  ultimately have "\<exists>r2. recordReceivablePayment pickDebt byId2 pickAcc2 pick2 mkId2 mkCat2 db' tr2 tc2 actor2 header2 dto2 is2 rq2 now2 = Inr (db', r2) \<and> pr_replayed r2"
    if "readable db' c" using payment_replayed [OF a(3) _ _ that a(8) assms(6)] by (simp add: recordReceivablePayment_def Let_def assms(7))
  then show ?thesis using a(1,2,4) t(1-3,7) rows
    by - (rule exI [of _ c], rule exI [of _ alloc], simp add: payment_applied_def)
qed

theorem payment_applied_once_witness:
  "\<exists>db r0 db' r. credit_sold = Inr (db, r0, False) \<and> posted_of db ''C1'' = 500 \<and>
     recordReceivablePayment hd id hd hd id id db None (Some ''C1'') ''bob'' None debt_payment payment_id_set None 2 = Inr (db', r) \<and> posted_of db' ''C1'' = 200 \<and>
     (\<exists>r2. recordReceivablePayment hd id hd hd id id db' None (Some ''C1'') ''bob'' None debt_payment payment_id_set None 3 = Inr (db', r2) \<and> pr_replayed r2)"
proof -
  obtain db r0 where s: "credit_sold = Inr (db, r0, False)" "posted_of db ''C1'' = 500" "map_get (cb_accounts db) ''K1'' = None"
    using credit_sold_state by (auto split: sum.splits prod.splits)
  obtain db' r where p: "recordReceivablePayment hd id hd hd id id db None (Some ''C1'') ''bob'' None debt_payment payment_id_set None 2 = Inr (db', r)"
    "\<not> pr_replayed r" "posted_of db' ''C1'' = 200" "readable db' ''C1''"
    using credit_paid_state by (auto simp: credit_paid_def s(1) split: sum.splits prod.splits)
  have acc: "map_get (cb_accounts db) (pi_account payment_id_set) = None" by (simp add: payment_id_set_def s(3))
  have c: "paying_customer db None (Some ''C1'') = Inr ''C1''" by (simp add: paying_customer_def truthy_def)
  have "\<exists>r2. recordReceivablePayment hd id hd hd id id db' None (Some ''C1'') ''bob'' None debt_payment payment_id_set None 3 = Inr (db', r2) \<and> pr_replayed r2"
    using payment_applied_once [OF credit_sold_reach [OF s(1)] _ acc p(1,2) _ refl, of id hd hd id id None "Some ''C1''" "''bob''" None 3] c p(4) by auto
  then show ?thesis using s(1,2) p(1,3) by blast
qed

end
