(* ===== verification/EventOutbox.thy ===== *)
theory EventOutbox
  imports JsString "HOL-Library.Multiset"
begin

text \<open>
  How a service announces what it did (\<^verbatim>\<open>libs/common\<close>: request context, tenant context, event envelope;
  \<^verbatim>\<open>libs/events\<close>: configuration, outbox, retry policy, relay). A state change writes its event to the outbox table in
  the same transaction; the relay claims the due rows, hands each to the publisher and records the outcome. The
  publisher, the clocks, the identifiers and the rows another replica has locked are arguments.
\<close>

section \<open>JSON documents\<close>

text \<open>
  A message body and a \<^verbatim>\<open>jsonb\<close> column hold a JSON document. Text is modelled by the document it spells, the members of
  an object by an association list.
\<close>

datatype json = JNull | JBool bool | JNum jsnum | JStr string | JArr "json list" | JObj "(string \<times> json) list"

definition json_field :: "json \<Rightarrow> string \<Rightarrow> json option" where
  "json_field e k = (case e of JObj fs \<Rightarrow> map_of fs k | _ \<Rightarrow> None)"

text \<open>How \<^verbatim>\<open>JSON.stringify\<close> writes a number: those that JSON has no notation for become null.\<close>

definition json_of_num :: "jsnum \<Rightarrow> json" where
  "json_of_num x = (if is_finite_num x then JNum x else JNull)"

section \<open>Request context\<close>

record RequestActor =
  actor_id :: string
  actor_type :: string

text \<open>An undefined actor and a null one are read alike (\<^verbatim>\<open>state?.actor ?? null\<close>).\<close>

record RequestContextState =
  ctx_tenantId :: "string option"
  ctx_requestId :: "string option"
  ctx_authorization :: "string option"
  ctx_actor :: "RequestActor option"

definition TenantContext_current :: "RequestContextState option \<Rightarrow> string option option" where
  "TenantContext_current ctx = map_option ctx_tenantId ctx"

definition TenantContext_require :: "RequestContextState option \<Rightarrow> string + string" where
  "TenantContext_require ctx =
    (case ctx of None \<Rightarrow> Inl ''No tenant in the current context''
     | Some st \<Rightarrow> (case ctx_tenantId st of None \<Rightarrow> Inl ''No tenant in the current context''
         | Some t \<Rightarrow> if t = [] then Inl ''No tenant in the current context'' else Inr t))"

section \<open>Event envelopes\<close>

record EventDefinition =
  def_type :: string
  def_version :: jsnum

text \<open>The payload is a JSON document, or undefined.\<close>

record EventEnvelope =
  ev_id :: string
  ev_type :: string
  ev_version :: jsnum
  ev_occurredAt :: string
  ev_tenantId :: string
  ev_actor :: "RequestActor option"
  ev_traceId :: string
  ev_payload :: "json option"

text \<open>What the clock and \<^verbatim>\<open>randomUUID\<close> give while one envelope is built.\<close>

record Fresh =
  fresh_id :: string
  fresh_trace :: string
  fresh_iso :: string

definition envelope_with :: "RequestContextState option \<Rightarrow> Fresh \<Rightarrow> string \<Rightarrow> string \<Rightarrow> jsnum \<Rightarrow> json option \<Rightarrow> EventEnvelope" where
  "envelope_with ctx fr tenantId type version payload =
    \<lparr>ev_id = fresh_id fr, ev_type = type, ev_version = version, ev_occurredAt = fresh_iso fr, ev_tenantId = tenantId,
     ev_actor = (case ctx of None \<Rightarrow> None | Some st \<Rightarrow> ctx_actor st),
     ev_traceId = (case ctx of None \<Rightarrow> fresh_trace fr
       | Some st \<Rightarrow> (case ctx_requestId st of None \<Rightarrow> fresh_trace fr | Some r \<Rightarrow> r)),
     ev_payload = payload\<rparr>"

definition createEvent :: "RequestContextState option \<Rightarrow> Fresh \<Rightarrow> string \<Rightarrow> jsnum \<Rightarrow> json option \<Rightarrow> string + EventEnvelope" where
  "createEvent ctx fr type version payload =
    ebind (TenantContext_require ctx) (\<lambda>tenantId. Inr (envelope_with ctx fr tenantId type version payload))"

text \<open>The document of an envelope: what \<^verbatim>\<open>JSON.stringify\<close> writes. A member whose value is undefined is left out.\<close>

definition json_of_actor :: "RequestActor option \<Rightarrow> json" where
  "json_of_actor a = (case a of None \<Rightarrow> JNull
    | Some x \<Rightarrow> JObj [(''id'', JStr (actor_id x)), (''type'', JStr (actor_type x))])"

definition json_of_envelope :: "EventEnvelope \<Rightarrow> json" where
  "json_of_envelope e = JObj
    ([(''id'', JStr (ev_id e)), (''type'', JStr (ev_type e)), (''version'', json_of_num (ev_version e)),
      (''occurredAt'', JStr (ev_occurredAt e)), (''tenantId'', JStr (ev_tenantId e)), (''actor'', json_of_actor (ev_actor e)),
      (''traceId'', JStr (ev_traceId e))] @ (case ev_payload e of None \<Rightarrow> [] | Some p \<Rightarrow> [(''payload'', p)]))"

definition json_string :: "json option \<Rightarrow> string" where
  "json_string v = (case v of Some (JStr s) \<Rightarrow> s | _ \<Rightarrow> [])"

definition nonEmpty :: "json option \<Rightarrow> bool" where
  "nonEmpty v = (case v of Some (JStr s) \<Rightarrow> s \<noteq> [] | _ \<Rightarrow> False)"

definition isInteger :: "json option \<Rightarrow> bool" where
  "isInteger v = (case v of Some (JNum x) \<Rightarrow> is_integer_num x | _ \<Rightarrow> False)"

definition is_object :: "json \<Rightarrow> bool" where
  "is_object e = (case e of JObj _ \<Rightarrow> True | JArr _ \<Rightarrow> True | _ \<Rightarrow> False)"

definition actor_valid :: "json option \<Rightarrow> bool" where
  "actor_valid a = (case a of None \<Rightarrow> False | Some v \<Rightarrow> v = JNull \<or>
    (nonEmpty (json_field v ''id'') \<and> nonEmpty (json_field v ''type'')))"

definition actor_of :: "json option \<Rightarrow> RequestActor option" where
  "actor_of a = (case a of None \<Rightarrow> None | Some v \<Rightarrow> if v = JNull then None
    else Some \<lparr>actor_id = json_string (json_field v ''id''), actor_type = json_string (json_field v ''type'')\<rparr>)"

text \<open>The object read as an envelope, once it was found valid.\<close>

definition envelope_of :: "json \<Rightarrow> EventEnvelope" where
  "envelope_of e = \<lparr>ev_id = json_string (json_field e ''id''), ev_type = json_string (json_field e ''type''),
     ev_version = (case json_field e ''version'' of Some (JNum x) \<Rightarrow> x | _ \<Rightarrow> NaN),
     ev_occurredAt = json_string (json_field e ''occurredAt''), ev_tenantId = json_string (json_field e ''tenantId''),
     ev_actor = actor_of (json_field e ''actor''), ev_traceId = json_string (json_field e ''traceId''),
     ev_payload = json_field e ''payload''\<rparr>"

definition invalid_envelope :: "string \<Rightarrow> string" where
  "invalid_envelope reason = ''Invalid event envelope: '' @ reason"

text \<open>\<open>date_ok\<close> says which strings \<^verbatim>\<open>Date.parse\<close> reads as a date; beyond the ISO format the language leaves that open.\<close>

definition assertEnvelope :: "(string \<Rightarrow> bool) \<Rightarrow> json \<Rightarrow> string + EventEnvelope" where
  "assertEnvelope date_ok e =
    ebind (throw_if (\<not> is_object e) (invalid_envelope ''not an object'')) (\<lambda>_.
    ebind (throw_if (\<not> nonEmpty (json_field e ''id'')) (invalid_envelope ''id'')) (\<lambda>_.
    ebind (throw_if (\<not> nonEmpty (json_field e ''type'')) (invalid_envelope ''type'')) (\<lambda>_.
    ebind (throw_if (\<not> isInteger (json_field e ''version'')) (invalid_envelope ''version'')) (\<lambda>_.
    ebind (throw_if (\<not> nonEmpty (json_field e ''occurredAt'') \<or> \<not> date_ok (json_string (json_field e ''occurredAt'')))
      (invalid_envelope ''occurredAt'')) (\<lambda>_.
    ebind (throw_if (\<not> nonEmpty (json_field e ''tenantId'')) (invalid_envelope ''tenantId'')) (\<lambda>_.
    ebind (throw_if (\<not> nonEmpty (json_field e ''traceId'')) (invalid_envelope ''traceId'')) (\<lambda>_.
    ebind (throw_if (\<not> actor_valid (json_field e ''actor'')) (invalid_envelope ''actor'')) (\<lambda>_.
    ebind (throw_if (json_field e ''payload'' = None) (invalid_envelope ''payload'')) (\<lambda>_.
    Inr (envelope_of e))))))))))"

text \<open>The handler runs in a context of the envelope's own tenant, trace and actor, without authorization.\<close>

definition event_context :: "EventEnvelope \<Rightarrow> RequestContextState" where
  "event_context ev = \<lparr>ctx_tenantId = Some (ev_tenantId ev), ctx_requestId = Some (ev_traceId ev),
     ctx_authorization = None, ctx_actor = ev_actor ev\<rparr>"

definition consumeEvent ::
    "(string \<Rightarrow> bool) \<Rightarrow> json \<Rightarrow> (RequestContextState option \<Rightarrow> EventEnvelope \<Rightarrow> string + 'r) \<Rightarrow> string + 'r" where
  "consumeEvent date_ok e handler = ebind (assertEnvelope date_ok e) (\<lambda>ev. handler (Some (event_context ev)) ev)"

section \<open>Configuration\<close>

datatype EventsTransport = SQS_DIRECT | SNS

record EventsConfig =
  transport :: EventsTransport
  topicArn :: "string option"
  relayIntervalMs :: int
  relayBatch :: int
  maxAttempts :: int
  maxReceiveCount :: int
  visibilityTimeoutSeconds :: int
  pollWaitSeconds :: int
  outboxRetentionDays :: int

definition int_setting :: "string option \<Rightarrow> int \<Rightarrow> int" where
  "int_setting value fallback =
    (case value of None \<Rightarrow> fallback
     | Some v \<Rightarrow> let n = num_of_string v in
         if v \<noteq> [] \<and> is_finite_num n \<and> js_lt (Fin 0) n then int_of_num (math_floor n) else fallback)"

definition readEventsConfig :: "(string \<Rightarrow> string option) \<Rightarrow> string + EventsConfig" where
  "readEventsConfig env =
    (let tr = (case env ''EVENTS_TRANSPORT'' of None \<Rightarrow> ''sqs-direct'' | Some t \<Rightarrow> t) in
     if tr \<noteq> ''sqs-direct'' \<and> tr \<noteq> ''sns'' then Inl (''EVENTS_TRANSPORT must be \"sqs-direct\" or \"sns\", got '' @ tr)
     else if tr = ''sns'' \<and> \<not> truthy (env ''EVENTS_TOPIC_ARN'') then Inl ''EVENTS_TRANSPORT=sns needs EVENTS_TOPIC_ARN''
     else Inr \<lparr>transport = (if tr = ''sns'' then SNS else SQS_DIRECT),
       topicArn = (if truthy (env ''EVENTS_TOPIC_ARN'') then env ''EVENTS_TOPIC_ARN'' else None),
       relayIntervalMs = int_setting (env ''EVENTS_RELAY_INTERVAL_MS'') 500,
       relayBatch = int_setting (env ''EVENTS_RELAY_BATCH'') 50,
       maxAttempts = int_setting (env ''EVENTS_MAX_ATTEMPTS'') 10,
       maxReceiveCount = int_setting (env ''EVENTS_MAX_RECEIVE_COUNT'') 3,
       visibilityTimeoutSeconds = int_setting (env ''EVENTS_VISIBILITY_TIMEOUT'') 30,
       pollWaitSeconds = int_setting (env ''EVENTS_POLL_WAIT_SECONDS'') 5,
       outboxRetentionDays = int_setting (env ''EVENTS_OUTBOX_RETENTION_DAYS'') 7\<rparr>)"

section \<open>The outbox table\<close>

text \<open>Instants are milliseconds since the epoch.\<close>

record OutboxEvent =
  ob_id :: string
  ob_tenantId :: string
  ob_type :: string
  ob_version :: jsnum
  ob_payload :: json
  ob_createdAt :: int
  ob_publishedAt :: "int option"
  ob_attempts :: int
  ob_nextAttemptAt :: int
  ob_lastError :: "string option"
  ob_failedAt :: "int option"

text \<open>The row that an insert of an envelope makes; the columns it does not name take their defaults.\<close>

definition outbox_row :: "int \<Rightarrow> EventEnvelope \<Rightarrow> OutboxEvent" where
  "outbox_row dbNow e = \<lparr>ob_id = ev_id e, ob_tenantId = ev_tenantId e, ob_type = ev_type e, ob_version = ev_version e,
     ob_payload = json_of_envelope e, ob_createdAt = dbNow, ob_publishedAt = None, ob_attempts = 0,
     ob_nextAttemptAt = dbNow, ob_lastError = None, ob_failedAt = None\<rparr>"

definition outbox_insert :: "int \<Rightarrow> EventEnvelope \<Rightarrow> OutboxEvent list \<Rightarrow> string + OutboxEvent list" where
  "outbox_insert dbNow e rows =
    (if ev_id e \<in> ob_id ` set rows then Inl ''PK_outbox_event_id'' else Inr (rows @ [outbox_row dbNow e]))"

definition EventOutbox_add :: "RequestContextState option \<Rightarrow> Fresh \<Rightarrow> int \<Rightarrow> EventDefinition \<Rightarrow> json option \<Rightarrow>
    string option \<Rightarrow> OutboxEvent list \<Rightarrow> string + (EventEnvelope \<times> OutboxEvent list)" where
  "EventOutbox_add ctx fr dbNow event payload tenantId rows =
    ebind (if truthy tenantId then Inr (envelope_with ctx fr (the tenantId) (def_type event) (def_version event) payload)
           else createEvent ctx fr (def_type event) (def_version event) payload) (\<lambda>envelope.
    ebind (outbox_insert dbNow envelope rows) (\<lambda>rows'. Inr (envelope, rows')))"

section \<open>Retry policy\<close>

definition MAX_BACKOFF_MS :: int where
  "MAX_BACKOFF_MS = 5 * 60 * 1000"

text \<open>Every power below the cap is exact as a number, and an infinite one is cut to the cap as well.\<close>

definition backoffMs :: "int \<Rightarrow> int" where
  "backoffMs attempts = min (2 ^ nat attempts * 1000) MAX_BACKOFF_MS"

definition markPublished :: "int \<Rightarrow> OutboxEvent \<Rightarrow> OutboxEvent" where
  "markPublished now row = row\<lparr>ob_publishedAt := Some now, ob_lastError := None\<rparr>"

definition markFailed :: "string \<Rightarrow> int \<Rightarrow> int \<Rightarrow> OutboxEvent \<Rightarrow> OutboxEvent" where
  "markFailed err now maxA row =
    (let row1 = row\<lparr>ob_attempts := ob_attempts row + 1, ob_lastError := Some (take 500 err)\<rparr> in
     if maxA \<le> ob_attempts row1 then row1\<lparr>ob_failedAt := Some now\<rparr>
     else row1\<lparr>ob_nextAttemptAt := now + backoffMs (ob_attempts row1)\<rparr>)"

section \<open>The relay\<close>

text \<open>
  A publisher sends one event to the bus, whose state it may change even when it throws. \<open>order\<close> is the database's answer
  to \<^verbatim>\<open>ORDER BY created_at\<close>, \<open>locked\<close> the rows that another replica holds (\<^verbatim>\<open>SKIP LOCKED\<close>), \<open>clk\<close> the clock at each
  round of the loop.
\<close>

type_synonym 'q publisher = "json \<Rightarrow> 'q \<Rightarrow> (string + unit) \<times> 'q"

definition outbox_due :: "int \<Rightarrow> (string \<Rightarrow> bool) \<Rightarrow> OutboxEvent \<Rightarrow> bool" where
  "outbox_due dbNow locked r \<longleftrightarrow>
     ob_publishedAt r = None \<and> ob_failedAt r = None \<and> ob_nextAttemptAt r \<le> dbNow \<and> \<not> locked (ob_id r)"

fun relay_rows :: "'q publisher \<Rightarrow> (nat \<Rightarrow> int) \<Rightarrow> int \<Rightarrow> nat \<Rightarrow> OutboxEvent list \<Rightarrow> 'q \<Rightarrow> OutboxEvent list \<times> int \<times> 'q" where
  "relay_rows publish clk maxA i [] q = ([], 0, q)"
| "relay_rows publish clk maxA i (r # rs) q =
    (case publish (ob_payload r) q of
       (Inr _, q1) \<Rightarrow> (case relay_rows publish clk maxA (Suc i) rs q1 of (rs', n, q2) \<Rightarrow> (markPublished (clk i) r # rs', n + 1, q2))
     | (Inl err, q1) \<Rightarrow> (case relay_rows publish clk maxA (Suc i) rs q1 of (rs', n, q2) \<Rightarrow> (markFailed err (clk i) maxA r # rs', n, q2)))"

definition outbox_save :: "OutboxEvent list \<Rightarrow> OutboxEvent list \<Rightarrow> OutboxEvent list" where
  "outbox_save saved rows = map (\<lambda>r. case find (\<lambda>s. ob_id s = ob_id r) saved of None \<Rightarrow> r | Some s \<Rightarrow> s) rows"

definition relay_claim :: "(OutboxEvent list \<Rightarrow> OutboxEvent list) \<Rightarrow> (string \<Rightarrow> bool) \<Rightarrow> int \<Rightarrow> EventsConfig \<Rightarrow>
    OutboxEvent list \<Rightarrow> OutboxEvent list" where
  "relay_claim order locked dbNow cfg rows = take (nat (relayBatch cfg)) (order (filter (outbox_due dbNow locked) rows))"

definition relayOnce :: "'q publisher \<Rightarrow> (OutboxEvent list \<Rightarrow> OutboxEvent list) \<Rightarrow> (string \<Rightarrow> bool) \<Rightarrow> (nat \<Rightarrow> int) \<Rightarrow> int \<Rightarrow>
    EventsConfig \<Rightarrow> OutboxEvent list \<Rightarrow> 'q \<Rightarrow> OutboxEvent list \<times> int \<times> 'q" where
  "relayOnce publish order locked clk dbNow cfg rows q =
    (case relay_rows publish clk (maxAttempts cfg) 0 (relay_claim order locked dbNow cfg rows) q of
       (saved, published, q') \<Rightarrow> (outbox_save saved rows, published, q'))"

text \<open>A retention period of whole days, each of 24 hours.\<close>

definition relay_cleanup :: "int \<Rightarrow> EventsConfig \<Rightarrow> OutboxEvent list \<Rightarrow> OutboxEvent list" where
  "relay_cleanup dbNow cfg rows =
    filter (\<lambda>r. \<not> (case ob_publishedAt r of None \<Rightarrow> False | Some p \<Rightarrow> p < dbNow - outboxRetentionDays cfg * 86400000)) rows"

definition CLEANUP_EVERY_MS :: int where
  "CLEANUP_EVERY_MS = 60 * 60 * 1000"

text \<open>One round of the timer: a pass, and once an hour the cleanup.\<close>

definition relay_tick :: "'q publisher \<Rightarrow> (OutboxEvent list \<Rightarrow> OutboxEvent list) \<Rightarrow> (string \<Rightarrow> bool) \<Rightarrow> (nat \<Rightarrow> int) \<Rightarrow> int \<Rightarrow> int \<Rightarrow>
    EventsConfig \<Rightarrow> OutboxEvent list \<Rightarrow> 'q \<Rightarrow> int \<Rightarrow> OutboxEvent list \<times> 'q \<times> int" where
  "relay_tick publish order locked clk dbNow appNow cfg rows q lastCleanup =
    (case relayOnce publish order locked clk dbNow cfg rows q of (rows1, _, q1) \<Rightarrow>
       if appNow - lastCleanup > CLEANUP_EVERY_MS then (relay_cleanup dbNow cfg rows1, q1, appNow)
       else (rows1, q1, lastCleanup))"

section \<open>Facts about envelopes\<close>

definition envelope_valid :: "(string \<Rightarrow> bool) \<Rightarrow> EventEnvelope \<Rightarrow> bool" where
  "envelope_valid date_ok e \<longleftrightarrow> ev_id e \<noteq> [] \<and> ev_type e \<noteq> [] \<and> is_integer_num (ev_version e) \<and> ev_occurredAt e \<noteq> [] \<and>
     date_ok (ev_occurredAt e) \<and> ev_tenantId e \<noteq> [] \<and> ev_traceId e \<noteq> [] \<and>
     (case ev_actor e of None \<Rightarrow> True | Some a \<Rightarrow> actor_id a \<noteq> [] \<and> actor_type a \<noteq> []) \<and> ev_payload e \<noteq> None"

lemma json_field_Obj [simp]: "json_field (JObj fs) k = map_of fs k"
  by (simp add: json_field_def)

lemma nonEmpty_Str [simp]: "nonEmpty (Some (JStr s)) \<longleftrightarrow> s \<noteq> []" "json_string (Some (JStr s)) = s"
  by (simp_all add: nonEmpty_def json_string_def)

lemma is_integer_finite: "is_integer_num x \<Longrightarrow> is_finite_num x"
  by (cases x) (simp_all add: is_integer_num_def is_finite_num_def)

lemma isInteger_num [simp]: "isInteger (Some (json_of_num x)) \<longleftrightarrow> is_integer_num x"
  by (auto simp: isInteger_def json_of_num_def dest: is_integer_finite)

lemma actor_of_json [simp]: "actor_of (Some (json_of_actor a)) = a"
  by (cases a) (simp_all add: actor_of_def json_of_actor_def)

lemma actor_valid_json [simp]:
  "actor_valid (Some (json_of_actor a)) \<longleftrightarrow> (case a of None \<Rightarrow> True | Some x \<Rightarrow> actor_id x \<noteq> [] \<and> actor_type x \<noteq> [])"
  by (cases a) (simp_all add: actor_valid_def json_of_actor_def)

lemma is_object_envelope [simp]: "is_object (json_of_envelope e)"
  by (simp add: is_object_def json_of_envelope_def)

lemma envelope_fields [simp]:
  "json_field (json_of_envelope e) ''id'' = Some (JStr (ev_id e))"
  "json_field (json_of_envelope e) ''type'' = Some (JStr (ev_type e))"
  "json_field (json_of_envelope e) ''version'' = Some (json_of_num (ev_version e))"
  "json_field (json_of_envelope e) ''occurredAt'' = Some (JStr (ev_occurredAt e))"
  "json_field (json_of_envelope e) ''tenantId'' = Some (JStr (ev_tenantId e))"
  "json_field (json_of_envelope e) ''actor'' = Some (json_of_actor (ev_actor e))"
  "json_field (json_of_envelope e) ''traceId'' = Some (JStr (ev_traceId e))"
  "json_field (json_of_envelope e) ''payload'' = ev_payload e"
  by (simp_all add: json_of_envelope_def split: option.splits)

lemma envelope_of_json: "is_integer_num (ev_version e) \<Longrightarrow> envelope_of (json_of_envelope e) = e"
  by (simp add: envelope_of_def json_of_num_def is_integer_finite)

lemma assert_json_envelope:
  "assertEnvelope date_ok (json_of_envelope e) = Inr e' \<longleftrightarrow> envelope_valid date_ok e \<and> e' = e"
  by (auto simp: assertEnvelope_def ok_simps envelope_valid_def envelope_of_json)

lemma assertEnvelope_Inr: "assertEnvelope date_ok d = Inr e \<Longrightarrow> e = envelope_of d \<and> ev_tenantId e \<noteq> []"
  by (auto simp: assertEnvelope_def ok_simps envelope_of_def nonEmpty_def json_string_def split: option.splits json.splits)

lemma event_context_tenant: "ev_tenantId e \<noteq> [] \<Longrightarrow> TenantContext_require (Some (event_context e)) = Inr (ev_tenantId e)"
  by (simp add: TenantContext_require_def event_context_def)

text \<open>An event can only be announced for a tenant: the one of the verified data, or the one of the request.\<close>

lemma add_envelope:
  assumes "EventOutbox_add ctx fr dbNow event payload tenantId rows = Inr (e, rows')"
  shows "ev_id e = fresh_id fr" "ev_type e = def_type event" "ev_version e = def_version event" "ev_payload e = payload"
    "ev_tenantId e \<noteq> []" "ev_occurredAt e = fresh_iso fr" "ev_id e \<notin> ob_id ` set rows" "rows' = rows @ [outbox_row dbNow e]"
  using assms by (auto simp: EventOutbox_add_def ok_simps createEvent_def envelope_with_def outbox_insert_def
      TenantContext_require_def truthy_def split: if_splits option.splits)

lemma add_tenant:
  assumes "EventOutbox_add ctx fr dbNow event payload None rows = Inr (e, rows')"
  shows "TenantContext_require ctx = Inr (ev_tenantId e)"
  using assms by (auto simp: EventOutbox_add_def ok_simps createEvent_def envelope_with_def truthy_def)

section \<open>Facts about retries\<close>

lemma backoffMs_pos: "0 < backoffMs n"
  by (simp add: backoffMs_def MAX_BACKOFF_MS_def)

lemma backoffMs_le: "backoffMs n \<le> MAX_BACKOFF_MS"
  by (simp add: backoffMs_def)

lemma backoffMs_mono: "m \<le> n \<Longrightarrow> backoffMs m \<le> backoffMs n"
  by (simp add: backoffMs_def nat_mono power_increasing min.coboundedI1 min.coboundedI2)

lemma backoffMs_double: "0 \<le> n \<Longrightarrow> n < 8 \<Longrightarrow> backoffMs (n + 1) = 2 * backoffMs n"
proof -
  assume "0 \<le> n" "n < 8"
  then have "n = 0 \<or> n = 1 \<or> n = 2 \<or> n = 3 \<or> n = 4 \<or> n = 5 \<or> n = 6 \<or> n = 7" by presburger
  then show ?thesis by (auto simp: backoffMs_def MAX_BACKOFF_MS_def)
qed

definition ob_settled :: "OutboxEvent \<Rightarrow> bool" where
  "ob_settled r \<longleftrightarrow> ob_publishedAt r \<noteq> None \<or> ob_failedAt r \<noteq> None"

text \<open>How many more publish attempts a row can cause: none once it is settled.\<close>

definition ob_budget :: "int \<Rightarrow> OutboxEvent \<Rightarrow> nat" where
  "ob_budget maxA r = (if ob_settled r then 0 else max 1 (nat (maxA - ob_attempts r)))"

text \<open>What an attempt at \<open>now\<close> makes of a row.\<close>

definition attempted :: "int \<Rightarrow> int \<Rightarrow> OutboxEvent \<Rightarrow> OutboxEvent \<Rightarrow> bool" where
  "attempted maxA now r r' \<longleftrightarrow> r' = markPublished now r \<or> (\<exists>err. r' = markFailed err now maxA r)"

lemma markPublished_fields [simp]:
  "ob_id (markPublished now r) = ob_id r" "ob_payload (markPublished now r) = ob_payload r"
  "ob_publishedAt (markPublished now r) = Some now" "ob_attempts (markPublished now r) = ob_attempts r"
  by (simp_all add: markPublished_def)

lemma markFailed_fields [simp]:
  "ob_id (markFailed err now maxA r) = ob_id r" "ob_payload (markFailed err now maxA r) = ob_payload r"
  "ob_publishedAt (markFailed err now maxA r) = ob_publishedAt r" "ob_attempts (markFailed err now maxA r) = ob_attempts r + 1"
  "ob_failedAt (markFailed err now maxA r) = (if maxA \<le> ob_attempts r + 1 then Some now else ob_failedAt r)"
  "ob_nextAttemptAt (markFailed err now maxA r) =
     (if maxA \<le> ob_attempts r + 1 then ob_nextAttemptAt r else now + backoffMs (ob_attempts r + 1))"
  by (simp_all add: markFailed_def Let_def)

lemma attempted_key: "attempted maxA now r r' \<Longrightarrow> ob_id r' = ob_id r"
  by (auto simp: attempted_def)

lemma attempted_payload: "attempted maxA now r r' \<Longrightarrow> ob_payload r' = ob_payload r"
  by (auto simp: attempted_def)

lemma attempted_budget: "attempted maxA now r r' \<Longrightarrow> \<not> ob_settled r \<Longrightarrow> ob_budget maxA r' < ob_budget maxA r"
  by (auto simp: attempted_def ob_budget_def ob_settled_def split: if_splits)

lemma attempted_next: "attempted maxA now r r' \<Longrightarrow> \<not> ob_settled r' \<Longrightarrow> ob_nextAttemptAt r' \<le> now + MAX_BACKOFF_MS"
  by (auto simp: attempted_def ob_settled_def backoffMs_le)

lemma attempted_result:
  "attempted maxA now r r' \<Longrightarrow> \<not> ob_settled r \<Longrightarrow> (ob_publishedAt r' = Some now \<and> ob_attempts r' = ob_attempts r) \<or>
     (ob_publishedAt r' = None \<and> ob_attempts r' = ob_attempts r + 1 \<and> (ob_failedAt r' \<noteq> None \<longleftrightarrow> maxA \<le> ob_attempts r'))"
  by (auto simp: attempted_def ob_settled_def split: if_splits)

lemma relay_rows_attempted:
  "relay_rows publish clk maxA i rs q = (rs', n, q') \<Longrightarrow> list_all2 (\<lambda>r r'. \<exists>k. attempted maxA (clk k) r r') rs rs'"
proof (induction rs arbitrary: i q rs' n q')
  case (Cons r rs)
  obtain res q1 where p: "publish (ob_payload r) q = (res, q1)" by fastforce
  obtain rs1 n1 q2 where rec: "relay_rows publish clk maxA (Suc i) rs q1 = (rs1, n1, q2)" by (metis prod_cases3)
  have "list_all2 (\<lambda>r r'. \<exists>k. attempted maxA (clk k) r r') rs rs1" by (rule Cons.IH [OF rec])
  moreover have "rs' = (case res of Inl err \<Rightarrow> markFailed err (clk i) maxA r | Inr _ \<Rightarrow> markPublished (clk i) r) # rs1"
    using Cons.prems p rec by (cases res) auto
  ultimately show ?case by (cases res) (auto simp: attempted_def)
qed simp

text \<open>A pass changes the rows it claimed, here by a relation \<open>R\<close>, and leaves the others as they were.\<close>

definition pass_rel :: "(OutboxEvent \<Rightarrow> OutboxEvent \<Rightarrow> bool) \<Rightarrow> OutboxEvent list \<Rightarrow> OutboxEvent list \<Rightarrow> OutboxEvent list \<Rightarrow> bool" where
  "pass_rel R claimed rows rows' \<longleftrightarrow> list_all2 (\<lambda>r r'. if r \<in> set claimed then R r r' else r' = r) rows rows'"

lemma find_saved:
  assumes "list_all2 R cs ss" "distinct (map ob_id cs)" "\<And>r r'. R r r' \<Longrightarrow> ob_id r' = ob_id r"
  shows "r \<in> set cs \<Longrightarrow> \<exists>s. find (\<lambda>s. ob_id s = ob_id r) ss = Some s \<and> R r s"
    and "ob_id r \<notin> ob_id ` set cs \<Longrightarrow> find (\<lambda>s. ob_id s = ob_id r) ss = None"
  using assms(1,2)
proof (induction rule: list_all2_induct)
  case (Cons c cs s ss)
  note key = assms(3) [OF Cons(1)]
  {
    case 1
    then show ?case
    proof (cases "r = c")
      case True
      then show ?thesis using Cons(1) key by auto
    next
      case False
      then have "ob_id r \<noteq> ob_id c" "r \<in> set cs" using 1 by (auto simp: image_iff)
      then show ?thesis using Cons.IH(1) 1(2) key by auto
    qed
  next
    case 2
    then show ?case using Cons.IH(2) key by auto
  }
qed simp_all

lemma relay_claim_sub:
  assumes "\<And>xs. mset (order xs) = mset xs"
  shows "set (relay_claim order locked dbNow cfg rows) \<subseteq> {r \<in> set rows. outbox_due dbNow locked r}"
  using set_take_subset [of "nat (relayBatch cfg)" "order (filter (outbox_due dbNow locked) rows)"]
    mset_eq_setD [OF assms, of "filter (outbox_due dbNow locked) rows"]
  by (auto simp: relay_claim_def)

lemma relay_claim_distinct:
  assumes "\<And>xs. mset (order xs) = mset xs" "distinct (map ob_id rows)"
  shows "distinct (map ob_id (relay_claim order locked dbNow cfg rows))"
proof -
  let ?due = "filter (outbox_due dbNow locked) rows"
  have "distinct (map ob_id ?due)" using assms(2) by (simp add: distinct_map_filter)
  moreover have "mset (map ob_id (order ?due)) = mset (map ob_id ?due)" using assms(1) by simp
  ultimately have "distinct (map ob_id (order ?due))" using mset_eq_imp_distinct_iff by blast
  then show ?thesis unfolding relay_claim_def take_map [symmetric] by (rule distinct_take)
qed

lemma relayOnce_rel:
  assumes "\<And>xs. mset (order xs) = mset xs" "distinct (map ob_id rows)" "\<And>r r'. R r r' \<Longrightarrow> ob_id r' = ob_id r"
    and "relay_rows publish clk (maxAttempts cfg) 0 (relay_claim order locked dbNow cfg rows) q = (ss, n, q')"
    and "list_all2 R (relay_claim order locked dbNow cfg rows) ss"
  shows "relayOnce publish order locked clk dbNow cfg rows q = (outbox_save ss rows, n, q')"
    and "pass_rel R (relay_claim order locked dbNow cfg rows) rows (outbox_save ss rows)"
proof -
  let ?cs = "relay_claim order locked dbNow cfg rows"
  note saved = find_saved [OF assms(5) relay_claim_distinct [OF assms(1,2)] assms(3)]
  have "R r (case find (\<lambda>s. ob_id s = ob_id r) ss of None \<Rightarrow> r | Some s \<Rightarrow> s)"
    if "r \<in> set ?cs" for r using saved(1) [OF _ that] by fastforce
  moreover have "find (\<lambda>s. ob_id s = ob_id r) ss = None" if "r \<in> set rows" "r \<notin> set ?cs" for r
  proof (rule saved(2), assumption)
    show "ob_id r \<notin> ob_id ` set ?cs"
      using that relay_claim_sub [OF assms(1), of locked dbNow cfg rows] assms(2) by (auto simp: distinct_map dest: inj_onD)
  qed
  ultimately show "pass_rel R ?cs rows (outbox_save ss rows)"
    by (auto simp: outbox_save_def pass_rel_def list_all2_map2 intro!: list.rel_refl_strong)
  show "relayOnce publish order locked clk dbNow cfg rows q = (outbox_save ss rows, n, q')"
    using assms(4) by (simp add: relayOnce_def)
qed

lemma pass_rel_row:
  assumes "pass_rel R cs rows rows'" "r' \<in> set rows'"
  obtains r where "r \<in> set rows" "r' = r \<or> (r \<in> set cs \<and> R r r')"
proof -
  obtain i where "i < length rows'" "r' = rows' ! i" using assms(2) by (auto simp: in_set_conv_nth)
  moreover have "length rows' = length rows" using assms(1) by (auto simp: pass_rel_def dest: list_all2_lengthD)
  ultimately have "rows ! i \<in> set rows" "if rows ! i \<in> set cs then R (rows ! i) r' else r' = rows ! i"
    using assms(1) by (auto simp: pass_rel_def list_all2_conv_all_nth)
  then show thesis using that by (auto split: if_splits)
qed

lemma pass_rel_keys:
  assumes "pass_rel R cs rows rows'" "\<And>r r'. R r r' \<Longrightarrow> ob_id r' = ob_id r"
  shows "map ob_id rows' = map ob_id rows"
  using assms(1) unfolding pass_rel_def by (induction rule: list_all2_induct) (auto split: if_splits dest: assms(2))

abbreviation pass_effect :: "int \<Rightarrow> (nat \<Rightarrow> int) \<Rightarrow> OutboxEvent list \<Rightarrow> OutboxEvent list \<Rightarrow> OutboxEvent list \<Rightarrow> bool" where
  "pass_effect maxA clk \<equiv> pass_rel (\<lambda>r r'. \<exists>k. attempted maxA (clk k) r r')"

lemma relayOnce_effect:
  assumes "\<And>xs. mset (order xs) = mset xs" "distinct (map ob_id rows)"
    and "relayOnce publish order locked clk dbNow cfg rows q = (rows', n, q')"
  shows "pass_effect (maxAttempts cfg) clk (relay_claim order locked dbNow cfg rows) rows rows'"
proof -
  obtain ss m q1 where ss: "relay_rows publish clk (maxAttempts cfg) 0 (relay_claim order locked dbNow cfg rows) q = (ss, m, q1)"
    by (metis prod_cases3)
  have key: "ob_id r' = ob_id r" if "\<exists>k. attempted (maxAttempts cfg) (clk k) r r'" for r r' using that attempted_key by blast
  note rel = relayOnce_rel [OF assms(1,2) key ss relay_rows_attempted [OF ss]]
  from rel(1) assms(3) have "rows' = outbox_save ss rows" by simp
  then show ?thesis using rel(2) by simp
qed

lemma pass_effect_keys: "pass_effect maxA clk cs rows rows' \<Longrightarrow> map ob_id rows' = map ob_id rows"
  by (erule pass_rel_keys) (blast dest: attempted_key)

section \<open>Runs of the relay\<close>

text \<open>What the environment gives to one pass; a run is a sequence of passes.\<close>

record RelayPass =
  ps_order :: "OutboxEvent list \<Rightarrow> OutboxEvent list"
  ps_locked :: "string \<Rightarrow> bool"
  ps_clk :: "nat \<Rightarrow> int"
  ps_now :: int

definition relay_pass :: "'q publisher \<Rightarrow> EventsConfig \<Rightarrow> RelayPass \<Rightarrow> OutboxEvent list \<Rightarrow> 'q \<Rightarrow> OutboxEvent list \<times> int \<times> 'q" where
  "relay_pass publish cfg p = relayOnce publish (ps_order p) (ps_locked p) (ps_clk p) (ps_now p) cfg"

text \<open>The outbox and the bus after a run, and how often an event was handed to the publisher on the way.\<close>

fun relay_run :: "'q publisher \<Rightarrow> EventsConfig \<Rightarrow> RelayPass list \<Rightarrow> OutboxEvent list \<Rightarrow> 'q \<Rightarrow> OutboxEvent list \<times> nat \<times> 'q" where
  "relay_run publish cfg [] rows q = (rows, 0, q)"
| "relay_run publish cfg (p # ps) rows q =
    (case relay_pass publish cfg p rows q of (rows1, _, q1) \<Rightarrow>
     case relay_run publish cfg ps rows1 q1 of (rows2, n, q2) \<Rightarrow>
       (rows2, length (relay_claim (ps_order p) (ps_locked p) (ps_now p) cfg rows) + n, q2))"

definition ordered_pass :: "RelayPass \<Rightarrow> bool" where
  "ordered_pass p \<longleftrightarrow> (\<forall>xs. mset (ps_order p xs) = mset xs)"

text \<open>Passes without foreign locks, each at least the longest backoff after the rounds of the one before.\<close>

fun spaced :: "int \<Rightarrow> RelayPass list \<Rightarrow> bool" where
  "spaced t [] = True"
| "spaced t (p # ps) = (t \<le> ps_now p \<and> (\<forall>i. \<not> ps_locked p i) \<and>
     (\<exists>t'. (\<forall>k. ps_clk p k \<le> t') \<and> ps_now p \<le> t' \<and> spaced (t' + MAX_BACKOFF_MS) ps))"

definition outbox_budget :: "int \<Rightarrow> OutboxEvent list \<Rightarrow> nat" where
  "outbox_budget maxA rows = sum_list (map (ob_budget maxA) rows)"

lemma pass_budget:
  assumes "pass_effect maxA clk cs rows rows'" "\<forall>r \<in> set cs. \<not> ob_settled r"
  shows "outbox_budget maxA rows' + length (filter (\<lambda>r. r \<in> set cs) rows) \<le> outbox_budget maxA rows"
  using assms(1) unfolding pass_rel_def
proof (induction rule: list_all2_induct)
  case (Cons r rows r' rows')
  show ?case
  proof (cases "r \<in> set cs")
    case True
    then obtain k where "attempted maxA (clk k) r r'" using Cons(1) by auto
    then have "ob_budget maxA r' < ob_budget maxA r" using assms(2) True by (blast intro: attempted_budget)
    then show ?thesis using Cons True by (simp add: outbox_budget_def)
  next
    case False
    then show ?thesis using Cons by (simp add: outbox_budget_def)
  qed
qed (simp add: outbox_budget_def)

lemma claim_length:
  assumes "\<And>xs. mset (order xs) = mset xs" "distinct (map ob_id rows)"
  shows "length (relay_claim order locked dbNow cfg rows) =
    length (filter (\<lambda>r. r \<in> set (relay_claim order locked dbNow cfg rows)) rows)"
proof -
  let ?cs = "relay_claim order locked dbNow cfg rows"
  have "distinct ?cs" using relay_claim_distinct [OF assms, of locked dbNow cfg] by (simp add: distinct_map)
  moreover have "distinct (filter (\<lambda>r. r \<in> set ?cs) rows)" using assms(2) by (simp add: distinct_map)
  moreover have "set (filter (\<lambda>r. r \<in> set ?cs) rows) = set ?cs"
    using relay_claim_sub [OF assms(1), of locked dbNow cfg rows] by auto
  ultimately show ?thesis by (metis distinct_card)
qed

lemma relay_pass_facts:
  assumes "ordered_pass p" "distinct (map ob_id rows)" "relay_pass publish cfg p rows q = (rows', n, q')"
  shows "pass_effect (maxAttempts cfg) (ps_clk p) (relay_claim (ps_order p) (ps_locked p) (ps_now p) cfg rows) rows rows'"
    and "distinct (map ob_id rows')"
    and "outbox_budget (maxAttempts cfg) rows' + length (relay_claim (ps_order p) (ps_locked p) (ps_now p) cfg rows)
      \<le> outbox_budget (maxAttempts cfg) rows"
proof -
  let ?cs = "relay_claim (ps_order p) (ps_locked p) (ps_now p) cfg rows"
  have perm: "mset (ps_order p xs) = mset xs" for xs using assms(1) by (simp add: ordered_pass_def)
  show eff: "pass_effect (maxAttempts cfg) (ps_clk p) ?cs rows rows'"
    using assms(3) unfolding relay_pass_def by (rule relayOnce_effect [OF perm assms(2)])
  show "distinct (map ob_id rows')" using pass_effect_keys [OF eff] assms(2) by simp
  have "\<forall>r \<in> set ?cs. \<not> ob_settled r"
    using relay_claim_sub [of "ps_order p" "ps_locked p" "ps_now p" cfg rows] perm by (auto simp: outbox_due_def ob_settled_def)
  then show "outbox_budget (maxAttempts cfg) rows' + length ?cs \<le> outbox_budget (maxAttempts cfg) rows"
    using pass_budget [OF eff] claim_length [OF perm assms(2), of "ps_locked p" "ps_now p" cfg] by simp
qed

lemma relay_run_budget:
  assumes "\<forall>p \<in> set ps. ordered_pass p" "distinct (map ob_id rows)" "relay_run publish cfg ps rows q = (rows', n, q')"
  shows "outbox_budget (maxAttempts cfg) rows' + n \<le> outbox_budget (maxAttempts cfg) rows \<and> map ob_id rows' = map ob_id rows"
  using assms
proof (induction ps arbitrary: rows q n)
  case (Cons p ps)
  obtain rows1 m q1 where pass: "relay_pass publish cfg p rows q = (rows1, m, q1)" by (metis prod_cases3)
  obtain rows2 k q2 where run: "relay_run publish cfg ps rows1 q1 = (rows2, k, q2)" by (metis prod_cases3)
  have "ordered_pass p" using Cons.prems(1) by simp
  note facts = relay_pass_facts [OF this Cons.prems(2) pass]
  have eqs: "rows2 = rows'" "q2 = q'" "n = length (relay_claim (ps_order p) (ps_locked p) (ps_now p) cfg rows) + k"
    using Cons.prems(3) pass run by simp_all
  show ?case
    using Cons.IH [OF _ facts(2) run [unfolded eqs(1,2)]] facts(3) pass_effect_keys [OF facts(1)] Cons.prems(1) eqs(3) by simp
qed simp

lemma budget_zero: "outbox_budget maxA rows = 0 \<longleftrightarrow> (\<forall>r \<in> set rows. ob_settled r)"
  by (induction rows) (auto simp: outbox_budget_def ob_budget_def)

lemma budget_le: "\<forall>r \<in> set rows. 0 \<le> ob_attempts r \<Longrightarrow> outbox_budget maxA rows \<le> length rows * nat (max 1 maxA)"
  by (induction rows) (fastforce simp: outbox_budget_def ob_budget_def)+

lemma claim_nonempty:
  assumes "\<And>xs. mset (order xs) = mset xs" "1 \<le> relayBatch cfg" "r \<in> set rows" "outbox_due dbNow locked r"
  shows "relay_claim order locked dbNow cfg rows \<noteq> []"
proof -
  have "r \<in> set (order (filter (outbox_due dbNow locked) rows))"
    using assms(3,4) mset_eq_setD [OF assms(1), of "filter (outbox_due dbNow locked) rows"] by simp
  then have "order (filter (outbox_due dbNow locked) rows) \<noteq> []" by (cases "order (filter (outbox_due dbNow locked) rows)") auto
  then show ?thesis using assms(2) by (simp add: relay_claim_def)
qed

lemma pass_next_attempt:
  assumes "pass_effect maxA clk cs rows rows'" "\<forall>r \<in> set rows. \<not> ob_settled r \<longrightarrow> ob_nextAttemptAt r \<le> t" "t \<le> t'" "\<forall>k. clk k \<le> t'"
  shows "\<forall>r \<in> set rows'. \<not> ob_settled r \<longrightarrow> ob_nextAttemptAt r \<le> t' + MAX_BACKOFF_MS"
proof (intro ballI impI)
  fix r'
  assume r': "r' \<in> set rows'" "\<not> ob_settled r'"
  obtain r where r: "r \<in> set rows" "r' = r \<or> (r \<in> set cs \<and> (\<exists>k. attempted maxA (clk k) r r'))"
    using pass_rel_row [OF assms(1) r'(1)] by blast
  have "0 \<le> MAX_BACKOFF_MS" by (simp add: MAX_BACKOFF_MS_def)
  moreover have "ob_nextAttemptAt r' \<le> clk k + MAX_BACKOFF_MS" if "attempted maxA (clk k) r r'" for k
    using attempted_next [OF that r'(2)] .
  moreover have "clk k + MAX_BACKOFF_MS \<le> t' + MAX_BACKOFF_MS" for k using assms(4) by simp
  ultimately show "ob_nextAttemptAt r' \<le> t' + MAX_BACKOFF_MS" using r assms(2,3) r'(2) by (meson add_increasing2 order_trans)
qed

lemma pass_progress:
  assumes "ordered_pass p" "distinct (map ob_id rows)" "relay_pass publish cfg p rows q = (rows', n, q')"
    and "1 \<le> relayBatch cfg" "\<forall>i. \<not> ps_locked p i" "\<forall>r \<in> set rows. \<not> ob_settled r \<longrightarrow> ob_nextAttemptAt r \<le> ps_now p"
    and "outbox_budget (maxAttempts cfg) rows \<le> Suc m"
  shows "outbox_budget (maxAttempts cfg) rows' \<le> m"
proof (cases "\<forall>r \<in> set rows. ob_settled r")
  case True
  then show ?thesis using relay_pass_facts(3) [OF assms(1-3)] budget_zero [of "maxAttempts cfg" rows] by simp
next
  case False
  then obtain r where "r \<in> set rows" "outbox_due (ps_now p) (ps_locked p) r"
    using assms(5,6) by (auto simp: outbox_due_def ob_settled_def)
  then have "relay_claim (ps_order p) (ps_locked p) (ps_now p) cfg rows \<noteq> []"
    using assms(1,4) by (intro claim_nonempty) (auto simp: ordered_pass_def)
  then show ?thesis
    using relay_pass_facts(3) [OF assms(1-3)] assms(7)
    by (cases "relay_claim (ps_order p) (ps_locked p) (ps_now p) cfg rows") simp_all
qed

lemma relay_run_drains:
  assumes "\<forall>p \<in> set ps. ordered_pass p" "distinct (map ob_id rows)" "relay_run publish cfg ps rows q = (rows', n, q')"
    and "1 \<le> relayBatch cfg" "spaced t ps" "\<forall>r \<in> set rows. \<not> ob_settled r \<longrightarrow> ob_nextAttemptAt r \<le> t"
    and "outbox_budget (maxAttempts cfg) rows \<le> length ps"
  shows "\<forall>r \<in> set rows'. ob_settled r"
  using assms
proof (induction ps arbitrary: rows q n t)
  case Nil
  then show ?case using budget_zero [of "maxAttempts cfg" rows'] by simp
next
  case (Cons p ps)
  obtain rows1 m q1 where pass: "relay_pass publish cfg p rows q = (rows1, m, q1)" by (metis prod_cases3)
  obtain rows2 k q2 where run: "relay_run publish cfg ps rows1 q1 = (rows2, k, q2)" by (metis prod_cases3)
  have eqs: "rows2 = rows'" "q2 = q'" using Cons.prems(3) pass run by simp_all
  from Cons.prems(5) obtain t' where t': "t \<le> ps_now p" "\<forall>i. \<not> ps_locked p i" "\<forall>k. ps_clk p k \<le> t'" "ps_now p \<le> t'"
    "spaced (t' + MAX_BACKOFF_MS) ps" by auto
  have ord: "ordered_pass p" "\<forall>p \<in> set ps. ordered_pass p" using Cons.prems(1) by simp_all
  note facts = relay_pass_facts [OF ord(1) Cons.prems(2) pass]
  have "\<forall>r \<in> set rows. \<not> ob_settled r \<longrightarrow> ob_nextAttemptAt r \<le> ps_now p" using Cons.prems(6) t'(1) by force
  then have budget: "outbox_budget (maxAttempts cfg) rows1 \<le> length ps"
    using pass_progress [OF ord(1) Cons.prems(2) pass Cons.prems(4) t'(2)] Cons.prems(7) by simp
  show ?case
    by (rule Cons.IH [OF ord(2) facts(2) run [unfolded eqs] Cons.prems(4) t'(5) _ budget])
      (rule pass_next_attempt [OF facts(1) Cons.prems(6) _ t'(3)], use t' in simp)
qed

section \<open>The retry schedule\<close>

fun fail_times :: "int \<Rightarrow> (string \<times> int) list \<Rightarrow> OutboxEvent \<Rightarrow> OutboxEvent" where
  "fail_times maxA [] r = r"
| "fail_times maxA ((err, now) # fs) r = fail_times maxA fs (markFailed err now maxA r)"

lemma fail_times_snoc: "fail_times maxA (fs @ [(err, now)]) r = markFailed err now maxA (fail_times maxA fs r)"
  by (induction maxA fs r rule: fail_times.induct) simp_all

lemma fail_times_attempts: "ob_attempts (fail_times maxA fs r) = ob_attempts r + int (length fs)"
  by (induction maxA fs r rule: fail_times.induct) simp_all

lemma fail_times_open:
  "ob_failedAt r = None \<Longrightarrow> ob_attempts r + int (length fs) < maxA \<Longrightarrow> ob_failedAt (fail_times maxA fs r) = None"
  by (induction maxA fs r rule: fail_times.induct) simp_all

text \<open>
  The retry schedule. A row that was announced and failed k times in a row, the last time at now, waits until now plus
  2 ^ k seconds, at most five minutes, while k is below the limit; at the limit it is parked; it keeps its document and at most
  500 characters of the error.
\<close>

theorem retry_schedule:
  assumes "r = fail_times maxA (fs @ [(err, now)]) (outbox_row dbNow e)" "k = length fs + 1" "int k \<le> maxA"
  shows "ob_attempts r = int k \<and> ob_publishedAt r = None \<and> ob_payload r = json_of_envelope e \<and> ob_lastError r = Some (take 500 err) \<and>
    (if int k < maxA then ob_failedAt r = None \<and> ob_nextAttemptAt r = now + min (2 ^ k * 1000) 300000 else ob_failedAt r = Some now)"
proof -
  let ?before = "fail_times maxA fs (outbox_row dbNow e)"
  have kept: "ob_publishedAt (fail_times maxA fs x) = ob_publishedAt x" "ob_payload (fail_times maxA fs x) = ob_payload x" for x
    by (induction maxA fs x rule: fail_times.induct) simp_all
  have attempts: "ob_attempts ?before = int (length fs)" by (simp add: fail_times_attempts outbox_row_def)
  have open_row: "ob_failedAt ?before = None" using assms(2,3) by (intro fail_times_open) (simp_all add: outbox_row_def)
  have "nat (int (length fs) + 1) = k" using assms(2) by simp
  then have wait: "backoffMs (int (length fs) + 1) = min (2 ^ k * 1000) 300000" by (simp add: backoffMs_def MAX_BACKOFF_MS_def)
  have "ob_lastError r = Some (take 500 err)" using assms(1) by (simp add: fail_times_snoc markFailed_def Let_def)
  then show ?thesis
    using assms kept attempts open_row wait by (simp add: fail_times_snoc) (simp add: outbox_row_def)
qed

theorem retry_schedule_witness:
  "ob_nextAttemptAt (fail_times 10 [(''a'', 0), (''b'', 2000), (''c'', 6000)]
     (outbox_row 0 \<lparr>ev_id = ''e1'', ev_type = ''t'', ev_version = Fin 1, ev_occurredAt = ''d'', ev_tenantId = ''t1'', ev_actor = None,
        ev_traceId = ''r'', ev_payload = None\<rparr>)) = 14000"
  using retry_schedule [OF refl refl, where maxA = 10 and fs = "[(''a'', 0), (''b'', 2000)]" and err = "''c''" and now = 6000]
  by (simp del: fail_times.simps markFailed_fields)

text \<open>A setting between zero and one passes the check for a positive number and is then rounded down to zero.\<close>

lemma fractional_setting: "int_setting (Some ''0.5'') 50 = 0"
  by code_simp

end
