(* ===== verification/EventDelivery.thy ===== *)
theory EventDelivery
  imports EventOutbox
begin

text \<open>
  How an announced event reaches the services that subscribe to it (\<^verbatim>\<open>libs/contracts\<close>: the topology; \<^verbatim>\<open>libs/events\<close>: queue
  provisioning, publishers, handler registry, consumer), and the whole bus as a step relation: services write events,
  the relay sends them, queues deliver them any number of times, consumers run their handlers. The queue service is
  a third party: what its commands answer is an argument.
\<close>

section \<open>Topology\<close>

definition TOPOLOGY_producers :: "(string \<times> string list) list" where
  "TOPOLOGY_producers =
    [(''platform'', [''platform.branch.created'', ''platform.branch.updated'', ''platform.account.logged_in'',
       ''platform.membership.granted'', ''platform.membership.role_changed'', ''platform.tenant.created'',
       ''platform.tenant.updated'', ''platform.tenant.status_changed'', ''platform.plan.changed'',
       ''platform.subscription.changed'']),
     (''catalog'', [''catalog.product.created'', ''catalog.product.updated'', ''catalog.product.deactivated'',
       ''catalog.variant.created'', ''catalog.variant.updated'', ''catalog.variant.deactivated'',
       ''catalog.price.changed'', ''catalog.usage.changed'']),
     (''inventory'', [''inventory.reservation.confirmed'', ''inventory.reservation.committed'',
       ''inventory.reservation.released'', ''inventory.reservation.expired'', ''inventory.stock.changed'',
       ''inventory.stock.received'', ''inventory.stock.issued'', ''inventory.transfer.dispatched'',
       ''inventory.transfer.received'', ''inventory.stocktake.adjusted'', ''inventory.purchase_order.approved'',
       ''inventory.stock.below_min'']),
     (''sales'', [''sales.order.created'', ''sales.order.confirmed'', ''sales.order.cancelled'', ''sales.order.completed'',
       ''sales.checkout.completed'', ''sales.checkout.reconciliation_required'', ''sales.tender.recorded'',
       ''sales.payment.confirmed'', ''sales.return.created'', ''sales.return.approved'',
       ''sales.return.completed'', ''sales.refund.requested'', ''sales.shift.opened'', ''sales.shift.closed'',
       ''sales.fulfillment.completed'']),
     (''customer'', [''customer.created'', ''customer.updated'', ''customer.deactivated'', ''customer.group.changed'',
       ''customer.membership.changed'', ''customer.loyalty.points_earned'', ''customer.loyalty.points_redeemed'',
       ''customer.loyalty.points_reversed'', ''customer.loyalty.hold_created'',
       ''customer.loyalty.hold_committed'', ''customer.loyalty.hold_released'',
       ''customer.loyalty.hold_expired'']),
     (''finance'', [''finance.cashbook.entry_posted'', ''finance.receivable.created'', ''finance.receivable.payment_applied'',
       ''finance.payable.created'', ''finance.payable.payment_applied'', ''finance.credit.authorized'',
       ''finance.credit.committed'', ''finance.credit.released'', ''finance.payment.settlement_confirmed'',
       ''finance.refund.completed'', ''finance.refund.reconciliation_required'',
       ''finance.cod.settlement_reconciled'', ''finance.cod.discrepancy_detected'']),
     (''integration'', [''integration.connection.connected'', ''integration.connection.disconnected'',
       ''integration.connection.reauth_required'', ''integration.sku_mapping.created'',
       ''integration.sku_mapping.updated'', ''integration.external_order.received'',
       ''integration.external_order.imported'', ''integration.external_order.mapping_required'',
       ''integration.external_order.sync_failed'', ''integration.inventory.publication_succeeded'',
       ''integration.inventory.publication_failed'', ''integration.sync_job.completed'',
       ''integration.sync_job.failed'', ''integration.reconciliation.discrepancy_detected'']),
     (''insight'', [''insight.projection.rebuilt'', ''insight.projection.stale_detected'',
       ''insight.reconciliation.discrepancy_detected'', ''insight.export.completed'', ''insight.export.failed''])]"

definition TOPOLOGY_subscriptions :: "(string \<times> string list) list" where
  "TOPOLOGY_subscriptions =
    [(''catalog'', [''platform.subscription.changed'', ''platform.plan.changed'']),
     (''platform'', [''catalog.usage.changed'']),
     (''sales'', [''platform.branch.created'', ''platform.branch.updated'', ''platform.tenant.status_changed'',
       ''platform.subscription.changed'', ''catalog.product.created'', ''catalog.product.updated'',
       ''catalog.product.deactivated'', ''catalog.variant.created'', ''catalog.variant.updated'',
       ''catalog.variant.deactivated'', ''catalog.price.changed'', ''inventory.reservation.confirmed'',
       ''inventory.reservation.committed'', ''inventory.reservation.released'',
       ''inventory.reservation.expired'']),
     (''inventory'', [''platform.branch.created'', ''platform.branch.updated'', ''catalog.product.created'',
       ''catalog.product.updated'', ''catalog.product.deactivated'', ''catalog.variant.created'',
       ''catalog.variant.updated'', ''catalog.variant.deactivated'', ''sales.order.completed'']),
     (''customer'', [''sales.order.completed'', ''sales.checkout.completed'', ''sales.order.cancelled'',
       ''sales.return.completed'', ''finance.receivable.created'', ''finance.receivable.payment_applied'']),
     (''finance'', [''platform.branch.created'', ''platform.branch.updated'', ''sales.order.completed'',
       ''sales.checkout.completed'', ''sales.tender.recorded'', ''sales.payment.confirmed'',
       ''sales.return.completed'', ''sales.refund.requested'', ''sales.shift.closed'',
       ''sales.fulfillment.completed'', ''inventory.purchase_order.approved'', ''inventory.stock.received'',
       ''customer.created'', ''customer.updated'', ''customer.deactivated'']),
     (''integration'', [''platform.branch.created'', ''platform.branch.updated'', ''platform.tenant.status_changed'',
       ''platform.subscription.changed'', ''catalog.product.created'', ''catalog.product.updated'',
       ''catalog.product.deactivated'', ''catalog.variant.created'', ''catalog.variant.updated'',
       ''catalog.variant.deactivated'', ''catalog.price.changed'', ''inventory.stock.changed'',
       ''inventory.reservation.confirmed'', ''inventory.reservation.committed'',
       ''inventory.reservation.released'', ''inventory.reservation.expired'', ''inventory.transfer.received'',
       ''inventory.stocktake.adjusted'', ''sales.order.confirmed'', ''sales.order.cancelled'',
       ''sales.order.completed'', ''sales.fulfillment.completed'']),
     (''insight'', [''platform.branch.created'', ''platform.branch.updated'', ''platform.account.logged_in'',
       ''platform.membership.granted'', ''platform.membership.role_changed'', ''platform.tenant.created'',
       ''platform.tenant.updated'', ''platform.tenant.status_changed'', ''catalog.product.created'',
       ''catalog.product.updated'', ''catalog.product.deactivated'', ''catalog.variant.created'',
       ''catalog.variant.updated'', ''catalog.variant.deactivated'', ''inventory.reservation.confirmed'',
       ''inventory.reservation.committed'', ''inventory.reservation.released'',
       ''inventory.reservation.expired'', ''inventory.stock.changed'', ''inventory.stock.below_min'',
       ''inventory.stock.received'', ''inventory.stock.issued'', ''inventory.transfer.dispatched'',
       ''inventory.transfer.received'', ''inventory.stocktake.adjusted'', ''inventory.purchase_order.approved'',
       ''sales.order.created'', ''sales.order.confirmed'', ''sales.order.cancelled'', ''sales.order.completed'',
       ''sales.checkout.completed'', ''sales.return.completed'', ''customer.created'', ''customer.updated'',
       ''customer.deactivated'', ''customer.group.changed'', ''finance.cashbook.entry_posted'',
       ''finance.receivable.payment_applied'', ''integration.external_order.mapping_required'',
       ''integration.sync_job.failed''])]"

text \<open>Services whose queue must receive an event of this type, and the service that produces it.\<close>

definition subscribersOf :: "string \<Rightarrow> string list" where
  "subscribersOf type = map fst (filter (\<lambda>(_, types). type \<in> set types) TOPOLOGY_subscriptions)"

definition producerOf :: "string \<Rightarrow> string option" where
  "producerOf type = map_option fst (find (\<lambda>(_, types). type \<in> set types) TOPOLOGY_producers)"

section \<open>Queues\<close>

text \<open>
  The commands of the queue service, each on the state of that service: a queue is created by name and answers its URL, an attribute
  or the URL is looked up, a message is sent to a URL. A command may throw and may yet have taken effect.
\<close>

record 'q SqsClient =
  createQueue :: "string \<Rightarrow> 'q \<Rightarrow> (string + string) \<times> 'q"
  getQueueArn :: "string \<Rightarrow> 'q \<Rightarrow> (string + string) \<times> 'q"
  getQueueUrl_cmd :: "string \<Rightarrow> 'q \<Rightarrow> (string + string) \<times> 'q"
  sendMessage :: "string \<Rightarrow> json \<Rightarrow> 'q \<Rightarrow> (string + unit) \<times> 'q"

definition queueName :: "string \<Rightarrow> string" where
  "queueName service = service @ ''-events''"

definition dlqName :: "string \<Rightarrow> string" where
  "dlqName service = service @ ''-events-dlq''"

text \<open>A computation on a state that may throw; the state it leaves behind stays.\<close>

type_synonym ('s, 'a) prog = "'s \<Rightarrow> (string + 'a) \<times> 's"

definition sbind :: "('s, 'a) prog \<Rightarrow> ('a \<Rightarrow> ('s, 'b) prog) \<Rightarrow> ('s, 'b) prog" where
  "sbind m f = (\<lambda>s. case m s of (Inl e, s') \<Rightarrow> (Inl e, s') | (Inr a, s') \<Rightarrow> f a s')"

definition sreturn :: "'a \<Rightarrow> ('s, 'a) prog" where
  "sreturn a = (\<lambda>s. (Inr a, s))"

text \<open>The state of a client: the URLs it knows, and the queue service.\<close>

type_synonym 'q sqs_state = "(string, string) jsmap \<times> 'q"

definition remote :: "('q \<Rightarrow> (string + 'a) \<times> 'q) \<Rightarrow> ('q sqs_state, 'a) prog" where
  "remote f = (\<lambda>(urls, q). case f q of (res, q') \<Rightarrow> (res, (urls, q')))"

definition remember :: "string \<Rightarrow> string \<Rightarrow> ('q sqs_state, string) prog" where
  "remember service url = (\<lambda>(urls, q). (Inr url, (map_set service url urls, q)))"

definition cached_url :: "string \<Rightarrow> ('q sqs_state, string option) prog" where
  "cached_url service = (\<lambda>(urls, q). (Inr (if truthy (map_get urls service) then map_get urls service else None), (urls, q)))"

definition ensureQueue :: "'q SqsClient \<Rightarrow> string \<Rightarrow> ('q sqs_state, string) prog" where
  "ensureQueue sqs service =
    sbind (cached_url service) (\<lambda>cached. case cached of Some url \<Rightarrow> sreturn url | None \<Rightarrow>
    sbind (remote (createQueue sqs (dlqName service))) (\<lambda>dlq.
    sbind (remote (getQueueArn sqs dlq)) (\<lambda>arn.
    sbind (remote (createQueue sqs (queueName service))) (\<lambda>url.
    remember service url))))"

definition getQueueUrl :: "'q SqsClient \<Rightarrow> string \<Rightarrow> ('q sqs_state, string) prog" where
  "getQueueUrl sqs service =
    sbind (cached_url service) (\<lambda>cached. case cached of Some url \<Rightarrow> sreturn url | None \<Rightarrow>
    sbind (remote (getQueueUrl_cmd sqs (queueName service))) (remember service))"

definition resolveQueueUrl :: "'q SqsClient \<Rightarrow> EventsConfig \<Rightarrow> string \<Rightarrow> ('q sqs_state, string) prog" where
  "resolveQueueUrl sqs cfg service = (if transport cfg = SQS_DIRECT then ensureQueue sqs service else getQueueUrl sqs service)"

section \<open>Publishers\<close>

fun send_to :: "'q SqsClient \<Rightarrow> json \<Rightarrow> string list \<Rightarrow> ('q sqs_state, unit) prog" where
  "send_to sqs envelope [] = sreturn ()"
| "send_to sqs envelope (service # services) =
    sbind (ensureQueue sqs service) (\<lambda>url.
    sbind (remote (sendMessage sqs url envelope)) (\<lambda>_.
    send_to sqs envelope services))"

definition SqsDirectPublisher_publish :: "(string \<Rightarrow> string list) \<Rightarrow> 'q SqsClient \<Rightarrow> 'q sqs_state publisher" where
  "SqsDirectPublisher_publish subscribers sqs envelope = send_to sqs envelope (subscribers (json_string (json_field envelope ''type'')))"

text \<open>In production the topic's owner fans out: one command with the envelope and its type.\<close>

definition SnsEventPublisher_publish :: "(string \<Rightarrow> json \<Rightarrow> string \<Rightarrow> 'q \<Rightarrow> (string + unit) \<times> 'q) \<Rightarrow> string \<Rightarrow> 'q publisher" where
  "SnsEventPublisher_publish publishCommand arn envelope = publishCommand arn envelope (json_string (json_field envelope ''type''))"

section \<open>Handlers and consumers\<close>

type_synonym 's handler = "EventEnvelope \<Rightarrow> 's \<Rightarrow> string + 's"

definition register_handler :: "string \<Rightarrow> 's handler \<Rightarrow> (string, 's handler list) jsmap \<Rightarrow> (string, 's handler list) jsmap" where
  "register_handler type handler hs = map_set type ((case map_get hs type of None \<Rightarrow> [] | Some l \<Rightarrow> l) @ [handler]) hs"

definition handlersFor :: "(string, 's handler list) jsmap \<Rightarrow> string \<Rightarrow> 's handler list" where
  "handlersFor hs type = (case map_get hs type of None \<Rightarrow> [] | Some l \<Rightarrow> l)"

text \<open>A consumer's database: the inbox table, and the tables its handlers write.\<close>

record 's ConsumerDb =
  inbox :: "(string \<times> string) list"
  app_db :: 's

datatype ConsumeResult = PROCESSED | DUPLICATE

text \<open>A transaction bound to the tenant of the context: what it wrote stays only when it returns.\<close>

definition runInTenantTransaction :: "RequestContextState option \<Rightarrow> (string \<Rightarrow> 'db \<Rightarrow> string + ('r \<times> 'db)) \<Rightarrow> 'db \<Rightarrow> string + ('r \<times> 'db)" where
  "runInTenantTransaction ctx work db = ebind (TenantContext_require ctx) (\<lambda>tenantId. work tenantId db)"

definition run_handlers :: "'s handler list \<Rightarrow> EventEnvelope \<Rightarrow> 's \<Rightarrow> string + 's" where
  "run_handlers handlers event = efold (\<lambda>h. h event) handlers"

definition consume_transaction :: "'s handler list \<Rightarrow> EventEnvelope \<Rightarrow> 's ConsumerDb \<Rightarrow> string + (ConsumeResult \<times> 's ConsumerDb)" where
  "consume_transaction handlers event db =
    (if ev_id event \<in> fst ` set (inbox db) then Inr (DUPLICATE, db)
     else ebind (run_handlers handlers event (app_db db)) (\<lambda>s.
       Inr (PROCESSED, db\<lparr>inbox := inbox db @ [(ev_id event, ev_type event)], app_db := s\<rparr>)))"

text \<open>A body is the document it spells; no document when it is not JSON.\<close>

definition handleBody :: "(string \<Rightarrow> bool) \<Rightarrow> (string, 's handler list) jsmap \<Rightarrow> json option \<Rightarrow> 's ConsumerDb \<Rightarrow>
    string + (ConsumeResult \<times> 's ConsumerDb)" where
  "handleBody date_ok registry body db =
    (case body of None \<Rightarrow> Inl ''SyntaxError''
     | Some doc \<Rightarrow> consumeEvent date_ok doc (\<lambda>ctx event.
         let handlers = handlersFor registry (ev_type event) in
         if handlers = [] then Inr (PROCESSED, db)
         else runInTenantTransaction ctx (\<lambda>_. consume_transaction handlers event) db))"

text \<open>One message: whether it may be deleted from the queue, and the database afterwards.\<close>

definition process_message :: "(string \<Rightarrow> bool) \<Rightarrow> (string, 's handler list) jsmap \<Rightarrow> json option \<Rightarrow> 's ConsumerDb \<Rightarrow> bool \<times> 's ConsumerDb" where
  "process_message date_ok registry body db =
    (case handleBody date_ok registry body db of Inl _ \<Rightarrow> (False, db) | Inr (_, db') \<Rightarrow> (True, db'))"

text \<open>
  The messages of one receive, at most ten: \<open>stopped\<close> is the shutdown flag before each, \<open>deletes\<close> whether the delete command of
  each succeeds. A failing delete ends the round; the rest will be delivered again.
\<close>

fun poll_messages :: "(string \<Rightarrow> bool) \<Rightarrow> (string, 's handler list) jsmap \<Rightarrow> (nat \<Rightarrow> bool) \<Rightarrow> (nat \<Rightarrow> bool) \<Rightarrow> nat \<Rightarrow>
    (string \<times> json option) list \<Rightarrow> 's ConsumerDb \<Rightarrow> string list \<times> 's ConsumerDb" where
  "poll_messages date_ok registry stopped deletes i [] db = ([], db)"
| "poll_messages date_ok registry stopped deletes i ((receipt, body) # ms) db =
    (if stopped i then ([], db)
     else case process_message date_ok registry body db of
       (False, db1) \<Rightarrow> poll_messages date_ok registry stopped deletes (Suc i) ms db1
     | (True, db1) \<Rightarrow> if \<not> deletes i then ([], db1)
         else case poll_messages date_ok registry stopped deletes (Suc i) ms db1 of (gone, db2) \<Rightarrow> (receipt # gone, db2))"

definition pollOnce :: "(string \<Rightarrow> bool) \<Rightarrow> (string, 's handler list) jsmap \<Rightarrow> (nat \<Rightarrow> bool) \<Rightarrow> (nat \<Rightarrow> bool) \<Rightarrow>
    (nat \<Rightarrow> (string \<times> json option) list) \<Rightarrow> 's ConsumerDb \<Rightarrow> nat \<times> string list \<times> 's ConsumerDb" where
  "pollOnce date_ok registry stopped deletes receive db =
    (let messages = receive 10 in (length messages, poll_messages date_ok registry stopped deletes 0 messages db))"

section \<open>The bus\<close>

text \<open>
  The outbox of the producing service, the messages that the queue service accepted so far (queue URL and document), the URLs the
  relay knows, the consumers' databases, and the events announced so far.
\<close>

record 's Bus =
  bus_outbox :: "OutboxEvent list"
  bus_sent :: "(string \<times> json) list"
  bus_urls :: "(string, string) jsmap"
  bus_consumers :: "string \<Rightarrow> 's ConsumerDb"
  bus_issued :: "EventEnvelope list"

text \<open>
  What the queue service documents: creating or looking up a queue by name answers that queue's URL and sends nothing; a message it
  accepted is in the queue; a send that threw may have been accepted as well.
\<close>

definition sqs_documented :: "(string \<Rightarrow> string) \<Rightarrow> (string \<times> json) list SqsClient \<Rightarrow> bool" where
  "sqs_documented url_of sqs \<longleftrightarrow>
     (\<forall>n q. snd (createQueue sqs n q) = q \<and> (\<forall>u. fst (createQueue sqs n q) = Inr u \<longrightarrow> u = url_of n)) \<and>
     (\<forall>u q. snd (getQueueArn sqs u q) = q) \<and>
     (\<forall>u d q. snd (sendMessage sqs u d q) = q \<and> is_ok (fst (sendMessage sqs u d q)) = False \<or> snd (sendMessage sqs u d q) = q @ [(u, d)])"

record 's Setup =
  st_date_ok :: "string \<Rightarrow> bool"
  st_url_of :: "string \<Rightarrow> string"
  st_config :: EventsConfig
  st_registry :: "string \<Rightarrow> (string, 's handler list) jsmap"

inductive bus_step :: "'s Setup \<Rightarrow> 's Bus \<Rightarrow> 's Bus \<Rightarrow> bool" for S where
  announce: "EventOutbox_add ctx fr dbNow event payload tenantId (bus_outbox b) = Inr (e, rows) \<Longrightarrow>
     fresh_id fr \<notin> ev_id ` set (bus_issued b) \<Longrightarrow> is_integer_num (def_version event) \<Longrightarrow>
     bus_step S b (b\<lparr>bus_outbox := rows, bus_issued := bus_issued b @ [e]\<rparr>)"
| relayed: "sqs_documented (st_url_of S) sqs \<Longrightarrow> ordered_pass p \<Longrightarrow>
     relay_pass (SqsDirectPublisher_publish subscribersOf sqs) (st_config S) p (bus_outbox b) (bus_urls b, bus_sent b) = (rows, n, (urls, sent)) \<Longrightarrow>
     bus_step S b (b\<lparr>bus_outbox := rows, bus_urls := urls, bus_sent := sent\<rparr>)"
| relay_rolled_back: "sqs_documented (st_url_of S) sqs \<Longrightarrow> ordered_pass p \<Longrightarrow>
     relay_pass (SqsDirectPublisher_publish subscribersOf sqs) (st_config S) p (bus_outbox b) (bus_urls b, bus_sent b) = (rows, n, (urls, sent)) \<Longrightarrow>
     bus_step S b (b\<lparr>bus_urls := urls, bus_sent := sent\<rparr>)"
| cleaned: "bus_step S b (b\<lparr>bus_outbox := relay_cleanup dbNow (st_config S) (bus_outbox b)\<rparr>)"
| delivered: "(st_url_of S (queueName service), doc) \<in> set (bus_sent b) \<Longrightarrow>
     process_message (st_date_ok S) (st_registry S service) (Some doc) (bus_consumers b service) = (gone, db) \<Longrightarrow>
     bus_step S b (b\<lparr>bus_consumers := (bus_consumers b)(service := db)\<rparr>)"

inductive bus_reach :: "'s Setup \<Rightarrow> 's Bus \<Rightarrow> 's Bus \<Rightarrow> bool" for S b where
  bus_start: "bus_reach S b b"
| bus_more: "bus_reach S b c \<Longrightarrow> bus_step S c d \<Longrightarrow> bus_reach S b d"

text \<open>Before anything was announced: consumers with empty inboxes.\<close>

definition bus_initial :: "(string \<Rightarrow> 's) \<Rightarrow> 's Bus" where
  "bus_initial apps = \<lparr>bus_outbox = [], bus_sent = [], bus_urls = [], bus_consumers = (\<lambda>s. \<lparr>inbox = [], app_db = apps s\<rparr>), bus_issued = []\<rparr>"

section \<open>Facts about one consumer\<close>


text \<open>The handlers of a consumer, run for one event after the other.\<close>

definition run_events :: "(string, 's handler list) jsmap \<Rightarrow> EventEnvelope list \<Rightarrow> 's \<Rightarrow> string + 's" where
  "run_events registry = efold (\<lambda>e. run_handlers (handlersFor registry (ev_type e)) e)"

text \<open>A consumer that has handled exactly the events \<open>evs\<close>, each once and in this order, starting from \<open>s0\<close>.\<close>

definition handled_exactly :: "(string, 's handler list) jsmap \<Rightarrow> 's \<Rightarrow> EventEnvelope list \<Rightarrow> 's ConsumerDb \<Rightarrow> bool" where
  "handled_exactly registry s0 evs db \<longleftrightarrow>
     distinct (map ev_id evs) \<and> inbox db = map (\<lambda>e. (ev_id e, ev_type e)) evs \<and> run_events registry evs s0 = Inr (app_db db)"

lemma handled_nothing: "handled_exactly registry s0 [] \<lparr>inbox = [], app_db = s0\<rparr>"
  by (simp add: handled_exactly_def run_events_def)

lemma process_message_cases:
  assumes "process_message date_ok registry body db = (gone, db')"
  obtains (kept) "db' = db"
  | (run) doc e s where "body = Some doc" "assertEnvelope date_ok doc = Inr e" "ev_id e \<notin> fst ` set (inbox db)"
      "run_handlers (handlersFor registry (ev_type e)) e (app_db db) = Inr s" "gone"
      "db' = db\<lparr>inbox := inbox db @ [(ev_id e, ev_type e)], app_db := s\<rparr>"
proof (cases "handleBody date_ok registry body db")
  case (Inl err)
  then show thesis using assms kept by (simp add: process_message_def)
next
  case (Inr r)
  then have db': "db' = snd r" "gone" using assms by (auto simp: process_message_def split: prod.splits)
  from Inr obtain doc e where doc: "body = Some doc" "assertEnvelope date_ok doc = Inr e"
    by (auto simp: handleBody_def consumeEvent_def ok_simps split: option.splits)
  show thesis
  proof (cases "handlersFor registry (ev_type e) = []")
    case True
    then show thesis using Inr doc db' kept by (auto simp: handleBody_def consumeEvent_def)
  next
    case False
    have "TenantContext_require (Some (event_context e)) = Inr (ev_tenantId e)"
      using assertEnvelope_Inr [OF doc(2)] by (blast intro: event_context_tenant)
    then have "consume_transaction (handlersFor registry (ev_type e)) e db = Inr r"
      using Inr doc False
      by (simp add: handleBody_def consumeEvent_def runInTenantTransaction_def Let_def)
    then show thesis using doc db' kept run by (auto simp: consume_transaction_def ok_simps split: if_splits)
  qed
qed

lemma process_message_handled:
  assumes "handled_exactly registry s0 evs db" "process_message date_ok registry body db = (gone, db')"
  shows "\<exists>new. handled_exactly registry s0 (evs @ new) db' \<and>
    (\<forall>e \<in> set new. \<exists>doc. body = Some doc \<and> assertEnvelope date_ok doc = Inr e)"
  using assms(2)
proof (cases rule: process_message_cases)
  case kept
  then show ?thesis using assms(1) by (intro exI [of _ "[]"]) simp
next
  case (run d e s)
  have "ev_id e \<notin> ev_id ` set evs" using run(3) assms(1) by (force simp: handled_exactly_def)
  then show ?thesis
    using run assms(1) by (intro exI [of _ "[e]"]) (auto simp: handled_exactly_def run_events_def efold_append)
qed


lemma poll_messages_handled:
  assumes "handled_exactly registry s0 evs db" "poll_messages date_ok registry stopped deletes i ms db = (gone, db')"
  shows "\<exists>new. handled_exactly registry s0 (evs @ new) db' \<and>
    (\<forall>e \<in> set new. \<exists>m \<in> set ms. \<exists>doc. snd m = Some doc \<and> assertEnvelope date_ok doc = Inr e)"
  using assms
proof (induction ms arbitrary: i db evs gone)
  case (Cons m ms)
  obtain receipt body where m: "m = (receipt, body)" by fastforce
  obtain ok db1 where p: "process_message date_ok registry body db = (ok, db1)" by fastforce
  obtain new1 where new1: "handled_exactly registry s0 (evs @ new1) db1"
    "\<forall>e \<in> set new1. \<exists>doc. body = Some doc \<and> assertEnvelope date_ok doc = Inr e"
    using process_message_handled [OF Cons.prems(1) p] by blast
  show ?case
  proof (cases "stopped i \<or> (ok \<and> \<not> deletes i)")
    case True
    then consider "db' = db" | "db' = db1" using Cons.prems(2) p m by (cases "stopped i") auto
    then show ?thesis
    proof cases
      case 1
      then show ?thesis using Cons.prems(1) by (intro exI [of _ "[]"]) simp
    next
      case 2
      then show ?thesis using new1 m by (intro exI [of _ new1]) auto
    qed
  next
    case False
    then obtain gone1 where "poll_messages date_ok registry stopped deletes (Suc i) ms db1 = (gone1, db')"
      using Cons.prems(2) p m by (cases ok) (auto split: prod.splits)
    from Cons.IH [OF new1(1) this] obtain new2 where "handled_exactly registry s0 ((evs @ new1) @ new2) db'"
      "\<forall>e \<in> set new2. \<exists>m \<in> set ms. \<exists>doc. snd m = Some doc \<and> assertEnvelope date_ok doc = Inr e" by blast
    then show ?thesis using new1(2) m by (intro exI [of _ "new1 @ new2"]) fastforce
  qed
qed (auto intro: exI [of _ "[]"])

section \<open>Facts about publishing\<close>

definition urls_ok :: "(string \<Rightarrow> string) \<Rightarrow> (string, string) jsmap \<Rightarrow> bool" where
  "urls_ok url_of urls \<longleftrightarrow> (\<forall>service u. map_get urls service = Some u \<longrightarrow> u = url_of (queueName service))"

lemma sbind_eq: "sbind m f s = (res, s2) \<longleftrightarrow>
    (\<exists>r s1. m s = (r, s1) \<and> (case r of Inl e \<Rightarrow> res = Inl e \<and> s2 = s1 | Inr a \<Rightarrow> f a s1 = (res, s2)))"
  by (auto simp: sbind_def split: prod.splits sum.splits)

lemma ensureQueue_sound:
  assumes "sqs_documented url_of sqs" "urls_ok url_of urls" "ensureQueue sqs service (urls, q) = (res, (urls', q'))"
  shows "q' = q \<and> urls_ok url_of urls' \<and> (\<forall>u. res = Inr u \<longrightarrow> u = url_of (queueName service))"
proof -
  have create: "createQueue sqs n q = (r, q1) \<Longrightarrow> q1 = q \<and> (\<forall>u. r = Inr u \<longrightarrow> u = url_of n)" for n q r q1
    using assms(1) unfolding sqs_documented_def by (metis fst_conv snd_conv)
  have arn: "getQueueArn sqs u q = (r, q1) \<Longrightarrow> q1 = q" for u q r q1 using assms(1) unfolding sqs_documented_def by (metis snd_conv)
  note steps = ensureQueue_def sbind_def cached_url_def sreturn_def remote_def remember_def
  show ?thesis
  proof (cases "truthy (map_get urls service)")
    case True
    then obtain u where "map_get urls service = Some u" by (auto simp: truthy_def split: option.splits)
    then show ?thesis using assms(2,3) True by (auto simp: steps urls_ok_def)
  next
    case False
    obtain r1 q1 where r1: "createQueue sqs (dlqName service) q = (r1, q1)" by fastforce
    obtain r2 q2 where r2: "getQueueArn sqs (projr r1) q = (r2, q2)" by fastforce
    obtain r3 q3 where r3: "createQueue sqs (queueName service) q = (r3, q3)" by fastforce
    note same = create [OF r1] arn [OF r2] create [OF r3]
    show ?thesis
      using assms(2,3) False r1 r2 r3 same
      by (cases r1; cases r2; cases r3) (auto simp: steps urls_ok_def split: if_splits)
  qed
qed

text \<open>Whatever a publication achieved is in the queues of the subscribers; when it returns, it reached every one of them.\<close>

lemma send_to_sound:
  assumes "sqs_documented url_of sqs" "urls_ok url_of urls" "send_to sqs d services (urls, q) = (res, (urls', q'))"
  shows "urls_ok url_of urls' \<and> (\<exists>new. q' = q @ new \<and> set new \<subseteq> (\<lambda>s. (url_of (queueName s), d)) ` set services \<and>
    (\<forall>u. res = Inr u \<longrightarrow> set new = (\<lambda>s. (url_of (queueName s), d)) ` set services))"
  using assms(2,3)
proof (induction services arbitrary: urls q)
  case (Cons s services)
  obtain r1 urls1 q1 where e: "ensureQueue sqs s (urls, q) = (r1, (urls1, q1))" by (metis prod_cases3)
  note e_ok = ensureQueue_sound [OF assms(1) Cons.prems(1) e]
  show ?case
  proof (cases r1)
    case (Inl err)
    then show ?thesis using Cons.prems(2) e e_ok by (auto simp: sbind_eq)
  next
    case (Inr u)
    obtain r2 q2 where send: "sendMessage sqs u d q = (r2, q2)" by fastforce
    have sent: "(q2 = q \<and> \<not> is_ok r2) \<or> q2 = q @ [(u, d)]"
      using assms(1) send unfolding sqs_documented_def by (metis fst_conv snd_conv)
    have u: "u = url_of (queueName s)" using e_ok Inr by simp
    show ?thesis
    proof (cases r2)
      case (Inl err)
      then have "urls' = urls1" "q' = q2" "res = Inl err"
        using Cons.prems(2) e e_ok Inr send by (auto simp: sbind_eq remote_def)
      then show ?thesis using sent e_ok u by auto
    next
      case (Inr v)
      have "send_to sqs d services (urls1, q2) = (res, (urls', q'))" "q2 = q @ [(u, d)]"
        using Cons.prems(2) e e_ok \<open>r1 = Inr u\<close> send Inr sent by (auto simp: sbind_eq remote_def)
      then show ?thesis using Cons.IH [of urls1 q2] e_ok u by auto
    qed
  qed
qed (auto simp: sreturn_def)

text \<open>One pass over claimed rows: what reaches the queues are their documents, and a row marked published reached every subscriber.\<close>

definition sent_to_all :: "(string \<Rightarrow> string) \<Rightarrow> (string \<times> json) list \<Rightarrow> json \<Rightarrow> bool" where
  "sent_to_all url_of q d \<longleftrightarrow> (\<forall>s \<in> set (subscribersOf (json_string (json_field d ''type''))). (url_of (queueName s), d) \<in> set q)"

definition copies_of :: "(string \<Rightarrow> string) \<Rightarrow> json \<Rightarrow> (string \<times> json) set" where
  "copies_of url_of d = (\<lambda>s. (url_of (queueName s), d)) ` set (subscribersOf (json_string (json_field d ''type'')))"

definition outcome :: "(string \<Rightarrow> string) \<Rightarrow> (string \<times> json) list \<Rightarrow> OutboxEvent \<Rightarrow> OutboxEvent \<Rightarrow> bool" where
  "outcome url_of q r r' \<longleftrightarrow> ob_id r' = ob_id r \<and> ob_payload r' = ob_payload r \<and>
     (ob_publishedAt r' = ob_publishedAt r \<or> sent_to_all url_of q (ob_payload r))"

lemma sent_to_all_mono: "sent_to_all url_of q d \<Longrightarrow> set q \<subseteq> set q' \<Longrightarrow> sent_to_all url_of q' d"
  by (auto simp: sent_to_all_def)

lemma relay_rows_sound:
  assumes "sqs_documented url_of sqs" "urls_ok url_of urls"
    and "relay_rows (SqsDirectPublisher_publish subscribersOf sqs) clk maxA i rs (urls, q) = (rs', n, (urls', q'))"
  shows "urls_ok url_of urls' \<and> list_all2 (outcome url_of q') rs rs' \<and>
    (\<exists>new. q' = q @ new \<and> set new \<subseteq> (\<Union>r \<in> set rs. copies_of url_of (ob_payload r)))"
  using assms(2,3)
proof (induction rs arbitrary: i urls q rs' n)
  case (Cons r rs)
  let ?pub = "SqsDirectPublisher_publish subscribersOf sqs"
  obtain res urls1 q1 where p: "?pub (ob_payload r) (urls, q) = (res, (urls1, q1))" by (metis prod_cases3)
  obtain rs1 n1 urls2 q2 where rec: "relay_rows ?pub clk maxA (Suc i) rs (urls1, q1) = (rs1, n1, (urls2, q2))" by (metis prod_cases4)
  obtain new1 where new1: "urls_ok url_of urls1" "q1 = q @ new1" "set new1 \<subseteq> copies_of url_of (ob_payload r)"
    "\<And>u. res = Inr u \<Longrightarrow> set new1 = copies_of url_of (ob_payload r)"
    using send_to_sound [OF assms(1) Cons.prems(1) p [unfolded SqsDirectPublisher_publish_def]] unfolding copies_of_def by blast
  have eqs: "rs' = (case res of Inl err \<Rightarrow> markFailed err (clk i) maxA r | Inr _ \<Rightarrow> markPublished (clk i) r) # rs1" "urls2 = urls'" "q2 = q'"
    using Cons.prems(2) p rec by (cases res; simp)+
  obtain new2 where new2: "urls_ok url_of urls'" "list_all2 (outcome url_of q') rs rs1" "q' = q1 @ new2"
    "set new2 \<subseteq> (\<Union>r \<in> set rs. copies_of url_of (ob_payload r))"
    using Cons.IH [OF new1(1) rec [unfolded eqs(2,3)]] by blast
  have "sent_to_all url_of q' (ob_payload r)" if "res = Inr u" for u
    using new1(2) new1(4) [OF that] new2(3) by (auto simp: sent_to_all_def copies_of_def)
  then have "outcome url_of q' r (hd rs')" using eqs(1) by (cases res) (auto simp: outcome_def)
  then show ?case using new1 new2 eqs(1) by auto
qed simp

lemma relay_pass_sound:
  assumes "sqs_documented url_of sqs" "ordered_pass p" "urls_ok url_of urls" "distinct (map ob_id rows)"
    and "relay_pass (SqsDirectPublisher_publish subscribersOf sqs) cfg p rows (urls, q) = (rows', n, (urls', q'))"
  shows "\<exists>cs new. set cs \<subseteq> set rows \<and> pass_rel (outcome url_of q') cs rows rows' \<and> urls_ok url_of urls' \<and>
    q' = q @ new \<and> set new \<subseteq> (\<Union>r \<in> set rows. copies_of url_of (ob_payload r))"
proof -
  let ?pub = "SqsDirectPublisher_publish subscribersOf sqs"
  let ?cs = "relay_claim (ps_order p) (ps_locked p) (ps_now p) cfg rows"
  have perm: "mset (ps_order p xs) = mset xs" for xs using assms(2) by (simp add: ordered_pass_def)
  obtain ss m urls1 q1 where ss: "relay_rows ?pub (ps_clk p) (maxAttempts cfg) 0 ?cs (urls, q) = (ss, m, (urls1, q1))"
    by (metis prod_cases4)
  note rows = relay_rows_sound [OF assms(1,3) ss]
  have key: "ob_id r' = ob_id r" if "outcome url_of q1 r r'" for r r' using that by (simp add: outcome_def)
  have rel: "list_all2 (outcome url_of q1) ?cs ss" using rows by blast
  note pass = relayOnce_rel [OF perm assms(4) key ss rel]
  have eqs: "rows' = outbox_save ss rows" "urls' = urls1" "q' = q1" using pass(1) assms(5) by (simp_all add: relay_pass_def)
  have sub: "set ?cs \<subseteq> set rows" using relay_claim_sub [of "ps_order p" "ps_locked p" "ps_now p" cfg rows] perm by blast
  from rows obtain new where new: "q1 = q @ new" "set new \<subseteq> (\<Union>r \<in> set ?cs. copies_of url_of (ob_payload r))" by blast
  have "set new \<subseteq> (\<Union>r \<in> set rows. copies_of url_of (ob_payload r))" using new(2) UN_mono [OF sub subset_refl] by (rule subset_trans)
  then show ?thesis
    using rows sub pass(2) new(1) unfolding eqs by (intro exI [of _ ?cs] exI [of _ new] conjI) simp_all
qed

section \<open>The bus keeps every event\<close>

text \<open>The events of which the queue of a service got a message.\<close>

definition sent_events :: "'s Setup \<Rightarrow> 's Bus \<Rightarrow> string \<Rightarrow> EventEnvelope set" where
  "sent_events S b service =
     {e \<in> set (bus_issued b). (st_url_of S (queueName service), json_of_envelope e) \<in> set (bus_sent b)}"

lemma sent_events_mono:
  "set (bus_issued b) \<subseteq> set (bus_issued c) \<Longrightarrow> set (bus_sent b) \<subseteq> set (bus_sent c) \<Longrightarrow> sent_events S b service \<subseteq> sent_events S c service"
  by (auto simp: sent_events_def)

lemma consumers_keep:
  assumes "\<forall>service. \<exists>evs. set evs \<subseteq> sent_events S b service \<and> handled_exactly (st_registry S service) (apps service) evs (bus_consumers b service)"
    and "set (bus_issued b) \<subseteq> set (bus_issued c)" "set (bus_sent b) \<subseteq> set (bus_sent c)" "bus_consumers c = bus_consumers b"
  shows "\<forall>service. \<exists>evs. set evs \<subseteq> sent_events S c service \<and> handled_exactly (st_registry S service) (apps service) evs (bus_consumers c service)"
  using assms(1,4) sent_events_mono [OF assms(2,3)] by (metis subset_trans)

definition bus_inv :: "'s Setup \<Rightarrow> (string \<Rightarrow> 's) \<Rightarrow> 's Bus \<Rightarrow> bool" where
  "bus_inv S apps b \<longleftrightarrow>
     distinct (map ev_id (bus_issued b)) \<and> (\<forall>e \<in> set (bus_issued b). is_integer_num (ev_version e)) \<and>
     distinct (map ob_id (bus_outbox b)) \<and>
     (\<forall>r \<in> set (bus_outbox b). \<exists>e \<in> set (bus_issued b). ob_id r = ev_id e \<and> ob_payload r = json_of_envelope e) \<and>
     (\<forall>r \<in> set (bus_outbox b). ob_publishedAt r \<noteq> None \<longrightarrow> sent_to_all (st_url_of S) (bus_sent b) (ob_payload r)) \<and>
     (\<forall>e \<in> set (bus_issued b). ev_id e \<in> ob_id ` set (bus_outbox b) \<or> sent_to_all (st_url_of S) (bus_sent b) (json_of_envelope e)) \<and>
     set (bus_sent b) \<subseteq> (\<Union>e \<in> set (bus_issued b). copies_of (st_url_of S) (json_of_envelope e)) \<and>
     urls_ok (st_url_of S) (bus_urls b) \<and>
     (\<forall>service. \<exists>evs. set evs \<subseteq> sent_events S b service \<and>
        handled_exactly (st_registry S service) (apps service) evs (bus_consumers b service))"

lemma bus_inv_initial: "bus_inv S apps (bus_initial apps)"
  by (auto simp: bus_inv_def bus_initial_def urls_ok_def intro!: exI [of _ "[]"] handled_nothing)

lemma bus_inv_announce:
  assumes "bus_inv S apps b" "EventOutbox_add ctx fr dbNow event payload tenantId (bus_outbox b) = Inr (e, rows)"
    and "fresh_id fr \<notin> ev_id ` set (bus_issued b)" "is_integer_num (def_version event)"
  shows "bus_inv S apps (b\<lparr>bus_outbox := rows, bus_issued := bus_issued b @ [e]\<rparr>)"
proof -
  note e = add_envelope [OF assms(2)]
  have row: "ob_id (outbox_row dbNow e) = ev_id e" "ob_payload (outbox_row dbNow e) = json_of_envelope e" "ob_publishedAt (outbox_row dbNow e) = None"
    by (simp_all add: outbox_row_def)
  let ?c = "b\<lparr>bus_outbox := rows, bus_issued := bus_issued b @ [e]\<rparr>"
  have "\<forall>service. \<exists>evs. set evs \<subseteq> sent_events S ?c service \<and>
      handled_exactly (st_registry S service) (apps service) evs (bus_consumers ?c service)"
    by (rule consumers_keep [of S b]) (use assms(1) in \<open>auto simp: bus_inv_def\<close>)
  then show ?thesis using assms(1,3,4) e row unfolding bus_inv_def by auto
qed

lemma bus_inv_sent:
  assumes "bus_inv S apps b" "sqs_documented (st_url_of S) sqs" "ordered_pass p"
    and "relay_pass (SqsDirectPublisher_publish subscribersOf sqs) (st_config S) p (bus_outbox b) (bus_urls b, bus_sent b) = (rows, n, (urls, sent))"
  shows "bus_inv S apps (b\<lparr>bus_urls := urls, bus_sent := sent\<rparr>)"
    and "bus_inv S apps (b\<lparr>bus_outbox := rows, bus_urls := urls, bus_sent := sent\<rparr>)"
proof -
  let ?u = "st_url_of S"
  have inv: "urls_ok ?u (bus_urls b)" "distinct (map ob_id (bus_outbox b))"
    and from_issued: "\<And>r. r \<in> set (bus_outbox b) \<Longrightarrow> \<exists>e \<in> set (bus_issued b). ob_id r = ev_id e \<and> ob_payload r = json_of_envelope e"
    using assms(1) unfolding bus_inv_def by blast+
  obtain cs new where pass: "set cs \<subseteq> set (bus_outbox b)" "pass_rel (outcome ?u sent) cs (bus_outbox b) rows" "urls_ok ?u urls"
    "sent = bus_sent b @ new" "set new \<subseteq> (\<Union>r \<in> set (bus_outbox b). copies_of ?u (ob_payload r))"
    using relay_pass_sound [OF assms(2,3) inv assms(4)] by blast
  have "(\<Union>r \<in> set (bus_outbox b). copies_of ?u (ob_payload r)) \<subseteq> (\<Union>e \<in> set (bus_issued b). copies_of ?u (json_of_envelope e))"
    using from_issued by fastforce
  then have new: "set sent \<subseteq> (\<Union>e \<in> set (bus_issued b). copies_of ?u (json_of_envelope e))"
    using assms(1) pass(4,5) unfolding bus_inv_def by auto
  have mono: "sent_to_all ?u sent d" if "sent_to_all ?u (bus_sent b) d" for d
    using sent_to_all_mono [OF that] pass(4) by simp
  let ?c = "b\<lparr>bus_urls := urls, bus_sent := sent\<rparr>"
  have "\<forall>service. \<exists>evs. set evs \<subseteq> sent_events S ?c service \<and>
      handled_exactly (st_registry S service) (apps service) evs (bus_consumers ?c service)"
    by (rule consumers_keep [of S b]) (use assms(1) pass(4) in \<open>auto simp: bus_inv_def\<close>)
  then show sent: "bus_inv S apps ?c"
    using assms(1) new pass(3) mono unfolding bus_inv_def by simp blast
  have keys: "map ob_id rows = map ob_id (bus_outbox b)"
    by (rule pass_rel_keys [OF pass(2)]) (simp add: outcome_def)
  have keyset: "ob_id ` set rows = ob_id ` set (bus_outbox b)" using arg_cong [OF keys, of set] by simp
  have "(\<exists>e \<in> set (bus_issued b). ob_id r' = ev_id e \<and> ob_payload r' = json_of_envelope e) \<and>
      (ob_publishedAt r' \<noteq> None \<longrightarrow> sent_to_all ?u sent (ob_payload r'))" if r': "r' \<in> set rows" for r'
  proof -
    obtain r where r: "r \<in> set (bus_outbox b)" "r' = r \<or> outcome ?u sent r r'" using pass_rel_row [OF pass(2) r'] by blast
    have "ob_publishedAt r \<noteq> None \<longrightarrow> sent_to_all ?u sent (ob_payload r)" using assms(1) r(1) mono unfolding bus_inv_def by blast
    then show ?thesis using r from_issued [OF r(1)] by (auto simp: outcome_def)
  qed
  then show "bus_inv S apps (b\<lparr>bus_outbox := rows, bus_urls := urls, bus_sent := sent\<rparr>)"
    using sent keys keyset unfolding bus_inv_def by (simp add: sent_events_def)
qed

lemma bus_inv_cleaned:
  assumes "bus_inv S apps b"
  shows "bus_inv S apps (b\<lparr>bus_outbox := relay_cleanup dbNow cfg (bus_outbox b)\<rparr>)"
proof -
  have "ev_id e \<in> ob_id ` set (relay_cleanup dbNow cfg (bus_outbox b)) \<or> sent_to_all (st_url_of S) (bus_sent b) (json_of_envelope e)"
    if e: "e \<in> set (bus_issued b)" for e
  proof (cases "sent_to_all (st_url_of S) (bus_sent b) (json_of_envelope e)")
    case False
    then obtain r where r: "r \<in> set (bus_outbox b)" "ob_id r = ev_id e" using assms e unfolding bus_inv_def by force
    then obtain e' where "e' \<in> set (bus_issued b)" "ob_id r = ev_id e'" "ob_payload r = json_of_envelope e'"
      using assms unfolding bus_inv_def by blast
    then have "ob_payload r = json_of_envelope e" using r e assms unfolding bus_inv_def by (metis distinct_map inj_onD)
    then have "ob_publishedAt r = None" using False r(1) assms unfolding bus_inv_def by metis
    then show ?thesis using r by (auto simp: relay_cleanup_def image_iff intro!: bexI [of _ r])
  qed simp
  then show ?thesis using assms unfolding bus_inv_def by (auto simp: relay_cleanup_def distinct_map_filter sent_events_def)
qed

lemma bus_inv_delivered:
  assumes "bus_inv S apps b" "(st_url_of S (queueName service), doc) \<in> set (bus_sent b)"
    and "process_message (st_date_ok S) (st_registry S service) (Some doc) (bus_consumers b service) = (gone, db)"
  shows "bus_inv S apps (b\<lparr>bus_consumers := (bus_consumers b)(service := db)\<rparr>)"
proof -
  obtain evs where evs: "set evs \<subseteq> sent_events S b service" "handled_exactly (st_registry S service) (apps service) evs (bus_consumers b service)"
    using assms(1) unfolding bus_inv_def by blast
  obtain new where new: "handled_exactly (st_registry S service) (apps service) (evs @ new) db"
    "\<forall>e \<in> set new. assertEnvelope (st_date_ok S) doc = Inr e"
    using process_message_handled [OF evs(2) assms(3)] by auto
  obtain e where e: "e \<in> set (bus_issued b)" "doc = json_of_envelope e"
    using assms(1,2) unfolding bus_inv_def copies_of_def by blast
  have "set (evs @ new) \<subseteq> sent_events S b service"
    using evs(1) new(2) e assms(2) by (auto simp: assert_json_envelope sent_events_def)
  then show ?thesis using assms(1) new(1) unfolding bus_inv_def by (auto simp: sent_events_def intro!: exI [of _ "evs @ new"])
qed

lemma bus_step_inv: "bus_step S b c \<Longrightarrow> bus_inv S apps b \<Longrightarrow> bus_inv S apps c"
  by (erule bus_step.cases)
    (auto intro: bus_inv_announce bus_inv_sent bus_inv_cleaned bus_inv_delivered simp del: fun_upd_apply)

lemma bus_reach_inv: "bus_reach S (bus_initial apps) b \<Longrightarrow> bus_inv S apps b"
  by (induction rule: bus_reach.induct) (auto intro: bus_inv_initial bus_step_inv)

lemma sent_event_subscriber:
  assumes "bus_inv S apps b" "inj (st_url_of S)" "e \<in> sent_events S b service"
  shows "service \<in> set (subscribersOf (ev_type e))"
proof -
  obtain e' where "(st_url_of S (queueName service), json_of_envelope e) \<in> copies_of (st_url_of S) (json_of_envelope e')"
    using assms(1,3) unfolding bus_inv_def sent_events_def by blast
  then obtain s where s: "st_url_of S (queueName service) = st_url_of S (queueName s)" "s \<in> set (subscribersOf (ev_type e'))"
    "json_of_envelope e = json_of_envelope e'" by (auto simp: copies_of_def)
  have "ev_type e = ev_type e'" using arg_cong [OF s(3), of "\<lambda>d. json_string (json_field d ''type'')"] by simp
  moreover have "service = s" using injD [OF assms(2) s(1)] by (simp add: queueName_def)
  ultimately show ?thesis using s(2) by simp
qed

section \<open>A run of the bus\<close>

text \<open>One event travels to its subscriber: written, relayed, delivered twice. The queue service of this run answers every command.\<close>

definition ready_sqs :: "(string \<times> json) list SqsClient" where
  "ready_sqs = \<lparr>createQueue = (\<lambda>n q. (Inr n, q)), getQueueArn = (\<lambda>u q. (Inr u, q)), getQueueUrl_cmd = (\<lambda>n q. (Inr n, q)),
     sendMessage = (\<lambda>u d q. (Inr (), q @ [(u, d)]))\<rparr>"

definition default_config :: EventsConfig where
  "default_config = \<lparr>transport = SQS_DIRECT, topicArn = None, relayIntervalMs = 500, relayBatch = 50, maxAttempts = 10,
     maxReceiveCount = 3, visibilityTimeoutSeconds = 30, pollWaitSeconds = 5, outboxRetentionDays = 7\<rparr>"

definition sample_setup :: "int Setup" where
  "sample_setup = \<lparr>st_date_ok = (\<lambda>s. s = ''2026-10-18T00:00:00.000Z''), st_url_of = (\<lambda>n. n), st_config = default_config,
     st_registry = (\<lambda>s. register_handler ''catalog.usage.changed'' (\<lambda>e n. Inr (n + 1)) [])\<rparr>"

definition sample_event :: EventEnvelope where
  "sample_event = \<lparr>ev_id = ''e1'', ev_type = ''catalog.usage.changed'', ev_version = Fin 1, ev_occurredAt = ''2026-10-18T00:00:00.000Z'',
     ev_tenantId = ''t1'', ev_actor = None, ev_traceId = ''r1'', ev_payload = Some (JObj [(''products'', JNum (Fin 3))])\<rparr>"

definition sample_context :: RequestContextState where
  "sample_context = \<lparr>ctx_tenantId = Some ''t1'', ctx_requestId = Some ''r1'', ctx_authorization = None, ctx_actor = None\<rparr>"

definition sample_fresh :: Fresh where
  "sample_fresh = \<lparr>fresh_id = ''e1'', fresh_trace = ''x'', fresh_iso = ''2026-10-18T00:00:00.000Z''\<rparr>"

definition sample_pass :: RelayPass where
  "sample_pass = \<lparr>ps_order = (\<lambda>xs. xs), ps_locked = (\<lambda>_. False), ps_clk = (\<lambda>_. 1000), ps_now = 1000\<rparr>"

definition sample_bus :: "int Bus" where
  "sample_bus = \<lparr>bus_outbox = [markPublished 1000 (outbox_row 0 sample_event)], bus_sent = [(''platform-events'', json_of_envelope sample_event)],
     bus_urls = [(''platform'', ''platform-events'')],
     bus_consumers = (\<lambda>s. \<lparr>inbox = [], app_db = 0\<rparr>)(''platform'' := \<lparr>inbox = [(''e1'', ''catalog.usage.changed'')], app_db = 1\<rparr>),
     bus_issued = [sample_event]\<rparr>"

lemma ready_sqs_documented: "sqs_documented (\<lambda>n. n) ready_sqs"
  by (simp add: sqs_documented_def ready_sqs_def)

lemma sample_add:
  "EventOutbox_add (Some sample_context) sample_fresh 0 \<lparr>def_type = ''catalog.usage.changed'', def_version = Fin 1\<rparr>
     (Some (JObj [(''products'', JNum (Fin 3))])) None [] = Inr (sample_event, [outbox_row 0 sample_event])"
  by code_simp

lemma sample_relay:
  "relay_pass (SqsDirectPublisher_publish subscribersOf ready_sqs) default_config sample_pass [outbox_row 0 sample_event] ([], []) =
     ([markPublished 1000 (outbox_row 0 sample_event)], 1, ([(''platform'', ''platform-events'')], [(''platform-events'', json_of_envelope sample_event)]))"
  by code_simp

lemma sample_deliver:
  "process_message (st_date_ok sample_setup) (st_registry sample_setup ''platform'') (Some (json_of_envelope sample_event)) \<lparr>inbox = [], app_db = 0\<rparr>
     = (True, \<lparr>inbox = [(''e1'', ''catalog.usage.changed'')], app_db = 1\<rparr>)"
  "process_message (st_date_ok sample_setup) (st_registry sample_setup ''platform'') (Some (json_of_envelope sample_event))
     \<lparr>inbox = [(''e1'', ''catalog.usage.changed'')], app_db = 1\<rparr> = (True, \<lparr>inbox = [(''e1'', ''catalog.usage.changed'')], app_db = 1\<rparr>)"
  by code_simp+

lemma sample_reach: "bus_reach sample_setup (bus_initial (\<lambda>_. 0)) sample_bus"
proof -
  let ?b0 = "bus_initial (\<lambda>_. 0) :: int Bus"
  let ?b1 = "?b0\<lparr>bus_outbox := [outbox_row 0 sample_event], bus_issued := bus_issued ?b0 @ [sample_event]\<rparr>"
  let ?b2 = "?b1\<lparr>bus_outbox := [markPublished 1000 (outbox_row 0 sample_event)], bus_urls := [(''platform'', ''platform-events'')],
     bus_sent := [(''platform-events'', json_of_envelope sample_event)]\<rparr>"
  let ?once = "\<lparr>inbox = [(''e1'', ''catalog.usage.changed'')], app_db = 1 :: int\<rparr>"
  let ?b3 = "?b2\<lparr>bus_consumers := (bus_consumers ?b2)(''platform'' := ?once)\<rparr>"
  let ?b4 = "?b3\<lparr>bus_consumers := (bus_consumers ?b3)(''platform'' := ?once)\<rparr>"
  have 1: "bus_step sample_setup ?b0 ?b1"
    by (rule announce [of "Some sample_context" sample_fresh 0 "\<lparr>def_type = ''catalog.usage.changed'', def_version = Fin 1\<rparr>"
          "Some (JObj [(''products'', JNum (Fin 3))])" None])
      (simp_all add: bus_initial_def sample_add, simp add: is_integer_num_def)
  have 2: "bus_step sample_setup ?b1 ?b2"
    by (rule relayed [of _ ready_sqs sample_pass _ _ 1])
      (simp_all add: bus_initial_def sample_relay ready_sqs_documented ordered_pass_def sample_pass_def [THEN arg_cong, of ps_order] sample_setup_def)
  have 3: "bus_step sample_setup ?b2 ?b3"
    by (rule delivered [of _ _ "json_of_envelope sample_event" _ True])
      (simp_all add: bus_initial_def sample_deliver, simp add: sample_setup_def queueName_def)
  have 4: "bus_step sample_setup ?b3 ?b4"
    by (rule delivered [of _ _ "json_of_envelope sample_event" _ True])
      (simp_all add: bus_initial_def sample_deliver, simp add: sample_setup_def queueName_def)
  have "bus_reach sample_setup ?b0 ?b4" by (rule bus_more [OF bus_more [OF bus_more [OF bus_more [OF bus_start 1] 2] 3] 4])
  moreover have "?b4 = sample_bus" by (simp add: sample_bus_def bus_initial_def fun_eq_iff)
  ultimately show ?thesis by simp
qed

section \<open>Properties\<close>

text \<open>
  C10: however often, in whatever order and by whichever replica an event's messages are delivered, and whatever fails on the way, every
  consumer's database is what its handlers make of a sequence of distinct events, each handled once: exactly those recorded in its
  inbox, each of them announced by the producer and of a type the service subscribes to.
\<close>

theorem event_handled_exactly_once:
  assumes "bus_reach S (bus_initial apps) b" "inj (st_url_of S)"
  shows "\<exists>evs. set evs \<subseteq> set (bus_issued b) \<and> distinct (map ev_id evs) \<and>
    inbox (bus_consumers b service) = map (\<lambda>e. (ev_id e, ev_type e)) evs \<and>
    run_events (st_registry S service) evs (apps service) = Inr (app_db (bus_consumers b service)) \<and>
    (\<forall>e \<in> set evs. service \<in> set (subscribersOf (ev_type e)))"
proof -
  have inv: "bus_inv S apps b" using assms(1) by (rule bus_reach_inv)
  then obtain evs where evs: "set evs \<subseteq> sent_events S b service"
    "handled_exactly (st_registry S service) (apps service) evs (bus_consumers b service)" unfolding bus_inv_def by blast
  moreover have "\<forall>e \<in> set evs. service \<in> set (subscribersOf (ev_type e))"
    using evs(1) sent_event_subscriber [OF inv assms(2)] by blast
  ultimately show ?thesis by (intro exI [of _ evs]) (auto simp: handled_exactly_def sent_events_def)
qed

text \<open>The property on the run above, in which the message was delivered twice: the counter stands at one.\<close>

theorem event_handled_exactly_once_witness:
  "\<exists>b evs. bus_reach sample_setup (bus_initial (\<lambda>_. 0)) b \<and> app_db (bus_consumers b ''platform'') = 1 \<and> set evs \<subseteq> set (bus_issued b) \<and>
    inbox (bus_consumers b ''platform'') = map (\<lambda>e. (ev_id e, ev_type e)) evs \<and>
    run_events (st_registry sample_setup ''platform'') evs 0 = Inr (app_db (bus_consumers b ''platform''))"
proof -
  have "inj (st_url_of sample_setup)" by (simp add: sample_setup_def)
  moreover have "app_db (bus_consumers sample_bus ''platform'') = 1" by (simp add: sample_bus_def)
  ultimately show ?thesis using event_handled_exactly_once [OF sample_reach, of "''platform''"] sample_reach by blast
qed

text \<open>
  C11: no announced event is lost. At every moment the event is still an unpublished row of the outbox, waiting or parked, or the queue of
  every service that subscribes to its type has accepted its message; and the queues hold nothing but copies of announced events.
\<close>

theorem no_event_lost:
  assumes "bus_reach S (bus_initial apps) b" "e \<in> set (bus_issued b)"
  shows "((\<exists>r \<in> set (bus_outbox b). ob_id r = ev_id e \<and> ob_payload r = json_of_envelope e \<and> ob_publishedAt r = None) \<or>
      (\<forall>service \<in> set (subscribersOf (ev_type e)). (st_url_of S (queueName service), json_of_envelope e) \<in> set (bus_sent b))) \<and>
    (\<forall>m \<in> set (bus_sent b). \<exists>d \<in> set (bus_issued b). snd m = json_of_envelope d)"
proof -
  have inv: "bus_inv S apps b" using assms(1) by (rule bus_reach_inv)
  have "ob_payload r = json_of_envelope e" if "r \<in> set (bus_outbox b)" "ob_id r = ev_id e" for r
    using inv that assms(2) unfolding bus_inv_def by (metis distinct_map inj_onD)
  moreover have "ev_id e \<in> ob_id ` set (bus_outbox b) \<or> sent_to_all (st_url_of S) (bus_sent b) (json_of_envelope e)"
    and "\<And>r. r \<in> set (bus_outbox b) \<Longrightarrow> ob_publishedAt r \<noteq> None \<Longrightarrow> sent_to_all (st_url_of S) (bus_sent b) (ob_payload r)"
    and "set (bus_sent b) \<subseteq> (\<Union>e \<in> set (bus_issued b). copies_of (st_url_of S) (json_of_envelope e))"
    using inv assms(2) unfolding bus_inv_def by blast+
  ultimately show ?thesis by (fastforce simp: sent_to_all_def copies_of_def)
qed

theorem no_event_lost_witness:
  "bus_reach sample_setup (bus_initial (\<lambda>_. 0)) sample_bus \<and> sample_event \<in> set (bus_issued sample_bus) \<and>
   (st_url_of sample_setup (queueName ''platform''), json_of_envelope sample_event) \<in> set (bus_sent sample_bus)"
proof -
  have e: "sample_event \<in> set (bus_issued sample_bus)" by (simp add: sample_bus_def)
  have "''platform'' \<in> set (subscribersOf (ev_type sample_event))" by code_simp
  moreover have "\<not> (\<exists>r \<in> set (bus_outbox sample_bus). ob_publishedAt r = None)" by (simp add: sample_bus_def)
  ultimately show ?thesis using no_event_lost [OF sample_reach e] sample_reach e by blast
qed







text \<open>
  C38: an envelope survives the wire. The consumer accepts the document of an envelope exactly when the envelope is well formed, and then
  reads back the envelope that was written; in particular an event announced without a payload is never accepted.
\<close>

theorem envelope_roundtrip:
  "(assertEnvelope date_ok (json_of_envelope e) = Inr e' \<longleftrightarrow> envelope_valid date_ok e \<and> e' = e) \<and>
   \<not> is_ok (assertEnvelope date_ok (json_of_envelope (e\<lparr>ev_payload := None\<rparr>)))"
proof -
  have "\<not> envelope_valid date_ok (e\<lparr>ev_payload := None\<rparr>)" by (simp add: envelope_valid_def)
  then have "assertEnvelope date_ok (json_of_envelope (e\<lparr>ev_payload := None\<rparr>)) \<noteq> Inr x" for x by (simp add: assert_json_envelope)
  then show ?thesis by (cases "assertEnvelope date_ok (json_of_envelope (e\<lparr>ev_payload := None\<rparr>))") (auto simp: assert_json_envelope)
qed





text \<open>Two event types that the sales service announces are missing from the topology: nobody can subscribe to them.\<close>

lemma undeclared_events:
  "producerOf ''sales.order.packing'' = None \<and> producerOf ''sales.order.shipped'' = None \<and>
   subscribersOf ''sales.order.packing'' = [] \<and> subscribersOf ''sales.order.shipped'' = []"
  by code_simp

end
