(* ===== verification/CustomerDomain.thy ===== *)
theory CustomerDomain
  imports JsString
begin

text \<open>
  The pure domain functions of the customer service (\<^verbatim>\<open>apps/customer/src/domain/customer-domain.ts\<close>): contact
  data and its masks, cells of CSV exports, money, loyalty points and membership tiers. What the language's \<^verbatim>\<open>localeCompare\<close>
  answers is an argument.
\<close>

datatype (plugins only: code) CustomerDomainErrorCode =
    CUSTOMER_NOT_FOUND | CUSTOMER_ALREADY_EXISTS | INVALID_PHONE_NUMBER | CUSTOMER_INACTIVE | CUSTOMER_MERGE_CONFLICT
  | CUSTOMER_GROUP_NOT_FOUND | CUSTOMER_GROUP_ALREADY_EXISTS | CUSTOMER_GROUP_NOT_EMPTY | CUSTOMER_ADDRESS_NOT_FOUND
  | MEMBERSHIP_TIER_NOT_FOUND | MEMBERSHIP_TIER_ALREADY_EXISTS | LOYALTY_NOT_ENABLED | LOYALTY_ACCOUNT_NOT_FOUND
  | INSUFFICIENT_LOYALTY_POINTS | LOYALTY_HOLD_NOT_FOUND | LOYALTY_HOLD_EXPIRED | LOYALTY_HOLD_ALREADY_COMMITTED
  | LOYALTY_STATE_CONFLICT | LOYALTY_REVERSAL_CONFLICT | LOYALTY_MINIMUM_NOT_MET | LOYALTY_MAXIMUM_EXCEEDED
  | IDEMPOTENCY_CONFLICT | RESOURCE_VERSION_CONFLICT | TENANT_ACCESS_DENIED | PERMISSION_DENIED | VALIDATION_ERROR
  | IMPORT_LIMIT_EXCEEDED | CUSTOMER_GROUP_SEEDED | CUSTOMER_TAG_NOT_FOUND | CUSTOMER_TAG_ALREADY_EXISTS
  | CUSTOMER_HAS_OUTSTANDING_DEBT

type_synonym 'a cust_result = "(CustomerDomainErrorCode, 'a) result"

abbreviation cust_error :: "CustomerDomainErrorCode \<Rightarrow> nat \<Rightarrow> CustomerDomainErrorCode err" where
  "cust_error \<equiv> DomainError"

section \<open>Contact data\<close>

definition phone_char :: "char \<Rightarrow> bool" where
  "phone_char c \<longleftrightarrow> is_digit c \<or> is_space c \<or> c \<in> set ''+().-''"

definition starts_with :: "string \<Rightarrow> string \<Rightarrow> bool" where
  "starts_with p s \<longleftrightarrow> take (length p) s = p"

text \<open>The regular expressions \<^verbatim>\<open>^0[35789]\d{8}$\<close> and \<^verbatim>\<open>^02\d{8,9}$\<close>.\<close>

definition isVnMobile :: "string \<Rightarrow> bool" where
  "isVnMobile s \<longleftrightarrow> list_all is_digit s \<and> length s = 10 \<and> s ! 0 = CHR ''0'' \<and> s ! 1 \<in> set ''35789''"

definition isVnLandline :: "string \<Rightarrow> bool" where
  "isVnLandline s \<longleftrightarrow> list_all is_digit s \<and> (length s = 10 \<or> length s = 11) \<and> starts_with ''02'' s"

definition national_part :: "string \<Rightarrow> string" where
  "national_part digits = (let rest = drop 2 digits in if starts_with ''0'' rest then rest else CHR ''0'' # rest)"

definition normalizePhoneNumber :: "string option \<Rightarrow> string option cust_result" where
  "normalizePhoneNumber raw =
    (case raw of None \<Rightarrow> Inr None
     | Some r \<Rightarrow> let trimmed = js_trim r in
       if trimmed = [] then Inr None
       else if \<not> list_all phone_char trimmed then Inl (cust_error INVALID_PHONE_NUMBER 422)
       else let hasPlus = starts_with ''+'' trimmed; digitsOnly = filter is_digit trimmed in
         if digitsOnly = [] then Inl (cust_error INVALID_PHONE_NUMBER 422)
         else if hasPlus \<and> \<not> starts_with ''84'' digitsOnly then
           (if length digitsOnly < 8 \<or> 15 < length digitsOnly then Inl (cust_error INVALID_PHONE_NUMBER 422)
            else Inr (Some (CHR ''+'' # digitsOnly)))
         else let candidate =
             (if hasPlus \<and> starts_with ''84'' digitsOnly then national_part digitsOnly
              else if \<not> hasPlus \<and> starts_with ''84'' digitsOnly \<and> (length digitsOnly = 11 \<or> length digitsOnly = 12)
              then national_part digitsOnly else digitsOnly) in
           if \<not> isVnMobile candidate \<and> \<not> isVnLandline candidate then Inl (cust_error INVALID_PHONE_NUMBER 422)
           else Inr (Some candidate))"

text \<open>The regular expression \<^verbatim>\<open>^[^\s@]+@[^\s@]+\.[^\s@]+$\<close>.\<close>

definition email_char :: "char \<Rightarrow> bool" where
  "email_char c \<longleftrightarrow> \<not> is_space c \<and> c \<noteq> CHR ''@''"

definition email_shape :: "string \<Rightarrow> bool" where
  "email_shape s \<longleftrightarrow>
    (let local = takeWhile (\<lambda>c. c \<noteq> CHR ''@'') s; domain = drop (length local + 1) s in
     length local < length s \<and> local \<noteq> [] \<and> list_all email_char local \<and> list_all email_char domain \<and>
     list_ex (\<lambda>i. domain ! i = CHR ''.'') [1..<length domain - 1])"

definition normalizeEmail :: "string option \<Rightarrow> string option cust_result" where
  "normalizeEmail raw =
    (case raw of None \<Rightarrow> Inr None
     | Some r \<Rightarrow> let trimmed = js_lower (js_trim r) in
       if trimmed = [] then Inr None
       else if 160 < length trimmed \<or> \<not> email_shape trimmed then Inl (cust_error VALIDATION_ERROR 422)
       else Inr (Some trimmed))"

definition take_last :: "nat \<Rightarrow> string \<Rightarrow> string" where
  "take_last n s = drop (length s - n) s"

definition maskPhoneNumber :: "string option \<Rightarrow> string option" where
  "maskPhoneNumber phone =
    (if \<not> truthy phone then None
     else if length (the phone) < 7 then Some ''***''
     else Some (take 3 (the phone) @ ''***'' @ take_last 4 (the phone)))"

record AddressPhones =
  adr_phone :: "string option"
  adr_phoneNormalized :: "string option"

definition maskAddressPhones :: "'a AddressPhones_scheme option \<Rightarrow> bool \<Rightarrow> 'a AddressPhones_scheme option" where
  "maskAddressPhones address fullPhone =
    (case address of None \<Rightarrow> None
     | Some a \<Rightarrow> if fullPhone then Some a
       else Some (a\<lparr>adr_phone := maskPhoneNumber (adr_phone a), adr_phoneNormalized := maskPhoneNumber (adr_phoneNormalized a)\<rparr>))"

definition maskEmailAddress :: "string option \<Rightarrow> string option" where
  "maskEmailAddress email =
    (if \<not> truthy email then None
     else let e = the email; local = takeWhile (\<lambda>c. c \<noteq> CHR ''@'') e;
          domain = takeWhile (\<lambda>c. c \<noteq> CHR ''@'') (drop (length local + 1) e) in
       if local = [] \<or> domain = [] then Some ''***''
       else if length local \<le> 2 then Some (take 1 local @ ''***@'' @ domain)
       else Some (take 2 local @ ''***'' @ take_last 1 local @ ''@'' @ domain))"

section \<open>Cells of a CSV export\<close>

definition formula_char :: "char \<Rightarrow> bool" where
  "formula_char c \<longleftrightarrow> c \<in> set ''=+-@''"

definition risky_start :: "char \<Rightarrow> bool" where
  "risky_start c \<longleftrightarrow> formula_char c \<or> c = CHR ''|'' \<or> code c = 9 \<or> code c = 13"

definition double_quotes :: "string \<Rightarrow> string" where
  "double_quotes s = concat (map (\<lambda>c. if c = CHR 0x22 then [CHR 0x22, CHR 0x22] else [c]) s)"

definition needs_quotes :: "char \<Rightarrow> bool" where
  "needs_quotes c \<longleftrightarrow> c = CHR 0x22 \<or> c = CHR '','' \<or> code c = 10 \<or> code c = 13"

definition hd_is :: "(char \<Rightarrow> bool) \<Rightarrow> string \<Rightarrow> bool" where
  "hd_is P s = (case s of [] \<Rightarrow> False | c # _ \<Rightarrow> P c)"

definition guarded_cell :: "string \<Rightarrow> string" where
  "guarded_cell str = (if hd_is risky_start str \<or> hd_is formula_char (trim_start str) then CHR 0x27 # str else str)"

definition sanitizeCsvCell :: "string option \<Rightarrow> string" where
  "sanitizeCsvCell value =
    (case value of None \<Rightarrow> []
     | Some str \<Rightarrow> let safe = guarded_cell str in
         if list_ex needs_quotes safe then [CHR 0x22] @ double_quotes safe @ [CHR 0x22] else safe)"

section \<open>Money\<close>

definition parseVndBigInt :: "jsval \<Rightarrow> bool \<Rightarrow> int cust_result" where
  "parseVndBigInt raw allowZero =
    (if raw = Null \<or> raw = Undefined then (if allowZero then Inr 0 else Inl (cust_error VALIDATION_ERROR 422))
     else ebind
       (case raw of
          Big v \<Rightarrow> Inr v
        | Num x \<Rightarrow> (if is_safe_integer x then bigint_of_num x else Inl (cust_error VALIDATION_ERROR 422))
        | _ \<Rightarrow> Inl (cust_error VALIDATION_ERROR 422))
       (\<lambda>val. if val < 0 then Inl (cust_error VALIDATION_ERROR 422)
              else if \<not> allowZero \<and> val = 0 then Inl (cust_error VALIDATION_ERROR 422) else Inr val))"

definition toVndNumber :: "int \<Rightarrow> int cust_result" where
  "toVndNumber amount =
    (let n = js_of_int amount in if \<not> is_safe_integer n then Inl (cust_error VALIDATION_ERROR 422) else Inr (int_of_num n))"

section \<open>Loyalty points\<close>

text \<open>A stored number is the integer it denotes.\<close>

record LoyaltySettingConfig =
  isEnabled :: bool
  earnAmountPerPoint :: int
  redeemValuePerPoint :: int
  minRedeemPoints :: int
  maxRedeemPointsPerOrder :: "int option"
  holdTtlSeconds :: int

record EarnResult =
  er_earnedPoints :: int
  er_eligibleSpendVnd :: int
  er_appliedRateVnd :: int

definition calculateEarnedPoints :: "jsval \<Rightarrow> 'a LoyaltySettingConfig_scheme \<Rightarrow> EarnResult cust_result" where
  "calculateEarnedPoints eligibleSpendVnd settings =
    ebind (parseVndBigInt eligibleSpendVnd True) (\<lambda>spend.
    ebind (parseVndBigInt (num_arg (earnAmountPerPoint settings)) False) (\<lambda>rate.
    let points = (if \<not> isEnabled settings \<or> spend \<le> 0 then 0 else max 0 (fli (bigint_div spend rate))) in
    ebind (toVndNumber spend) (\<lambda>s.
    ebind (toVndNumber rate) (\<lambda>r.
    Inr \<lparr>er_earnedPoints = points, er_eligibleSpendVnd = s, er_appliedRateVnd = r\<rparr>))))"

definition computeAvailablePoints :: "int \<Rightarrow> int \<Rightarrow> int" where
  "computeAvailablePoints postedPointsBalance heldPoints = max 0 (postedPointsBalance - heldPoints)"

record Redemption =
  rd_requestedPoints :: int
  rd_availableBefore :: int
  rd_availableAfter :: int
  rd_discountValueVnd :: int

definition validatePointRedemption :: "jsnum \<Rightarrow> int \<Rightarrow> int \<Rightarrow> 'a LoyaltySettingConfig_scheme \<Rightarrow> Redemption cust_result" where
  "validatePointRedemption requestedPoints postedPointsBalance heldPoints settings =
    ebind (throw_if (\<not> isEnabled settings) (cust_error LOYALTY_NOT_ENABLED 409)) (\<lambda>_.
    ebind (throw_if (\<not> is_integer_num requestedPoints \<or> js_le requestedPoints (Fin 0)) (cust_error VALIDATION_ERROR 422)) (\<lambda>_.
    let points = int_of_num requestedPoints in
    ebind (throw_if (points < minRedeemPoints settings) (cust_error LOYALTY_MINIMUM_NOT_MET 422)) (\<lambda>_.
    ebind (throw_if (case maxRedeemPointsPerOrder settings of None \<Rightarrow> False | Some m \<Rightarrow> points > m)
      (cust_error LOYALTY_MAXIMUM_EXCEEDED 422)) (\<lambda>_.
    let availableBefore = computeAvailablePoints postedPointsBalance heldPoints in
    ebind (throw_if (availableBefore < points) (cust_error INSUFFICIENT_LOYALTY_POINTS 409)) (\<lambda>_.
    ebind (parseVndBigInt (num_arg (redeemValuePerPoint settings)) False) (\<lambda>redeemRate.
    ebind (toVndNumber (points * redeemRate)) (\<lambda>discount.
    Inr \<lparr>rd_requestedPoints = points, rd_availableBefore = availableBefore, rd_availableAfter = availableBefore - points,
         rd_discountValueVnd = discount\<rparr>)))))))"

record ReversalInput =
  rv_originalEarnedPoints :: int
  rv_alreadyReversedPoints :: int
  rv_originalEligibleSpendVnd :: int
  rv_returnRefundAmountVnd :: int
  rv_cumulativeRefundedAmountVnd :: "int option"

text \<open>The points to reverse and the points still reversible afterwards.\<close>

definition calculateReturnPointReversal :: "ReversalInput \<Rightarrow> (int \<times> int) cust_result" where
  "calculateReturnPointReversal p =
    (if rv_originalEarnedPoints p \<le> 0 then Inr (0, 0)
     else let remainingPoints = max 0 (rv_originalEarnedPoints p - rv_alreadyReversedPoints p) in
       if remainingPoints = 0 then Inr (0, 0)
       else
         ebind (parseVndBigInt (num_arg (rv_originalEligibleSpendVnd p)) True) (\<lambda>origSpend.
         ebind (parseVndBigInt (num_arg (rv_returnRefundAmountVnd p)) True) (\<lambda>returnRefund.
         if origSpend \<le> 0 \<or> returnRefund \<le> 0 then Inr (0, remainingPoints)
         else case rv_cumulativeRefundedAmountVnd p of
           Some cum \<Rightarrow>
             ebind (parseVndBigInt (num_arg cum) True) (\<lambda>cumRefund.
             if cumRefund \<ge> origSpend then Inr (remainingPoints, 0)
             else let target = fli (bigint_div (rv_originalEarnedPoints p * cumRefund) origSpend);
                      delta = max 0 (min remainingPoints (target - rv_alreadyReversedPoints p)) in
               Inr (delta, remainingPoints - delta))
         | None \<Rightarrow>
             if returnRefund \<ge> origSpend then Inr (remainingPoints, 0)
             else let proportional = fli (bigint_div (rv_originalEarnedPoints p * returnRefund) origSpend);
                      points = max 0 (min remainingPoints proportional) in
               Inr (points, remainingPoints - points))))"

section \<open>Membership tiers\<close>

record MembershipTier =
  ti_id :: string
  ti_code :: string
  ti_name :: string
  ti_minPoints :: int
  ti_discountRate :: string
  ti_status :: string

definition js_sign :: "jsnum \<Rightarrow> int" where
  "js_sign x = (if js_lt (Fin 0) x then 1 else if js_lt x (Fin 0) then - 1 else 0)"

text \<open>The comparator of the sort; a comparator that answers NaN counts as equal.\<close>

definition tier_compare :: "(string \<Rightarrow> string \<Rightarrow> int) \<Rightarrow> 'a MembershipTier_scheme \<Rightarrow> 'a MembershipTier_scheme \<Rightarrow> int" where
  "tier_compare collate a b =
    (if ti_minPoints b \<noteq> ti_minPoints a then ti_minPoints b - ti_minPoints a
     else let discDiff = js_sub (num_of_string (ti_discountRate b)) (num_of_string (ti_discountRate a)) in
       if \<not> js_eq discDiff (Fin 0) then js_sign discDiff else collate (ti_code a) (ti_code b))"

definition resolveEligibleMembershipTier ::
    "(string \<Rightarrow> string \<Rightarrow> int) \<Rightarrow> int \<Rightarrow> 'a MembershipTier_scheme list \<Rightarrow> 'a MembershipTier_scheme option" where
  "resolveEligibleMembershipTier collate qualifyingPoints tiers =
    (let active = filter (\<lambda>t. ti_status t = ''ACTIVE'' \<and> qualifyingPoints \<ge> ti_minPoints t) tiers in
     if active = [] then None else Some (hd (js_sort (tier_compare collate) active)))"

section \<open>Facts about money\<close>

lemma toVndNumber_iff: "toVndNumber v = Inr n \<longleftrightarrow> \<bar>v\<bar> \<le> max_safe \<and> n = v"
  using max_safe_lt js_of_int_small [of v]
  by (auto simp: toVndNumber_def Let_def is_safe_integer_of_int)

declare toVndNumber_iff [ok_simps]

lemma parseVndBigInt_Num: "parseVndBigInt (Num x) z = Inr n \<longleftrightarrow> is_safe_integer x \<and> n = int_of_num x \<and> 0 \<le> n \<and> (z \<or> n \<noteq> 0)"
  by (auto simp: parseVndBigInt_def bigint_of_safe split: if_splits)

lemma parseVndBigInt_Big: "parseVndBigInt (Big v) z = Inr n \<longleftrightarrow> n = v \<and> 0 \<le> v \<and> (z \<or> v \<noteq> 0)"
  by (auto simp: parseVndBigInt_def)

interpretation cust_money: money_gate "\<lambda>v. parseVndBigInt v True" toVndNumber
  by unfold_locales (auto simp: parseVndBigInt_Num parseVndBigInt_Big toVndNumber_iff)

lemma parseVndBigInt_num_arg [ok_simps]:
  "parseVndBigInt (num_arg n) z = Inr m \<longleftrightarrow> 0 \<le> n \<and> n \<le> max_safe \<and> (z \<or> n \<noteq> 0) \<and> m = n"
  by (auto simp: num_arg_def parseVndBigInt_Num)

lemma parse_num_arg_ok: "0 \<le> n \<Longrightarrow> n \<le> max_safe \<Longrightarrow> parseVndBigInt (num_arg n) True = Inr n"
  by (simp add: parseVndBigInt_num_arg)

lemma parse_nonneg: "parseVndBigInt v z = Inr n \<Longrightarrow> 0 \<le> n"
  by (auto simp: parseVndBigInt_def ok_simps split: if_splits)

section \<open>Facts about points\<close>

lemma calculateEarnedPoints_sound:
  assumes "calculateEarnedPoints spend settings = Inr r"
  shows "0 < earnAmountPerPoint settings" "0 \<le> er_eligibleSpendVnd r" "er_appliedRateVnd r = earnAmountPerPoint settings"
    "er_earnedPoints r = (if isEnabled settings then er_eligibleSpendVnd r div earnAmountPerPoint settings else 0)"
    "0 \<le> er_earnedPoints r" "er_eligibleSpendVnd r \<le> max_safe" "er_earnedPoints r \<le> max_safe"
proof -
  let ?rate = "earnAmountPerPoint settings"
  from assms obtain s where s: "parseVndBigInt spend True = Inr s" "s \<le> max_safe" "0 < ?rate"
    "r = \<lparr>er_earnedPoints = (if \<not> isEnabled settings \<or> s \<le> 0 then 0 else max 0 (fli (bigint_div s ?rate))), er_eligibleSpendVnd = s, er_appliedRateVnd = ?rate\<rparr>"
    by (auto simp: calculateEarnedPoints_def ok_simps Let_def)
  have "0 \<le> s" using s(1) by (rule parse_nonneg)
  then have div: "0 \<le> s div ?rate" "s div ?rate \<le> s" using s(3) zdiv_mono2 [of s 1 ?rate] by (simp_all add: pos_imp_zdiv_nonneg_iff)
  then have "fli (s div ?rate) = s div ?rate" using s(2) max_safe_lt by (intro fli_exact) simp
  then show "0 < ?rate" "0 \<le> er_eligibleSpendVnd r" "er_appliedRateVnd r = ?rate"
    "er_earnedPoints r = (if isEnabled settings then er_eligibleSpendVnd r div ?rate else 0)"
    "0 \<le> er_earnedPoints r" "er_eligibleSpendVnd r \<le> max_safe" "er_earnedPoints r \<le> max_safe"
    using s \<open>0 \<le> s\<close> div by (auto simp: max_safe_def)
qed

lemma validatePointRedemption_sound:
  assumes "validatePointRedemption x posted held settings = Inr r"
  shows "isEnabled settings" "0 < rd_requestedPoints r" "x = Fin (of_int (rd_requestedPoints r))"
    "minRedeemPoints settings \<le> rd_requestedPoints r"
    "\<forall>m. maxRedeemPointsPerOrder settings = Some m \<longrightarrow> rd_requestedPoints r \<le> m"
    "rd_requestedPoints r \<le> posted - held" "rd_discountValueVnd r = rd_requestedPoints r * redeemValuePerPoint settings"
    "0 < redeemValuePerPoint settings"
proof -
  have x: "is_integer_num x" "\<not> js_le x (Fin 0)" using assms by (auto simp: validatePointRedemption_def ok_simps)
  then obtain q where q: "x = Fin q" "q = of_int \<lfloor>q\<rfloor>" "\<not> q \<le> 0" by (cases x) (auto simp: is_integer_num_def js_le_def js_eq_def)
  then obtain n where n: "q = of_int n" by blast
  then have "int_of_num x = n" "0 < n" using q by (auto simp: not_le)
  then show "isEnabled settings" "0 < rd_requestedPoints r" "x = Fin (of_int (rd_requestedPoints r))"
    "minRedeemPoints settings \<le> rd_requestedPoints r"
    "\<forall>m. maxRedeemPointsPerOrder settings = Some m \<longrightarrow> rd_requestedPoints r \<le> m"
    "rd_requestedPoints r \<le> posted - held" "rd_discountValueVnd r = rd_requestedPoints r * redeemValuePerPoint settings"
    "0 < redeemValuePerPoint settings"
    using assms q n by (auto simp: validatePointRedemption_def ok_simps Let_def computeAvailablePoints_def split: option.splits)
qed

text \<open>The points that a refund of \<open>cum\<close> out of \<open>spend\<close> takes back in all.\<close>

definition reversal_target :: "int \<Rightarrow> int \<Rightarrow> int \<Rightarrow> int" where
  "reversal_target earned spend cum = (if cum \<ge> spend then earned else earned * cum div spend)"

lemma reversal_target_bounds:
  assumes "0 < earned" "0 < spend" "0 \<le> cum"
  shows "0 \<le> reversal_target earned spend cum" "reversal_target earned spend cum \<le> earned"
proof -
  have "earned * cum div spend \<le> earned" if "cum < spend"
  proof -
    have "earned * cum \<le> earned * spend" using assms that by simp
    then have "earned * cum div spend \<le> earned * spend div spend" using assms(2) by (rule zdiv_mono1)
    then show ?thesis using assms(2) by simp
  qed
  then show "reversal_target earned spend cum \<le> earned" by (simp add: reversal_target_def)
  show "0 \<le> reversal_target earned spend cum" using assms by (simp add: reversal_target_def pos_imp_zdiv_nonneg_iff)
qed

lemma reversal_target_mono:
  assumes "0 < earned" "0 < spend" "0 \<le> a" "a \<le> b"
  shows "reversal_target earned spend a \<le> reversal_target earned spend b"
proof (cases "b \<ge> spend")
  case True
  then have "reversal_target earned spend b = earned" by (simp add: reversal_target_def)
  then show ?thesis using reversal_target_bounds [OF assms(1-3)] by simp
next
  case False
  then show ?thesis using assms by (auto simp: reversal_target_def intro!: zdiv_mono1 mult_left_mono)
qed

lemma reversal_step:
  assumes "0 < earned" "earned \<le> max_safe" "0 < spend" "spend \<le> max_safe" "0 \<le> cum" "0 \<le> refund" "cum + refund \<le> max_safe"
  shows "calculateReturnPointReversal \<lparr>rv_originalEarnedPoints = earned, rv_alreadyReversedPoints = reversal_target earned spend cum,
      rv_originalEligibleSpendVnd = spend, rv_returnRefundAmountVnd = refund, rv_cumulativeRefundedAmountVnd = Some (cum + refund)\<rparr> =
    Inr (reversal_target earned spend (cum + refund) - reversal_target earned spend cum, earned - reversal_target earned spend (cum + refund))"
proof -
  let ?t = "reversal_target earned spend"
  have before: "0 \<le> ?t cum" "?t cum \<le> earned" and after: "0 \<le> ?t (cum + refund)" "?t (cum + refund) \<le> earned"
    using assms reversal_target_bounds by simp_all
  have mono: "?t cum \<le> ?t (cum + refund)" using assms by (intro reversal_target_mono) simp_all
  have exact: "fli (?t (cum + refund)) = ?t (cum + refund)" using after assms(2) max_safe_lt by (intro fli_exact) simp
  have parse: "parseVndBigInt (num_arg spend) True = Inr spend" "parseVndBigInt (num_arg refund) True = Inr refund"
    "parseVndBigInt (num_arg (cum + refund)) True = Inr (cum + refund)"
    using assms by (simp_all add: parse_num_arg_ok)
  have nonneg: "0 \<le> earned * (cum + refund)" using assms by simp
  show ?thesis
  proof (cases "?t cum = earned")
    case True
    then show ?thesis using assms mono after by (simp add: calculateReturnPointReversal_def)
  next
    case False
    then have rem: "0 < earned - ?t cum" using before by simp
    show ?thesis
      using assms rem parse before after mono exact nonneg
      by (auto simp: calculateReturnPointReversal_def reversal_target_def Let_def bigint_div_nonneg split: if_splits)
  qed
qed

section \<open>Facts about tiers\<close>

lemma hd_js_insert: "hd (js_insert cmp x xs) = (if xs = [] then x else if cmp x (hd xs) \<le> 0 then x else hd xs)"
  by (cases xs) auto

lemma tier_compare_points:
  "tier_compare collate a b \<le> 0 \<Longrightarrow> ti_minPoints b \<le> ti_minPoints a"
  "\<not> tier_compare collate a b \<le> 0 \<Longrightarrow> ti_minPoints a \<le> ti_minPoints b"
  by (auto simp: tier_compare_def split: if_splits)

lemma hd_tier_sort: "t \<in> set ts \<Longrightarrow> ti_minPoints t \<le> ti_minPoints (hd (js_sort (tier_compare collate) ts))"
proof (induction ts arbitrary: t)
  case (Cons x xs)
  let ?h = "hd (js_sort (tier_compare collate) xs)"
  show ?case
  proof (cases "xs = []")
    case True
    then show ?thesis using Cons.prems by simp
  next
    case False
    have "ti_minPoints t \<le> max (ti_minPoints x) (ti_minPoints ?h)" using Cons by (auto simp: le_max_iff_disj)
    then show ?thesis
      using False tier_compare_points [of collate x ?h] by (cases "tier_compare collate x ?h \<le> 0") (simp_all add: hd_js_insert)
  qed
qed simp

lemma resolve_tier_sound:
  assumes "resolveEligibleMembershipTier collate q ts = Some t"
  shows "t \<in> set ts \<and> ti_status t = ''ACTIVE'' \<and> ti_minPoints t \<le> q \<and>
    (\<forall>u \<in> set ts. ti_status u = ''ACTIVE'' \<and> ti_minPoints u \<le> q \<longrightarrow> ti_minPoints u \<le> ti_minPoints t)"
proof -
  let ?active = "filter (\<lambda>t. ti_status t = ''ACTIVE'' \<and> q \<ge> ti_minPoints t) ts"
  have t: "?active \<noteq> []" "t = hd (js_sort (tier_compare collate) ?active)"
    using assms by (auto simp: resolveEligibleMembershipTier_def Let_def split: if_splits)
  have "js_sort (tier_compare collate) ?active \<noteq> []" using t(1) by (simp only: js_sort_eq_Nil not_False_eq_True)
  then have "t \<in> set (js_sort (tier_compare collate) ?active)" unfolding t(2) by (rule hd_in_set)
  then have "t \<in> set ?active" by (simp only: set_js_sort)
  moreover have "ti_minPoints u \<le> ti_minPoints t" if "u \<in> set ?active" for u unfolding t(2) using that by (rule hd_tier_sort)
  ultimately show ?thesis by simp
qed

section \<open>Facts about phone numbers\<close>

lemma digit_phone_char: "is_digit c \<Longrightarrow> phone_char c"
  by (simp add: phone_char_def)

lemma digits_trim: "list_all is_digit s \<Longrightarrow> js_trim s = s"
  by (cases "s = []") (simp add: js_trim_def trim_start_def, rule js_trim_id, auto simp: list_all_iff digit_not_space)

lemma starts_with_simps [simp]:
  "starts_with [] s" "starts_with (c # p) (d # s) \<longleftrightarrow> c = d \<and> starts_with p s" "\<not> starts_with (c # p) []"
  by (auto simp: starts_with_def)

lemma vn_number: "isVnMobile s \<or> isVnLandline s \<Longrightarrow> list_all is_digit s \<and> (\<exists>r. s = CHR ''0'' # r)"
  by (cases s) (auto simp: isVnMobile_def isVnLandline_def)

lemma digit_signs: "is_digit CHR ''0''" "\<not> is_digit CHR ''+''" "phone_char CHR ''+''" "\<not> is_space CHR ''+''"
  by (simp_all add: is_digit_def code_def phone_char_def is_space_def)

lemma normalize_vn_fix:
  assumes "isVnMobile s \<or> isVnLandline s"
  shows "normalizePhoneNumber (Some s) = Inr (Some s)"
proof -
  obtain r where s: "list_all is_digit s" "s = CHR ''0'' # r" using vn_number [OF assms] by blast
  have "filter is_digit s = s" "list_all phone_char s" using s(1) by (auto simp: list_all_iff filter_id_conv digit_phone_char)
  moreover have "\<not> starts_with ''+'' s" "\<not> starts_with ''84'' s" "s \<noteq> []" using s(2) by auto
  ultimately show ?thesis using assms digits_trim [OF s(1)] by (auto simp: normalizePhoneNumber_def Let_def)
qed

lemma normalize_international_fix:
  assumes "list_all is_digit d" "\<not> starts_with ''84'' d" "8 \<le> length d" "length d \<le> 15"
  shows "normalizePhoneNumber (Some (CHR ''+'' # d)) = Inr (Some (CHR ''+'' # d))"
proof -
  have "js_trim (CHR ''+'' # d) = CHR ''+'' # d"
    using assms(1,3) digit_not_space digit_signs by (intro js_trim_id) (auto simp: list_all_iff)
  moreover have "filter is_digit d = d" "list_all phone_char d" using assms(1) by (auto simp: list_all_iff filter_id_conv digit_phone_char)
  moreover have "d \<noteq> []" using assms(3) by auto
  ultimately show ?thesis using assms(2-4) digit_signs by (simp add: normalizePhoneNumber_def Let_def)
qed

lemma normalize_phone_cases:
  assumes "normalizePhoneNumber (Some s) = Inr (Some t)"
  shows "isVnMobile t \<or> isVnLandline t \<or>
    (\<exists>d. t = CHR ''+'' # d \<and> list_all is_digit d \<and> \<not> starts_with ''84'' d \<and> 8 \<le> length d \<and> length d \<le> 15)"
  using assms by (auto simp: normalizePhoneNumber_def Let_def list_all_iff split: if_splits)

section \<open>Facts about CSV cells\<close>

text \<open>How a spreadsheet reads a cell: a quoted one without its quotes, with doubled quotes read as one.\<close>

fun unquote :: "string \<Rightarrow> string" where
  "unquote [] = []"
| "unquote [c] = [c]"
| "unquote (c # d # s) = (if c = CHR 0x22 \<and> d = CHR 0x22 then CHR 0x22 # unquote s else c # unquote (d # s))"

definition csv_read :: "string \<Rightarrow> string" where
  "csv_read s = (if hd_is (\<lambda>c. c = CHR 0x22) s then unquote (butlast (tl s)) else s)"

lemma unquote_double: "unquote (double_quotes s) = s"
proof (induction s)
  case (Cons c s)
  show ?case
  proof (cases "c = CHR 0x22")
    case False
    then have "double_quotes (c # s) = c # double_quotes s" by (simp add: double_quotes_def)
    then show ?thesis using Cons False by (cases "double_quotes s") auto
  qed (use Cons in \<open>simp add: double_quotes_def\<close>)
qed (simp add: double_quotes_def)

lemma csv_read_sanitized: "csv_read (sanitizeCsvCell (Some v)) = guarded_cell v"
proof (cases "list_ex needs_quotes (guarded_cell v)")
  case True
  then show ?thesis by (simp add: sanitizeCsvCell_def Let_def csv_read_def hd_is_def unquote_double)
next
  case False
  then have "\<not> hd_is (\<lambda>c. c = CHR 0x22) (guarded_cell v)" by (cases "guarded_cell v") (auto simp: hd_is_def needs_quotes_def)
  then show ?thesis using False by (simp add: sanitizeCsvCell_def Let_def csv_read_def)
qed

lemma guarded_cell_inert: "\<not> hd_is risky_start (guarded_cell v)" "\<not> hd_is formula_char (trim_start (guarded_cell v))"
proof -
  have quote: "\<not> risky_start CHR 0x27" "\<not> formula_char CHR 0x27" "\<not> is_space CHR 0x27"
    by (simp_all add: risky_start_def formula_char_def is_space_def code_def)
  show "\<not> hd_is risky_start (guarded_cell v)" "\<not> hd_is formula_char (trim_start (guarded_cell v))"
    using quote by (auto simp: guarded_cell_def hd_is_def trim_start_def)
qed

section \<open>Properties\<close>

text \<open>
  Phone numbers have one normal form. What the normalisation returns is a ten- or eleven-digit Vietnamese number or a plus sign with
  8 to 15 digits, and normalising it again changes nothing, so that looking customers up by the stored number is well defined.
\<close>

theorem phone_normal_form:
  assumes "normalizePhoneNumber (Some s) = Inr (Some t)"
  shows "normalizePhoneNumber (Some t) = Inr (Some t) \<and> (isVnMobile t \<or> isVnLandline t \<or>
    (\<exists>d. t = CHR ''+'' # d \<and> list_all is_digit d \<and> 8 \<le> length d \<and> length d \<le> 15))"
  using normalize_phone_cases [OF assms] normalize_vn_fix normalize_international_fix by blast

theorem phone_normal_form_witness:
  "normalizePhoneNumber (Some ''+84 0912-345-678'') = Inr (Some ''0912345678'') \<and> normalizePhoneNumber (Some ''0912345678'') = Inr (Some ''0912345678'')"
proof -
  have "normalizePhoneNumber (Some ''+84 0912-345-678'') = Inr (Some ''0912345678'')" by code_simp
  then show ?thesis using phone_normal_form by blast
qed

text \<open>
  C39: an exported cell never starts a formula. What a spreadsheet reads from the cell is the value, or the value behind an apostrophe; it
  does not begin with a formula sign, also not after leading white space, and a cell that holds a separator or a quote is quoted.
\<close>

theorem csv_cell_inert:
  "(csv_read (sanitizeCsvCell (Some v)) = v \<or> csv_read (sanitizeCsvCell (Some v)) = CHR 0x27 # v) \<and>
   \<not> hd_is risky_start (csv_read (sanitizeCsvCell (Some v))) \<and>
   \<not> hd_is formula_char (trim_start (csv_read (sanitizeCsvCell (Some v)))) \<and>
   (list_ex needs_quotes v \<longleftrightarrow> hd_is (\<lambda>c. c = CHR 0x22) (sanitizeCsvCell (Some v)))"
proof -
  have "needs_quotes CHR 0x27 = False" by (simp add: needs_quotes_def code_def)
  then have "list_ex needs_quotes (guarded_cell v) \<longleftrightarrow> list_ex needs_quotes v" by (simp add: guarded_cell_def)
  moreover have "hd_is (\<lambda>c. c = CHR 0x22) (guarded_cell v) \<Longrightarrow> list_ex needs_quotes (guarded_cell v)"
    by (cases "guarded_cell v") (auto simp: hd_is_def needs_quotes_def)
  ultimately have "list_ex needs_quotes v \<longleftrightarrow> hd_is (\<lambda>c. c = CHR 0x22) (sanitizeCsvCell (Some v))"
    by (auto simp: sanitizeCsvCell_def Let_def hd_is_def [of _ "_ # _"])
  then show ?thesis using guarded_cell_inert [of v] by (simp add: csv_read_sanitized) (simp add: guarded_cell_def)
qed

text \<open>The points reversed after a list of returns, each computed from the cumulative refund and what was reversed before.\<close>

fun reverse_returns :: "int \<Rightarrow> int \<Rightarrow> int \<Rightarrow> int \<Rightarrow> int list \<Rightarrow> int cust_result" where
  "reverse_returns earned spend already cum [] = Inr already"
| "reverse_returns earned spend already cum (r # rs) =
    ebind (calculateReturnPointReversal \<lparr>rv_originalEarnedPoints = earned, rv_alreadyReversedPoints = already,
        rv_originalEligibleSpendVnd = spend, rv_returnRefundAmountVnd = r, rv_cumulativeRefundedAmountVnd = Some (cum + r)\<rparr>)
      (\<lambda>(points, _). reverse_returns earned spend (already + points) (cum + r) rs)"

lemma reverse_returns_target:
  "0 < earned \<Longrightarrow> earned \<le> max_safe \<Longrightarrow> 0 < spend \<Longrightarrow> spend \<le> max_safe \<Longrightarrow> 0 \<le> cum \<Longrightarrow> \<forall>r \<in> set rs. 0 \<le> r \<Longrightarrow>
     cum + sum_list rs \<le> max_safe \<Longrightarrow>
   reverse_returns earned spend (reversal_target earned spend cum) cum rs = Inr (reversal_target earned spend (cum + sum_list rs))"
proof (induction rs arbitrary: cum)
  case (Cons r rs)
  have "0 \<le> sum_list rs" using Cons.prems(6) by (intro sum_list_nonneg) simp
  then have "cum + r \<le> max_safe" using Cons.prems(7) by simp
  then show ?case using Cons reversal_step [of earned spend cum r] by (simp add: add.assoc)
qed simp

text \<open>
  Returns of an order take back its points exactly. However the order is returned in parts, the points reversed in all are the
  earned points times the refunded share of the eligible spend, rounded down, and all of them once everything is refunded: they depend
  on the total refunded, not on how it was split.
\<close>

theorem returns_reverse_exactly:
  assumes "0 < earned" "earned \<le> max_safe" "0 < spend" "spend \<le> max_safe" "\<forall>r \<in> set rs. 0 \<le> r" "sum_list rs \<le> max_safe"
  shows "reverse_returns earned spend 0 0 rs =
    Inr (if sum_list rs \<ge> spend then earned else earned * sum_list rs div spend)"
  using reverse_returns_target [OF assms(1-4) _ assms(5), of 0] assms(3,6) by (simp add: reversal_target_def)

theorem returns_reverse_exactly_witness:
  "reverse_returns 100 999000 0 0 [333000, 333000, 332999] = Inr 99 \<and> reverse_returns 100 999000 0 0 [998999] = Inr 99"
  using returns_reverse_exactly [of 100 999000 "[333000, 333000, 332999]"] returns_reverse_exactly [of 100 999000 "[998999]"]
  by (simp add: max_safe_def)

end
