(* ===== verification/LoyaltyPoints.thy ===== *)
theory LoyaltyPoints
  imports CustomerDomain HoldSpec "HOL-Library.Multiset"
begin

text \<open>
  The point wallets of customers (\<^verbatim>\<open>apps/customer/src/modules/loyalty/loyalty.service.ts\<close>,
  \<^verbatim>\<open>modules/memberships/memberships.service.ts\<close>): settings, accounts, manual adjustments, two-phase redemption through
  holds, the sweep of overdue holds, points earned by completed orders and taken back by returns, and the
  reconciliation. The tables are those of one tenant; an operation that throws leaves them as they were. The database's
  constraints are checked where rows are written: column ranges and lengths, unique keys and checks of the migration.
\<close>

section \<open>Tables\<close>

record LoyaltySetting = LoyaltySettingConfig +
  ls_pointsExpirationDays :: "int option"
  ls_version :: int
  ls_updatedBy :: "string option"

datatype AccountStatus = LA_ACTIVE | LA_SUSPENDED | LA_CLOSED

record LoyaltyAccount =
  la_id :: string
  la_customerId :: string
  la_posted :: int
  la_held :: int
  la_lifetimeEarned :: int
  la_lifetimeRedeemed :: int
  la_qualifying :: int
  la_tierId :: "string option"
  la_status :: AccountStatus
  la_version :: int

datatype LoyaltyTransactionType =
  EARN | REDEEM | EARN_REVERSAL | REDEMPTION_REVERSAL | MANUAL_ADJUSTMENT | EXPIRE | MERGE_IN | MERGE_OUT

record LoyaltyTransaction =
  lt_id :: string
  lt_customerId :: string
  lt_accountId :: string
  lt_type :: LoyaltyTransactionType
  lt_pointsDelta :: int
  lt_balanceBefore :: int
  lt_balanceAfter :: int
  lt_sourceType :: string
  lt_sourceRefId :: string
  lt_idempotencyKey :: string
  lt_orderId :: "string option"
  lt_returnId :: "string option"
  lt_holdId :: "string option"
  lt_originalTransactionId :: "string option"
  lt_eligibleSpendAmount :: "int option"
  lt_appliedRate :: "int option"
  lt_actorId :: "string option"
  lt_correlationId :: "string option"
  lt_reason :: "string option"

datatype LoyaltyHoldState = LH_HELD | LH_COMMITTED | LH_RELEASED | LH_EXPIRED

record LoyaltyHold =
  lh_id :: string
  lh_customerId :: string
  lh_accountId :: string
  lh_callerService :: string
  lh_operation :: string
  lh_idempotencyKey :: string
  lh_requestHash :: string
  lh_sourceRefType :: string
  lh_sourceRefId :: string
  lh_points :: int
  lh_discountValueVnd :: int
  lh_state :: LoyaltyHoldState
  lh_expiresAt :: int
  lh_committedAt :: "int option"
  lh_releasedAt :: "int option"
  lh_releaseReason :: "string option"
  lh_version :: int

record PurchaseProjection =
  pp_customerId :: string
  pp_orderCode :: string
  pp_branchId :: "string option"
  pp_channelType :: string
  pp_orderStatus :: string
  pp_originalOrderTotal :: int
  pp_eligibleNetSpend :: int
  pp_returnedAmount :: int
  pp_earnedPoints :: int
  pp_reversedPoints :: int
  pp_completedAt :: int
  pp_lastEventId :: "string option"

record CustomerRow =
  cu_code :: string
  cu_status :: string
  cu_deleted :: bool
  cu_membershipTierId :: "string option"
  cu_phone :: "string option"
  cu_phoneNormalized :: "string option"
  cu_email :: "string option"
  cu_mergedInto :: "string option"
  cu_version :: int

record CustomerAddress =
  ad_id :: string
  ad_customerId :: string
  ad_isDefault :: bool
  ad_status :: string

record MergeRecord =
  mr_sourceCustomerId :: string
  mr_targetCustomerId :: string
  mr_idempotencyKey :: string
  mr_transferredPoints :: int
  mr_movedAddressesCount :: nat
  mr_movedOrdersCount :: nat
  mr_actorId :: string
  mr_reason :: "string option"

text \<open>The events written to the outbox; a payload is read off the row it is about.\<close>

datatype LoyaltyEvent =
    CUSTOMER_LOYALTY_HOLD_CREATED LoyaltyHold
  | CUSTOMER_LOYALTY_HOLD_COMMITTED LoyaltyHold
  | CUSTOMER_LOYALTY_HOLD_RELEASED LoyaltyHold
  | CUSTOMER_LOYALTY_HOLD_EXPIRED LoyaltyHold
  | CUSTOMER_LOYALTY_POINTS_EARNED LoyaltyTransaction
  | CUSTOMER_LOYALTY_POINTS_REDEEMED LoyaltyTransaction
  | CUSTOMER_LOYALTY_POINTS_REVERSED LoyaltyTransaction
  | CUSTOMER_MEMBERSHIP_CHANGED string "string option" "string option" int
  | CUSTOMER_DEACTIVATED string CustomerRow
  | CUSTOMER_UPDATED string CustomerRow

text \<open>Accounts are keyed by customer, holds by their id, projections by order: the unique keys of these tables.\<close>

record LoyaltyDb =
  ld_settings :: "LoyaltySetting option"
  ld_customers :: "(string, CustomerRow) jsmap"
  ld_accounts :: "(string, LoyaltyAccount) jsmap"
  ld_holds :: "(string, LoyaltyHold) jsmap"
  ld_txs :: "LoyaltyTransaction list"
  ld_projections :: "(string, PurchaseProjection) jsmap"
  ld_tiers :: "MembershipTier list"
  ld_addresses :: "CustomerAddress list"
  ld_merges :: "MergeRecord list"
  ld_outbox :: "LoyaltyEvent list"

text \<open>What \<^verbatim>\<open>randomUUID\<close> gives during one operation.\<close>

record LoyaltyIds =
  new_account :: string
  new_hold :: string
  new_tx :: string
  new_rev_tx :: string
  new_key :: string

section \<open>Writing rows\<close>

definition int4 :: "int \<Rightarrow> bool" where
  "int4 n \<longleftrightarrow> - 2147483648 \<le> n \<and> n \<le> 2147483647"

definition db_error :: "string \<Rightarrow> CustomerDomainErrorCode err" where
  "db_error sqlstate = NativeError sqlstate"

definition fits :: "nat \<Rightarrow> string option \<Rightarrow> bool" where
  "fits n v = (case v of None \<Rightarrow> True | Some s \<Rightarrow> length s \<le> n)"

definition save_account :: "LoyaltyAccount \<Rightarrow> LoyaltyDb \<Rightarrow> LoyaltyDb cust_result" where
  "save_account a db =
    ebind (throw_if (\<not> list_all int4 [la_posted a, la_held a, la_lifetimeEarned a, la_lifetimeRedeemed a, la_qualifying a, la_version a])
      (db_error ''22003'')) (\<lambda>_.
    ebind (throw_if (la_held a < 0 \<or> la_lifetimeEarned a < 0 \<or> la_lifetimeRedeemed a < 0 \<or> la_qualifying a < 0) (db_error ''23514'')) (\<lambda>_.
    Inr (db\<lparr>ld_accounts := map_set (la_customerId a) a (ld_accounts db)\<rparr>)))"

definition tx_clash :: "LoyaltyTransaction \<Rightarrow> LoyaltyTransaction \<Rightarrow> bool" where
  "tx_clash t u \<longleftrightarrow> lt_id u = lt_id t \<or> lt_idempotencyKey u = lt_idempotencyKey t \<or>
     (lt_type u = lt_type t \<and> lt_sourceRefId u = lt_sourceRefId t)"

definition insert_tx :: "LoyaltyTransaction \<Rightarrow> LoyaltyDb \<Rightarrow> LoyaltyDb cust_result" where
  "insert_tx t db =
    ebind (throw_if (\<not> list_all int4 [lt_pointsDelta t, lt_balanceBefore t, lt_balanceAfter t]) (db_error ''22003'')) (\<lambda>_.
    ebind (throw_if (32 < length (lt_sourceType t) \<or> 128 < length (lt_sourceRefId t) \<or> 160 < length (lt_idempotencyKey t) \<or>
      \<not> fits 64 (lt_actorId t) \<or> \<not> fits 128 (lt_correlationId t) \<or> \<not> fits 255 (lt_reason t)) (db_error ''22001'')) (\<lambda>_.
    ebind (throw_if (lt_pointsDelta t = 0 \<or> lt_balanceBefore t + lt_pointsDelta t \<noteq> lt_balanceAfter t) (db_error ''23514'')) (\<lambda>_.
    ebind (throw_if (list_ex (tx_clash t) (ld_txs db)) (db_error ''23505'')) (\<lambda>_.
    Inr (db\<lparr>ld_txs := ld_txs db @ [t]\<rparr>)))))"

definition hold_clash :: "LoyaltyHold \<Rightarrow> LoyaltyHold \<Rightarrow> bool" where
  "hold_clash h g \<longleftrightarrow> lh_id g = lh_id h \<or>
     (lh_callerService g = lh_callerService h \<and> lh_operation g = lh_operation h \<and> lh_idempotencyKey g = lh_idempotencyKey h)"

definition insert_hold :: "LoyaltyHold \<Rightarrow> LoyaltyDb \<Rightarrow> LoyaltyDb cust_result" where
  "insert_hold h db =
    ebind (throw_if (\<not> int4 (lh_points h)) (db_error ''22003'')) (\<lambda>_.
    ebind (throw_if (32 < length (lh_callerService h) \<or> 128 < length (lh_idempotencyKey h) \<or> 64 < length (lh_requestHash h) \<or>
      32 < length (lh_sourceRefType h) \<or> 128 < length (lh_sourceRefId h)) (db_error ''22001'')) (\<lambda>_.
    ebind (throw_if (lh_points h \<le> 0) (db_error ''23514'')) (\<lambda>_.
    ebind (throw_if (list_ex (hold_clash h) (map snd (ld_holds db))) (db_error ''23505'')) (\<lambda>_.
    Inr (db\<lparr>ld_holds := map_set (lh_id h) h (ld_holds db)\<rparr>)))))"

definition save_hold :: "LoyaltyHold \<Rightarrow> LoyaltyDb \<Rightarrow> LoyaltyDb cust_result" where
  "save_hold h db =
    ebind (throw_if (\<not> int4 (lh_version h)) (db_error ''22003'')) (\<lambda>_.
    ebind (throw_if (\<not> fits 128 (lh_releaseReason h)) (db_error ''22001'')) (\<lambda>_.
    Inr (db\<lparr>ld_holds := map_set (lh_id h) h (ld_holds db)\<rparr>)))"

definition save_projection :: "string \<Rightarrow> PurchaseProjection \<Rightarrow> LoyaltyDb \<Rightarrow> LoyaltyDb cust_result" where
  "save_projection orderId p db =
    ebind (throw_if (\<not> int4 (pp_earnedPoints p) \<or> \<not> int4 (pp_reversedPoints p)) (db_error ''22003'')) (\<lambda>_.
    ebind (throw_if (64 < length (pp_orderCode p) \<or> 32 < length (pp_channelType p) \<or> \<not> fits 128 (pp_lastEventId p)) (db_error ''22001'')) (\<lambda>_.
    ebind (throw_if (pp_originalOrderTotal p < 0 \<or> pp_eligibleNetSpend p < 0 \<or> pp_returnedAmount p < 0) (db_error ''23514'')) (\<lambda>_.
    Inr (db\<lparr>ld_projections := map_set orderId p (ld_projections db)\<rparr>))))"

definition emit :: "LoyaltyEvent \<Rightarrow> LoyaltyDb \<Rightarrow> LoyaltyDb" where
  "emit e db = db\<lparr>ld_outbox := ld_outbox db @ [e]\<rparr>"

section \<open>Settings and accounts\<close>

definition default_settings :: LoyaltySetting where
  "default_settings = \<lparr>isEnabled = True, earnAmountPerPoint = 10000, redeemValuePerPoint = 1000, minRedeemPoints = 10,
     maxRedeemPointsPerOrder = Some 10000, holdTtlSeconds = 900, ls_pointsExpirationDays = None, ls_version = 1, ls_updatedBy = None\<rparr>"

definition getOrCreateSettingsInTx :: "LoyaltyDb \<Rightarrow> LoyaltySetting \<times> LoyaltyDb" where
  "getOrCreateSettingsInTx db =
    (case ld_settings db of Some s \<Rightarrow> (s, db) | None \<Rightarrow> (default_settings, db\<lparr>ld_settings := Some default_settings\<rparr>))"

record UpdateLoyaltySettingsDto =
  us_isEnabled :: "bool option"
  us_earnAmountPerPoint :: "jsval option"
  us_redeemValuePerPoint :: "jsval option"
  us_minRedeemPoints :: "int option"
  us_maxRedeemPointsPerOrder :: "int option option"
  us_holdTtlSeconds :: "int option"
  us_pointsExpirationDays :: "int option option"

definition set_opt :: "'a option \<Rightarrow> ('a \<Rightarrow> 's \<Rightarrow> 's) \<Rightarrow> 's \<Rightarrow> 's" where
  "set_opt v f s = (case v of None \<Rightarrow> s | Some x \<Rightarrow> f x s)"

definition money_setting :: "jsval option \<Rightarrow> int \<Rightarrow> int cust_result" where
  "money_setting v old = (case v of None \<Rightarrow> Inr old | Some raw \<Rightarrow> ebind (parseVndBigInt raw False) toVndNumber)"

definition settings_valid :: "LoyaltySetting \<Rightarrow> bool" where
  "settings_valid s \<longleftrightarrow> 0 < earnAmountPerPoint s \<and> 0 < redeemValuePerPoint s \<and> 1 \<le> minRedeemPoints s \<and> 1 \<le> holdTtlSeconds s"

definition settings_fit :: "LoyaltySetting \<Rightarrow> bool" where
  "settings_fit s \<longleftrightarrow> list_all int4 [minRedeemPoints s, holdTtlSeconds s, ls_version s] \<and>
     pred_option int4 (maxRedeemPointsPerOrder s) \<and> pred_option int4 (ls_pointsExpirationDays s)"

definition updateSettings :: "string \<Rightarrow> UpdateLoyaltySettingsDto \<Rightarrow> LoyaltyDb \<Rightarrow> (LoyaltySetting \<times> LoyaltyDb) cust_result" where
  "updateSettings actorId dto db =
    (case getOrCreateSettingsInTx db of (s, db1) \<Rightarrow>
     ebind (money_setting (us_earnAmountPerPoint dto) (earnAmountPerPoint s)) (\<lambda>earn.
     ebind (money_setting (us_redeemValuePerPoint dto) (redeemValuePerPoint s)) (\<lambda>redeem.
     let s1 = set_opt (us_isEnabled dto) (\<lambda>v s. s\<lparr>isEnabled := v\<rparr>) s;
         s2 = s1\<lparr>earnAmountPerPoint := earn, redeemValuePerPoint := redeem\<rparr>;
         s3 = set_opt (us_minRedeemPoints dto) (\<lambda>v s. s\<lparr>minRedeemPoints := v\<rparr>) s2;
         s4 = set_opt (us_maxRedeemPointsPerOrder dto) (\<lambda>v s. s\<lparr>maxRedeemPointsPerOrder := v\<rparr>) s3;
         s5 = set_opt (us_holdTtlSeconds dto) (\<lambda>v s. s\<lparr>holdTtlSeconds := v\<rparr>) s4;
         s6 = set_opt (us_pointsExpirationDays dto) (\<lambda>v s. s\<lparr>ls_pointsExpirationDays := v\<rparr>) s5;
         s7 = s6\<lparr>ls_version := ls_version s6 + 1, ls_updatedBy := Some actorId\<rparr> in
     ebind (throw_if (\<not> settings_fit s7) (db_error ''22003'')) (\<lambda>_.
     ebind (throw_if (\<not> fits 64 (ls_updatedBy s7)) (db_error ''22001'')) (\<lambda>_.
     ebind (throw_if (\<not> settings_valid s7) (db_error ''23514'')) (\<lambda>_.
     Inr (s7, db1\<lparr>ld_settings := Some s7\<rparr>)))))))"

definition new_loyalty_account :: "string \<Rightarrow> string \<Rightarrow> LoyaltyAccount" where
  "new_loyalty_account accountId customerId = \<lparr>la_id = accountId, la_customerId = customerId, la_posted = 0, la_held = 0,
     la_lifetimeEarned = 0, la_lifetimeRedeemed = 0, la_qualifying = 0, la_tierId = None, la_status = LA_ACTIVE, la_version = 1\<rparr>"

definition ensureAccountInTx :: "LoyaltyIds \<Rightarrow> string \<Rightarrow> LoyaltyDb \<Rightarrow> (LoyaltyAccount \<times> LoyaltyDb) cust_result" where
  "ensureAccountInTx ids customerId db =
    (case map_get (ld_accounts db) customerId of
       Some a \<Rightarrow> Inr (a, db)
     | None \<Rightarrow>
         ebind (throw_if (map_get (ld_customers db) customerId = None) (db_error ''23503'')) (\<lambda>_.
         ebind (throw_if (list_ex (\<lambda>r. la_id (snd r) = new_account ids) (ld_accounts db)) (db_error ''23505'')) (\<lambda>_.
         let a = new_loyalty_account (new_account ids) customerId in
         Inr (a, db\<lparr>ld_accounts := map_set customerId a (ld_accounts db)\<rparr>))))"

definition find_customer :: "string \<Rightarrow> LoyaltyDb \<Rightarrow> CustomerRow cust_result" where
  "find_customer customerId db =
    (case map_get (ld_customers db) customerId of
       None \<Rightarrow> Inl (cust_error CUSTOMER_NOT_FOUND 404)
     | Some c \<Rightarrow> if cu_deleted c then Inl (cust_error CUSTOMER_NOT_FOUND 404) else Inr c)"

text \<open>The account with the points available and the points owed.\<close>

definition getLoyaltyAccount :: "LoyaltyIds \<Rightarrow> string \<Rightarrow> LoyaltyDb \<Rightarrow> ((LoyaltyAccount \<times> int \<times> int) \<times> LoyaltyDb) cust_result" where
  "getLoyaltyAccount ids customerId db =
    ebind (find_customer customerId db) (\<lambda>_.
    ebind (ensureAccountInTx ids customerId db) (\<lambda>(a, db1).
    Inr ((a, computeAvailablePoints (la_posted a) (la_held a), max 0 (- la_posted a)), db1)))"

section \<open>Membership tier\<close>

definition recalculateCustomerTierWithinTransaction :: "(string \<Rightarrow> string \<Rightarrow> int) \<Rightarrow> string \<Rightarrow> int \<Rightarrow> LoyaltyDb \<Rightarrow> LoyaltyDb" where
  "recalculateCustomerTierWithinTransaction collate customerId qualifyingPoints db =
    (let tiers = filter (\<lambda>t. ti_status t = ''ACTIVE'') (ld_tiers db);
         newTierId = map_option ti_id (resolveEligibleMembershipTier collate qualifyingPoints tiers) in
     case map_get (ld_customers db) customerId of
       None \<Rightarrow> db
     | Some c \<Rightarrow>
         if cu_membershipTierId c = newTierId then db
         else let db1 = db\<lparr>ld_customers := map_set customerId (c\<lparr>cu_membershipTierId := newTierId, cu_version := cu_version c + 1\<rparr>) (ld_customers db)\<rparr>;
                  db2 = (case map_get (ld_accounts db1) customerId of None \<Rightarrow> db1
                         | Some a \<Rightarrow> db1\<lparr>ld_accounts := map_set customerId (a\<lparr>la_tierId := newTierId\<rparr>) (ld_accounts db1)\<rparr>) in
           emit (CUSTOMER_MEMBERSHIP_CHANGED customerId (cu_membershipTierId c) newTierId qualifyingPoints) db2)"

section \<open>Manual adjustment\<close>

record ManualLoyaltyAdjustmentDto =
  ma_pointsDelta :: jsnum
  ma_reason :: "string option"
  ma_idempotencyKey :: "string option"

definition raw_key :: "LoyaltyIds \<Rightarrow> string option \<Rightarrow> string option \<Rightarrow> string" where
  "raw_key ids header key = js_trim (case header of Some h \<Rightarrow> h | None \<Rightarrow> (case key of Some k \<Rightarrow> k | None \<Rightarrow> new_key ids))"

definition adjusted_account :: "int \<Rightarrow> LoyaltyAccount \<Rightarrow> LoyaltyAccount" where
  "adjusted_account d a =
    (let a1 = a\<lparr>la_posted := la_posted a + d\<rparr>;
         a2 = (if d > 0 then a1\<lparr>la_lifetimeEarned := la_lifetimeEarned a1 + d, la_qualifying := la_qualifying a1 + d\<rparr>
               else a1\<lparr>la_qualifying := max 0 (la_qualifying a1 + d)\<rparr>) in
     a2\<lparr>la_version := la_version a2 + 1\<rparr>)"

definition find_tx_by_key :: "string \<Rightarrow> LoyaltyDb \<Rightarrow> LoyaltyTransaction option" where
  "find_tx_by_key key db = find (\<lambda>t. lt_idempotencyKey t = key) (ld_txs db)"

definition adjustPoints :: "(string \<Rightarrow> string \<Rightarrow> int) \<Rightarrow> LoyaltyIds \<Rightarrow> string \<Rightarrow> string \<Rightarrow> string option \<Rightarrow>
    ManualLoyaltyAdjustmentDto \<Rightarrow> LoyaltyDb \<Rightarrow> ((LoyaltyTransaction \<times> LoyaltyAccount \<times> bool) \<times> LoyaltyDb) cust_result" where
  "adjustPoints collate ids customerId actorId header dto db =
    ebind (throw_if (\<not> is_integer_num (ma_pointsDelta dto) \<or> js_eq (ma_pointsDelta dto) (Fin 0)) (cust_error VALIDATION_ERROR 422)) (\<lambda>_.
    let d = int_of_num (ma_pointsDelta dto); reason = map_option js_trim (ma_reason dto) in
    ebind (throw_if (\<not> truthy reason) (cust_error VALIDATION_ERROR 422)) (\<lambda>_.
    let rawKey = raw_key ids header (ma_idempotencyKey dto); key = ''manual_adj:'' @ customerId @ '':'' @ rawKey in
    case find_tx_by_key key db of
      Some t \<Rightarrow> ebind (ensureAccountInTx ids customerId db) (\<lambda>(a, db1). Inr ((t, a, True), db1))
    | None \<Rightarrow>
        ebind (find_customer customerId db) (\<lambda>_.
        ebind (ensureAccountInTx ids customerId db) (\<lambda>(a, db1).
        ebind (throw_if (d < 0 \<and> la_posted a + d - la_held a < 0) (cust_error INSUFFICIENT_LOYALTY_POINTS 409)) (\<lambda>_.
        let a' = adjusted_account d a;
            t = \<lparr>lt_id = new_tx ids, lt_customerId = customerId, lt_accountId = la_id a, lt_type = MANUAL_ADJUSTMENT, lt_pointsDelta = d,
                 lt_balanceBefore = la_posted a, lt_balanceAfter = la_posted a + d, lt_sourceType = ''MANUAL'', lt_sourceRefId = rawKey,
                 lt_idempotencyKey = key, lt_orderId = None, lt_returnId = None, lt_holdId = None, lt_originalTransactionId = None,
                 lt_eligibleSpendAmount = None, lt_appliedRate = None, lt_actorId = Some actorId, lt_correlationId = None, lt_reason = reason\<rparr> in
        ebind (save_account a' db1) (\<lambda>db2.
        ebind (insert_tx t db2) (\<lambda>db3.
        let db4 = recalculateCustomerTierWithinTransaction collate customerId (la_qualifying a') db3;
            db5 = emit (if d > 0 then CUSTOMER_LOYALTY_POINTS_EARNED t else CUSTOMER_LOYALTY_POINTS_REVERSED t) db4 in
        Inr ((t, a', False), db5))))))))"

section \<open>Redemption through holds\<close>

record CreateLoyaltyHoldDto =
  ch_customerId :: string
  ch_points :: jsnum
  ch_sourceRefType :: "string option"
  ch_sourceRefId :: string
  ch_callerService :: "string option"
  ch_ttlSeconds :: "int option"
  ch_idempotencyKey :: "string option"

text \<open>The digest of a request: of its customer, points, reference type and reference.\<close>

type_synonym digest = "string \<Rightarrow> jsnum \<Rightarrow> string \<Rightarrow> string \<Rightarrow> string"

definition find_hold_by_key :: "string \<Rightarrow> string \<Rightarrow> LoyaltyDb \<Rightarrow> LoyaltyHold option" where
  "find_hold_by_key callerService key db =
    find (\<lambda>h. lh_callerService h = callerService \<and> lh_operation h = ''HOLD'' \<and> lh_idempotencyKey h = key) (map snd (ld_holds db))"

definition replay_hold :: "LoyaltyIds \<Rightarrow> string \<Rightarrow> LoyaltyHold \<Rightarrow> LoyaltyDb \<Rightarrow> ((LoyaltyHold \<times> LoyaltyAccount \<times> bool) \<times> LoyaltyDb) cust_result" where
  "replay_hold ids requestHash h db =
    ebind (throw_if (lh_requestHash h \<noteq> requestHash) (cust_error IDEMPOTENCY_CONFLICT 409)) (\<lambda>_.
    ebind (ensureAccountInTx ids (lh_customerId h) db) (\<lambda>(a, db1). Inr ((h, a, True), db1)))"

definition hold_request :: "digest \<Rightarrow> string option \<Rightarrow> CreateLoyaltyHoldDto \<Rightarrow> string \<times> string \<times> string \<times> string" where
  "hold_request digest header dto =
    (let key = js_trim (case header of Some h \<Rightarrow> h | None \<Rightarrow> (case ch_idempotencyKey dto of Some k \<Rightarrow> k | None \<Rightarrow> []));
         caller = js_lower (js_trim (case ch_callerService dto of Some c \<Rightarrow> c | None \<Rightarrow> ''sales''));
         refType = js_upper (js_trim (case ch_sourceRefType dto of Some t \<Rightarrow> t | None \<Rightarrow> ''CHECKOUT'')) in
     (key, caller, refType, digest (ch_customerId dto) (ch_points dto) refType (ch_sourceRefId dto)))"

definition createHold_tx :: "digest \<Rightarrow> LoyaltyIds \<Rightarrow> int \<Rightarrow> string option \<Rightarrow> CreateLoyaltyHoldDto \<Rightarrow> LoyaltyDb \<Rightarrow>
    ((LoyaltyHold \<times> LoyaltyAccount \<times> bool) \<times> LoyaltyDb) cust_result" where
  "createHold_tx digest ids now header dto db =
    (case hold_request digest header dto of (key, caller, refType, requestHash) \<Rightarrow>
     (case find_hold_by_key caller key db of
       Some h \<Rightarrow> replay_hold ids requestHash h db
     | None \<Rightarrow>
         ebind (find_customer (ch_customerId dto) db) (\<lambda>customer.
         ebind (throw_if (cu_status customer \<noteq> ''ACTIVE'') (cust_error CUSTOMER_INACTIVE 409)) (\<lambda>_.
         case getOrCreateSettingsInTx db of (settings, db1) \<Rightarrow>
         ebind (ensureAccountInTx ids (ch_customerId dto) db1) (\<lambda>(a, db2).
         ebind (throw_if (la_status a \<noteq> LA_ACTIVE) (cust_error LOYALTY_STATE_CONFLICT 409)) (\<lambda>_.
         ebind (validatePointRedemption (ch_points dto) (la_posted a) (la_held a) settings) (\<lambda>validated.
         let points = int_of_num (ch_points dto);
             ttl = (case ch_ttlSeconds dto of Some t \<Rightarrow> t | None \<Rightarrow> holdTtlSeconds settings);
             a' = a\<lparr>la_held := la_held a + points, la_version := la_version a + 1\<rparr>;
             h = \<lparr>lh_id = new_hold ids, lh_customerId = ch_customerId dto, lh_accountId = la_id a, lh_callerService = caller,
                  lh_operation = ''HOLD'', lh_idempotencyKey = key, lh_requestHash = requestHash, lh_sourceRefType = refType,
                  lh_sourceRefId = ch_sourceRefId dto, lh_points = points, lh_discountValueVnd = rd_discountValueVnd validated,
                  lh_state = LH_HELD, lh_expiresAt = now + ttl * 1000, lh_committedAt = None, lh_releasedAt = None,
                  lh_releaseReason = None, lh_version = 1\<rparr> in
         ebind (save_account a' db2) (\<lambda>db3.
         ebind (insert_hold h db3) (\<lambda>db4.
         Inr ((h, a', False), emit (CUSTOMER_LOYALTY_HOLD_CREATED h) db4))))))))))"

text \<open>
  A unique key violated by a concurrent request is answered from the hold that request created: a second transaction
  that finds the tables as \<open>later\<close>.
\<close>

definition createHold :: "digest \<Rightarrow> LoyaltyIds \<Rightarrow> int \<Rightarrow> string option \<Rightarrow> CreateLoyaltyHoldDto \<Rightarrow> LoyaltyDb \<Rightarrow> LoyaltyDb \<Rightarrow>
    ((LoyaltyHold \<times> LoyaltyAccount \<times> bool) \<times> LoyaltyDb) cust_result" where
  "createHold digest ids now header dto db later =
    (case hold_request digest header dto of (key, caller, refType, requestHash) \<Rightarrow>
     if key = [] then Inl (cust_error VALIDATION_ERROR 422)
     else (case createHold_tx digest ids now header dto db of
       Inr r \<Rightarrow> Inr r
     | Inl err \<Rightarrow>
         if err = db_error ''23505'' then
           (case find_hold_by_key caller key later of None \<Rightarrow> Inl err | Some h \<Rightarrow> replay_hold ids requestHash h later)
         else Inl err))"

definition find_hold :: "string \<Rightarrow> LoyaltyDb \<Rightarrow> LoyaltyHold cust_result" where
  "find_hold holdId db = (case map_get (ld_holds db) holdId of None \<Rightarrow> Inl (cust_error LOYALTY_HOLD_NOT_FOUND 404) | Some h \<Rightarrow> Inr h)"

definition getHoldById :: "LoyaltyIds \<Rightarrow> string \<Rightarrow> LoyaltyDb \<Rightarrow> ((LoyaltyHold \<times> LoyaltyAccount) \<times> LoyaltyDb) cust_result" where
  "getHoldById ids holdId db =
    ebind (find_hold holdId db) (\<lambda>h. ebind (ensureAccountInTx ids (lh_customerId h) db) (\<lambda>(a, db1). Inr ((h, a), db1)))"

definition unhold :: "LoyaltyHold \<Rightarrow> LoyaltyAccount \<Rightarrow> LoyaltyAccount" where
  "unhold h a = a\<lparr>la_held := max 0 (la_held a - lh_points h), la_version := la_version a + 1\<rparr>"

definition expired_hold :: "int \<Rightarrow> LoyaltyHold \<Rightarrow> LoyaltyHold" where
  "expired_hold now h = h\<lparr>lh_state := LH_EXPIRED, lh_releasedAt := Some now, lh_releaseReason := Some ''TTL_EXPIRED'', lh_version := lh_version h + 1\<rparr>"

definition redeem_reason :: "LoyaltyHold \<Rightarrow> string" where
  "redeem_reason h = ''Redeemed '' @ show_int (lh_points h) @ '' points for '' @ lh_sourceRefType h @ '' '' @ lh_sourceRefId h"

text \<open>An overdue hold is written as expired and then refused, in one transaction: the refusal undoes the write.\<close>

definition commitHold :: "LoyaltyIds \<Rightarrow> int \<Rightarrow> string \<Rightarrow> string option \<Rightarrow> string option \<Rightarrow> LoyaltyDb \<Rightarrow>
    ((LoyaltyHold \<times> LoyaltyAccount \<times> bool) \<times> LoyaltyDb) cust_result" where
  "commitHold ids now holdId orderId actorId db =
    ebind (find_hold holdId db) (\<lambda>h.
    ebind (ensureAccountInTx ids (lh_customerId h) db) (\<lambda>(a, db1).
    if lh_state h = LH_COMMITTED then Inr ((h, a, True), db1)
    else if lh_state h = LH_RELEASED then Inl (cust_error LOYALTY_STATE_CONFLICT 409)
    else if lh_state h = LH_EXPIRED \<or> lh_expiresAt h \<le> now then
      (if lh_state h = LH_HELD then
         ebind (save_account (unhold h a) db1) (\<lambda>db2.
         ebind (save_hold (expired_hold now h) db2) (\<lambda>_. Inl (cust_error LOYALTY_HOLD_EXPIRED 409)))
       else Inl (cust_error LOYALTY_HOLD_EXPIRED 409))
    else
      let a' = (unhold h a)\<lparr>la_posted := la_posted a - lh_points h, la_lifetimeRedeemed := la_lifetimeRedeemed a + lh_points h\<rparr>;
          h' = h\<lparr>lh_state := LH_COMMITTED, lh_committedAt := Some now, lh_version := lh_version h + 1\<rparr>;
          t = \<lparr>lt_id = new_tx ids, lt_customerId = lh_customerId h, lt_accountId = la_id a, lt_type = REDEEM, lt_pointsDelta = - lh_points h,
               lt_balanceBefore = la_posted a, lt_balanceAfter = la_posted a - lh_points h, lt_sourceType = lh_sourceRefType h,
               lt_sourceRefId = lh_id h, lt_idempotencyKey = ''redeem:hold:'' @ lh_id h, lt_orderId = orderId, lt_returnId = None,
               lt_holdId = Some (lh_id h), lt_originalTransactionId = None, lt_eligibleSpendAmount = None, lt_appliedRate = None,
               lt_actorId = actorId, lt_correlationId = None, lt_reason = Some (redeem_reason h)\<rparr> in
      ebind (save_account a' db1) (\<lambda>db2.
      ebind (save_hold h' db2) (\<lambda>db3.
      ebind (insert_tx t db3) (\<lambda>db4.
      Inr ((h', a', False), emit (CUSTOMER_LOYALTY_POINTS_REDEEMED t) (emit (CUSTOMER_LOYALTY_HOLD_COMMITTED h') db4)))))))"

definition releaseHold :: "LoyaltyIds \<Rightarrow> int \<Rightarrow> string \<Rightarrow> string option \<Rightarrow> LoyaltyDb \<Rightarrow>
    ((LoyaltyHold \<times> LoyaltyAccount \<times> bool) \<times> LoyaltyDb) cust_result" where
  "releaseHold ids now holdId reason db =
    ebind (find_hold holdId db) (\<lambda>h.
    ebind (ensureAccountInTx ids (lh_customerId h) db) (\<lambda>(a, db1).
    if lh_state h = LH_RELEASED \<or> lh_state h = LH_EXPIRED then Inr ((h, a, True), db1)
    else if lh_state h = LH_COMMITTED then Inl (cust_error LOYALTY_HOLD_ALREADY_COMMITTED 409)
    else
      let h' = h\<lparr>lh_state := LH_RELEASED, lh_releasedAt := Some now,
                 lh_releaseReason := Some (case reason of None \<Rightarrow> ''CHECKOUT_CANCELLED'' | Some r \<Rightarrow> js_trim r), lh_version := lh_version h + 1\<rparr> in
      ebind (save_account (unhold h a) db1) (\<lambda>db2.
      ebind (save_hold h' db2) (\<lambda>db3.
      Inr ((h', unhold h a, False), emit (CUSTOMER_LOYALTY_HOLD_RELEASED h') db3)))))"

text \<open>\<open>order\<close> and \<open>locked\<close> are the database's \<^verbatim>\<open>ORDER BY expires_at\<close> and the rows another worker has locked.\<close>

definition overdue_holds :: "(LoyaltyHold list \<Rightarrow> LoyaltyHold list) \<Rightarrow> (string \<Rightarrow> bool) \<Rightarrow> int \<Rightarrow> nat \<Rightarrow> LoyaltyDb \<Rightarrow> string list" where
  "overdue_holds order locked dbNow limit db =
    map lh_id (take limit (order (filter (\<lambda>h. lh_state h = LH_HELD \<and> lh_expiresAt h \<le> dbNow \<and> \<not> locked (lh_id h)) (map snd (ld_holds db)))))"

definition expire_one :: "LoyaltyIds \<Rightarrow> int \<Rightarrow> string \<Rightarrow> nat \<times> LoyaltyDb \<Rightarrow> (nat \<times> LoyaltyDb) cust_result" where
  "expire_one ids now holdId s =
    (case s of (n, db) \<Rightarrow>
     (case map_get (ld_holds db) holdId of
       None \<Rightarrow> Inr s
     | Some h \<Rightarrow>
         if lh_state h \<noteq> LH_HELD then Inr s
         else ebind (ensureAccountInTx ids (lh_customerId h) db) (\<lambda>(a, db1).
           ebind (save_account (unhold h a) db1) (\<lambda>db2.
           ebind (save_hold (expired_hold now h) db2) (\<lambda>db3.
           Inr (n + 1, emit (CUSTOMER_LOYALTY_HOLD_EXPIRED (expired_hold now h)) db3))))))"

definition expireOverdueHolds :: "LoyaltyIds \<Rightarrow> (LoyaltyHold list \<Rightarrow> LoyaltyHold list) \<Rightarrow> (string \<Rightarrow> bool) \<Rightarrow> int \<Rightarrow> int \<Rightarrow> nat \<Rightarrow> LoyaltyDb \<Rightarrow>
    (nat \<times> LoyaltyDb) cust_result" where
  "expireOverdueHolds ids order locked dbNow now limit db = efold (expire_one ids now) (overdue_holds order locked dbNow limit db) (0, db)"

section \<open>Points of completed orders\<close>

record CompletedSale =
  cs_eventId :: string
  cs_customerId :: string
  cs_orderId :: string
  cs_orderCode :: string
  cs_branchId :: "string option"
  cs_channelType :: "string option"
  cs_originalOrderTotalVnd :: int
  cs_eligibleNetSpendVnd :: int
  cs_completedAt :: "int option"

definition credit_points :: "int \<Rightarrow> LoyaltyAccount \<Rightarrow> LoyaltyAccount" where
  "credit_points n a = a\<lparr>la_posted := la_posted a + n, la_lifetimeEarned := la_lifetimeEarned a + n, la_qualifying := la_qualifying a + n,
     la_version := la_version a + 1\<rparr>"

definition claw_back :: "int \<Rightarrow> LoyaltyAccount \<Rightarrow> LoyaltyAccount" where
  "claw_back n a = a\<lparr>la_posted := la_posted a - n, la_qualifying := max 0 (la_qualifying a - n), la_version := la_version a + 1\<rparr>"

definition earn_tx :: "LoyaltyIds \<Rightarrow> CompletedSale \<Rightarrow> EarnResult \<Rightarrow> LoyaltyAccount \<Rightarrow> LoyaltyTransaction" where
  "earn_tx ids sale r a =
    \<lparr>lt_id = new_tx ids, lt_customerId = cs_customerId sale, lt_accountId = la_id a, lt_type = EARN, lt_pointsDelta = er_earnedPoints r,
     lt_balanceBefore = la_posted a, lt_balanceAfter = la_posted a + er_earnedPoints r, lt_sourceType = ''ORDER'',
     lt_sourceRefId = cs_orderId sale, lt_idempotencyKey = ''earn:order:'' @ cs_orderId sale, lt_orderId = Some (cs_orderId sale),
     lt_returnId = None, lt_holdId = None, lt_originalTransactionId = None, lt_eligibleSpendAmount = Some (er_eligibleSpendVnd r),
     lt_appliedRate = Some (er_appliedRateVnd r), lt_actorId = None, lt_correlationId = Some (cs_eventId sale),
     lt_reason = Some (''Earned '' @ show_int (er_earnedPoints r) @ '' points from order '' @ cs_orderCode sale)\<rparr>"

definition deferred_tx :: "LoyaltyIds \<Rightarrow> CompletedSale \<Rightarrow> EarnResult \<Rightarrow> int \<Rightarrow> LoyaltyAccount \<Rightarrow> LoyaltyTransaction" where
  "deferred_tx ids sale r n a =
    \<lparr>lt_id = new_rev_tx ids, lt_customerId = cs_customerId sale, lt_accountId = la_id a, lt_type = EARN_REVERSAL, lt_pointsDelta = - n,
     lt_balanceBefore = la_posted a, lt_balanceAfter = la_posted a - n, lt_sourceType = ''RETURN'',
     lt_sourceRefId = ''deferred:'' @ cs_orderId sale, lt_idempotencyKey = ''earn_reversal:deferred:'' @ cs_orderId sale,
     lt_orderId = Some (cs_orderId sale), lt_returnId = None, lt_holdId = None, lt_originalTransactionId = Some (new_tx ids),
     lt_eligibleSpendAmount = None, lt_appliedRate = Some (er_appliedRateVnd r), lt_actorId = None, lt_correlationId = None,
     lt_reason = Some (''Deferred return reversal for order '' @ cs_orderCode sale)\<rparr>"

text \<open>The purchase row of the order: a new one, or the one that an early return has left.\<close>

definition completed_projection :: "int \<Rightarrow> CompletedSale \<Rightarrow> EarnResult \<Rightarrow> PurchaseProjection option \<Rightarrow> PurchaseProjection" where
  "completed_projection now sale r old =
    (case old of
       None \<Rightarrow> \<lparr>pp_customerId = cs_customerId sale, pp_orderCode = cs_orderCode sale, pp_branchId = cs_branchId sale,
         pp_channelType = (case cs_channelType sale of None \<Rightarrow> ''POS'' | Some c \<Rightarrow> c), pp_orderStatus = ''COMPLETED'',
         pp_originalOrderTotal = cs_originalOrderTotalVnd sale, pp_eligibleNetSpend = er_eligibleSpendVnd r, pp_returnedAmount = 0,
         pp_earnedPoints = er_earnedPoints r, pp_reversedPoints = 0,
         pp_completedAt = (case cs_completedAt sale of None \<Rightarrow> now | Some t \<Rightarrow> t), pp_lastEventId = Some (cs_eventId sale)\<rparr>
     | Some p \<Rightarrow> p\<lparr>pp_customerId := cs_customerId sale, pp_orderCode := cs_orderCode sale,
         pp_branchId := (case cs_branchId sale of None \<Rightarrow> pp_branchId p | Some b \<Rightarrow> Some b), pp_orderStatus := ''COMPLETED'',
         pp_originalOrderTotal := cs_originalOrderTotalVnd sale, pp_eligibleNetSpend := er_eligibleSpendVnd r,
         pp_earnedPoints := er_earnedPoints r, pp_lastEventId := Some (cs_eventId sale)\<rparr>)"

definition award_points :: "LoyaltyIds \<Rightarrow> CompletedSale \<Rightarrow> EarnResult \<Rightarrow> LoyaltyAccount \<Rightarrow> LoyaltyDb \<Rightarrow> (LoyaltyAccount \<times> LoyaltyDb) cust_result" where
  "award_points ids sale r a db =
    (if er_earnedPoints r > 0 then
       let a' = credit_points (er_earnedPoints r) a; t = earn_tx ids sale r a in
       ebind (save_account a' db) (\<lambda>db1.
       ebind (insert_tx t db1) (\<lambda>db2.
       Inr (a', emit (CUSTOMER_LOYALTY_POINTS_EARNED t) db2)))
     else Inr (a, db))"

text \<open>The returns that arrived before the order: their points are taken back now.\<close>

definition deferred_reversal :: "LoyaltyIds \<Rightarrow> CompletedSale \<Rightarrow> EarnResult \<Rightarrow> int \<Rightarrow> PurchaseProjection \<Rightarrow> LoyaltyAccount \<Rightarrow> LoyaltyDb \<Rightarrow>
    (PurchaseProjection \<times> LoyaltyAccount \<times> LoyaltyDb) cust_result" where
  "deferred_reversal ids sale r returned p a db =
    (if er_earnedPoints r > 0 then
       ebind (parseVndBigInt (num_arg returned) True) (\<lambda>pre.
       if pre > 0 \<and> pp_reversedPoints p = 0 then
         ebind (calculateReturnPointReversal \<lparr>rv_originalEarnedPoints = er_earnedPoints r, rv_alreadyReversedPoints = 0,
           rv_originalEligibleSpendVnd = er_eligibleSpendVnd r, rv_returnRefundAmountVnd = returned,
           rv_cumulativeRefundedAmountVnd = Some returned\<rparr>) (\<lambda>(n, _).
         if n > 0 then
           let a' = claw_back n a; t = deferred_tx ids sale r n a in
           ebind (save_account a' db) (\<lambda>db1.
           ebind (insert_tx t db1) (\<lambda>db2.
           Inr (p\<lparr>pp_reversedPoints := n\<rparr>, a', emit (CUSTOMER_LOYALTY_POINTS_REVERSED t) db2)))
         else Inr (p, a, db))
       else Inr (p, a, db))
     else Inr (p, a, db))"

definition processCompletedSale :: "(string \<Rightarrow> string \<Rightarrow> int) \<Rightarrow> LoyaltyIds \<Rightarrow> int \<Rightarrow> CompletedSale \<Rightarrow> LoyaltyDb \<Rightarrow> ((int \<times> bool) \<times> LoyaltyDb) cust_result" where
  "processCompletedSale collate ids now sale db =
    (if \<not> is_ok (find_customer (cs_customerId sale) db) then Inr ((0, False), db)
     else case find_tx_by_key (''earn:order:'' @ cs_orderId sale) db of
       Some t \<Rightarrow> Inr ((lt_pointsDelta t, True), db)
     | None \<Rightarrow>
         (case getOrCreateSettingsInTx db of (settings, db1) \<Rightarrow>
          ebind (ensureAccountInTx ids (cs_customerId sale) db1) (\<lambda>(a, db2).
          ebind (calculateEarnedPoints (num_arg (cs_eligibleNetSpendVnd sale)) settings) (\<lambda>r.
          let old = map_get (ld_projections db2) (cs_orderId sale);
              returned = (case old of None \<Rightarrow> 0 | Some p \<Rightarrow> pp_returnedAmount p);
              p = completed_projection now sale r old in
          ebind (award_points ids sale r a db2) (\<lambda>(a1, db3).
          ebind (deferred_reversal ids sale r returned p a1 db3) (\<lambda>(p1, a2, db4).
          ebind (save_projection (cs_orderId sale) p1 db4) (\<lambda>db5.
          Inr ((er_earnedPoints r, False),
            recalculateCustomerTierWithinTransaction collate (cs_customerId sale) (la_qualifying a2) db5))))))))"

text \<open>A number that is there and not zero.\<close>

definition truthy_num :: "jsnum option \<Rightarrow> bool" where
  "truthy_num v = (case v of None \<Rightarrow> False | Some x \<Rightarrow> x \<noteq> NaN \<and> \<not> js_eq x (Fin 0))"

definition money_or_total :: "jsnum option \<Rightarrow> jsnum \<Rightarrow> int cust_result" where
  "money_or_total v amount =
    (if truthy_num v then parseVndBigInt (Num (the v)) True else bigint_of_num (math_max (Fin 0) (math_round amount)))"

record OrderCompletedPayload =
  oc_eventId :: string
  oc_customerId :: "string option"
  oc_orderId :: string
  oc_code :: string
  oc_branchId :: "string option"
  oc_subtotal :: "jsnum option"
  oc_discountTotal :: "jsnum option"
  oc_grandTotal :: "jsnum option"
  oc_totalAmount :: jsnum
  oc_completedAt :: "int option"

definition onSalesOrderCompleted :: "(string \<Rightarrow> string \<Rightarrow> int) \<Rightarrow> LoyaltyIds \<Rightarrow> int \<Rightarrow> OrderCompletedPayload \<Rightarrow> LoyaltyDb \<Rightarrow> LoyaltyDb cust_result" where
  "onSalesOrderCompleted collate ids now p db =
    (if \<not> truthy (oc_customerId p) then Inr db
     else
       ebind (money_or_total (oc_subtotal p) (oc_totalAmount p)) (\<lambda>subtotal.
       ebind (if truthy_num (oc_discountTotal p) then parseVndBigInt (Num (the (oc_discountTotal p))) True else Inr 0) (\<lambda>discount.
       let eligible = (if subtotal > discount then subtotal - discount else 0) in
       ebind (money_or_total (oc_grandTotal p) (oc_totalAmount p)) (\<lambda>grand.
       ebind (toVndNumber grand) (\<lambda>orderTotal.
       ebind (toVndNumber eligible) (\<lambda>spend.
       ebind (processCompletedSale collate ids now \<lparr>cs_eventId = oc_eventId p, cs_customerId = the (oc_customerId p), cs_orderId = oc_orderId p,
           cs_orderCode = oc_code p, cs_branchId = oc_branchId p, cs_channelType = Some ''POS'', cs_originalOrderTotalVnd = orderTotal,
           cs_eligibleNetSpendVnd = spend, cs_completedAt = Some (case oc_completedAt p of None \<Rightarrow> now | Some t \<Rightarrow> t)\<rparr> db) (\<lambda>(_, db').
       Inr db')))))))"

record CheckoutCompletedPayload =
  cc_eventId :: string
  cc_customerId :: "string option"
  cc_orderId :: string
  cc_code :: string
  cc_branchId :: "string option"
  cc_channelType :: "string option"
  cc_subtotal :: jsval
  cc_discountTotal :: jsval
  cc_grandTotal :: jsval
  cc_occurredAt :: "int option"

definition onSalesCheckoutCompleted :: "(string \<Rightarrow> string \<Rightarrow> int) \<Rightarrow> LoyaltyIds \<Rightarrow> int \<Rightarrow> CheckoutCompletedPayload \<Rightarrow> LoyaltyDb \<Rightarrow> LoyaltyDb cust_result" where
  "onSalesCheckoutCompleted collate ids now p db =
    (if \<not> truthy (cc_customerId p) then Inr db
     else
       ebind (parseVndBigInt (cc_subtotal p) True) (\<lambda>subtotal.
       ebind (parseVndBigInt (cc_discountTotal p) True) (\<lambda>discount.
       let eligible = (if subtotal > discount then subtotal - discount else 0) in
       ebind (parseVndBigInt (cc_grandTotal p) True) (\<lambda>grand.
       ebind (toVndNumber grand) (\<lambda>orderTotal.
       ebind (toVndNumber eligible) (\<lambda>spend.
       ebind (processCompletedSale collate ids now \<lparr>cs_eventId = cc_eventId p, cs_customerId = the (cc_customerId p), cs_orderId = cc_orderId p,
           cs_orderCode = cc_code p, cs_branchId = cc_branchId p,
           cs_channelType = Some (case cc_channelType p of None \<Rightarrow> ''POS'' | Some c \<Rightarrow> c), cs_originalOrderTotalVnd = orderTotal,
           cs_eligibleNetSpendVnd = spend, cs_completedAt = Some (case cc_occurredAt p of None \<Rightarrow> now | Some t \<Rightarrow> t)\<rparr> db) (\<lambda>(_, db').
       Inr db')))))))"

section \<open>Points of returned orders\<close>

record CompletedReturn =
  cr_eventId :: string
  cr_returnId :: string
  cr_returnCode :: string
  cr_orderId :: string
  cr_customerId :: "string option"
  cr_refundAmountVnd :: jsval

definition pending_projection :: "int \<Rightarrow> CompletedReturn \<Rightarrow> string \<Rightarrow> int \<Rightarrow> PurchaseProjection" where
  "pending_projection now ret customerId refund =
    \<lparr>pp_customerId = customerId, pp_orderCode = ''PENDING-'' @ take 8 (cr_orderId ret), pp_branchId = None, pp_channelType = ''POS'',
     pp_orderStatus = ''PENDING_ORDER_EVENT'', pp_originalOrderTotal = 0, pp_eligibleNetSpend = 0, pp_returnedAmount = refund,
     pp_earnedPoints = 0, pp_reversedPoints = 0, pp_completedAt = now, pp_lastEventId = Some (''return:'' @ cr_returnId ret)\<rparr>"

definition find_earn :: "string \<Rightarrow> LoyaltyDb \<Rightarrow> LoyaltyTransaction option" where
  "find_earn orderId db = find (\<lambda>t. lt_orderId t = Some orderId \<and> lt_type t = EARN) (ld_txs db)"

text \<open>What the ledger has taken back from an order so far.\<close>

definition reversed_total :: "string \<Rightarrow> LoyaltyDb \<Rightarrow> int" where
  "reversed_total orderId db =
    sum_list (map (\<lambda>t. \<bar>lt_pointsDelta t\<bar>) (filter (\<lambda>t. lt_orderId t = Some orderId \<and> lt_type t = EARN_REVERSAL) (ld_txs db)))"

definition return_tx :: "LoyaltyIds \<Rightarrow> CompletedReturn \<Rightarrow> LoyaltyTransaction \<Rightarrow> string \<Rightarrow> int \<Rightarrow> LoyaltyAccount \<Rightarrow> LoyaltyTransaction" where
  "return_tx ids ret earn customerId n a =
    \<lparr>lt_id = new_tx ids, lt_customerId = customerId, lt_accountId = la_id a, lt_type = EARN_REVERSAL, lt_pointsDelta = - n,
     lt_balanceBefore = la_posted a, lt_balanceAfter = la_posted a - n, lt_sourceType = ''RETURN'', lt_sourceRefId = cr_returnId ret,
     lt_idempotencyKey = ''earn_reversal:return:'' @ cr_returnId ret, lt_orderId = Some (cr_orderId ret), lt_returnId = Some (cr_returnId ret),
     lt_holdId = None, lt_originalTransactionId = Some (lt_id earn), lt_eligibleSpendAmount = None, lt_appliedRate = lt_appliedRate earn,
     lt_actorId = None, lt_correlationId = Some (cr_eventId ret),
     lt_reason = Some (''Reversed '' @ show_int n @ '' points for return '' @ cr_returnCode ret)\<rparr>"

text \<open>The answer is the number of points taken back and whether the call was a replay.\<close>

definition processCompletedReturn :: "(string \<Rightarrow> string \<Rightarrow> int) \<Rightarrow> LoyaltyIds \<Rightarrow> int \<Rightarrow> CompletedReturn \<Rightarrow> LoyaltyDb \<Rightarrow> ((int \<times> bool) \<times> LoyaltyDb) cust_result" where
  "processCompletedReturn collate ids now ret db =
    (case find_tx_by_key (''earn_reversal:return:'' @ cr_returnId ret) db of
       Some t \<Rightarrow> Inr ((\<bar>lt_pointsDelta t\<bar>, True), db)
     | None \<Rightarrow>
         ebind (parseVndBigInt (cr_refundAmountVnd ret) True) (\<lambda>refund.
         (case map_get (ld_projections db) (cr_orderId ret) of
            None \<Rightarrow>
              (if \<not> truthy (cr_customerId ret) then Inr ((0, False), db)
               else ebind (toVndNumber refund) (\<lambda>r.
                 ebind (save_projection (cr_orderId ret) (pending_projection now ret (the (cr_customerId ret)) r) db) (\<lambda>db1.
                 Inr ((0, False), db1))))
          | Some p \<Rightarrow>
              if pp_lastEventId p = Some (''return:'' @ cr_returnId ret) then Inr ((0, True), db)
              else
                ebind (parseVndBigInt (num_arg (pp_returnedAmount p)) True) (\<lambda>prev.
                ebind (toVndNumber (prev + refund)) (\<lambda>cum.
                let p1 = p\<lparr>pp_returnedAmount := cum, pp_lastEventId := Some (''return:'' @ cr_returnId ret)\<rparr> in
                (case find_earn (cr_orderId ret) db of
                   None \<Rightarrow> ebind (save_projection (cr_orderId ret) p1 db) (\<lambda>db1. Inr ((0, False), db1))
                 | Some earn \<Rightarrow>
                     ebind (toVndNumber refund) (\<lambda>r.
                     ebind (calculateReturnPointReversal \<lparr>rv_originalEarnedPoints = lt_pointsDelta earn,
                       rv_alreadyReversedPoints = reversed_total (cr_orderId ret) db,
                       rv_originalEligibleSpendVnd = (case lt_eligibleSpendAmount earn of Some s \<Rightarrow> s | None \<Rightarrow> pp_eligibleNetSpend p1),
                       rv_returnRefundAmountVnd = r, rv_cumulativeRefundedAmountVnd = Some cum\<rparr>) (\<lambda>(n, _).
                     ebind (save_projection (cr_orderId ret) (p1\<lparr>pp_reversedPoints := reversed_total (cr_orderId ret) db + n\<rparr>) db) (\<lambda>db1.
                     if n \<le> 0 then Inr ((0, False), db1)
                     else
                       ebind (ensureAccountInTx ids (pp_customerId p) db1) (\<lambda>(a, db2).
                       let a' = claw_back n a; t = return_tx ids ret earn (pp_customerId p) n a in
                       ebind (save_account a' db2) (\<lambda>db3.
                       ebind (insert_tx t db3) (\<lambda>db4.
                       Inr ((n, False), emit (CUSTOMER_LOYALTY_POINTS_REVERSED t)
                         (recalculateCustomerTierWithinTransaction collate (pp_customerId p) (la_qualifying a') db4))))))))))))))"

section \<open>Reconciliation\<close>

record Discrepancy =
  dc_accountId :: string
  dc_customerId :: string
  dc_postedPointsBalance :: int
  dc_ledgerSum :: int
  dc_heldPoints :: int
  dc_activeHoldsSum :: int

definition ledger_sum :: "string \<Rightarrow> LoyaltyDb \<Rightarrow> int" where
  "ledger_sum accountId db = sum_list (map lt_pointsDelta (filter (\<lambda>t. lt_accountId t = accountId) (ld_txs db)))"

definition active_holds_sum :: "string \<Rightarrow> LoyaltyDb \<Rightarrow> int" where
  "active_holds_sum accountId db =
    sum_list (map lh_points (filter (\<lambda>h. lh_accountId h = accountId \<and> lh_state h = LH_HELD) (map snd (ld_holds db))))"

definition account_discrepancies :: "LoyaltyDb \<Rightarrow> Discrepancy list" where
  "account_discrepancies db =
    map (\<lambda>a. \<lparr>dc_accountId = la_id a, dc_customerId = la_customerId a, dc_postedPointsBalance = la_posted a,
              dc_ledgerSum = ledger_sum (la_id a) db, dc_heldPoints = la_held a, dc_activeHoldsSum = active_holds_sum (la_id a) db\<rparr>)
      (filter (\<lambda>a. la_posted a \<noteq> ledger_sum (la_id a) db \<or> la_held a \<noteq> active_holds_sum (la_id a) db) (map snd (ld_accounts db)))"

text \<open>The accounts checked, the holds expired on the way, and the discrepancies found.\<close>

definition reconcileTenantLoyalty :: "LoyaltyIds \<Rightarrow> (LoyaltyHold list \<Rightarrow> LoyaltyHold list) \<Rightarrow> (string \<Rightarrow> bool) \<Rightarrow> int \<Rightarrow> int \<Rightarrow> LoyaltyDb \<Rightarrow>
    ((nat \<times> nat \<times> Discrepancy list) \<times> LoyaltyDb) cust_result" where
  "reconcileTenantLoyalty ids order locked dbNow now db =
    ebind (expireOverdueHolds ids order locked dbNow now 500 db) (\<lambda>(expired, db1).
    Inr ((length (ld_accounts db1), expired, account_discrepancies db1), db1))"

end
