(* ===== verification/CustomerWallets.thy ===== *)
theory CustomerWallets
  imports LoyaltyPoints
begin

text \<open>
  The other writers of the point wallets: the wallet of a new or imported customer
  (\<^verbatim>\<open>apps/customer/src/modules/profiles/profiles.service.ts\<close>), a tier given by hand, the wallet of an anonymised customer, and the
  merge of two customers (\<^verbatim>\<open>modules/data-management/data-management.service.ts\<close>), which is modelled as a whole.
\<close>

section \<open>Wallets of new, edited and anonymised customers\<close>

definition initial_tx :: "LoyaltyIds \<Rightarrow> string \<Rightarrow> string \<Rightarrow> int \<Rightarrow> LoyaltyTransaction" where
  "initial_tx ids actorId customerId initialPoints =
    \<lparr>lt_id = new_tx ids, lt_customerId = customerId, lt_accountId = new_account ids, lt_type = MANUAL_ADJUSTMENT, lt_pointsDelta = initialPoints,
     lt_balanceBefore = 0, lt_balanceAfter = initialPoints, lt_sourceType = ''INITIAL'', lt_sourceRefId = ''initial:'' @ customerId,
     lt_idempotencyKey = ''initial_points:'' @ customerId, lt_orderId = None, lt_returnId = None, lt_holdId = None, lt_originalTransactionId = None,
     lt_eligibleSpendAmount = None, lt_appliedRate = None, lt_actorId = Some actorId, lt_correlationId = None,
     lt_reason = Some ''Initial points at customer creation''\<rparr>"

text \<open>The customer row has been written before; a wallet that is there already is a unique key violated.\<close>

definition insert_account :: "LoyaltyAccount \<Rightarrow> LoyaltyDb \<Rightarrow> LoyaltyDb cust_result" where
  "insert_account a db =
    ebind (throw_if (map_get (ld_customers db) (la_customerId a) = None) (db_error ''23503'')) (\<lambda>_.
    ebind (throw_if (map_get (ld_accounts db) (la_customerId a) \<noteq> None \<or> list_ex (\<lambda>r. la_id (snd r) = la_id a) (ld_accounts db))
      (db_error ''23505'')) (\<lambda>_.
    save_account a db))"

definition open_wallet :: "LoyaltyIds \<Rightarrow> string \<Rightarrow> string \<Rightarrow> int \<Rightarrow> string option \<Rightarrow> LoyaltyDb \<Rightarrow> LoyaltyDb cust_result" where
  "open_wallet ids actorId customerId initialPoints tierId db =
    (let a = (new_loyalty_account (new_account ids) customerId)\<lparr>la_posted := initialPoints, la_lifetimeEarned := initialPoints,
           la_qualifying := initialPoints, la_tierId := tierId\<rparr> in
     ebind (insert_account a db) (\<lambda>db1.
     if initialPoints > 0 then
       let t = initial_tx ids actorId customerId initialPoints in
       ebind (insert_tx t db1) (\<lambda>db2. Inr (emit (CUSTOMER_LOYALTY_POINTS_EARNED t) db2))
     else Inr db1))"

definition wallet_tier :: "string \<Rightarrow> string option \<Rightarrow> LoyaltyDb \<Rightarrow> LoyaltyDb cust_result" where
  "wallet_tier customerId tierId db =
    (case map_get (ld_accounts db) customerId of
       None \<Rightarrow> Inr db
     | Some a \<Rightarrow> if la_tierId a = tierId then Inr db else save_account (a\<lparr>la_tierId := tierId, la_version := la_version a + 1\<rparr>) db)"

definition activeHoldsCount :: "string \<Rightarrow> LoyaltyDb \<Rightarrow> nat" where
  "activeHoldsCount customerId db = length (filter (\<lambda>h. lh_customerId h = customerId \<and> lh_state h = LH_HELD) (map snd (ld_holds db)))"

definition close_wallet :: "string \<Rightarrow> LoyaltyDb \<Rightarrow> LoyaltyDb cust_result" where
  "close_wallet customerId db =
    ebind (throw_if (activeHoldsCount customerId db > 0) (cust_error LOYALTY_STATE_CONFLICT 409)) (\<lambda>_.
    (case map_get (ld_accounts db) customerId of
       None \<Rightarrow> Inr db
     | Some a \<Rightarrow> save_account (a\<lparr>la_status := LA_CLOSED, la_version := la_version a + 1\<rparr>) db))"

section \<open>Merging two customers\<close>

record MergeCustomersDto =
  mg_sourceCustomerId :: string
  mg_targetCustomerId :: string
  mg_reason :: "string option"
  mg_idempotencyKey :: "string option"

definition merge_key :: "string option \<Rightarrow> MergeCustomersDto \<Rightarrow> string" where
  "merge_key header dto =
    (let h = map_option js_trim header; k = map_option js_trim (mg_idempotencyKey dto) in
     if truthy h then the h else if truthy k then the k else ''merge:'' @ mg_sourceCustomerId dto @ '':'' @ mg_targetCustomerId dto)"

definition merge_out_tx :: "LoyaltyIds \<Rightarrow> string \<Rightarrow> string \<Rightarrow> MergeCustomersDto \<Rightarrow> CustomerRow \<Rightarrow> LoyaltyAccount \<Rightarrow> LoyaltyTransaction" where
  "merge_out_tx ids key actorId dto target sa =
    \<lparr>lt_id = new_tx ids, lt_customerId = mg_sourceCustomerId dto, lt_accountId = la_id sa, lt_type = MERGE_OUT, lt_pointsDelta = - la_posted sa,
     lt_balanceBefore = la_posted sa, lt_balanceAfter = 0, lt_sourceType = ''CUSTOMER_MERGE'', lt_sourceRefId = mg_targetCustomerId dto,
     lt_idempotencyKey = ''merge:'' @ key @ '':out'', lt_orderId = None, lt_returnId = None, lt_holdId = None, lt_originalTransactionId = None,
     lt_eligibleSpendAmount = None, lt_appliedRate = None, lt_actorId = Some actorId, lt_correlationId = None,
     lt_reason = Some (case mg_reason dto of Some r \<Rightarrow> r | None \<Rightarrow> ''Merged loyalty balance into customer '' @ cu_code target)\<rparr>"

definition merge_in_tx :: "LoyaltyIds \<Rightarrow> string \<Rightarrow> string \<Rightarrow> MergeCustomersDto \<Rightarrow> CustomerRow \<Rightarrow> LoyaltyAccount \<Rightarrow> LoyaltyAccount \<Rightarrow> LoyaltyTransaction" where
  "merge_in_tx ids key actorId dto source sa ta =
    \<lparr>lt_id = new_rev_tx ids, lt_customerId = mg_targetCustomerId dto, lt_accountId = la_id ta, lt_type = MERGE_IN, lt_pointsDelta = la_posted sa,
     lt_balanceBefore = la_posted ta, lt_balanceAfter = la_posted ta + la_posted sa, lt_sourceType = ''CUSTOMER_MERGE'',
     lt_sourceRefId = mg_sourceCustomerId dto, lt_idempotencyKey = ''merge:'' @ key @ '':in'', lt_orderId = None, lt_returnId = None, lt_holdId = None,
     lt_originalTransactionId = None, lt_eligibleSpendAmount = None, lt_appliedRate = None, lt_actorId = Some actorId, lt_correlationId = None,
     lt_reason = Some (case mg_reason dto of Some r \<Rightarrow> r | None \<Rightarrow> ''Received loyalty balance from merged customer '' @ cu_code source)\<rparr>"

text \<open>The wallet of the target, created when there is none.\<close>

definition target_wallet :: "LoyaltyIds \<Rightarrow> string \<Rightarrow> CustomerRow \<Rightarrow> LoyaltyDb \<Rightarrow> (LoyaltyAccount \<times> LoyaltyDb) cust_result" where
  "target_wallet ids customerId target db =
    (case map_get (ld_accounts db) customerId of
       Some a \<Rightarrow> Inr (a, db)
     | None \<Rightarrow>
         let a = (new_loyalty_account (new_account ids) customerId)\<lparr>la_tierId := cu_membershipTierId target\<rparr> in
         ebind (insert_account a db) (\<lambda>db1. Inr (a, db1)))"

definition source_emptied :: "LoyaltyAccount \<Rightarrow> LoyaltyAccount" where
  "source_emptied sa = sa\<lparr>la_posted := 0, la_qualifying := 0, la_status := LA_CLOSED, la_version := la_version sa + 1\<rparr>"

definition target_filled :: "LoyaltyAccount \<Rightarrow> LoyaltyAccount \<Rightarrow> LoyaltyAccount" where
  "target_filled sa ta = ta\<lparr>la_posted := la_posted ta + la_posted sa, la_lifetimeEarned := la_lifetimeEarned ta + la_lifetimeEarned sa,
     la_lifetimeRedeemed := la_lifetimeRedeemed ta + la_lifetimeRedeemed sa, la_qualifying := la_qualifying ta + la_qualifying sa\<rparr>"

text \<open>The points moved, the wallet of the target as it will be saved, and the tables.\<close>

definition move_points :: "LoyaltyIds \<Rightarrow> string \<Rightarrow> string \<Rightarrow> MergeCustomersDto \<Rightarrow> CustomerRow \<Rightarrow> CustomerRow \<Rightarrow> LoyaltyAccount \<Rightarrow> LoyaltyDb \<Rightarrow>
    (int \<times> LoyaltyAccount \<times> LoyaltyDb) cust_result" where
  "move_points ids key actorId dto source target ta db =
    (case map_get (ld_accounts db) (mg_sourceCustomerId dto) of
       None \<Rightarrow> Inr (0, ta, db)
     | Some sa \<Rightarrow>
         ebind (if la_posted sa \<noteq> 0 then
                  ebind (insert_tx (merge_out_tx ids key actorId dto target sa) db) (insert_tx (merge_in_tx ids key actorId dto source sa ta))
                else Inr db) (\<lambda>db1.
         ebind (save_account (source_emptied sa) db1) (\<lambda>db2.
         Inr (la_posted sa, target_filled sa ta, db2))))"

definition moved_address :: "string \<Rightarrow> bool \<Rightarrow> CustomerAddress \<Rightarrow> CustomerAddress" where
  "moved_address targetId hasDefault ad = ad\<lparr>ad_customerId := targetId, ad_isDefault := ad_isDefault ad \<and> \<not> hasDefault\<rparr>"

definition move_addresses :: "string \<Rightarrow> string \<Rightarrow> CustomerAddress list \<Rightarrow> nat \<times> CustomerAddress list" where
  "move_addresses sourceId targetId ads =
    (let hasDefault = list_ex (\<lambda>ad. ad_customerId ad = targetId \<and> ad_isDefault ad \<and> ad_status ad = ''ACTIVE'') ads;
         mine = (\<lambda>ad. ad_customerId ad = sourceId \<and> ad_status ad = ''ACTIVE'') in
     (length (filter mine ads), map (\<lambda>ad. if mine ad then moved_address targetId hasDefault ad else ad) ads))"

definition moved_projection :: "string \<Rightarrow> string \<Rightarrow> PurchaseProjection \<Rightarrow> PurchaseProjection" where
  "moved_projection sourceId targetId p = (if pp_customerId p = sourceId then p\<lparr>pp_customerId := targetId\<rparr> else p)"

definition move_projections :: "string \<Rightarrow> string \<Rightarrow> (string, PurchaseProjection) jsmap \<Rightarrow> (string, PurchaseProjection) jsmap" where
  "move_projections sourceId targetId = map (\<lambda>(orderId, p). (orderId, moved_projection sourceId targetId p))"

definition merged_source :: "string \<Rightarrow> CustomerRow \<Rightarrow> CustomerRow" where
  "merged_source targetId source = source\<lparr>cu_status := ''INACTIVE'', cu_mergedInto := Some targetId, cu_phoneNormalized := None, cu_deleted := True,
     cu_version := cu_version source + 1\<rparr>"

definition merged_target :: "CustomerRow \<Rightarrow> string option \<Rightarrow> CustomerRow \<Rightarrow> CustomerRow" where
  "merged_target source tierId target =
    (let t1 = target\<lparr>cu_membershipTierId := tierId\<rparr>;
         t2 = (if \<not> truthy (cu_phoneNormalized t1) \<and> truthy (cu_phoneNormalized source)
               then t1\<lparr>cu_phone := cu_phone source, cu_phoneNormalized := cu_phoneNormalized source\<rparr> else t1);
         t3 = (if \<not> truthy (cu_email t2) \<and> truthy (cu_email source) then t2\<lparr>cu_email := cu_email source\<rparr> else t2) in
     t3\<lparr>cu_version := cu_version t3 + 1\<rparr>)"

definition insert_merge :: "MergeRecord \<Rightarrow> LoyaltyDb \<Rightarrow> LoyaltyDb cust_result" where
  "insert_merge m db =
    ebind (throw_if (\<not> int4 (mr_transferredPoints m)) (db_error ''22003'')) (\<lambda>_.
    ebind (throw_if (128 < length (mr_idempotencyKey m) \<or> 64 < length (mr_actorId m) \<or> \<not> fits 255 (mr_reason m)) (db_error ''22001'')) (\<lambda>_.
    ebind (throw_if (list_ex (\<lambda>n. mr_idempotencyKey n = mr_idempotencyKey m) (ld_merges db)) (db_error ''23505'')) (\<lambda>_.
    Inr (db\<lparr>ld_merges := ld_merges db @ [m]\<rparr>))))"

text \<open>What the merge writes once its checks have passed.\<close>

definition merge_wallets :: "(string \<Rightarrow> string \<Rightarrow> int) \<Rightarrow> LoyaltyIds \<Rightarrow> string \<Rightarrow> string \<Rightarrow> MergeCustomersDto \<Rightarrow> CustomerRow \<Rightarrow> CustomerRow \<Rightarrow> LoyaltyDb \<Rightarrow>
    (int \<times> string option \<times> LoyaltyAccount \<times> LoyaltyDb) cust_result" where
  "merge_wallets collate ids key actorId dto source target db =
    ebind (target_wallet ids (mg_targetCustomerId dto) target db) (\<lambda>(ta, db1).
    ebind (move_points ids key actorId dto source target ta db1) (\<lambda>(points, ta1, db2).
    let newTier = resolveEligibleMembershipTier collate (la_qualifying ta1) (filter (\<lambda>t. ti_status t = ''ACTIVE'') (ld_tiers db2));
        changed = (case newTier of None \<Rightarrow> False | Some t \<Rightarrow> Some (ti_id t) \<noteq> cu_membershipTierId target);
        tierId = (if changed then map_option ti_id newTier else cu_membershipTierId target);
        ta2 = (if changed then ta1\<lparr>la_tierId := tierId\<rparr> else ta1);
        ta3 = ta2\<lparr>la_version := la_version ta2 + 1\<rparr> in
    ebind (save_account ta3 db2) (\<lambda>db3. Inr (points, tierId, ta3, db3))))"

definition merge_now :: "(string \<Rightarrow> string \<Rightarrow> int) \<Rightarrow> LoyaltyIds \<Rightarrow> string \<Rightarrow> string \<Rightarrow> MergeCustomersDto \<Rightarrow> CustomerRow \<Rightarrow> CustomerRow \<Rightarrow> LoyaltyDb \<Rightarrow>
    (MergeRecord \<times> LoyaltyDb) cust_result" where
  "merge_now collate ids key actorId dto source target db =
    (let sourceId = mg_sourceCustomerId dto; targetId = mg_targetCustomerId dto in
     ebind (merge_wallets collate ids key actorId dto source target db) (\<lambda>(points, tierId, ta, db1).
     let (movedAddresses, ads) = move_addresses sourceId targetId (ld_addresses db1);
         movedOrders = length (filter (\<lambda>r. pp_customerId (snd r) = sourceId) (ld_projections db1));
         source' = merged_source targetId source;
         target' = merged_target source tierId target;
         m = \<lparr>mr_sourceCustomerId = sourceId, mr_targetCustomerId = targetId, mr_idempotencyKey = key, mr_transferredPoints = points,
              mr_movedAddressesCount = movedAddresses, mr_movedOrdersCount = movedOrders, mr_actorId = actorId, mr_reason = map_option js_trim (mg_reason dto)\<rparr>;
         db2 = db1\<lparr>ld_addresses := ads, ld_projections := move_projections sourceId targetId (ld_projections db1),
              ld_customers := map_set targetId target' (map_set sourceId source' (ld_customers db1))\<rparr> in
     ebind (insert_merge m db2) (\<lambda>db3.
     let db4 = emit (CUSTOMER_DEACTIVATED sourceId source') db3;
         db5 = (if tierId \<noteq> cu_membershipTierId target
                then emit (CUSTOMER_MEMBERSHIP_CHANGED targetId (cu_membershipTierId target) tierId (la_qualifying ta)) db4 else db4) in
     Inr (m, emit (CUSTOMER_UPDATED targetId target') db5))))"

text \<open>\<open>pick\<close> is the row a query without an order answers. The answer is the record of the merge and whether it is a replay.\<close>

definition mergeCustomers :: "(string \<Rightarrow> string \<Rightarrow> int) \<Rightarrow> (MergeRecord list \<Rightarrow> MergeRecord) \<Rightarrow> LoyaltyIds \<Rightarrow> string \<Rightarrow> string option \<Rightarrow> MergeCustomersDto \<Rightarrow>
    LoyaltyDb \<Rightarrow> ((bool \<times> MergeRecord option) \<times> LoyaltyDb) cust_result" where
  "mergeCustomers collate pick ids actorId header dto db =
    (let sourceId = mg_sourceCustomerId dto; targetId = mg_targetCustomerId dto; key = merge_key header dto;
         known = filter (\<lambda>m. mr_idempotencyKey m = key \<or> mr_sourceCustomerId m = sourceId) (ld_merges db) in
     if sourceId = targetId then Inl (cust_error CUSTOMER_MERGE_CONFLICT 409)
     else if known \<noteq> [] then
       (if mr_targetCustomerId (pick known) = targetId then Inr ((True, Some (pick known)), db) else Inl (cust_error CUSTOMER_MERGE_CONFLICT 409))
     else (case (map_get (ld_customers db) sourceId, map_get (ld_customers db) targetId) of
       (Some source, Some target) \<Rightarrow>
         if truthy (cu_mergedInto source) then
           (if cu_mergedInto source = Some targetId
            then Inr ((True, find (\<lambda>m. mr_sourceCustomerId m = sourceId) (ld_merges db)), db)
            else Inl (cust_error CUSTOMER_MERGE_CONFLICT 409))
         else if cu_status target \<noteq> ''ACTIVE'' \<or> cu_deleted target then Inl (cust_error CUSTOMER_INACTIVE 409)
         else if activeHoldsCount sourceId db > 0 then Inl (cust_error LOYALTY_STATE_CONFLICT 409)
         else ebind (merge_now collate ids key actorId dto source target db) (\<lambda>(m, db'). Inr ((False, Some m), db'))
     | _ \<Rightarrow> Inl (cust_error CUSTOMER_NOT_FOUND 404)))"

end
