(* ===== verification/LoyaltyBooks.thy ===== *)
theory LoyaltyBooks
  imports CustomerWallets
begin

text \<open>
  What the loyalty operations keep: the held points of every wallet are the points of its open holds, its posted points the
  sum of its ledger, and the points taken back from an order the refunded share of what it earned. The operations as a
  step relation, and the properties that follow.
\<close>

section \<open>The books of the wallets\<close>

definition point_demand :: "LoyaltyHold \<Rightarrow> string demand option" where
  "point_demand h = (if lh_state h = LH_HELD then Some (\<lambda>c. if c = lh_customerId h then lh_points h else 0) else None)"

definition points_held :: "LoyaltyDb \<Rightarrow> string demand" where
  "points_held db c = (case map_get (ld_accounts db) c of None \<Rightarrow> 0 | Some a \<Rightarrow> la_held a)"

definition loyalty_ok :: "LoyaltyDb \<Rightarrow> bool" where
  "loyalty_ok db \<longleftrightarrow>
     distinct (map fst (ld_accounts db)) \<and> distinct (map (la_id \<circ> snd) (ld_accounts db)) \<and>
     (\<forall>r \<in> set (ld_accounts db). la_customerId (snd r) = fst r \<and> la_posted (snd r) = ledger_sum (la_id (snd r)) db) \<and>
     distinct (map fst (ld_holds db)) \<and>
     (\<forall>r \<in> set (ld_holds db). lh_id (snd r) = fst r \<and> 0 < lh_points (snd r) \<and>
        (\<exists>a. map_get (ld_accounts db) (lh_customerId (snd r)) = Some a \<and> la_id a = lh_accountId (snd r))) \<and>
     (\<forall>c. points_held db c = map_sum (held_by point_demand c) (ld_holds db)) \<and>
     (\<forall>t \<in> set (ld_txs db). \<exists>r \<in> set (ld_accounts db). la_id (snd r) = lt_accountId t)"

lemma loyalty_okD:
  assumes "loyalty_ok db"
  shows "distinct (map fst (ld_accounts db))" "distinct (map (la_id \<circ> snd) (ld_accounts db))"
    "\<And>c a. map_get (ld_accounts db) c = Some a \<Longrightarrow> la_customerId a = c \<and> la_posted a = ledger_sum (la_id a) db"
    "distinct (map fst (ld_holds db))"
    "\<And>i h. map_get (ld_holds db) i = Some h \<Longrightarrow> lh_id h = i \<and> 0 < lh_points h \<and>
       (\<exists>a. map_get (ld_accounts db) (lh_customerId h) = Some a \<and> la_id a = lh_accountId h)"
    "\<And>c. points_held db c = map_sum (held_by point_demand c) (ld_holds db)"
    "\<And>t. t \<in> set (ld_txs db) \<Longrightarrow> \<exists>r \<in> set (ld_accounts db). la_id (snd r) = lt_accountId t"
  using assms unfolding loyalty_ok_def by (force dest: map_get_in_set)+

interpretation point_holds: hold_table points_held ld_holds point_demand loyalty_ok
  by unfold_locales (auto simp: loyalty_ok_def point_demand_def split: if_splits)

lemma points_covered:
  assumes "loyalty_ok db" "map_get (ld_holds db) i = Some h" "lh_state h = LH_HELD" "map_get (ld_accounts db) (lh_customerId h) = Some a"
  shows "lh_points h \<le> la_held a"
  using point_holds.open_covered [OF assms(1,2), of "\<lambda>c. if c = lh_customerId h then lh_points h else 0" "lh_customerId h"] assms(3,4)
  by (simp add: point_demand_def points_held_def)

text \<open>Other tables do not matter.\<close>

lemma loyalty_ok_cong:
  assumes "ld_accounts db' = ld_accounts db" "ld_holds db' = ld_holds db" "ld_txs db' = ld_txs db"
  shows "loyalty_ok db' = loyalty_ok db"
  using assms by (simp add: loyalty_ok_def points_held_def ledger_sum_def)

lemma loyalty_ok_emit [simp]: "loyalty_ok (emit e db) = loyalty_ok db"
  by (rule loyalty_ok_cong) (simp_all add: emit_def)

lemma emit_fields [simp]:
  "ld_accounts (emit e db) = ld_accounts db" "ld_holds (emit e db) = ld_holds db" "ld_txs (emit e db) = ld_txs db"
  "ld_projections (emit e db) = ld_projections db" "ld_customers (emit e db) = ld_customers db" "ld_settings (emit e db) = ld_settings db"
  by (simp_all add: emit_def)

text \<open>One wallet changes: its row, at most one of its holds, and lines appended to its ledger.\<close>

definition hold_part :: "string \<Rightarrow> LoyaltyHold option \<Rightarrow> int" where
  "hold_part c h = (case h of None \<Rightarrow> 0 | Some h \<Rightarrow> held_by point_demand c h)"

definition put_hold :: "LoyaltyHold option \<Rightarrow> (string, LoyaltyHold) jsmap \<Rightarrow> (string, LoyaltyHold) jsmap" where
  "put_hold h m = (case h of None \<Rightarrow> m | Some h \<Rightarrow> map_set (lh_id h) h m)"

definition old_hold :: "LoyaltyHold option \<Rightarrow> LoyaltyDb \<Rightarrow> LoyaltyHold option" where
  "old_hold h db = (case h of None \<Rightarrow> None | Some h \<Rightarrow> map_get (ld_holds db) (lh_id h))"

lemma ids_after_set:
  assumes "distinct (map (la_id \<circ> snd) m)" "map_get m c = Some a" "la_id a' = la_id a"
  shows "map (la_id \<circ> snd) (map_set c a' m) = map (la_id \<circ> snd) m"
  using assms(2,3)
proof (induction m)
  case (Cons x m)
  then show ?case by (cases x) (auto simp: map_get_def)
qed simp

lemma ledger_append:
  assumes "ld_txs db' = ld_txs db @ ts" "\<forall>t \<in> set ts. lt_accountId t = i"
  shows "ledger_sum j db' = ledger_sum j db + (if j = i then sum_list (map lt_pointsDelta ts) else 0)"
  using assms by (auto simp: ledger_sum_def filter_id_conv)

lemma wallet_accounts:
  assumes ok: "loyalty_ok db" and a: "map_get (ld_accounts db) c = Some a" and a': "la_id a' = la_id a" "la_customerId a' = c"
    and acc: "ld_accounts db' = map_set c a' (ld_accounts db)"
    and txs: "ld_txs db' = ld_txs db @ ts" "\<forall>t \<in> set ts. lt_accountId t = la_id a" "la_posted a' = la_posted a + sum_list (map lt_pointsDelta ts)"
    and r: "r \<in> set (ld_accounts db')"
  shows "la_customerId (snd r) = fst r \<and> la_posted (snd r) = ledger_sum (la_id (snd r)) db'"
proof -
  note inv = loyalty_okD [OF ok]
  obtain k b where kb: "r = (k, b)" by fastforce
  have "distinct (map fst (ld_accounts db'))" using inv(1) acc by (simp add: distinct_map_set)
  then have get: "map_get (ld_accounts db') k = Some b" using r kb by (simp add: map_get_eq_Some)
  note app = ledger_append [OF txs(1,2)]
  show ?thesis
  proof (cases "k = c")
    case True
    then show ?thesis using get acc kb a' txs(3) inv(3) [OF a] app by simp
  next
    case False
    then have b: "map_get (ld_accounts db) k = Some b" using get acc by simp
    have "(k, b) \<in> set (ld_accounts db)" "(c, a) \<in> set (ld_accounts db)" using a b by (simp_all add: map_get_in_set)
    then have "la_id b \<noteq> la_id a" using inv(2) False by (fastforce simp: distinct_map inj_on_def)
    then show ?thesis using kb inv(3) [OF b] app by simp
  qed
qed

lemma wallet_holds:
  assumes ok: "loyalty_ok db" and a: "map_get (ld_accounts db) c = Some a" "la_id a' = la_id a"
    and acc: "ld_accounts db' = map_set c a' (ld_accounts db)" and holds: "ld_holds db' = put_hold h (ld_holds db)"
    and new: "\<forall>g. h = Some g \<longrightarrow> lh_customerId g = c \<and> lh_accountId g = la_id a \<and> 0 < lh_points g" and r: "r \<in> set (ld_holds db')"
  shows "lh_id (snd r) = fst r \<and> 0 < lh_points (snd r) \<and>
    (\<exists>b. map_get (ld_accounts db') (lh_customerId (snd r)) = Some b \<and> la_id b = lh_accountId (snd r))"
proof -
  obtain i g where ig: "r = (i, g)" by fastforce
  consider "h = Some g" "i = lh_id g" | "(i, g) \<in> set (ld_holds db)"
    using r holds ig by (cases h) (auto simp: put_hold_def dest: set_map_set_elem)
  then show ?thesis
  proof cases
    case 1
    then show ?thesis using ig new acc a(2) by simp
  next
    case 2
    then have "map_get (ld_holds db) i = Some g" using loyalty_okD(4) [OF ok] by (simp add: map_get_eq_Some)
    from loyalty_okD(5) [OF ok this] show ?thesis using ig a acc by auto
  qed
qed

lemma wallet_sums:
  assumes ok: "loyalty_ok db" and a: "map_get (ld_accounts db) c = Some a"
    and acc: "ld_accounts db' = map_set c a' (ld_accounts db)" and holds: "ld_holds db' = put_hold h (ld_holds db)"
    and new: "\<forall>g. h = Some g \<longrightarrow> lh_customerId g = c" and old: "\<forall>g. old_hold h db = Some g \<longrightarrow> lh_customerId g = c"
    and held: "la_held a' = la_held a + hold_part c h - hold_part c (old_hold h db)"
  shows "points_held db' k = map_sum (held_by point_demand k) (ld_holds db')"
proof -
  have other: "held_by point_demand k g = 0" if "lh_customerId g = c" "k \<noteq> c" for g
    using that by (simp add: held_by_def point_demand_def)
  have "map_sum (held_by point_demand k) (ld_holds db') = map_sum (held_by point_demand k) (ld_holds db) + hold_part k h - hold_part k (old_hold h db)"
    using holds by (auto simp: put_hold_def hold_part_def old_hold_def map_sum_set split: option.splits)
  moreover have "points_held db' k = points_held db k + (if k = c then hold_part c h - hold_part c (old_hold h db) else 0)"
    using acc a held by (simp add: points_held_def)
  moreover have "hold_part k h = 0" "hold_part k (old_hold h db) = 0" if "k \<noteq> c"
    using that new old other by (auto simp: hold_part_def split: option.splits)
  ultimately show ?thesis using loyalty_okD(6) [OF ok] by auto
qed

lemma wallet_change:
  assumes ok: "loyalty_ok db" and a: "map_get (ld_accounts db) c = Some a" and a': "la_id a' = la_id a" "la_customerId a' = c"
    and acc: "ld_accounts db' = map_set c a' (ld_accounts db)" and holds: "ld_holds db' = put_hold h (ld_holds db)"
    and txs: "ld_txs db' = ld_txs db @ ts" "\<forall>t \<in> set ts. lt_accountId t = la_id a" "la_posted a' = la_posted a + sum_list (map lt_pointsDelta ts)"
    and new: "\<forall>g. h = Some g \<longrightarrow> lh_customerId g = c \<and> lh_accountId g = la_id a \<and> 0 < lh_points g"
    and old: "\<forall>g. old_hold h db = Some g \<longrightarrow> lh_customerId g = c"
    and held: "la_held a' = la_held a + hold_part c h - hold_part c (old_hold h db)"
  shows "loyalty_ok db'"
proof -
  note inv = loyalty_okD [OF ok]
  have ids: "map (la_id \<circ> snd) (ld_accounts db') = map (la_id \<circ> snd) (ld_accounts db)"
    using ids_after_set [OF inv(2) a a'(1)] acc by simp
  have mem: "(\<exists>r \<in> set m. la_id (snd r) = i) \<longleftrightarrow> i \<in> set (map (la_id \<circ> snd) m)" for i and m :: "(string \<times> LoyaltyAccount) list" by auto
  have known: "(\<exists>r \<in> set (ld_accounts db'). la_id (snd r) = i) \<longleftrightarrow> (\<exists>r \<in> set (ld_accounts db). la_id (snd r) = i)" for i
    by (simp only: mem ids)
  have here: "\<exists>r \<in> set (ld_accounts db). la_id (snd r) = la_id a" using map_get_in_set [OF a] by (intro bexI [of _ "(c, a)"]) simp_all
  have "\<exists>r \<in> set (ld_accounts db'). la_id (snd r) = lt_accountId t" if "t \<in> set (ld_txs db')" for t
    unfolding known using that txs(1,2) inv(7) here by (cases "t \<in> set ts") simp_all
  moreover have "distinct (map fst (ld_holds db'))" using inv(4) holds by (auto simp: put_hold_def distinct_map_set split: option.splits)
  moreover have "distinct (map fst (ld_accounts db'))" using inv(1) acc by (simp add: distinct_map_set)
  moreover have "\<forall>c. points_held db' c = map_sum (held_by point_demand c) (ld_holds db')"
    using wallet_sums [OF ok a acc holds _ old held] new by blast
  ultimately show ?thesis
    using ids inv(2) wallet_accounts [OF ok a a' acc txs] wallet_holds [OF ok a a'(1) acc holds new] unfolding loyalty_ok_def by auto
qed

section \<open>Facts about writing rows\<close>

lemma save_account_Inr:
  assumes "save_account a db = Inr db'"
  shows "db' = db\<lparr>ld_accounts := map_set (la_customerId a) a (ld_accounts db)\<rparr>"
  using assms by (auto simp: save_account_def ok_simps)

lemma insert_tx_Inr:
  assumes "insert_tx t db = Inr db'"
  shows "db' = db\<lparr>ld_txs := ld_txs db @ [t]\<rparr>" "int4 (lt_pointsDelta t)" "\<And>u. u \<in> set (ld_txs db) \<Longrightarrow> \<not> tx_clash t u"
  using assms by (auto simp: insert_tx_def ok_simps list_ex_iff)

lemma insert_hold_Inr:
  assumes "insert_hold h db = Inr db'"
  shows "db' = db\<lparr>ld_holds := map_set (lh_id h) h (ld_holds db)\<rparr>" "0 < lh_points h" "map_get (ld_holds db) (lh_id h) = None \<or> (\<exists>g. map_get (ld_holds db) (lh_id h) = Some g \<and> lh_id g \<noteq> lh_id h)"
  using assms by (auto simp: insert_hold_def ok_simps list_ex_iff hold_clash_def dest: map_get_in_set split: option.splits)
    (metis map_get_in_set not_None_eq snd_conv)

lemma save_hold_Inr:
  assumes "save_hold h db = Inr db'"
  shows "db' = db\<lparr>ld_holds := map_set (lh_id h) h (ld_holds db)\<rparr>"
  using assms by (auto simp: save_hold_def ok_simps)

lemma save_projection_Inr:
  assumes "save_projection o' p db = Inr db'"
  shows "db' = db\<lparr>ld_projections := map_set o' p (ld_projections db)\<rparr>"
  using assms by (auto simp: save_projection_def ok_simps)

lemma ensure_existing: "map_get (ld_accounts db) c = Some a \<Longrightarrow> ensureAccountInTx ids c db = Inr (a, db)"
  by (simp add: ensureAccountInTx_def)

lemma set_new_wallet: "map_get m k = None \<Longrightarrow> map_set k v m = m @ [(k, v)]"
  by (induction m) (auto simp: map_get_def split: if_splits)

lemma loyalty_ok_new_account:
  assumes "loyalty_ok db" "map_get (ld_accounts db) c = None" "\<forall>r \<in> set (ld_accounts db). la_id (snd r) \<noteq> i"
  shows "loyalty_ok (db\<lparr>ld_accounts := map_set c (new_loyalty_account i c) (ld_accounts db)\<rparr>)"
proof -
  note inv = loyalty_okD [OF assms(1)]
  let ?a = "new_loyalty_account i c"
  let ?db = "db\<lparr>ld_accounts := map_set c ?a (ld_accounts db)\<rparr>"
  have new: "map_set c ?a (ld_accounts db) = ld_accounts db @ [(c, ?a)]"
    using assms(2) by (rule set_new_wallet)
  have "ledger_sum i db = 0"
    using inv(7) assms(3) by (fastforce simp: ledger_sum_def intro!: sum_list_all_0)
  moreover have "ledger_sum j ?db = ledger_sum j db" for j by (simp add: ledger_sum_def)
  ultimately have rows: "la_customerId (snd r) = fst r \<and> la_posted (snd r) = ledger_sum (la_id (snd r)) ?db" if "r \<in> set (ld_accounts ?db)" for r
    using that assms(1) new by (auto simp: loyalty_ok_def new_loyalty_account_def)
  have "lh_customerId (snd r) \<noteq> c" if "r \<in> set (ld_holds db)" for r using that assms(1,2) by (auto simp: loyalty_ok_def)
  then have holds: "\<exists>a. map_get (ld_accounts ?db) (lh_customerId (snd r)) = Some a \<and> la_id a = lh_accountId (snd r)" if "r \<in> set (ld_holds db)" for r
    using that assms(1) by (auto simp: loyalty_ok_def)
  have "points_held ?db k = points_held db k" for k using assms(2) by (simp add: points_held_def new_loyalty_account_def)
  moreover have "distinct (map fst (ld_accounts ?db))" using inv(1) by (simp add: distinct_map_set)
  moreover have "distinct (map (la_id \<circ> snd) (ld_accounts ?db))" using inv(2) new assms(3) by (auto simp: new_loyalty_account_def)
  ultimately show ?thesis using assms(1) rows holds new unfolding loyalty_ok_def by auto
qed

lemma ensureAccount_ok:
  assumes "loyalty_ok db" "ensureAccountInTx ids c db = Inr (a, db')"
  shows "loyalty_ok db'" "map_get (ld_accounts db') c = Some a" "ld_holds db' = ld_holds db" "ld_txs db' = ld_txs db"
    "ld_projections db' = ld_projections db" "la_customerId a = c"
proof -
  consider "map_get (ld_accounts db) c = Some a" "db' = db"
    | "map_get (ld_accounts db) c = None" "\<forall>r \<in> set (ld_accounts db). la_id (snd r) \<noteq> new_account ids"
      "a = new_loyalty_account (new_account ids) c" "db' = db\<lparr>ld_accounts := map_set c a (ld_accounts db)\<rparr>"
    using assms(2) by (auto simp: ensureAccountInTx_def ok_simps Let_def list_ex_iff split: option.splits)
  then have "loyalty_ok db' \<and> map_get (ld_accounts db') c = Some a \<and> ld_holds db' = ld_holds db \<and> ld_txs db' = ld_txs db \<and>
    ld_projections db' = ld_projections db \<and> la_customerId a = c"
  proof cases
    case 1
    then show ?thesis using assms(1) loyalty_okD(3) [OF assms(1)] by simp
  next
    case 2
    then show ?thesis using loyalty_ok_new_account [OF assms(1) 2(1,2)] by (simp add: new_loyalty_account_def)
  qed
  then show "loyalty_ok db'" "map_get (ld_accounts db') c = Some a" "ld_holds db' = ld_holds db" "ld_txs db' = ld_txs db"
    "ld_projections db' = ld_projections db" "la_customerId a = c" by blast+
qed

lemma settings_fields:
  assumes "getOrCreateSettingsInTx db = (s, db')"
  shows "ld_accounts db' = ld_accounts db" "ld_holds db' = ld_holds db" "ld_txs db' = ld_txs db" "ld_projections db' = ld_projections db"
    "ld_customers db' = ld_customers db"
  using assms by (auto simp: getOrCreateSettingsInTx_def split: option.splits)

lemma settings_ok: "getOrCreateSettingsInTx db = (s, db') \<Longrightarrow> loyalty_ok db' = loyalty_ok db"
  by (rule loyalty_ok_cong) (simp_all add: settings_fields)

lemma tier_fields [simp]:
  "ld_holds (recalculateCustomerTierWithinTransaction collate c q db) = ld_holds db"
  "ld_txs (recalculateCustomerTierWithinTransaction collate c q db) = ld_txs db"
  "ld_projections (recalculateCustomerTierWithinTransaction collate c q db) = ld_projections db"
  by (simp_all add: recalculateCustomerTierWithinTransaction_def Let_def split: option.splits)

lemma tier_accounts:
  "ld_accounts (recalculateCustomerTierWithinTransaction collate c q db) = ld_accounts db \<or>
   (\<exists>a v. map_get (ld_accounts db) c = Some a \<and>
      ld_accounts (recalculateCustomerTierWithinTransaction collate c q db) = map_set c (a\<lparr>la_tierId := v\<rparr>) (ld_accounts db))"
  by (auto simp: recalculateCustomerTierWithinTransaction_def Let_def split: option.splits)

lemma tier_ok:
  assumes "loyalty_ok db"
  shows "loyalty_ok (recalculateCustomerTierWithinTransaction collate c q db)"
proof -
  let ?db = "recalculateCustomerTierWithinTransaction collate c q db"
  consider "ld_accounts ?db = ld_accounts db"
    | a v where "map_get (ld_accounts db) c = Some a" "ld_accounts ?db = map_set c (a\<lparr>la_tierId := v\<rparr>) (ld_accounts db)"
    using tier_accounts by blast
  then show ?thesis
  proof cases
    case 1
    then show ?thesis using assms loyalty_ok_cong [of ?db db] by simp
  next
    case 2
    show ?thesis
      by (rule wallet_change [OF assms 2(1) _ _ 2(2), where h = None and ts = "[]"])
        (use loyalty_okD(3) [OF assms 2(1)] in \<open>simp_all add: put_hold_def old_hold_def hold_part_def\<close>)
  qed
qed

section \<open>Holds\<close>

text \<open>A hold that is no longer open, otherwise the same.\<close>

definition closed_version :: "LoyaltyHold \<Rightarrow> LoyaltyHold \<Rightarrow> bool" where
  "closed_version h h' \<longleftrightarrow> lh_id h' = lh_id h \<and> lh_customerId h' = lh_customerId h \<and> lh_accountId h' = lh_accountId h \<and>
     lh_points h' = lh_points h \<and> lh_state h' \<noteq> LH_HELD"

lemma close_hold_ok:
  assumes "loyalty_ok db" "map_get (ld_holds db) i = Some h" "lh_state h = LH_HELD" "map_get (ld_accounts db) (lh_customerId h) = Some a"
    and "closed_version h h'" "la_id a' = la_id a" "la_customerId a' = la_customerId a" "la_held a' = la_held (unhold h a)"
    and "ld_accounts db' = map_set (la_customerId a') a' (ld_accounts db)" "ld_holds db' = map_set (lh_id h') h' (ld_holds db)"
    and "ld_txs db' = ld_txs db @ ts" "\<forall>t \<in> set ts. lt_accountId t = la_id a" "la_posted a' = la_posted a + sum_list (map lt_pointsDelta ts)"
  shows "loyalty_ok db'" "la_held a' = la_held a - lh_points h"
proof -
  have h: "lh_id h = i" "0 < lh_points h" "lh_accountId h = la_id a" and c: "la_customerId a = lh_customerId h"
    using loyalty_okD(5) [OF assms(1,2)] loyalty_okD(3) [OF assms(1,4)] assms(4) by auto
  show held: "la_held a' = la_held a - lh_points h"
    using points_covered [OF assms(1-4)] assms(8) by (simp add: unhold_def)
  have old: "old_hold (Some h') db = Some h" using assms(2,5) h(1) by (simp add: old_hold_def closed_version_def)
  show "loyalty_ok db'"
  proof (rule wallet_change [OF assms(1,4,6), where h = "Some h'" and ts = ts])
    show "la_held a' = la_held a + hold_part (lh_customerId h) (Some h') - hold_part (lh_customerId h) (old_hold (Some h') db)"
      unfolding old using held assms(3,5) by (simp add: hold_part_def held_by_def point_demand_def closed_version_def)
  qed (use assms h c old in \<open>auto simp: put_hold_def closed_version_def\<close>)
qed

lemma find_hold_Inr: "find_hold i db = Inr h \<longleftrightarrow> map_get (ld_holds db) i = Some h"
  by (auto simp: find_hold_def split: option.splits)

text \<open>Every hold has a wallet, so looking it up creates nothing.\<close>

lemma hold_wallet:
  assumes "loyalty_ok db" "map_get (ld_holds db) i = Some h"
  obtains a where "map_get (ld_accounts db) (lh_customerId h) = Some a" "ensureAccountInTx ids (lh_customerId h) db = Inr (a, db)"
    "la_id a = lh_accountId h" "la_customerId a = lh_customerId h"
  using loyalty_okD(5) [OF assms] loyalty_okD(3) [OF assms(1)] ensure_existing by blast

lemma releaseHold_shape:
  assumes "loyalty_ok db" "releaseHold ids now i reason db = Inr ((h', a', replayed), db')"
  obtains (replay) h where "map_get (ld_holds db) i = Some h" "lh_state h = LH_RELEASED \<or> lh_state h = LH_EXPIRED" "db' = db" "replayed"
  | (released) h a where "map_get (ld_holds db) i = Some h" "lh_state h = LH_HELD" "map_get (ld_accounts db) (lh_customerId h) = Some a"
      "closed_version h h'" "lh_state h' = LH_RELEASED" "a' = unhold h a" "\<not> replayed"
      "db' = emit (CUSTOMER_LOYALTY_HOLD_RELEASED h') (db\<lparr>ld_accounts := map_set (la_customerId a') a' (ld_accounts db),
         ld_holds := map_set (lh_id h') h' (ld_holds db)\<rparr>)"
proof -
  obtain h where h: "map_get (ld_holds db) i = Some h" using assms(2) by (auto simp: releaseHold_def ok_simps find_hold_Inr)
  obtain a where a: "map_get (ld_accounts db) (lh_customerId h) = Some a" "ensureAccountInTx ids (lh_customerId h) db = Inr (a, db)"
    using hold_wallet [OF assms(1) h] by blast
  note run = assms(2) [unfolded releaseHold_def, simplified find_hold_def h a option.case ebind_Inr case_prod_conv]
  show thesis
  proof (cases "lh_state h")
    case LH_HELD
    then show thesis using run released [OF h LH_HELD a(1)]
      by (auto simp: ok_simps Let_def closed_version_def dest!: save_account_Inr save_hold_Inr)
  qed (use run replay [OF h] in auto)
qed

lemma releaseHold_ok:
  assumes "loyalty_ok db" "releaseHold ids now i reason db = Inr ((h', a', replayed), db')"
  shows "loyalty_ok db'"
  using assms
proof (cases rule: releaseHold_shape)
  case (released h a)
  show ?thesis
    by (rule close_hold_ok [OF assms(1) released(1-4), where a' = a' and ts = "[]"]) (use released in \<open>simp_all add: unhold_def\<close>)
qed (use assms(1) in simp)

lemma commitHold_shape:
  assumes "loyalty_ok db" "commitHold ids now i orderId actorId db = Inr ((h', a', replayed), db')"
  obtains (replay) h where "map_get (ld_holds db) i = Some h" "lh_state h = LH_COMMITTED" "db' = db" "replayed"
  | (committed) h a t where "map_get (ld_holds db) i = Some h" "lh_state h = LH_HELD" "map_get (ld_accounts db) (lh_customerId h) = Some a"
      "now < lh_expiresAt h" "closed_version h h'" "lh_state h' = LH_COMMITTED" "\<not> replayed"
      "a' = (unhold h a)\<lparr>la_posted := la_posted a - lh_points h, la_lifetimeRedeemed := la_lifetimeRedeemed a + lh_points h\<rparr>"
      "lt_type t = REDEEM" "lt_pointsDelta t = - lh_points h" "lt_accountId t = la_id a" "lt_idempotencyKey t = ''redeem:hold:'' @ lh_id h"
      "db' = emit (CUSTOMER_LOYALTY_POINTS_REDEEMED t) (emit (CUSTOMER_LOYALTY_HOLD_COMMITTED h')
         (db\<lparr>ld_accounts := map_set (la_customerId a') a' (ld_accounts db), ld_holds := map_set (lh_id h') h' (ld_holds db),
           ld_txs := ld_txs db @ [t]\<rparr>))"
proof -
  obtain h where h: "map_get (ld_holds db) i = Some h" using assms(2) by (auto simp: commitHold_def ok_simps find_hold_Inr)
  obtain a where a: "map_get (ld_accounts db) (lh_customerId h) = Some a" "ensureAccountInTx ids (lh_customerId h) db = Inr (a, db)"
    using hold_wallet [OF assms(1) h] by blast
  note run = assms(2) [unfolded commitHold_def, simplified find_hold_def h a option.case ebind_Inr case_prod_conv]
  show thesis
  proof (cases "lh_state h")
    case LH_HELD
    then have fresh: "now < lh_expiresAt h" using run by (auto simp: ok_simps split: if_splits)
    show thesis using run LH_HELD fresh
      by (auto simp: ok_simps Let_def closed_version_def dest!: save_account_Inr save_hold_Inr insert_tx_Inr(1) intro!: committed [OF h LH_HELD a(1)])
  qed (use run replay [OF h] in auto)
qed

lemma commitHold_ok:
  assumes "loyalty_ok db" "commitHold ids now i orderId actorId db = Inr ((h', a', replayed), db')"
  shows "loyalty_ok db'"
  using assms
proof (cases rule: commitHold_shape)
  case (committed h a t)
  show ?thesis
    by (rule close_hold_ok [OF assms(1) committed(1,2,3,5), where a' = a' and ts = "[t]"]) (use committed in \<open>simp_all add: unhold_def\<close>)
qed (use assms(1) in simp)

lemma expired_closed: "closed_version h (expired_hold now h)"
  by (simp add: closed_version_def expired_hold_def)

lemma expire_one_shape:
  assumes "loyalty_ok db" "expire_one ids now i (n, db) = Inr (n', db')"
  obtains (kept) "db' = db" "n' = n" "\<forall>h. map_get (ld_holds db) i = Some h \<longrightarrow> lh_state h \<noteq> LH_HELD"
  | (expired) h a where "map_get (ld_holds db) i = Some h" "lh_state h = LH_HELD" "map_get (ld_accounts db) (lh_customerId h) = Some a"
      "n' = n + 1" "db' = emit (CUSTOMER_LOYALTY_HOLD_EXPIRED (expired_hold now h))
         (db\<lparr>ld_accounts := map_set (la_customerId a) (unhold h a) (ld_accounts db), ld_holds := map_set (lh_id h) (expired_hold now h) (ld_holds db)\<rparr>)"
proof (cases "map_get (ld_holds db) i")
  case None
  then show thesis using assms(2) kept by (simp add: expire_one_def)
next
  case (Some h)
  obtain a where a: "map_get (ld_accounts db) (lh_customerId h) = Some a" "ensureAccountInTx ids (lh_customerId h) db = Inr (a, db)"
    using hold_wallet [OF assms(1) Some] by blast
  show thesis
  proof (cases "lh_state h = LH_HELD")
    case True
    then show thesis using assms(2) Some a(2)
      by (auto simp: expire_one_def ok_simps unhold_def expired_hold_def dest!: save_account_Inr save_hold_Inr intro!: expired [OF Some True a(1)])
  next
    case False
    then show thesis using assms(2) Some kept by (simp add: expire_one_def)
  qed
qed

lemma expire_one_ok:
  assumes "loyalty_ok db" "expire_one ids now i (n, db) = Inr (n', db')"
  shows "loyalty_ok db'"
  using assms
proof (cases rule: expire_one_shape)
  case (expired h a)
  show ?thesis
    by (rule close_hold_ok [OF assms(1) expired(1-3) expired_closed, where a' = "unhold h a" and ts = "[]"])
      (use expired in \<open>simp_all add: unhold_def expired_hold_def\<close>)
qed (use assms(1) in simp)

lemma expireOverdueHolds_ok:
  assumes "loyalty_ok db" "expireOverdueHolds ids order locked dbNow now limit db = Inr (n, db')"
  shows "loyalty_ok db'"
proof -
  have "loyalty_ok (snd (n, db'))"
    by (rule efold_invariant [where I = "\<lambda>s. loyalty_ok (snd s)", OF assms(2) [unfolded expireOverdueHolds_def]])
      (use assms(1) expire_one_ok in auto)
  then show ?thesis by simp
qed

lemma createHold_tx_shape:
  assumes "createHold_tx digest ids now header dto db = Inr ((h, a', replayed), db')"
  obtains (replay) "ensureAccountInTx ids (lh_customerId h) db = Inr (a', db')" "replayed"
      "h \<in> snd ` set (ld_holds db)"
  | (held) settings db1 db2 a where "getOrCreateSettingsInTx db = (settings, db1)" "ensureAccountInTx ids (ch_customerId dto) db1 = Inr (a, db2)"
      "la_status a = LA_ACTIVE" "is_ok (validatePointRedemption (ch_points dto) (la_posted a) (la_held a) settings)"
      "lh_points h = int_of_num (ch_points dto)" "lh_customerId h = ch_customerId dto" "lh_accountId h = la_id a" "lh_state h = LH_HELD"
      "a' = a\<lparr>la_held := la_held a + lh_points h, la_version := la_version a + 1\<rparr>" "\<not> replayed"
      "insert_hold h (db2\<lparr>ld_accounts := map_set (la_customerId a') a' (ld_accounts db2)\<rparr>) =
         Inr (db2\<lparr>ld_accounts := map_set (la_customerId a') a' (ld_accounts db2), ld_holds := map_set (lh_id h) h (ld_holds db2)\<rparr>)"
      "db' = emit (CUSTOMER_LOYALTY_HOLD_CREATED h)
         (db2\<lparr>ld_accounts := map_set (la_customerId a') a' (ld_accounts db2), ld_holds := map_set (lh_id h) h (ld_holds db2)\<rparr>)"
proof -
  obtain key caller refType hash where req: "hold_request digest header dto = (key, caller, refType, hash)" by (metis prod_cases4)
  show thesis
  proof (cases "find_hold_by_key caller key db")
    case (Some g)
    then have "g \<in> snd ` set (ld_holds db)" by (auto simp: find_hold_by_key_def dest!: find_SomeD)
    then show thesis using assms req Some replay by (auto simp: createHold_tx_def replay_hold_def ok_simps)
  next
    case None
    obtain settings db1 where s: "getOrCreateSettingsInTx db = (settings, db1)" by fastforce
    from assms obtain a db2 where a: "ensureAccountInTx ids (ch_customerId dto) db1 = Inr (a, db2)"
      by (auto simp: createHold_tx_def req None s ok_simps)
    from assms obtain v db3 db4 where run: "validatePointRedemption (ch_points dto) (la_posted a) (la_held a) settings = Inr v"
        "save_account a' db2 = Inr db3" "insert_hold h db3 = Inr db4" "db' = emit (CUSTOMER_LOYALTY_HOLD_CREATED h) db4"
      and new: "la_status a = LA_ACTIVE" "lh_points h = int_of_num (ch_points dto)" "lh_customerId h = ch_customerId dto" "lh_accountId h = la_id a"
        "lh_state h = LH_HELD" "a' = a\<lparr>la_held := la_held a + lh_points h, la_version := la_version a + 1\<rparr>" "\<not> replayed"
      by (auto simp: createHold_tx_def req None s a ok_simps Let_def)
    have db4: "db4 = db2\<lparr>ld_accounts := map_set (la_customerId a') a' (ld_accounts db2), ld_holds := map_set (lh_id h) h (ld_holds db2)\<rparr>"
      using save_account_Inr [OF run(2)] insert_hold_Inr(1) [OF run(3)] by simp
    have ins: "insert_hold h (db2\<lparr>ld_accounts := map_set (la_customerId a') a' (ld_accounts db2)\<rparr>) = Inr db4"
      using run(3) save_account_Inr [OF run(2)] by simp
    show thesis
      by (rule held [OF s a new(1) _ new(2-7)]) (use run ins db4 in simp_all)
  qed
qed

text \<open>A hold takes only points that are available, and keeps the books.\<close>

lemma createHold_tx_ok:
  assumes "loyalty_ok db" "createHold_tx digest ids now header dto db = Inr ((h, a', replayed), db')"
  shows "loyalty_ok db'" "\<not> replayed \<Longrightarrow> la_held a' \<le> la_posted a' \<and> map_get (ld_accounts db') (lh_customerId h) = Some a' \<and> map_get (ld_holds db') (lh_id h) = Some h"
proof -
  show "loyalty_ok db'"
    using assms(2)
  proof (cases rule: createHold_tx_shape)
    case replay
    then show ?thesis using ensureAccount_ok(1) [OF assms(1)] by blast
  next
    case (held settings db1 db2 a)
    have ok1: "loyalty_ok db1" using settings_ok [OF held(1)] assms(1) by simp
    note acc = ensureAccount_ok [OF ok1 held(2)]
    have ins: "0 < lh_points h" "\<not> (\<exists>g. map_get (ld_holds db2) (lh_id h) = Some g)"
      using insert_hold_Inr(2,3) [OF held(11)] loyalty_okD(5) [OF acc(1)] by auto
    then have old: "old_hold (Some h) db2 = None" by (simp add: old_hold_def)
    have "loyalty_ok (db2\<lparr>ld_accounts := map_set (la_customerId a') a' (ld_accounts db2), ld_holds := map_set (lh_id h) h (ld_holds db2)\<rparr>)"
    proof (rule wallet_change [OF acc(1,2), where a' = a' and h = "Some h" and ts = "[]"])
      show "la_held a' = la_held a + hold_part (ch_customerId dto) (Some h) - hold_part (ch_customerId dto) (old_hold (Some h) db2)"
        unfolding old using held(6,8,9) by (simp add: hold_part_def held_by_def point_demand_def)
    qed (use held ins(1) old acc(6) in \<open>auto simp: put_hold_def\<close>)
    then show ?thesis using held(12) by simp
  qed
  assume "\<not> replayed"
  with assms(2) show "la_held a' \<le> la_posted a' \<and> map_get (ld_accounts db') (lh_customerId h) = Some a' \<and> map_get (ld_holds db') (lh_id h) = Some h"
  proof (cases rule: createHold_tx_shape)
    case (held settings db1 db2 a)
    have "loyalty_ok db1" using settings_ok [OF held(1)] assms(1) by simp
    note acc = ensureAccount_ok [OF this held(2)]
    obtain v where v: "validatePointRedemption (ch_points dto) (la_posted a) (la_held a) settings = Inr v"
      using held(4) by (auto simp: is_ok_def split: sum.splits)
    have "lh_points h = rd_requestedPoints v" using validatePointRedemption_sound(3) [OF v] held(5) by simp
    then show ?thesis using validatePointRedemption_sound(6) [OF v] held(6,9,12) acc(6) by simp
  qed simp
qed

section \<open>Ledger lines\<close>

text \<open>A wallet row is saved and a line appended to its ledger.\<close>

lemma post_line_ok:
  assumes "loyalty_ok db" "map_get (ld_accounts db) c = Some a" "save_account a' db = Inr db1" "insert_tx t db1 = Inr db2"
    and "la_id a' = la_id a" "la_customerId a' = la_customerId a" "la_held a' = la_held a" "lt_accountId t = la_id a"
    and "la_posted a' = la_posted a + lt_pointsDelta t"
  shows "loyalty_ok db2" "map_get (ld_accounts db2) c = Some a'" "ld_txs db2 = ld_txs db @ [t]" "ld_projections db2 = ld_projections db"
    "ld_holds db2 = ld_holds db"
proof -
  have c: "la_customerId a = c" using loyalty_okD(3) [OF assms(1,2)] by simp
  have db2: "db2 = db\<lparr>ld_accounts := map_set c a' (ld_accounts db), ld_txs := ld_txs db @ [t]\<rparr>"
    using save_account_Inr [OF assms(3)] insert_tx_Inr(1) [OF assms(4)] assms(6) c by simp
  then show "map_get (ld_accounts db2) c = Some a'" "ld_txs db2 = ld_txs db @ [t]" "ld_projections db2 = ld_projections db" "ld_holds db2 = ld_holds db"
    by simp_all
  show "loyalty_ok db2"
    by (rule wallet_change [OF assms(1,2,5), where h = None and ts = "[t]"])
      (use assms(6-9) c db2 in \<open>simp_all add: put_hold_def old_hold_def hold_part_def\<close>)
qed

lemma adjustPoints_shape:
  assumes "adjustPoints collate ids customerId actorId header dto db = Inr ((t, a', replayed), db')"
  obtains (replay) "ensureAccountInTx ids customerId db = Inr (a', db')" "replayed"
  | (adjusted) a db1 db2 db3 d where "ensureAccountInTx ids customerId db = Inr (a, db1)" "a' = adjusted_account d a"
      "d < 0 \<longrightarrow> la_held a \<le> la_posted a + d" "save_account a' db1 = Inr db2" "insert_tx t db2 = Inr db3" "\<not> replayed"
      "lt_accountId t = la_id a" "lt_pointsDelta t = d" "lt_type t = MANUAL_ADJUSTMENT"
      "db' = emit (if d > 0 then CUSTOMER_LOYALTY_POINTS_EARNED t else CUSTOMER_LOYALTY_POINTS_REVERSED t)
         (recalculateCustomerTierWithinTransaction collate customerId (la_qualifying a') db3)"
proof (cases "find_tx_by_key (''manual_adj:'' @ customerId @ '':'' @ raw_key ids header (ma_idempotencyKey dto)) db")
  case (Some u)
  from assms [unfolded adjustPoints_def Let_def Some] show thesis using replay by (auto simp: ok_simps)
next
  case None
  note run = assms [unfolded adjustPoints_def Let_def None option.case]
  from run obtain a db1 where a: "ensureAccountInTx ids customerId db = Inr (a, db1)" by (auto simp: ok_simps)
  from run show thesis unfolding a by (auto simp: ok_simps intro!: adjusted [OF a])
qed

lemma adjusted_account_fields [simp]:
  "la_id (adjusted_account d a) = la_id a" "la_customerId (adjusted_account d a) = la_customerId a" "la_held (adjusted_account d a) = la_held a"
  "la_posted (adjusted_account d a) = la_posted a + d"
  by (simp_all add: adjusted_account_def Let_def)

lemma adjustPoints_ok:
  assumes "loyalty_ok db" "adjustPoints collate ids customerId actorId header dto db = Inr ((t, a', replayed), db')"
  shows "loyalty_ok db'" "ld_projections db' = ld_projections db" "\<exists>ts. ld_txs db' = ld_txs db @ ts \<and> (\<forall>u \<in> set ts. lt_type u = MANUAL_ADJUSTMENT)"
proof -
  have "loyalty_ok db' \<and> ld_projections db' = ld_projections db \<and> (\<exists>ts. ld_txs db' = ld_txs db @ ts \<and> (\<forall>u \<in> set ts. lt_type u = MANUAL_ADJUSTMENT))"
    using assms(2)
  proof (cases rule: adjustPoints_shape)
    case replay
    then show ?thesis using ensureAccount_ok [OF assms(1) replay(1)] by simp
  next
    case (adjusted a db1 db2 db3 d)
    note acc = ensureAccount_ok [OF assms(1) adjusted(1)]
    note line = post_line_ok [OF acc(1,2) adjusted(4,5)]
    have "loyalty_ok db3" "ld_txs db3 = ld_txs db1 @ [t]" "ld_projections db3 = ld_projections db1" using adjusted line by simp_all
    then show ?thesis using adjusted acc tier_ok by simp
  qed
  then show "loyalty_ok db'" "ld_projections db' = ld_projections db"
    "\<exists>ts. ld_txs db' = ld_txs db @ ts \<and> (\<forall>u \<in> set ts. lt_type u = MANUAL_ADJUSTMENT)" by blast+
qed


section \<open>Points of orders\<close>

text \<open>
  What is recorded of an order: the points taken back are the share of the earned points that the refunds so far make of
  the amount that earned them, and the purchase row agrees with the ledger.
\<close>

definition order_points_ok :: "string \<Rightarrow> LoyaltyDb \<Rightarrow> bool" where
  "order_points_ok oid db \<longleftrightarrow>
     (\<forall>p. map_get (ld_projections db) oid = Some p \<longrightarrow>
        0 \<le> pp_returnedAmount p \<and> pp_returnedAmount p \<le> max_safe \<and> pp_reversedPoints p = reversed_total oid db) \<and>
     (case find_earn oid db of
        None \<Rightarrow> reversed_total oid db = 0
      | Some e \<Rightarrow> lt_idempotencyKey e = ''earn:order:'' @ oid \<and> 0 < lt_pointsDelta e \<and> lt_pointsDelta e \<le> max_safe \<and>
          (\<exists>p spend. map_get (ld_projections db) oid = Some p \<and> lt_eligibleSpendAmount e = Some spend \<and> 0 < spend \<and> spend \<le> max_safe \<and>
             reversed_total oid db = reversal_target (lt_pointsDelta e) spend (pp_returnedAmount p)))"

definition books_ok :: "LoyaltyDb \<Rightarrow> bool" where
  "books_ok db \<longleftrightarrow> loyalty_ok db \<and> (\<forall>oid. order_points_ok oid db)"

lemma books_okI:
  assumes "loyalty_ok db" "order_points_ok k db" "\<And>oid. oid \<noteq> k \<Longrightarrow> order_points_ok oid db"
  shows "books_ok db"
  unfolding books_ok_def
proof (intro conjI allI)
  show "order_points_ok oid db" for oid using assms(2,3) by (cases "oid = k") simp_all
qed (rule assms(1))

lemma find_earn_append:
  "ld_txs db' = ld_txs db @ ts \<Longrightarrow>
   find_earn oid db' = (case find_earn oid db of None \<Rightarrow> find (\<lambda>t. lt_orderId t = Some oid \<and> lt_type t = EARN) ts | Some e \<Rightarrow> Some e)"
  by (simp add: find_earn_def find_append)

lemma reversed_append:
  "ld_txs db' = ld_txs db @ ts \<Longrightarrow> reversed_total oid db' = reversed_total oid db +
     sum_list (map (\<lambda>t. \<bar>lt_pointsDelta t\<bar>) (filter (\<lambda>t. lt_orderId t = Some oid \<and> lt_type t = EARN_REVERSAL) ts))"
  by (simp add: reversed_total_def)

lemma order_points_ok_other:
  assumes "map_get (ld_projections db') oid = map_get (ld_projections db) oid" "ld_txs db' = ld_txs db @ ts"
    and "\<forall>t \<in> set ts. lt_orderId t = Some oid \<longrightarrow> lt_type t \<noteq> EARN \<and> lt_type t \<noteq> EARN_REVERSAL"
  shows "order_points_ok oid db' = order_points_ok oid db"
proof -
  have "find (\<lambda>t. lt_orderId t = Some oid \<and> lt_type t = EARN) ts = None"
    using assms(3) by (auto simp: find_None_iff)
  then have "find_earn oid db' = find_earn oid db" using find_earn_append [OF assms(2)] by (simp split: option.splits)
  moreover have "filter (\<lambda>t. lt_orderId t = Some oid \<and> lt_type t = EARN_REVERSAL) ts = []"
    using assms(3) by (auto simp: filter_empty_conv)
  then have "reversed_total oid db' = reversed_total oid db" using reversed_append [OF assms(2)] by simp
  ultimately show ?thesis using assms(1) by (simp only: order_points_ok_def)
qed

lemma books_ok_other:
  assumes "books_ok db" "loyalty_ok db'" "ld_projections db' = ld_projections db" "ld_txs db' = ld_txs db @ ts"
    and "\<forall>t \<in> set ts. lt_type t \<noteq> EARN \<and> lt_type t \<noteq> EARN_REVERSAL"
  shows "books_ok db'"
  using assms order_points_ok_other [OF _ assms(4)] by (simp add: books_ok_def)

lemma order_points_ok_unearned:
  assumes "order_points_ok oid db" "find_tx_by_key (''earn:order:'' @ oid) db = None"
  shows "find_earn oid db = None"
proof (cases "find_earn oid db")
  case (Some e)
  then have "lt_idempotencyKey e = ''earn:order:'' @ oid" using assms(1) by (simp add: order_points_ok_def)
  moreover have "e \<in> set (ld_txs db)" using Some by (auto simp: find_earn_def dest: find_SomeD)
  ultimately show ?thesis using assms(2) by (auto simp: find_tx_by_key_def find_None_iff)
qed

text \<open>The steps of a completed order.\<close>

lemma tx_fields [simp]:
  "lt_accountId (earn_tx ids sale r a) = la_id a" "lt_pointsDelta (earn_tx ids sale r a) = er_earnedPoints r"
  "lt_type (earn_tx ids sale r a) = EARN" "lt_orderId (earn_tx ids sale r a) = Some (cs_orderId sale)"
  "lt_accountId (deferred_tx ids sale r n a) = la_id a" "lt_pointsDelta (deferred_tx ids sale r n a) = - n"
  "lt_type (deferred_tx ids sale r n a) = EARN_REVERSAL" "lt_orderId (deferred_tx ids sale r n a) = Some (cs_orderId sale)"
  "lt_accountId (return_tx ids ret e c n a) = la_id a" "lt_pointsDelta (return_tx ids ret e c n a) = - n"
  "lt_type (return_tx ids ret e c n a) = EARN_REVERSAL" "lt_orderId (return_tx ids ret e c n a) = Some (cr_orderId ret)"
  "lt_eligibleSpendAmount (earn_tx ids sale r a) = Some (er_eligibleSpendVnd r)"
  by (simp_all add: earn_tx_def deferred_tx_def return_tx_def)

lemma earn_key: "lt_idempotencyKey (earn_tx ids sale r a) = ''earn:order:'' @ cs_orderId sale"
  by (simp add: earn_tx_def)

lemma wallet_fields [simp]:
  "la_id (credit_points n a) = la_id a" "la_customerId (credit_points n a) = la_customerId a" "la_held (credit_points n a) = la_held a"
  "la_posted (credit_points n a) = la_posted a + n"
  "la_id (claw_back n a) = la_id a" "la_customerId (claw_back n a) = la_customerId a" "la_held (claw_back n a) = la_held a"
  "la_posted (claw_back n a) = la_posted a - n"
  by (simp_all add: credit_points_def claw_back_def)

lemma award_ok:
  assumes "loyalty_ok db" "map_get (ld_accounts db) c = Some a" "award_points ids sale r a db = Inr (a', db')"
  shows "loyalty_ok db'" "map_get (ld_accounts db') c = Some a'" "ld_projections db' = ld_projections db"
    "ld_txs db' = ld_txs db @ (if er_earnedPoints r > 0 then [earn_tx ids sale r a] else [])"
proof -
  have "loyalty_ok db' \<and> map_get (ld_accounts db') c = Some a' \<and> ld_projections db' = ld_projections db \<and>
    ld_txs db' = ld_txs db @ (if er_earnedPoints r > 0 then [earn_tx ids sale r a] else [])"
  proof (cases "er_earnedPoints r > 0")
    case True
    with assms(3) obtain db1 db2 where run: "save_account a' db = Inr db1" "insert_tx (earn_tx ids sale r a) db1 = Inr db2"
        "a' = credit_points (er_earnedPoints r) a" "db' = emit (CUSTOMER_LOYALTY_POINTS_EARNED (earn_tx ids sale r a)) db2"
      by (auto simp: award_points_def Let_def ok_simps)
    show ?thesis using post_line_ok [OF assms(1,2) run(1,2)] run(3,4) True by simp
  next
    case False
    then show ?thesis using assms by (simp add: award_points_def)
  qed
  then show "loyalty_ok db'" "map_get (ld_accounts db') c = Some a'" "ld_projections db' = ld_projections db"
    "ld_txs db' = ld_txs db @ (if er_earnedPoints r > 0 then [earn_tx ids sale r a] else [])" by blast+
qed

text \<open>What a completed order takes back at once for the returns that came first.\<close>

definition deferred_points :: "EarnResult \<Rightarrow> int \<Rightarrow> int" where
  "deferred_points r returned =
    (if er_earnedPoints r > 0 then reversal_target (er_earnedPoints r) (er_eligibleSpendVnd r) returned else 0)"

lemma deferred_calc:
  assumes "0 < er_earnedPoints r" "er_earnedPoints r \<le> max_safe" "0 < er_eligibleSpendVnd r" "er_eligibleSpendVnd r \<le> max_safe"
    and "0 \<le> returned" "returned \<le> max_safe"
  shows "calculateReturnPointReversal \<lparr>rv_originalEarnedPoints = er_earnedPoints r, rv_alreadyReversedPoints = 0,
      rv_originalEligibleSpendVnd = er_eligibleSpendVnd r, rv_returnRefundAmountVnd = returned, rv_cumulativeRefundedAmountVnd = Some returned\<rparr> =
    Inr (deferred_points r returned, er_earnedPoints r - deferred_points r returned)"
proof -
  have "reversal_target (er_earnedPoints r) (er_eligibleSpendVnd r) 0 = 0" using assms(3) by (simp add: reversal_target_def)
  then show ?thesis using reversal_step [OF assms(1-4), of 0 returned] assms by (simp add: deferred_points_def)
qed

lemma deferred_ok:
  assumes "loyalty_ok db" "map_get (ld_accounts db) c = Some a" "deferred_reversal ids sale r returned p a db = Inr (p', a', db')"
    and "er_earnedPoints r > 0 \<longrightarrow> 0 < er_eligibleSpendVnd r" "er_earnedPoints r \<le> max_safe" "er_eligibleSpendVnd r \<le> max_safe"
    and "0 \<le> returned" "returned \<le> max_safe" "pp_reversedPoints p = 0"
  shows "loyalty_ok db' \<and> ld_projections db' = ld_projections db \<and> p' = p\<lparr>pp_reversedPoints := deferred_points r returned\<rparr> \<and>
    ld_txs db' = ld_txs db @ (if 0 < deferred_points r returned then [deferred_tx ids sale r (deferred_points r returned) a] else [])"
proof -
  let ?n = "deferred_points r returned"
  have n: "0 \<le> ?n" "returned = 0 \<longrightarrow> ?n = 0"
    using assms(4,7) by (auto simp: deferred_points_def reversal_target_def pos_imp_zdiv_nonneg_iff)
  have none: "p\<lparr>pp_reversedPoints := 0\<rparr> = p" using assms(9) by simp
  show ?thesis
  proof (cases "0 < ?n")
    case True
    then have pos: "0 < er_earnedPoints r" by (simp add: deferred_points_def split: if_splits)
    have ret: "0 < returned" using True n(2) assms(7) by (cases "returned = 0") simp_all
    note calc = deferred_calc [OF pos assms(5) _ assms(6-8)]
    from assms(3,4,7-9) True pos ret obtain db1 db2 where run: "save_account a' db = Inr db1" "insert_tx (deferred_tx ids sale r ?n a) db1 = Inr db2"
        "a' = claw_back ?n a" "p' = p\<lparr>pp_reversedPoints := ?n\<rparr>" "db' = emit (CUSTOMER_LOYALTY_POINTS_REVERSED (deferred_tx ids sale r ?n a)) db2"
      by (auto simp: deferred_reversal_def Let_def ok_simps calc)
    show ?thesis using post_line_ok [OF assms(1,2) run(1,2)] run True by simp
  next
    case False
    then have zero: "?n = 0" using n(1) by simp
    have "p' = p \<and> db' = db"
      using assms(3-9) deferred_calc [of r returned] zero by (auto simp: deferred_reversal_def ok_simps split: if_splits)
    then show ?thesis using assms(1) zero none by simp
  qed
qed

lemma sale_shape:
  assumes "processCompletedSale collate ids now sale db = Inr ((n, replayed), db')"
  obtains (kept) "db' = db" "replayed \<or> n = 0"
  | (posted) settings db1 a db2 r a1 db3 p a2 db4 where "find_tx_by_key (''earn:order:'' @ cs_orderId sale) db = None"
      "getOrCreateSettingsInTx db = (settings, db1)" "ensureAccountInTx ids (cs_customerId sale) db1 = Inr (a, db2)"
      "calculateEarnedPoints (num_arg (cs_eligibleNetSpendVnd sale)) settings = Inr r"
      "award_points ids sale r a db2 = Inr (a1, db3)"
      "deferred_reversal ids sale r (case map_get (ld_projections db2) (cs_orderId sale) of None \<Rightarrow> 0 | Some p \<Rightarrow> pp_returnedAmount p)
         (completed_projection now sale r (map_get (ld_projections db2) (cs_orderId sale))) a1 db3 = Inr (p, a2, db4)"
      "db' = recalculateCustomerTierWithinTransaction collate (cs_customerId sale) (la_qualifying a2)
         (db4\<lparr>ld_projections := map_set (cs_orderId sale) p (ld_projections db4)\<rparr>)" "n = er_earnedPoints r" "is_ok (find_customer (cs_customerId sale) db)"
proof (cases "\<not> is_ok (find_customer (cs_customerId sale) db) \<or> find_tx_by_key (''earn:order:'' @ cs_orderId sale) db \<noteq> None")
  case True
  then show thesis using assms [unfolded processCompletedSale_def] kept by (auto split: if_splits)
next
  case False
  then have none: "find_tx_by_key (''earn:order:'' @ cs_orderId sale) db = None" and cust: "is_ok (find_customer (cs_customerId sale) db)" by simp_all
  obtain settings db1 where s: "getOrCreateSettingsInTx db = (settings, db1)" by fastforce
  note run = assms [unfolded processCompletedSale_def none s option.case prod.case Let_def]
  from run cust show thesis by (auto simp: ok_simps dest!: save_projection_Inr intro!: posted [OF none s])
qed

lemma completed_projection_fields [simp]:
  "pp_returnedAmount (completed_projection now sale r old) = (case old of None \<Rightarrow> 0 | Some p \<Rightarrow> pp_returnedAmount p)"
  "pp_reversedPoints (completed_projection now sale r old) = (case old of None \<Rightarrow> 0 | Some p \<Rightarrow> pp_reversedPoints p)"
  by (simp_all add: completed_projection_def split: option.splits)

text \<open>The lines a completed order adds make its record right.\<close>

lemma order_earned:
  assumes "order_points_ok oid db" "find_earn oid db = None" "oid = cs_orderId sale"
    and "ld_txs db' = ld_txs db @ (if er_earnedPoints r > 0 then [earn_tx ids sale r a] else []) @
      (if 0 < deferred_points r returned then [deferred_tx ids sale r (deferred_points r returned) a1] else [])"
    and "map_get (ld_projections db') oid = Some p" "pp_returnedAmount p = returned" "pp_reversedPoints p = deferred_points r returned"
    and "er_earnedPoints r > 0 \<longrightarrow> 0 < er_eligibleSpendVnd r" "0 \<le> er_earnedPoints r" "er_earnedPoints r \<le> max_safe" "er_eligibleSpendVnd r \<le> max_safe"
    and "0 \<le> returned" "returned \<le> max_safe"
  shows "order_points_ok oid db'"
proof -
  have before: "reversed_total oid db = 0" using assms(1,2) by (simp add: order_points_ok_def)
  have pos: "0 \<le> deferred_points r returned"
    using assms(8,12) by (auto simp: deferred_points_def reversal_target_def pos_imp_zdiv_nonneg_iff)
  have after: "reversed_total oid db' = deferred_points r returned"
    using reversed_append [OF assms(4), of oid] before pos assms(3) by simp
  have earn: "find_earn oid db' = (if er_earnedPoints r > 0 then Some (earn_tx ids sale r a) else None)"
    using find_earn_append [OF assms(4), of oid] assms(2,3) by simp
  show ?thesis
  proof (cases "er_earnedPoints r > 0")
    case True
    then show ?thesis using assms after earn earn_key by (simp add: order_points_ok_def deferred_points_def)
  next
    case False
    then show ?thesis using assms after earn by (simp add: order_points_ok_def deferred_points_def)
  qed
qed

lemma sale_ok:
  assumes "books_ok db" "processCompletedSale collate ids now sale db = Inr ((n, replayed), db')"
  shows "books_ok db'"
  using assms(2)
proof (cases rule: sale_shape)
  case (posted settings db1 a db2 r a1 db3 p a2 db4)
  let ?oid = "cs_orderId sale"
  let ?old = "map_get (ld_projections db) ?oid"
  let ?returned = "case ?old of None \<Rightarrow> 0 | Some p \<Rightarrow> pp_returnedAmount p"
  note s = settings_fields [OF posted(2)]
  have "loyalty_ok db1" using assms(1) settings_ok [OF posted(2)] by (simp add: books_ok_def)
  note acc = ensureAccount_ok [OF this posted(3)]
  note aw = award_ok [OF acc(1,2) posted(5)]
  note calc = calculateEarnedPoints_sound [OF posted(4)]
  have spend: "er_earnedPoints r > 0 \<longrightarrow> 0 < er_eligibleSpendVnd r" using calc(2,4) by (cases "er_eligibleSpendVnd r = 0") auto
  have o_ok: "order_points_ok ?oid db" using assms(1) by (simp add: books_ok_def)
  have unearned: "find_earn ?oid db = None" using o_ok posted(1) by (rule order_points_ok_unearned)
  have ret: "0 \<le> ?returned" "?returned \<le> max_safe" and none: "pp_reversedPoints (completed_projection now sale r ?old) = 0"
    using o_ok unearned by (auto simp: order_points_ok_def max_safe_def split: option.splits)
  have proj: "ld_projections db2 = ld_projections db" using acc(5) s(4) by simp
  note def = deferred_ok [OF aw(1,2) posted(6) [unfolded proj] spend calc(7,6) ret none]
  have txs: "ld_txs db' = ld_txs db @ (if er_earnedPoints r > 0 then [earn_tx ids sale r a] else []) @
      (if 0 < deferred_points r ?returned then [deferred_tx ids sale r (deferred_points r ?returned) a1] else [])"
    using def aw(4) acc(4) s(3) posted(7) by simp
  have projections: "ld_projections db' = map_set ?oid p (ld_projections db)" using def aw(3) proj posted(7) by simp
  have here: "order_points_ok ?oid db'"
    by (rule order_earned [OF o_ok unearned refl txs _ _ _ spend calc(5,7,6) ret, where p = p]) (use projections def in simp_all)
  have others: "order_points_ok oid db'" if "oid \<noteq> ?oid" for oid
    using that projections assms(1) by (subst order_points_ok_other [OF _ txs]) (auto simp: books_ok_def)
  have "loyalty_ok db'" using def posted(7) tier_ok loyalty_ok_cong [of "db4\<lparr>ld_projections := map_set ?oid p (ld_projections db4)\<rparr>" db4] by simp
  then show ?thesis using here others by (rule books_okI)
qed (use assms(1) in simp)

text \<open>The steps of a completed return.\<close>

lemma return_shape:
  assumes "processCompletedReturn collate ids now ret db = Inr ((n, replayed), db')"
  obtains (kept) "db' = db"
  | (recorded) p where "find_earn (cr_orderId ret) db = None \<or> map_get (ld_projections db) (cr_orderId ret) = None"
      "db' = db\<lparr>ld_projections := map_set (cr_orderId ret) p (ld_projections db)\<rparr>" "0 \<le> pp_returnedAmount p" "pp_returnedAmount p \<le> max_safe"
      "pp_reversedPoints p = (case map_get (ld_projections db) (cr_orderId ret) of None \<Rightarrow> 0 | Some p \<Rightarrow> pp_reversedPoints p)"
  | (reversed) p refund earn m rest db1 where "map_get (ld_projections db) (cr_orderId ret) = Some p" "find_earn (cr_orderId ret) db = Some earn"
      "0 \<le> refund" "pp_returnedAmount p + refund \<le> max_safe"
      "calculateReturnPointReversal \<lparr>rv_originalEarnedPoints = lt_pointsDelta earn, rv_alreadyReversedPoints = reversed_total (cr_orderId ret) db,
         rv_originalEligibleSpendVnd = (case lt_eligibleSpendAmount earn of Some s \<Rightarrow> s | None \<Rightarrow> pp_eligibleNetSpend p),
         rv_returnRefundAmountVnd = refund, rv_cumulativeRefundedAmountVnd = Some (pp_returnedAmount p + refund)\<rparr> = Inr (m, rest)"
      "db1 = db\<lparr>ld_projections := map_set (cr_orderId ret) (p\<lparr>pp_returnedAmount := pp_returnedAmount p + refund,
         pp_lastEventId := Some (''return:'' @ cr_returnId ret), pp_reversedPoints := reversed_total (cr_orderId ret) db + m\<rparr>) (ld_projections db)\<rparr>"
      "m \<le> 0 \<and> db' = db1 \<or> (\<exists>a db2 db3 db4. 0 < m \<and> ensureAccountInTx ids (pp_customerId p) db1 = Inr (a, db2) \<and>
         save_account (claw_back m a) db2 = Inr db3 \<and> insert_tx (return_tx ids ret earn (pp_customerId p) m a) db3 = Inr db4 \<and>
         db' = emit (CUSTOMER_LOYALTY_POINTS_REVERSED (return_tx ids ret earn (pp_customerId p) m a))
           (recalculateCustomerTierWithinTransaction collate (pp_customerId p) (la_qualifying (claw_back m a)) db4))"
proof (cases "find_tx_by_key (''earn_reversal:return:'' @ cr_returnId ret) db")
  case (Some t)
  then show thesis using assms [unfolded processCompletedReturn_def Some] kept by simp
next
  case None
  note run = assms [unfolded processCompletedReturn_def None option.case]
  obtain refund where refund: "parseVndBigInt (cr_refundAmountVnd ret) True = Inr refund" using run by (auto simp: ok_simps)
  then have pos: "0 \<le> refund" by (rule parse_nonneg)
  note run1 = run [unfolded refund ebind_Inr]
  show thesis
  proof (cases "map_get (ld_projections db) (cr_orderId ret)")
    case None
    show thesis
    proof (cases "truthy (cr_customerId ret)")
      case True
      from run1 [unfolded None option.case] True pos show thesis
        by (auto simp: ok_simps pending_projection_def None dest!: save_projection_Inr intro!: recorded)
    next
      case False
      with run1 [unfolded None option.case] show thesis using kept by simp
    qed
  next
    case (Some p)
    note run2 = run1 [unfolded Some option.case]
    show thesis
    proof (cases "pp_lastEventId p = Some (''return:'' @ cr_returnId ret)")
      case True
      then show thesis using run2 kept by simp
    next
      case False
      show thesis
      proof (cases "find_earn (cr_orderId ret) db")
        case None
        from run2 [unfolded None option.case] False pos show thesis
          by (auto simp: ok_simps Let_def None Some dest!: save_projection_Inr intro!: recorded)
      next
        case (Some earn)
        note run3 = run2 [unfolded Some option.case Let_def]
        from run3 False obtain m rest where m: "pp_returnedAmount p + refund \<le> max_safe" "calculateReturnPointReversal \<lparr>rv_originalEarnedPoints = lt_pointsDelta earn,
            rv_alreadyReversedPoints = reversed_total (cr_orderId ret) db,
            rv_originalEligibleSpendVnd = (case lt_eligibleSpendAmount earn of Some s \<Rightarrow> s | None \<Rightarrow> pp_eligibleNetSpend p),
            rv_returnRefundAmountVnd = refund, rv_cumulativeRefundedAmountVnd = Some (pp_returnedAmount p + refund)\<rparr> = Inr (m, rest)"
          by (auto simp: ok_simps cong: option.case_cong)
        from run3 False m(2) show thesis
          by (cases "m \<le> 0") (auto simp: ok_simps cong: option.case_cong dest!: save_projection_Inr intro!: reversed [OF \<open>map_get (ld_projections db) (cr_orderId ret) = Some p\<close> Some pos m refl])
      qed
    qed
  qed
qed

lemma order_reversed:
  assumes "order_points_ok oid db" "find_earn oid db = Some earn" "map_get (ld_projections db) oid = Some p" "0 \<le> refund" "pp_returnedAmount p + refund \<le> max_safe"
    and "calculateReturnPointReversal \<lparr>rv_originalEarnedPoints = lt_pointsDelta earn, rv_alreadyReversedPoints = reversed_total oid db,
         rv_originalEligibleSpendVnd = (case lt_eligibleSpendAmount earn of Some s \<Rightarrow> s | None \<Rightarrow> pp_eligibleNetSpend p),
         rv_returnRefundAmountVnd = refund, rv_cumulativeRefundedAmountVnd = Some (pp_returnedAmount p + refund)\<rparr> = Inr (m, rest)"
  shows "0 \<le> m"
    "reversed_total oid db + m = reversal_target (lt_pointsDelta earn) (the (lt_eligibleSpendAmount earn)) (pp_returnedAmount p + refund)"
proof -
  from assms(1-3) obtain spend where e: "0 < lt_pointsDelta earn" "lt_pointsDelta earn \<le> max_safe" "lt_eligibleSpendAmount earn = Some spend"
      "0 < spend" "spend \<le> max_safe" "0 \<le> pp_returnedAmount p" "reversed_total oid db = reversal_target (lt_pointsDelta earn) spend (pp_returnedAmount p)"
    by (auto simp: order_points_ok_def)
  let ?t = "reversal_target (lt_pointsDelta earn) spend"
  have m: "m = ?t (pp_returnedAmount p + refund) - ?t (pp_returnedAmount p)"
    using assms(6) reversal_step [OF e(1,2,4,5,6) assms(4,5)] by (simp add: e(3,7))
  then show "reversed_total oid db + m = reversal_target (lt_pointsDelta earn) (the (lt_eligibleSpendAmount earn)) (pp_returnedAmount p + refund)"
    by (simp add: e(3,7))
  show "0 \<le> m" using m reversal_target_mono [of "lt_pointsDelta earn" spend "pp_returnedAmount p" "pp_returnedAmount p + refund"] e assms(4) by simp
qed

lemma return_lines:
  assumes "loyalty_ok db1" "0 \<le> m" and "m \<le> 0 \<and> db' = db1 \<or> (\<exists>a db2 db3 db4. 0 < m \<and> ensureAccountInTx ids c db1 = Inr (a, db2) \<and>
         save_account (claw_back m a) db2 = Inr db3 \<and> insert_tx (return_tx ids ret earn c m a) db3 = Inr db4 \<and>
         db' = emit (CUSTOMER_LOYALTY_POINTS_REVERSED (return_tx ids ret earn c m a))
           (recalculateCustomerTierWithinTransaction collate c (la_qualifying (claw_back m a)) db4))"
  obtains ts where "loyalty_ok db'" "ld_projections db' = ld_projections db1" "ld_txs db' = ld_txs db1 @ ts"
    "\<forall>t \<in> set ts. lt_orderId t = Some (cr_orderId ret) \<and> lt_type t = EARN_REVERSAL" "sum_list (map (\<lambda>t. \<bar>lt_pointsDelta t\<bar>) ts) = m"
  using assms(3)
proof (elim disjE exE conjE)
  assume "m \<le> 0" "db' = db1"
  then show thesis using that [of "[]"] assms(1,2) by simp
next
  fix a db2 db3 db4
  assume run: "0 < m" "ensureAccountInTx ids c db1 = Inr (a, db2)" "save_account (claw_back m a) db2 = Inr db3"
    "insert_tx (return_tx ids ret earn c m a) db3 = Inr db4"
    and db': "db' = emit (CUSTOMER_LOYALTY_POINTS_REVERSED (return_tx ids ret earn c m a))
       (recalculateCustomerTierWithinTransaction collate c (la_qualifying (claw_back m a)) db4)"
  note acc = ensureAccount_ok [OF assms(1) run(2)]
  note line = post_line_ok [OF acc(1,2) run(3,4)]
  have "loyalty_ok db'" using line(1) db' tier_ok by simp
  moreover have "ld_projections db' = ld_projections db1" "ld_txs db' = ld_txs db1 @ [return_tx ids ret earn c m a]" using line(3,4) acc(4,5) db' by simp_all
  ultimately show thesis using that [of "[return_tx ids ret earn c m a]"] assms(2) by simp
qed

lemma return_ok:
  assumes "books_ok db" "processCompletedReturn collate ids now ret db = Inr ((n, replayed), db')"
  shows "books_ok db'"
  using assms(2)
proof (cases rule: return_shape)
  case (recorded p)
  let ?oid = "cr_orderId ret"
  have o_ok: "order_points_ok ?oid db" "loyalty_ok db" using assms(1) by (simp_all add: books_ok_def)
  have txs: "ld_txs db' = ld_txs db @ []" using recorded(2) by simp
  have unearned: "find_earn ?oid db = None" using o_ok recorded(1) by (auto simp: order_points_ok_def split: option.splits)
  have same: "find_earn ?oid db' = find_earn ?oid db" "reversed_total ?oid db' = reversed_total ?oid db"
    using recorded(2) by (simp_all add: find_earn_def reversed_total_def)
  have here: "order_points_ok ?oid db'"
    using o_ok(1) unearned recorded(2-5) same by (auto simp: order_points_ok_def split: option.splits)
  have others: "order_points_ok oid db'" if "oid \<noteq> ?oid" for oid
    using that recorded(2) assms(1) by (subst order_points_ok_other [OF _ txs]) (auto simp: books_ok_def)
  have "loyalty_ok db'" using o_ok(2) recorded(2) loyalty_ok_cong [of db' db] by simp
  then show ?thesis using here others by (rule books_okI)
next
  case (reversed p refund earn m rest db1)
  let ?oid = "cr_orderId ret"
  have o_ok: "order_points_ok ?oid db" "loyalty_ok db" using assms(1) by (simp_all add: books_ok_def)
  note calc = order_reversed [OF o_ok(1) reversed(2,1,3,4,5)]
  have "loyalty_ok db1" using o_ok(2) reversed(6) loyalty_ok_cong [of db1 db] by simp
  then obtain ts where ts: "loyalty_ok db'" "ld_projections db' = ld_projections db1" "ld_txs db' = ld_txs db1 @ ts"
    "\<forall>t \<in> set ts. lt_orderId t = Some ?oid \<and> lt_type t = EARN_REVERSAL" "sum_list (map (\<lambda>t. \<bar>lt_pointsDelta t\<bar>) ts) = m"
    using return_lines [OF _ calc(1) reversed(7)] by blast
  have txs: "ld_txs db' = ld_txs db @ ts" using ts(3) reversed(6) by simp
  have "filter (\<lambda>t. lt_orderId t = Some ?oid \<and> lt_type t = EARN_REVERSAL) ts = ts" using ts(4) by simp
  then have total': "reversed_total ?oid db' = reversed_total ?oid db + m" using reversed_append [OF txs, of ?oid] ts(5) by simp
  have earn: "find_earn ?oid db' = Some earn" using find_earn_append [OF txs, of ?oid] reversed(2) by simp
  have here: "order_points_ok ?oid db'"
    using o_ok(1) reversed(1-4,6) ts(2) earn total' calc(2) by (auto simp: order_points_ok_def)
  have others: "order_points_ok oid db'" if "oid \<noteq> ?oid" for oid
    using that ts(2,4) reversed(6) assms(1) by (subst order_points_ok_other [OF _ txs]) (auto simp: books_ok_def)
  show ?thesis using ts(1) here others by (rule books_okI)
qed (use assms(1) in simp)

section \<open>The operations as steps\<close>

text \<open>Steps that touch neither the purchase rows nor the earned points.\<close>

definition quiet :: "LoyaltyDb \<Rightarrow> LoyaltyDb \<Rightarrow> bool" where
  "quiet db db' \<longleftrightarrow> ld_projections db' = ld_projections db \<and>
     (\<exists>ts. ld_txs db' = ld_txs db @ ts \<and> (\<forall>t \<in> set ts. lt_type t \<noteq> EARN \<and> lt_type t \<noteq> EARN_REVERSAL))"

lemma quietI:
  assumes "ld_projections db' = ld_projections db" "ld_txs db' = ld_txs db @ ts" "\<forall>t \<in> set ts. lt_type t \<noteq> EARN \<and> lt_type t \<noteq> EARN_REVERSAL"
  shows "quiet db db'"
  using assms by (auto simp: quiet_def)

lemma quiet_same: "ld_projections db' = ld_projections db \<Longrightarrow> ld_txs db' = ld_txs db \<Longrightarrow> quiet db db'"
  by (rule quietI [where ts = "[]"]) simp_all

lemma quiet_trans:
  assumes "quiet a b" "quiet b c"
  shows "quiet a c"
proof -
  obtain s t where "ld_txs b = ld_txs a @ s" "\<forall>u \<in> set s. lt_type u \<noteq> EARN \<and> lt_type u \<noteq> EARN_REVERSAL"
    "ld_txs c = ld_txs b @ t" "\<forall>u \<in> set t. lt_type u \<noteq> EARN \<and> lt_type u \<noteq> EARN_REVERSAL" "ld_projections c = ld_projections a"
    using assms by (auto simp: quiet_def)
  then show ?thesis by (intro quietI [where ts = "s @ t"]) auto
qed

lemma quiet_books: "books_ok db \<Longrightarrow> loyalty_ok db' \<Longrightarrow> quiet db db' \<Longrightarrow> books_ok db'"
  by (auto simp: quiet_def intro: books_ok_other)

lemma ensure_quiet: "loyalty_ok db \<Longrightarrow> ensureAccountInTx ids c db = Inr (a, db') \<Longrightarrow> quiet db db'"
  by (rule quiet_same) (simp_all add: ensureAccount_ok)

lemma settings_quiet: "getOrCreateSettingsInTx db = (s, db') \<Longrightarrow> quiet db db'"
  by (rule quiet_same) (simp_all add: settings_fields)

lemma createHold_tx_quiet:
  assumes "loyalty_ok db" "createHold_tx digest ids now header dto db = Inr ((h, a', replayed), db')"
  shows "quiet db db'"
  using assms(2)
proof (cases rule: createHold_tx_shape)
  case replay
  then show ?thesis using ensure_quiet assms(1) by blast
next
  case (held settings db1 db2 a)
  have "loyalty_ok db1" using settings_ok [OF held(1)] assms(1) by simp
  then have "quiet db db2" using settings_quiet [OF held(1)] ensure_quiet [OF _ held(2)] quiet_trans by blast
  moreover have "quiet db2 db'" using held(12) by (intro quiet_same) simp_all
  ultimately show ?thesis by (rule quiet_trans)
qed

lemma commitHold_quiet:
  assumes "loyalty_ok db" "commitHold ids now i orderId actorId db = Inr ((h', a', replayed), db')"
  shows "quiet db db'"
  using assms
proof (cases rule: commitHold_shape)
  case (committed h a t)
  then show ?thesis by (intro quietI [where ts = "[t]"]) simp_all
qed (simp add: quiet_same)

lemma releaseHold_quiet:
  assumes "loyalty_ok db" "releaseHold ids now i reason db = Inr ((h', a', replayed), db')"
  shows "quiet db db'"
  using assms by (cases rule: releaseHold_shape) (simp_all add: quiet_same)

lemma expireOverdueHolds_quiet:
  assumes "loyalty_ok db" "expireOverdueHolds ids order locked dbNow now limit db = Inr (n, db')"
  shows "quiet db db'"
proof -
  let ?I = "\<lambda>s. loyalty_ok (snd s) \<and> quiet db (snd s)"
  have step: "?I s'" if "?I s" "expire_one ids now i s = Inr s'" for i s s'
  proof -
    obtain m d m' e where s: "s = (m, d)" "s' = (m', e)" by fastforce
    have ok: "loyalty_ok d" "quiet db d" and run: "expire_one ids now i (m, d) = Inr (m', e)" using that s by simp_all
    have "quiet d e" using ok(1) run by (cases rule: expire_one_shape) (simp_all add: quiet_same)
    then show ?thesis using s expire_one_ok [OF ok(1) run] quiet_trans [OF ok(2)] by simp
  qed
  have "?I (n, db')"
    by (rule efold_invariant [where I = ?I, OF assms(2) [unfolded expireOverdueHolds_def] _ step]) (use assms(1) in \<open>simp_all add: quiet_same\<close>)
  then show ?thesis by simp
qed

section \<open>Wallets of customers\<close>

lemma opened_ok:
  assumes "loyalty_ok db" "map_get (ld_accounts db) c = None" "\<forall>r \<in> set (ld_accounts db). la_id (snd r) \<noteq> la_id a"
    and "la_customerId a = c" "la_held a = 0" "ld_accounts db' = map_set c a (ld_accounts db)" "ld_holds db' = ld_holds db"
    and "ld_txs db' = ld_txs db @ ts" "\<forall>t \<in> set ts. lt_accountId t = la_id a" "la_posted a = sum_list (map lt_pointsDelta ts)"
  shows "loyalty_ok db'"
proof -
  let ?p = "db\<lparr>ld_accounts := map_set c (new_loyalty_account (la_id a) c) (ld_accounts db)\<rparr>"
  have "loyalty_ok ?p" by (rule loyalty_ok_new_account [OF assms(1-3)])
  then show ?thesis
    by (rule wallet_change [where c = c and a = "new_loyalty_account (la_id a) c" and a' = a and h = None and ts = ts])
      (use assms(4-10) in \<open>simp_all add: new_loyalty_account_def put_hold_def old_hold_def hold_part_def\<close>)
qed

lemma account_saved_ok:
  assumes "loyalty_ok db" "map_get (ld_accounts db) c = Some a" "save_account a' db = Inr db'"
    and "la_id a' = la_id a" "la_customerId a' = la_customerId a" "la_held a' = la_held a" "la_posted a' = la_posted a"
  shows "loyalty_ok db'"
proof -
  have "la_customerId a = c" using loyalty_okD(3) [OF assms(1,2)] by simp
  then show ?thesis
    by (intro wallet_change [OF assms(1,2,4), where h = None and ts = "[]"])
      (use save_account_Inr [OF assms(3)] assms(5-7) in \<open>simp_all add: put_hold_def old_hold_def hold_part_def\<close>)
qed

lemma insert_account_Inr:
  assumes "insert_account a db = Inr db'"
  shows "db' = db\<lparr>ld_accounts := map_set (la_customerId a) a (ld_accounts db)\<rparr>" "map_get (ld_accounts db) (la_customerId a) = None"
    "\<forall>r \<in> set (ld_accounts db). la_id (snd r) \<noteq> la_id a"
  using assms by (auto simp: insert_account_def ok_simps list_ex_iff dest: save_account_Inr)

lemma initial_tx_fields [simp]:
  "lt_accountId (initial_tx ids u c n) = new_account ids" "lt_pointsDelta (initial_tx ids u c n) = n" "lt_type (initial_tx ids u c n) = MANUAL_ADJUSTMENT"
  by (simp_all add: initial_tx_def)

lemma open_wallet_ok:
  assumes "loyalty_ok db" "open_wallet ids u c n tier db = Inr db'" "0 \<le> n"
  shows "loyalty_ok db'" "quiet db db'"
proof -
  let ?a = "(new_loyalty_account (new_account ids) c)\<lparr>la_posted := n, la_lifetimeEarned := n, la_qualifying := n, la_tierId := tier\<rparr>"
  let ?ts = "if n > 0 then [initial_tx ids u c n] else []"
  obtain db1 where run: "insert_account ?a db = Inr db1" using assms(2) by (auto simp: open_wallet_def Let_def ok_simps)
  note ins = insert_account_Inr [OF run]
  have db': "ld_accounts db' = ld_accounts db1" "ld_holds db' = ld_holds db" "ld_txs db' = ld_txs db @ ?ts" "ld_projections db' = ld_projections db"
    using assms(2) ins(1) by (auto simp: open_wallet_def Let_def run ok_simps dest!: insert_tx_Inr(1) split: if_splits)
  show "loyalty_ok db'"
    by (rule opened_ok [OF assms(1) _ _ _ _ _ db'(2,3), where c = c and a = ?a])
      (use ins db'(1) assms(3) in \<open>auto simp: new_loyalty_account_def\<close>)
  show "quiet db db'" by (rule quietI [OF db'(4,3)]) simp
qed

lemma wallet_tier_ok:
  assumes "loyalty_ok db" "wallet_tier c tier db = Inr db'"
  shows "loyalty_ok db'" "quiet db db'"
proof -
  have "loyalty_ok db' \<and> quiet db db'"
  proof (cases "map_get (ld_accounts db) c")
    case (Some a)
    then show ?thesis using assms account_saved_ok [OF assms(1) Some]
      by (auto simp: wallet_tier_def quiet_same dest: save_account_Inr split: if_splits)
  qed (use assms in \<open>simp add: wallet_tier_def quiet_same\<close>)
  then show "loyalty_ok db'" "quiet db db'" by blast+
qed

lemma close_wallet_ok:
  assumes "loyalty_ok db" "close_wallet c db = Inr db'"
  shows "loyalty_ok db'" "quiet db db'"
proof -
  have "loyalty_ok db' \<and> quiet db db'"
  proof (cases "map_get (ld_accounts db) c")
    case (Some a)
    then show ?thesis using assms account_saved_ok [OF assms(1) Some]
      by (auto simp: close_wallet_def ok_simps quiet_same dest: save_account_Inr)
  qed (use assms in \<open>auto simp: close_wallet_def ok_simps quiet_same\<close>)
  then show "loyalty_ok db'" "quiet db db'" by blast+
qed

text \<open>The two wallets of a merge.\<close>

lemma merge_fields [simp]:
  "lt_accountId (merge_out_tx ids key u dto t sa) = la_id sa" "lt_pointsDelta (merge_out_tx ids key u dto t sa) = - la_posted sa"
  "lt_type (merge_out_tx ids key u dto t sa) = MERGE_OUT"
  "lt_accountId (merge_in_tx ids key u dto s sa ta) = la_id ta" "lt_pointsDelta (merge_in_tx ids key u dto s sa ta) = la_posted sa"
  "lt_type (merge_in_tx ids key u dto s sa ta) = MERGE_IN"
  "la_id (source_emptied sa) = la_id sa" "la_customerId (source_emptied sa) = la_customerId sa" "la_held (source_emptied sa) = la_held sa"
  "la_posted (source_emptied sa) = 0"
  "la_id (target_filled sa ta) = la_id ta" "la_customerId (target_filled sa ta) = la_customerId ta" "la_held (target_filled sa ta) = la_held ta"
  "la_posted (target_filled sa ta) = la_posted ta + la_posted sa"
  by (simp_all add: merge_out_tx_def merge_in_tx_def source_emptied_def target_filled_def)

lemma target_wallet_ok:
  assumes "loyalty_ok db" "target_wallet ids c t db = Inr (ta, db')"
  shows "loyalty_ok db' \<and> map_get (ld_accounts db') c = Some ta \<and> ld_txs db' = ld_txs db \<and> ld_projections db' = ld_projections db"
proof (cases "map_get (ld_accounts db) c")
  case None
  let ?a = "(new_loyalty_account (new_account ids) c)\<lparr>la_tierId := cu_membershipTierId t\<rparr>"
  from assms(2) have run: "insert_account ?a db = Inr db'" "ta = ?a" by (auto simp: target_wallet_def None Let_def ok_simps)
  note ins = insert_account_Inr [OF run(1)]
  have c: "la_customerId ?a = c" by (simp add: new_loyalty_account_def)
  have "loyalty_ok db'"
    by (rule opened_ok [OF assms(1) None, where a = ?a and ts = "[]"]) (use ins in \<open>auto simp: new_loyalty_account_def\<close>)
  then show ?thesis using ins(1) run(2) c by simp
next
  case (Some a)
  then show ?thesis using assms by (simp add: target_wallet_def)
qed

lemma move_points_shape:
  assumes "move_points ids key u dto s t ta db = Inr (n, ta', db')"
  obtains (alone) "map_get (ld_accounts db) (mg_sourceCustomerId dto) = None" "ta' = ta" "db' = db"
  | (moved) sa where "map_get (ld_accounts db) (mg_sourceCustomerId dto) = Some sa" "ta' = target_filled sa ta" "n = la_posted sa"
      "db' = db\<lparr>ld_accounts := map_set (la_customerId sa) (source_emptied sa) (ld_accounts db),
         ld_txs := ld_txs db @ (if la_posted sa \<noteq> 0 then [merge_out_tx ids key u dto t sa] else []) @
           (if la_posted sa \<noteq> 0 then [merge_in_tx ids key u dto s sa ta] else [])\<rparr>"
proof (cases "map_get (ld_accounts db) (mg_sourceCustomerId dto)")
  case None
  with assms have "ta' = ta" "db' = db" by (simp_all add: move_points_def)
  then show thesis by (rule alone [OF None])
next
  case (Some sa)
  show thesis
  proof (cases "la_posted sa = 0")
    case True
    with assms show thesis by (auto simp: move_points_def Some ok_simps dest!: save_account_Inr intro!: moved [OF Some])
  next
    case False
    with assms obtain db1 db2 where run: "insert_tx (merge_out_tx ids key u dto t sa) db = Inr db1" "insert_tx (merge_in_tx ids key u dto s sa ta) db1 = Inr db2"
        "save_account (source_emptied sa) db2 = Inr db'" and eq: "n = la_posted sa" "ta' = target_filled sa ta"
      by (auto simp: move_points_def Some ok_simps)
    show thesis
      by (rule moved [OF Some eq(2,1)]) (use False insert_tx_Inr(1) [OF run(1)] insert_tx_Inr(1) [OF run(2)] save_account_Inr [OF run(3)] in simp)
  qed
qed

lemma merge_wallets_ok:
  assumes "loyalty_ok db" "merge_wallets collate ids key u dto s t db = Inr (n, tierId, ta, db')" "mg_sourceCustomerId dto \<noteq> mg_targetCustomerId dto"
  shows "loyalty_ok db'" "quiet db db'"
proof -
  let ?c = "mg_targetCustomerId dto"
  from assms(2) obtain ta0 db1 ta1 db2 where run: "target_wallet ids ?c t db = Inr (ta0, db1)" "move_points ids key u dto s t ta0 db1 = Inr (n, ta1, db2)"
      "save_account ta db2 = Inr db'" "la_id ta = la_id ta1" "la_customerId ta = la_customerId ta1" "la_held ta = la_held ta1" "la_posted ta = la_posted ta1"
    by (auto simp: merge_wallets_def Let_def ok_simps)
  have t0: "loyalty_ok db1" "map_get (ld_accounts db1) ?c = Some ta0" "ld_txs db1 = ld_txs db" "ld_projections db1 = ld_projections db"
    using target_wallet_ok [OF assms(1) run(1)] by auto
  have c: "la_customerId ta0 = ?c" using loyalty_okD(3) [OF t0(1,2)] by simp
  have "loyalty_ok db' \<and> quiet db db'"
    using run(2)
  proof (cases rule: move_points_shape)
    case alone
    have "loyalty_ok db'" by (rule account_saved_ok [OF t0(1,2), where a' = ta]) (use run alone in simp_all)
    then show ?thesis using save_account_Inr [OF run(3)] alone t0(3,4) by (simp add: quiet_same)
  next
    case (moved sa)
    let ?out = "if la_posted sa \<noteq> 0 then [merge_out_tx ids key u dto t sa] else []"
    let ?in = "if la_posted sa \<noteq> 0 then [merge_in_tx ids key u dto s sa ta0] else []"
    let ?s = "mg_sourceCustomerId dto"
    let ?mid = "db1\<lparr>ld_accounts := map_set ?s (source_emptied sa) (ld_accounts db1), ld_txs := ld_txs db1 @ ?out\<rparr>"
    have sc: "la_customerId sa = ?s" using loyalty_okD(3) [OF t0(1) moved(1)] by simp
    have mid: "loyalty_ok ?mid"
      by (rule wallet_change [OF t0(1) moved(1), where a' = "source_emptied sa" and h = None and ts = ?out])
        (use sc in \<open>simp_all add: put_hold_def old_hold_def hold_part_def\<close>)
    have fin: "ld_accounts db' = map_set ?c ta (ld_accounts ?mid)" "ld_txs db' = ld_txs ?mid @ ?in" "ld_holds db' = ld_holds ?mid"
      "ld_projections db' = ld_projections db"
      using save_account_Inr [OF run(3)] run(5) moved(2,4) c sc t0(4) by simp_all
    have tgt: "map_get (ld_accounts ?mid) ?c = Some ta0" using t0(2) assms(3) by simp
    have "loyalty_ok db'"
      by (rule wallet_change [OF mid tgt _ _ fin(1) _ fin(2), where h = None])
        (use run(4-7) moved(2) c fin(3) in \<open>simp_all add: put_hold_def old_hold_def hold_part_def\<close>)
    moreover have "quiet db db'" by (rule quietI [OF fin(4), where ts = "?out @ ?in"]) (use fin(2) t0(3) in auto)
    ultimately show ?thesis by blast
  qed
  then show "loyalty_ok db'" "quiet db db'" by blast+
qed

lemma moved_projection_fields [simp]:
  "pp_returnedAmount (moved_projection sid tid p) = pp_returnedAmount p" "pp_reversedPoints (moved_projection sid tid p) = pp_reversedPoints p"
  by (simp_all add: moved_projection_def)

lemma moved_projection_customer: "sid \<noteq> tid \<Longrightarrow> pp_customerId (moved_projection sid tid p) \<noteq> sid"
  by (simp add: moved_projection_def)

lemma move_projections_get: "map_get (move_projections sid tid m) k = map_option (moved_projection sid tid) (map_get m k)"
  by (simp add: move_projections_def map_get_def map_of_map)

lemma order_points_moved:
  assumes "order_points_ok oid db" "ld_projections db' = move_projections sid tid (ld_projections db)" "ld_txs db' = ld_txs db"
  shows "order_points_ok oid db'"
proof -
  have "find_earn oid db' = find_earn oid db" "reversed_total oid db' = reversed_total oid db"
    using assms(3) by (simp_all add: find_earn_def reversed_total_def)
  then show ?thesis using assms(1,2) by (auto simp: order_points_ok_def move_projections_get split: option.splits)
qed

lemma merge_now_fields:
  assumes "merge_now collate ids key u dto s t db = Inr (m, db')"
  obtains n tierId ta db1 where "merge_wallets collate ids key u dto s t db = Inr (n, tierId, ta, db1)"
    "ld_accounts db' = ld_accounts db1" "ld_holds db' = ld_holds db1" "ld_txs db' = ld_txs db1"
    "ld_projections db' = move_projections (mg_sourceCustomerId dto) (mg_targetCustomerId dto) (ld_projections db1)" "mr_transferredPoints m = n"
proof -
  from assms obtain n tierId ta db1 where run: "merge_wallets collate ids key u dto s t db = Inr (n, tierId, ta, db1)"
    by (auto simp: merge_now_def Let_def ok_simps)
  show thesis
    by (rule that [OF run]) (use assms run in \<open>auto simp: merge_now_def insert_merge_def Let_def ok_simps split: prod.splits\<close>)
qed

lemma merge_books:
  assumes "books_ok db" "mergeCustomers collate pick ids u header dto db = Inr (r, db')"
  shows "books_ok db'"
proof (cases "db' = db")
  case False
  obtain s t m where ne: "mg_sourceCustomerId dto \<noteq> mg_targetCustomerId dto"
    and now: "merge_now collate ids (merge_key header dto) u dto s t db = Inr (m, db')"
    using assms(2) False by (auto simp: mergeCustomers_def Let_def ok_simps split: if_splits option.splits)
  obtain n tierId ta db1 where run: "merge_wallets collate ids (merge_key header dto) u dto s t db = Inr (n, tierId, ta, db1)"
    and db': "ld_accounts db' = ld_accounts db1" "ld_holds db' = ld_holds db1" "ld_txs db' = ld_txs db1"
      "ld_projections db' = move_projections (mg_sourceCustomerId dto) (mg_targetCustomerId dto) (ld_projections db1)"
    using merge_now_fields [OF now] by metis
  have ok: "loyalty_ok db" using assms(1) by (simp add: books_ok_def)
  have "books_ok db1" by (rule quiet_books [OF assms(1) merge_wallets_ok [OF ok run ne]])
  then have "loyalty_ok db'" "order_points_ok oid db'" for oid
    using loyalty_ok_cong [OF db'(1-3)] order_points_moved [OF _ db'(4,3)] by (simp_all add: books_ok_def)
  then show ?thesis by (simp add: books_ok_def)
qed (use assms(1) in simp)

text \<open>
  One operation of the service, of the modules that open, edit, close or merge wallets, or an edit of customers and tiers.
  The number of initial points is validated to be at least zero. A hold request that lost a race has run
  once on an earlier state without effect and is answered from the present one.
\<close>

inductive loyalty_step :: "LoyaltyDb \<Rightarrow> LoyaltyDb \<Rightarrow> bool" where
  customers_edited: "loyalty_step db (db\<lparr>ld_customers := cs, ld_tiers := ts, ld_addresses := as\<rparr>)"
| settings_read: "getOrCreateSettingsInTx db = (s, db') \<Longrightarrow> loyalty_step db db'"
| settings_updated: "updateSettings actorId udto db = Inr (s, db') \<Longrightarrow> loyalty_step db db'"
| account_read: "getLoyaltyAccount ids c db = Inr (r, db') \<Longrightarrow> loyalty_step db db'"
| adjusted: "adjustPoints collate ids c actorId header adto db = Inr (r, db') \<Longrightarrow> loyalty_step db db'"
| hold_created: "createHold digest ids now header hdto before db = Inr (r, db') \<Longrightarrow>
    before = db \<or> \<not> is_ok (createHold_tx digest ids now header hdto before) \<Longrightarrow> loyalty_step db db'"
| hold_read: "getHoldById ids i db = Inr (r, db') \<Longrightarrow> loyalty_step db db'"
| committed: "commitHold ids now i orderId actor db = Inr (r, db') \<Longrightarrow> loyalty_step db db'"
| released: "releaseHold ids now i reason db = Inr (r, db') \<Longrightarrow> loyalty_step db db'"
| expired: "expireOverdueHolds ids order locked dbNow now limit db = Inr (n, db') \<Longrightarrow> loyalty_step db db'"
| reconciled: "reconcileTenantLoyalty ids order locked dbNow now db = Inr (r, db') \<Longrightarrow> loyalty_step db db'"
| order_completed: "onSalesOrderCompleted collate ids now op db = Inr db' \<Longrightarrow> loyalty_step db db'"
| checkout_completed: "onSalesCheckoutCompleted collate ids now cp db = Inr db' \<Longrightarrow> loyalty_step db db'"
| return_completed: "processCompletedReturn collate ids now ret db = Inr (r, db') \<Longrightarrow> loyalty_step db db'"
| wallet_opened: "open_wallet ids u c n tier db = Inr db' \<Longrightarrow> 0 \<le> n \<Longrightarrow> loyalty_step db db'"
| tier_given: "wallet_tier c tier db = Inr db' \<Longrightarrow> loyalty_step db db'"
| wallet_closed: "close_wallet c db = Inr db' \<Longrightarrow> loyalty_step db db'"
| merged: "mergeCustomers collate pickm ids u header mdto db = Inr (mr, db') \<Longrightarrow> loyalty_step db db'"

definition loyalty_empty :: LoyaltyDb where
  "loyalty_empty = \<lparr>ld_settings = None, ld_customers = [], ld_accounts = [], ld_holds = [], ld_txs = [], ld_projections = [], ld_tiers = [],
     ld_addresses = [], ld_merges = [], ld_outbox = []\<rparr>"

inductive loyalty_reach :: "LoyaltyDb \<Rightarrow> bool" where
  loyalty_start: "loyalty_reach loyalty_empty"
| loyalty_next: "loyalty_reach db \<Longrightarrow> loyalty_step db db' \<Longrightarrow> loyalty_reach db'"

lemma createHold_books:
  assumes "books_ok db" "createHold digest ids now header dto before db = Inr (r, db')"
    "before = db \<or> \<not> is_ok (createHold_tx digest ids now header dto before)"
  shows "books_ok db'"
proof -
  have ok: "loyalty_ok db" using assms(1) by (simp add: books_ok_def)
  obtain key caller refType hash where req: "hold_request digest header dto = (key, caller, refType, hash)" by (metis prod_cases4)
  consider "createHold_tx digest ids now header dto db = Inr (r, db')"
    | g :: LoyaltyHold and a where "ensureAccountInTx ids (lh_customerId g) db = Inr (a, db')"
    using assms(2,3) by (auto simp: createHold_def req replay_hold_def ok_simps split: if_splits sum.splits option.splits)
  then show ?thesis
  proof cases
    case 1
    then obtain h a replayed where run: "createHold_tx digest ids now header dto db = Inr ((h, a, replayed), db')" by (metis prod_cases3)
    show ?thesis by (rule quiet_books [OF assms(1) createHold_tx_ok(1) [OF ok run] createHold_tx_quiet [OF ok run]])
  next
    case 2
    then show ?thesis using quiet_books [OF assms(1)] ensureAccount_ok(1) ensure_quiet ok by blast
  qed
qed

lemma adjustPoints_books:
  assumes "books_ok db" "adjustPoints collate ids c actorId header dto db = Inr (r, db')"
  shows "books_ok db'"
proof -
  obtain t a replayed where r: "r = (t, a, replayed)" by (metis prod_cases3)
  have ok: "loyalty_ok db" using assms(1) by (simp add: books_ok_def)
  note adj = adjustPoints_ok [OF ok assms(2) [unfolded r]]
  then show ?thesis by (intro quiet_books [OF assms(1)]) (auto simp: quiet_def)
qed

lemma settings_only_books:
  assumes "books_ok db" "ld_accounts db' = ld_accounts db" "ld_holds db' = ld_holds db" "ld_txs db' = ld_txs db" "ld_projections db' = ld_projections db"
  shows "books_ok db'"
  using assms loyalty_ok_cong [of db' db] by (intro quiet_books [OF assms(1)] quiet_same) (simp_all add: books_ok_def)

lemma updateSettings_fields:
  assumes "updateSettings actorId dto db = Inr (s, db')"
  shows "ld_accounts db' = ld_accounts db" "ld_holds db' = ld_holds db" "ld_txs db' = ld_txs db" "ld_projections db' = ld_projections db"
proof -
  obtain s0 db1 where s: "getOrCreateSettingsInTx db = (s0, db1)" by fastforce
  have "ld_accounts db' = ld_accounts db1 \<and> ld_holds db' = ld_holds db1 \<and> ld_txs db' = ld_txs db1 \<and> ld_projections db' = ld_projections db1"
    using assms by (auto simp: updateSettings_def s ok_simps Let_def)
  then show "ld_accounts db' = ld_accounts db" "ld_holds db' = ld_holds db" "ld_txs db' = ld_txs db" "ld_projections db' = ld_projections db"
    using settings_fields [OF s] by simp_all
qed

lemma onSalesOrderCompleted_sale:
  assumes "onSalesOrderCompleted collate ids now p db = Inr db'"
  obtains "db' = db" | sale n replayed where "processCompletedSale collate ids now sale db = Inr ((n, replayed), db')"
  using assms by (auto simp: onSalesOrderCompleted_def ok_simps Let_def split: if_splits)

lemma onSalesCheckoutCompleted_sale:
  assumes "onSalesCheckoutCompleted collate ids now p db = Inr db'"
  obtains "db' = db" | sale n replayed where "processCompletedSale collate ids now sale db = Inr ((n, replayed), db')"
  using assms by (auto simp: onSalesCheckoutCompleted_def ok_simps Let_def split: if_splits)

lemma loyalty_step_books:
  assumes "loyalty_step db db'" "books_ok db"
  shows "books_ok db'"
proof -
  have ok: "loyalty_ok db" using assms(2) by (simp add: books_ok_def)
  note by_quiet = quiet_books [OF assms(2)]
  from assms(1) show ?thesis
  proof cases
    case (account_read ids c r)
    then obtain a where run: "ensureAccountInTx ids c db = Inr (a, db')" by (auto simp: getLoyaltyAccount_def ok_simps)
    show ?thesis by (rule by_quiet [OF ensureAccount_ok(1) [OF ok run] ensure_quiet [OF ok run]])
  next
    case (hold_read ids i r)
    then obtain c a where run: "ensureAccountInTx ids c db = Inr (a, db')" by (auto simp: getHoldById_def ok_simps)
    show ?thesis by (rule by_quiet [OF ensureAccount_ok(1) [OF ok run] ensure_quiet [OF ok run]])
  next
    case (committed ids now i orderId actor r)
    then obtain h a b where run: "commitHold ids now i orderId actor db = Inr ((h, a, b), db')" by (metis prod_cases3)
    show ?thesis by (rule by_quiet [OF commitHold_ok [OF ok run] commitHold_quiet [OF ok run]])
  next
    case (released ids now i reason r)
    then obtain h a b where run: "releaseHold ids now i reason db = Inr ((h, a, b), db')" by (metis prod_cases3)
    show ?thesis by (rule by_quiet [OF releaseHold_ok [OF ok run] releaseHold_quiet [OF ok run]])
  next
    case (expired ids order locked dbNow now limit n)
    show ?thesis by (rule by_quiet [OF expireOverdueHolds_ok [OF ok expired] expireOverdueHolds_quiet [OF ok expired]])
  next
    case (reconciled ids order locked dbNow now r)
    then obtain n where run: "expireOverdueHolds ids order locked dbNow now 500 db = Inr (n, db')" by (auto simp: reconcileTenantLoyalty_def ok_simps)
    show ?thesis by (rule by_quiet [OF expireOverdueHolds_ok [OF ok run] expireOverdueHolds_quiet [OF ok run]])
  next
    case (order_completed collate ids now p)
    then show ?thesis using assms(2) sale_ok by (elim onSalesOrderCompleted_sale) auto
  next
    case (checkout_completed collate ids now p)
    then show ?thesis using assms(2) sale_ok by (elim onSalesCheckoutCompleted_sale) auto
  next
    case (return_completed collate ids now ret r)
    then show ?thesis using return_ok [OF assms(2)] by (cases r) simp
  next
    case (wallet_opened ids u c n tier)
    show ?thesis by (rule by_quiet [OF open_wallet_ok [OF ok wallet_opened]])
  next
    case (tier_given c tier)
    show ?thesis by (rule by_quiet [OF wallet_tier_ok [OF ok tier_given]])
  next
    case (wallet_closed c)
    show ?thesis by (rule by_quiet [OF close_wallet_ok [OF ok wallet_closed]])
  next
    case (merged collate pickm ids u header mdto mr)
    show ?thesis by (rule merge_books [OF assms(2) merged])
  next
    case (settings_updated actorId dto s)
    show ?thesis by (rule settings_only_books [OF assms(2) updateSettings_fields [OF settings_updated]])
  next
    case (settings_read s)
    show ?thesis by (rule settings_only_books [OF assms(2) settings_fields(1-4) [OF settings_read]])
  next
    case (customers_edited cs ts as)
    show ?thesis by (rule settings_only_books [OF assms(2)]) (simp_all add: customers_edited)
  qed (use adjustPoints_books [OF assms(2)] createHold_books [OF assms(2)] in blast)+
qed

lemma books_empty: "books_ok loyalty_empty"
  by (simp add: books_ok_def loyalty_ok_def order_points_ok_def loyalty_empty_def points_held_def map_get_def find_earn_def reversed_total_def)

lemma loyalty_reach_books: "loyalty_reach db \<Longrightarrow> books_ok db"
  by (induction rule: loyalty_reach.induct) (auto intro: books_empty loyalty_step_books)

lemma loyalty_reach_ok: "loyalty_reach db \<Longrightarrow> loyalty_ok db"
  using loyalty_reach_books by (simp add: books_ok_def)

section \<open>What the tables always satisfy\<close>

lemma held_is_active:
  assumes "loyalty_ok db" "map_get (ld_accounts db) c = Some a"
  shows "la_held a = active_holds_sum (la_id a) db"
proof -
  note inv = loyalty_okD [OF assms(1)]
  have mine: "(lh_customerId h = c) = (lh_accountId h = la_id a)" if h: "(i, h) \<in> set (ld_holds db)" for i h
  proof -
    have "map_get (ld_holds db) i = Some h" using inv(4) h by (simp add: map_get_eq_Some)
    then obtain b where b: "map_get (ld_accounts db) (lh_customerId h) = Some b" "la_id b = lh_accountId h" using inv(5) by blast
    then have "(lh_customerId h, b) \<in> set (ld_accounts db)" "(c, a) \<in> set (ld_accounts db)" using assms(2) by (simp_all add: map_get_in_set)
    then have "la_id b = la_id a \<Longrightarrow> lh_customerId h = c" using inv(2) by (fastforce simp: distinct_map inj_on_def)
    then show ?thesis using b assms(2) by auto
  qed
  have "held_by point_demand c h = (if lh_accountId h = la_id a \<and> lh_state h = LH_HELD then lh_points h else 0)" if "(i, h) \<in> set (ld_holds db)" for i h
    using mine [OF that] by (auto simp: held_by_def point_demand_def)
  then have "map_sum (held_by point_demand c) (ld_holds db) =
      sum_list (map (\<lambda>r. if lh_accountId (snd r) = la_id a \<and> lh_state (snd r) = LH_HELD then lh_points (snd r) else 0) (ld_holds db))"
    unfolding map_sum_def by (intro arg_cong [where f = sum_list] map_cong) auto
  also have "\<dots> = active_holds_sum (la_id a) db" by (simp add: active_holds_sum_def sum_list_map_filter' comp_def)
  finally show ?thesis using inv(6) [of c] assms(2) by (simp add: points_held_def)
qed

lemma no_discrepancies:
  assumes "loyalty_ok db"
  shows "account_discrepancies db = []"
proof -
  have "la_posted a = ledger_sum (la_id a) db \<and> la_held a = active_holds_sum (la_id a) db" if "(c, a) \<in> set (ld_accounts db)" for c a
  proof -
    have get: "map_get (ld_accounts db) c = Some a" using that loyalty_okD(1) [OF assms] by (simp add: map_get_eq_Some)
    then show ?thesis using loyalty_okD(3) [OF assms get] held_is_active [OF assms get] by simp
  qed
  then show ?thesis by (auto simp: account_discrepancies_def filter_empty_conv)
qed








lemma commit_facts:
  assumes "loyalty_ok db" "commitHold ids now i orderId actorId db = Inr ((h', a', False), db')"
  obtains h a where "map_get (ld_holds db) i = Some h" "lh_state h = LH_HELD" "map_get (ld_accounts db) (lh_customerId h) = Some a"
    "la_posted a' = la_posted a - lh_points h" "la_held a' = la_held a - lh_points h" "map_get (ld_holds db') i = Some h'" "lh_state h' = LH_COMMITTED"
    "map_get (ld_accounts db') (lh_customerId h') = Some a'" "now < lh_expiresAt h" "lh_points h' = lh_points h"
  using assms
proof (cases rule: commitHold_shape)
  case (committed h a t)
  have h: "lh_id h' = i" "lh_customerId h' = lh_customerId h" and c: "la_customerId a' = lh_customerId h"
    using loyalty_okD(5) [OF assms(1) committed(1)] committed(5,8) loyalty_okD(3) [OF assms(1) committed(3)] by (simp_all add: closed_version_def unhold_def)
  have "la_held a' = la_held a - lh_points h" using points_covered [OF assms(1) committed(1-3)] committed(8) by (simp add: unhold_def)
  then show thesis
    by (rule that [OF committed(1-3), rotated]) (use committed(4,5,6,8,13) h c in \<open>simp_all add: closed_version_def\<close>)
qed simp

lemma createHold_tx_valid:
  assumes "createHold_tx digest ids now header dto db = Inr ((h, a, False), db')"
  obtains settings db1 and a0 :: LoyaltyAccount and v where "getOrCreateSettingsInTx db = (settings, db1)" "lh_state h = LH_HELD"
    "validatePointRedemption (ch_points dto) (la_posted a0) (la_held a0) settings = Inr v" "lh_points h = rd_requestedPoints v"
    "lh_discountValueVnd h = rd_discountValueVnd v"
proof -
  obtain key caller refType hash where req: "hold_request digest header dto = (key, caller, refType, hash)" by (metis prod_cases4)
  have none: "find_hold_by_key caller key db = None"
    using assms by (auto simp: createHold_tx_def req replay_hold_def ok_simps split: option.splits)
  obtain settings db1 where s: "getOrCreateSettingsInTx db = (settings, db1)" by fastforce
  from assms obtain a0 :: LoyaltyAccount and v where v: "validatePointRedemption (ch_points dto) (la_posted a0) (la_held a0) settings = Inr v"
      "lh_state h = LH_HELD" "lh_points h = int_of_num (ch_points dto)" "lh_discountValueVnd h = rd_discountValueVnd v"
    by (auto simp: createHold_tx_def req none s ok_simps Let_def)
  show thesis by (rule that [OF s v(2,1) _ v(4)]) (use validatePointRedemption_sound(3) [OF v(1)] v(3) in simp)
qed

definition balance_of_wallet :: "string \<Rightarrow> LoyaltyDb \<Rightarrow> int" where
  "balance_of_wallet c db = (case map_get (ld_accounts db) c of None \<Rightarrow> 0 | Some a \<Rightarrow> la_posted a)"

lemma merge_runs:
  assumes "mergeCustomers collate pick ids u header dto db = Inr ((False, Some m), db')"
  obtains s t where "mg_sourceCustomerId dto \<noteq> mg_targetCustomerId dto" "activeHoldsCount (mg_sourceCustomerId dto) db = 0"
    "merge_now collate ids (merge_key header dto) u dto s t db = Inr (m, db')"
  using assms by (auto simp: mergeCustomers_def Let_def ok_simps split: if_splits option.splits)

lemma nothing_held:
  assumes "loyalty_ok db" "activeHoldsCount c db = 0" "map_get (ld_accounts db) c = Some a"
  shows "la_held a = 0"
proof -
  have "held_by point_demand c (snd r) = 0" if "r \<in> set (ld_holds db)" for r
    using that assms(2) by (auto simp: activeHoldsCount_def filter_empty_conv held_by_def point_demand_def)
  then have "map_sum (held_by point_demand c) (ld_holds db) = 0" unfolding map_sum_def by (intro sum_list_all_0) auto
  then show ?thesis using loyalty_okD(6) [OF assms(1), of c] assms(3) by (simp add: points_held_def)
qed

lemma target_wallet_others:
  assumes "target_wallet ids c t db = Inr (ta, db')"
  shows "k \<noteq> c \<Longrightarrow> map_get (ld_accounts db') k = map_get (ld_accounts db) k" "la_posted ta = balance_of_wallet c db"
  using assms
  by (auto simp: target_wallet_def balance_of_wallet_def Let_def ok_simps new_loyalty_account_def dest!: insert_account_Inr(1) split: option.splits)

lemma merge_wallets_accounts:
  assumes "loyalty_ok db" "merge_wallets collate ids key u dto s t db = Inr (n, tierId, ta, db')" "mg_sourceCustomerId dto \<noteq> mg_targetCustomerId dto"
  shows "map_get (ld_accounts db') (mg_targetCustomerId dto) = Some ta \<and>
      la_posted ta = balance_of_wallet (mg_sourceCustomerId dto) db + balance_of_wallet (mg_targetCustomerId dto) db"
    "n = balance_of_wallet (mg_sourceCustomerId dto) db"
    "map_get (ld_accounts db) (mg_sourceCustomerId dto) = None \<Longrightarrow> map_get (ld_accounts db') (mg_sourceCustomerId dto) = None"
    "\<And>a. map_get (ld_accounts db) (mg_sourceCustomerId dto) = Some a \<Longrightarrow> map_get (ld_accounts db') (mg_sourceCustomerId dto) = Some (source_emptied a)"
    "\<forall>c. c \<noteq> mg_sourceCustomerId dto \<and> c \<noteq> mg_targetCustomerId dto \<longrightarrow> map_get (ld_accounts db') c = map_get (ld_accounts db) c"
proof -
  let ?c = "mg_targetCustomerId dto" and ?s = "mg_sourceCustomerId dto"
  from assms(2) obtain ta0 db1 ta1 db2 where run: "target_wallet ids ?c t db = Inr (ta0, db1)" "move_points ids key u dto s t ta0 db1 = Inr (n, ta1, db2)"
      "save_account ta db2 = Inr db'" "la_customerId ta = la_customerId ta1" "la_posted ta = la_posted ta1"
    by (auto simp: merge_wallets_def Let_def ok_simps)
  have t0: "loyalty_ok db1" "map_get (ld_accounts db1) ?c = Some ta0" using target_wallet_ok [OF assms(1) run(1)] by auto
  have c: "la_customerId ta0 = ?c" using loyalty_okD(3) [OF t0] by simp
  note others = target_wallet_others(1) [OF run(1)] and bal = target_wallet_others(2) [OF run(1)]
  have acc: "ld_accounts db' = map_set (la_customerId ta) ta (ld_accounts db2)" using save_account_Inr [OF run(3)] by simp
  have src: "map_get (ld_accounts db1) ?s = map_get (ld_accounts db) ?s" using others [OF assms(3)] .
  have "(map_get (ld_accounts db') ?c = Some ta \<and> la_posted ta = balance_of_wallet ?s db + balance_of_wallet ?c db) \<and> n = balance_of_wallet ?s db \<and>
    (map_get (ld_accounts db) ?s = None \<longrightarrow> map_get (ld_accounts db') ?s = None) \<and>
    (\<forall>a. map_get (ld_accounts db) ?s = Some a \<longrightarrow> map_get (ld_accounts db') ?s = Some (source_emptied a)) \<and>
    (\<forall>k. k \<noteq> ?s \<and> k \<noteq> ?c \<longrightarrow> map_get (ld_accounts db') k = map_get (ld_accounts db) k)"
    using run(2)
  proof (cases rule: move_points_shape)
    case alone
    then show ?thesis using run(2,4,5) acc c bal src others assms(3) by (simp add: move_points_def balance_of_wallet_def)
  next
    case (moved sa)
    have sc: "la_customerId sa = ?s" using loyalty_okD(3) [OF t0(1) moved(1)] by simp
    have "map_get (ld_accounts db) ?s = Some sa" using src moved(1) by simp
    then show ?thesis using sc run(4,5) acc c bal others assms(3) moved(2-4) by (simp add: balance_of_wallet_def)
  qed
  then show "map_get (ld_accounts db') ?c = Some ta \<and> la_posted ta = balance_of_wallet ?s db + balance_of_wallet ?c db" "n = balance_of_wallet ?s db"
    "map_get (ld_accounts db) ?s = None \<Longrightarrow> map_get (ld_accounts db') ?s = None"
    "\<And>a. map_get (ld_accounts db) ?s = Some a \<Longrightarrow> map_get (ld_accounts db') ?s = Some (source_emptied a)"
    "\<forall>c. c \<noteq> ?s \<and> c \<noteq> ?c \<longrightarrow> map_get (ld_accounts db') c = map_get (ld_accounts db) c" by blast+
qed

text \<open>
  The line a merge takes off the source is unique by the id of the target: once a customer with points has been merged into a
  target, no other customer with points can be.
\<close>

lemma second_merge_refused:
  assumes "o1 \<in> set (ld_txs db)" "lt_type o1 = MERGE_OUT" "lt_sourceRefId o1 = mg_targetCustomerId dto"
    and "map_get (ld_accounts db) (mg_sourceCustomerId dto) = Some sa" "la_posted sa \<noteq> 0"
  shows "\<not> is_ok (move_points ids key u dto s t ta db)"
proof -
  have "list_ex (tx_clash (merge_out_tx ids key u dto t sa)) (ld_txs db)"
    using assms(1-3) by (auto simp: list_ex_iff tx_clash_def merge_out_tx_def)
  then have "\<not> is_ok (insert_tx (merge_out_tx ids key u dto t sa) db)" by (auto simp: insert_tx_def is_ok_def throw_if_def ebind_def split: sum.splits)
  then show ?thesis using assms(4,5) by (auto simp: move_points_def is_ok_def ebind_def split: sum.splits)
qed

section \<open>A sample wallet\<close>

text \<open>A customer buys for 250000, holds 10 of the 25 points earned, redeems them, and returns goods for 100000.\<close>

definition loyalty_ids :: "string \<Rightarrow> LoyaltyIds" where
  "loyalty_ids x = \<lparr>new_account = ''A'' @ x, new_hold = ''H'' @ x, new_tx = ''T'' @ x, new_rev_tx = ''R'' @ x, new_key = ''K'' @ x\<rparr>"

definition wallet_customers :: LoyaltyDb where
  "wallet_customers = loyalty_empty\<lparr>ld_customers := [(''c1'', \<lparr>cu_code = ''KH1'', cu_status = ''ACTIVE'', cu_deleted = False,
     cu_membershipTierId = None, cu_phone = None, cu_phoneNormalized = None, cu_email = None, cu_mergedInto = None, cu_version = 1\<rparr>)],
     ld_tiers := [], ld_addresses := []\<rparr>"

definition twin_customers :: "(string, CustomerRow) jsmap" where
  "twin_customers = ld_customers wallet_customers @ map (\<lambda>(_, c). (''c2'', c\<lparr>cu_code := ''KH2''\<rparr>)) (ld_customers wallet_customers)"

definition wallet_payload :: OrderCompletedPayload where
  "wallet_payload = \<lparr>oc_eventId = ''e1'', oc_customerId = Some ''c1'', oc_orderId = ''o1'', oc_code = ''SO1'', oc_branchId = None, oc_subtotal = Some (Fin 250000),
     oc_discountTotal = None, oc_grandTotal = None, oc_totalAmount = Fin 250000, oc_completedAt = Some 0\<rparr>"


definition wallet_hold :: CreateLoyaltyHoldDto where
  "wallet_hold = \<lparr>ch_customerId = ''c1'', ch_points = Fin 10, ch_sourceRefType = None, ch_sourceRefId = ''o2'', ch_callerService = None, ch_ttlSeconds = None,
     ch_idempotencyKey = Some ''k1''\<rparr>"

definition wallet_return :: CompletedReturn where
  "wallet_return = \<lparr>cr_eventId = ''e2'', cr_returnId = ''r1'', cr_returnCode = ''SR1'', cr_orderId = ''o1'', cr_customerId = Some ''c1'', cr_refundAmountVnd = Num (Fin 100000)\<rparr>"

definition wallet_sold :: LoyaltyDb where
  "wallet_sold = projr (onSalesOrderCompleted (\<lambda>_ _. 0) (loyalty_ids ''1'') 0 wallet_payload wallet_customers)"

definition wallet_held :: LoyaltyDb where
  "wallet_held = snd (projr (createHold (\<lambda>_ _ _ _. ''d'') (loyalty_ids ''2'') 0 None wallet_hold wallet_sold wallet_sold))"

definition wallet_returned :: LoyaltyDb where
  "wallet_returned = snd (projr (processCompletedReturn (\<lambda>_ _. 0) (loyalty_ids ''3'') 0 wallet_return wallet_held))"

lemma wallet_sold_ok: "onSalesOrderCompleted (\<lambda>_ _. 0) (loyalty_ids ''1'') 0 wallet_payload wallet_customers = Inr wallet_sold"
  by code_simp

lemma wallet_reach: "loyalty_reach wallet_customers" "loyalty_reach wallet_sold"
proof -
  show "loyalty_reach wallet_customers" unfolding wallet_customers_def by (rule loyalty_next [OF loyalty_start customers_edited])
  then show "loyalty_reach wallet_sold" by (rule loyalty_next [OF _ order_completed [OF wallet_sold_ok]])
qed

lemma ok_value:
  assumes "is_ok x"
  shows "\<exists>r. x = Inr (r, snd (projr x))"
  using assms by (cases x) auto

lemma wallet_held_reach: "loyalty_reach wallet_held"
proof -
  have "is_ok (createHold (\<lambda>_ _ _ _. ''d'') (loyalty_ids ''2'') 0 None wallet_hold wallet_sold wallet_sold)" by code_simp
  then obtain r where "createHold (\<lambda>_ _ _ _. ''d'') (loyalty_ids ''2'') 0 None wallet_hold wallet_sold wallet_sold = Inr (r, wallet_held)"
    unfolding wallet_held_def using ok_value by blast
  from hold_created [OF this disjI1 [OF refl]] show ?thesis by (rule loyalty_next [OF wallet_reach(2)])
qed

lemma wallet_returned_reach: "loyalty_reach wallet_returned"
proof -
  have "is_ok (processCompletedReturn (\<lambda>_ _. 0) (loyalty_ids ''3'') 0 wallet_return wallet_held)" by code_simp
  then obtain r where "processCompletedReturn (\<lambda>_ _. 0) (loyalty_ids ''3'') 0 wallet_return wallet_held = Inr (r, wallet_returned)"
    unfolding wallet_returned_def using ok_value by blast
  then show ?thesis by (intro loyalty_next [OF wallet_held_reach return_completed])
qed

section \<open>Properties\<close>

text \<open>
  C14: the books of the wallets balance. However the operations of the service have been interleaved, the reconciliation
  reports no discrepancy: the posted balance of every wallet is the sum of its ledger and its held points the sum of its
  open holds, also when the reconciliation expires overdue holds first.
\<close>

theorem loyalty_books_balance:
  assumes "loyalty_reach db" "reconcileTenantLoyalty ids order locked dbNow now db = Inr ((checked, swept, discrepancies), db')"
  shows "account_discrepancies db = [] \<and> discrepancies = [] \<and> loyalty_reach db' \<and> checked = length (ld_accounts db')"
proof -
  note reach' = loyalty_next [OF assms(1) reconciled [OF assms(2)]]
  have "discrepancies = account_discrepancies db'" "checked = length (ld_accounts db')"
    using assms(2) by (auto simp: reconcileTenantLoyalty_def ok_simps)
  then show ?thesis using reach' no_discrepancies loyalty_reach_ok assms(1) by blast
qed

theorem loyalty_books_balance_witness:
  "account_discrepancies wallet_returned = [] \<and>
   (\<exists>db'. reconcileTenantLoyalty (loyalty_ids ''4'') (\<lambda>hs. hs) (\<lambda>_. False) 900000 900000 wallet_returned = Inr ((1, 1, []), db'))"
proof -
  let ?run = "reconcileTenantLoyalty (loyalty_ids ''4'') (\<lambda>hs. hs) (\<lambda>_. False) 900000 900000 wallet_returned"
  have "is_ok ?run \<and> fst (fst (projr ?run)) = 1 \<and> fst (snd (fst (projr ?run))) = 1" by code_simp
  then obtain ds db' where run: "?run = Inr ((1, 1, ds), db')" by (cases ?run) auto
  show ?thesis using loyalty_books_balance [OF wallet_returned_reach run] run by blast
qed

text \<open>
  C15: a hold takes only points the customer has. A new hold is for a positive whole number of points, not below the minimum
  and not above the maximum of the settings, that the wallet had available: after it the held points are still covered by
  the balance. It is worth its points times the redemption rate.
\<close>

theorem hold_takes_available_points:
  assumes "loyalty_reach db" "createHold_tx digest ids now header dto db = Inr ((h, a, False), db')"
  shows "lh_state h = LH_HELD \<and> 0 < lh_points h \<and> map_get (ld_accounts db') (lh_customerId h) = Some a \<and> map_get (ld_holds db') (lh_id h) = Some h \<and>
    la_held a \<le> la_posted a \<and>
    (\<exists>settings. fst (getOrCreateSettingsInTx db) = settings \<and> isEnabled settings \<and> minRedeemPoints settings \<le> lh_points h \<and>
       (\<forall>m. maxRedeemPointsPerOrder settings = Some m \<longrightarrow> lh_points h \<le> m) \<and> lh_discountValueVnd h = lh_points h * redeemValuePerPoint settings)"
proof -
  note ok = loyalty_reach_ok [OF assms(1)]
  from assms(2) obtain settings db1 and a0 :: LoyaltyAccount and v where f: "getOrCreateSettingsInTx db = (settings, db1)" "lh_state h = LH_HELD"
      "validatePointRedemption (ch_points dto) (la_posted a0) (la_held a0) settings = Inr v" "lh_points h = rd_requestedPoints v"
      "lh_discountValueVnd h = rd_discountValueVnd v"
    by (rule createHold_tx_valid)
  show ?thesis using createHold_tx_ok(2) [OF ok assms(2)] validatePointRedemption_sound [OF f(3)] f by simp
qed

theorem hold_takes_available_points_witness:
  "\<exists>h a db'. createHold_tx (\<lambda>_ _ _ _. ''d'') (loyalty_ids ''2'') 0 None wallet_hold wallet_sold = Inr ((h, a, False), db') \<and> lh_points h = 10 \<and>
     la_posted a = 25 \<and> la_held a \<le> la_posted a \<and> lh_discountValueVnd h = 10000"
proof -
  let ?run = "createHold_tx (\<lambda>_ _ _ _. ''d'') (loyalty_ids ''2'') 0 None wallet_hold wallet_sold"
  have val: "is_ok ?run \<and> \<not> snd (snd (fst (projr ?run))) \<and> la_posted (fst (snd (fst (projr ?run)))) = 25 \<and> lh_points (fst (fst (projr ?run))) = 10 \<and>
    lh_discountValueVnd (fst (fst (projr ?run))) = 10000" by code_simp
  then obtain h a db' where run: "?run = Inr ((h, a, False), db')" by (cases ?run) auto
  show ?thesis using hold_takes_available_points [OF wallet_reach(2) run] run val by auto
qed

text \<open>
  C16: points are redeemed once. A hold that is committed takes its points off the balance and off the held points of the
  wallet; committing it again, at any time, answers the same hold without changing anything, and it cannot be released.
\<close>

theorem points_redeemed_once:
  assumes "loyalty_reach db" "commitHold ids now i orderId actorId db = Inr ((h, a, False), db')"
  shows "(\<exists>h0 a0. map_get (ld_holds db) i = Some h0 \<and> lh_state h0 = LH_HELD \<and> now < lh_expiresAt h0 \<and>
      map_get (ld_accounts db) (lh_customerId h0) = Some a0 \<and>
      la_posted a = la_posted a0 - lh_points h0 \<and> la_held a = la_held a0 - lh_points h0) \<and>
    commitHold ids' now' i orderId' actorId' db' = Inr ((h, a, True), db') \<and>
    releaseHold ids' now' i reason db' = Inl (cust_error LOYALTY_HOLD_ALREADY_COMMITTED 409)"
proof -
  obtain h0 a0 where f: "map_get (ld_holds db) i = Some h0" "lh_state h0 = LH_HELD" "map_get (ld_accounts db) (lh_customerId h0) = Some a0"
    "la_posted a = la_posted a0 - lh_points h0" "la_held a = la_held a0 - lh_points h0" "map_get (ld_holds db') i = Some h" "lh_state h = LH_COMMITTED"
    "map_get (ld_accounts db') (lh_customerId h) = Some a" "now < lh_expiresAt h0" "lh_points h = lh_points h0"
    using commit_facts [OF loyalty_reach_ok [OF assms(1)] assms(2)] by blast
  have "commitHold ids' now' i orderId' actorId' db' = Inr ((h, a, True), db')"
    by (simp add: commitHold_def find_hold_def f(6,7) ensure_existing [OF f(8)])
  moreover have "releaseHold ids' now' i reason db' = Inl (cust_error LOYALTY_HOLD_ALREADY_COMMITTED 409)"
    by (simp add: releaseHold_def find_hold_def f(6,7) ensure_existing [OF f(8)])
  ultimately show ?thesis using f(1-5,9) by blast
qed

theorem points_redeemed_once_witness:
  "\<exists>h a db'. commitHold (loyalty_ids ''5'') 1000 ''H2'' (Some ''o2'') None wallet_held = Inr ((h, a, False), db') \<and> la_posted a = 15 \<and> la_held a = 0 \<and>
     commitHold (loyalty_ids ''6'') 2000000 ''H2'' None None db' = Inr ((h, a, True), db')"
proof -
  let ?run = "commitHold (loyalty_ids ''5'') 1000 ''H2'' (Some ''o2'') None wallet_held"
  have val: "is_ok ?run \<and> \<not> snd (snd (fst (projr ?run))) \<and> la_posted (fst (snd (fst (projr ?run)))) = 15 \<and> la_held (fst (snd (fst (projr ?run)))) = 0" by code_simp
  then obtain h a db' where run: "?run = Inr ((h, a, False), db')" by (cases ?run) auto
  show ?thesis using points_redeemed_once [OF wallet_held_reach run, of "loyalty_ids ''6''" 2000000 None None] run val by auto
qed



text \<open>
  C18: returns take back the right share. For an order that earned points on an amount, the ledger has taken back exactly the
  refunded share of the points, rounded down, all of them once the refunds reach the amount, never more than were
  earned, whether the returns came before or after the order; and the purchase row shows the same figure.
\<close>

theorem order_points_clawed_back:
  assumes "loyalty_reach db" "find_earn oid db = Some earn"
  shows "\<exists>p spend. map_get (ld_projections db) oid = Some p \<and> lt_eligibleSpendAmount earn = Some spend \<and> 0 < spend \<and>
    reversed_total oid db = (if spend \<le> pp_returnedAmount p then lt_pointsDelta earn else lt_pointsDelta earn * pp_returnedAmount p div spend) \<and>
    pp_reversedPoints p = reversed_total oid db \<and> 0 \<le> reversed_total oid db \<and> reversed_total oid db \<le> lt_pointsDelta earn"
proof -
  have ok: "order_points_ok oid db" using loyalty_reach_books [OF assms(1)] by (simp add: books_ok_def)
  then obtain p spend where p: "map_get (ld_projections db) oid = Some p" "lt_eligibleSpendAmount earn = Some spend" "0 < spend"
      "0 < lt_pointsDelta earn" "reversed_total oid db = reversal_target (lt_pointsDelta earn) spend (pp_returnedAmount p)"
      "0 \<le> pp_returnedAmount p" "pp_reversedPoints p = reversed_total oid db"
    using assms(2) by (auto simp: order_points_ok_def)
  have "0 \<le> reversed_total oid db" "reversed_total oid db \<le> lt_pointsDelta earn" using reversal_target_bounds [of "lt_pointsDelta earn" spend] p by simp_all
  then show ?thesis using p by (intro exI [of _ p] exI [of _ spend]) (simp add: reversal_target_def)
qed

theorem order_points_clawed_back_witness:
  "\<exists>earn p. find_earn ''o1'' wallet_returned = Some earn \<and> lt_pointsDelta earn = 25 \<and> map_get (ld_projections wallet_returned) ''o1'' = Some p \<and>
     pp_returnedAmount p = 100000 \<and> reversed_total ''o1'' wallet_returned = 10"
proof -
  have val: "find_earn ''o1'' wallet_returned \<noteq> None \<and> lt_pointsDelta (the (find_earn ''o1'' wallet_returned)) = 25 \<and>
      lt_eligibleSpendAmount (the (find_earn ''o1'' wallet_returned)) = Some 250000" by code_simp
  have row: "pp_returnedAmount (the (map_get (ld_projections wallet_returned) ''o1'')) = 100000" by code_simp
  obtain earn where earn: "find_earn ''o1'' wallet_returned = Some earn" using val by blast
  show ?thesis using order_points_clawed_back [OF wallet_returned_reach earn] earn val row by auto
qed

text \<open>
  C20: a merge moves the points. After a merge the wallet of the target holds what both customers had, the wallet of the source is
  closed and holds nothing, the record of the merge says how much was moved, no purchase is left with the source, and no
  other wallet has changed.
\<close>

theorem merge_moves_points:
  assumes "loyalty_reach db" "mergeCustomers collate pick ids u header dto db = Inr ((False, Some m), db')"
  shows "(\<exists>ta. map_get (ld_accounts db') (mg_targetCustomerId dto) = Some ta \<and>
      la_posted ta = balance_of_wallet (mg_sourceCustomerId dto) db + balance_of_wallet (mg_targetCustomerId dto) db) \<and>
    (\<forall>sa. map_get (ld_accounts db') (mg_sourceCustomerId dto) = Some sa \<longrightarrow> la_posted sa = 0 \<and> la_held sa = 0 \<and> la_status sa = LA_CLOSED) \<and>
    mr_transferredPoints m = balance_of_wallet (mg_sourceCustomerId dto) db \<and>
    (\<forall>oid p. map_get (ld_projections db') oid = Some p \<longrightarrow> pp_customerId p \<noteq> mg_sourceCustomerId dto) \<and>
    (\<forall>c. c \<noteq> mg_sourceCustomerId dto \<and> c \<noteq> mg_targetCustomerId dto \<longrightarrow> map_get (ld_accounts db') c = map_get (ld_accounts db) c)"
proof -
  let ?s = "mg_sourceCustomerId dto" and ?t = "mg_targetCustomerId dto"
  note ok = loyalty_reach_ok [OF assms(1)]
  obtain s t where ne: "?s \<noteq> ?t" and none: "activeHoldsCount ?s db = 0"
    and now: "merge_now collate ids (merge_key header dto) u dto s t db = Inr (m, db')" using merge_runs [OF assms(2)] by blast
  obtain n tierId ta db1 where run: "merge_wallets collate ids (merge_key header dto) u dto s t db = Inr (n, tierId, ta, db1)"
    and db': "ld_accounts db' = ld_accounts db1" "ld_projections db' = move_projections ?s ?t (ld_projections db1)" "mr_transferredPoints m = n"
    using merge_now_fields [OF now] by metis
  note w = merge_wallets_accounts [OF ok run ne]
  have "\<forall>sa. map_get (ld_accounts db') ?s = Some sa \<longrightarrow> la_posted sa = 0 \<and> la_held sa = 0 \<and> la_status sa = LA_CLOSED"
    using w(3,4) nothing_held [OF ok none] db'(1) by (cases "map_get (ld_accounts db) ?s") (auto simp: source_emptied_def)
  moreover have "\<forall>oid p. map_get (ld_projections db') oid = Some p \<longrightarrow> pp_customerId p \<noteq> ?s"
    using moved_projection_customer [OF ne] db'(2) by (auto simp: move_projections_get)
  ultimately show ?thesis using w(1,2,5) db'(1,3) by simp
qed

theorem merge_moves_points_witness:
  "\<exists>m db'. mergeCustomers (\<lambda>_ _. 0) hd (loyalty_ids ''7'') ''u'' None \<lparr>mg_sourceCustomerId = ''c1'', mg_targetCustomerId = ''c2'', mg_reason = None,
      mg_idempotencyKey = None\<rparr> (wallet_sold\<lparr>ld_customers := twin_customers, ld_tiers := [], ld_addresses := []\<rparr>) = Inr ((False, Some m), db') \<and>
     mr_transferredPoints m = 25 \<and> balance_of_wallet ''c2'' db' = 25"
proof -
  let ?db = "wallet_sold\<lparr>ld_customers := twin_customers, ld_tiers := [], ld_addresses := []\<rparr>"
  let ?dto = "\<lparr>mg_sourceCustomerId = ''c1'', mg_targetCustomerId = ''c2'', mg_reason = None, mg_idempotencyKey = None\<rparr> :: MergeCustomersDto"
  let ?run = "mergeCustomers (\<lambda>_ _. 0) hd (loyalty_ids ''7'') ''u'' None ?dto ?db"
  have val: "is_ok ?run \<and> \<not> fst (fst (projr ?run)) \<and> snd (fst (projr ?run)) \<noteq> None" by code_simp
  have bal: "balance_of_wallet ''c1'' ?db = 25 \<and> balance_of_wallet ''c2'' ?db = 0" by code_simp
  obtain m db' where run: "?run = Inr ((False, Some m), db')" using val by (cases ?run) auto
  have "loyalty_reach ?db" by (rule loyalty_next [OF wallet_reach(2) customers_edited])
  from merge_moves_points [OF this run] show ?thesis using run bal by (auto simp: balance_of_wallet_def [of _ db'])
qed

text \<open>
  An overdue hold is not expired by the attempt to commit it: the request fails and its transaction is undone, so the
  points stay held until the sweep runs.
\<close>

lemma expired_commit_refused:
  assumes "loyalty_ok db" "map_get (ld_holds db) i = Some h" "lh_state h = LH_HELD" "lh_expiresAt h \<le> now"
  shows "\<not> is_ok (commitHold ids now i orderId actorId db)"
proof -
  obtain a where a: "ensureAccountInTx ids (lh_customerId h) db = Inr (a, db)" using hold_wallet [OF assms(1,2)] by blast
  show ?thesis using assms(3,4) by (auto simp: commitHold_def find_hold_def assms(2) a is_ok_def ok_simps split: sum.splits)
qed

end
